(* ===== verification/Prelude.thy ===== *)
theory Prelude
  imports Main "HOL-Library.Word"
begin

text \<open>
  Shared vocabulary of the development: machine integers, byte strings and their
  little-endian encodings, fallible stateful actions (the \<open>async fn\<close>s of the firmware that
  take \<open>&mut self\<close> and return \<open>Result\<close>), and the list lemmas the component theories use.

  Machine model. Fixed-width integers of the source are words, so \<open>+\<close>, \<open>-\<close> and \<open>*\<close> wrap, as
  they do in the release builds of the firmware and as \<open>wrapping_add\<close>, \<open>wrapping_sub\<close> do in
  every build. A \<open>usize\<close> is a \<open>nat\<close>: the sizes of the source are bounded by its address
  space, so its sums and products do not overflow; where the source subtracts two \<open>usize\<close>
  values without a guard, the model uses \<open>usize_sub\<close>, which wraps at 32 bits below zero.
\<close>

unbundle bit_operations_syntax

section \<open>Machine integers and byte strings\<close>

type_synonym u8 = "8 word"
type_synonym u16 = "16 word"
type_synonym u32 = "32 word"
type_synonym u64 = "64 word"
type_synonym bytes = "8 word list"

definition usize_sub :: "nat \<Rightarrow> nat \<Rightarrow> nat" where
  "usize_sub a b = (if b \<le> a then a - b else a + 2 ^ 32 - b)"

definition u16_to_le :: "u16 \<Rightarrow> bytes" where
  "u16_to_le w = [ucast w, ucast (drop_bit 8 w)]"

definition u32_to_le :: "u32 \<Rightarrow> bytes" where
  "u32_to_le w = [ucast w, ucast (drop_bit 8 w), ucast (drop_bit 16 w), ucast (drop_bit 24 w)]"

fun u16_from_le :: "bytes \<Rightarrow> u16" where
  "u16_from_le [a, b] = ucast a OR push_bit 8 (ucast b)"
| "u16_from_le _ = 0"

fun u32_from_le :: "bytes \<Rightarrow> u32" where
  "u32_from_le [a, b, c, d] =
     ucast a OR push_bit 8 (ucast b) OR push_bit 16 (ucast c) OR push_bit 24 (ucast d)"
| "u32_from_le _ = 0"

text \<open>The part \<open>xs[off..off + n]\<close> of a buffer, and \<open>slice::chunks\<close>.\<close>

definition seg :: "nat \<Rightarrow> nat \<Rightarrow> 'a list \<Rightarrow> 'a list" where
  "seg off n xs = take n (drop off xs)"

function chunks :: "nat \<Rightarrow> 'a list \<Rightarrow> 'a list list" where
  "chunks n xs = (if xs = [] \<or> n = 0 then [] else take n xs # chunks n (drop n xs))"
  by pat_completeness auto
termination
  by (relation "measure (\<lambda>(n, xs). length xs)") auto

declare chunks.simps [simp del]

section \<open>Results and stateful actions\<close>

type_synonym ('a, 'e) result = "'e + 'a"

abbreviation Ok :: "'a \<Rightarrow> ('a, 'e) result" where
  "Ok \<equiv> Inr"

abbreviation Err :: "'e \<Rightarrow> ('a, 'e) result" where
  "Err \<equiv> Inl"

type_synonym ('s, 'a, 'e) action = "'s \<Rightarrow> ('a, 'e) result \<times> 's"

definition ret :: "'a \<Rightarrow> ('s, 'a, 'e) action" where
  "ret x s = (Ok x, s)"

definition throw :: "'e \<Rightarrow> ('s, 'a, 'e) action" where
  "throw e s = (Err e, s)"

text \<open>\<open>and_then m k\<close> is \<open>let x = m?; k(x)\<close>: an error of \<open>m\<close> ends the function.\<close>

definition and_then ::
  "('s, 'a, 'e) action \<Rightarrow> ('a \<Rightarrow> ('s, 'b, 'e) action) \<Rightarrow> ('s, 'b, 'e) action" where
  "and_then m k s = (case m s of (Err e, s') \<Rightarrow> (Err e, s') | (Ok x, s') \<Rightarrow> k x s')"

text \<open>\<open>attempt m k\<close> passes the result of \<open>m\<close> on, error or not (a \<open>match\<close> on it).\<close>

definition attempt ::
  "('s, 'a, 'e) action \<Rightarrow> (('a, 'e) result \<Rightarrow> ('s, 'b, 'd) action) \<Rightarrow> ('s, 'b, 'd) action" where
  "attempt m k s = (case m s of (r, s') \<Rightarrow> k r s')"

definition map_err :: "('e \<Rightarrow> 'd) \<Rightarrow> ('s, 'a, 'e) action \<Rightarrow> ('s, 'a, 'd) action" where
  "map_err g m s = (case m s of (Err e, s') \<Rightarrow> (Err (g e), s') | (Ok x, s') \<Rightarrow> (Ok x, s'))"

definition of_result :: "('e \<Rightarrow> 'd) \<Rightarrow> ('a, 'e) result \<Rightarrow> ('s, 'a, 'd) action" where
  "of_result g r s = (case r of Err e \<Rightarrow> (Err (g e), s) | Ok x \<Rightarrow> (Ok x, s))"

named_theorems action_defs \<open>definitions of the action combinators\<close>

declare ret_def [action_defs] throw_def [action_defs] and_then_def [action_defs]
  attempt_def [action_defs] map_err_def [action_defs] of_result_def [action_defs]

section \<open>Lemmas\<close>

subsection \<open>Little-endian encodings\<close>

lemma length_u16_to_le [simp]: "length (u16_to_le w) = 2"
  by (simp add: u16_to_le_def)

lemma length_u32_to_le [simp]: "length (u32_to_le w) = 4"
  by (simp add: u32_to_le_def)

lemma u16_le_roundtrip [simp]: "u16_from_le (u16_to_le w) = w"
  by (rule bit_word_eqI) (auto simp: u16_to_le_def bit_simps)

lemma u32_le_roundtrip [simp]: "u32_from_le (u32_to_le w) = w"
proof (rule bit_word_eqI)
  fix n assume "n < LENGTH(32)"
  then consider "n < 8" | "8 \<le> n \<and> n < 16" | "16 \<le> n \<and> n < 24" | "24 \<le> n \<and> n < 32"
    by fastforce
  then show "bit (u32_from_le (u32_to_le w)) n = bit w n"
    by cases (auto simp: u32_to_le_def bit_simps)
qed

subsection \<open>Slices\<close>

lemma length_seg [simp]: "length (seg off n xs) = min n (length xs - off)"
  by (simp add: seg_def)

lemma nth_seg [simp]: "i < n \<Longrightarrow> off + i < length xs \<Longrightarrow> seg off n xs ! i = xs ! (off + i)"
  by (simp add: seg_def)

lemma seg_0 [simp]: "seg off 0 xs = []"
  by (simp add: seg_def)

lemma seg_eqI:
  assumes "off + n \<le> length xs" and "length ys = n"
    and "\<And>i. i < n \<Longrightarrow> xs ! (off + i) = ys ! i"
  shows "seg off n xs = ys"
  using assms by (auto intro: nth_equalityI)

lemma seg_eqD:
  assumes "seg off n xs = ys" and "i < n" and "off + i < length xs"
  shows "xs ! (off + i) = ys ! i"
  using assms by auto

lemma seg_cong:
  assumes "length xs = length ys" and "\<And>i. off \<le> i \<Longrightarrow> i < off + n \<Longrightarrow> i < length ys \<Longrightarrow> xs ! i = ys ! i"
  shows "seg off n xs = seg off n ys"
  using assms by (auto simp: seg_def intro!: nth_equalityI)

lemma seg_seg: "m + k \<le> n \<Longrightarrow> seg m k (seg off n xs) = seg (off + m) k xs"
  by (simp add: seg_def drop_take add.commute)

lemma take_seg: "m \<le> n \<Longrightarrow> take m (seg off n xs) = seg off m xs"
  by (simp add: seg_def)

lemma seg_append_seg:
  "seg off a xs @ seg (off + a) b xs = seg off (a + b) xs"
  by (simp add: seg_def take_add add.commute)

subsection \<open>Chunks\<close>

lemma chunks_Nil [simp]: "chunks n [] = []"
  by (simp add: chunks.simps)

lemma concat_chunks: "0 < n \<Longrightarrow> concat (chunks n xs) = xs"
proof (induction n xs rule: chunks.induct)
  case (1 n xs)
  then show ?case
    by (cases "xs = []") (simp_all add: chunks.simps [of n xs])
qed

subsection \<open>Actions\<close>

lemma and_then_Ok [simp]: "m s = (Ok x, s') \<Longrightarrow> and_then m k s = k x s'"
  by (simp add: and_then_def)

lemma and_then_Err [simp]: "m s = (Err e, s') \<Longrightarrow> and_then m k s = (Err e, s')"
  by (simp add: and_then_def)

lemma and_then_OkE:
  assumes "and_then m k s = (Ok y, t)"
  obtains x s' where "m s = (Ok x, s')" and "k x s' = (Ok y, t)"
  using assms by (auto simp: and_then_def split: prod.splits sum.splits)

lemma and_thenE:
  assumes "and_then m k s = (r, t)"
  obtains (err) e where "m s = (Err e, t)" and "r = Err e"
  | (ok) x s' where "m s = (Ok x, s')" and "k x s' = (r, t)"
  using assms by (auto simp: and_then_def split: prod.splits sum.splits)

lemma and_then_map_errE:
  assumes "and_then (map_err g m) k s = (r, t)"
  obtains (err) e where "m s = (Err e, t)" and "r = Err (g e)"
  | (ok) x s' where "m s = (Ok x, s')" and "k x s' = (r, t)"
  using assms by (auto simp: and_then_def map_err_def split: prod.splits sum.splits)

lemma map_errE:
  assumes "map_err g m s = (r, t)"
  obtains r' where "m s = (r', t)" and "\<And>x. r = Ok x \<longleftrightarrow> r' = Ok x"
  using assms by (cases "m s") (auto simp: map_err_def split: sum.splits)

lemma map_err_OkE:
  assumes "map_err g m s = (Ok y, t)"
  obtains "m s = (Ok y, t)"
  using assms by (auto simp: map_err_def split: prod.splits sum.splits)

lemma map_err_Ok [simp]: "m s = (Ok x, s') \<Longrightarrow> map_err g m s = (Ok x, s')"
  by (simp add: map_err_def)

lemma map_err_Err [simp]: "m s = (Err e, s') \<Longrightarrow> map_err g m s = (Err (g e), s')"
  by (simp add: map_err_def)

lemma snd_map_err [simp]: "snd (map_err g m s) = snd (m s)"
  by (auto simp: map_err_def split: prod.splits sum.splits)

lemma map_err_eq_Ok [simp]: "map_err g m s = (Ok x, t) \<longleftrightarrow> m s = (Ok x, t)"
  by (auto simp: map_err_def split: prod.splits sum.splits)

lemma ret_simp [simp]: "ret x s = (Ok x, s)"
  by (simp add: ret_def)

lemma throw_simp [simp]: "throw e s = (Err e, s)"
  by (simp add: throw_def)

end
