(* ===== verification/Nor_Flash.thy ===== *)
theory Nor_Flash
  imports Prelude
begin

text \<open>
  The flash interface below the database and the repository's in-memory flash.

  The block layer is generic over the traits \<open>ReadNorFlash\<close> and \<open>NorFlash\<close> of the crate
  \<open>embedded_storage_async\<close>, which is not part of the repository: an implementation is the
  record \<open>nor_flash\<close>, an argument of every definition that uses it. What the block layer relies
  on is the locale \<open>nor_flash_contract\<close>: reads return the stored bytes, a write touches no byte
  outside its range, stores its bytes on erased cells and never erases a byte, an erase sets its range to \<open>0xFF\<close>. An
  operation that fails (or loses power half way) may leave anything in the range it was given.
  \<open>reliable_nor_flash\<close> adds that operations inside the device succeed.

  The model of \<open>storage/backend/in_memory.rs\<close>, with its injected faults, satisfies the first
  locale in every state and the second when no fault is armed.
\<close>

section \<open>The driver interface\<close>

record ('f, 'e) nor_flash =
  nf_read :: "u32 \<Rightarrow> nat \<Rightarrow> ('f, bytes, 'e) action"
  nf_write :: "u32 \<Rightarrow> bytes \<Rightarrow> ('f, unit, 'e) action"
  nf_erase :: "u32 \<Rightarrow> u32 \<Rightarrow> ('f, unit, 'e) action"
  nf_capacity :: "'f \<Rightarrow> nat"
  nf_erase_size :: nat

section \<open>InMemoryFlash\<close>

datatype nor_flash_error_kind = NotAligned | OutOfBounds | OtherKind

text \<open>\<open>SlicePanic\<close> is the panic of \<open>memory[from..to]\<close> when \<open>from > to\<close>.\<close>

datatype mock_error = MockError nor_flash_error_kind | SlicePanic

record in_memory_flash =
  memory :: bytes
  countdown_erase_error :: "(u32 \<times> mock_error) option"
  countdown_write_error :: "(u32 \<times> mock_error) option"
  countdown_read_error :: "(u32 \<times> mock_error) option"
  read_count :: u64
  write_count :: u64
  erase_count :: u64

definition in_memory_new :: "nat \<Rightarrow> in_memory_flash" where
  "in_memory_new total_size =
     \<lparr>memory = replicate total_size 0xFF, countdown_erase_error = None,
      countdown_write_error = None, countdown_read_error = None,
      read_count = 0, write_count = 0, erase_count = 0\<rparr>"

definition reset_stats :: "in_memory_flash \<Rightarrow> in_memory_flash" where
  "reset_stats f = f\<lparr>read_count := 0, write_count := 0, erase_count := 0\<rparr>"

definition trigger_read_error_after :: "u32 \<Rightarrow> mock_error \<Rightarrow> in_memory_flash \<Rightarrow> in_memory_flash" where
  "trigger_read_error_after nth_op error f = f\<lparr>countdown_read_error := Some (nth_op, error)\<rparr>"

definition trigger_write_error_after :: "u32 \<Rightarrow> mock_error \<Rightarrow> in_memory_flash \<Rightarrow> in_memory_flash" where
  "trigger_write_error_after nth_op error f = f\<lparr>countdown_write_error := Some (nth_op, error)\<rparr>"

definition trigger_erase_error_after :: "u32 \<Rightarrow> mock_error \<Rightarrow> in_memory_flash \<Rightarrow> in_memory_flash" where
  "trigger_erase_error_after nth_op error f = f\<lparr>countdown_erase_error := Some (nth_op, error)\<rparr>"

fun trigger_error_on_countdown ::
  "(u32 \<times> mock_error) option \<Rightarrow> (unit, mock_error) result \<times> (u32 \<times> mock_error) option" where
  "trigger_error_on_countdown (Some (n, error)) =
     (if n = 0 then (Err error, None) else (Ok (), Some (n - 1, error)))"
| "trigger_error_on_countdown None = (Ok (), None)"

definition corruption_of :: "(unit, mock_error) result \<Rightarrow> u8" where
  "corruption_of result = (case result of Ok _ \<Rightarrow> 0 | Err _ \<Rightarrow> 0xA5)"

definition in_memory_read :: "u32 \<Rightarrow> nat \<Rightarrow> (in_memory_flash, bytes, mock_error) action" where
  "in_memory_read off n f =
     (let (triggered, countdown) = trigger_error_on_countdown (countdown_read_error f);
          f' = f\<lparr>read_count := read_count f + 1, countdown_read_error := countdown\<rparr>
      in case triggered of
           Err e \<Rightarrow> (Err e, f')
         | Ok _ \<Rightarrow>
             if unat off + n > length (memory f) then (Err (MockError OutOfBounds), f')
             else (Ok (seg (unat off) n (memory f)), f'))"

definition in_memory_erase :: "nat \<Rightarrow> u32 \<Rightarrow> u32 \<Rightarrow> (in_memory_flash, unit, mock_error) action" where
  "in_memory_erase ERASE_SIZE from to f =
     (let (res, countdown) = trigger_error_on_countdown (countdown_erase_error f);
          f' = f\<lparr>erase_count := erase_count f + 1, countdown_erase_error := countdown\<rparr>;
          erase_size = (of_nat ERASE_SIZE :: u32)
      in if from mod erase_size \<noteq> 0 \<or> to mod erase_size \<noteq> 0 then (Err (MockError NotAligned), f')
         else if max from to > of_nat (length (memory f)) then (Err (MockError OutOfBounds), f')
         else if from > to \<or> unat to > length (memory f) then (Err SlicePanic, f')
         else (res, f'\<lparr>memory :=
                 take (unat from) (memory f)
                 @ replicate (unat to - unat from) (0xFF XOR corruption_of res)
                 @ drop (unat to) (memory f)\<rparr>))"

text \<open>The cells of the strict simulation: only an erased byte takes a new value.\<close>

definition write_cells :: "u8 \<Rightarrow> bytes \<Rightarrow> bytes \<Rightarrow> bytes" where
  "write_cells corruption dst src =
     map2 (\<lambda>to from. if to = 0xFF then from XOR corruption else to) dst src"

definition in_memory_write :: "u32 \<Rightarrow> bytes \<Rightarrow> (in_memory_flash, unit, mock_error) action" where
  "in_memory_write off bs f =
     (let (res, countdown) = trigger_error_on_countdown (countdown_write_error f);
          f' = f\<lparr>write_count := write_count f + 1, countdown_write_error := countdown\<rparr>;
          offset = unat off;
          end = offset + length bs
      in if end > length (memory f) then (Err (MockError OutOfBounds), f')
         else (res, f'\<lparr>memory :=
                 take offset (memory f)
                 @ write_cells (corruption_of res) (seg offset (length bs) (memory f)) bs
                 @ drop end (memory f)\<rparr>))"

definition in_memory_capacity :: "in_memory_flash \<Rightarrow> nat" where
  "in_memory_capacity f = length (memory f)"

definition in_memory :: "nat \<Rightarrow> (in_memory_flash, mock_error) nor_flash" where
  "in_memory ERASE_SIZE =
     \<lparr>nf_read = in_memory_read, nf_write = in_memory_write,
      nf_erase = in_memory_erase ERASE_SIZE, nf_capacity = in_memory_capacity,
      nf_erase_size = ERASE_SIZE\<rparr>"

definition no_fault :: "in_memory_flash \<Rightarrow> bool" where
  "no_fault f \<longleftrightarrow> countdown_erase_error f = None \<and> countdown_write_error f = None
     \<and> countdown_read_error f = None"

section \<open>What a client may rely on\<close>

definition same_outside :: "nat \<Rightarrow> nat \<Rightarrow> bytes \<Rightarrow> bytes \<Rightarrow> bool" where
  "same_outside from to xs ys \<longleftrightarrow>
     length xs = length ys \<and> (\<forall>i < length xs. i < from \<or> to \<le> i \<longrightarrow> xs ! i = ys ! i)"

locale nor_flash_contract =
  fixes F :: "('f, 'e) nor_flash" and mem :: "'f \<Rightarrow> bytes"
  assumes read_frame: "nf_read F off n f = (rr, f') \<Longrightarrow> mem f' = mem f"
    and read_ok: "nf_read F off n f = (Ok bs, f') \<Longrightarrow>
      unat off + n \<le> length (mem f) \<and> bs = seg (unat off) n (mem f)"
    and write_frame: "nf_write F off bs f = (r, f') \<Longrightarrow>
      same_outside (unat off) (unat off + length bs) (mem f) (mem f')"
    and write_ok: "nf_write F off bs f = (Ok u, f') \<Longrightarrow>
      unat off + length bs \<le> length (mem f)
      \<and> (\<forall>i < length bs. mem f ! (unat off + i) = 0xFF \<longrightarrow> mem f' ! (unat off + i) = bs ! i)"
    and write_clears: "nf_write F off bs f = (r, f') \<Longrightarrow> i < length (mem f) \<Longrightarrow>
      mem f ! i \<noteq> 0xFF \<Longrightarrow> mem f' ! i \<noteq> 0xFF"
    and erase_frame: "nf_erase F from to f = (r, f') \<Longrightarrow>
      same_outside (unat from) (unat to) (mem f) (mem f')"
    and erase_ok: "nf_erase F from to f = (Ok u, f') \<Longrightarrow>
      unat to \<le> length (mem f) \<and> (\<forall>i. unat from \<le> i \<and> i < unat to \<longrightarrow> mem f' ! i = 0xFF)"
    and capacity: "nf_capacity F f = length (mem f)"

text \<open>
  What the database relies on beyond the contract: an erase that fails leaves the flash as it was, or a
  range that does not begin with the marker \<open>90 0D FF FF\<close> of a valid block. The traits leave the
  contents after a failed erase open, and the comments of \<open>format_block\<close> call a torn block that reads as
  valid \<open>highly unlikely\<close>. Without this assumption, \<open>Block_Theorems\<close> states exactly what can happen.
\<close>

locale torn_erase_flash = nor_flash_contract F mem for F :: "('f, 'e) nor_flash" and mem +
  assumes erase_torn: "nf_erase F from to f = (Err e, f') \<Longrightarrow>
    mem f' = mem f \<or> seg (unat from) 4 (mem f') \<noteq> [0x90, 0x0D, 0xFF, 0xFF]"

locale reliable_nor_flash = nor_flash_contract F mem for F :: "('f, 'e) nor_flash" and mem +
  fixes good :: "'f \<Rightarrow> bool"
  assumes read_good: "good f \<Longrightarrow> unat off + n \<le> length (mem f) \<Longrightarrow>
      \<exists>f'. nf_read F off n f = (Ok (seg (unat off) n (mem f)), f') \<and> good f'"
    and write_good: "good f \<Longrightarrow> unat off + length bs \<le> length (mem f) \<Longrightarrow>
      \<exists>f'. nf_write F off bs f = (Ok (), f') \<and> good f'"
    and erase_good: "good f \<Longrightarrow> nf_erase_size F dvd unat from \<Longrightarrow> nf_erase_size F dvd unat to \<Longrightarrow>
      unat from \<le> unat to \<Longrightarrow> unat to \<le> length (mem f) \<Longrightarrow> length (mem f) < 2 ^ 32 \<Longrightarrow>
      \<exists>f'. nf_erase F from to f = (Ok (), f') \<and> good f'"

section \<open>Lemmas\<close>

lemma same_outside_refl [simp]: "same_outside a b xs xs"
  by (simp add: same_outside_def)

lemma same_outside_empty [simp]: "same_outside a a xs ys \<longleftrightarrow> xs = ys"
  by (auto simp: same_outside_def intro!: nth_equalityI)

lemma same_outside_length: "same_outside a b xs ys \<Longrightarrow> length ys = length xs"
  by (simp add: same_outside_def)

lemma same_outside_nth:
  "same_outside a b xs ys \<Longrightarrow> i < length xs \<Longrightarrow> i < a \<or> b \<le> i \<Longrightarrow> ys ! i = xs ! i"
  by (auto simp: same_outside_def)

lemma same_outside_mono:
  "same_outside a b xs ys \<Longrightarrow> c \<le> a \<Longrightarrow> b \<le> d \<Longrightarrow> same_outside c d xs ys"
  by (auto simp: same_outside_def)

lemma same_outside_trans [trans]:
  "same_outside a b xs ys \<Longrightarrow> same_outside a b ys zs \<Longrightarrow> same_outside a b xs zs"
  by (auto simp: same_outside_def)

lemma same_outside_seg:
  "same_outside a b xs ys \<Longrightarrow> off + n \<le> a \<or> b \<le> off \<Longrightarrow> seg off n ys = seg off n xs"
  by (rule seg_cong) (auto simp: same_outside_def)

lemma length_write_cells [simp]: "length (write_cells c dst src) = min (length dst) (length src)"
  by (simp add: write_cells_def)

lemma same_outside_splice:
  assumes "a \<le> b" and "b \<le> length xs" and "length ys = b - a"
  shows "same_outside a b xs (take a xs @ ys @ drop b xs)"
  using assms by (auto simp: same_outside_def nth_append)

lemma in_memory_simps [simp]:
  "nf_read (in_memory E) = in_memory_read"
  "nf_write (in_memory E) = in_memory_write"
  "nf_erase (in_memory E) = in_memory_erase E"
  "nf_capacity (in_memory E) = in_memory_capacity"
  "nf_erase_size (in_memory E) = E"
  by (simp_all add: in_memory_def)

lemma in_memory_read_cases:
  "in_memory_read off n f = (r, f') \<Longrightarrow>
     memory f' = memory f \<and>
     (\<forall>bs. r = Ok bs \<longrightarrow> unat off + n \<le> length (memory f) \<and> bs = seg (unat off) n (memory f))"
  by (auto simp: in_memory_read_def Let_def split: prod.splits sum.splits if_splits)

lemma in_memory_write_frame:
  "in_memory_write off bs f = (r, f') \<Longrightarrow>
     same_outside (unat off) (unat off + length bs) (memory f) (memory f')"
  by (auto simp: in_memory_write_def Let_def split: prod.splits if_splits
      intro!: same_outside_splice)

lemma in_memory_write_ok:
  "in_memory_write off bs f = (Ok u, f') \<Longrightarrow>
     unat off + length bs \<le> length (memory f)
     \<and> (\<forall>i < length bs. memory f ! (unat off + i) = 0xFF \<longrightarrow> memory f' ! (unat off + i) = bs ! i)"
  by (auto simp: in_memory_write_def Let_def write_cells_def corruption_of_def nth_append
      split: prod.splits if_splits)

lemma in_memory_write_clears:
  "in_memory_write off bs f = (r, f') \<Longrightarrow> i < length (memory f) \<Longrightarrow> memory f ! i \<noteq> 0xFF \<Longrightarrow>
     memory f' ! i \<noteq> 0xFF"
  by (auto simp: in_memory_write_def Let_def write_cells_def nth_append split: prod.splits if_splits)

lemma in_memory_erase_frame:
  "in_memory_erase E from to f = (r, f') \<Longrightarrow>
     same_outside (unat from) (unat to) (memory f) (memory f')"
  by (auto simp: in_memory_erase_def Let_def word_le_nat_alt not_less split: prod.splits if_splits
      intro!: same_outside_splice)

lemma in_memory_erase_ok:
  "in_memory_erase E from to f = (Ok u, f') \<Longrightarrow>
     unat to \<le> length (memory f) \<and> (\<forall>i. unat from \<le> i \<and> i < unat to \<longrightarrow> memory f' ! i = 0xFF)"
  by (auto simp: in_memory_erase_def Let_def corruption_of_def nth_append
      split: prod.splits if_splits)

lemma in_memory_erase_torn:
  assumes "in_memory_erase E from to f = (Err e, f')"
  shows "memory f' = memory f \<or> seg (unat from) 4 (memory f') \<noteq> [0x90, 0x0D, 0xFF, 0xFF]"
proof (cases "memory f' = memory f")
  case False
  have "unat from \<noteq> unat to"
    using False assms by (auto simp: in_memory_erase_def Let_def split: prod.splits if_splits)
  then have "unat from < unat to" "unat to \<le> length (memory f)" "memory f' ! unat from = 0x5A" "length (memory f') = length (memory f)"
    using False assms by (auto simp: in_memory_erase_def Let_def corruption_of_def nth_append word_less_nat_alt
      not_less split: prod.splits if_splits)
  then have "seg (unat from) 4 (memory f') ! 0 \<noteq> [0x90, 0x0D, 0xFF, 0xFF] ! 0"
    by (simp add: nth_seg)
  then show ?thesis by metis
qed simp

section \<open>The in-memory flash meets the contract\<close>

interpretation mock: torn_erase_flash "in_memory E" memory for E
  by unfold_locales
    (auto simp: in_memory_capacity_def
      dest: in_memory_read_cases in_memory_write_frame in_memory_write_ok
        in_memory_write_clears in_memory_erase_frame in_memory_erase_ok in_memory_erase_torn)

lemma in_memory_read_good:
  "no_fault f \<Longrightarrow> unat off + n \<le> length (memory f) \<Longrightarrow>
     \<exists>f'. in_memory_read off n f = (Ok (seg (unat off) n (memory f)), f') \<and> no_fault f'"
  by (simp add: in_memory_read_def no_fault_def)

lemma in_memory_write_good:
  "no_fault f \<Longrightarrow> unat off + length bs \<le> length (memory f) \<Longrightarrow>
     \<exists>f'. in_memory_write off bs f = (Ok (), f') \<and> no_fault f'"
  by (simp add: in_memory_write_def no_fault_def Let_def)

lemma u32_mod_of_nat:
  assumes "d dvd unat (w :: u32)"
  shows "w mod of_nat d = 0"
proof -
  have "unat (w mod of_nat d) = unat w mod (d mod 2 ^ 32)"
    by (simp add: unat_mod unat_of_nat)
  also have "\<dots> = 0"
  proof (cases "d < 2 ^ 32")
    case True
    with assms show ?thesis by simp
  next
    case False
    moreover have "unat w < 2 ^ 32" using unsigned_less [of w] by simp
    ultimately have "unat w < d" by simp
    with assms have "unat w = 0" by (auto dest: dvd_imp_le)
    then show ?thesis by simp
  qed
  finally show ?thesis by (simp add: unat_eq_zero)
qed

lemma in_memory_erase_good:
  assumes "no_fault f" and "E dvd unat from" and "E dvd unat to" and "unat from \<le> unat to"
    and "unat to \<le> length (memory f)" and "length (memory f) < 2 ^ 32"
  shows "\<exists>f'. in_memory_erase E from to f = (Ok (), f') \<and> no_fault f'"
  using assms
  by (simp add: in_memory_erase_def no_fault_def u32_mod_of_nat word_le_nat_alt word_less_nat_alt
      unat_of_nat max_def not_less)

interpretation sound_mock: reliable_nor_flash "in_memory E" memory no_fault for E
  by unfold_locales
    (simp_all add: in_memory_read_good in_memory_write_good in_memory_erase_good)

end
