(* ===== verification/Block_Layer.thy ===== *)
theory Block_Layer
  imports Nor_Flash
begin

text \<open>
  The block layer, \<open>storage/flash_db/block_layer.rs\<close>: flash is divided into erase blocks, each
  with a 16-byte block header, a 3-byte header per fragment and the fragments' data. The group
  of definitions follows the file: header and marker encodings, error types and their
  conversions, then the operations of \<open>BlockDevice\<close> as actions on a device record, generic over
  the flash driver \<open>F\<close> and the block size \<open>B\<close> (the const generic \<open>BLOCK_SIZE\<close>). A read into a
  caller's buffer takes the length of the buffer and returns the bytes that were read.
\<close>

section \<open>Block header\<close>

type_synonym block_id = u32

record block_hdr =
  bh_object_id :: u16
  bh_frag_size :: u16
  bh_first_frag_no :: u32
  bh_object_version :: u8
  bh_rfu :: bytes
  bh_id :: u32
  bh_frag_count :: nat

definition parse_u16 :: "bytes \<Rightarrow> u16" where
  "parse_u16 = u16_from_le"

definition parse_u32 :: "bytes \<Rightarrow> u32" where
  "parse_u32 = u32_from_le"

definition block_valid_from_bytes :: "bytes \<Rightarrow> bool" where
  "block_valid_from_bytes bs \<longleftrightarrow> bs = [0x90, 0x0D, 0xFF, 0xFF]"

definition block_valid_as_bytes :: "bool \<Rightarrow> nat \<times> bytes" where
  "block_valid_as_bytes valid = (if valid then (0, [0x90, 0x0D]) else (2, [0xBA, 0xAD]))"

definition BLOCK_HEADER_SIZE :: nat where
  [simp]: "BLOCK_HEADER_SIZE = 16"

definition FRAG_HEADER_SIZE :: nat where
  [simp]: "FRAG_HEADER_SIZE = 3"

definition calculate_fragments_per_block :: "nat \<Rightarrow> nat \<Rightarrow> nat" where
  "calculate_fragments_per_block block_size fragment_size =
     usize_sub block_size BLOCK_HEADER_SIZE div (fragment_size + FRAG_HEADER_SIZE)"

definition last_fragment :: "block_hdr \<Rightarrow> u32" where
  "last_fragment h = bh_first_frag_no h + of_nat (bh_frag_count h - 1)"

definition fragment_size :: "block_hdr \<Rightarrow> nat" where
  "fragment_size h = unat (bh_frag_size h)"

definition block_header_try_new ::
  "nat \<Rightarrow> block_id \<Rightarrow> u16 \<Rightarrow> u8 \<Rightarrow> u16 \<Rightarrow> u32 \<Rightarrow> (block_hdr, unit) result" where
  "block_header_try_new B block_id object_id object_version frag_size first_frag_no =
     (let frag_count = calculate_fragments_per_block B (unat frag_size)
      in if frag_count = 0 then Err ()
         else Ok \<lparr>bh_object_id = object_id, bh_frag_size = frag_size,
                  bh_first_frag_no = first_frag_no, bh_object_version = object_version,
                  bh_rfu = [0xFF, 0xFF, 0xFF], bh_id = block_id, bh_frag_count = frag_count\<rparr>)"

definition block_header_from_bytes :: "nat \<Rightarrow> u32 \<Rightarrow> bytes \<Rightarrow> block_hdr option" where
  "block_header_from_bytes B block_id bs =
     (let first_frag_no = parse_u32 (seg 8 4 bs);
          object_version = bs ! 12
      in if block_valid_from_bytes (seg 0 4 bs)
         then (case block_header_try_new B block_id (parse_u16 (seg 4 2 bs)) object_version
                      (parse_u16 (seg 6 2 bs)) first_frag_no
               of Ok h \<Rightarrow> Some h | Err _ \<Rightarrow> None)
         else None)"

definition block_header_as_bytes :: "block_hdr \<Rightarrow> bytes" where
  "block_header_as_bytes h =
     [0xFF, 0xFF, 0xFF, 0xFF] @ u16_to_le (bh_object_id h) @ u16_to_le (bh_frag_size h)
     @ u32_to_le (bh_first_frag_no h) @ [bh_object_version h] @ [0xFF, 0xFF, 0xFF]"

definition headers_total_size :: "block_hdr \<Rightarrow> nat" where
  "headers_total_size h = BLOCK_HEADER_SIZE + bh_frag_count h * FRAG_HEADER_SIZE"

section \<open>Fragment status\<close>

datatype fragment_status = Empty | Invalid | Valid | Obsolete

fun fragment_status_repr :: "fragment_status \<Rightarrow> u8" where
  "fragment_status_repr Empty = 0xFF"
| "fragment_status_repr Invalid = 0xD1"
| "fragment_status_repr Valid = 0xDC"
| "fragment_status_repr Obsolete = 0x55"

fun fragment_status_as_byte :: "fragment_status \<Rightarrow> (nat \<times> u8) option" where
  "fragment_status_as_byte Empty = None"
| "fragment_status_as_byte Invalid = Some (0, fragment_status_repr Invalid)"
| "fragment_status_as_byte Valid = Some (1, fragment_status_repr Valid)"
| "fragment_status_as_byte Obsolete = Some (2, fragment_status_repr Obsolete)"

definition fragment_status_from :: "bytes \<Rightarrow> fragment_status" where
  "fragment_status_from header =
     (if header = [0xFF, 0xFF, 0xFF] then Empty
      else if header = [0xD1, 0xDC, 0xFF] then Valid
      else if header ! 2 = 0x55 then Obsolete
      else Invalid)"

section \<open>Errors\<close>

datatype 'e flash_error = FE_BlockOutOfBounds | FE_Flash 'e

datatype flash_read_error_kind =
    RK_FragmentEmpty | RK_FragmentInvalid | RK_FragmentObsolete | RK_FragmentNotFound
  | RK_BlockInvalid | RK_BlockOutOfBounds | RK_Flash

datatype 'e flash_read_error = FR_Read flash_read_error_kind | FR_Flash 'e

fun flash_read_error_kind_of :: "'e flash_read_error \<Rightarrow> flash_read_error_kind" where
  "flash_read_error_kind_of (FR_Read err) = err"
| "flash_read_error_kind_of (FR_Flash _) = RK_Flash"

datatype flash_write_error_kind =
    WK_FragmentNotFound | WK_BlockInvalid | WK_FragmentInvalid | WK_FragmentObsolete
  | WK_FragmentExists | WK_FragmentTooLarge | WK_VerifyFailed | WK_BlockOutOfBounds | WK_Flash

datatype 'e flash_write_error = FW_Write flash_write_error_kind | FW_Flash 'e

fun flash_write_error_kind_of :: "'e flash_write_error \<Rightarrow> flash_write_error_kind" where
  "flash_write_error_kind_of (FW_Write err) = err"
| "flash_write_error_kind_of (FW_Flash _) = WK_Flash"

datatype bounds_error = BoundsError

definition flash_error_of_bounds :: "bounds_error \<Rightarrow> 'e flash_error" where
  "flash_error_of_bounds _ = FE_BlockOutOfBounds"

definition flash_read_error_of_bounds :: "bounds_error \<Rightarrow> 'e flash_read_error" where
  "flash_read_error_of_bounds _ = FR_Read RK_BlockOutOfBounds"

definition flash_write_error_of_bounds :: "bounds_error \<Rightarrow> 'e flash_write_error" where
  "flash_write_error_of_bounds _ = FW_Write WK_BlockOutOfBounds"

section \<open>The block device\<close>

record 'f block_device =
  bd_flash :: 'f
  bd_blocks_total :: nat

text \<open>A call on the field \<open>flash\<close> of the device.\<close>

definition on_flash :: "('f, 'a, 'e) action \<Rightarrow> ('f block_device, 'a, 'e) action" where
  "on_flash m d = (case m (bd_flash d) of (r, f) \<Rightarrow> (r, d\<lparr>bd_flash := f\<rparr>))"

definition writeable_from :: "('f, 'e) nor_flash \<Rightarrow> nat \<Rightarrow> 'f \<Rightarrow> ('f block_device, unit) result" where
  "writeable_from F B flash =
     (if B \<noteq> nf_erase_size F then Err ()
      else Ok \<lparr>bd_flash = flash, bd_blocks_total = nf_capacity F flash div B\<rparr>)"

definition readonly_from :: "('f, 'e) nor_flash \<Rightarrow> nat \<Rightarrow> 'f \<Rightarrow> 'f block_device" where
  "readonly_from F B flash = \<lparr>bd_flash = flash, bd_blocks_total = nf_capacity F flash div B\<rparr>"

definition block_addr :: "nat \<Rightarrow> block_id \<Rightarrow> 'f block_device \<Rightarrow> (u32, bounds_error) result" where
  "block_addr B block_id d =
     (if block_id > of_nat (bd_blocks_total d) then Err BoundsError else Ok (block_id * of_nat B))"

text \<open>\<open>self.block_addr(id)?\<close>\<close>

definition get_block_addr ::
  "nat \<Rightarrow> (bounds_error \<Rightarrow> 'd) \<Rightarrow> block_id \<Rightarrow> ('f block_device, u32, 'd) action" where
  "get_block_addr B conv block_id d = of_result conv (block_addr B block_id d) d"

definition try_get_fragment_status ::
  "('f, 'e) nor_flash \<Rightarrow> nat \<Rightarrow> block_hdr \<Rightarrow> u32
   \<Rightarrow> ('f block_device, fragment_status option, 'e flash_error) action" where
  "try_get_fragment_status F B block frag_no =
     (let rel_frag_no = unat (frag_no - bh_first_frag_no block)
      in if rel_frag_no \<ge> bh_frag_count block then ret None
         else and_then (get_block_addr B flash_error_of_bounds (bh_id block)) (\<lambda>addr.
              let header_offset = BLOCK_HEADER_SIZE + FRAG_HEADER_SIZE * rel_frag_no
              in and_then
                   (map_err FE_Flash
                      (on_flash (nf_read F (addr + of_nat header_offset) FRAG_HEADER_SIZE)))
                   (\<lambda>buffer. ret (Some (fragment_status_from buffer)))))"

definition fragment_status_pre_write ::
  "('f, 'e) nor_flash \<Rightarrow> nat \<Rightarrow> block_hdr \<Rightarrow> u32
   \<Rightarrow> ('f block_device, fragment_status, 'e flash_write_error) action" where
  "fragment_status_pre_write F B block frag_no =
     attempt (try_get_fragment_status F B block frag_no) (\<lambda>r. case r of
         Ok (Some status) \<Rightarrow> ret status
       | Ok None \<Rightarrow> throw (FW_Write WK_FragmentNotFound)
       | Err FE_BlockOutOfBounds \<Rightarrow> throw (FW_Write WK_BlockOutOfBounds)
       | Err (FE_Flash flash_err) \<Rightarrow> throw (FW_Flash flash_err))"

definition fragment_status ::
  "('f, 'e) nor_flash \<Rightarrow> nat \<Rightarrow> block_hdr \<Rightarrow> u32
   \<Rightarrow> ('f block_device, fragment_status, 'e flash_read_error) action" where
  "fragment_status F B block frag_no =
     attempt (try_get_fragment_status F B block frag_no) (\<lambda>r. case r of
         Ok (Some status) \<Rightarrow> ret status
       | Ok None \<Rightarrow> throw (FR_Read RK_FragmentNotFound)
       | Err FE_BlockOutOfBounds \<Rightarrow> throw (FR_Read RK_BlockOutOfBounds)
       | Err (FE_Flash flash_err) \<Rightarrow> throw (FR_Flash flash_err))"

definition read_raw_fragment ::
  "('f, 'e) nor_flash \<Rightarrow> nat \<Rightarrow> block_hdr \<Rightarrow> u32 \<Rightarrow> nat \<Rightarrow> nat
   \<Rightarrow> ('f block_device, bytes, 'e flash_read_error) action" where
  "read_raw_fragment F B block frag_no off len =
     (let rel_frag_no = unat (frag_no - bh_first_frag_no block)
      in if rel_frag_no \<ge> bh_frag_count block then throw (FR_Read RK_FragmentNotFound)
         else
           (let bytes_till_end_of_frag = fragment_size block - off;
                result_len = min len bytes_till_end_of_frag;
                data_offset = headers_total_size block + rel_frag_no * fragment_size block + off
            in and_then (get_block_addr B flash_read_error_of_bounds (bh_id block)) (\<lambda>addr.
                 map_err FR_Flash (on_flash (nf_read F (addr + of_nat data_offset) result_len)))))"

section \<open>Reader\<close>

definition read_fragment_at_offset ::
  "('f, 'e) nor_flash \<Rightarrow> nat \<Rightarrow> block_hdr \<Rightarrow> u32 \<Rightarrow> nat \<Rightarrow> nat
   \<Rightarrow> ('f block_device, bytes, 'e flash_read_error) action" where
  "read_fragment_at_offset F B block frag_no off len =
     and_then (fragment_status F B block frag_no) (\<lambda>status. case status of
         Empty \<Rightarrow> throw (FR_Read RK_FragmentEmpty)
       | Invalid \<Rightarrow> throw (FR_Read RK_FragmentInvalid)
       | Obsolete \<Rightarrow> throw (FR_Read RK_FragmentObsolete)
       | Valid \<Rightarrow> read_raw_fragment F B block frag_no off len)"

definition read_fragment ::
  "('f, 'e) nor_flash \<Rightarrow> nat \<Rightarrow> block_hdr \<Rightarrow> u32 \<Rightarrow> nat
   \<Rightarrow> ('f block_device, bytes, 'e flash_read_error) action" where
  "read_fragment F B block frag_no len = read_fragment_at_offset F B block frag_no 0 len"

definition VERIFY_CHUNK_SIZE :: nat where
  [simp]: "VERIFY_CHUNK_SIZE = 128"

fun verify_chunks ::
  "('f, 'e) nor_flash \<Rightarrow> nat \<Rightarrow> block_hdr \<Rightarrow> u32 \<Rightarrow> nat \<Rightarrow> bytes list
   \<Rightarrow> ('f block_device, bool, 'e flash_write_error) action" where
  "verify_chunks F B block frag_no chunk_no [] = ret True"
| "verify_chunks F B block frag_no chunk_no (expected # rest) =
     and_then
       (map_err (\<lambda>r_err. case r_err of
            FR_Read _ \<Rightarrow> FW_Write WK_VerifyFailed
          | FR_Flash flash \<Rightarrow> FW_Flash flash)
         (read_raw_fragment F B block frag_no (chunk_no * VERIFY_CHUNK_SIZE) (length expected)))
       (\<lambda>readback. if readback \<noteq> expected then ret False
                   else verify_chunks F B block frag_no (Suc chunk_no) rest)"

definition verify_fragment ::
  "('f, 'e) nor_flash \<Rightarrow> nat \<Rightarrow> block_hdr \<Rightarrow> u32 \<Rightarrow> bytes
   \<Rightarrow> ('f block_device, bool, 'e flash_write_error) action" where
  "verify_fragment F B block frag_no expected_data =
     verify_chunks F B block frag_no 0 (chunks VERIFY_CHUNK_SIZE expected_data)"

definition block_header ::
  "('f, 'e) nor_flash \<Rightarrow> nat \<Rightarrow> block_id
   \<Rightarrow> ('f block_device, block_hdr option, 'e flash_error) action" where
  "block_header F B block_id d =
     (if block_id > of_nat (bd_blocks_total d) then throw FE_BlockOutOfBounds d
      else and_then
             (map_err FE_Flash (on_flash (nf_read F (block_id * of_nat B) BLOCK_HEADER_SIZE)))
             (\<lambda>buffer. ret (block_header_from_bytes B block_id buffer)) d)"

fun block_is_empty_loop ::
  "('f, 'e) nor_flash \<Rightarrow> nat \<Rightarrow> block_hdr \<Rightarrow> nat list
   \<Rightarrow> ('f block_device, bool, 'e flash_read_error) action" where
  "block_is_empty_loop F B block [] = ret True"
| "block_is_empty_loop F B block (rel_frag # rest) =
     and_then (fragment_status F B block (bh_first_frag_no block + of_nat rel_frag))
       (\<lambda>status. if Empty \<noteq> status then ret False else block_is_empty_loop F B block rest)"

definition block_is_empty ::
  "('f, 'e) nor_flash \<Rightarrow> nat \<Rightarrow> block_hdr
   \<Rightarrow> ('f block_device, bool, 'e flash_read_error) action" where
  "block_is_empty F B block = block_is_empty_loop F B block [0..<bh_frag_count block]"

fun find_valid_fragment_loop ::
  "('f, 'e) nor_flash \<Rightarrow> nat \<Rightarrow> block_hdr \<Rightarrow> nat list
   \<Rightarrow> ('f block_device, u32 option, 'e flash_read_error) action" where
  "find_valid_fragment_loop F B block [] = ret None"
| "find_valid_fragment_loop F B block (rel_frag # rest) =
     (let frag_no = bh_first_frag_no block + of_nat rel_frag
      in and_then (fragment_status F B block frag_no)
           (\<lambda>status. if Valid = status then ret (Some frag_no)
                     else find_valid_fragment_loop F B block rest))"

definition block_find_valid_fragment ::
  "('f, 'e) nor_flash \<Rightarrow> nat \<Rightarrow> block_hdr
   \<Rightarrow> ('f block_device, u32 option, 'e flash_read_error) action" where
  "block_find_valid_fragment F B block =
     find_valid_fragment_loop F B block [0..<bh_frag_count block]"

definition block_is_valid ::
  "('f, 'e) nor_flash \<Rightarrow> nat \<Rightarrow> block_id \<Rightarrow> ('f block_device, bool, 'e flash_error) action" where
  "block_is_valid F B block_id d =
     (if block_id > of_nat (bd_blocks_total d) then throw FE_BlockOutOfBounds d
      else and_then (map_err FE_Flash (on_flash (nf_read F (block_id * of_nat B) 4)))
             (\<lambda>buffer. ret (block_valid_from_bytes buffer)) d)"

section \<open>Writer\<close>

definition format_block ::
  "('f, 'e) nor_flash \<Rightarrow> nat \<Rightarrow> block_id \<Rightarrow> u16 \<Rightarrow> u8 \<Rightarrow> u16 \<Rightarrow> u32
   \<Rightarrow> ('f block_device, unit, 'e flash_write_error) action" where
  "format_block F B block_id object_id object_version frag_size first_frag_no =
     and_then (get_block_addr B flash_write_error_of_bounds block_id) (\<lambda>addr.
     \<comment> \<open>1. mark the page as invalid; an error is ignored on purpose\<close>
     attempt (case block_valid_as_bytes False of (off, marker) \<Rightarrow>
                on_flash (nf_write F (addr + of_nat off) marker)) (\<lambda>_.
     \<comment> \<open>2. erase\<close>
     and_then (map_err FW_Flash (on_flash (nf_erase F addr (addr + of_nat B)))) (\<lambda>_.
     \<comment> \<open>3. write the header, without the marker\<close>
     and_then (of_result (\<lambda>_. FW_Write WK_FragmentTooLarge)
                (block_header_try_new B block_id object_id object_version frag_size first_frag_no))
       (\<lambda>header.
     and_then (map_err FW_Flash
                (on_flash (nf_write F (addr + 4) (drop 4 (block_header_as_bytes header))))) (\<lambda>_.
     \<comment> \<open>4. mark the page as valid\<close>
     case block_valid_as_bytes True of (off, marker) \<Rightarrow>
       map_err FW_Flash (on_flash (nf_write F (addr + of_nat off) marker)))))))"

text \<open>Write the one-byte marker of a status in the header of a fragment, if it has one.\<close>

definition write_marker ::
  "('f, 'e) nor_flash \<Rightarrow> u32 \<Rightarrow> fragment_status
   \<Rightarrow> ('f block_device, unit, 'e flash_write_error) action" where
  "write_marker F frag_header_addr status =
     (case fragment_status_as_byte status of
        Some (marker_offset, marker) \<Rightarrow>
          map_err FW_Flash (on_flash (nf_write F (frag_header_addr + of_nat marker_offset) [marker]))
      | None \<Rightarrow> ret ())"

text \<open>The branch of \<open>write_fragment\<close> for an empty fragment.\<close>

definition write_empty_fragment ::
  "('f, 'e) nor_flash \<Rightarrow> nat \<Rightarrow> block_hdr \<Rightarrow> u32 \<Rightarrow> bytes \<Rightarrow> u32 \<Rightarrow> nat
   \<Rightarrow> ('f block_device, unit, 'e flash_write_error) action" where
  "write_empty_fragment F B block frag_no data addr rel_frag_no =
     (let frag_header_addr = addr + of_nat (BLOCK_HEADER_SIZE + FRAG_HEADER_SIZE * rel_frag_no);
          data_offset = headers_total_size block + rel_frag_no * fragment_size block
      in \<comment> \<open>1. mark the fragment as incomplete (write in progress)\<close>
         and_then (write_marker F frag_header_addr Invalid) (\<lambda>_.
         \<comment> \<open>2. write the data\<close>
         and_then (map_err FW_Flash (on_flash (nf_write F (addr + of_nat data_offset) data))) (\<lambda>_.
         \<comment> \<open>3. read back and verify\<close>
         and_then (verify_fragment F B block frag_no data) (\<lambda>verified.
         if \<not> verified then throw (FW_Write WK_VerifyFailed)
         \<comment> \<open>4. mark the fragment as valid (write complete)\<close>
         else write_marker F frag_header_addr Valid))))"

definition write_fragment ::
  "('f, 'e) nor_flash \<Rightarrow> nat \<Rightarrow> block_hdr \<Rightarrow> u32 \<Rightarrow> bytes
   \<Rightarrow> ('f block_device, unit, 'e flash_write_error) action" where
  "write_fragment F B block frag_no data =
     (if length data > fragment_size block then throw (FW_Write WK_FragmentTooLarge)
      else
        and_then (get_block_addr B flash_write_error_of_bounds (bh_id block)) (\<lambda>addr.
        let rel_frag_no = unat (frag_no - bh_first_frag_no block)
        in if rel_frag_no \<ge> bh_frag_count block then throw (FW_Write WK_FragmentNotFound)
           else
             and_then (fragment_status_pre_write F B block frag_no) (\<lambda>status. case status of
                 Invalid \<Rightarrow> throw (FW_Write WK_FragmentInvalid)
               | Obsolete \<Rightarrow> throw (FW_Write WK_FragmentObsolete)
               | Valid \<Rightarrow> throw (FW_Write WK_FragmentExists)
               | Empty \<Rightarrow> write_empty_fragment F B block frag_no data addr rel_frag_no)))"

definition delete_fragment ::
  "('f, 'e) nor_flash \<Rightarrow> nat \<Rightarrow> block_hdr \<Rightarrow> u32
   \<Rightarrow> ('f block_device, unit, 'e flash_write_error) action" where
  "delete_fragment F B block frag_no =
     and_then (get_block_addr B flash_write_error_of_bounds (bh_id block)) (\<lambda>addr.
     let rel_frag_no = unat (frag_no - bh_first_frag_no block)
     in if rel_frag_no \<ge> bh_frag_count block then throw (FW_Write WK_FragmentNotFound)
        else
          and_then (fragment_status_pre_write F B block frag_no) (\<lambda>status. case status of
              Invalid \<Rightarrow> ret ()
            | Obsolete \<Rightarrow> ret ()
            | _ \<Rightarrow> write_marker F
                     (addr + of_nat (BLOCK_HEADER_SIZE + FRAG_HEADER_SIZE * rel_frag_no)) Obsolete))"

end
