(* ===== verification/Block_Layer_Correct.thy ===== *)
theory Block_Layer_Correct
  imports Block_Layer
begin

text \<open>
  Correctness of the block layer. The stored bytes of a block are read through three views
  (\<open>stored_header\<close>, \<open>stored_status\<close>, \<open>stored_data\<close>); the operations are then specified by their
  effect on the views, for every flash driver that meets \<open>nor_flash_contract\<close>, faults included,
  and shown to succeed on a driver that meets \<open>reliable_nor_flash\<close>.
\<close>

section \<open>Views of the stored bytes\<close>

definition block_pos :: "nat \<Rightarrow> block_id \<Rightarrow> nat" where
  "block_pos B block_id = unat block_id * B"

definition status_pos :: "nat \<Rightarrow> block_hdr \<Rightarrow> nat \<Rightarrow> nat" where
  "status_pos B h i = block_pos B (bh_id h) + 16 + 3 * i"

definition data_pos :: "nat \<Rightarrow> block_hdr \<Rightarrow> nat \<Rightarrow> nat" where
  "data_pos B h i = block_pos B (bh_id h) + headers_total_size h + i * fragment_size h"

definition stored_header :: "nat \<Rightarrow> bytes \<Rightarrow> block_id \<Rightarrow> block_hdr option" where
  "stored_header B m block_id = block_header_from_bytes B block_id (seg (block_pos B block_id) 16 m)"

definition stored_status :: "nat \<Rightarrow> bytes \<Rightarrow> block_hdr \<Rightarrow> nat \<Rightarrow> fragment_status" where
  "stored_status B m h i = fragment_status_from (seg (status_pos B h i) 3 m)"

definition stored_data :: "nat \<Rightarrow> bytes \<Rightarrow> block_hdr \<Rightarrow> nat \<Rightarrow> bytes" where
  "stored_data B m h i = seg (data_pos B h i) (fragment_size h) m"

text \<open>
  A device whose size and block count agree, and a header that describes one of its blocks (as
  every header returned by \<open>block_header\<close> does).
\<close>

definition device_ok :: "nat \<Rightarrow> bytes \<Rightarrow> nat \<Rightarrow> bool" where
  "device_ok B m tot \<longleftrightarrow> 16 \<le> B \<and> tot = length m div B \<and> length m < 2 ^ 32"

definition header_ok :: "nat \<Rightarrow> nat \<Rightarrow> block_hdr \<Rightarrow> bool" where
  "header_ok B tot h \<longleftrightarrow> unat (bh_id h) < tot
     \<and> bh_frag_count h = calculate_fragments_per_block B (fragment_size h)"

definition rel_frag :: "block_hdr \<Rightarrow> u32 \<Rightarrow> nat" where
  "rel_frag h frag_no = unat (frag_no - bh_first_frag_no h)"

section \<open>Layout\<close>

lemma device_okD:
  assumes "device_ok B m tot"
  shows "16 \<le> B" and "0 < B" and "tot = length m div B" and "length m < 2 ^ 32"
    and "tot * B \<le> length m" and "tot < 2 ^ 32"
proof -
  show B: "16 \<le> B" "0 < B" "tot = length m div B" and L: "length m < 2 ^ 32"
    using assms by (auto simp: device_ok_def)
  show "tot * B \<le> length m" using B(3) by simp
  have "tot \<le> length m" using B(3) by simp
  then show "tot < 2 ^ 32" using L by simp
qed

lemma block_in_device:
  assumes "device_ok B m tot" and "unat block_id < tot"
  shows "block_pos B block_id + B \<le> length m"
proof -
  have "(unat block_id + 1) * B \<le> tot * B"
    using assms(2) by (intro mult_le_mono) auto
  then show ?thesis
    using device_okD(5) [OF assms(1)] by (simp add: block_pos_def)
qed

lemma unat_of_nat_lt: "n < 2 ^ 32 \<Longrightarrow> unat (of_nat n :: u32) = n"
  by (simp add: unat_of_nat take_bit_nat_eq_self)

lemma unat_block_addr:
  assumes "device_ok B m tot" and "unat block_id < tot" and "off < B"
  shows "unat (block_id * of_nat B + of_nat off :: u32) = block_pos B block_id + off"
proof -
  have "block_pos B block_id + off < 2 ^ 32"
    using block_in_device [OF assms(1,2)] device_okD(4) [OF assms(1)] assms(3) by linarith
  moreover have "block_id * of_nat B + of_nat off = (of_nat (block_pos B block_id + off) :: u32)"
    by (simp add: block_pos_def)
  ultimately show ?thesis by (simp only: unat_of_nat_lt)
qed

lemma unat_block_addr_0:
  assumes "device_ok B m tot" and "unat block_id < tot"
  shows "unat (block_id * of_nat B :: u32) = block_pos B block_id"
  using unat_block_addr [OF assms, of 0] device_okD(2) [OF assms(1)] by simp

lemma unat_block_end:
  assumes "device_ok B m tot" and "unat block_id < tot"
  shows "unat (block_id * of_nat B + of_nat B :: u32) = block_pos B block_id + B"
proof -
  have "block_pos B block_id + B < 2 ^ 32"
    using block_in_device [OF assms(1,2)] device_okD(4) [OF assms(1)] by linarith
  moreover have "block_id * of_nat B + of_nat B = (of_nat (block_pos B block_id + B) :: u32)"
    by (simp add: block_pos_def)
  ultimately show ?thesis by (simp only: unat_of_nat_lt)
qed

lemma fragments_fit:
  assumes "16 \<le> B"
  shows "16 + calculate_fragments_per_block B s * (s + 3) \<le> B"
proof -
  have "calculate_fragments_per_block B s * (s + 3) \<le> B - 16"
    using assms by (simp add: calculate_fragments_per_block_def usize_sub_def)
  then show ?thesis using assms by linarith
qed

lemma layout:
  assumes "device_ok B m tot" and "header_ok B tot h" and "i < bh_frag_count h"
  shows "16 + 3 * i + 3 \<le> headers_total_size h"
    and "headers_total_size h + i * fragment_size h + fragment_size h \<le> B"
    and "headers_total_size h \<le> B"
proof -
  let ?c = "bh_frag_count h" and ?s = "fragment_size h"
  have c: "?c = calculate_fragments_per_block B ?s"
    using assms(2) by (simp add: header_ok_def)
  have fit: "16 + ?c * (?s + 3) \<le> B"
    unfolding c by (rule fragments_fit) (rule device_okD(1) [OF assms(1)])
  show "16 + 3 * i + 3 \<le> headers_total_size h"
    using assms(3) by (simp add: headers_total_size_def)
  have "i * ?s + ?s \<le> ?c * ?s"
    using assms(3) mult_le_mono1 [of "Suc i" ?c ?s] by simp
  then show "headers_total_size h + i * ?s + ?s \<le> B" and "headers_total_size h \<le> B"
    using fit by (simp_all add: headers_total_size_def algebra_simps)
qed

lemma frag_pos_disjoint:
  assumes "i \<noteq> j"
  shows "status_pos B h i + 3 \<le> status_pos B h j \<or> status_pos B h j + 3 \<le> status_pos B h i"
    and "data_pos B h i + fragment_size h \<le> data_pos B h j
         \<or> data_pos B h j + fragment_size h \<le> data_pos B h i"
proof -
  show "status_pos B h i + 3 \<le> status_pos B h j \<or> status_pos B h j + 3 \<le> status_pos B h i"
    using assms by (auto simp: status_pos_def)
  have "i * s + s \<le> j * s \<or> j * s + s \<le> i * s" for s :: nat
    using assms mult_le_mono1 [of "Suc i" j s] mult_le_mono1 [of "Suc j" i s]
    by (cases "i < j") auto
  then show "data_pos B h i + fragment_size h \<le> data_pos B h j
         \<or> data_pos B h j + fragment_size h \<le> data_pos B h i"
    by (simp add: data_pos_def)
qed

lemma status_before_data:
  assumes "device_ok B m tot" and "header_ok B tot h" and "i < bh_frag_count h"
  shows "status_pos B h i + 3 \<le> data_pos B h j"
  using layout(1) [OF assms] by (simp add: status_pos_def data_pos_def)

lemma header_before_status: "block_pos B (bh_id h) + 16 \<le> status_pos B h i"
  by (simp add: status_pos_def)

lemma pos_in_block:
  assumes "device_ok B m tot" and "header_ok B tot h" and "i < bh_frag_count h"
  shows "status_pos B h i + 3 \<le> block_pos B (bh_id h) + B"
    and "data_pos B h i + fragment_size h \<le> block_pos B (bh_id h) + B"
    and "status_pos B h i + 3 \<le> length m"
    and "data_pos B h i + fragment_size h \<le> length m"
proof -
  have id: "unat (bh_id h) < tot" using assms(2) by (simp add: header_ok_def)
  show a: "status_pos B h i + 3 \<le> block_pos B (bh_id h) + B"
    and b: "data_pos B h i + fragment_size h \<le> block_pos B (bh_id h) + B"
    using layout [OF assms] by (simp_all add: status_pos_def data_pos_def)
  show "status_pos B h i + 3 \<le> length m" and "data_pos B h i + fragment_size h \<le> length m"
    using a b block_in_device [OF assms(1) id] by linarith+
qed

lemma unat_status_addr:
  assumes "device_ok B m tot" and "header_ok B tot h" and "i < bh_frag_count h"
  shows "unat (bh_id h * of_nat B + of_nat (16 + 3 * i) :: u32) = status_pos B h i"
proof -
  have "unat (bh_id h) < tot" using assms(2) by (simp add: header_ok_def)
  moreover have "16 + 3 * i < B" using layout(1,3) [OF assms] by linarith
  ultimately show ?thesis
    using unat_block_addr [OF assms(1), of "bh_id h" "16 + 3 * i"]
    by (simp add: status_pos_def)
qed

section \<open>Headers\<close>

lemma try_new_Ok:
  assumes "block_header_try_new B block_id oid ver fs ffn = Ok h"
  shows "bh_object_id h = oid" "bh_frag_size h = fs" "bh_first_frag_no h = ffn"
    "bh_object_version h = ver" "bh_id h = block_id"
    "bh_frag_count h = calculate_fragments_per_block B (unat fs)" "bh_frag_count h \<noteq> 0"
  using assms by (auto simp: block_header_try_new_def Let_def split: if_splits)

lemma header_from_bytes_Some:
  assumes "block_header_from_bytes B block_id bs = Some h"
  shows "bh_id h = block_id" and "bh_frag_count h = calculate_fragments_per_block B (fragment_size h)"
    and "0 < bh_frag_count h" and "seg 0 4 bs = [0x90, 0x0D, 0xFF, 0xFF]"
  using assms
  by (auto simp: block_header_from_bytes_def block_valid_from_bytes_def Let_def fragment_size_def
      block_header_try_new_def split: if_splits sum.splits)

lemma stored_header_ok:
  assumes "stored_header B m block_id = Some h" and "unat block_id < tot"
  shows "header_ok B tot h" and "bh_id h = block_id" and "0 < bh_frag_count h"
  using header_from_bytes_Some [OF assms(1) [unfolded stored_header_def]] assms(2)
  by (simp_all add: header_ok_def)

text \<open>Reading back a header with its valid marker gives the header.\<close>

lemma header_roundtrip:
  assumes "block_header_try_new B block_id oid ver fs ffn = Ok h"
  shows "block_header_from_bytes B block_id
           ([0x90, 0x0D, 0xFF, 0xFF] @ drop 4 (block_header_as_bytes h)) = Some h"
proof -
  note h = try_new_Ok [OF assms]
  let ?bs = "[0x90, 0x0D, 0xFF, 0xFF] @ drop 4 (block_header_as_bytes h)"
  have "seg 4 2 ?bs = u16_to_le oid" "seg 6 2 ?bs = u16_to_le fs" "seg 8 4 ?bs = u32_to_le ffn"
    "?bs ! 12 = ver" "seg 0 4 ?bs = [0x90, 0x0D, 0xFF, 0xFF]"
    by (simp_all add: seg_def block_header_as_bytes_def h(1-5) u16_to_le_def u32_to_le_def)
  then show ?thesis
    using assms
    by (simp add: block_header_from_bytes_def block_valid_from_bytes_def parse_u16_def
        parse_u32_def Let_def del: append_Cons)
qed

lemma length_header_as_bytes [simp]: "length (block_header_as_bytes h) = 16"
  by (simp add: block_header_as_bytes_def)

section \<open>Operations that only read\<close>

definition keeps_mem :: "('f \<Rightarrow> bytes) \<Rightarrow> ('f block_device, 'a, 'e) action \<Rightarrow> bool" where
  "keeps_mem mem act \<longleftrightarrow> (\<forall>d r d'. act d = (r, d') \<longrightarrow>
     mem (bd_flash d') = mem (bd_flash d) \<and> bd_blocks_total d' = bd_blocks_total d)"

named_theorems keeps \<open>rules for actions that leave the stored bytes alone\<close>

lemma keeps_memD:
  "keeps_mem mem act \<Longrightarrow> act d = (r, d') \<Longrightarrow>
     mem (bd_flash d') = mem (bd_flash d) \<and> bd_blocks_total d' = bd_blocks_total d"
  by (auto simp: keeps_mem_def)

lemma keeps_ret [keeps]: "keeps_mem mem (ret x)"
  by (simp add: keeps_mem_def)

lemma keeps_Pair [keeps]: "keeps_mem mem (Pair r)"
  by (simp add: keeps_mem_def)

lemma keeps_throw [keeps]: "keeps_mem mem (throw e)"
  by (simp add: keeps_mem_def)

lemma keeps_and_then [keeps]:
  "keeps_mem mem m \<Longrightarrow> (\<And>x. keeps_mem mem (k x)) \<Longrightarrow> keeps_mem mem (and_then m k)"
  by (fastforce simp: keeps_mem_def and_then_def split: prod.splits sum.splits)

lemma keeps_attempt [keeps]:
  "keeps_mem mem m \<Longrightarrow> (\<And>r. keeps_mem mem (k r)) \<Longrightarrow> keeps_mem mem (attempt m k)"
  by (fastforce simp: keeps_mem_def attempt_def split: prod.splits)

lemma keeps_map_err [keeps]: "keeps_mem mem m \<Longrightarrow> keeps_mem mem (map_err g m)"
  by (fastforce simp: keeps_mem_def map_err_def split: prod.splits sum.splits)

lemma keeps_get_block_addr [keeps]: "keeps_mem mem (get_block_addr B conv i)"
  by (auto simp: keeps_mem_def get_block_addr_def of_result_def split: sum.splits)

lemma keeps_if [keeps]: "keeps_mem mem a \<Longrightarrow> keeps_mem mem b \<Longrightarrow> keeps_mem mem (if c then a else b)"
  by simp

lemma on_flash_total: "on_flash m d = (r, d') \<Longrightarrow> bd_blocks_total d' = bd_blocks_total d"
  by (auto simp: on_flash_def split: prod.splits)

context nor_flash_contract begin

lemma keeps_read [keeps]: "keeps_mem mem (on_flash (nf_read F off n))"
  by (auto simp: keeps_mem_def on_flash_def dest: read_frame split: prod.splits)

lemma keeps_try_get_fragment_status [keeps]: "keeps_mem mem (try_get_fragment_status F B h n)"
  unfolding try_get_fragment_status_def Let_def by (intro keeps)

lemma keeps_fragment_status [keeps]: "keeps_mem mem (fragment_status F B h n)"
  unfolding fragment_status_def
  by (intro keeps, auto split: sum.splits option.splits flash_error.splits intro: keeps)

lemma keeps_fragment_status_pre_write [keeps]: "keeps_mem mem (fragment_status_pre_write F B h n)"
  unfolding fragment_status_pre_write_def
  by (intro keeps, auto split: sum.splits option.splits flash_error.splits intro: keeps)

lemma keeps_read_raw_fragment [keeps]: "keeps_mem mem (read_raw_fragment F B h n off len)"
  unfolding read_raw_fragment_def Let_def by (intro keeps)

lemma keeps_read_fragment_at_offset [keeps]:
  "keeps_mem mem (read_fragment_at_offset F B h n off len)"
  unfolding read_fragment_at_offset_def
  by (intro keeps, auto split: fragment_status.splits intro: keeps)

lemma keeps_read_fragment [keeps]: "keeps_mem mem (read_fragment F B h n len)"
  unfolding read_fragment_def by (intro keeps)

lemma keeps_verify_chunks [keeps]: "keeps_mem mem (verify_chunks F B h n k cs)"
  by (induction cs arbitrary: k) (auto intro!: keeps)

lemma keeps_verify_fragment [keeps]: "keeps_mem mem (verify_fragment F B h n data)"
  unfolding verify_fragment_def by (intro keeps)

lemma keeps_block_header [keeps]: "keeps_mem mem (block_header F B i)"
proof -
  have "keeps_mem mem (and_then (map_err FE_Flash (on_flash (nf_read F (i * of_nat B) 16)))
          (\<lambda>buffer. ret (block_header_from_bytes B i buffer)))"
    by (intro keeps)
  then show ?thesis by (simp add: keeps_mem_def block_header_def)
qed

lemma keeps_block_is_valid [keeps]: "keeps_mem mem (block_is_valid F B i)"
proof -
  have "keeps_mem mem (and_then (map_err FE_Flash (on_flash (nf_read F (i * of_nat B) 4)))
          (\<lambda>buffer. ret (block_valid_from_bytes buffer)))"
    by (intro keeps)
  then show ?thesis by (simp add: keeps_mem_def block_is_valid_def)
qed

lemma keeps_block_is_empty [keeps]: "keeps_mem mem (block_is_empty F B h)"
proof -
  have "keeps_mem mem (block_is_empty_loop F B h is)" for "is"
    by (induction "is") (auto intro!: keeps)
  then show ?thesis by (simp add: block_is_empty_def)
qed

lemma keeps_block_find_valid_fragment [keeps]: "keeps_mem mem (block_find_valid_fragment F B h)"
proof -
  have "keeps_mem mem (find_valid_fragment_loop F B h is)" for "is"
    by (induction "is") (auto simp: Let_def intro!: keeps)
  then show ?thesis by (simp add: block_find_valid_fragment_def)
qed

end

section \<open>What the reads return\<close>

context nor_flash_contract begin

abbreviation stored :: "'f block_device \<Rightarrow> bytes" where
  "stored d \<equiv> mem (bd_flash d)"

abbreviation dok :: "nat \<Rightarrow> 'f block_device \<Rightarrow> bool" where
  "dok B d \<equiv> device_ok B (stored d) (bd_blocks_total d)"

abbreviation hok :: "nat \<Rightarrow> 'f block_device \<Rightarrow> block_hdr \<Rightarrow> bool" where
  "hok B d h \<equiv> header_ok B (bd_blocks_total d) h"

lemma get_block_addr_Ok:
  assumes "dok B d" and "unat i < bd_blocks_total d"
  shows "get_block_addr B conv i d = (Ok (i * of_nat B), d)"
proof -
  have "unat (of_nat (bd_blocks_total d) :: u32) = bd_blocks_total d"
    by (rule unat_of_nat_lt) (rule device_okD(6) [OF assms(1)])
  then show ?thesis
    using assms(2) by (simp add: get_block_addr_def block_addr_def of_result_def word_less_nat_alt)
qed

lemma and_then_get_block_addr:
  assumes "dok B d" and "unat i < bd_blocks_total d"
  shows "and_then (get_block_addr B conv i) k d = k (i * of_nat B) d"
  by (simp add: and_then_def get_block_addr_Ok [OF assms])

lemma on_read_Ok:
  "on_flash (nf_read F a n) d = (Ok bs, d') \<Longrightarrow>
     unat a + n \<le> length (stored d) \<and> bs = seg (unat a) n (stored d)"
  by (auto simp: on_flash_def dest: read_ok split: prod.splits)

lemma try_get_fragment_status_Ok:
  assumes "dok B d" and "hok B d h" and "try_get_fragment_status F B h n d = (Ok (Some s), d')"
  shows "rel_frag h n < bh_frag_count h \<and> s = stored_status B (stored d) h (rel_frag h n)"
proof -
  have rel: "rel_frag h n < bh_frag_count h"
    using assms(3) by (auto simp: try_get_fragment_status_def rel_frag_def Let_def split: if_splits)
  have id: "unat (bh_id h) < bd_blocks_total d" using assms(2) by (simp add: header_ok_def)
  from assms(3) rel obtain buf where
    "on_flash (nf_read F (bh_id h * of_nat B + of_nat (16 + 3 * rel_frag h n)) 3) d = (Ok buf, d')"
    and "s = fragment_status_from buf"
    by (auto simp: try_get_fragment_status_def rel_frag_def Let_def get_block_addr_Ok [OF assms(1) id]
        elim!: and_then_OkE)
  then show ?thesis
    using rel unat_status_addr [OF assms(1,2) rel] by (auto simp: stored_status_def dest: on_read_Ok)
qed

lemma fragment_status_Ok:
  assumes "dok B d" and "hok B d h" and "fragment_status F B h n d = (Ok s, d')"
  shows "rel_frag h n < bh_frag_count h \<and> s = stored_status B (stored d) h (rel_frag h n)"
  using assms(3) by (auto simp: fragment_status_def attempt_def
      dest: try_get_fragment_status_Ok [OF assms(1,2)]
      split: prod.splits sum.splits option.splits flash_error.splits)

lemma fragment_status_pre_write_Ok:
  assumes "dok B d" and "hok B d h" and "fragment_status_pre_write F B h n d = (Ok s, d')"
  shows "rel_frag h n < bh_frag_count h \<and> s = stored_status B (stored d) h (rel_frag h n)"
  using assms(3) by (auto simp: fragment_status_pre_write_def attempt_def
      dest: try_get_fragment_status_Ok [OF assms(1,2)]
      split: prod.splits sum.splits option.splits flash_error.splits)

lemma read_raw_fragment_Ok:
  assumes "dok B d" and "hok B d h" and "read_raw_fragment F B h n off len d = (Ok bs, d')"
  shows "rel_frag h n < bh_frag_count h
    \<and> bs = seg (data_pos B h (rel_frag h n) + off) (min len (fragment_size h - off)) (stored d)"
proof -
  let ?i = "rel_frag h n" and ?n = "min len (fragment_size h - off)"
  let ?o = "headers_total_size h + ?i * fragment_size h + off"
  have rel: "?i < bh_frag_count h"
    using assms(3) by (auto simp: read_raw_fragment_def rel_frag_def Let_def split: if_splits)
  have id: "unat (bh_id h) < bd_blocks_total d" using assms(2) by (simp add: header_ok_def)
  have rd: "on_flash (nf_read F (bh_id h * of_nat B + of_nat ?o) ?n) d = (Ok bs, d')"
    using assms(3) rel
    by (simp add: read_raw_fragment_def rel_frag_def Let_def and_then_def
        get_block_addr_Ok [OF assms(1) id])
  show ?thesis
  proof (cases "?n = 0")
    case True
    with on_read_Ok [OF rd] rel show ?thesis by simp
  next
    case False
    then have "?o < B" using layout(2) [OF assms(1,2) rel] by auto
    then have "unat (bh_id h * of_nat B + of_nat ?o :: u32) = data_pos B h ?i + off"
      using unat_block_addr [OF assms(1) id, of ?o] by (simp add: data_pos_def)
    with on_read_Ok [OF rd] rel show ?thesis by simp
  qed
qed

lemma read_fragment_at_offset_Ok:
  assumes "dok B d" and "hok B d h" and "read_fragment_at_offset F B h n off len d = (Ok bs, d')"
  shows "rel_frag h n < bh_frag_count h \<and> stored_status B (stored d) h (rel_frag h n) = Valid
    \<and> bs = seg (data_pos B h (rel_frag h n) + off) (min len (fragment_size h - off)) (stored d)"
proof -
  from assms(3) obtain s d1 where st: "fragment_status F B h n d = (Ok s, d1)"
    and rest: "s = Valid \<and> read_raw_fragment F B h n off len d1 = (Ok bs, d')"
    unfolding read_fragment_at_offset_def
    by (elim and_then_OkE) (auto split: fragment_status.splits)
  note keep = keeps_memD [OF keeps_fragment_status st]
  with rest read_raw_fragment_Ok [of B d1 h n off len bs d'] assms(1,2)
  show ?thesis using fragment_status_Ok [OF assms(1,2) st] by auto
qed

lemma verify_chunks_True:
  assumes "dok B d" and "hok B d h"
    and "verify_chunks F B h n k (chunks 128 data) d = (Ok True, d')"
  shows "seg (data_pos B h (rel_frag h n) + k * 128) (length data) (stored d) = data"
  using assms
proof (induction "128 :: nat" data arbitrary: k d rule: chunks.induct)
  case (1 data)
  show ?case
  proof (cases "data = []")
    case True
    then show ?thesis by simp
  next
    case False
    let ?c = "take 128 data" and ?p = "data_pos B h (rel_frag h n) + k * 128"
    have ch: "chunks 128 data = ?c # chunks 128 (drop 128 data)"
      using False by (simp add: chunks.simps [of 128 data])
    from "1.prems"(3) obtain d1 where
      rd: "read_raw_fragment F B h n (k * 128) (length ?c) d = (Ok ?c, d1)"
      and vs: "verify_chunks F B h n (Suc k) (chunks 128 (drop 128 data)) d1 = (Ok True, d')"
      unfolding ch by (auto elim!: and_then_OkE split: if_splits)
    note keep = keeps_memD [OF keeps_read_raw_fragment rd]
    have c: "?c = seg ?p (min (length ?c) (fragment_size h - k * 128)) (stored d)"
      using read_raw_fragment_Ok [OF "1.prems"(1,2) rd] by blast
    have "length ?c \<le> min (length ?c) (fragment_size h - k * 128)"
      using arg_cong [OF c, of length] unfolding length_seg by linarith
    then have mn: "min (length ?c) (fragment_size h - k * 128) = length ?c" by linarith
    have hd: "?c = seg ?p (length ?c) (stored d)" using c unfolding mn .
    have tl: "seg (?p + 128) (length (drop 128 data)) (stored d) = drop 128 data"
      using "1.hyps" [OF _ _ _ vs] keep "1.prems"(1,2) False by (simp add: algebra_simps)
    show ?thesis
    proof (cases "length data \<le> 128")
      case True
      then show ?thesis using hd by simp
    next
      case False
      then have "seg ?p (length data) (stored d) = seg ?p 128 (stored d) @ drop 128 data"
        using tl seg_append_seg [of ?p 128 "stored d" "length data - 128"] by simp
      also have "seg ?p 128 (stored d) = ?c" using hd False by simp
      finally show ?thesis by simp
    qed
  qed
qed

lemma verify_fragment_True:
  assumes "dok B d" and "hok B d h" and "verify_fragment F B h n data d = (Ok True, d')"
  shows "seg (data_pos B h (rel_frag h n)) (length data) (stored d) = data"
  using verify_chunks_True [OF assms(1,2), of n 0 data d'] assms(3) by (simp add: verify_fragment_def)

lemma block_header_Ok:
  assumes "dok B d" and "unat i < bd_blocks_total d" and "block_header F B i d = (Ok ho, d')"
  shows "ho = stored_header B (stored d) i"
proof -
  from assms(3) obtain buf where "on_flash (nf_read F (i * of_nat B) 16) d = (Ok buf, d')"
    and "ho = block_header_from_bytes B i buf"
    by (auto simp: block_header_def elim!: and_then_OkE split: if_splits)
  then show ?thesis
    using unat_block_addr_0 [OF assms(1,2)] by (auto simp: stored_header_def dest: on_read_Ok)
qed

end

end
