(* ===== verification/Block_Layer_Writes.thy ===== *)
theory Block_Layer_Writes
  imports Block_Layer_Correct
begin

text \<open>
  The writing half of the block layer: the exact footprint of \<open>write_fragment\<close>,
  \<open>delete_fragment\<close> and \<open>format_block\<close>, and the states they can leave behind when a flash
  operation fails or is cut short at any point.
\<close>

section \<open>Footprints\<close>

text \<open>Nothing but the header and the data of fragment \<open>i\<close> changed.\<close>

definition only_fragment :: "nat \<Rightarrow> block_hdr \<Rightarrow> nat \<Rightarrow> bytes \<Rightarrow> bytes \<Rightarrow> bool" where
  "only_fragment B h i m m' \<longleftrightarrow> length m' = length m \<and>
     (\<forall>k < length m. \<not> (status_pos B h i \<le> k \<and> k < status_pos B h i + 3)
        \<and> \<not> (data_pos B h i \<le> k \<and> k < data_pos B h i + fragment_size h) \<longrightarrow> m' ! k = m ! k)"

lemma only_fragment_refl [simp]: "only_fragment B h i m m"
  by (simp add: only_fragment_def)

lemma only_fragment_trans [trans]:
  "only_fragment B h i m m' \<Longrightarrow> only_fragment B h i m' m'' \<Longrightarrow> only_fragment B h i m m''"
  by (auto simp: only_fragment_def)

lemma only_fragment_status:
  "same_outside a b m m' \<Longrightarrow> status_pos B h i \<le> a \<Longrightarrow> b \<le> status_pos B h i + 3 \<Longrightarrow>
     only_fragment B h i m m'"
  by (auto simp: only_fragment_def same_outside_def)

lemma only_fragment_data:
  "same_outside a b m m' \<Longrightarrow> data_pos B h i \<le> a \<Longrightarrow> b \<le> data_pos B h i + fragment_size h \<Longrightarrow>
     only_fragment B h i m m'"
  by (auto simp: only_fragment_def same_outside_def)

lemma only_fragment_seg:
  assumes "only_fragment B h i m m'"
    and "off + n \<le> status_pos B h i \<or> status_pos B h i + 3 \<le> off"
    and "off + n \<le> data_pos B h i \<or> data_pos B h i + fragment_size h \<le> off"
  shows "seg off n m' = seg off n m"
  by (rule seg_cong) (use assms in \<open>auto simp: only_fragment_def\<close>)

text \<open>The other fragments of the block keep their status and their data.\<close>

lemma only_fragment_others:
  assumes "device_ok B m tot" and "header_ok B tot h" and "i < bh_frag_count h"
    and "j < bh_frag_count h" and "i \<noteq> j" and "only_fragment B h i m m'"
  shows "stored_status B m' h j = stored_status B m h j" and "stored_data B m' h j = stored_data B m h j"
proof -
  show "stored_status B m' h j = stored_status B m h j"
    unfolding stored_status_def
    using only_fragment_seg [OF assms(6), of "status_pos B h j" 3]
      frag_pos_disjoint(1) [OF assms(5), of B h] status_before_data [OF assms(1,2,4), of i]
    by auto
  show "stored_data B m' h j = stored_data B m h j"
    unfolding stored_data_def
    using only_fragment_seg [OF assms(6), of "data_pos B h j" "fragment_size h"]
      frag_pos_disjoint(2) [OF assms(5), of B h] status_before_data [OF assms(1,2,3), of j]
    by auto
qed

text \<open>Block headers, and every byte of the other blocks, are kept.\<close>

lemma only_fragment_same_outside:
  assumes "device_ok B m tot" and "header_ok B tot h" and "i < bh_frag_count h"
    and "only_fragment B h i m m'"
  shows "same_outside (block_pos B (bh_id h) + 16) (block_pos B (bh_id h) + B) m m'"
  using assms(4) pos_in_block [OF assms(1-3)] header_before_status [of B h i]
    status_before_data [OF assms(1-3), of i]
  by (auto simp: only_fragment_def same_outside_def)

lemma other_block_disjoint:
  assumes "block_id \<noteq> block_id'"
  shows "block_pos B block_id + B \<le> block_pos B block_id' \<or> block_pos B block_id' + B \<le> block_pos B block_id"
proof -
  have "unat block_id < unat block_id' \<or> unat block_id' < unat block_id"
    using assms by (metis linorder_neqE_nat word_unat_eq_iff)
  then show ?thesis
    using mult_le_mono1 [of "Suc (unat block_id)" "unat block_id'" B]
      mult_le_mono1 [of "Suc (unat block_id')" "unat block_id" B]
    by (auto simp: block_pos_def)
qed

lemma same_outside_header:
  assumes "same_outside (block_pos B block_id + 16) (block_pos B block_id + B) m m'" and "16 \<le> B"
  shows "stored_header B m' i = stored_header B m i"
proof -
  have "block_pos B i + 16 \<le> block_pos B block_id + 16 \<or> block_pos B block_id + B \<le> block_pos B i"
    using other_block_disjoint [of i block_id B] assms(2) by (cases "i = block_id") auto
  then show ?thesis
    unfolding stored_header_def using same_outside_seg [OF assms(1), of "block_pos B i" 16] by simp
qed

text \<open>A change confined to one block leaves the fragments of the other blocks alone.\<close>

lemma other_block_kept:
  assumes "device_ok B m tot" and "header_ok B tot h" and "i < bh_frag_count h"
    and "bh_id h \<noteq> block_id" and "same_outside (block_pos B block_id + k) (block_pos B block_id + B) m m'"
  shows "stored_status B m' h i = stored_status B m h i \<and> stored_data B m' h i = stored_data B m h i"
proof -
  note p = pos_in_block [OF assms(1-3)] and dis = other_block_disjoint [OF assms(4), of B]
    and hb = header_before_status [of B h i] and sd = status_before_data [OF assms(1-3), of i]
  have "seg (status_pos B h i) 3 m' = seg (status_pos B h i) 3 m"
    by (rule same_outside_seg [OF assms(5)]) (use p dis hb sd in linarith)
  moreover have "seg (data_pos B h i) (fragment_size h) m' = seg (data_pos B h i) (fragment_size h) m"
    by (rule same_outside_seg [OF assms(5)]) (use p dis hb sd in linarith)
  ultimately show ?thesis by (simp add: stored_status_def stored_data_def)
qed

section \<open>Status bytes\<close>

lemma stored_status_bytes:
  assumes "status_pos B h i + 3 \<le> length m"
  shows "stored_status B m h i =
    fragment_status_from [m ! status_pos B h i, m ! (status_pos B h i + 1), m ! (status_pos B h i + 2)]"
proof -
  have "seg (status_pos B h i) 3 m =
      [m ! status_pos B h i, m ! (status_pos B h i + 1), m ! (status_pos B h i + 2)]"
    using assms by (intro seg_eqI) (auto simp: less_Suc_eq numeral_3_eq_3)
  then show ?thesis by (simp add: stored_status_def)
qed

lemma fragment_status_from_cases:
  "fragment_status_from [a, b, c] = Empty \<longleftrightarrow> a = 0xFF \<and> b = 0xFF \<and> c = 0xFF"
  "fragment_status_from [a, b, c] = Valid \<longleftrightarrow> a = 0xD1 \<and> b = 0xDC \<and> c = 0xFF"
  "fragment_status_from [a, b, c] = Obsolete \<longleftrightarrow> c = 0x55"
  by (auto simp: fragment_status_from_def)

lemma fragment_status_from_not_obsolete:
  "c \<noteq> 0x55 \<Longrightarrow> fragment_status_from [a, b, c] \<in> {Empty, Invalid, Valid}"
  by (auto simp: fragment_status_from_def)

text \<open>A write is in progress: the first status byte is set, the others are still erased.\<close>

definition writing :: "nat \<Rightarrow> block_hdr \<Rightarrow> nat \<Rightarrow> bytes \<Rightarrow> bytes \<Rightarrow> bool" where
  "writing B h i m m' \<longleftrightarrow> only_fragment B h i m m' \<and> m' ! status_pos B h i = 0xD1
     \<and> m' ! (status_pos B h i + 1) = 0xFF \<and> m' ! (status_pos B h i + 2) = 0xFF"

lemma writing_invalid:
  assumes "device_ok B m tot" and "header_ok B tot h" and "i < bh_frag_count h" and "writing B h i m m'"
  shows "stored_status B m' h i = Invalid"
  using pos_in_block(3) [OF assms(1-3)] assms(4)
  by (auto simp: writing_def only_fragment_def stored_status_bytes fragment_status_from_def)

text \<open>
  What a write of \<open>data\<close> to an empty fragment can leave behind; \<open>success\<close> is whether it reported
  success.
\<close>

definition write_outcome :: "nat \<Rightarrow> block_hdr \<Rightarrow> nat \<Rightarrow> bytes \<Rightarrow> bytes \<Rightarrow> bytes \<Rightarrow> bool \<Rightarrow> bool" where
  "write_outcome B h i data m m' success \<longleftrightarrow> only_fragment B h i m m'
     \<and> (stored_status B m' h i \<in> {Empty, Invalid}
        \<or> stored_status B m' h i = Valid \<and> seg (data_pos B h i) (length data) m' = data)
     \<and> (success \<longrightarrow> stored_status B m' h i = Valid)"

section \<open>Flash writes by the block layer\<close>

context nor_flash_contract begin

lemma on_write_frame:
  assumes "on_flash (nf_write F a bs) d = (r, d')"
  shows "same_outside (unat a) (unat a + length bs) (stored d) (stored d')"
    and "bd_blocks_total d' = bd_blocks_total d"
  using assms by (auto simp: on_flash_def dest: write_frame split: prod.splits)

lemma on_write_Ok:
  "on_flash (nf_write F a bs) d = (Ok u, d') \<Longrightarrow>
     unat a + length bs \<le> length (stored d)
     \<and> (\<forall>i < length bs. stored d ! (unat a + i) = 0xFF \<longrightarrow> stored d' ! (unat a + i) = bs ! i)"
  by (auto simp: on_flash_def dest: write_ok split: prod.splits)

lemma write_marker_effect:
  assumes "dok B d" and "hok B d h" and "i < bh_frag_count h"
    and "fragment_status_as_byte st = Some (k, b)"
    and "write_marker F (bh_id h * of_nat B + of_nat (16 + 3 * i)) st d = (r, d')"
  shows "same_outside (status_pos B h i + k) (status_pos B h i + k + 1) (stored d) (stored d')"
    and "bd_blocks_total d' = bd_blocks_total d"
    and "r = Ok () \<Longrightarrow> stored d ! (status_pos B h i + k) = 0xFF \<Longrightarrow> stored d' ! (status_pos B h i + k) = b"
proof -
  have k: "k < 3" using assms(4) by (cases st) auto
  have "unat (bh_id h) < bd_blocks_total d" using assms(2) by (simp add: header_ok_def)
  moreover have "16 + 3 * i + k < B" using layout(1,3) [OF assms(1-3)] k by linarith
  ultimately have a: "unat (bh_id h * of_nat B + of_nat (16 + 3 * i) + of_nat k :: u32) = status_pos B h i + k"
    using unat_block_addr [OF assms(1), of "bh_id h" "16 + 3 * i + k"]
    by (simp add: status_pos_def add.assoc)
  from assms(4,5) obtain r' where
    w: "on_flash (nf_write F (bh_id h * of_nat B + of_nat (16 + 3 * i) + of_nat k) [b]) d = (r', d')"
    and r: "\<And>x. r = Ok x \<longleftrightarrow> r' = Ok x"
    by (auto simp: write_marker_def elim!: map_errE)
  show "same_outside (status_pos B h i + k) (status_pos B h i + k + 1) (stored d) (stored d')"
    and "bd_blocks_total d' = bd_blocks_total d"
    using on_write_frame [OF w] unfolding a by simp_all
  show "r = Ok () \<Longrightarrow> stored d ! (status_pos B h i + k) = 0xFF \<Longrightarrow> stored d' ! (status_pos B h i + k) = b"
    using on_write_Ok [of _ "[b]" d "()" d'] w r unfolding a [symmetric] by fastforce
qed

lemma data_write_effect:
  assumes "dok B d" and "hok B d h" and "i < bh_frag_count h" and "length data \<le> fragment_size h"
    and "on_flash (nf_write F (bh_id h * of_nat B
          + of_nat (headers_total_size h + i * fragment_size h)) data) d = (r, d')"
  shows "same_outside (data_pos B h i) (data_pos B h i + length data) (stored d) (stored d')"
    and "bd_blocks_total d' = bd_blocks_total d"
proof -
  let ?o = "headers_total_size h + i * fragment_size h"
  have id: "unat (bh_id h) < bd_blocks_total d" using assms(2) by (simp add: header_ok_def)
  show "bd_blocks_total d' = bd_blocks_total d" using on_write_frame(2) [OF assms(5)] .
  show "same_outside (data_pos B h i) (data_pos B h i + length data) (stored d) (stored d')"
  proof (cases "data = []")
    case True
    then show ?thesis
      using on_write_frame(1) [OF assms(5)] by simp
  next
    case False
    then have "?o < B" using layout(2) [OF assms(1-3)] assms(4) by (cases data) auto
    then have "unat (bh_id h * of_nat B + of_nat ?o :: u32) = data_pos B h i"
      using unat_block_addr [OF assms(1) id, of ?o] by (simp add: data_pos_def)
    then show ?thesis using on_write_frame(1) [OF assms(5)] by simp
  qed
qed

lemma dok_keep:
  "dok B d \<Longrightarrow> length (stored d') = length (stored d) \<Longrightarrow> bd_blocks_total d' = bd_blocks_total d \<Longrightarrow>
     dok B d'"
  by (simp add: device_ok_def)

text \<open>Step 1 of \<open>write_fragment\<close>: the marker of a write in progress.\<close>

lemma mark_invalid_stage:
  assumes dok: "dok B d" and hok: "hok B d h" and i: "i < bh_frag_count h"
    and empty: "stored_status B (stored d) h i = Empty"
    and wm: "write_marker F (bh_id h * of_nat B + of_nat (16 + 3 * i)) Invalid d = (r, d')"
  shows "only_fragment B h i (stored d) (stored d')"
    and "bd_blocks_total d' = bd_blocks_total d"
    and "stored_status B (stored d') h i \<in> {Empty, Invalid}"
    and "r = Ok () \<Longrightarrow> writing B h i (stored d) (stored d')"
proof -
  let ?p = "status_pos B h i" and ?m = "stored d'"
  have inb: "?p + 3 \<le> length (stored d)" by (rule pos_in_block(3) [OF dok hok i])
  have ff: "stored d ! ?p = 0xFF" "stored d ! (?p + 1) = 0xFF" "stored d ! (?p + 2) = 0xFF"
    using empty inb by (simp_all add: stored_status_bytes fragment_status_from_cases)
  note w = write_marker_effect [OF dok hok i _ wm]
  have so: "same_outside ?p (?p + 1) (stored d) ?m" using w(1) [of 0] by simp
  then show of: "only_fragment B h i (stored d) ?m" by (rule only_fragment_status) simp_all
  show "bd_blocks_total d' = bd_blocks_total d" using w(2) [of 0] by simp
  have b: "?m ! (?p + 1) = 0xFF" "?m ! (?p + 2) = 0xFF"
    using same_outside_nth [OF so] ff inb by auto
  then show "stored_status B ?m h i \<in> {Empty, Invalid}"
    using inb same_outside_length [OF so] by (simp add: stored_status_bytes fragment_status_from_def)
  show "r = Ok () \<Longrightarrow> writing B h i (stored d) ?m"
    using of b ff w(3) [of 0] by (simp add: writing_def)
qed

text \<open>Step 2: the data.\<close>

lemma data_stage:
  assumes dok: "dok B d" and hok: "hok B d h" and i: "i < bh_frag_count h"
    and len: "length data \<le> fragment_size h" and wr: "writing B h i m (stored d)"
    and wd: "on_flash (nf_write F (bh_id h * of_nat B
          + of_nat (headers_total_size h + i * fragment_size h)) data) d = (r, d')"
  shows "writing B h i m (stored d')" and "bd_blocks_total d' = bd_blocks_total d"
proof -
  note w = data_write_effect [OF dok hok i len wd]
  show "bd_blocks_total d' = bd_blocks_total d" by (rule w(2))
  have "only_fragment B h i (stored d) (stored d')"
    using w(1) by (rule only_fragment_data) (use len in simp_all)
  then show "writing B h i m (stored d')"
    using wr same_outside_nth [OF w(1)] status_before_data [OF dok hok i, of i]
      pos_in_block(3) [OF dok hok i]
    by (auto simp: writing_def intro: only_fragment_trans)
qed

text \<open>Step 4: the marker of a complete write.\<close>

lemma mark_valid_stage:
  assumes dok: "dok B d" and hok: "hok B d h" and i: "i < bh_frag_count h"
    and wr: "writing B h i m (stored d)" and data: "seg (data_pos B h i) n (stored d) = data"
    and wm: "write_marker F (bh_id h * of_nat B + of_nat (16 + 3 * i)) Valid d = (r, d')"
  shows "only_fragment B h i m (stored d')" and "bd_blocks_total d' = bd_blocks_total d"
    and "stored_status B (stored d') h i \<in> {Invalid, Valid}"
    and "r = Ok () \<Longrightarrow> stored_status B (stored d') h i = Valid"
    and "seg (data_pos B h i) n (stored d') = data"
proof -
  let ?p = "status_pos B h i" and ?m = "stored d'"
  have inb: "?p + 3 \<le> length (stored d)" by (rule pos_in_block(3) [OF dok hok i])
  note w = write_marker_effect [OF dok hok i _ wm, of 1]
  have so: "same_outside (?p + 1) (?p + 2) (stored d) ?m" using w(1) by simp
  then have "only_fragment B h i (stored d) ?m" by (rule only_fragment_status) simp_all
  with wr show "only_fragment B h i m ?m" by (auto simp: writing_def intro: only_fragment_trans)
  show "bd_blocks_total d' = bd_blocks_total d" using w(2) by simp
  have b: "?m ! ?p = 0xD1" "?m ! (?p + 2) = 0xFF"
    using same_outside_nth [OF so] wr inb by (auto simp: writing_def)
  then show "stored_status B ?m h i \<in> {Invalid, Valid}"
    using inb same_outside_length [OF so] by (simp add: stored_status_bytes fragment_status_from_def)
  show "r = Ok () \<Longrightarrow> stored_status B ?m h i = Valid"
    using b w(3) wr inb same_outside_length [OF so]
    by (simp add: writing_def stored_status_bytes fragment_status_from_cases)
  show "seg (data_pos B h i) n ?m = data"
    using data same_outside_seg [OF so, of "data_pos B h i" n] status_before_data [OF dok hok i, of i]
    by simp
qed

text \<open>Steps 3 and 4: verify, then commit.\<close>

lemma commit_stage:
  assumes dok: "dok B d" and hok: "hok B d h" and i: "i < bh_frag_count h" and rel: "rel_frag h n = i"
    and wr: "writing B h i m (stored d)" and inv: "stored_status B (stored d) h i = Invalid"
    and op: "and_then (verify_fragment F B h n data) (\<lambda>verified.
         if \<not> verified then throw (FW_Write WK_VerifyFailed)
         else write_marker F (bh_id h * of_nat B + of_nat (16 + 3 * i)) Valid) d = (r, d')"
  shows "write_outcome B h i data m (stored d') (r = Ok ())" and "bd_blocks_total d' = bd_blocks_total d"
proof -
  have aborted: "write_outcome B h i data m (stored d) False"
    using wr inv by (auto simp: write_outcome_def writing_def)
  have "write_outcome B h i data m (stored d') (r = Ok ()) \<and> bd_blocks_total d' = bd_blocks_total d"
    using op
  proof (cases rule: and_thenE)
    case (err e)
    then show ?thesis using aborted keeps_memD [OF keeps_verify_fragment err(1)] by simp
  next
    case (ok verified d3)
    note k3 = keeps_memD [OF keeps_verify_fragment ok(1)]
    show ?thesis
    proof (cases verified)
      case False
      then show ?thesis using aborted ok(2) k3 by auto
    next
      case True
      have ok3: "dok B d3" "hok B d3 h" "writing B h i m (stored d3)" using dok hok wr k3 by simp_all
      have "seg (data_pos B h i) (length data) (stored d3) = data"
        using verify_fragment_True [OF dok hok] ok(1) True rel k3 by auto
      note v = mark_valid_stage [OF ok3(1,2) i ok3(3) this]
      have wm: "write_marker F (bh_id h * of_nat B + of_nat (16 + 3 * i)) Valid d3 = (r, d')"
        using ok(2) True by simp
      show ?thesis using v [OF wm] k3 by (auto simp: write_outcome_def)
    qed
  qed
  then show "write_outcome B h i data m (stored d') (r = Ok ())"
    and "bd_blocks_total d' = bd_blocks_total d" by auto
qed

text \<open>
  The write sequence on an empty fragment: whatever happens, the fragment ends up empty or
  invalid, or valid with exactly the new data.
\<close>

lemma write_empty_fragment_outcome:
  assumes dok: "dok B d" and hok: "hok B d h" and i: "i < bh_frag_count h" and rel: "rel_frag h n = i"
    and len: "length data \<le> fragment_size h" and empty: "stored_status B (stored d) h i = Empty"
    and op: "write_empty_fragment F B h n data (bh_id h * of_nat B) i d = (r, d')"
  shows "write_outcome B h i data (stored d) (stored d') (r = Ok ())
    \<and> bd_blocks_total d' = bd_blocks_total d"
  using op [unfolded write_empty_fragment_def Let_def BLOCK_HEADER_SIZE_def FRAG_HEADER_SIZE_def]
proof (cases rule: and_thenE)
  case (err e)
  then show ?thesis using mark_invalid_stage [OF dok hok i empty err(1)] by (auto simp: write_outcome_def)
next
  case (ok u d1)
  note s1 = mark_invalid_stage [OF dok hok i empty ok(1)]
  have w1: "writing B h i (stored d) (stored d1)" using s1(4) by simp
  have ok1: "dok B d1" "hok B d1 h" using dok_keep [OF dok] s1(1,2) hok by (auto simp: only_fragment_def)
  from ok(2) show ?thesis
  proof (cases rule: and_then_map_errE)
    case (err e)
    note w2 = data_stage [OF ok1 i len w1 err(1)]
    show ?thesis using w2 err s1(2) writing_invalid [OF dok hok i w2(1)]
      by (auto simp: write_outcome_def writing_def)
  next
    case (ok u2 d2)
    note w2 = data_stage [OF ok1 i len w1 ok(1)]
    have ok2: "dok B d2" "hok B d2 h" using dok_keep [OF dok] w2 hok s1(2)
      by (auto simp: writing_def only_fragment_def)
    show ?thesis
      using commit_stage [OF ok2 i rel w2(1) writing_invalid [OF dok hok i w2(1)] ok(2)] w2(2) s1(2)
      by simp
  qed
qed

text \<open>
  \<open>write_fragment\<close> on any flash that meets the contract: either it fails and the flash is as
  before, or the fragment was empty and the write sequence ran.
\<close>

lemma write_fragment_effect:
  assumes dok: "dok B d" and hok: "hok B d h" and w: "write_fragment F B h n data d = (r, d')"
  shows "bd_blocks_total d' = bd_blocks_total d \<and>
    (r \<noteq> Ok () \<and> stored d' = stored d \<or>
     rel_frag h n < bh_frag_count h \<and> length data \<le> fragment_size h
     \<and> stored_status B (stored d) h (rel_frag h n) = Empty
     \<and> write_outcome B h (rel_frag h n) data (stored d) (stored d') (r = Ok ()))"
proof -
  let ?i = "rel_frag h n"
  have id: "unat (bh_id h) < bd_blocks_total d" using hok by (simp add: header_ok_def)
  show ?thesis
  proof (cases "length data \<le> fragment_size h \<and> ?i < bh_frag_count h")
    case False
    then show ?thesis
      using w by (auto simp: write_fragment_def and_then_get_block_addr [OF dok id]
          rel_frag_def not_less not_le split: if_splits)
  next
    case True
    then have "and_then (fragment_status_pre_write F B h n) (\<lambda>status. case status of
        Invalid \<Rightarrow> throw (FW_Write WK_FragmentInvalid)
      | Obsolete \<Rightarrow> throw (FW_Write WK_FragmentObsolete)
      | Valid \<Rightarrow> throw (FW_Write WK_FragmentExists)
      | Empty \<Rightarrow> write_empty_fragment F B h n data (bh_id h * of_nat B) ?i) d = (r, d')"
      using w unfolding write_fragment_def Let_def rel_frag_def
      by (simp add: and_then_get_block_addr [OF dok id])
    then show ?thesis
    proof (cases rule: and_thenE)
      case (err e)
      then show ?thesis using keeps_memD [OF keeps_fragment_status_pre_write err(1)] by auto
    next
      case (ok status d1)
      note k = keeps_memD [OF keeps_fragment_status_pre_write ok(1)]
      show ?thesis
      proof (cases "status = Empty")
        case False
        then show ?thesis using ok(2) k by (cases status) auto
      next
        case empty: True
        have "stored_status B (stored d1) h ?i = Empty" and "dok B d1" and "hok B d1 h"
          using fragment_status_pre_write_Ok [OF dok hok ok(1)] empty k dok hok by auto
        with write_empty_fragment_outcome [of B d1 h ?i n data r d'] ok(2) empty True k
        show ?thesis by auto
      qed
    qed
  qed
qed

text \<open>
  \<open>delete_fragment\<close>: only the status of the fragment can change, its data never does; on
  success the fragment does not read as valid or empty any more, and a failed delete leaves the
  status as it was, obsolete or invalid.
\<close>

lemma delete_fragment_outcome:
  assumes dok: "dok B d" and hok: "hok B d h" and w: "delete_fragment F B h n d = (r, d')"
  shows "bd_blocks_total d' = bd_blocks_total d \<and>
    (r \<noteq> Ok () \<and> stored d' = stored d \<or>
     rel_frag h n < bh_frag_count h
     \<and> same_outside (status_pos B h (rel_frag h n) + 2) (status_pos B h (rel_frag h n) + 3)
         (stored d) (stored d')
     \<and> (stored_status B (stored d') h (rel_frag h n) \<in> {Obsolete, Invalid} \<or> stored d' = stored d)
     \<and> (r = Ok () \<longrightarrow> stored_status B (stored d') h (rel_frag h n) \<in> {Obsolete, Invalid}))"
proof -
  let ?i = "rel_frag h n"
  let ?p = "status_pos B h ?i"
  have id: "unat (bh_id h) < bd_blocks_total d" using hok by (simp add: header_ok_def)
  show ?thesis
  proof (cases "?i < bh_frag_count h")
    case False
    then show ?thesis
      using w by (auto simp: delete_fragment_def and_then_get_block_addr [OF dok id]
          rel_frag_def not_less split: if_splits)
  next
    case True
    then have "and_then (fragment_status_pre_write F B h n) (\<lambda>status. case status of
        Invalid \<Rightarrow> ret ()
      | Obsolete \<Rightarrow> ret ()
      | _ \<Rightarrow> write_marker F (bh_id h * of_nat B + of_nat (16 + 3 * ?i)) Obsolete) d = (r, d')"
      using w unfolding delete_fragment_def Let_def rel_frag_def BLOCK_HEADER_SIZE_def FRAG_HEADER_SIZE_def
      by (simp only: and_then_get_block_addr [OF dok id] not_less [symmetric] if_False not_True_eq_False)
    then show ?thesis
    proof (cases rule: and_thenE)
      case (err e)
      then show ?thesis using keeps_memD [OF keeps_fragment_status_pre_write err(1)] by auto
    next
      case (ok status d1)
      note k = keeps_memD [OF keeps_fragment_status_pre_write ok(1)]
      note st = fragment_status_pre_write_Ok [OF dok hok ok(1)]
      show ?thesis
      proof (cases "status \<in> {Invalid, Obsolete}")
        case True
        then show ?thesis using ok(2) k st by auto
      next
        case False
        have inb: "?p + 3 \<le> length (stored d)" by (rule pos_in_block(3) [OF dok hok \<open>?i < _\<close>])
        have ok1: "dok B d1" "hok B d1 h" using dok hok k by simp_all
        have wm: "write_marker F (bh_id h * of_nat B + of_nat (16 + 3 * ?i)) Obsolete d1 = (r, d')"
          using ok(2) False by (cases status) auto
        have ff: "stored d ! (?p + 2) = 0xFF"
          using st False inb by (cases status) (auto simp: stored_status_bytes fragment_status_from_def
              split: if_splits)
        note w = write_marker_effect [OF ok1 \<open>?i < _\<close> _ wm, of 2]
        have so: "same_outside (?p + 2) (?p + 3) (stored d) (stored d')"
          using w(1) k by (simp add: numeral_3_eq_3)
        have "stored d' = stored d" if "stored d' ! (?p + 2) = 0xFF"
        proof (rule nth_equalityI)
          show "length (stored d') = length (stored d)" by (rule same_outside_length [OF so])
          fix j assume "j < length (stored d')"
          then show "stored d' ! j = stored d ! j"
            using same_outside_nth [OF so, of j] that ff same_outside_length [OF so]
            by (cases "j < ?p + 2 \<or> ?p + 3 \<le> j") (auto simp: numeral_3_eq_3 not_le less_Suc_eq)
        qed
        then have "stored_status B (stored d') h ?i \<in> {Obsolete, Invalid} \<or> stored d' = stored d"
          using inb same_outside_length [OF so] by (auto simp: stored_status_bytes fragment_status_from_def)
        moreover have "r = Ok () \<longrightarrow> stored_status B (stored d') h ?i = Obsolete"
          using w(3) ff k inb same_outside_length [OF so]
          by (simp add: stored_status_bytes fragment_status_from_cases)
        ultimately show ?thesis using so w(2) k \<open>?i < _\<close> by auto
      qed
    qed
  qed
qed

end

end
