(* ===== verification/Block_Format.thy ===== *)
theory Block_Format
  imports Block_Layer_Writes
begin

text \<open>
  \<open>format_block\<close>: its result on success, and the three states of its specification (as before,
  invalid, formatted) when it fails or is interrupted at any flash operation.
\<close>

section \<open>A formatted block\<close>

definition formatted :: "nat \<Rightarrow> block_id \<Rightarrow> block_hdr \<Rightarrow> bytes \<Rightarrow> bool" where
  "formatted B block_id h m \<longleftrightarrow> stored_header B m block_id = Some h
     \<and> (\<forall>k. block_pos B block_id + 16 \<le> k \<and> k < block_pos B block_id + B \<longrightarrow> m ! k = 0xFF)"

text \<open>Every fragment of a formatted block is empty, and its data area is erased.\<close>

lemma formatted_empty:
  assumes "device_ok B m tot" and "unat block_id < tot" and "formatted B block_id h m"
    and "i < bh_frag_count h"
  shows "stored_status B m h i = Empty" and "stored_data B m h i = replicate (fragment_size h) 0xFF"
proof -
  have sh: "stored_header B m block_id = Some h" using assms(3) by (simp add: formatted_def)
  note hk = stored_header_ok [OF sh assms(2)]
  note inb = pos_in_block [OF assms(1) hk(1) assms(4)]
  have ff: "m ! k = 0xFF" if "status_pos B h i \<le> k" "k < block_pos B block_id + B" for k
    using assms(3) that header_before_status [of B h i] hk(2) by (auto simp: formatted_def)
  show "stored_status B m h i = Empty"
    using ff inb hk(2) by (simp add: stored_status_bytes fragment_status_from_def)
  show "stored_data B m h i = replicate (fragment_size h) 0xFF"
    unfolding stored_data_def using ff inb hk(2) status_before_data [OF assms(1) hk(1) assms(4), of i]
    by (intro seg_eqI) auto
qed

lemma stored_header_None:
  assumes "block_pos B block_id + 16 \<le> length m" and "k < 4"
    and "m ! (block_pos B block_id + k) \<noteq> [0x90, 0x0D, 0xFF, 0xFF] ! k"
  shows "stored_header B m block_id = None"
proof (cases "stored_header B m block_id")
  case (Some h)
  from header_from_bytes_Some(4) [OF this [unfolded stored_header_def]]
  have "seg (block_pos B block_id) 4 m = [0x90, 0x0D, 0xFF, 0xFF]" by (simp add: seg_seg)
  from seg_eqD [OF this assms(2)] assms(1,2,3) show ?thesis by simp
qed simp

text \<open>The block begins with the marker of a valid block.\<close>

definition marked_valid :: "nat \<Rightarrow> bytes \<Rightarrow> block_id \<Rightarrow> bool" where
  "marked_valid B m block_id \<longleftrightarrow> seg (block_pos B block_id) 4 m = [0x90, 0x0D, 0xFF, 0xFF]"

lemma not_marked_valid: "\<not> marked_valid B m block_id \<Longrightarrow> stored_header B m block_id = None"
  using header_from_bytes_Some(4) [of B block_id "seg (block_pos B block_id) 16 m"]
  by (cases "stored_header B m block_id") (auto simp: marked_valid_def stored_header_def seg_seg)

text \<open>The bytes of a block between writing its header and writing its marker.\<close>

definition header_written :: "nat \<Rightarrow> block_id \<Rightarrow> block_hdr \<Rightarrow> bytes \<Rightarrow> bool" where
  "header_written B block_id h m \<longleftrightarrow>
     (\<forall>k < 4. m ! (block_pos B block_id + k) = 0xFF)
     \<and> seg (block_pos B block_id + 4) 12 m = drop 4 (block_header_as_bytes h)
     \<and> (\<forall>k. block_pos B block_id + 16 \<le> k \<and> k < block_pos B block_id + B \<longrightarrow> m ! k = 0xFF)"

text \<open>
  Writing the marker of a block whose header is in place, torn or not, leaves the block invalid
  or formatted.
\<close>

lemma header_written_marker:
  assumes new: "block_header_try_new B block_id oid ver fs ffn = Ok h"
    and hw: "header_written B block_id h m" and len: "block_pos B block_id + B \<le> length m" "16 \<le> B"
    and so: "same_outside (block_pos B block_id) (block_pos B block_id + 2) m m'"
  shows "formatted B block_id h m' \<or> stored_header B m' block_id = None"
    and "m' ! block_pos B block_id = 0x90 \<Longrightarrow> m' ! (block_pos B block_id + 1) = 0x0D \<Longrightarrow>
      formatted B block_id h m'"
proof -
  let ?p = "block_pos B block_id"
  have l': "length m' = length m" by (rule same_outside_length [OF so])
  have b: "m' ! (?p + 2) = 0xFF" "m' ! (?p + 3) = 0xFF"
  proof -
    have "m ! (?p + k) = 0xFF" if "k < 4" for k using hw that by (simp add: header_written_def)
    from this [of 2] this [of 3] show "m' ! (?p + 2) = 0xFF" "m' ! (?p + 3) = 0xFF"
      using same_outside_nth [OF so, of "?p + 2"] same_outside_nth [OF so, of "?p + 3"] len by simp_all
  qed
  have rest: "seg (?p + 4) 12 m' = drop 4 (block_header_as_bytes h)"
    using same_outside_seg [OF so, of "?p + 4" 12] hw by (simp add: header_written_def)
  have tail: "\<forall>k. ?p + 16 \<le> k \<and> k < ?p + B \<longrightarrow> m' ! k = 0xFF"
    using hw so len by (auto simp: header_written_def same_outside_nth)
  show fmt: "formatted B block_id h m'" if "m' ! ?p = 0x90" "m' ! (?p + 1) = 0x0D"
  proof -
    have "seg ?p 4 m' = [0x90, 0x0D, 0xFF, 0xFF]"
      using that b len l'
      by (intro seg_eqI) (auto simp: less_Suc_eq numeral_eq_Suc)
    then have "seg ?p 16 m' = [0x90, 0x0D, 0xFF, 0xFF] @ drop 4 (block_header_as_bytes h)"
      using seg_append_seg [of ?p 4 m' 12] rest by simp
    then show ?thesis
      using header_roundtrip [OF new] tail by (simp add: formatted_def stored_header_def)
  qed
  show "formatted B block_id h m' \<or> stored_header B m' block_id = None"
  proof (cases "m' ! ?p = 0x90 \<and> m' ! (?p + 1) = 0x0D")
    case True
    then show ?thesis using fmt by blast
  next
    case False
    then show ?thesis
      using stored_header_None [of B block_id m' 0] stored_header_None [of B block_id m' 1] len l' by auto
  qed
qed

section \<open>The steps of format_block\<close>

context nor_flash_contract begin

text \<open>Step 1 invalidates the block or leaves it alone.\<close>

lemma invalidate_stage:
  assumes dok: "dok B d" and i: "unat block_id < bd_blocks_total d"
    and w: "on_flash (nf_write F (block_id * of_nat B + of_nat 2) [0xBA, 0xAD]) d = (r, d')"
  shows "same_outside (block_pos B block_id) (block_pos B block_id + B) (stored d) (stored d')"
    and "bd_blocks_total d' = bd_blocks_total d"
    and "stored d' = stored d \<or> stored_header B (stored d') block_id = None"
    and "r = Ok () \<Longrightarrow> \<not> marked_valid B (stored d') block_id"
proof -
  let ?p = "block_pos B block_id"
  note B = device_okD(1) [OF dok] and inb = block_in_device [OF dok i]
  have a: "unat (block_id * of_nat B + of_nat 2 :: u32) = ?p + 2"
    by (rule unat_block_addr [OF dok i]) (use B in simp)
  have clr: "stored d ! k = 0xFF" if "k < length (stored d)" "stored d' ! k = 0xFF" for k
    using w that write_clears [of _ _ _ _ _ k] by (fastforce simp: on_flash_def split: prod.splits)
  show "\<not> marked_valid B (stored d') block_id" if "r = Ok ()"
  proof
    assume "marked_valid B (stored d') block_id"
    then have "seg ?p 4 (stored d') ! 2 = 0xFF"
      by (simp add: marked_valid_def)
    moreover have "length (stored d') = length (stored d)"
      by (rule same_outside_length [OF on_write_frame(1) [OF w]])
    ultimately have now: "stored d' ! (?p + 2) = 0xFF"
      using inb B by (simp add: nth_seg)
    then have "stored d ! (?p + 2) = 0xFF"
      using clr inb B by simp
    with on_write_Ok [OF w [unfolded that], unfolded a] have "stored d' ! (?p + 2 + 0) = 0xBA"
      by fastforce
    with now show False by simp
  qed
  have so: "same_outside (?p + 2) (?p + 4) (stored d) (stored d')"
    using on_write_frame(1) [OF w] unfolding a by (simp add: numeral_eq_Suc)
  then show "same_outside ?p (?p + B) (stored d) (stored d')"
    by (rule same_outside_mono) (use B in simp_all)
  show "bd_blocks_total d' = bd_blocks_total d" by (rule on_write_frame(2) [OF w])
  show "stored d' = stored d \<or> stored_header B (stored d') block_id = None"
  proof (cases "stored d' ! (?p + 2) = 0xFF \<and> stored d' ! (?p + 3) = 0xFF")
    case True
    have "stored d' ! k = stored d ! k" if k: "k < length (stored d)" for k
      using k True clr [of "?p + 2"] clr [of "?p + 3"] same_outside_nth [OF so k] inb B
      by (cases "k < ?p + 2 \<or> ?p + 4 \<le> k") (auto simp: not_le not_less numeral_eq_Suc less_Suc_eq)
    then show ?thesis using same_outside_length [OF so] by (auto intro!: nth_equalityI)
  next
    case False
    then show ?thesis
      using stored_header_None [of B block_id "stored d'" 2] stored_header_None [of B block_id "stored d'" 3]
        inb B same_outside_length [OF so]
      by (auto simp: numeral_eq_Suc)
  qed
qed

text \<open>Steps 3 and 4, after a successful erase.\<close>

lemma write_header_stage:
  assumes dok: "dok B d" and i: "unat block_id < bd_blocks_total d"
    and new: "block_header_try_new B block_id oid ver fs ffn = Ok h"
    and ff: "\<forall>k. block_pos B block_id \<le> k \<and> k < block_pos B block_id + B \<longrightarrow> stored d ! k = 0xFF"
    and w: "on_flash (nf_write F (block_id * of_nat B + 4) (drop 4 (block_header_as_bytes h))) d = (r, d')"
  shows "same_outside (block_pos B block_id) (block_pos B block_id + B) (stored d) (stored d')"
    and "bd_blocks_total d' = bd_blocks_total d"
    and "stored_header B (stored d') block_id = None"
    and "r = Ok () \<Longrightarrow> header_written B block_id h (stored d')"
proof -
  let ?p = "block_pos B block_id"
  note B = device_okD(1) [OF dok] and inb = block_in_device [OF dok i]
  have a: "unat (block_id * of_nat B + 4 :: u32) = ?p + 4"
    using unat_block_addr [OF dok i, of 4] B by simp
  have so: "same_outside (?p + 4) (?p + 16) (stored d) (stored d')"
    using on_write_frame(1) [OF w] unfolding a by (simp add: add.commute)
  then show so': "same_outside ?p (?p + B) (stored d) (stored d')"
    by (rule same_outside_mono) (use B in simp_all)
  show "bd_blocks_total d' = bd_blocks_total d" by (rule on_write_frame(2) [OF w])
  have m4: "\<forall>k < 4. stored d' ! (?p + k) = 0xFF"
    using same_outside_nth [OF so] ff inb B by auto
  from spec [OF this, of 0] show "stored_header B (stored d') block_id = None"
    using stored_header_None [of B block_id "stored d'" 0] inb B same_outside_length [OF so] by simp
  assume "r = Ok ()"
  note ok = on_write_Ok [OF w [unfolded this], unfolded a]
  have "stored d' ! (?p + 4 + i) = block_header_as_bytes h ! (4 + i)" if "i < 12" for i
    using conjunct2 [OF ok, rule_format, of i] that ff B by simp
  then have "seg (?p + 4) 12 (stored d') = drop 4 (block_header_as_bytes h)"
    using inb B same_outside_length [OF so] by (intro seg_eqI) auto
  moreover have "\<forall>k. ?p + 16 \<le> k \<and> k < ?p + B \<longrightarrow> stored d' ! k = 0xFF"
    using same_outside_nth [OF so] ff inb B by auto
  ultimately show "header_written B block_id h (stored d')"
    using m4 by (simp add: header_written_def)
qed

text \<open>Step 2 on its own, and the last step.\<close>

lemma erase_stage:
  assumes dok: "dok B d" and i: "unat block_id < bd_blocks_total d"
    and e: "on_flash (nf_erase F (block_id * of_nat B) (block_id * of_nat B + of_nat B)) d = (r, d')"
  shows "same_outside (block_pos B block_id) (block_pos B block_id + B) (stored d) (stored d')"
    and "bd_blocks_total d' = bd_blocks_total d"
    and "r = Ok () \<Longrightarrow>
      \<forall>k. block_pos B block_id \<le> k \<and> k < block_pos B block_id + B \<longrightarrow> stored d' ! k = 0xFF"
  using e erase_frame [of "block_id * of_nat B" "block_id * of_nat B + of_nat B" "bd_flash d" r]
    erase_ok [of "block_id * of_nat B" "block_id * of_nat B + of_nat B" "bd_flash d" "()"]
  by (auto simp: on_flash_def unat_block_addr_0 [OF dok i] unat_block_end [OF dok i] split: prod.splits)

lemma marker_stage:
  assumes dok: "dok B d" and i: "unat block_id < bd_blocks_total d"
    and new: "block_header_try_new B block_id oid ver fs ffn = Ok h"
    and hw: "header_written B block_id h (stored d)"
    and w: "on_flash (nf_write F (block_id * of_nat B + of_nat 0) [0x90, 0x0D]) d = (r, d')"
  shows "same_outside (block_pos B block_id) (block_pos B block_id + B) (stored d) (stored d')"
    and "bd_blocks_total d' = bd_blocks_total d"
    and "formatted B block_id h (stored d') \<or> stored_header B (stored d') block_id = None"
    and "r = Ok () \<Longrightarrow> formatted B block_id h (stored d')"
proof -
  let ?p = "block_pos B block_id"
  note B = device_okD(1) [OF dok] and inb = block_in_device [OF dok i]
  have a: "unat (block_id * of_nat B + of_nat 0 :: u32) = ?p"
    using unat_block_addr_0 [OF dok i] by simp
  have so: "same_outside ?p (?p + 2) (stored d) (stored d')"
    using on_write_frame(1) [OF w] unfolding a by (simp add: numeral_2_eq_2)
  then show "same_outside ?p (?p + B) (stored d) (stored d')"
    by (rule same_outside_mono) (use B in simp_all)
  show "bd_blocks_total d' = bd_blocks_total d" by (rule on_write_frame(2) [OF w])
  note m = header_written_marker [OF new hw inb B so]
  show "formatted B block_id h (stored d') \<or> stored_header B (stored d') block_id = None" by (rule m(1))
  assume "r = Ok ()"
  note ok = on_write_Ok [OF w [unfolded this], unfolded a]
  have "stored d ! (?p + k) = 0xFF" if "k < 4" for k using hw that by (simp add: header_written_def)
  from this [of 0] this [of 1] ok have "stored d' ! ?p = 0x90" "stored d' ! (?p + 1) = 0x0D"
    by (auto simp: less_Suc_eq)
  then show "formatted B block_id h (stored d')" by (rule m(2))
qed

lemma block_dok_keep:
  "dok B d \<Longrightarrow> same_outside a b (stored d) (stored d') \<Longrightarrow> bd_blocks_total d' = bd_blocks_total d \<Longrightarrow> dok B d'"
  by (simp add: device_ok_def same_outside_length)

text \<open>Steps 3 and 4 together, from an erased block.\<close>

lemma format_erased_stage:
  assumes dok: "dok B d" and i: "unat block_id < bd_blocks_total d"
    and ff: "\<forall>k. block_pos B block_id \<le> k \<and> k < block_pos B block_id + B \<longrightarrow> stored d ! k = 0xFF"
    and w: "and_then (of_result (\<lambda>_. FW_Write WK_FragmentTooLarge)
                (block_header_try_new B block_id oid ver fs ffn)) (\<lambda>header.
      and_then (map_err FW_Flash
        (on_flash (nf_write F (block_id * of_nat B + 4) (drop 4 (block_header_as_bytes header))))) (\<lambda>_.
      map_err FW_Flash (on_flash (nf_write F (block_id * of_nat B + of_nat 0) [0x90, 0x0D])))) d = (r, d')"
  shows "same_outside (block_pos B block_id) (block_pos B block_id + B) (stored d) (stored d')
    \<and> bd_blocks_total d' = bd_blocks_total d
    \<and> (stored_header B (stored d') block_id = None
       \<or> (\<exists>h. block_header_try_new B block_id oid ver fs ffn = Ok h \<and> formatted B block_id h (stored d')))
    \<and> (r = Ok () \<longrightarrow>
       (\<exists>h. block_header_try_new B block_id oid ver fs ffn = Ok h \<and> formatted B block_id h (stored d')))"
proof (cases "block_header_try_new B block_id oid ver fs ffn")
  case (Inl e)
  have "stored d ! block_pos B block_id = 0xFF" using ff device_okD(1) [OF dok] by simp
  then have "stored_header B (stored d) block_id = None"
    using stored_header_None [of B block_id "stored d" 0] block_in_device [OF dok i] device_okD(1) [OF dok]
    by simp
  then show ?thesis using w Inl by (auto simp: and_then_def of_result_def throw_def)
next
  case (Inr h)
  from w have "and_then (map_err FW_Flash
        (on_flash (nf_write F (block_id * of_nat B + 4) (drop 4 (block_header_as_bytes h))))) (\<lambda>_.
      map_err FW_Flash (on_flash (nf_write F (block_id * of_nat B + of_nat 0) [0x90, 0x0D]))) d = (r, d')"
    by (simp add: Inr and_then_def of_result_def ret_def)
  then show ?thesis
  proof (cases rule: and_then_map_errE)
    case (err e)
    then show ?thesis using write_header_stage(1-3) [OF dok i Inr ff err(1)] by simp
  next
    case (ok u d1)
    note s1 = write_header_stage [OF dok i Inr ff ok(1)]
    have i1: "unat block_id < bd_blocks_total d1" using i s1(2) by simp
    have hw: "header_written B block_id h (stored d1)" by (rule s1(4)) simp
    from ok(2) obtain r' where w': "on_flash (nf_write F (block_id * of_nat B + of_nat 0) [0x90, 0x0D]) d1 = (r', d')"
      and r: "r = Ok () \<Longrightarrow> r' = Ok ()"
      by (auto elim!: map_errE)
    note s2 = marker_stage [OF block_dok_keep [OF dok s1(1,2)] i1 Inr hw w']
    show ?thesis
      using same_outside_trans [OF s1(1) s2(1)] s1(2) s2(2,3) s2(4) [OF r] Inr by auto
  qed
qed

text \<open>
  The effect of \<open>format_block\<close> on every flash, whatever the driver reports and wherever it stops: no other
  block changes, and this one is invalid or formatted, or the erase failed and left the marker of a valid block. If step 1
  reported success, the marker was not there any more when the erase began.
\<close>

lemma format_block_cases:
  assumes dok: "dok B d" and i: "unat block_id < bd_blocks_total d"
    and w: "format_block F B block_id oid ver fs ffn d = (r, d')"
  shows "bd_blocks_total d' = bd_blocks_total d
    \<and> same_outside (block_pos B block_id) (block_pos B block_id + B) (stored d) (stored d')
    \<and> (stored_header B (stored d') block_id = None
       \<or> (\<exists>h. block_header_try_new B block_id oid ver fs ffn = Ok h \<and> formatted B block_id h (stored d'))
       \<or> (\<exists>r1 d1 e. on_flash (nf_write F (block_id * of_nat B + 2) [0xBA, 0xAD]) d = (r1, d1)
            \<and> on_flash (nf_erase F (block_id * of_nat B) (block_id * of_nat B + of_nat B)) d1 = (Err e, d')
            \<and> r = Err (FW_Flash e) \<and> marked_valid B (stored d') block_id
            \<and> (r1 = Ok () \<longrightarrow> \<not> marked_valid B (stored d1) block_id)))
    \<and> (r = Ok () \<longrightarrow> (\<exists>h. block_header_try_new B block_id oid ver fs ffn = Ok h \<and> formatted B block_id h (stored d')))"
proof -
  obtain r1 d1 where w1: "on_flash (nf_write F (block_id * of_nat B + of_nat 2) [0xBA, 0xAD]) d = (r1, d1)"
    by fastforce
  note s1 = invalidate_stage [OF dok i w1]
  note dok1 = block_dok_keep [OF dok s1(1,2)]
  have i1: "unat block_id < bd_blocks_total d1" using i s1(2) by simp
  from w w1 have "and_then (map_err FW_Flash
      (on_flash (nf_erase F (block_id * of_nat B) (block_id * of_nat B + of_nat B)))) (\<lambda>_.
      and_then (of_result (\<lambda>_. FW_Write WK_FragmentTooLarge)
                (block_header_try_new B block_id oid ver fs ffn)) (\<lambda>header.
      and_then (map_err FW_Flash
        (on_flash (nf_write F (block_id * of_nat B + 4) (drop 4 (block_header_as_bytes header))))) (\<lambda>_.
      map_err FW_Flash (on_flash (nf_write F (block_id * of_nat B + of_nat 0) [0x90, 0x0D]))))) d1 = (r, d')"
    by (simp add: format_block_def and_then_get_block_addr [OF dok i] attempt_def
        block_valid_as_bytes_def)
  then show ?thesis
  proof (cases rule: and_then_map_errE)
    case (err e)
    note s2 = erase_stage(1,2) [OF dok1 i1 err(1)]
    show ?thesis
    proof (cases "marked_valid B (stored d') block_id")
      case True
      then have "\<exists>r1 d1 e. on_flash (nf_write F (block_id * of_nat B + 2) [0xBA, 0xAD]) d = (r1, d1)
          \<and> on_flash (nf_erase F (block_id * of_nat B) (block_id * of_nat B + of_nat B)) d1 = (Err e, d')
          \<and> r = Err (FW_Flash e) \<and> marked_valid B (stored d') block_id
          \<and> (r1 = Ok () \<longrightarrow> \<not> marked_valid B (stored d1) block_id)"
        using w1 err s1(4) by (intro exI [of _ r1] exI [of _ d1] exI [of _ e]) simp
      then show ?thesis
        using same_outside_trans [OF s1(1) s2(1)] s1(2) s2(2) err(2) by auto
    next
      case False
      then show ?thesis
        using same_outside_trans [OF s1(1) s2(1)] s1(2) s2(2) err(2) not_marked_valid [OF False] by auto
    qed
  next
    case (ok u d2)
    note s2 = erase_stage [OF dok1 i1 ok(1)]
    have i2: "unat block_id < bd_blocks_total d2" using i1 s2(2) by simp
    note s3 = format_erased_stage [OF block_dok_keep [OF dok1 s2(1,2)] i2 s2(3) ok(2)]
    show ?thesis
      using same_outside_trans [OF same_outside_trans [OF s1(1) s2(1)]] s1(2) s2(2) s3 by auto
  qed
qed

end

context torn_erase_flash begin

text \<open>
  With the assumption on a failed erase, the block is as before, invalid, or formatted.
\<close>

lemma format_block_effect:
  assumes dok: "device_ok B (mem (bd_flash d)) (bd_blocks_total d)" and i: "unat block_id < bd_blocks_total d"
    and w: "format_block F B block_id oid ver fs ffn d = (r, d')"
  shows "bd_blocks_total d' = bd_blocks_total d
    \<and> same_outside (block_pos B block_id) (block_pos B block_id + B) (mem (bd_flash d)) (mem (bd_flash d'))
    \<and> (mem (bd_flash d') = mem (bd_flash d) \<or> stored_header B (mem (bd_flash d')) block_id = None
       \<or> (\<exists>h. block_header_try_new B block_id oid ver fs ffn = Ok h
              \<and> formatted B block_id h (mem (bd_flash d'))))
    \<and> (r = Ok () \<longrightarrow> (\<exists>h. block_header_try_new B block_id oid ver fs ffn = Ok h
              \<and> formatted B block_id h (mem (bd_flash d'))))"
proof -
  have "mem (bd_flash d') = mem (bd_flash d) \<or> stored_header B (mem (bd_flash d')) block_id = None"
    if w1: "on_flash (nf_write F (block_id * of_nat B + of_nat 2) [0xBA, 0xAD]) d = (r1, d1)"
      and e: "on_flash (nf_erase F (block_id * of_nat B) (block_id * of_nat B + of_nat B)) d1 = (Err e, d')"
      and m: "marked_valid B (mem (bd_flash d')) block_id" for r1 d1 e
  proof -
    note s1 = invalidate_stage [OF dok i w1]
    have "unat (block_id * of_nat B :: u32) = block_pos B block_id"
      using unat_block_addr_0 [OF dok i] .
    then have "mem (bd_flash d') = mem (bd_flash d1)"
      using e m erase_torn [of "block_id * of_nat B" "block_id * of_nat B + of_nat B" "bd_flash d1"]
      by (auto simp: on_flash_def marked_valid_def split: prod.splits)
    with s1(3) show ?thesis by auto
  qed
  with format_block_cases [OF assms] show ?thesis by auto
qed

end

end
