(* ===== verification/Block_Progress.thy ===== *)
theory Block_Progress
  imports Block_Format
begin

text \<open>
  Progress: on a flash whose driver does not fail, the operations of the block layer succeed
  whenever their arguments are in range, and deliver the stored contents.
\<close>

section \<open>Actions that deliver a value\<close>

text \<open>The action succeeds with \<open>x\<close>, leaves the contents of the flash alone and keeps it sound.\<close>

definition delivers ::
  "('f \<Rightarrow> bytes) \<Rightarrow> ('f \<Rightarrow> bool) \<Rightarrow> ('f block_device, 'a, 'e) action \<Rightarrow> 'f block_device \<Rightarrow> 'a \<Rightarrow> bool" where
  "delivers mem good m d x \<longleftrightarrow> (\<exists>d'. m d = (Ok x, d') \<and> good (bd_flash d')
     \<and> mem (bd_flash d') = mem (bd_flash d) \<and> bd_blocks_total d' = bd_blocks_total d)"

lemma deliversE:
  assumes "delivers mem good m d x"
  obtains d' where "m d = (Ok x, d')" "good (bd_flash d')" "mem (bd_flash d') = mem (bd_flash d)"
    "bd_blocks_total d' = bd_blocks_total d"
  using assms by (auto simp: delivers_def)

lemma delivers_ret [simp]: "delivers mem good (ret x) d y \<longleftrightarrow> x = y \<and> good (bd_flash d)"
  by (auto simp: delivers_def)

lemma delivers_and_then:
  assumes "delivers mem good m d x"
    and "\<And>d'. good (bd_flash d') \<Longrightarrow> mem (bd_flash d') = mem (bd_flash d) \<Longrightarrow>
      bd_blocks_total d' = bd_blocks_total d \<Longrightarrow> delivers mem good (k x) d' y"
  shows "delivers mem good (and_then m k) d y"
proof -
  from assms(1) obtain d1 where d1: "m d = (Ok x, d1)" "good (bd_flash d1)"
    "mem (bd_flash d1) = mem (bd_flash d)" "bd_blocks_total d1 = bd_blocks_total d"
    by (rule deliversE)
  from assms(2) [OF d1(2-4)] d1 show ?thesis by (auto simp: delivers_def)
qed

lemma delivers_map_err [simp]:
  "delivers mem good (map_err g m) d x \<longleftrightarrow> delivers mem good m d x"
  by (simp add: delivers_def)

lemma delivers_attempt:
  assumes "delivers mem good m d x"
    and "\<And>d'. good (bd_flash d') \<Longrightarrow> mem (bd_flash d') = mem (bd_flash d) \<Longrightarrow>
      bd_blocks_total d' = bd_blocks_total d \<Longrightarrow> delivers mem good (k (Ok x)) d' y"
  shows "delivers mem good (attempt m k) d y"
proof -
  from assms(1) obtain d1 where d1: "m d = (Ok x, d1)" "good (bd_flash d1)"
    "mem (bd_flash d1) = mem (bd_flash d)" "bd_blocks_total d1 = bd_blocks_total d"
    by (rule deliversE)
  from assms(2) [OF d1(2-4)] d1 show ?thesis by (auto simp: delivers_def attempt_def)
qed

section \<open>Reads\<close>

context reliable_nor_flash begin

abbreviation gd :: "'f block_device \<Rightarrow> bool" where
  "gd d \<equiv> good (bd_flash d)"

abbreviation gives :: "('f block_device, 'a, 'x) action \<Rightarrow> 'f block_device \<Rightarrow> 'a \<Rightarrow> bool" where
  "gives \<equiv> delivers mem good"

lemma gives_read:
  assumes "gd d" and "unat a + n \<le> length (stored d)"
  shows "gives (on_flash (nf_read F a n)) d (seg (unat a) n (stored d))"
  using read_good [OF assms] read_frame [of a n "bd_flash d"]
  by (fastforce simp: delivers_def on_flash_def)

lemma gives_get_block_addr:
  "gd d \<Longrightarrow> dok B d \<Longrightarrow> unat i < bd_blocks_total d \<Longrightarrow>
     gives (get_block_addr B conv i) d (i * of_nat B)"
  by (simp add: delivers_def get_block_addr_Ok)

lemma gives_try_get_fragment_status:
  assumes "gd d" and "dok B d" and "hok B d h" and rel: "rel_frag h n < bh_frag_count h"
  shows "gives (try_get_fragment_status F B h n) d (Some (stored_status B (stored d) h (rel_frag h n)))"
proof -
  let ?a = "bh_id h * of_nat B + of_nat (16 + 3 * rel_frag h n)"
  have id: "unat (bh_id h) < bd_blocks_total d" using assms(3) by (simp add: header_ok_def)
  have a: "unat ?a = status_pos B h (rel_frag h n)" by (rule unat_status_addr [OF assms(2,3) rel])
  have "gives (and_then (map_err FE_Flash (on_flash (nf_read F ?a 3)))
          (\<lambda>buffer. ret (Some (fragment_status_from buffer)))) d'
        (Some (stored_status B (stored d) h (rel_frag h n)))"
    if "gd d'" "stored d' = stored d" for d'
  proof (rule delivers_and_then)
    show "gives (map_err FE_Flash (on_flash (nf_read F ?a 3))) d'
        (seg (status_pos B h (rel_frag h n)) 3 (stored d))"
      using gives_read [of d' ?a 3] that pos_in_block(3) [OF assms(2,3) rel] unfolding a by simp
  qed (simp add: stored_status_def)
  with assms id rel show ?thesis
    by (auto simp: try_get_fragment_status_def Let_def rel_frag_def
        intro!: delivers_and_then [OF gives_get_block_addr])
qed

lemma gives_fragment_status:
  assumes "gd d" and "dok B d" and "hok B d h" and "rel_frag h n < bh_frag_count h"
  shows "gives (fragment_status F B h n) d (stored_status B (stored d) h (rel_frag h n))"
  unfolding fragment_status_def
  by (rule delivers_attempt [OF gives_try_get_fragment_status [OF assms]]) simp

lemma gives_fragment_status_pre_write:
  assumes "gd d" and "dok B d" and "hok B d h" and "rel_frag h n < bh_frag_count h"
  shows "gives (fragment_status_pre_write F B h n) d (stored_status B (stored d) h (rel_frag h n))"
  unfolding fragment_status_pre_write_def
  by (rule delivers_attempt [OF gives_try_get_fragment_status [OF assms]]) simp

lemma gives_read_raw_fragment:
  assumes "gd d" and "dok B d" and "hok B d h" and rel: "rel_frag h n < bh_frag_count h"
    and off: "off < fragment_size h"
  shows "gives (read_raw_fragment F B h n off len) d
    (seg (data_pos B h (rel_frag h n) + off) (min len (fragment_size h - off)) (stored d))"
proof -
  let ?o = "headers_total_size h + rel_frag h n * fragment_size h + off"
  have id: "unat (bh_id h) < bd_blocks_total d" using assms(3) by (simp add: header_ok_def)
  have "?o < B" using layout(2) [OF assms(2,3) rel] off by linarith
  then have a: "unat (bh_id h * of_nat B + of_nat ?o :: u32) = data_pos B h (rel_frag h n) + off"
    using unat_block_addr [OF assms(2) id, of ?o] by (simp add: data_pos_def)
  have le: "data_pos B h (rel_frag h n) + fragment_size h \<le> length (stored d)"
    using pos_in_block [OF assms(2,3) rel] block_in_device [OF assms(2) id] by linarith
  have "gives (on_flash (nf_read F (bh_id h * of_nat B + of_nat ?o) (min len (fragment_size h - off)))) d'
      (seg (data_pos B h (rel_frag h n) + off) (min len (fragment_size h - off)) (stored d))"
    if "gd d'" "stored d' = stored d" for d'
    using gives_read [of d' "bh_id h * of_nat B + of_nat ?o" "min len (fragment_size h - off)"] that le off
    unfolding a by simp
  with assms id rel show ?thesis
    unfolding read_raw_fragment_def Let_def rel_frag_def [symmetric]
    by (simp del: of_nat_add) (intro delivers_and_then [OF gives_get_block_addr] | simp)+
qed

lemma gives_read_fragment:
  assumes "gd d" and "dok B d" and "hok B d h" and "rel_frag h n < bh_frag_count h"
    and "stored_status B (stored d) h (rel_frag h n) = Valid" and "0 < fragment_size h"
  shows "gives (read_fragment F B h n len) d (take len (stored_data B (stored d) h (rel_frag h n)))"
proof -
  have "gives (read_raw_fragment F B h n 0 len) d' (take len (stored_data B (stored d) h (rel_frag h n)))"
    if "gd d'" "stored d' = stored d" "bd_blocks_total d' = bd_blocks_total d" for d'
    using gives_read_raw_fragment [of d' B h n 0 len] assms that by (simp add: stored_data_def seg_def min.commute)
  then show ?thesis
    unfolding read_fragment_def read_fragment_at_offset_def
    by (intro delivers_and_then [OF gives_fragment_status [OF assms(1-4)]]) (simp add: assms(5))
qed

lemma gives_block_header:
  assumes "gd d" and "dok B d" and "unat i < bd_blocks_total d"
  shows "gives (block_header F B i) d (stored_header B (stored d) i)"
proof -
  have "unat (of_nat (bd_blocks_total d) :: u32) = bd_blocks_total d"
    by (rule unat_of_nat_lt) (rule device_okD(6) [OF assms(2)])
  then have ok: "\<not> i > of_nat (bd_blocks_total d)" using assms(3) by (simp add: word_less_nat_alt)
  have a: "unat (i * of_nat B) = block_pos B i" by (rule unat_block_addr_0 [OF assms(2,3)])
  have "block_pos B i + 16 \<le> length (stored d)"
    using block_in_device [OF assms(2,3)] device_okD(1) [OF assms(2)] by linarith
  then have "gives (and_then (map_err FE_Flash (on_flash (nf_read F (i * of_nat B) 16)))
          (\<lambda>buffer. ret (block_header_from_bytes B i buffer))) d (stored_header B (stored d) i)"
    using gives_read [OF assms(1), of "i * of_nat B" 16]
    by (intro delivers_and_then [where x = "seg (block_pos B i) 16 (stored d)"])
      (simp_all add: a stored_header_def)
  then show ?thesis using ok by (simp add: delivers_def block_header_def)
qed

lemma gives_verify_chunks:
  assumes "gd d" and "dok B d" and "hok B d h" and "rel_frag h n < bh_frag_count h"
    and "k * 128 + length data \<le> fragment_size h"
    and "seg (data_pos B h (rel_frag h n) + k * 128) (length data) (stored d) = data"
  shows "gives (verify_chunks F B h n k (chunks 128 data)) d True"
  using assms
proof (induction "128 :: nat" data arbitrary: k d rule: chunks.induct)
  case (1 data)
  show ?case
  proof (cases "data = []")
    case True
    then show ?thesis using "1.prems" by simp
  next
    case False
    let ?c = "take 128 data" and ?p = "data_pos B h (rel_frag h n) + k * 128"
    have ch: "chunks 128 data = ?c # chunks 128 (drop 128 data)"
      using False by (simp add: chunks.simps [of 128 data])
    have len: "min (length ?c) (fragment_size h - k * 128) = length ?c" "k * 128 < fragment_size h"
      using "1.prems"(5) False by (cases data; auto)+
    have c: "seg ?p (length ?c) (stored d) = ?c"
      using arg_cong [OF "1.prems"(6), of "take 128"] by (simp add: seg_def min.commute)
    have rd: "gives (read_raw_fragment F B h n (k * 128) (length ?c)) d ?c"
      using gives_read_raw_fragment [OF "1.prems"(1-4) len(2), of "length ?c"] c len(1) by simp
    have tl: "gives (verify_chunks F B h n (Suc k) (chunks 128 (drop 128 data))) d' True"
      if "gd d'" "stored d' = stored d" "bd_blocks_total d' = bd_blocks_total d" for d'
    proof (cases "length data \<le> 128")
      case True
      then show ?thesis using that by simp
    next
      case long: False
      have "seg (?p + 128) (length data - 128) (stored d) = drop 128 data"
        using arg_cong [OF "1.prems"(6), of "drop 128"] by (simp add: seg_def drop_take add.commute)
      then show ?thesis
        using "1.hyps" [of d' "Suc k"] "1.prems"(2-5) that False long by (simp add: algebra_simps)
    qed
    show ?thesis
      unfolding ch using rd tl by (auto intro!: delivers_and_then)
  qed
qed

lemma gives_verify_fragment:
  assumes "gd d" and "dok B d" and "hok B d h" and "rel_frag h n < bh_frag_count h"
    and "length data \<le> fragment_size h"
    and "seg (data_pos B h (rel_frag h n)) (length data) (stored d) = data"
  shows "gives (verify_fragment F B h n data) d True"
  unfolding verify_fragment_def VERIFY_CHUNK_SIZE_def
  using assms by (intro gives_verify_chunks) simp_all

section \<open>Writes\<close>

lemma on_write_good:
  assumes "gd d" and "unat a + length bs \<le> length (stored d)"
  shows "\<exists>d'. on_flash (nf_write F a bs) d = (Ok (), d') \<and> gd d'"
  using write_good [OF assms] by (fastforce simp: on_flash_def)

lemma write_marker_good:
  assumes "gd d" and "dok B d" and "hok B d h" and "i < bh_frag_count h"
  shows "\<exists>d'. write_marker F (bh_id h * of_nat B + of_nat (16 + 3 * i)) st d = (Ok (), d') \<and> gd d'"
proof (cases "fragment_status_as_byte st")
  case (Some kb)
  obtain k b where kb: "kb = (k, b)" by fastforce
  have k: "k < 3" using Some kb by (cases st) auto
  have "unat (bh_id h) < bd_blocks_total d" using assms(3) by (simp add: header_ok_def)
  moreover have "16 + 3 * i + k < B" using layout(1,3) [OF assms(2-4)] k by linarith
  ultimately have "unat (bh_id h * of_nat B + of_nat (16 + 3 * i) + of_nat k :: u32) = status_pos B h i + k"
    using unat_block_addr [OF assms(2), of "bh_id h" "16 + 3 * i + k"]
    by (simp add: status_pos_def add.assoc)
  moreover have "status_pos B h i + k + 1 \<le> length (stored d)"
    using pos_in_block(3) [OF assms(2-4)] k by linarith
  ultimately obtain d' where
    "on_flash (nf_write F (bh_id h * of_nat B + of_nat (16 + 3 * i) + of_nat k) [b]) d = (Ok (), d')" "gd d'"
    using on_write_good [OF assms(1), of "bh_id h * of_nat B + of_nat (16 + 3 * i) + of_nat k" "[b]"] by auto
  then show ?thesis by (simp add: write_marker_def Some kb del: of_nat_add of_nat_mult)
qed (simp add: write_marker_def assms(1))

lemma data_write_good:
  assumes "gd d" and "dok B d" and "hok B d h" and i: "i < bh_frag_count h"
    and len: "length data \<le> fragment_size h" "0 < fragment_size h"
    and ff: "stored_data B (stored d) h i = replicate (fragment_size h) 0xFF"
  shows "\<exists>d'. on_flash (nf_write F (bh_id h * of_nat B
          + of_nat (headers_total_size h + i * fragment_size h)) data) d = (Ok (), d') \<and> gd d'
     \<and> seg (data_pos B h i) (length data) (stored d') = data"
proof -
  let ?o = "headers_total_size h + i * fragment_size h"
  have id: "unat (bh_id h) < bd_blocks_total d" using assms(3) by (simp add: header_ok_def)
  have "?o < B" using layout(2) [OF assms(2,3) i] len by linarith
  then have a: "unat (bh_id h * of_nat B + of_nat ?o :: u32) = data_pos B h i"
    using unat_block_addr [OF assms(2) id, of ?o] by (simp add: data_pos_def)
  have le: "data_pos B h i + fragment_size h \<le> length (stored d)"
    using pos_in_block [OF assms(2,3) i] block_in_device [OF assms(2) id] by linarith
  obtain d' where w: "on_flash (nf_write F (bh_id h * of_nat B + of_nat ?o) data) d = (Ok (), d')" "gd d'"
    using on_write_good [OF assms(1), of "bh_id h * of_nat B + of_nat ?o" data] le len unfolding a by auto
  have "stored d ! (data_pos B h i + k) = 0xFF" if "k < fragment_size h" for k
    using seg_eqD [OF ff [unfolded stored_data_def] that] le that by simp
  then have "seg (data_pos B h i) (length data) (stored d') = data"
    using on_write_Ok [OF w(1), unfolded a] same_outside_length [OF on_write_frame(1) [OF w(1)]] len
    by (intro seg_eqI) auto
  with w show ?thesis by blast
qed

text \<open>
  Writing an erased fragment succeeds: an empty fragment with an erased data area, and data that
  fits.
\<close>

lemma write_fragment_good:
  assumes gd: "gd d" and dok: "dok B d" and hok: "hok B d h" and i: "rel_frag h n < bh_frag_count h"
    and len: "length data \<le> fragment_size h" "0 < fragment_size h"
    and empty: "stored_status B (stored d) h (rel_frag h n) = Empty"
    and ff: "stored_data B (stored d) h (rel_frag h n) = replicate (fragment_size h) 0xFF"
  shows "\<exists>d'. write_fragment F B h n data d = (Ok (), d') \<and> gd d'"
proof -
  let ?i = "rel_frag h n" and ?a = "bh_id h * of_nat B + of_nat (16 + 3 * rel_frag h n)"
  have id: "unat (bh_id h) < bd_blocks_total d" using hok by (simp add: header_ok_def)
  obtain d0 where s0: "fragment_status_pre_write F B h n d = (Ok Empty, d0)" "gd d0"
    "stored d0 = stored d" "bd_blocks_total d0 = bd_blocks_total d"
    using gives_fragment_status_pre_write [OF gd dok hok i] empty by (auto elim: deliversE)
  have ok0: "dok B d0" "hok B d0 h" using s0 dok hok by simp_all
  obtain d1 where s1: "write_marker F ?a Invalid d0 = (Ok (), d1)" "gd d1"
    using write_marker_good [OF s0(2) ok0 i] by blast
  have e0: "stored_status B (stored d0) h ?i = Empty" using s0 empty by simp
  note m1 = mark_invalid_stage [OF ok0 i e0 s1(1)]
  have m1': "same_outside (status_pos B h ?i) (status_pos B h ?i + 1) (stored d0) (stored d1)"
    using write_marker_effect(1) [OF ok0 i _ s1(1), of 0] by simp
  have ok1: "dok B d1" "hok B d1 h" using dok_keep [OF ok0(1)] m1 ok0(2) by (auto simp: only_fragment_def)
  have "stored_data B (stored d1) h ?i = replicate (fragment_size h) 0xFF"
    using ff s0(3) same_outside_seg [OF m1', of "data_pos B h ?i" "fragment_size h"]
      status_before_data [OF dok hok i, of ?i] by (simp add: stored_data_def)
  from data_write_good [OF s1(2) ok1 i len this] obtain d2 where
    s2: "on_flash (nf_write F (bh_id h * of_nat B + of_nat (headers_total_size h + ?i * fragment_size h)) data) d1
          = (Ok (), d2)" "gd d2" "seg (data_pos B h ?i) (length data) (stored d2) = data"
    by blast
  have w1: "writing B h ?i (stored d0) (stored d1)" by (rule m1(4)) simp
  note m2 = data_stage [OF ok1 i len(1) w1 s2(1)]
  have ok2: "dok B d2" "hok B d2 h"
    using dok_keep [OF ok0(1)] m2 ok1(2) m1(2) by (auto simp: writing_def only_fragment_def)
  obtain d3 where s3: "verify_fragment F B h n data d2 = (Ok True, d3)" "gd d3" "stored d3 = stored d2"
    "bd_blocks_total d3 = bd_blocks_total d2"
    using gives_verify_fragment [OF s2(2) ok2 i len(1) s2(3)] by (auto elim: deliversE)
  have ok3: "dok B d3" "hok B d3 h" using ok2 s3 by simp_all
  obtain d4 where s4: "write_marker F ?a Valid d3 = (Ok (), d4)" "gd d4"
    using write_marker_good [OF s3(2) ok3 i] by blast
  have "write_empty_fragment F B h n data (bh_id h * of_nat B) ?i d0 = (Ok (), d4)"
    using s1(1) s2(1) s3(1) s4(1)
    by (simp add: write_empty_fragment_def Let_def and_then_def del: of_nat_add of_nat_mult)
  then have "write_fragment F B h n data d = (Ok (), d4)"
    using len i s0(1)
    by (simp add: write_fragment_def Let_def and_then_get_block_addr [OF dok id] rel_frag_def)
  with s4 show ?thesis by blast
qed

lemma delete_fragment_good:
  assumes gd: "gd d" and dok: "dok B d" and hok: "hok B d h" and i: "rel_frag h n < bh_frag_count h"
  shows "\<exists>d'. delete_fragment F B h n d = (Ok (), d') \<and> gd d'"
proof -
  let ?a = "bh_id h * of_nat B + of_nat (16 + 3 * rel_frag h n)"
  have id: "unat (bh_id h) < bd_blocks_total d" using hok by (simp add: header_ok_def)
  obtain st d0 where s0: "fragment_status_pre_write F B h n d = (Ok st, d0)" "gd d0"
    "stored d0 = stored d" "bd_blocks_total d0 = bd_blocks_total d"
    using gives_fragment_status_pre_write [OF gd dok hok i] by (auto elim: deliversE)
  have "dok B d0" "hok B d0 h" using s0 dok hok by simp_all
  from write_marker_good [OF s0(2) this i] obtain d1 where
    s1: "write_marker F ?a Obsolete d0 = (Ok (), d1)" "gd d1" by blast
  have "delete_fragment F B h n d =
      (case st of Invalid \<Rightarrow> ret () | Obsolete \<Rightarrow> ret () | _ \<Rightarrow> write_marker F ?a Obsolete) d0"
    using i s0(1) unfolding rel_frag_def
    by (simp add: delete_fragment_def Let_def and_then_get_block_addr [OF dok id]
        del: of_nat_add of_nat_mult)
  then show ?thesis using s0(2) s1 by (cases st) auto
qed

text \<open>Formatting a block succeeds if the fragment size fits.\<close>

lemma format_block_good:
  assumes gd: "gd d" and dok: "dok B d" and id: "unat block_id < bd_blocks_total d" and B: "B = nf_erase_size F"
    and new: "block_header_try_new B block_id oid ver fs ffn = Ok h"
  shows "\<exists>d'. format_block F B block_id oid ver fs ffn d = (Ok (), d') \<and> gd d'"
proof -
  let ?p = "block_pos B block_id" and ?a = "block_id * of_nat B :: u32"
  note sz = device_okD(1) [OF dok] and inb = block_in_device [OF dok id]
  have a: "unat ?a = ?p" "unat (?a + of_nat 2) = ?p + 2" "unat (?a + 4) = ?p + 4"
      "unat (?a + of_nat B) = ?p + B"
    using unat_block_addr [OF dok id, of 4] unat_block_addr [OF dok id, of 2] sz
    by (simp_all add: unat_block_addr_0 [OF dok id] unat_block_end [OF dok id])
  obtain d1 where s1: "on_flash (nf_write F (?a + of_nat 2) [0xBA, 0xAD]) d = (Ok (), d1)" "gd d1"
    using on_write_good [OF gd, of "?a + of_nat 2" "[0xBA, 0xAD]"] inb sz unfolding a(2) by auto
  note l1 = same_outside_length [OF on_write_frame(1) [OF s1(1)]]
  have "B dvd ?p" "B dvd ?p + B" by (simp_all add: block_pos_def)
  then obtain f2 where f2: "nf_erase F ?a (?a + of_nat B) (bd_flash d1) = (Ok (), f2)" "good f2"
    using erase_good [OF s1(2), of ?a "?a + of_nat B"] inb l1 device_okD(4) [OF dok] B
    unfolding a(1,4) by auto
  define d2 where "d2 = d1\<lparr>bd_flash := f2\<rparr>"
  have s2: "on_flash (nf_erase F ?a (?a + of_nat B)) d1 = (Ok (), d2)" "gd d2"
    using f2 by (simp_all add: on_flash_def d2_def)
  have l2: "length (stored d2) = length (stored d)"
    using same_outside_length [OF erase_frame [OF f2(1)]] l1 by (simp add: d2_def)
  obtain d3 where s3: "on_flash (nf_write F (?a + 4) (drop 4 (block_header_as_bytes h))) d2 = (Ok (), d3)" "gd d3"
    using on_write_good [OF s2(2), of "?a + 4" "drop 4 (block_header_as_bytes h)"] inb sz l2 unfolding a(3) by auto
  have l3: "length (stored d3) = length (stored d)"
    using same_outside_length [OF on_write_frame(1) [OF s3(1)]] l2 by simp
  obtain d4 where s4: "on_flash (nf_write F (?a + of_nat 0) [0x90, 0x0D]) d3 = (Ok (), d4)" "gd d4"
    using on_write_good [OF s3(2), of ?a "[0x90, 0x0D]"] inb sz l3 unfolding a(1) by auto
  have "format_block F B block_id oid ver fs ffn d = (Ok (), d4)"
    using s1(1) s2(1) s3(1) s4(1) new
    by (simp add: format_block_def get_block_addr_Ok [OF dok id] attempt_def
        block_valid_as_bytes_def and_then_def of_result_def)
  with s4 show ?thesis by blast
qed

end

end
