(* ===== verification/Block_Theorems.thy ===== *)
theory Block_Theorems
  imports Block_Progress
begin

text \<open>
  The properties of the block layer, for every flash driver that meets its contract, with the
  repository's in-memory flash as the concrete instance.
\<close>

section \<open>A concrete device\<close>

text \<open>Two blocks of 32 bytes; block 1 is formatted with two fragments of four bytes.\<close>

definition ex_header :: block_hdr where
  "ex_header = \<lparr>bh_object_id = 7, bh_frag_size = 4, bh_first_frag_no = 10, bh_object_version = 3,
     bh_rfu = [0xFF, 0xFF, 0xFF], bh_id = 1, bh_frag_count = 2\<rparr>"

definition ex_erased :: "in_memory_flash block_device" where
  "ex_erased = \<lparr>bd_flash = in_memory_new 64, bd_blocks_total = 2\<rparr>"

definition ex_device :: "in_memory_flash block_device" where
  "ex_device = snd (format_block (in_memory 32) 32 1 7 3 4 10 ex_erased)"

definition ex_written :: "in_memory_flash block_device" where
  "ex_written = snd (write_fragment (in_memory 32) 32 ex_header 11 [1, 2, 3] ex_device)"

lemma ex_sizes:
  "length (memory (bd_flash ex_erased)) = 64" "bd_blocks_total ex_erased = 2"
  "length (memory (bd_flash ex_device)) = 64" "bd_blocks_total ex_device = 2"
  "length (memory (bd_flash ex_written)) = 64" "bd_blocks_total ex_written = 2"
  by code_simp+

lemma ex_device_ok:
  "device_ok 32 (memory (bd_flash ex_erased)) (bd_blocks_total ex_erased)"
  "device_ok 32 (memory (bd_flash ex_device)) (bd_blocks_total ex_device)"
  "device_ok 32 (memory (bd_flash ex_written)) (bd_blocks_total ex_written)"
  by (simp_all add: device_ok_def ex_sizes)

lemma ex_header_ok: "header_ok 32 2 ex_header"
  by code_simp

lemma ex_sound: "no_fault (bd_flash ex_erased)" "no_fault (bd_flash ex_device)" "no_fault (bd_flash ex_written)"
  by code_simp+

lemma ex_header_stored: "stored_header 32 (memory (bd_flash ex_device)) 1 = Some ex_header"
  by code_simp

lemma ex_device_erased:
  "stored_status 32 (memory (bd_flash ex_device)) ex_header 1 = Empty"
  "stored_data 32 (memory (bd_flash ex_device)) ex_header 1 = replicate (fragment_size ex_header) 0xFF"
  by code_simp+

lemma ex_rel: "rel_frag ex_header 11 = 1" "fragment_size ex_header = 4" "bh_frag_count ex_header = 2"
  by code_simp+

lemma ex_write:
  "write_fragment (in_memory 32) 32 ex_header 11 [1, 2, 3] ex_device = (Ok (), ex_written)"
  by code_simp

section \<open>Writing a fragment\<close>

text \<open>
  C3. Atomicity of \<open>write_fragment\<close> under arbitrary flash faults: for every flash that meets the
  contract of the driver, and whatever the call returns, either it failed and no byte changed,
  or the fragment exists, the data fits, the fragment was empty before, only the status and
  the data of this fragment changed, and the fragment is now empty or marked invalid, or valid
  with exactly the new data. Success is reported only in the last case.
\<close>

theorem write_fragment_atomic:
  assumes "nor_flash_contract F mem"
    and "device_ok B (mem (bd_flash d)) (bd_blocks_total d)" and "header_ok B (bd_blocks_total d) h"
    and "write_fragment F B h n data d = (r, d')"
  shows "r \<noteq> Ok () \<and> mem (bd_flash d') = mem (bd_flash d) \<or>
    rel_frag h n < bh_frag_count h \<and> length data \<le> fragment_size h
    \<and> stored_status B (mem (bd_flash d)) h (rel_frag h n) = Empty
    \<and> only_fragment B h (rel_frag h n) (mem (bd_flash d)) (mem (bd_flash d'))
    \<and> (stored_status B (mem (bd_flash d')) h (rel_frag h n) \<in> {Empty, Invalid}
       \<or> stored_status B (mem (bd_flash d')) h (rel_frag h n) = Valid
         \<and> seg (data_pos B h (rel_frag h n)) (length data) (mem (bd_flash d')) = data)
    \<and> (r = Ok () \<longrightarrow> stored_status B (mem (bd_flash d')) h (rel_frag h n) = Valid)"
  using nor_flash_contract.write_fragment_effect [OF assms] by (auto simp: write_outcome_def)

theorem write_fragment_atomic_witness:
  "stored_status 32 (memory (bd_flash ex_written)) ex_header 1 = Valid
   \<and> only_fragment 32 ex_header 1 (memory (bd_flash ex_device)) (memory (bd_flash ex_written))"
  using write_fragment_atomic [OF mock.nor_flash_contract_axioms ex_device_ok(2) _ ex_write]
  by (simp add: ex_sizes ex_header_ok ex_rel)

text \<open>
  Isolation of \<open>write_fragment\<close>: whatever the flash does, every block header, and the status
  and data of every fragment of every block other than the one addressed, are kept.
\<close>

theorem write_fragment_isolated:
  assumes "nor_flash_contract F mem"
    and "device_ok B (mem (bd_flash d)) (bd_blocks_total d)" and "header_ok B (bd_blocks_total d) h"
    and "write_fragment F B h n data d = (r, d')"
    and "header_ok B (bd_blocks_total d) h'" and "i < bh_frag_count h'"
    and "bh_id h' \<noteq> bh_id h \<or> h' = h \<and> i \<noteq> rel_frag h n"
  shows "stored_header B (mem (bd_flash d')) b = stored_header B (mem (bd_flash d)) b
    \<and> stored_status B (mem (bd_flash d')) h' i = stored_status B (mem (bd_flash d)) h' i
    \<and> stored_data B (mem (bd_flash d')) h' i = stored_data B (mem (bd_flash d)) h' i"
proof -
  consider "mem (bd_flash d') = mem (bd_flash d)"
    | "rel_frag h n < bh_frag_count h" "only_fragment B h (rel_frag h n) (mem (bd_flash d)) (mem (bd_flash d'))"
    using nor_flash_contract.write_fragment_effect [OF assms(1-4)] by (auto simp: write_outcome_def)
  then show ?thesis
  proof cases
    case 2
    note so = only_fragment_same_outside [OF assms(2,3) 2]
    have hd: "stored_header B (mem (bd_flash d')) b = stored_header B (mem (bd_flash d)) b"
      by (rule same_outside_header [OF so device_okD(1) [OF assms(2)]])
    show ?thesis
    proof (cases "bh_id h' = bh_id h")
      case True
      then show ?thesis
        using hd only_fragment_others [OF assms(2,3) 2(1) _ _ 2(2), of i] assms(6,7) by auto
    next
      case False
      then show ?thesis
        using hd other_block_kept [OF assms(2,5,6) False so] by blast
    qed
  qed simp
qed

theorem write_fragment_isolated_witness:
  "stored_status 32 (memory (bd_flash ex_written)) ex_header 0
     = stored_status 32 (memory (bd_flash ex_device)) ex_header 0"
  using write_fragment_isolated [OF mock.nor_flash_contract_axioms ex_device_ok(2) _ ex_write, of ex_header 0]
  by (simp add: ex_sizes ex_header_ok ex_rel)

text \<open>
  Write then read: on a flash that does not fail, writing data that fits to an erased fragment
  succeeds, and reading the fragment back returns those bytes, first and unchanged.
\<close>

theorem write_then_read_fragment:
  assumes "reliable_nor_flash F mem good" and "good (bd_flash d)"
    and "device_ok B (mem (bd_flash d)) (bd_blocks_total d)" and "header_ok B (bd_blocks_total d) h"
    and "rel_frag h n < bh_frag_count h" and "length data \<le> fragment_size h" and "0 < fragment_size h"
    and "stored_status B (mem (bd_flash d)) h (rel_frag h n) = Empty"
    and "stored_data B (mem (bd_flash d)) h (rel_frag h n) = replicate (fragment_size h) 0xFF"
  shows "\<exists>d' d'' bs. write_fragment F B h n data d = (Ok (), d')
    \<and> read_fragment F B h n (fragment_size h) d' = (Ok bs, d'')
    \<and> length bs = fragment_size h \<and> take (length data) bs = data"
proof -
  note con = reliable_nor_flash.axioms(1) [OF assms(1)]
  from reliable_nor_flash.write_fragment_good [OF assms] obtain d' where
    w: "write_fragment F B h n data d = (Ok (), d')" "good (bd_flash d')" by blast
  note eff = nor_flash_contract.write_fragment_effect [OF con assms(3,4) w(1)]
  have st: "stored_status B (mem (bd_flash d')) h (rel_frag h n) = Valid"
    and data: "seg (data_pos B h (rel_frag h n)) (length data) (mem (bd_flash d')) = data"
    and len: "length (mem (bd_flash d')) = length (mem (bd_flash d))"
    and tot: "bd_blocks_total d' = bd_blocks_total d"
    using eff by (auto simp: write_outcome_def only_fragment_def)
  have ok: "device_ok B (mem (bd_flash d')) (bd_blocks_total d')" "header_ok B (bd_blocks_total d') h"
    using assms(3,4) len tot by (auto simp: device_ok_def)
  obtain d'' where "read_fragment F B h n (fragment_size h) d'
      = (Ok (take (fragment_size h) (stored_data B (mem (bd_flash d')) h (rel_frag h n))), d'')"
    using reliable_nor_flash.gives_read_fragment [OF assms(1) w(2) ok assms(5) st assms(7)]
    by (auto elim: deliversE)
  moreover have "data_pos B h (rel_frag h n) + fragment_size h \<le> length (mem (bd_flash d'))"
    by (rule pos_in_block(4) [OF ok assms(5)])
  ultimately show ?thesis
    using w(1) data assms(6) by (auto simp: stored_data_def take_seg)
qed

theorem write_then_read_fragment_witness:
  "\<exists>d' d'' bs. write_fragment (in_memory 32) 32 ex_header 11 [1, 2, 3] ex_device = (Ok (), d')
    \<and> read_fragment (in_memory 32) 32 ex_header 11 4 d' = (Ok bs, d'') \<and> take 3 bs = [1, 2, 3]"
  using write_then_read_fragment [OF sound_mock.reliable_nor_flash_axioms [of 32] ex_sound(2)
      ex_device_ok(2), of ex_header 11 "[1, 2, 3]"]
  by (auto simp: ex_sizes ex_header_ok ex_rel ex_device_erased [unfolded ex_rel, simplified]
      numeral_3_eq_3)

text \<open>
  A read returns committed data only: if \<open>read_fragment_at_offset\<close> succeeds, the fragment
  exists in the block, it is marked valid, and the bytes are those stored at the offset, cut
  off at the end of the fragment.
\<close>

theorem read_only_valid_fragments:
  assumes "nor_flash_contract F mem"
    and "device_ok B (mem (bd_flash d)) (bd_blocks_total d)" and "header_ok B (bd_blocks_total d) h"
    and "read_fragment_at_offset F B h n off len d = (Ok bs, d')"
  shows "rel_frag h n < bh_frag_count h
    \<and> stored_status B (mem (bd_flash d)) h (rel_frag h n) = Valid
    \<and> bs = seg (data_pos B h (rel_frag h n) + off) (min len (fragment_size h - off)) (mem (bd_flash d))"
  by (rule nor_flash_contract.read_fragment_at_offset_Ok [OF assms])

theorem read_only_valid_fragments_witness:
  "stored_status 32 (memory (bd_flash ex_written)) ex_header 1 = Valid
   \<and> [2, 3 :: u8] = seg (data_pos 32 ex_header 1 + 1) 2 (memory (bd_flash ex_written))"
proof -
  have "read_fragment_at_offset (in_memory 32) 32 ex_header 11 1 2 ex_written
      = (Ok [2, 3], snd (read_fragment_at_offset (in_memory 32) 32 ex_header 11 1 2 ex_written))"
    by code_simp
  from read_only_valid_fragments [OF mock.nor_flash_contract_axioms ex_device_ok(3) _ this]
  show ?thesis by (simp add: ex_sizes ex_header_ok ex_rel)
qed

section \<open>Formatting a block\<close>

text \<open>
  C9. \<open>format_block\<close> interrupted at any point, on every flash: no byte outside the block changes, and the block
  is invalid, or formatted with the requested header and otherwise erased; success is reported only for a
  formatted block. The one exception is that the erase fails and leaves the valid marker at the start of
  the block. If the first step, which spoils the marker, reported success, this takes an erase that restores
  a marker that was not there when it began.
\<close>

theorem format_block_states:
  assumes "nor_flash_contract F mem"
    and "device_ok B (mem (bd_flash d)) (bd_blocks_total d)" and "unat block_id < bd_blocks_total d"
    and "format_block F B block_id oid ver fs ffn d = (r, d')"
  shows "same_outside (block_pos B block_id) (block_pos B block_id + B) (mem (bd_flash d)) (mem (bd_flash d'))
    \<and> (stored_header B (mem (bd_flash d')) block_id = None
       \<or> (\<exists>h. block_header_try_new B block_id oid ver fs ffn = Ok h
              \<and> formatted B block_id h (mem (bd_flash d')))
       \<or> (\<exists>r1 d1 e. on_flash (nf_write F (block_id * of_nat B + 2) [0xBA, 0xAD]) d = (r1, d1)
              \<and> on_flash (nf_erase F (block_id * of_nat B) (block_id * of_nat B + of_nat B)) d1 = (Err e, d')
              \<and> r = Err (FW_Flash e) \<and> marked_valid B (mem (bd_flash d')) block_id
              \<and> (r1 = Ok () \<longrightarrow> \<not> marked_valid B (mem (bd_flash d1)) block_id)))
    \<and> (r = Ok () \<longrightarrow> (\<exists>h. block_header_try_new B block_id oid ver fs ffn = Ok h
              \<and> formatted B block_id h (mem (bd_flash d'))))"
  using nor_flash_contract.format_block_cases [OF assms] by blast

text \<open>A block with data, and an erase that fails: the block is invalid afterwards.\<close>

theorem format_block_states_witness:
  "(\<exists>h. block_header_try_new 32 1 7 3 4 10 = Ok h \<and> formatted 32 1 h (memory (bd_flash ex_device)))
   \<and> (let broken = ex_written\<lparr>bd_flash := trigger_erase_error_after 0 (MockError OtherKind) (bd_flash ex_written)\<rparr>;
          d' = snd (format_block (in_memory 32) 32 1 7 3 4 10 broken)
      in same_outside 32 64 (memory (bd_flash ex_written)) (memory (bd_flash d')) \<and> stored_header 32 (memory (bd_flash d')) 1 = None)"
proof
  have "format_block (in_memory 32) 32 1 7 3 4 10 ex_erased = (Ok (), ex_device)"
    by code_simp
  from format_block_states [OF mock.nor_flash_contract_axioms ex_device_ok(1) _ this]
  show "\<exists>h. block_header_try_new 32 1 7 3 4 10 = Ok h \<and> formatted 32 1 h (memory (bd_flash ex_device))"
    by (simp add: ex_sizes)
  define broken where "broken = ex_written\<lparr>bd_flash := trigger_erase_error_after 0 (MockError OtherKind) (bd_flash ex_written)\<rparr>"
  define d' where "d' = snd (format_block (in_memory 32) 32 1 7 3 4 10 broken)"
  have mem: "memory (bd_flash broken) = memory (bd_flash ex_written)" "bd_blocks_total broken = bd_blocks_total ex_written"
    by (simp_all add: broken_def trigger_erase_error_after_def)
  have fails: "fst (format_block (in_memory 32) 32 1 7 3 4 10 broken) = Err (FW_Flash (MockError OtherKind))"
    "\<not> marked_valid 32 (memory (bd_flash d')) 1" "\<not> (memory (bd_flash d') ! 32 = 0x90)"
    unfolding broken_def d'_def marked_valid_def by code_simp+
  then have "format_block (in_memory 32) 32 1 7 3 4 10 broken = (Err (FW_Flash (MockError OtherKind)), d')"
    by (simp add: d'_def prod_eq_iff)
  from format_block_states [OF mock.nor_flash_contract_axioms _ _ this] ex_device_ok(3) fails mem not_marked_valid [OF fails(2)]
  have "same_outside 32 64 (memory (bd_flash ex_written)) (memory (bd_flash d')) \<and> stored_header 32 (memory (bd_flash d')) 1 = None"
    by (simp add: ex_sizes block_pos_def)
  then show "let broken = ex_written\<lparr>bd_flash := trigger_erase_error_after 0 (MockError OtherKind) (bd_flash ex_written)\<rparr>;
          d' = snd (format_block (in_memory 32) 32 1 7 3 4 10 broken)
      in same_outside 32 64 (memory (bd_flash ex_written)) (memory (bd_flash d')) \<and> stored_header 32 (memory (bd_flash d')) 1 = None"
    by (simp add: Let_def d'_def broken_def)
qed

text \<open>
  Formatting works: on a flash that does not fail, \<open>format_block\<close> succeeds for every block of
  the device whenever one fragment fits in it; afterwards the block has the requested header
  and every fragment it can hold is empty, with an erased data area.
\<close>

theorem format_block_succeeds:
  assumes "reliable_nor_flash F mem good" and "torn_erase_flash F mem" and "good (bd_flash d)"
    and "device_ok B (mem (bd_flash d)) (bd_blocks_total d)" and "unat block_id < bd_blocks_total d"
    and "B = nf_erase_size F" and "unat fs + 19 \<le> B"
  shows "\<exists>d' h. format_block F B block_id oid ver fs ffn d = (Ok (), d') \<and> good (bd_flash d')
    \<and> stored_header B (mem (bd_flash d')) block_id = Some h
    \<and> bh_object_id h = oid \<and> bh_object_version h = ver \<and> bh_frag_size h = fs \<and> bh_first_frag_no h = ffn
    \<and> bh_frag_count h = (B - 16) div (unat fs + 3)
    \<and> (\<forall>i. i < bh_frag_count h \<longrightarrow> stored_status B (mem (bd_flash d')) h i = Empty
         \<and> stored_data B (mem (bd_flash d')) h i = replicate (unat fs) 0xFF)"
proof -
  have "(B - 16) div (unat fs + 3) \<noteq> 0"
    using assms(7) by (simp add: div_eq_0_iff)
  then obtain h where new: "block_header_try_new B block_id oid ver fs ffn = Ok h"
    and h: "bh_object_id h = oid" "bh_object_version h = ver" "bh_frag_size h = fs"
      "bh_first_frag_no h = ffn" "bh_frag_count h = (B - 16) div (unat fs + 3)"
    using assms(7) by (auto simp: block_header_try_new_def calculate_fragments_per_block_def usize_sub_def)
  from reliable_nor_flash.format_block_good [OF assms(1,3-6) new] obtain d' where
    f: "format_block F B block_id oid ver fs ffn d = (Ok (), d')" "good (bd_flash d')" by blast
  note eff = torn_erase_flash.format_block_effect [OF assms(2,4,5) f(1)]
  have fm: "formatted B block_id h (mem (bd_flash d'))" and tot: "bd_blocks_total d' = bd_blocks_total d"
    and so: "same_outside (block_pos B block_id) (block_pos B block_id + B) (mem (bd_flash d)) (mem (bd_flash d'))"
    using eff new by auto
  have ok: "device_ok B (mem (bd_flash d')) (bd_blocks_total d)"
    using assms(4) same_outside_length [OF so] by (simp add: device_ok_def)
  have "stored_header B (mem (bd_flash d')) block_id = Some h" using fm by (simp add: formatted_def)
  then show ?thesis
    using f h formatted_empty [OF ok assms(5) fm] by (auto simp: fragment_size_def)
qed

theorem format_block_succeeds_witness:
  "\<exists>d' h. format_block (in_memory 32) 32 1 7 3 4 10 ex_erased = (Ok (), d')
    \<and> stored_header 32 (memory (bd_flash d')) 1 = Some h \<and> bh_frag_count h = 2
    \<and> stored_status 32 (memory (bd_flash d')) h 0 = Empty"
  using format_block_succeeds [OF sound_mock.reliable_nor_flash_axioms [of 32]
      mock.torn_erase_flash_axioms [of 32] ex_sound(1) ex_device_ok(1), of 1 4 7 3 10]
  by (fastforce simp: ex_sizes in_memory_def)

section \<open>Deleting a fragment\<close>

text \<open>
  \<open>delete_fragment\<close>: whatever the flash does, at most one byte changes (the last status byte of
  the addressed fragment); after success the fragment is obsolete or invalid, hence not
  readable, and after a failure it is unchanged, obsolete or invalid.
\<close>

theorem delete_fragment_effect:
  assumes "nor_flash_contract F mem"
    and "device_ok B (mem (bd_flash d)) (bd_blocks_total d)" and "header_ok B (bd_blocks_total d) h"
    and "delete_fragment F B h n d = (r, d')"
  shows "r \<noteq> Ok () \<and> mem (bd_flash d') = mem (bd_flash d) \<or>
    rel_frag h n < bh_frag_count h
    \<and> same_outside (status_pos B h (rel_frag h n) + 2) (status_pos B h (rel_frag h n) + 3)
        (mem (bd_flash d)) (mem (bd_flash d'))
    \<and> (stored_status B (mem (bd_flash d')) h (rel_frag h n) \<in> {Obsolete, Invalid}
       \<or> mem (bd_flash d') = mem (bd_flash d))
    \<and> (r = Ok () \<longrightarrow> stored_status B (mem (bd_flash d')) h (rel_frag h n) \<in> {Obsolete, Invalid})"
  using nor_flash_contract.delete_fragment_outcome [OF assms] by blast

theorem delete_fragment_effect_witness:
  "stored_status 32 (memory (bd_flash (snd (delete_fragment (in_memory 32) 32 ex_header 11 ex_written))))
     ex_header 1 \<in> {Obsolete, Invalid}"
proof -
  have "delete_fragment (in_memory 32) 32 ex_header 11 ex_written
      = (Ok (), snd (delete_fragment (in_memory 32) 32 ex_header 11 ex_written))"
    by code_simp
  from delete_fragment_effect [OF mock.nor_flash_contract_axioms ex_device_ok(3) _ this]
  show ?thesis by (simp add: ex_sizes ex_header_ok ex_rel)
qed

section \<open>Header encoding and block layout\<close>

text \<open>
  Header round trip: the sixteen bytes that \<open>format_block\<close> puts on flash for a header (the
  marker, then the encoded fields) are decoded by \<open>from_bytes\<close> to exactly the header that
  \<open>try_new\<close> built; the undisturbed encoding alone, without the marker, is not a valid header.
\<close>

theorem block_header_roundtrip:
  assumes "block_header_try_new B block_id oid ver fs ffn = Ok h"
  shows "block_header_from_bytes B block_id
      (snd (block_valid_as_bytes True) @ [0xFF, 0xFF] @ drop 4 (block_header_as_bytes h)) = Some h
    \<and> block_header_from_bytes B block_id (block_header_as_bytes h) = None"
  using header_roundtrip [OF assms]
  by (simp add: block_valid_as_bytes_def block_header_from_bytes_def block_valid_from_bytes_def
      block_header_as_bytes_def seg_def)

theorem block_header_roundtrip_witness:
  "block_header_from_bytes 32 1
     ([0x90, 0x0D, 0xFF, 0xFF] @ drop 4 (block_header_as_bytes ex_header)) = Some ex_header"
proof -
  have "block_header_try_new 32 1 7 3 4 10 = Ok ex_header" by code_simp
  from block_header_roundtrip [OF this] show ?thesis by (simp add: block_valid_as_bytes_def)
qed

text \<open>
  Block layout: for every header found on flash, the fragment headers and the data areas of
  two different fragments do not overlap, all of them lie inside the block and after its
  header, and \<open>calculate_fragments_per_block\<close> is the largest number of fragments that fits.
\<close>

theorem fragments_disjoint_and_maximal:
  assumes "device_ok B m tot" and "unat block_id < tot" and "stored_header B m block_id = Some h"
    and "i < bh_frag_count h" and "j < bh_frag_count h" and "i \<noteq> j"
  shows "(status_pos B h i + 3 \<le> status_pos B h j \<or> status_pos B h j + 3 \<le> status_pos B h i)
    \<and> (data_pos B h i + fragment_size h \<le> data_pos B h j \<or> data_pos B h j + fragment_size h \<le> data_pos B h i)
    \<and> block_pos B block_id + BLOCK_HEADER_SIZE \<le> status_pos B h i
    \<and> status_pos B h i + FRAG_HEADER_SIZE \<le> data_pos B h j
    \<and> data_pos B h j + fragment_size h \<le> block_pos B block_id + B
    \<and> (\<forall>k. k * (fragment_size h + FRAG_HEADER_SIZE) + BLOCK_HEADER_SIZE \<le> B \<longleftrightarrow> k \<le> bh_frag_count h)"
proof -
  note hk = stored_header_ok [OF assms(3,2)] and B = device_okD(1) [OF assms(1)]
  have "k * (fragment_size h + 3) + 16 \<le> B \<longleftrightarrow> k \<le> bh_frag_count h" for k
    using hk(1) B
    by (auto simp: header_ok_def calculate_fragments_per_block_def usize_sub_def less_eq_div_iff_mult_less_eq)
  then show ?thesis
    using frag_pos_disjoint [OF assms(6), of B h] header_before_status [of B h i] hk
      status_before_data [OF assms(1) hk(1) assms(4), of j] pos_in_block(2) [OF assms(1) hk(1) assms(5)]
    by simp
qed

theorem fragments_disjoint_and_maximal_witness:
  "data_pos 32 ex_header 0 + fragment_size ex_header \<le> data_pos 32 ex_header 1
   \<or> data_pos 32 ex_header 1 + fragment_size ex_header \<le> data_pos 32 ex_header 0"
  using fragments_disjoint_and_maximal [OF ex_device_ok(2) _ ex_header_stored, of 0 1]
  by (simp add: ex_sizes ex_rel)

end
