(* ===== verification/Peek_Queue.thy ===== *)
theory Peek_Queue
  imports Prelude
begin

text \<open>
  The bookkeeping of the persistent queue, \<open>storage/common/queue.rs\<close>: \<open>PeekQueue\<close> hands out
  sequence numbers to readers and takes back their confirmations, \<open>Queue\<close> adds the write
  position, the circular overwrite and the channel through which a \<open>ConfirmHandle\<close> reports.
  The number of reader slots is the parameter \<open>P\<close> (the const generic \<open>MAX_PEEKS\<close>). The bounded
  channel of \<open>embassy_sync\<close> is a list of at most \<open>P\<close> messages, kept in the queue's record.
\<close>

section \<open>PeekQueue\<close>

datatype read_state = RS_None | RS_Busy u32 | RS_Abort u32

datatype read_blocked = RB_Busy | RB_Empty | RB_Unknown

record confirm =
  cf_id :: u32
  cf_success :: bool

record peek_queue =
  pq_min :: u32
  pq_next :: u32
  pq_slots :: "read_state list"
  pq_slot_index :: nat
  pq_confirmed :: u64
  pq_aborted :: u64

definition peek_queue_new :: "nat \<Rightarrow> u32 \<Rightarrow> peek_queue" where
  "peek_queue_new P read_index_min =
     \<lparr>pq_min = read_index_min, pq_next = read_index_min, pq_slots = replicate P RS_None,
      pq_slot_index = unat (read_index_min mod of_nat P), pq_confirmed = 0, pq_aborted = 0\<rparr>"

definition bump_min_index :: "u32 \<Rightarrow> peek_queue \<Rightarrow> peek_queue" where
  "bump_min_index m q =
     (let skipped = m - pq_min q;
          readers_active = pq_next q - pq_min q;
          q1 = q\<lparr>pq_min := m\<rparr>
      in if readers_active < skipped then q1\<lparr>pq_next := m\<rparr> else q1)"

definition is_in_bounds :: "nat \<Rightarrow> peek_queue \<Rightarrow> u32 \<Rightarrow> bool" where
  "is_in_bounds P q n \<longleftrightarrow>
     \<not> (n - pq_min q > of_nat P) \<and> \<not> (pq_next q - n > of_nat P)"

definition saturating_inc :: "u64 \<Rightarrow> u64" where
  "saturating_inc n = (if n = - 1 then n else n + 1)"

definition peek_update :: "nat \<Rightarrow> confirm \<Rightarrow> peek_queue \<Rightarrow> peek_queue" where
  "peek_update P c q =
     (let slot_index = unat (cf_id c mod of_nat P)
      in if pq_slots q ! slot_index = RS_Busy (cf_id c)
         then if cf_success c
              then q\<lparr>pq_slots := (pq_slots q)[slot_index := RS_None],
                     pq_confirmed := saturating_inc (pq_confirmed q)\<rparr>
              else q\<lparr>pq_slots := (pq_slots q)[slot_index := RS_Abort (cf_id c)],
                     pq_aborted := saturating_inc (pq_aborted q)\<rparr>
         else q)"

definition inc_slot_index :: "nat \<Rightarrow> peek_queue \<Rightarrow> peek_queue" where
  "inc_slot_index P q =
     (let i = pq_slot_index q + 1 in q\<lparr>pq_slot_index := if i \<ge> P then 0 else i\<rparr>)"

text \<open>
  The body of the loop of \<open>find_reader\<close>: \<open>Some\<close> is a \<open>return\<close>, \<open>None\<close> goes on to the next round.
\<close>

definition find_reader_round ::
  "nat \<Rightarrow> u32 \<Rightarrow> peek_queue \<Rightarrow> (u32, read_blocked) result option \<times> peek_queue" where
  "find_reader_round P write_index q =
     (let slot_id = pq_slot_index q
      in case pq_slots q ! slot_id of
           RS_Busy _ \<Rightarrow> (Some (Err RB_Busy), q)
         | RS_None \<Rightarrow>
             (let alloc_index = pq_next q;
                  q1 = inc_slot_index P q;
                  slot_seq_no = pq_min q1 - pq_min q1 mod of_nat P + of_nat slot_id;
                  q2 = (if slot_seq_no = pq_min q1 \<and> slot_seq_no \<noteq> alloc_index
                        then q1\<lparr>pq_min := pq_min q1 + 1\<rparr> else q1)
              in if alloc_index = write_index
                 then if pq_min q2 \<noteq> write_index then (None, q2) else (Some (Err RB_Empty), q2)
                 else if slot_id = unat (alloc_index mod of_nat P)
                 then (Some (Ok alloc_index),
                       q2\<lparr>pq_next := alloc_index + 1,
                          pq_slots := (pq_slots q2)[slot_id := RS_Busy alloc_index]\<rparr>)
                 else (None, q2))
         | RS_Abort index \<Rightarrow>
             if is_in_bounds P q index
             then (let q1 = inc_slot_index P q
                   in (Some (Ok index), q1\<lparr>pq_slots := (pq_slots q1)[slot_id := RS_Busy index]\<rparr>))
             else (None, q\<lparr>pq_slots := (pq_slots q)[slot_id := RS_None]\<rparr>))"

fun find_reader_loop ::
  "nat \<Rightarrow> u32 \<Rightarrow> nat \<Rightarrow> peek_queue \<Rightarrow> (u32, read_blocked) result \<times> peek_queue" where
  "find_reader_loop P write_index 0 q = (Err RB_Unknown, q)"
| "find_reader_loop P write_index (Suc rounds) q =
     (case find_reader_round P write_index q of
        (Some r, q') \<Rightarrow> (r, q')
      | (None, q') \<Rightarrow> find_reader_loop P write_index rounds q')"

definition find_reader ::
  "nat \<Rightarrow> u32 \<Rightarrow> peek_queue \<Rightarrow> (u32, read_blocked) result \<times> peek_queue" where
  "find_reader P write_index q = find_reader_loop P write_index (2 * P) q"

definition peek_is_drained :: "nat \<Rightarrow> u32 \<Rightarrow> peek_queue \<Rightarrow> bool" where
  "peek_is_drained P write_index q \<longleftrightarrow>
     pq_next q = write_index
     \<and> list_all (\<lambda>slot. case slot of
            RS_None \<Rightarrow> True
          | RS_Busy _ \<Rightarrow> False
          | RS_Abort index \<Rightarrow> \<not> is_in_bounds P q index) (pq_slots q)"

section \<open>Queue\<close>

datatype queue_error = QueueFull

record queue =
  q_capacity :: u32
  q_granularity :: u32
  q_write_index :: u32
  q_readers :: peek_queue
  q_channel :: "confirm list"

definition u32_try_from :: "nat \<Rightarrow> u32 option" where
  "u32_try_from n = (if n < 2 ^ 32 then Some (of_nat n) else None)"

definition queue_with_overwrite_support :: "nat \<Rightarrow> nat \<Rightarrow> nat \<Rightarrow> queue" where
  "queue_with_overwrite_support P cap granularity =
     \<lparr>q_capacity = case_option (- 1) (\<lambda>x. x) (u32_try_from cap),
      q_granularity = case_option (- 1) (\<lambda>x. x) (u32_try_from granularity),
      q_write_index = 0, q_readers = peek_queue_new P 0, q_channel = []\<rparr>"

definition usize_MAX :: nat where
  "usize_MAX = 2 ^ 32 - 1"

definition queue_new :: "nat \<Rightarrow> queue" where
  "queue_new P = queue_with_overwrite_support P usize_MAX 1"

definition reinit_with_existing_range :: "nat \<Rightarrow> u32 \<times> u32 \<Rightarrow> queue \<Rightarrow> queue" where
  "reinit_with_existing_range P rng q =
     q\<lparr>q_write_index := snd rng, q_readers := peek_queue_new P (fst rng)\<rparr>"

definition update_reader_slots :: "nat \<Rightarrow> queue \<Rightarrow> queue" where
  "update_reader_slots P q =
     q\<lparr>q_readers := fold (peek_update P) (q_channel q) (q_readers q), q_channel := []\<rparr>"

text \<open>\<open>None\<close>: the call is still waiting, the channel is empty.\<close>

definition wait_confirmation :: "nat \<Rightarrow> queue \<Rightarrow> queue option" where
  "wait_confirmation P q = (case q_channel q of
       [] \<Rightarrow> None
     | c # cs \<Rightarrow> Some (q\<lparr>q_readers := peek_update P c (q_readers q), q_channel := cs\<rparr>))"

definition try_alloc_reader :: "nat \<Rightarrow> queue \<Rightarrow> (u32, read_blocked) result \<times> queue" where
  "try_alloc_reader P q =
     (case find_reader P (q_write_index q) (q_readers q) of (r, rd) \<Rightarrow> (r, q\<lparr>q_readers := rd\<rparr>))"

definition unconfirmed_count :: "queue \<Rightarrow> u32" where
  "unconfirmed_count q = q_write_index q - pq_min (q_readers q)"

definition existing_range :: "queue \<Rightarrow> u32 \<times> u32" where
  "existing_range q = (pq_min (q_readers q), q_write_index q)"

definition checked_next_multiple_of :: "u32 \<Rightarrow> u32 \<Rightarrow> u32 option" where
  "checked_next_multiple_of w g =
     (if g = 0 then None
      else if w mod g = 0 then Some w
      else if unat w + (unat g - unat (w mod g)) < 2 ^ 32 then Some (w + (g - w mod g))
      else None)"

definition queue_enqueue :: "queue \<Rightarrow> (u32, queue_error) result \<times> queue" where
  "queue_enqueue q =
     (let index = q_write_index q
      in if unconfirmed_count q = - 1 then (Err QueueFull, q)
         else
           (let q1 = q\<lparr>q_write_index := index + 1\<rparr>;
                q2 = (if unconfirmed_count q1 > q_capacity q1
                      then (let erased_until =
                                  case_option 0 (\<lambda>x. x)
                                    (checked_next_multiple_of (q_write_index q1) (q_granularity q1))
                                  - q_capacity q1
                            in q1\<lparr>q_readers := bump_min_index erased_until (q_readers q1)\<rparr>)
                      else q1)
            in (Ok index, q2)))"

definition writable_seq_no :: "queue \<Rightarrow> u32" where
  "writable_seq_no q = q_write_index q"

definition queue_is_drained :: "nat \<Rightarrow> queue \<Rightarrow> bool \<times> queue" where
  "queue_is_drained P q =
     (let q' = update_reader_slots P q
      in (peek_is_drained P (q_write_index q') (q_readers q'), q'))"

section \<open>Confirm handles\<close>

text \<open>\<open>ch_sender\<close> is whether the handle still has its sender.\<close>

record confirm_handle =
  ch_id :: u32
  ch_sender :: bool

definition confirm_handle_new :: "u32 \<Rightarrow> confirm_handle" where
  "confirm_handle_new n = \<lparr>ch_id = n, ch_sender = True\<rparr>"

definition try_send :: "nat \<Rightarrow> confirm \<Rightarrow> queue \<Rightarrow> queue" where
  "try_send P c q = (if length (q_channel q) < P then q\<lparr>q_channel := q_channel q @ [c]\<rparr> else q)"

definition try_abort :: "nat \<Rightarrow> confirm_handle \<times> queue \<Rightarrow> confirm_handle \<times> queue" where
  "try_abort P hq = (case hq of (h, q) \<Rightarrow>
     if ch_sender h
     then (h\<lparr>ch_sender := False\<rparr>, try_send P \<lparr>cf_id = ch_id h, cf_success = False\<rparr> q)
     else (h, q))"

text \<open>\<open>confirm\<close> consumes the handle, so it ends with the drop of the handle.\<close>

definition handle_confirm :: "nat \<Rightarrow> confirm_handle \<Rightarrow> queue \<Rightarrow> queue" where
  "handle_confirm P h q =
     snd (try_abort P (if ch_sender h
       then (h\<lparr>ch_sender := False\<rparr>, try_send P \<lparr>cf_id = ch_id h, cf_success = True\<rparr> q)
       else (h, q)))"

definition handle_drop :: "nat \<Rightarrow> confirm_handle \<Rightarrow> queue \<Rightarrow> queue" where
  "handle_drop P h q = snd (try_abort P (h, q))"

definition queue_peek_next :: "nat \<Rightarrow> queue \<Rightarrow> (confirm_handle, read_blocked) result \<times> queue" where
  "queue_peek_next P q =
     (if unconfirmed_count q = 0 then (Err RB_Empty, q)
      else (case try_alloc_reader P (update_reader_slots P q) of
              (Err b, q') \<Rightarrow> (Err b, q')
            | (Ok seqno, q') \<Rightarrow> (Ok (confirm_handle_new seqno), q')))"

end
