(* ===== verification/Peek_Queue_Correct.thy ===== *)
theory Peek_Queue_Correct
  imports Peek_Queue
begin

text \<open>
  The invariant of \<open>PeekQueue\<close>, over the range of sequence numbers before the 32-bit counters
  wrap, what one round and a whole call of \<open>find_reader\<close> do, and why its \<open>2 * MAX_PEEKS\<close> rounds
  are always enough.
\<close>

section \<open>Code equations\<close>

text \<open>The bounds of the 32-bit range are compared as integers, so that examples evaluate.\<close>

lemma u32_try_from_code [code]:
  "u32_try_from n = (if int n < 2 ^ 32 then Some (of_nat n) else None)"
  by (simp add: u32_try_from_def)

lemma checked_next_multiple_of_code [code]:
  "checked_next_multiple_of w g =
     (if g = 0 then None
      else if w mod g = 0 then Some w
      else if int (unat w + (unat g - unat (w mod g))) < 2 ^ 32 then Some (w + (g - w mod g))
      else None)"
proof -
  have "int n < 2 ^ 32 \<longleftrightarrow> n < 2 ^ 32" for n by simp
  then show ?thesis by (simp only: checked_next_multiple_of_def)
qed

section \<open>Invariant\<close>

text \<open>The item a slot is reserved for, and the slots of items that were overwritten meanwhile.\<close>

fun slot_item :: "read_state \<Rightarrow> u32 option" where
  "slot_item RS_None = None"
| "slot_item (RS_Busy n) = Some n"
| "slot_item (RS_Abort n) = Some n"

definition slot_ok :: "nat \<Rightarrow> peek_queue \<Rightarrow> nat \<Rightarrow> bool" where
  "slot_ok P q j \<longleftrightarrow> (\<forall>n. slot_item (pq_slots q ! j) = Some n \<longrightarrow>
     unat n mod P = j \<and> unat n < unat (pq_next q)
     \<and> (\<forall>m. unat (pq_min q) \<le> m \<and> m < unat (pq_next q) \<and> m mod P = j \<longrightarrow> m = unat n))"

definition pq_inv :: "nat \<Rightarrow> u32 \<Rightarrow> peek_queue \<Rightarrow> bool" where
  "pq_inv P w q \<longleftrightarrow> 0 < P \<and> length (pq_slots q) = P \<and> pq_slot_index q < P
     \<and> unat (pq_min q) \<le> unat (pq_next q) \<and> unat (pq_next q) \<le> unat (pq_min q) + P
     \<and> unat (pq_next q) \<le> unat w \<and> unat w + P < 2 ^ 32
     \<and> (\<forall>j < P. slot_ok P q j)"

definition stale_slots :: "nat \<Rightarrow> peek_queue \<Rightarrow> nat set" where
  "stale_slots P q = {j. j < P \<and> (\<exists>n. pq_slots q ! j = RS_Abort n \<and> unat n < unat (pq_min q))}"

lemma pq_invD:
  assumes "pq_inv P w q"
  shows "0 < P" "length (pq_slots q) = P" "pq_slot_index q < P"
    "unat (pq_min q) \<le> unat (pq_next q)" "unat (pq_next q) \<le> unat (pq_min q) + P"
    "unat (pq_next q) \<le> unat w" "unat w + P < 2 ^ 32" "P < 2 ^ 32"
    "j < P \<Longrightarrow> slot_ok P q j"
  using assms by (auto simp: pq_inv_def)

section \<open>Word arithmetic of the indices\<close>

lemma unat_mod_P: "P < 2 ^ 32 \<Longrightarrow> unat (x mod of_nat P :: u32) = unat x mod P"
  by (simp add: unat_mod_distrib unat_of_nat take_bit_nat_eq_self)

lemma slot_seq_no_eq:
  assumes "P < 2 ^ 32" and "s < P"
  shows "(m :: u32) - m mod of_nat P + of_nat s = m \<longleftrightarrow> s = unat m mod P"
proof -
  have "m - m mod of_nat P + of_nat s = m \<longleftrightarrow> of_nat s = m mod of_nat P"
    by (metis (no_types, opaque_lifting) add_diff_cancel_left' diff_add_cancel)
  also have "\<dots> \<longleftrightarrow> unat (of_nat s :: u32) = unat (m mod of_nat P)"
    by (simp add: word_unat_eq_iff)
  also have "\<dots> \<longleftrightarrow> s = unat m mod P"
    using assms by (simp add: unat_mod_P unat_of_nat take_bit_nat_eq_self)
  finally show ?thesis .
qed

lemma unat_suc: "unat (x :: u32) + 1 < 2 ^ 32 \<Longrightarrow> unat (x + 1) = unat x + 1"
  by (simp add: unat_word_ariths)

lemma unat_sub_wrap: "unat (x :: u32) < unat y \<Longrightarrow> unat (x - y) = 2 ^ 32 - (unat y - unat x)"
  using unsigned_less [of y] by (simp add: unat_sub_if' word_le_nat_alt)

lemma in_bounds_iff:
  assumes inv: "pq_inv P w q" and n: "unat n < unat (pq_next q)"
  shows "is_in_bounds P q n \<longleftrightarrow> unat (pq_min q) \<le> unat n"
proof -
  note I = pq_invD [OF inv]
  have P: "unat (of_nat P :: u32) = P" using I(8) by (simp add: unat_of_nat take_bit_nat_eq_self)
  show ?thesis
  proof (cases "unat (pq_min q) \<le> unat n")
    case True
    then have "unat (n - pq_min q) \<le> P" "unat (pq_next q - n) \<le> P"
      using I(4,5) n by (simp_all add: unat_sub word_le_nat_alt)
    then show ?thesis using True P by (simp add: is_in_bounds_def word_less_nat_alt)
  next
    case False
    then have "unat (n - pq_min q) > P"
      using I(4-7) by (simp add: unat_sub_wrap)
    then show ?thesis using False P by (simp add: is_in_bounds_def word_less_nat_alt)
  qed
qed

section \<open>One round\<close>

text \<open>The lower bound after a round that visits the free slot \<open>s\<close>.\<close>

definition min_after :: "nat \<Rightarrow> peek_queue \<Rightarrow> u32" where
  "min_after P q = (if pq_slot_index q = unat (pq_min q) mod P \<and> pq_min q \<noteq> pq_next q
     then pq_min q + 1 else pq_min q)"

definition next_slot :: "nat \<Rightarrow> peek_queue \<Rightarrow> nat" where
  "next_slot P q = (if pq_slot_index q + 1 \<ge> P then 0 else pq_slot_index q + 1)"

lemma inc_slot_index_eq: "inc_slot_index P q = q\<lparr>pq_slot_index := next_slot P q\<rparr>"
  by (simp add: inc_slot_index_def next_slot_def Let_def)

lemma round_None:
  assumes inv: "pq_inv P w q" and "pq_slots q ! pq_slot_index q = RS_None"
  shows "find_reader_round P w q =
    (let q1 = q\<lparr>pq_slot_index := next_slot P q, pq_min := min_after P q\<rparr>
     in if pq_next q = w
        then if min_after P q \<noteq> w then (None, q1) else (Some (Err RB_Empty), q1)
        else if pq_slot_index q = unat (pq_next q) mod P
        then (Some (Ok (pq_next q)), q1\<lparr>pq_next := pq_next q + 1,
                pq_slots := (pq_slots q)[pq_slot_index q := RS_Busy (pq_next q)]\<rparr>)
        else (None, q1))"
proof -
  note I = pq_invD [OF inv]
  let ?n = "pq_min q - pq_min q mod of_nat P + of_nat (pq_slot_index q)"
  have c: "(?n = pq_min q \<and> ?n \<noteq> pq_next q) = (pq_slot_index q = unat (pq_min q) mod P \<and> pq_min q \<noteq> pq_next q)"
    using slot_seq_no_eq [OF I(8,3), of "pq_min q"] by metis
  have m: "pq_min (inc_slot_index P q) = pq_min q" "pq_slots (inc_slot_index P q) = pq_slots q"
    by (simp_all add: inc_slot_index_eq)
  have q1: "(if pq_slot_index q = unat (pq_min q) mod P \<and> pq_min q \<noteq> pq_next q
      then inc_slot_index P q\<lparr>pq_min := pq_min q + 1\<rparr> else inc_slot_index P q)
    = q\<lparr>pq_slot_index := next_slot P q, pq_min := min_after P q\<rparr>"
    by (simp add: inc_slot_index_eq min_after_def)
  show ?thesis
    unfolding find_reader_round_def Let_def assms(2) read_state.case m c q1 unat_mod_P [OF I(8)]
    by simp
qed

lemma round_cases:
  assumes inv: "pq_inv P w q" and rnd: "find_reader_round P w q = (res, q')"
  obtains (busy) n where "pq_slots q ! pq_slot_index q = RS_Busy n" "res = Some (Err RB_Busy)" "q' = q"
  | (retry) n where "pq_slots q ! pq_slot_index q = RS_Abort n" "unat (pq_min q) \<le> unat n"
      "res = Some (Ok n)"
      "q' = q\<lparr>pq_slot_index := next_slot P q, pq_slots := (pq_slots q)[pq_slot_index q := RS_Busy n]\<rparr>"
  | (stale) n where "pq_slots q ! pq_slot_index q = RS_Abort n" "unat n < unat (pq_min q)"
      "res = None" "q' = q\<lparr>pq_slots := (pq_slots q)[pq_slot_index q := RS_None]\<rparr>"
  | (empty) "pq_slots q ! pq_slot_index q = RS_None" "pq_next q = w" "min_after P q = w"
      "res = Some (Err RB_Empty)" "q' = q\<lparr>pq_slot_index := next_slot P q, pq_min := min_after P q\<rparr>"
  | (alloc) "pq_slots q ! pq_slot_index q = RS_None" "pq_next q \<noteq> w"
      "pq_slot_index q = unat (pq_next q) mod P" "res = Some (Ok (pq_next q))"
      "q' = q\<lparr>pq_slot_index := next_slot P q, pq_min := min_after P q, pq_next := pq_next q + 1,
              pq_slots := (pq_slots q)[pq_slot_index q := RS_Busy (pq_next q)]\<rparr>"
  | (skip) "pq_slots q ! pq_slot_index q = RS_None" "res = None"
      "pq_next q = w \<and> min_after P q \<noteq> w \<or> pq_next q \<noteq> w \<and> pq_slot_index q \<noteq> unat (pq_next q) mod P"
      "q' = q\<lparr>pq_slot_index := next_slot P q, pq_min := min_after P q\<rparr>"
proof (cases "pq_slots q ! pq_slot_index q")
  case RS_None
  note eq = rnd [unfolded round_None [OF inv RS_None] Let_def]
  consider "pq_next q = w" "min_after P q = w" | "pq_next q = w" "min_after P q \<noteq> w"
    | "pq_next q \<noteq> w" "pq_slot_index q = unat (pq_next q) mod P"
    | "pq_next q \<noteq> w" "pq_slot_index q \<noteq> unat (pq_next q) mod P" by blast
  then show thesis
  proof cases
    case 1
    show thesis by (rule empty [OF RS_None 1]) (use eq 1 in simp_all)
  next
    case 2
    show thesis by (rule skip [OF RS_None]) (use eq 2 in simp_all)
  next
    case 3
    show thesis by (rule alloc [OF RS_None 3]) (use eq 3(1) in \<open>simp_all flip: 3(2)\<close>)
  next
    case 4
    show thesis by (rule skip [OF RS_None]) (use eq 4 in simp_all)
  qed
next
  case (RS_Busy n)
  show thesis by (rule busy [OF RS_Busy]) (use rnd RS_Busy in \<open>simp_all add: find_reader_round_def\<close>)
next
  case (RS_Abort n)
  have "slot_ok P q (pq_slot_index q)" by (rule pq_invD(9) [OF inv pq_invD(3) [OF inv]])
  then have "unat n < unat (pq_next q)" using RS_Abort by (simp add: slot_ok_def)
  note ib = in_bounds_iff [OF inv this]
  show thesis
  proof (cases "unat (pq_min q) \<le> unat n")
    case True
    show thesis by (rule retry [OF RS_Abort True])
      (use rnd RS_Abort True ib in \<open>simp_all add: find_reader_round_def Let_def inc_slot_index_eq\<close>)
  next
    case False
    show thesis by (rule stale [OF RS_Abort])
      (use rnd RS_Abort False ib in \<open>simp_all add: find_reader_round_def\<close>)
  qed
qed

section \<open>Invariant and progress of a round\<close>

lemma min_after_cases:
  assumes "pq_inv P w q"
  obtains (same) "min_after P q = pq_min q"
    "pq_slot_index q \<noteq> unat (pq_min q) mod P \<or> unat (pq_min q) = unat (pq_next q)"
  | (next_item) "unat (min_after P q) = unat (pq_min q) + 1" "pq_slot_index q = unat (pq_min q) mod P"
    "unat (pq_min q) < unat (pq_next q)"
proof (cases "pq_slot_index q = unat (pq_min q) mod P \<and> pq_min q \<noteq> pq_next q")
  case True
  note I = pq_invD [OF assms]
  have "unat (pq_min q) \<noteq> unat (pq_next q)" using True by (simp add: word_unat_eq_iff)
  then have "unat (pq_min q) < unat (pq_next q)" using I(4) by linarith
  moreover from this have "unat (pq_min q + 1) = unat (pq_min q) + 1" using I(6,7) by (intro unat_suc) linarith
  ultimately show thesis using next_item True by (simp add: min_after_def)
next
  case False
  then show thesis using same by (auto simp: min_after_def)
qed

lemma min_after_le:
  assumes "pq_inv P w q"
  shows "unat (pq_min q) \<le> unat (min_after P q)" and "unat (min_after P q) \<le> unat (pq_next q)"
  using pq_invD(4) [OF assms] by (cases rule: min_after_cases [OF assms]; simp)+

lemma next_slot_lt: "pq_inv P w q \<Longrightarrow> next_slot P q < P"
  using pq_invD(1,3) by (auto simp: next_slot_def)

lemma slot_ok_mono:
  assumes "slot_ok P q j" and "unat (pq_min q) \<le> unat (pq_min q')" and "pq_next q' = pq_next q"
    and "slot_item (pq_slots q' ! j) = None \<or> slot_item (pq_slots q' ! j) = slot_item (pq_slots q ! j)"
  shows "slot_ok P q' j"
  using assms unfolding slot_ok_def by fastforce

lemma pq_inv_slots:
  assumes inv: "pq_inv P w q" and "pq_next q' = pq_next q" and "length (pq_slots q') = P"
    and "pq_slot_index q' < P" and "unat (pq_min q) \<le> unat (pq_min q')" and "unat (pq_min q') \<le> unat (pq_next q)"
    and "\<And>j. j < P \<Longrightarrow>
      slot_item (pq_slots q' ! j) = None \<or> slot_item (pq_slots q' ! j) = slot_item (pq_slots q ! j)"
  shows "pq_inv P w q'"
proof -
  note I = pq_invD [OF inv]
  have "slot_ok P q' j" if "j < P" for j
    using slot_ok_mono [OF I(9) [OF that] assms(5,2) assms(7) [OF that]] .
  then show ?thesis using I assms(2-6) by (simp add: pq_inv_def)
qed

text \<open>What a call does before it returns: confirmed items leave the window, overwritten ones their slot.\<close>

definition quiet :: "nat \<Rightarrow> peek_queue \<Rightarrow> peek_queue \<Rightarrow> bool" where
  "quiet P q q' \<longleftrightarrow> pq_next q' = pq_next q \<and> unat (pq_min q) \<le> unat (pq_min q')
     \<and> unat (pq_min q') \<le> unat (pq_next q)
     \<and> (\<forall>m. unat (pq_min q) \<le> m \<and> m < unat (pq_min q') \<longrightarrow> pq_slots q ! (m mod P) = RS_None)
     \<and> (\<forall>j < P. pq_slots q' ! j = pq_slots q ! j
          \<or> pq_slots q' ! j = RS_None \<and> (\<exists>n. pq_slots q ! j = RS_Abort n \<and> unat n < unat (pq_min q)))"

lemma quiet_refl: "pq_inv P w q \<Longrightarrow> quiet P q q"
  by (auto simp: quiet_def pq_inv_def)

lemma quiet_slot:
  "quiet P q q' \<Longrightarrow> j < P \<Longrightarrow> pq_slots q' ! j = pq_slots q ! j
     \<or> pq_slots q' ! j = RS_None \<and> (\<exists>n. pq_slots q ! j = RS_Abort n \<and> unat n < unat (pq_min q))"
  by (simp add: quiet_def)

lemma quiet_trans:
  assumes inv: "pq_inv P w q" and a: "quiet P q q1" and b: "quiet P q1 q2"
  shows "quiet P q q2"
proof -
  have P: "0 < P" by (rule pq_invD(1) [OF inv])
  have conf: "pq_slots q ! (m mod P) = RS_None" if "unat (pq_min q) \<le> m" "m < unat (pq_min q1)" for m
    using a that by (simp add: quiet_def)
  note s1 = quiet_slot [OF a] and s2 = quiet_slot [OF b]
  have slots: "pq_slots q2 ! j = pq_slots q ! j
      \<or> pq_slots q2 ! j = RS_None \<and> (\<exists>n. pq_slots q ! j = RS_Abort n \<and> unat n < unat (pq_min q))"
    if j: "j < P" for j
  proof (cases "pq_slots q1 ! j = pq_slots q ! j")
    case True
    have "unat n < unat (pq_min q)" if n: "pq_slots q ! j = RS_Abort n" "unat n < unat (pq_min q1)" for n
    proof (rule ccontr)
      assume "\<not> unat n < unat (pq_min q)"
      then have "pq_slots q ! (unat n mod P) = RS_None" using conf n(2) by simp
      moreover have "unat n mod P = j" using pq_invD(9) [OF inv j] n(1) by (simp add: slot_ok_def)
      ultimately show False using n(1) by simp
    qed
    then show ?thesis using True s2 [OF j] by metis
  next
    case False
    then show ?thesis using s1 [OF j] s2 [OF j] by auto
  qed
  have "pq_slots q ! (m mod P) = RS_None" if m: "unat (pq_min q) \<le> m" "m < unat (pq_min q2)" for m
  proof (cases "m < unat (pq_min q1)")
    case True
    then show ?thesis using conf m by simp
  next
    case False
    then have none: "pq_slots q1 ! (m mod P) = RS_None" using b m by (simp add: quiet_def)
    have lt: "m < unat (pq_next q)" using a b m(2) by (simp add: quiet_def)
    from none s1 [of "m mod P"] P have "pq_slots q ! (m mod P) = RS_None
        \<or> (\<exists>n. pq_slots q ! (m mod P) = RS_Abort n \<and> unat n < unat (pq_min q))"
      by auto
    then show ?thesis
    proof
      assume "\<exists>n. pq_slots q ! (m mod P) = RS_Abort n \<and> unat n < unat (pq_min q)"
      then obtain n where n: "pq_slots q ! (m mod P) = RS_Abort n" "unat n < unat (pq_min q)" by blast
      have "m = unat n"
        using pq_invD(9) [OF inv, of "m mod P"] n m(1) lt P by (auto simp: slot_ok_def)
      then show ?thesis using n(2) m(1) by simp
    qed
  qed
  then show ?thesis using a b slots by (auto simp: quiet_def)
qed

text \<open>The rounds a call still needs at most.\<close>

definition slot_dist :: "nat \<Rightarrow> nat \<Rightarrow> nat \<Rightarrow> nat" where
  "slot_dist P s t = (if s \<le> t then t - s else t + P - s)"

definition rounds_needed :: "nat \<Rightarrow> u32 \<Rightarrow> peek_queue \<Rightarrow> nat" where
  "rounds_needed P w q = card (stale_slots P q)
     + (if pq_next q \<noteq> w then slot_dist P (pq_slot_index q) (unat (pq_next q) mod P) + 1
        else if pq_min q = pq_next q then 1
        else slot_dist P (pq_slot_index q) (unat (pq_min q) mod P) + (unat (pq_next q) - unat (pq_min q)))"

lemma slot_dist_step:
  "s < P \<Longrightarrow> t < P \<Longrightarrow> s \<noteq> t \<Longrightarrow> slot_dist P (if s + 1 \<ge> P then 0 else s + 1) t + 1 = slot_dist P s t"
  by (auto simp: slot_dist_def)

lemma slot_dist_suc:
  "0 < P \<Longrightarrow> slot_dist P (if m mod P + 1 \<ge> P then 0 else m mod P + 1) ((m + 1) mod P) = 0"
  by (cases "m mod P + 1 \<ge> P") (auto simp: slot_dist_def mod_Suc le_Suc_eq dest: mod_less_divisor [of P m])

lemma finite_stale [simp]: "finite (stale_slots P q)"
  by (simp add: stale_slots_def)

lemma stale_slots_min_after:
  assumes inv: "pq_inv P w q" and none: "pq_slots q ! pq_slot_index q = RS_None"
  shows "stale_slots P (q\<lparr>pq_slot_index := i, pq_min := min_after P q\<rparr>) = stale_slots P q"
  using inv
proof (cases rule: min_after_cases)
  case same
  then show ?thesis by (simp add: stale_slots_def)
next
  case next_item
  have "unat n \<noteq> unat (pq_min q)" if "j < P" "pq_slots q ! j = RS_Abort n" for j n
    using pq_invD(9) [OF inv that(1)] that(2) none next_item(2) by (auto simp: slot_ok_def)
  then show ?thesis using next_item(1) by (auto simp: stale_slots_def less_Suc_eq)
qed

lemma quiet_min_after:
  assumes "pq_inv P w q" and "pq_slots q ! pq_slot_index q = RS_None"
  shows "quiet P q (q\<lparr>pq_slot_index := i, pq_min := min_after P q\<rparr>)"
  using assms min_after_le [OF assms(1)]
  by (cases rule: min_after_cases [OF assms(1)]) (auto simp: quiet_def less_Suc_eq)

lemma round_None_quiet:
  assumes inv: "pq_inv P w q" and rnd: "find_reader_round P w q = (None, q')"
  shows "pq_inv P w q'" and "quiet P q q'" and "rounds_needed P w q' < rounds_needed P w q"
proof -
  note I = pq_invD [OF inv]
  have "pq_inv P w q' \<and> quiet P q q' \<and> rounds_needed P w q' < rounds_needed P w q"
    using inv rnd
  proof (cases rule: round_cases)
    case (stale n)
    have "stale_slots P q' = stale_slots P q - {pq_slot_index q}"
      using stale I(2,3) by (auto simp: stale_slots_def nth_list_update split: if_splits)
    moreover have "pq_slot_index q \<in> stale_slots P q" using stale I(3) by (auto simp: stale_slots_def)
    ultimately have "card (stale_slots P q') < card (stale_slots P q)"
      by (metis card_Diff1_less finite_stale)
    then have "rounds_needed P w q' < rounds_needed P w q"
      using stale(4) by (simp add: rounds_needed_def)
    moreover have "pq_inv P w q'"
      using stale(4) I by (intro pq_inv_slots [OF inv]) (auto simp: nth_list_update)
    ultimately show ?thesis using stale I by (auto simp: quiet_def nth_list_update)
  next
    case skip
    have "pq_inv P w q'"
      using skip(4) I next_slot_lt [OF inv] min_after_le [OF inv] by (intro pq_inv_slots [OF inv]) auto
    moreover have "quiet P q q'" unfolding skip(4) by (rule quiet_min_after [OF inv skip(1)])
    moreover have "rounds_needed P w q' < rounds_needed P w q"
    proof -
      have st: "card (stale_slots P q') = card (stale_slots P q)"
        unfolding skip(4) stale_slots_min_after [OF inv skip(1)] ..
      have dist: "slot_dist P (next_slot P q) t + 1 = slot_dist P (pq_slot_index q) t"
        if "t < P" "pq_slot_index q \<noteq> t" for t
        using slot_dist_step [OF I(3) that] by (simp add: next_slot_def)
      show ?thesis
      proof (cases "pq_next q = w")
        case False
        then show ?thesis using skip(3,4) dist [of "unat (pq_next q) mod P"] I(1) st
          by (simp add: rounds_needed_def)
      next
        case True
        then have ne: "min_after P q \<noteq> pq_next q" using skip(3) by simp
        show ?thesis using inv
        proof (cases rule: min_after_cases)
          case same
          then have "pq_slot_index q \<noteq> unat (pq_min q) mod P" "pq_min q \<noteq> pq_next q"
            using ne by (auto simp: word_unat_eq_iff)
          then show ?thesis using skip(4) True same(1) dist [of "unat (pq_min q) mod P"] I(1) st
            by (simp add: rounds_needed_def)
        next
          case next_item
          then have "slot_dist P (next_slot P q) (unat (min_after P q) mod P) = 0"
            using slot_dist_suc [OF I(1), of "unat (pq_min q)"] by (auto simp: next_slot_def split: if_splits)
          then show ?thesis using skip(4) True ne next_item st by (auto simp: rounds_needed_def)
        qed
      qed
    qed
    ultimately show ?thesis by blast
  qed simp_all
  then show "pq_inv P w q'" and "quiet P q q'" and "rounds_needed P w q' < rounds_needed P w q" by auto
qed

section \<open>A whole call of find\_reader\<close>

lemma mod_window:
  assumes "a \<le> m" "m < a + P" "a \<le> m'" "m' < a + P" "m mod P = m' mod P"
  shows "m = (m' :: nat)"
  using assms
proof (induction m m' rule: linorder_wlog)
  case (le x y)
  then have "P dvd y - x" by (metis mod_eq_dvd_iff_nat)
  then show ?case using le by (auto dest: dvd_imp_le)
qed auto

lemma slot_dist_lt: "s < P \<Longrightarrow> t < P \<Longrightarrow> slot_dist P s t < P"
  by (auto simp: slot_dist_def)

lemma stale_window:
  assumes inv: "pq_inv P w q"
  shows "card (stale_slots P q) + (unat (pq_next q) - unat (pq_min q)) \<le> P"
proof -
  note I = pq_invD [OF inv]
  let ?W = "(\<lambda>m. m mod P) ` {unat (pq_min q)..<unat (pq_next q)}"
  have "inj_on (\<lambda>m. m mod P) {unat (pq_min q)..<unat (pq_next q)}"
    using I(5) by (intro inj_onI) (auto intro: mod_window [of "unat (pq_min q)" _ P])
  then have "card ?W = unat (pq_next q) - unat (pq_min q)" by (simp add: card_image)
  moreover have "stale_slots P q \<inter> ?W = {}"
    using I(9) by (fastforce simp: stale_slots_def slot_ok_def)
  moreover have "stale_slots P q \<union> ?W \<subseteq> {..<P}" using I(1) by (auto simp: stale_slots_def)
  ultimately show ?thesis
    by (metis card_Un_disjoint card_lessThan card_mono finite_atLeastLessThan finite_imageI finite_lessThan
        finite_stale)
qed

lemma rounds_needed_le:
  assumes inv: "pq_inv P w q"
  shows "rounds_needed P w q \<le> 2 * P"
proof -
  note I = pq_invD [OF inv]
  have "slot_dist P (pq_slot_index q) (m mod P) < P" for m
    using slot_dist_lt [OF I(3)] I(1) by simp
  from this [of "unat (pq_next q)"] this [of "unat (pq_min q)"] stale_window [OF inv]
  show ?thesis using I(1) by (auto simp: rounds_needed_def)
qed

lemma rounds_needed_pos:
  assumes "pq_inv P w q" shows "0 < rounds_needed P w q"
  using pq_invD(4) [OF assms] by (auto simp: rounds_needed_def word_unat_eq_iff)

text \<open>A call is some quiet rounds followed by the round that returns; the bound on the rounds is never hit.\<close>

lemma find_reader_decomp:
  assumes inv: "pq_inv P w q"
  obtains q1 r q' where "quiet P q q1" "pq_inv P w q1" "find_reader_round P w q1 = (Some r, q')"
    "find_reader P w q = (r, q')"
proof -
  have "\<exists>q1 r q'. quiet P q q1 \<and> pq_inv P w q1 \<and> find_reader_round P w q1 = (Some r, q')
      \<and> find_reader_loop P w k q = (r, q')" if "rounds_needed P w q \<le> k" for k
    using inv that
  proof (induction k arbitrary: q)
    case 0
    then show ?case using rounds_needed_pos [OF 0(1)] by simp
  next
    case (Suc k)
    obtain r q1 where rnd: "find_reader_round P w q = (r, q1)" by fastforce
    show ?case
    proof (cases r)
      case None
      note st = round_None_quiet [OF Suc.prems(1) rnd [unfolded None]]
      from Suc.IH [OF st(1)] st(3) Suc.prems(2) obtain q2 r2 q' where
        "quiet P q1 q2" "pq_inv P w q2" "find_reader_round P w q2 = (Some r2, q')"
        "find_reader_loop P w k q1 = (r2, q')" by auto
      then show ?thesis using rnd None quiet_trans [OF Suc.prems(1) st(2)] by auto
    next
      case (Some x)
      then show ?thesis using rnd Suc.prems(1) quiet_refl [OF Suc.prems(1)] by auto
    qed
  qed
  from this [OF rounds_needed_le [OF inv]] that show thesis by (auto simp: find_reader_def)
qed

lemma pq_inv_alloc:
  assumes inv: "pq_inv P w q" and ne: "pq_next q \<noteq> w" and s: "pq_slot_index q = unat (pq_next q) mod P"
    and none: "pq_slots q ! pq_slot_index q = RS_None"
  shows "pq_inv P w (q\<lparr>pq_slot_index := next_slot P q, pq_min := min_after P q, pq_next := pq_next q + 1,
      pq_slots := (pq_slots q)[pq_slot_index q := RS_Busy (pq_next q)]\<rparr>)" (is "pq_inv P w ?q'")
proof -
  note I = pq_invD [OF inv]
  have lt: "unat (pq_next q) < unat w" using ne I(6) by (metis le_neq_implies_less word_unat_eq_iff)
  then have nx: "unat (pq_next q + 1) = unat (pq_next q) + 1" using I(7) by (intro unat_suc) linarith
  have win: "unat (pq_next q) + 1 \<le> unat (min_after P q) + P"
    using inv
  proof (cases rule: min_after_cases)
    case same
    then have "unat (pq_next q) \<noteq> unat (pq_min q) + P"
      using s I(1) by (metis add_cancel_right_right less_irrefl mod_add_self2)
    then show ?thesis using same(1) I(5) by simp
  qed (use I(5) in simp)
  have "slot_ok P ?q' j" if j: "j < P" for j
  proof (cases "j = pq_slot_index q")
    case True
    have "m = unat (pq_next q)" if "unat (min_after P q) \<le> m" "m < unat (pq_next q) + 1" "m mod P = j" for m
      using mod_window [of "unat (min_after P q)" m P "unat (pq_next q)"] that True s win
        min_after_le [OF inv] by simp
    then show ?thesis using True s nx I(2) j by (auto simp: slot_ok_def)
  next
    case False
    have "unat n mod P = j \<and> unat n < unat (pq_next q) + 1
        \<and> (\<forall>m. unat (min_after P q) \<le> m \<and> m < unat (pq_next q) + 1 \<and> m mod P = j \<longrightarrow> m = unat n)"
      if n: "slot_item (pq_slots q ! j) = Some n" for n
    proof -
      note ok = I(9) [OF j, unfolded slot_ok_def, rule_format, OF n]
      have "m = unat n" if "unat (min_after P q) \<le> m" "m < unat (pq_next q) + 1" "m mod P = j" for m
      proof -
        have "m \<noteq> unat (pq_next q)" using that(3) False s by auto
        then show ?thesis using ok that min_after_le(1) [OF inv] by simp
      qed
      then show ?thesis using ok by simp
    qed
    then show ?thesis using False nx unfolding slot_ok_def by simp
  qed
  then show ?thesis using I next_slot_lt [OF inv] min_after_le [OF inv] nx lt win by (simp add: pq_inv_def)
qed

lemma quiet_confirmed:
  "quiet P q q' \<Longrightarrow> unat (pq_min q) \<le> m \<Longrightarrow> m < unat (pq_min q') \<Longrightarrow> pq_slots q ! (m mod P) = RS_None"
  by (simp add: quiet_def)

lemma quiet_le: "quiet P q q' \<Longrightarrow> unat (pq_min q) \<le> unat (pq_min q')"
  by (simp add: quiet_def)

lemma quiet_next: "quiet P q q' \<Longrightarrow> pq_next q' = pq_next q"
  by (simp add: quiet_def)

text \<open>The ways a call returns; \<open>q2\<close> is the state after the bookkeeping and before the slot is taken.\<close>

lemma find_reader_cases:
  assumes inv: "pq_inv P w q" and fr: "find_reader P w q = (r, q')"
  obtains (new) q2 where "quiet P q q2" "r = Ok (pq_next q)" "pq_next q \<noteq> w" "pq_inv P w q'"
      "pq_slots q2 ! (unat (pq_next q) mod P) = RS_None" "length (pq_slots q2) = P"
      "q' = q2\<lparr>pq_next := pq_next q + 1,
              pq_slots := (pq_slots q2)[unat (pq_next q) mod P := RS_Busy (pq_next q)]\<rparr>"
  | (retry) q2 n where "quiet P q q2" "r = Ok n" "pq_slots q ! (unat n mod P) = RS_Abort n"
      "unat (pq_min q) \<le> unat n" "pq_inv P w q'" "length (pq_slots q2) = P"
      "q' = q2\<lparr>pq_slots := (pq_slots q2)[unat n mod P := RS_Busy n]\<rparr>"
  | (busy) j n where "quiet P q q'" "r = Err RB_Busy" "j < P" "pq_slots q ! j = RS_Busy n" "pq_inv P w q'"
  | (empty) "quiet P q q'" "r = Err RB_Empty" "pq_next q = w" "pq_min q' = w" "pq_inv P w q'"
proof -
  from inv obtain q1 r1 q1' where d: "quiet P q q1" "pq_inv P w q1" "find_reader_round P w q1 = (Some r1, q1')"
    "find_reader P w q = (r1, q1')" by (rule find_reader_decomp)
  have eq: "r1 = r" "q1' = q'" using d(4) fr by simp_all
  note I = pq_invD [OF d(2)] and slot = quiet_slot [OF d(1)] and nx = quiet_next [OF d(1)]
  note tr = quiet_trans [OF inv d(1)]
  let ?s = "pq_slot_index q1"
  from d(2) d(3) [unfolded eq] show thesis
  proof (cases rule: round_cases)
    case (busy n)
    then have "pq_slots q ! ?s = RS_Busy n" using slot [OF I(3)] by auto
    then show thesis using that(3) [of ?s n] busy d(1,2) I(3) by simp
  next
    case (retry n)
    have ab: "pq_slots q ! ?s = RS_Abort n" using slot [OF I(3)] retry(1) by auto
    have n: "unat n mod P = ?s" using I(9) [OF I(3)] retry(1) by (simp add: slot_ok_def)
    have inv': "pq_inv P w q'"
      using retry I next_slot_lt [OF d(2)] by (intro pq_inv_slots [OF d(2)]) (auto simp: nth_list_update)
    show thesis
      by (rule that(2) [of "q1\<lparr>pq_slot_index := next_slot P q1\<rparr>" n])
        (use d(1) retry ab n inv' quiet_le [OF d(1)] I(2) in \<open>auto simp: quiet_def\<close>)
  next
    case empty
    then show thesis
      using that(4) tr [OF quiet_min_after [OF d(2) empty(1)]] nx I next_slot_lt [OF d(2)] min_after_le [OF d(2)]
        pq_inv_slots [OF d(2), of q'] by auto
  next
    case alloc
    have "quiet P q (q1\<lparr>pq_slot_index := next_slot P q1, pq_min := min_after P q1\<rparr>)"
      by (rule tr [OF quiet_min_after [OF d(2) alloc(1)]])
    then show thesis
      by (rule that(1)) (use alloc nx I(2) pq_inv_alloc [OF d(2) alloc(2,3,1)] in \<open>simp_all flip: alloc(3)\<close>)
  qed simp_all
qed

end
