(* ===== verification/Queue_Machine.thy ===== *)
theory Queue_Machine
  imports Peek_Queue_Correct
begin

text \<open>
  The queue with its confirm channel and the handles its users hold, as a state machine whose
  steps are the operations of \<open>queue.rs\<close> in any order. The ghost sets record which items were
  confirmed and which were lost to a circular overwrite.
\<close>

section \<open>Operations keep the invariant of the readers\<close>

definition busy_items :: "nat \<Rightarrow> peek_queue \<Rightarrow> u32 set" where
  "busy_items P q = {n. \<exists>j < P. pq_slots q ! j = RS_Busy n}"

lemma busy_iff:
  assumes "pq_inv P w q" shows "n \<in> busy_items P q \<longleftrightarrow> pq_slots q ! (unat n mod P) = RS_Busy n"
proof
  assume "n \<in> busy_items P q"
  then obtain j where j: "j < P" "pq_slots q ! j = RS_Busy n" by (auto simp: busy_items_def)
  then have "unat n mod P = j" using pq_invD(9) [OF assms j(1)] by (simp add: slot_ok_def)
  then show "pq_slots q ! (unat n mod P) = RS_Busy n" using j by simp
next
  assume "pq_slots q ! (unat n mod P) = RS_Busy n"
  then show "n \<in> busy_items P q"
    using pq_invD(1) [OF assms] by (auto simp: busy_items_def intro!: exI [of _ "unat n mod P"])
qed

lemma busy_items_card:
  assumes "pq_inv P w q" shows "finite (busy_items P q)" and "card (busy_items P q) \<le> P"
proof -
  have sub: "busy_items P q \<subseteq> (\<lambda>s. the (slot_item s)) ` set (pq_slots q)"
    using pq_invD(2) [OF assms] by (force simp: busy_items_def in_set_conv_nth image_iff)
  then show "finite (busy_items P q)" by (rule finite_subset) simp
  show "card (busy_items P q) \<le> P"
    using card_mono [OF _ sub] card_image_le [of "set (pq_slots q)"] card_length [of "pq_slots q"]
      pq_invD(2) [OF assms] by (meson List.finite_set finite_imageI le_trans order_refl order_eq_iff)
qed

lemma peek_update_inv:
  assumes "pq_inv P w q" shows "pq_inv P w (peek_update P c q)"
proof -
  note I = pq_invD [OF assms]
  show ?thesis
    using I by (intro pq_inv_slots [OF assms])
      (auto simp: peek_update_def Let_def unat_mod_P [OF I(8)] nth_list_update)
qed

lemma peek_update_busy:
  assumes inv: "pq_inv P w q" and b: "cf_id c \<in> busy_items P q"
  shows "busy_items P (peek_update P c q) = busy_items P q - {cf_id c}"
    and "pq_slots (peek_update P c q)
      = (pq_slots q)[unat (cf_id c) mod P := if cf_success c then RS_None else RS_Abort (cf_id c)]"
    and "pq_min (peek_update P c q) = pq_min q" and "pq_next (peek_update P c q) = pq_next q"
proof -
  note I = pq_invD [OF inv] and inv' = peek_update_inv [OF inv, of c]
  have slot: "pq_slots q ! (unat (cf_id c) mod P) = RS_Busy (cf_id c)" using b busy_iff [OF inv] by simp
  show sl: "pq_slots (peek_update P c q)
      = (pq_slots q)[unat (cf_id c) mod P := if cf_success c then RS_None else RS_Abort (cf_id c)]"
    and "pq_min (peek_update P c q) = pq_min q" and "pq_next (peek_update P c q) = pq_next q"
    using slot by (simp_all add: peek_update_def Let_def unat_mod_P [OF I(8)])
  have "n \<in> busy_items P (peek_update P c q) \<longleftrightarrow> n \<in> busy_items P q - {cf_id c}" for n
  proof (cases "unat n mod P = unat (cf_id c) mod P")
    case True
    then show ?thesis
      using slot I(1,2) by (auto simp: busy_iff [OF inv'] busy_iff [OF inv] sl)
  next
    case False
    then show ?thesis by (auto simp: busy_iff [OF inv'] busy_iff [OF inv] sl)
  qed
  then show "busy_items P (peek_update P c q) = busy_items P q - {cf_id c}" by blast
qed

lemma bump_cases:
  assumes inv: "pq_inv P w q" and le: "unat (pq_min q) \<le> unat m"
  shows "bump_min_index m q = (if unat (pq_next q) < unat m then q\<lparr>pq_min := m, pq_next := m\<rparr> else q\<lparr>pq_min := m\<rparr>)"
proof -
  have "unat (m - pq_min q) = unat m - unat (pq_min q)"
    "unat (pq_next q - pq_min q) = unat (pq_next q) - unat (pq_min q)"
    using le pq_invD(4) [OF inv] by (simp_all add: unat_sub word_le_nat_alt)
  then have "pq_next q - pq_min q < m - pq_min q \<longleftrightarrow> unat (pq_next q) < unat m"
    using le pq_invD(4) [OF inv] by (simp add: word_less_nat_alt) linarith
  then show ?thesis by (simp add: bump_min_index_def Let_def)
qed

lemma bump_inv:
  assumes inv: "pq_inv P w q" and le: "unat (pq_min q) \<le> unat m" "unat m \<le> unat w"
  shows "pq_inv P w (bump_min_index m q)"
proof (cases "unat (pq_next q) < unat m")
  case True
  note I = pq_invD [OF inv]
  have "slot_ok P (q\<lparr>pq_min := m, pq_next := m\<rparr>) j" if "j < P" for j
    using I(9) [OF that] True by (fastforce simp: slot_ok_def)
  then show ?thesis using True I le by (simp add: bump_cases [OF inv le(1)] pq_inv_def)
next
  case False
  note I = pq_invD [OF inv]
  show ?thesis
    using False I le by (intro pq_inv_slots [OF inv]) (auto simp: bump_cases [OF inv le(1)])
qed

lemma pq_inv_write: "pq_inv P w q \<Longrightarrow> unat w \<le> unat w' \<Longrightarrow> unat w' + P < 2 ^ 32 \<Longrightarrow> pq_inv P w' q"
  by (auto simp: pq_inv_def)

lemma pq_inv_new:
  assumes "0 < P" "unat m \<le> unat w" "unat w + P < 2 ^ 32"
  shows "pq_inv P w (peek_queue_new P m)"
  using assms by (auto simp: pq_inv_def peek_queue_new_def slot_ok_def unat_mod_P)

section \<open>Enqueueing\<close>

definition no_wrap :: "nat \<Rightarrow> queue \<Rightarrow> bool" where
  "no_wrap P q \<longleftrightarrow> unat (q_write_index q) + 1 + max P (unat (q_granularity q)) < 2 ^ 32"

lemma next_multiple:
  assumes "0 < unat g" "unat w + unat g < 2 ^ 32"
  obtains r where "checked_next_multiple_of w g = Some r" "unat w \<le> unat r" "unat r < unat w + unat g"
    "unat g dvd unat r"
proof (cases "w mod g = 0")
  case True
  have "unat g dvd unat w" using arg_cong [OF True, of unat] by (simp add: unat_mod_distrib mod_eq_0_iff_dvd)
  moreover have "g \<noteq> 0" using assms(1) by auto
  ultimately show thesis using that [of w] True assms by (simp add: checked_next_multiple_of_def)
next
  case False
  have m: "unat (w mod g) = unat w mod unat g" by (simp add: unat_mod_distrib)
  have pos: "0 < unat w mod unat g" using False m by (metis not_gr0 unsigned_0 word_unat_eq_iff)
  have lt: "unat w mod unat g < unat g" using assms(1) by simp
  have "unat (g - w mod g) = unat g - unat w mod unat g"
    using lt m by (simp add: unat_sub word_le_nat_alt)
  then have u: "unat (w + (g - w mod g)) = unat w + (unat g - unat w mod unat g)"
    using assms(2) by (simp add: unat_add_lem [THEN iffD1])
  have "unat w + (unat g - unat w mod unat g) = unat g * (unat w div unat g + 1)"
    using lt mult_div_mod_eq [of "unat g" "unat w"] by (simp only: distrib_left mult_1_right)
  then have "unat g dvd unat (w + (g - w mod g))" unfolding u by simp
  moreover have "checked_next_multiple_of w g = Some (w + (g - w mod g))"
    using False assms m lt by (auto simp: checked_next_multiple_of_def)
  ultimately show thesis using that [of "w + (g - w mod g)"] u pos lt by simp
qed

text \<open>
  The items a full queue gives up when it wraps around: the lower bound moves up to the end of
  the block that is being overwritten.
\<close>

lemma enqueue_cases:
  assumes inv: "pq_inv P (q_write_index q) (q_readers q)" and nw: "no_wrap P q"
    and g: "0 < unat (q_granularity q)" "unat (q_granularity q) \<le> unat (q_capacity q)"
    and enq: "queue_enqueue q = (r, q')"
  obtains (room) "r = Ok (q_write_index q)" "q' = q\<lparr>q_write_index := q_write_index q + 1\<rparr>"
      "unat (q_write_index q) + 1 \<le> unat (pq_min (q_readers q)) + unat (q_capacity q)"
  | (overwrite) m where "r = Ok (q_write_index q)"
      "q' = q\<lparr>q_write_index := q_write_index q + 1, q_readers := bump_min_index m (q_readers q)\<rparr>"
      "unat (pq_min (q_readers q)) < unat m" "unat m < unat (q_write_index q) + 1"
      "unat (q_write_index q) + 1 \<le> unat m + unat (q_capacity q)"
proof -
  let ?w = "q_write_index q + 1" and ?mn = "pq_min (q_readers q)" and ?c = "q_capacity q"
  note I = pq_invD [OF inv]
  have w: "unat ?w = unat (q_write_index q) + 1" using nw by (intro unat_suc) (simp add: no_wrap_def)
  have le: "unat ?mn \<le> unat (q_write_index q)" using I(4,6) by linarith
  have cnt: "unat (?w - ?mn) = unat ?w - unat ?mn" using le w by (simp add: unat_sub word_le_nat_alt)
  have nf: "unconfirmed_count q \<noteq> - 1"
  proof
    assume "unconfirmed_count q = - 1"
    then have "unat (q_write_index q - ?mn) = unat (- 1 :: u32)" by (simp add: unconfirmed_count_def)
    then have "unat (q_write_index q) - unat ?mn = 2 ^ 32 - 1"
      using le by (simp add: unat_sub word_le_nat_alt unsigned_minus_1_eq_mask mask_eq_exp_minus_1)
    then show False using nw by (simp add: no_wrap_def)
  qed
  show thesis
  proof (cases "unat ?w - unat ?mn \<le> unat ?c")
    case True
    then have "\<not> ?w - ?mn > ?c" using cnt by (simp add: word_less_nat_alt)
    then show thesis
      using enq nf room True le w by (simp add: queue_enqueue_def Let_def unconfirmed_count_def)
  next
    case False
    then have gt: "?w - ?mn > ?c" using cnt by (simp add: word_less_nat_alt)
    have "unat ?w + unat (q_granularity q) < 2 ^ 32" using nw unfolding no_wrap_def w by linarith
    from next_multiple [OF g(1) this] obtain e where e: "checked_next_multiple_of ?w (q_granularity q) = Some e" "unat ?w \<le> unat e"
      "unat e < unat ?w + unat (q_granularity q)"
      by blast
    have m: "unat (e - ?c) = unat e - unat ?c"
      using e(2) False by (simp add: unat_sub word_le_nat_alt)
    show thesis
      by (rule overwrite [of "e - ?c"])
        (use enq nf gt e m False g(2) w in \<open>simp_all add: queue_enqueue_def Let_def unconfirmed_count_def\<close>)
  qed
qed

section \<open>The machine\<close>

text \<open>
  \<open>qs_handles\<close> are the items of the handles that are neither confirmed nor dropped. Confirming and
  dropping act on the channel; the other steps are calls of the queue's owner.
\<close>

record queue_system =
  qs_queue :: queue
  qs_handles :: "u32 list"
  qs_confirmed :: "nat set"
  qs_lost :: "nat set"

abbreviation low :: "queue \<Rightarrow> nat" where
  "low q \<equiv> unat (pq_min (q_readers q))"

abbreviation high :: "queue \<Rightarrow> nat" where
  "high q \<equiv> unat (pq_next (q_readers q))"

inductive queue_step :: "nat \<Rightarrow> queue_system \<Rightarrow> queue_system \<Rightarrow> bool" for P where
  enqueue: "no_wrap P (qs_queue s) \<Longrightarrow> queue_enqueue (qs_queue s) = (r, q') \<Longrightarrow>
    queue_step P s (s\<lparr>qs_queue := q', qs_lost := qs_lost s \<union> {low (qs_queue s)..<low q'}\<rparr>)"
| peek: "queue_peek_next P (qs_queue s) = (Ok h, q') \<Longrightarrow>
    queue_step P s (s\<lparr>qs_queue := q', qs_handles := ch_id h # qs_handles s\<rparr>)"
| blocked: "queue_peek_next P (qs_queue s) = (Err b, q') \<Longrightarrow> queue_step P s (s\<lparr>qs_queue := q'\<rparr>)"
| confirm: "n \<in> set (qs_handles s) \<Longrightarrow>
    queue_step P s (s\<lparr>qs_queue := handle_confirm P (confirm_handle_new n) (qs_queue s),
      qs_handles := remove1 n (qs_handles s), qs_confirmed := insert (unat n) (qs_confirmed s)\<rparr>)"
| abort: "n \<in> set (qs_handles s) \<Longrightarrow>
    queue_step P s (s\<lparr>qs_queue := handle_drop P (confirm_handle_new n) (qs_queue s),
      qs_handles := remove1 n (qs_handles s)\<rparr>)"
| wait: "wait_confirmation P (qs_queue s) = Some q' \<Longrightarrow> queue_step P s (s\<lparr>qs_queue := q'\<rparr>)"
| drained: "queue_is_drained P (qs_queue s) = (b, q') \<Longrightarrow> queue_step P s (s\<lparr>qs_queue := q'\<rparr>)"

text \<open>
  A queue with room for at least one block that was restored to the range \<open>[a, b)\<close>.
\<close>

definition queue_start :: "nat \<Rightarrow> nat \<Rightarrow> nat \<Rightarrow> u32 \<Rightarrow> u32 \<Rightarrow> queue_system" where
  "queue_start P cap g a b =
     \<lparr>qs_queue = reinit_with_existing_range P (a, b) (queue_with_overwrite_support P cap g),
      qs_handles = [], qs_confirmed = {}, qs_lost = {}\<rparr>"

inductive queue_reachable :: "nat \<Rightarrow> queue_system \<Rightarrow> queue_system \<Rightarrow> bool" for P s0 where
  init: "queue_reachable P s0 s0"
| step: "queue_reachable P s0 s \<Longrightarrow> queue_step P s s' \<Longrightarrow> queue_reachable P s0 s'"

definition handles_ok :: "nat \<Rightarrow> queue \<Rightarrow> u32 list \<Rightarrow> bool" where
  "handles_ok P q hs \<longleftrightarrow> distinct (hs @ map cf_id (q_channel q))
     \<and> set (hs @ map cf_id (q_channel q)) = busy_items P (q_readers q)"

definition ghost_ok :: "nat \<Rightarrow> nat \<Rightarrow> queue \<Rightarrow> nat set \<Rightarrow> nat set \<Rightarrow> bool" where
  "ghost_ok P start q conf lost \<longleftrightarrow>
     (\<forall>m. low q \<le> m \<and> m < high q \<and> pq_slots (q_readers q) ! (m mod P) = RS_None \<longrightarrow> m \<in> conf)
     \<and> (\<forall>c \<in> set (q_channel q). cf_success c \<longrightarrow> unat (cf_id c) \<in> conf)
     \<and> (\<forall>m. start \<le> m \<and> m < low q \<longrightarrow> m \<in> conf \<union> lost)"

definition queue_ok :: "nat \<Rightarrow> nat \<Rightarrow> queue \<Rightarrow> u32 list \<Rightarrow> nat set \<Rightarrow> nat set \<Rightarrow> bool" where
  "queue_ok P start q hs conf lost \<longleftrightarrow> pq_inv P (q_write_index q) (q_readers q)
     \<and> 0 < unat (q_granularity q) \<and> unat (q_granularity q) \<le> unat (q_capacity q)
     \<and> handles_ok P q hs \<and> ghost_ok P start q conf lost"

abbreviation system_ok :: "nat \<Rightarrow> nat \<Rightarrow> queue_system \<Rightarrow> bool" where
  "system_ok P start s \<equiv> queue_ok P start (qs_queue s) (qs_handles s) (qs_confirmed s) (qs_lost s)"

lemma channel_room:
  assumes "queue_ok P start q hs conf lost"
  shows "length hs + length (q_channel q) \<le> P"
proof -
  have inv: "pq_inv P (q_write_index q) (q_readers q)" and ho: "handles_ok P q hs"
    using assms by (simp_all add: queue_ok_def)
  have "length (hs @ map cf_id (q_channel q)) = card (busy_items P (q_readers q))"
    using ho distinct_card [of "hs @ map cf_id (q_channel q)"] by (simp add: handles_ok_def)
  then show ?thesis using busy_items_card(2) [OF inv] by simp
qed

text \<open>Taking one message from the channel.\<close>

definition take_message :: "nat \<Rightarrow> queue \<Rightarrow> queue" where
  "take_message P q = q\<lparr>q_readers := peek_update P (hd (q_channel q)) (q_readers q), q_channel := tl (q_channel q)\<rparr>"

lemma take_message_ok:
  assumes ok: "queue_ok P start q hs conf lost" and ne: "q_channel q = c # cs"
  shows "queue_ok P start (take_message P q) hs conf lost"
proof -
  let ?r = "q_readers q" and ?q' = "take_message P q"
  have inv: "pq_inv P (q_write_index q) ?r" and ho: "handles_ok P q hs" and go: "ghost_ok P start q conf lost"
    using ok by (simp_all add: queue_ok_def)
  have b: "cf_id c \<in> busy_items P ?r" using ho ne by (auto simp: handles_ok_def)
  note u = peek_update_busy [OF inv b]
  have q': "q_readers ?q' = peek_update P c ?r" "q_channel ?q' = cs" "q_write_index ?q' = q_write_index q"
    "q_granularity ?q' = q_granularity q" "q_capacity ?q' = q_capacity q"
    using ne by (simp_all add: take_message_def)
  have h': "handles_ok P ?q' hs" using ho ne by (auto simp: handles_ok_def q' u(1))
  have only: "m = unat (cf_id c)" if "low q \<le> m" "m < high q" "m mod P = unat (cf_id c) mod P" for m
  proof -
    have "slot_item (pq_slots ?r ! (unat (cf_id c) mod P)) = Some (cf_id c)"
      using b busy_iff [OF inv, of "cf_id c"] by simp
    moreover have "slot_ok P ?r (unat (cf_id c) mod P)"
      using pq_invD(1) [OF inv] by (intro pq_invD(9) [OF inv]) simp
    ultimately show ?thesis using that unfolding slot_ok_def by blast
  qed
  have none: "m \<in> conf" if m: "low q \<le> m" "m < high q"
    "pq_slots (peek_update P c ?r) ! (m mod P) = RS_None" for m
  proof (cases "pq_slots ?r ! (m mod P) = RS_None")
    case True
    then show ?thesis using go m by (auto simp: ghost_ok_def)
  next
    case False
    then have s: "m mod P = unat (cf_id c) mod P" and "cf_success c"
      using m(3) pq_invD(1,2) [OF inv] by (auto simp: u(2) nth_list_update split: if_splits)
    moreover have "m = unat (cf_id c)" by (rule only [OF m(1,2) s])
    ultimately show ?thesis using go ne by (simp add: ghost_ok_def)
  qed
  have "ghost_ok P start ?q' conf lost"
    using go none ne by (simp add: ghost_ok_def q' u(3,4))
  then show ?thesis using h' ok peek_update_inv [OF inv] by (simp add: queue_ok_def q')
qed

lemma update_reader_slots_ok:
  "queue_ok P start q hs conf lost \<Longrightarrow> queue_ok P start (update_reader_slots P q) hs conf lost"
proof (induction "q_channel q" arbitrary: q)
  case Nil
  then have "update_reader_slots P q = q" by (cases q) (simp add: update_reader_slots_def)
  then show ?case using Nil by simp
next
  case (Cons c cs)
  have "update_reader_slots P q = update_reader_slots P (take_message P q)"
    using Cons.hyps(2) [symmetric] by (simp add: update_reader_slots_def take_message_def)
  moreover have "cs = q_channel (take_message P q)"
    using Cons.hyps(2) [symmetric] by (simp add: take_message_def)
  ultimately show ?case
    using Cons.hyps(1) take_message_ok [OF Cons.prems Cons.hyps(2) [symmetric]] by simp
qed

text \<open>Allocating a reader.\<close>

lemma busy_quiet:
  assumes "quiet P r r2" shows "busy_items P r2 = busy_items P r"
  using quiet_slot [OF assms] by (fastforce simp: busy_items_def)

lemma ghost_quiet:
  assumes inv: "pq_inv P w (q_readers q)" and go: "ghost_ok P start q conf lost" and qu: "quiet P (q_readers q) r2"
  shows "ghost_ok P start (q\<lparr>q_readers := r2\<rparr>) conf lost"
proof -
  let ?r = "q_readers q"
  have P: "0 < P" by (rule pq_invD(1) [OF inv])
  have keep: "m \<in> conf" if m: "low q \<le> m" "m < high q" "pq_slots r2 ! (m mod P) = RS_None" for m
  proof (cases "pq_slots ?r ! (m mod P) = RS_None")
    case True
    then show ?thesis using go m by (auto simp: ghost_ok_def)
  next
    case False
    then obtain n where n: "pq_slots ?r ! (m mod P) = RS_Abort n" "unat n < low q"
      using quiet_slot [OF qu, of "m mod P"] m(3) P by auto
    have "slot_ok P ?r (m mod P)" using P by (intro pq_invD(9) [OF inv]) simp
    then have "m = unat n" using n(1) m(1,2) by (simp add: slot_ok_def)
    then show ?thesis using n(2) m(1) by simp
  qed
  have past: "m \<in> conf \<union> lost" if "start \<le> m" "m < unat (pq_min r2)" for m
  proof (cases "m < low q")
    case True
    then show ?thesis using go that by (simp add: ghost_ok_def)
  next
    case False
    then have "pq_slots ?r ! (m mod P) = RS_None" using quiet_confirmed [OF qu] that by simp
    moreover have "m < high q" using that(2) qu by (simp add: quiet_def)
    ultimately show ?thesis using go False by (simp add: ghost_ok_def)
  qed
  show ?thesis
    using go keep past quiet_le [OF qu] quiet_next [OF qu] by (simp add: ghost_ok_def)
qed

lemma ghost_busy:
  assumes go: "ghost_ok P start q conf lost" and len: "length (pq_slots (q_readers q)) = P" and j: "j < P"
    and nx: "unat nx = high q \<or> unat nx = high q + 1 \<and> j = high q mod P"
  shows "ghost_ok P start (q\<lparr>q_readers := q_readers q\<lparr>pq_next := nx,
      pq_slots := (pq_slots (q_readers q))[j := RS_Busy n]\<rparr>\<rparr>) conf lost"
proof -
  let ?sl = "(pq_slots (q_readers q))[j := RS_Busy n]"
  have "m \<in> conf" if m: "low q \<le> m" "m < unat nx" "?sl ! (m mod P) = RS_None" for m
  proof -
    have "m mod P \<noteq> j" using m(3) len j by auto
    moreover from this have "m < high q" using m(2) nx by (auto simp: less_Suc_eq)
    ultimately show ?thesis using go m by (simp add: ghost_ok_def)
  qed
  then show ?thesis using go by (simp add: ghost_ok_def)
qed

lemma busy_items_update:
  assumes "length (pq_slots r) = P" "j < P" "\<And>m. pq_slots r ! j \<noteq> RS_Busy m"
  shows "busy_items P (r\<lparr>pq_next := nx, pq_slots := (pq_slots r)[j := RS_Busy n]\<rparr>) = insert n (busy_items P r)"
proof (intro set_eqI iffI)
  fix m assume "m \<in> insert n (busy_items P r)"
  then consider "m = n" | i where "i < P" "pq_slots r ! i = RS_Busy m" by (auto simp: busy_items_def)
  then show "m \<in> busy_items P (r\<lparr>pq_next := nx, pq_slots := (pq_slots r)[j := RS_Busy n]\<rparr>)"
  proof cases
    case 1
    then show ?thesis using assms by (auto simp: busy_items_def intro!: exI [of _ j])
  next
    case (2 i)
    then have "i \<noteq> j" using assms(3) by auto
    then show ?thesis using 2 by (auto simp: busy_items_def intro!: exI [of _ i])
  qed
qed (use assms in \<open>auto simp: busy_items_def nth_list_update split: if_splits\<close>)

lemma try_alloc_ok:
  assumes ok: "queue_ok P start q hs conf lost" and al: "try_alloc_reader P q = (r, q')"
  shows "queue_ok P start q' (case r of Ok n \<Rightarrow> n # hs | Err b \<Rightarrow> hs) conf lost"
proof -
  let ?r = "q_readers q"
  have inv: "pq_inv P (q_write_index q) ?r" and ho: "handles_ok P q hs" and go: "ghost_ok P start q conf lost"
    using ok by (simp_all add: queue_ok_def)
  note P = pq_invD(1) [OF inv]
  obtain r' where fr: "find_reader P (q_write_index q) ?r = (r, r')" and q': "q' = q\<lparr>q_readers := r'\<rparr>"
    using al by (auto simp: try_alloc_reader_def split: prod.splits)
  have taken: "queue_ok P start q' (n # hs) conf lost"
    if qu: "quiet P ?r q2" and len: "length (pq_slots q2) = P" and r': "pq_inv P (q_write_index q) r'"
      and nb: "n \<notin> busy_items P ?r" and slot: "\<And>m. pq_slots q2 ! (unat n mod P) \<noteq> RS_Busy m"
      and eq: "r' = q2\<lparr>pq_next := nx, pq_slots := (pq_slots q2)[unat n mod P := RS_Busy n]\<rparr>"
      and nx: "unat nx = unat (pq_next q2) \<or> unat nx = unat (pq_next q2) + 1 \<and> unat n = unat (pq_next q2)"
    for q2 n nx
  proof -
    have "busy_items P r' = insert n (busy_items P ?r)"
      unfolding eq using busy_items_update [OF len _ slot] P busy_quiet [OF qu] by simp
    then have "handles_ok P q' (n # hs)" using ho nb by (auto simp: handles_ok_def q')
    moreover have "ghost_ok P start q' conf lost"
      using ghost_busy [OF ghost_quiet [OF inv go qu], of "unat n mod P" nx n] len P nx
      by (simp add: q' eq) auto
    ultimately show ?thesis using ok r' by (simp add: queue_ok_def q')
  qed
  from inv fr show ?thesis
  proof (cases rule: find_reader_cases)
    case (new q2)
    have "pq_next ?r \<notin> busy_items P ?r"
      using pq_invD(9) [OF inv] by (fastforce simp: busy_items_def slot_ok_def)
    moreover have "unat (pq_next ?r + 1) = unat (pq_next ?r) + 1"
      using pq_invD(1,6,7) [OF inv] by (intro unat_suc) linarith
    ultimately show ?thesis
      using taken [OF new(1,6,4) _ _ new(7)] new(2,5) quiet_next [OF new(1)] by simp
  next
    case (retry q2 n)
    have nb: "pq_slots q2 ! (unat n mod P) \<noteq> RS_Busy m" for m
      using quiet_slot [OF retry(1), of "unat n mod P"] retry(3) P by auto
    have eq: "r' = q2\<lparr>pq_next := pq_next q2, pq_slots := (pq_slots q2)[unat n mod P := RS_Busy n]\<rparr>"
      using retry(7) by simp
    have "n \<notin> busy_items P ?r" using retry(3) busy_iff [OF inv, of n] by simp
    from taken [OF retry(1,6,5) this nb eq] show ?thesis using retry(2) by simp
  next
    case (busy j n)
    then show ?thesis using ok ghost_quiet [OF inv go busy(1)] busy_quiet [OF busy(1)]
      by (simp add: queue_ok_def handles_ok_def q')
  next
    case empty
    then show ?thesis using ok ghost_quiet [OF inv go empty(1)] busy_quiet [OF empty(1)]
      by (simp add: queue_ok_def handles_ok_def q')
  qed
qed

section \<open>Every step keeps the invariant\<close>

lemma peek_next_ok:
  assumes ok: "queue_ok P start q hs conf lost" and pk: "queue_peek_next P q = (r, q')"
  shows "queue_ok P start q' (case r of Ok h \<Rightarrow> ch_id h # hs | Err b \<Rightarrow> hs) conf lost"
proof (cases "unconfirmed_count q = 0")
  case True
  then show ?thesis using ok pk by (auto simp: queue_peek_next_def)
next
  case False
  obtain r1 q1 where al: "try_alloc_reader P (update_reader_slots P q) = (r1, q1)" by fastforce
  note ok1 = try_alloc_ok [OF update_reader_slots_ok [OF ok] al]
  from pk False al have "q1 = q' \<and> r = (case r1 of Ok n \<Rightarrow> Ok (confirm_handle_new n) | Err b \<Rightarrow> Err b)"
    by (auto simp: queue_peek_next_def split: sum.splits)
  then show ?thesis using ok1 by (cases r1) (auto simp: confirm_handle_new_def)
qed

lemma send_ok:
  assumes ok: "queue_ok P start q hs conf lost" and n: "n \<in> set hs" and s: "b \<Longrightarrow> unat n \<in> conf"
  shows "queue_ok P start (try_send P \<lparr>cf_id = n, cf_success = b\<rparr> q) (remove1 n hs) conf lost"
    and "q_channel (try_send P \<lparr>cf_id = n, cf_success = b\<rparr> q) = q_channel q @ [\<lparr>cf_id = n, cf_success = b\<rparr>]"
proof -
  have ho: "handles_ok P q hs" using ok by (simp add: queue_ok_def)
  have "0 < length hs" using n by (cases hs) auto
  then have room: "length (q_channel q) < P" using channel_room [OF ok] by linarith
  then show "q_channel (try_send P \<lparr>cf_id = n, cf_success = b\<rparr> q) = q_channel q @ [\<lparr>cf_id = n, cf_success = b\<rparr>]"
    by (simp add: try_send_def)
  have "handles_ok P (q\<lparr>q_channel := q_channel q @ [\<lparr>cf_id = n, cf_success = b\<rparr>]\<rparr>) (remove1 n hs)"
    using ho n by (auto simp: handles_ok_def distinct_remove1 set_remove1_eq)
  then show "queue_ok P start (try_send P \<lparr>cf_id = n, cf_success = b\<rparr> q) (remove1 n hs) conf lost"
    using ok room s by (auto simp: try_send_def queue_ok_def ghost_ok_def)
qed

lemma handle_send:
  "handle_confirm P (confirm_handle_new n) q = try_send P \<lparr>cf_id = n, cf_success = True\<rparr> q"
  "handle_drop P (confirm_handle_new n) q = try_send P \<lparr>cf_id = n, cf_success = False\<rparr> q"
  by (simp_all add: handle_confirm_def handle_drop_def try_abort_def confirm_handle_new_def)

lemma queue_ok_more:
  "queue_ok P start q hs conf lost \<Longrightarrow> conf \<subseteq> conf' \<Longrightarrow> lost \<subseteq> lost' \<Longrightarrow> queue_ok P start q hs conf' lost'"
  unfolding queue_ok_def ghost_ok_def by blast

lemma enqueue_ok:
  assumes ok: "queue_ok P start q hs conf lost" and nw: "no_wrap P q" and enq: "queue_enqueue q = (r, q')"
  shows "queue_ok P start q' hs conf (lost \<union> {low q..<low q'})"
proof -
  have inv: "pq_inv P (q_write_index q) (q_readers q)" and go: "ghost_ok P start q conf lost"
    and g: "0 < unat (q_granularity q)" "unat (q_granularity q) \<le> unat (q_capacity q)"
    using ok by (simp_all add: queue_ok_def)
  have w: "unat (q_write_index q + 1) = unat (q_write_index q) + 1" using nw by (intro unat_suc) (simp add: no_wrap_def)
  have inv1: "pq_inv P (q_write_index q + 1) (q_readers q)"
    by (rule pq_inv_write [OF inv]) (use nw w in \<open>simp_all add: no_wrap_def\<close>)
  from inv nw g enq show ?thesis
  proof (cases rule: enqueue_cases)
    case room
    then show ?thesis using ok inv1 by (simp add: queue_ok_def handles_ok_def ghost_ok_def)
  next
    case (overwrite m)
    let ?r = "bump_min_index m (q_readers q)"
    note bc = bump_cases [OF inv less_imp_le [OF overwrite(3)]]
    have lo: "low q' = unat m" and sl: "pq_slots ?r = pq_slots (q_readers q)"
      and hi: "unat (pq_next ?r) = max (high q) (unat m)"
      using overwrite(2) by (auto simp: bc)
    have busy: "busy_items P ?r = busy_items P (q_readers q)" by (simp add: busy_items_def sl)
    have "ghost_ok P start q' conf (lost \<union> {low q..<low q'})"
      using go overwrite(2,3) lo unfolding ghost_ok_def by (auto simp: sl hi max_def split: if_splits)
    moreover have "pq_inv P (q_write_index q + 1) ?r"
      by (rule bump_inv [OF inv1]) (use overwrite(3,4) w in simp_all)
    ultimately show ?thesis using ok overwrite(2) busy by (simp add: queue_ok_def handles_ok_def)
  qed
qed

text \<open>
  When \<open>is_drained\<close> returns true, nothing is left: no handle is out, and every item from the start up
  to the write position was confirmed or lost to an overwrite.
\<close>

lemma drained_ok:
  assumes "queue_ok P start q hs conf lost" and "queue_is_drained P q = (True, q')"
  shows "{start..<unat (q_write_index q)} \<subseteq> conf \<union> lost \<and> hs = []"
proof -
  let ?u = "update_reader_slots P q"
  note ok = update_reader_slots_ok [OF assms(1)]
  have inv: "pq_inv P (q_write_index q) (q_readers ?u)" and ho: "handles_ok P ?u hs"
    and go: "ghost_ok P start ?u conf lost"
    using ok by (simp_all add: queue_ok_def update_reader_slots_def)
  note I = pq_invD [OF inv]
  have "q_write_index ?u = q_write_index q" by (simp add: update_reader_slots_def)
  then have dr: "peek_is_drained P (q_write_index q) (q_readers ?u)"
    using assms(2) by (auto simp: queue_is_drained_def Let_def)
  have nx: "pq_next (q_readers ?u) = q_write_index q"
    and sl: "\<And>j. j < P \<Longrightarrow> case pq_slots (q_readers ?u) ! j of RS_None \<Rightarrow> True | RS_Busy _ \<Rightarrow> False
          | RS_Abort index \<Rightarrow> \<not> is_in_bounds P (q_readers ?u) index"
    using dr I(2) by (simp_all add: peek_is_drained_def list_all_length)
  have "busy_items P (q_readers ?u) = {}" using sl by (fastforce simp: busy_items_def)
  then have "hs = []" using ho by (simp add: handles_ok_def)
  moreover have "m \<in> conf" if m: "low ?u \<le> m" "m < unat (q_write_index q)" for m
  proof -
    have j: "m mod P < P" using I(1) by simp
    have "pq_slots (q_readers ?u) ! (m mod P) = RS_None"
    proof (cases "pq_slots (q_readers ?u) ! (m mod P)")
      case (RS_Abort n)
      then have "unat n = m" and "unat n < high ?u" using I(9) [OF j] m nx by (auto simp: slot_ok_def)
      then show ?thesis using sl [OF j] RS_Abort in_bounds_iff [OF inv, of n] m by simp
    qed (use sl [OF j] in auto)
    then show ?thesis using go m nx by (simp add: ghost_ok_def)
  qed
  moreover have "m \<in> conf \<union> lost" if "start \<le> m" "m < low ?u" for m
    using go that by (simp add: ghost_ok_def)
  ultimately show ?thesis by (meson UnI1 atLeastLessThan_iff not_le subsetI)
qed

lemma queue_step_ok:
  assumes "queue_step P s s'" and "system_ok P start s"
  shows "system_ok P start s'"
  using assms
proof (cases rule: queue_step.cases)
  case (enqueue r q')
  then show ?thesis using enqueue_ok [OF assms(2)] by simp
next
  case (peek h q')
  then show ?thesis using peek_next_ok [OF assms(2) peek(2)] by simp
next
  case (blocked b q')
  then show ?thesis using peek_next_ok [OF assms(2) blocked(2)] by simp
next
  case (confirm n)
  have "queue_ok P start (qs_queue s) (qs_handles s) (insert (unat n) (qs_confirmed s)) (qs_lost s)"
    by (rule queue_ok_more [OF assms(2)]) auto
  then show ?thesis using send_ok(1) [of P start "qs_queue s" _ _ _ n True] confirm by (simp add: handle_send)
next
  case (abort n)
  then show ?thesis using send_ok(1) [OF assms(2), of n False] by (simp add: handle_send)
next
  case (wait q')
  then obtain c cs where c: "q_channel (qs_queue s) = c # cs" and "q' = take_message P (qs_queue s)"
    by (auto simp: wait_confirmation_def take_message_def split: list.splits)
  then show ?thesis using take_message_ok [OF assms(2) c] wait by simp
next
  case (drained b q')
  then show ?thesis
    using update_reader_slots_ok [OF assms(2)] by (auto simp: queue_is_drained_def Let_def)
qed

definition start_ok :: "nat \<Rightarrow> nat \<Rightarrow> nat \<Rightarrow> u32 \<Rightarrow> u32 \<Rightarrow> bool" where
  "start_ok P cap g a b \<longleftrightarrow> 0 < P \<and> 0 < g \<and> g \<le> cap \<and> a \<le> b \<and> unat b + P < 2 ^ 32"

lemma queue_start_ok:
  assumes "start_ok P cap g a b"
  shows "system_ok P (unat a) (queue_start P cap g a b)"
proof -
  let ?q = "qs_queue (queue_start P cap g a b)"
  have u: "unat (- 1 :: u32) = 2 ^ 32 - 1" by (simp add: unsigned_minus_1_eq_mask mask_eq_exp_minus_1)
  have tf: "unat (case_option (- 1) (\<lambda>x. x) (u32_try_from n)) = min n (2 ^ 32 - 1)" for n
    by (auto simp: u32_try_from_def u unat_of_nat take_bit_nat_eq_self min_def)
  have "unat (q_granularity ?q) = min g (2 ^ 32 - 1)" "unat (q_capacity ?q) = min cap (2 ^ 32 - 1)"
    by (simp_all add: queue_start_def reinit_with_existing_range_def queue_with_overwrite_support_def tf)
  then have "0 < unat (q_granularity ?q)" "unat (q_granularity ?q) \<le> unat (q_capacity ?q)"
    using assms by (auto simp: start_ok_def)
  moreover have "pq_inv P (q_write_index ?q) (q_readers ?q)"
    using assms by (simp add: start_ok_def queue_start_def reinit_with_existing_range_def pq_inv_new word_le_nat_alt)
  ultimately show ?thesis
    by (auto simp: queue_ok_def handles_ok_def ghost_ok_def busy_items_def queue_start_def
        reinit_with_existing_range_def peek_queue_new_def queue_with_overwrite_support_def)
qed

lemma reachable_ok:
  assumes "start_ok P cap g a b" and "queue_reachable P (queue_start P cap g a b) s"
  shows "system_ok P (unat a) s"
  using assms(2) by induction (use queue_start_ok [OF assms(1)] queue_step_ok in blast)+

end
