(* ===== verification/Queue_Theorems.thy ===== *)
theory Queue_Theorems
  imports Queue_Machine
begin

text \<open>
  The properties of the persistent queue's bookkeeping, with a concrete run: two items are
  enqueued, the first is read, confirmed, and the next call hands out the second.
\<close>

section \<open>A concrete run\<close>

definition ex_q1 :: queue where
  "ex_q1 = snd (queue_enqueue (qs_queue (queue_start 2 4 2 0 0)))"

definition ex_q2 :: queue where
  "ex_q2 = snd (queue_enqueue ex_q1)"

definition ex_q3 :: queue where
  "ex_q3 = snd (queue_peek_next 2 ex_q2)"

definition ex_q4 :: queue where
  "ex_q4 = handle_confirm 2 (confirm_handle_new 0) ex_q3"

definition ex_q5 :: queue where
  "ex_q5 = snd (queue_peek_next 2 ex_q4)"

definition ex_q6 :: queue where
  "ex_q6 = snd (queue_peek_next 2 (handle_drop 2 (confirm_handle_new 1) ex_q5))"

definition ex_s3 :: queue_system where
  "ex_s3 = \<lparr>qs_queue = ex_q3, qs_handles = [0], qs_confirmed = {}, qs_lost = {}\<rparr>"

definition ex_s6 :: queue_system where
  "ex_s6 = \<lparr>qs_queue = ex_q6, qs_handles = [1], qs_confirmed = {0}, qs_lost = {}\<rparr>"

definition ex_s7 :: queue_system where
  "ex_s7 = \<lparr>qs_queue = handle_confirm 2 (confirm_handle_new 1) ex_q6, qs_handles = [],
     qs_confirmed = {1, 0}, qs_lost = {}\<rparr>"

lemma ex_start_ok: "start_ok 2 4 2 0 0"
  by (simp add: start_ok_def)

lemma ex_writes: "unat (q_write_index (qs_queue (queue_start 2 4 2 0 0))) = 0" "unat (q_granularity (qs_queue (queue_start 2 4 2 0 0))) = 2"
    "unat (q_write_index ex_q1) = 1" "unat (q_granularity ex_q1) = 2"
  by code_simp+

lemma ex_peeks:
  "queue_peek_next 2 ex_q2 = (Ok (confirm_handle_new 0), ex_q3)"
  "queue_peek_next 2 ex_q4 = (Ok (confirm_handle_new 1), ex_q5)"
  "queue_peek_next 2 (handle_drop 2 (confirm_handle_new 1) ex_q5) = (Ok (confirm_handle_new 1), ex_q6)"
  by code_simp+

lemma ex_lows: "low (qs_queue (queue_start 2 4 2 0 0)) = 0" "low ex_q1 = 0" "low ex_q2 = 0" "low ex_q6 = 1"
  "unat (q_write_index ex_q6) = 2"
  by code_simp+

text \<open>The runs are sequences of steps of the machine.\<close>

lemma ex_reach3: "queue_reachable 2 (queue_start 2 4 2 0 0) ex_s3"
proof -
  let ?s = "\<lambda>q hs c. \<lparr>qs_queue = q, qs_handles = hs, qs_confirmed = c, qs_lost = {}\<rparr>"
  let ?init = "queue_start 2 4 2 0 0"
  have upd: "?init\<lparr>qs_queue := q, qs_lost := qs_lost ?init \<union> {0..<0}\<rparr> = ?s q [] {}" for q
    by (simp add: queue_start_def)
  have "no_wrap 2 (qs_queue ?init)" by (simp add: no_wrap_def ex_writes)
  moreover have "queue_enqueue (qs_queue ?init) = (fst (queue_enqueue (qs_queue ?init)), ex_q1)"
    by (simp add: ex_q1_def)
  ultimately have "queue_step 2 ?init (?s ex_q1 [] {})"
    using queue_step.enqueue [of 2 ?init "fst (queue_enqueue (qs_queue ?init))" ex_q1]
    unfolding ex_lows upd by blast
  note r1 = queue_reachable.step [OF queue_reachable.init this]
  have "queue_step 2 (?s ex_q1 [] {}) (?s ex_q2 [] {})"
    using queue_step.enqueue [of 2 "?s ex_q1 [] {}" "fst (queue_enqueue ex_q1)" ex_q2]
    by (simp add: no_wrap_def ex_writes ex_lows) (simp add: ex_q2_def)
  note r2 = queue_reachable.step [OF r1 this]
  have "queue_step 2 (?s ex_q2 [] {}) (?s ex_q3 [0] {})"
    using queue_step.peek [of 2 "?s ex_q2 [] {}"] ex_peeks(1) by (simp add: confirm_handle_new_def)
  from queue_reachable.step [OF r2 this] show ?thesis by (simp add: ex_s3_def)
qed

lemma ex_reach6: "queue_reachable 2 (queue_start 2 4 2 0 0) ex_s6"
proof -
  let ?s = "\<lambda>q hs c. \<lparr>qs_queue = q, qs_handles = hs, qs_confirmed = c, qs_lost = {}\<rparr>"
  have "queue_step 2 ex_s3 (?s ex_q4 [] {0})"
    using queue_step.confirm [of 0 ex_s3 2] by (simp add: ex_s3_def ex_q4_def)
  note r4 = queue_reachable.step [OF ex_reach3 this]
  have "queue_step 2 (?s ex_q4 [] {0}) (?s ex_q5 [1] {0})"
    using queue_step.peek [of 2 "?s ex_q4 [] {0}"] ex_peeks(2) by (simp add: confirm_handle_new_def)
  note r5 = queue_reachable.step [OF r4 this]
  have "queue_step 2 (?s ex_q5 [1] {0}) (?s (handle_drop 2 (confirm_handle_new 1) ex_q5) [] {0})"
    using queue_step.abort [of 1 "?s ex_q5 [1] {0}" 2] by simp
  note r6 = queue_reachable.step [OF r5 this]
  have "queue_step 2 (?s (handle_drop 2 (confirm_handle_new 1) ex_q5) [] {0}) ex_s6"
    using queue_step.peek [of 2 "?s (handle_drop 2 (confirm_handle_new 1) ex_q5) [] {0}"] ex_peeks(3)
    by (simp add: confirm_handle_new_def ex_s6_def)
  from queue_reachable.step [OF r6 this] show ?thesis .
qed

lemma ex_reach7: "queue_reachable 2 (queue_start 2 4 2 0 0) ex_s7"
proof -
  have "queue_step 2 ex_s6 ex_s7"
    using queue_step.confirm [of 1 ex_s6 2] by (simp add: ex_s6_def ex_s7_def)
  from queue_reachable.step [OF ex_reach6 this] show ?thesis .
qed

lemma ex_after7:
  "queue_peek_next 2 (qs_queue ex_s7) = (Err RB_Empty, snd (queue_peek_next 2 (qs_queue ex_s7)))"
  "queue_is_drained 2 (qs_queue ex_s7) = (True, snd (queue_is_drained 2 (qs_queue ex_s7)))"
  "q_write_index (qs_queue ex_s7) = 2"
  by code_simp+

section \<open>Properties\<close>

text \<open>
  C4. At least once: in every state that any sequence of enqueues, peeks, confirmations, aborts
  and waits can reach (before the 32-bit counters wrap), each item below the read lower bound,
  which is what the stream store deletes from flash, was confirmed by its reader or lost to a
  circular overwrite.
\<close>

theorem queue_at_least_once:
  assumes "start_ok P cap g a b" and "queue_reachable P (queue_start P cap g a b) s"
    and "unat a \<le> m" and "m < low (qs_queue s)"
  shows "m \<in> qs_confirmed s \<union> qs_lost s"
  using reachable_ok [OF assms(1,2)] assms(3,4) by (simp add: queue_ok_def ghost_ok_def)

theorem queue_at_least_once_witness: "0 \<in> qs_confirmed ex_s6 \<union> qs_lost ex_s6"
  using queue_at_least_once [OF ex_start_ok ex_reach6, of 0] ex_lows(4) by (simp add: ex_s6_def)

text \<open>
  Handles and messages: in every reachable state the open handles and the messages in the
  confirm channel are for pairwise different items, at most \<open>MAX_PEEKS\<close> in all, and each of
  these items is marked busy in its own slot. So no item is handed to two readers at once, and
  the branch of \<open>update\<close> for an unexpected confirmation is never taken.
\<close>

theorem handles_and_messages_unique:
  assumes "start_ok P cap g a b" and "queue_reachable P (queue_start P cap g a b) s"
  shows "distinct (qs_handles s @ map cf_id (q_channel (qs_queue s)))
    \<and> length (qs_handles s) + length (q_channel (qs_queue s)) \<le> P
    \<and> (\<forall>n \<in> set (qs_handles s) \<union> cf_id ` set (q_channel (qs_queue s)).
         pq_slots (q_readers (qs_queue s)) ! (unat n mod P) = RS_Busy n)"
proof -
  note ok = reachable_ok [OF assms]
  have inv: "pq_inv P (q_write_index (qs_queue s)) (q_readers (qs_queue s))"
    and ho: "handles_ok P (qs_queue s) (qs_handles s)" using ok by (simp_all add: queue_ok_def)
  have "set (qs_handles s) \<union> cf_id ` set (q_channel (qs_queue s)) = busy_items P (q_readers (qs_queue s))"
    using ho by (simp add: handles_ok_def)
  then show ?thesis
    using ho channel_room [OF ok] busy_iff [OF inv] by (auto simp: handles_ok_def)
qed

theorem handles_and_messages_unique_witness:
  "length (qs_handles ex_s6) + length (q_channel (qs_queue ex_s6)) \<le> 2
   \<and> pq_slots (q_readers (qs_queue ex_s6)) ! 1 = RS_Busy 1"
  using handles_and_messages_unique [OF ex_start_ok ex_reach6] by (simp add: ex_s6_def)

text \<open>
  No confirmation is dropped: in every reachable state, confirming or dropping an open handle
  finds room in the bounded channel, so its message is queued.
\<close>

theorem confirmation_not_dropped:
  assumes "start_ok P cap g a b" and "queue_reachable P (queue_start P cap g a b) s"
    and "n \<in> set (qs_handles s)"
  shows "q_channel (handle_confirm P (confirm_handle_new n) (qs_queue s))
      = q_channel (qs_queue s) @ [\<lparr>cf_id = n, cf_success = True\<rparr>]
    \<and> q_channel (handle_drop P (confirm_handle_new n) (qs_queue s))
      = q_channel (qs_queue s) @ [\<lparr>cf_id = n, cf_success = False\<rparr>]"
proof -
  note ok = reachable_ok [OF assms(1,2)]
  have "queue_ok P (unat a) (qs_queue s) (qs_handles s) (insert (unat n) (qs_confirmed s)) (qs_lost s)"
    by (rule queue_ok_more [OF ok]) auto
  from send_ok(2) [OF this assms(3), of True] send_ok(2) [OF ok assms(3), of False]
  show ?thesis by (simp add: handle_send)
qed

theorem confirmation_not_dropped_witness:
  "q_channel (handle_confirm 2 (confirm_handle_new 0) ex_q3)
     = q_channel ex_q3 @ [\<lparr>cf_id = 0, cf_success = True\<rparr>]"
  using confirmation_not_dropped [OF ex_start_ok ex_reach3, of 0] by (simp add: ex_s3_def)

text \<open>
  C29. \<open>find_reader\<close>: the result is never \<open>Unknown\<close>, the \<open>2 * MAX_PEEKS\<close> rounds always suffice. A
  sequence number it returns is either the next one never handed out before, or that of an
  aborted read still in range, and is then marked busy; it blocks only on a busy reader or, with
  the lower bound at the write position, on an empty queue. The invariant of the slots is kept,
  and no unconfirmed item in range loses its slot.
\<close>

theorem find_reader_result:
  assumes inv: "pq_inv P w q" and fr: "find_reader P w q = (r, q')"
  shows "pq_inv P w q'
    \<and> (case r of
         Ok n \<Rightarrow> pq_slots q' ! (unat n mod P) = RS_Busy n
           \<and> (n = pq_next q \<and> n \<noteq> w \<and> pq_next q' = n + 1
              \<or> pq_slots q ! (unat n mod P) = RS_Abort n \<and> unat (pq_min q) \<le> unat n \<and> pq_next q' = pq_next q)
       | Err RB_Busy \<Rightarrow> pq_next q' = pq_next q \<and> busy_items P q \<noteq> {}
       | Err RB_Empty \<Rightarrow> pq_next q = w \<and> pq_next q' = w \<and> pq_min q' = w
       | Err RB_Unknown \<Rightarrow> False)
    \<and> (\<forall>n. slot_item (pq_slots q ! (unat n mod P)) = Some n \<and> unat (pq_min q) \<le> unat n \<longrightarrow>
         slot_item (pq_slots q' ! (unat n mod P)) = Some n \<and> unat (pq_min q') \<le> unat n)"
proof -
  note P = pq_invD(1) [OF inv]
  have keep: "slot_item (pq_slots q2 ! (unat n mod P)) = Some n \<and> unat (pq_min q2) \<le> unat n"
    if "quiet P q q2" "slot_item (pq_slots q ! (unat n mod P)) = Some n" "unat (pq_min q) \<le> unat n" for q2 n
    using quiet_slot [OF that(1), of "unat n mod P"] quiet_confirmed [OF that(1,3)] that(2,3) P
    by (cases "unat (pq_min q2) \<le> unat n") auto
  have kept: "slot_item ((pq_slots q2)[unat i mod P := RS_Busy i] ! (unat n mod P)) = Some n
      \<and> unat (pq_min q2) \<le> unat n"
    if "quiet P q q2" "slot_item (pq_slots q ! (unat n mod P)) = Some n" "unat (pq_min q) \<le> unat n"
      and "slot_item (pq_slots q2 ! (unat i mod P)) \<in> {None, Some i}" "length (pq_slots q2) = P" for q2 n i
    using keep [OF that(1-3)] that(4,5) P by (cases "unat n mod P = unat i mod P") auto
  from inv fr show ?thesis
  proof (cases rule: find_reader_cases)
    case (new q2)
    then show ?thesis using kept [OF new(1), of _ "pq_next q"] P by auto
  next
    case (retry q2 n)
    have "slot_item (pq_slots q2 ! (unat n mod P)) = Some n" using keep [OF retry(1)] retry(3,4) by simp
    then show ?thesis using retry kept [OF retry(1), of _ n] P quiet_next [OF retry(1)] by auto
  next
    case (busy j n)
    then have "n \<in> busy_items P q" by (auto simp: busy_items_def)
    then show ?thesis using busy keep [OF busy(1)] quiet_next [OF busy(1)] by auto
  next
    case empty
    then show ?thesis using keep [OF empty(1)] quiet_next [OF empty(1)] by auto
  qed
qed

theorem find_reader_result_witness:
  "\<exists>q'. find_reader 2 2 (q_readers ex_q3) = (Ok 1, q') \<and> pq_slots q' ! 1 = RS_Busy 1 \<and> pq_next q' = 2"
proof -
  have w: "q_write_index ex_q3 = 2" by code_simp
  have inv: "pq_inv 2 2 (q_readers ex_q3)"
    using reachable_ok [OF ex_start_ok ex_reach3] w by (simp add: queue_ok_def ex_s3_def)
  have fr: "find_reader 2 2 (q_readers ex_q3) = (Ok 1, snd (find_reader 2 2 (q_readers ex_q3)))"
    and ab: "pq_slots (q_readers ex_q3) ! 1 \<noteq> RS_Abort 1" by code_simp+
  from find_reader_result [OF inv fr] ab fr show ?thesis by auto
qed

text \<open>
  C30. Progress: when no reader holds a handle, \<open>peek_next\<close> hands out an item, unless every item
  from the start up to the write position was confirmed or lost to an overwrite.
\<close>

theorem peek_next_progress:
  assumes "start_ok P cap g a b" and "queue_reachable P (queue_start P cap g a b) s"
    and "qs_handles s = []" and "queue_peek_next P (qs_queue s) = (r, q')"
  shows "(\<exists>h. r = Ok h) \<or> r = Err RB_Empty
    \<and> {unat a..<unat (q_write_index (qs_queue s))} \<subseteq> qs_confirmed s \<union> qs_lost s"
proof -
  let ?q = "qs_queue s"
  note ok = reachable_ok [OF assms(1,2)]
  show ?thesis
  proof (cases "unconfirmed_count ?q = 0")
    case True
    then have "low ?q = unat (q_write_index ?q)" by (simp add: unconfirmed_count_def)
    then show ?thesis
      using ok True assms(4) by (auto simp: queue_peek_next_def queue_ok_def ghost_ok_def)
  next
    case False
    let ?u = "update_reader_slots P ?q"
    have ok1: "queue_ok P (unat a) ?u [] (qs_confirmed s) (qs_lost s)"
      using update_reader_slots_ok [OF ok] assms(3) by simp
    then have inv: "pq_inv P (q_write_index ?q) (q_readers ?u)" and nb: "busy_items P (q_readers ?u) = {}"
      by (simp_all add: queue_ok_def handles_ok_def update_reader_slots_def)
    obtain r1 rd where fr: "find_reader P (q_write_index ?q) (q_readers ?u) = (r1, rd)" by fastforce
    then have pk: "r = (case r1 of Ok n \<Rightarrow> Ok (confirm_handle_new n) | Err b \<Rightarrow> Err b)" "q' = ?u\<lparr>q_readers := rd\<rparr>"
      using assms(4) False
      by (auto simp: queue_peek_next_def try_alloc_reader_def update_reader_slots_def split: sum.splits)
    have ok2: "queue_ok P (unat a) q' (case r of Ok h \<Rightarrow> [ch_id h] | Err b \<Rightarrow> []) (qs_confirmed s) (qs_lost s)"
      using peek_next_ok [OF ok assms(4)] unfolding assms(3) .
    from inv fr show ?thesis
    proof (cases rule: find_reader_cases)
      case (busy j n)
      then show ?thesis using nb by (auto simp: busy_items_def)
    next
      case empty
      then show ?thesis using ok2 pk by (auto simp: queue_ok_def ghost_ok_def)
    qed (use pk in auto)
  qed
qed

theorem peek_next_progress_witness: "{0..<2} \<subseteq> qs_confirmed ex_s7 \<union> qs_lost ex_s7"
  using peek_next_progress [OF ex_start_ok ex_reach7 _ ex_after7(1)] by (simp add: ex_s7_def ex_after7(3) [unfolded ex_s7_def, simplified])

text \<open>
  \<open>is_drained\<close> is sound: in every reachable state, if it returns true, then every item from the
  start up to the write position was confirmed or lost to an overwrite, and no reader is left
  with an open handle.
\<close>

theorem is_drained_sound:
  assumes "start_ok P cap g a b" and "queue_reachable P (queue_start P cap g a b) s"
    and "queue_is_drained P (qs_queue s) = (True, q')"
  shows "{unat a..<unat (q_write_index (qs_queue s))} \<subseteq> qs_confirmed s \<union> qs_lost s \<and> qs_handles s = []"
  by (rule drained_ok [OF reachable_ok [OF assms(1,2)] assms(3)])

theorem is_drained_sound_witness: "{0..<2} \<subseteq> qs_confirmed ex_s7 \<union> qs_lost ex_s7"
  using is_drained_sound [OF ex_start_ok ex_reach7 ex_after7(2)] by (simp add: ex_after7(3))

end
