(* ===== verification/Flash_Db.thy ===== *)
theory Flash_Db
  imports Block_Layer
begin

text \<open>
  The database on top of the block layer, \<open>storage/flash_db.rs\<close>: the storage objects and their
  derived sizes, the database errors and the conversions into them, locking through the spare
  block, deletion and the preparation of a block for writing. The state of \<open>Database\<close> is its
  block device; the other fields of the struct are type markers.

  \<open>E_Panic\<close> is not a value of the source's error type: it is the panic of an integer division
  by zero, which ends the call.
\<close>

section \<open>Errors\<close>

datatype db_error =
    E_Flash | E_InvalidObject | E_CorruptOutOfBounds | E_Corrupt | E_CorruptStream
  | E_NoSpaceAvailable | E_NotFound | E_BufferTooSmall | E_InternalError | E_FragmentExists
  | E_FragmentTooLarge | E_FragmentNotFound | E_FragmentNotWriteable | E_WriteFailedVerify
  | E_FileNotReadable | E_FragmentNotReadable | E_Panic

fun db_error_of_flash :: "'e flash_error \<Rightarrow> db_error" where
  "db_error_of_flash FE_BlockOutOfBounds = E_CorruptOutOfBounds"
| "db_error_of_flash (FE_Flash _) = E_Flash"

fun db_error_of_read :: "'e flash_read_error \<Rightarrow> db_error" where
  "db_error_of_read (FR_Flash _) = E_Flash"
| "db_error_of_read (FR_Read RK_FragmentEmpty) = E_FragmentNotReadable"
| "db_error_of_read (FR_Read RK_FragmentInvalid) = E_FragmentNotReadable"
| "db_error_of_read (FR_Read RK_FragmentObsolete) = E_FragmentNotReadable"
| "db_error_of_read (FR_Read RK_FragmentNotFound) = E_FragmentNotFound"
| "db_error_of_read (FR_Read RK_BlockInvalid) = E_FragmentNotReadable"
| "db_error_of_read (FR_Read RK_BlockOutOfBounds) = E_CorruptOutOfBounds"
| "db_error_of_read (FR_Read RK_Flash) = E_Flash"

fun db_error_of_write :: "'e flash_write_error \<Rightarrow> db_error" where
  "db_error_of_write (FW_Flash _) = E_Flash"
| "db_error_of_write (FW_Write WK_FragmentNotFound) = E_FragmentNotFound"
| "db_error_of_write (FW_Write WK_BlockInvalid) = E_FragmentNotWriteable"
| "db_error_of_write (FW_Write WK_FragmentInvalid) = E_FragmentNotWriteable"
| "db_error_of_write (FW_Write WK_FragmentObsolete) = E_FragmentNotWriteable"
| "db_error_of_write (FW_Write WK_FragmentExists) = E_FragmentNotWriteable"
| "db_error_of_write (FW_Write WK_FragmentTooLarge) = E_FragmentTooLarge"
| "db_error_of_write (FW_Write WK_VerifyFailed) = E_WriteFailedVerify"
| "db_error_of_write (FW_Write WK_BlockOutOfBounds) = E_CorruptOutOfBounds"
| "db_error_of_write (FW_Write WK_Flash) = E_Flash"

section \<open>Objects\<close>

text \<open>
  An implementation of the trait \<open>Object\<close>: its constant answers. \<open>flash_blocks\<close> is the range
  \<open>obj_start..obj_end\<close>; \<open>obj_capacity\<close> is the override of \<open>capacity\<close>, if the implementer has one.
\<close>

record object =
  obj_id :: u16
  obj_fragment_size :: nat
  obj_start :: u32
  obj_end :: u32
  obj_capacity :: "nat option"

definition RESERVED_BLOCKS_PER_FILE :: nat where
  [simp]: "RESERVED_BLOCKS_PER_FILE = 1"

definition MAX_FRAGMENTS_PER_OBJECT :: nat where
  "MAX_FRAGMENTS_PER_OBJECT = 0x7FFFFFFF"

definition block_count :: "('a) object_scheme \<Rightarrow> nat" where
  "block_count ob = unat (obj_end ob - obj_start ob)"

definition spare_block :: "('a) object_scheme \<Rightarrow> u32" where
  "spare_block ob = (if obj_end ob = 0 then 0 else obj_end ob - 1)"

definition u32_range :: "u32 \<Rightarrow> u32 \<Rightarrow> u32 list" where
  "u32_range a b = map of_nat [unat a..<unat b]"

definition flash_blocks :: "('a) object_scheme \<Rightarrow> u32 list" where
  "flash_blocks ob = u32_range (obj_start ob) (obj_end ob)"

definition flash_blocks_except_spare :: "('a) object_scheme \<Rightarrow> u32 list" where
  "flash_blocks_except_spare ob = u32_range (obj_start ob) (spare_block ob)"

definition fragments_per_block :: "nat \<Rightarrow> ('a) object_scheme \<Rightarrow> nat" where
  "fragments_per_block B ob = calculate_fragments_per_block B (obj_fragment_size ob)"

definition fragment_count :: "nat \<Rightarrow> ('a) object_scheme \<Rightarrow> nat" where
  "fragment_count B ob =
     min MAX_FRAGMENTS_PER_OBJECT
       (fragments_per_block B ob * usize_sub (block_count ob) RESERVED_BLOCKS_PER_FILE)"

definition obj_capacity_bytes :: "nat \<Rightarrow> ('a) object_scheme \<Rightarrow> nat" where
  "obj_capacity_bytes B ob = (case obj_capacity ob of
       Some c \<Rightarrow> c
     | None \<Rightarrow> fragment_count B ob * obj_fragment_size ob)"

datatype init_status = InitNew | InitExisting

section \<open>Locking\<close>

datatype lock_status = Unlocked u8 | Locked

datatype lock_mode = LockSpare

datatype delete_mode = EraseSkipSpare | EraseLockSpare | SoftVersion

fun delete_mode_lock_mode :: "delete_mode \<Rightarrow> lock_mode option" where
  "delete_mode_lock_mode EraseSkipSpare = None"
| "delete_mode_lock_mode EraseLockSpare = Some LockSpare"
| "delete_mode_lock_mode SoftVersion = None"

definition lock_status_of ::
  "('f, 'e) nor_flash \<Rightarrow> nat \<Rightarrow> ('a) object_scheme \<Rightarrow> lock_mode
   \<Rightarrow> ('f block_device, lock_status, db_error) action" where
  "lock_status_of F B ob mode = (case mode of LockSpare \<Rightarrow>
     and_then (map_err db_error_of_flash (block_header F B (spare_block ob))) (\<lambda>hdr. case hdr of
         None \<Rightarrow> ret Locked
       | Some spare \<Rightarrow>
           if obj_id ob \<noteq> bh_object_id spare then throw E_Corrupt
           else and_then
                  (map_err db_error_of_read (fragment_status F B spare (bh_first_frag_no spare)))
                  (\<lambda>status. if Empty \<noteq> status then ret Locked
                            else ret (Unlocked (bh_object_version spare)))))"

definition lock ::
  "('f, 'e) nor_flash \<Rightarrow> nat \<Rightarrow> ('a) object_scheme \<Rightarrow> lock_mode
   \<Rightarrow> ('f block_device, unit, db_error) action" where
  "lock F B ob mode =
     and_then (map_err db_error_of_flash (block_header F B (spare_block ob))) (\<lambda>spare_header.
       case mode of LockSpare \<Rightarrow>
         (case spare_header of
            Some spare \<Rightarrow>
              map_err db_error_of_write (delete_fragment F B spare (bh_first_frag_no spare))
          | None \<Rightarrow> ret ()))"

definition unlock ::
  "('f, 'e) nor_flash \<Rightarrow> nat \<Rightarrow> ('a) object_scheme \<Rightarrow> lock_mode \<Rightarrow> u8
   \<Rightarrow> ('f block_device, unit, db_error) action" where
  "unlock F B ob mode object_version =
     attempt (lock_status_of F B ob mode) (\<lambda>st. case st of
         Ok (Unlocked _) \<Rightarrow> ret ()
       | _ \<Rightarrow> (case mode of LockSpare \<Rightarrow>
           map_err db_error_of_write
             (format_block F B (spare_block ob) (obj_id ob) object_version
                (of_nat (obj_fragment_size ob)) 0)))"

section \<open>Deletion\<close>

text \<open>
  The versions and erase counts collected from the headers of the first and the spare block.
  Both rounds of the source's loop assign to index 0, so the second header found wins.
\<close>

fun delete_scan :: "u32 \<Rightarrow> (block_hdr option, 'x) result list \<Rightarrow> u8 \<times> u32 \<Rightarrow> u8 \<times> u32" where
  "delete_scan tot [] acc = acc"
| "delete_scan tot (r # rs) acc = delete_scan tot rs (case r of
       Ok (Some header) \<Rightarrow> (bh_object_version header, bh_first_frag_no header div tot)
     | _ \<Rightarrow> acc)"

definition newest_version :: "u8 \<Rightarrow> u8 \<Rightarrow> u8" where
  "newest_version v0 v1 =
     (let max_version = max v0 v1; min_version = min v0 v1
      in if max_version - min_version > 128 then min_version else max_version)"

fun delete_soft_loop ::
  "('f, 'e) nor_flash \<Rightarrow> nat \<Rightarrow> ('a) object_scheme \<Rightarrow> u32 \<Rightarrow> u8 \<Rightarrow> (u32 \<times> u32) list
   \<Rightarrow> ('f block_device, unit, db_error) action" where
  "delete_soft_loop F B ob tot next_version [] = ret ()"
| "delete_soft_loop F B ob tot next_version ((block_to_erase, n_erased) # rest) =
     (let first_frag_no_for_block = block_to_erase * of_nat (fragments_per_block B ob)
      in and_then (map_err db_error_of_write
             (format_block F B block_to_erase (obj_id ob) next_version
                (of_nat (obj_fragment_size ob))
                (first_frag_no_for_block + (n_erased + 1) * tot)))
           (\<lambda>_. delete_soft_loop F B ob tot next_version rest))"

text \<open>Whether a block of the object must be formatted, and how often it has been.\<close>

definition needs_format ::
  "('f, 'e) nor_flash \<Rightarrow> nat \<Rightarrow> ('a) object_scheme \<Rightarrow> u32 \<Rightarrow> u32
   \<Rightarrow> ('f block_device, bool \<times> u32, db_error) action" where
  "needs_format F B ob tot blk =
     (let first_frag_no_for_block = blk * of_nat (fragments_per_block B ob)
      in and_then (map_err db_error_of_flash (block_header F B blk)) (\<lambda>hdr. case hdr of
             None \<Rightarrow> ret (True, 0)
           | Some header \<Rightarrow>
               if bh_object_id header = obj_id ob then
                 (let n_erased = bh_first_frag_no header div tot
                  in if fragment_size header = obj_fragment_size ob
                        \<and> bh_first_frag_no header mod tot = first_frag_no_for_block
                     then and_then (map_err db_error_of_read (block_is_empty F B header))
                            (\<lambda>empty. ret (\<not> empty, n_erased))
                     else ret (True, n_erased))
               else ret (True, 0)))"

fun delete_erase_loop ::
  "('f, 'e) nor_flash \<Rightarrow> nat \<Rightarrow> ('a) object_scheme \<Rightarrow> delete_mode \<Rightarrow> u32 \<Rightarrow> u8 \<Rightarrow> nat \<Rightarrow> u32 list
   \<Rightarrow> ('f block_device, unit, db_error) action" where
  "delete_erase_loop F B ob mode tot next_version format_count [] = ret ()"
| "delete_erase_loop F B ob mode tot next_version format_count (blk # rest) =
     (if mode = EraseSkipSpare \<and> blk = spare_block ob
      then delete_erase_loop F B ob mode tot next_version format_count rest
      else and_then (needs_format F B ob tot blk) (\<lambda>(format, n_erased).
        if format then
          and_then (if format_count = 0
                    then (case delete_mode_lock_mode mode of
                            Some lm \<Rightarrow> lock F B ob lm
                          | None \<Rightarrow> ret ())
                    else ret ()) (\<lambda>_.
          and_then (map_err db_error_of_write
              (format_block F B blk (obj_id ob) next_version (of_nat (obj_fragment_size ob))
                 (blk * of_nat (fragments_per_block B ob) + (n_erased + 1) * tot)))
            (\<lambda>_. delete_erase_loop F B ob mode tot next_version (Suc format_count) rest))
        else delete_erase_loop F B ob mode tot next_version format_count rest))"

definition delete_object ::
  "('f, 'e) nor_flash \<Rightarrow> nat \<Rightarrow> ('a) object_scheme \<Rightarrow> delete_mode
   \<Rightarrow> ('f block_device, unit, db_error) action" where
  "delete_object F B ob mode =
     (let total_frag_count = of_nat (fragment_count B ob) :: u32
      in if total_frag_count = 0 then throw E_InvalidObject
         else
           attempt (block_header F B (obj_start ob)) (\<lambda>first_header.
           attempt (block_header F B (spare_block ob)) (\<lambda>spare_header.
           let (version0, n_erased0) =
                 delete_scan total_frag_count [first_header, spare_header] (0xFF, 0);
               object_next_version = newest_version version0 0xFF + 1
           in if mode = SoftVersion
              then delete_soft_loop F B ob total_frag_count object_next_version
                     [(obj_start ob, n_erased0), (spare_block ob, 0)]
              else delete_erase_loop F B ob mode total_frag_count object_next_version 0
                     (flash_blocks ob))))"

definition is_writeable :: "('a) object_scheme \<Rightarrow> u8 \<Rightarrow> block_hdr \<Rightarrow> bool" where
  "is_writeable ob version blk \<longleftrightarrow>
     obj_fragment_size ob = fragment_size blk \<and> bh_object_version blk = version"

definition prepare_writeable_block ::
  "('f, 'e) nor_flash \<Rightarrow> nat \<Rightarrow> ('a) object_scheme \<Rightarrow> u32 \<Rightarrow> u8
   \<Rightarrow> ('f block_device, block_hdr, db_error) action" where
  "prepare_writeable_block F B ob block_no version =
     (let first_frag_no_for_block = block_no * of_nat (fragments_per_block B ob);
          total_frag_count = of_nat (max (fragment_count B ob) 1) :: u32;
          format_and_check = (\<lambda>n_erased.
            and_then (map_err db_error_of_write
                (format_block F B block_no (obj_id ob) version (of_nat (obj_fragment_size ob))
                   (first_frag_no_for_block + (n_erased + 1) * total_frag_count))) (\<lambda>_.
            and_then (map_err db_error_of_flash (block_header F B block_no)) (\<lambda>hdr. case hdr of
                Some blk \<Rightarrow> if is_writeable ob version blk then ret blk else throw E_WriteFailedVerify
              | None \<Rightarrow> throw E_WriteFailedVerify)))
      in and_then (map_err db_error_of_flash (block_header F B block_no)) (\<lambda>hdr. case hdr of
             Some blk \<Rightarrow> if is_writeable ob version blk then ret blk
                         else format_and_check (bh_first_frag_no blk div total_frag_count)
           | None \<Rightarrow> format_and_check 0))"

section \<open>Code equation\<close>

text \<open>Evaluation compares the fragment count with its limit as integers, in binary.\<close>

lemma fragment_count_code [code]:
  "fragment_count B ob =
     (let n = fragments_per_block B ob * usize_sub (block_count ob) RESERVED_BLOCKS_PER_FILE
      in if int n \<le> 0x7FFFFFFF then n else MAX_FRAGMENTS_PER_OBJECT)"
  by (simp add: fragment_count_def MAX_FRAGMENTS_PER_OBJECT_def Let_def min_def)

end
