(* ===== verification/Circular_Store.thy ===== *)
theory Circular_Store
  imports Flash_Db
begin

text \<open>
  The circular store, \<open>storage/flash_db/circular_store.rs\<close>: fragments numbered by an ever
  increasing 32-bit sequence number, each with one fixed place in the blocks of the object;
  the scan that recovers the read and write positions after a restart; reading, writing and
  deleting a fragment.
\<close>

section \<open>Circular objects and ranges\<close>

record circular = object +
  overwrite_on_full :: bool
  auto_format :: bool

type_synonym seq_no = u32

record circular_range =
  cr_start :: seq_no
  cr_end :: seq_no

definition read_at :: "circular_range \<Rightarrow> seq_no" where
  "read_at r = cr_start r"

definition write_at :: "circular_range \<Rightarrow> seq_no" where
  "write_at r = cr_end r"

definition range_len :: "circular_range \<Rightarrow> nat" where
  "range_len r = unat (cr_end r - cr_start r)"

definition range_is_empty :: "circular_range \<Rightarrow> bool" where
  "range_is_empty r \<longleftrightarrow> range_len r = 0"

section \<open>The place of a fragment\<close>

text \<open>\<open>None\<close> is the panic of a division by zero.\<close>

definition find_block_no_for_seq_no :: "nat \<Rightarrow> circular \<Rightarrow> seq_no \<Rightarrow> u32 option" where
  "find_block_no_for_seq_no B c n =
     (let frag_count = of_nat (fragment_count B c) :: u32;
          per_block = of_nat (fragments_per_block B c) :: u32
      in if frag_count = 0 \<or> per_block = 0 then None
         else (let rel_frag_no = n mod frag_count; block_offset = rel_frag_no div per_block
               in Some (obj_start c + block_offset)))"

datatype find_fail = FF_NotFound block_hdr | FF_Corrupt block_hdr | FF_Other db_error

fun db_error_of_find_fail :: "find_fail \<Rightarrow> db_error" where
  "db_error_of_find_fail (FF_NotFound _) = E_FragmentNotFound"
| "db_error_of_find_fail (FF_Corrupt _) = E_Corrupt"
| "db_error_of_find_fail (FF_Other error) = error"

definition find_block_for_seq_no ::
  "('f, 'e) nor_flash \<Rightarrow> nat \<Rightarrow> circular \<Rightarrow> seq_no
   \<Rightarrow> ('f block_device, block_hdr option, find_fail) action" where
  "find_block_for_seq_no F B c n =
     (case find_block_no_for_seq_no B c n of
        None \<Rightarrow> throw (FF_Other E_Panic)
      | Some block_no \<Rightarrow>
          (let fragment_in_block = n mod of_nat (fragments_per_block B c)
           in and_then
                (map_err (\<lambda>err. FF_Other (db_error_of_flash err)) (block_header F B block_no))
                (\<lambda>hdr. case hdr of
                    None \<Rightarrow> ret None
                  | Some blk \<Rightarrow>
                      if obj_id c \<noteq> bh_object_id blk then throw (FF_Corrupt blk)
                      else if obj_fragment_size c \<noteq> fragment_size blk then throw (FF_Corrupt blk)
                      else if n \<noteq> bh_first_frag_no blk + fragment_in_block
                        then throw (FF_NotFound blk)
                      else ret (Some blk))))"

definition fragment_gte :: "seq_no \<Rightarrow> seq_no \<Rightarrow> bool" where
  "fragment_gte large small \<longleftrightarrow> large - small < of_nat MAX_FRAGMENTS_PER_OBJECT"

section \<open>Recovering the range\<close>

definition initialize_circular_store :: "('f block_device, unit, db_error) action" where
  "initialize_circular_store = ret ()"

text \<open>
  The search within one block, from its last fragment down: whether the block may contain data,
  and whether it was found to be empty.
\<close>

fun scan_fragments ::
  "('f, 'e) nor_flash \<Rightarrow> nat \<Rightarrow> block_hdr \<Rightarrow> nat list
   \<Rightarrow> ('f block_device, bool \<times> bool, db_error) action" where
  "scan_fragments F B blk [] = ret (False, False)"
| "scan_fragments F B blk (off # rest) =
     (let frag_in_block = last_fragment blk - of_nat off
      in and_then (map_err db_error_of_read (fragment_status F B blk frag_in_block)) (\<lambda>status.
         case status of
           Invalid \<Rightarrow> scan_fragments F B blk rest
         | Valid \<Rightarrow> ret (True, False)
         | Obsolete \<Rightarrow> ret (False, False)
         | Empty \<Rightarrow>
             and_then (map_err db_error_of_read (fragment_status F B blk (bh_first_frag_no blk)))
               (\<lambda>first_status. let is_empty = (first_status = Empty) in ret (\<not> is_empty, is_empty))))"

record range_scan =
  rs_data_blocks :: "(block_hdr \<times> block_hdr) option"
  rs_first_empty :: "block_hdr option"
  rs_highest :: "block_hdr option"
  rs_foreign :: nat

definition note_empty :: "block_hdr \<Rightarrow> range_scan \<Rightarrow> range_scan" where
  "note_empty blk s =
     (let first_empty = (case rs_first_empty s of Some x \<Rightarrow> x | None \<Rightarrow> blk)
      in s\<lparr>rs_first_empty := Some
             (if \<not> fragment_gte (bh_first_frag_no blk) (bh_first_frag_no first_empty)
              then blk else first_empty)\<rparr>)"

definition note_data :: "block_hdr \<Rightarrow> range_scan \<Rightarrow> range_scan" where
  "note_data blk s =
     (let (rd, wr) = (case rs_data_blocks s of Some x \<Rightarrow> x | None \<Rightarrow> (blk, blk));
          wr' = (if fragment_gte (bh_first_frag_no blk) (bh_first_frag_no wr) then blk else wr);
          rd' = (if \<not> fragment_gte (bh_first_frag_no blk) (bh_first_frag_no rd) then blk else rd)
      in s\<lparr>rs_data_blocks := Some (rd', wr')\<rparr>)"

definition note_highest :: "block_hdr \<Rightarrow> range_scan \<Rightarrow> range_scan" where
  "note_highest blk s =
     (let highest = (case rs_highest s of Some x \<Rightarrow> x | None \<Rightarrow> blk)
      in s\<lparr>rs_highest := Some
             (if fragment_gte (bh_first_frag_no blk) (bh_first_frag_no highest)
              then blk else highest)\<rparr>)"

fun scan_blocks ::
  "('f, 'e) nor_flash \<Rightarrow> nat \<Rightarrow> circular \<Rightarrow> u32 list \<Rightarrow> range_scan
   \<Rightarrow> ('f block_device, range_scan, db_error) action" where
  "scan_blocks F B c [] s = ret s"
| "scan_blocks F B c (blk_id # rest) s =
     and_then (map_err db_error_of_flash (block_header F B blk_id)) (\<lambda>hdr. case hdr of
         None \<Rightarrow> scan_blocks F B c rest s
       | Some blk \<Rightarrow>
           if bh_object_id blk \<noteq> obj_id c \<or> fragment_size blk \<noteq> obj_fragment_size c
           then scan_blocks F B c rest (s\<lparr>rs_foreign := Suc (rs_foreign s)\<rparr>)
           else
             and_then (scan_fragments F B blk [0..<bh_frag_count blk]) (\<lambda>(may_contain_data, is_empty).
               let s1 = (if is_empty then note_empty blk s else s);
                   s2 = (if may_contain_data then note_data blk s1 else s1)
               in scan_blocks F B c rest (note_highest blk s2)))"

text \<open>
  The first fragment of a block, from \<open>n\<close> on and among the next \<open>fuel\<close>, whose status does not
  satisfy \<open>skip\<close>; the bound is the \<open>for\<close> loop's own.
\<close>

fun skip_fragments ::
  "('f, 'e) nor_flash \<Rightarrow> nat \<Rightarrow> (fragment_status \<Rightarrow> bool) \<Rightarrow> block_hdr \<Rightarrow> nat \<Rightarrow> seq_no
   \<Rightarrow> ('f block_device, seq_no, db_error) action" where
  "skip_fragments F B skip blk 0 n = ret n"
| "skip_fragments F B skip blk (Suc fuel) n =
     and_then (map_err db_error_of_read (fragment_status F B blk n)) (\<lambda>status.
       if skip status then skip_fragments F B skip blk fuel (n + 1) else ret n)"

definition find_circular_range ::
  "('f, 'e) nor_flash \<Rightarrow> nat \<Rightarrow> circular \<Rightarrow> ('f block_device, circular_range, db_error) action" where
  "find_circular_range F B c =
     and_then (scan_blocks F B c (flash_blocks_except_spare c)
         \<lparr>rs_data_blocks = None, rs_first_empty = None, rs_highest = None, rs_foreign = 0\<rparr>) (\<lambda>s.
       case (rs_data_blocks s, rs_first_empty s, rs_highest s) of
         (Some (rd, wr), _, _) \<Rightarrow>
           and_then (skip_fragments F B (\<lambda>st. st \<in> {Invalid, Obsolete}) rd (bh_frag_count rd)
               (bh_first_frag_no rd)) (\<lambda>first_seq_no.
           and_then (skip_fragments F B (\<lambda>st. st \<in> {Valid, Invalid, Obsolete}) wr (bh_frag_count wr)
               (bh_first_frag_no wr)) (\<lambda>last_seq_no.
           ret \<lparr>cr_start = first_seq_no, cr_end = last_seq_no\<rparr>))
       | (None, Some empty_blk, _) \<Rightarrow>
           ret \<lparr>cr_start = bh_first_frag_no empty_blk, cr_end = bh_first_frag_no empty_blk\<rparr>
       | (None, None, Some highest) \<Rightarrow>
           (let to_be_erased = bh_first_frag_no highest + of_nat (bh_frag_count highest)
            in ret \<lparr>cr_start = to_be_erased, cr_end = to_be_erased\<rparr>)
       | (None, None, None) \<Rightarrow> ret \<lparr>cr_start = 0, cr_end = 0\<rparr>)"

section \<open>Reading, writing, deleting\<close>

definition read_circular_fragment_at_offset ::
  "('f, 'e) nor_flash \<Rightarrow> nat \<Rightarrow> circular \<Rightarrow> seq_no \<Rightarrow> nat \<Rightarrow> nat
   \<Rightarrow> ('f block_device, bytes, db_error) action" where
  "read_circular_fragment_at_offset F B c frag_no len off =
     and_then (map_err db_error_of_find_fail (find_block_for_seq_no F B c frag_no)) (\<lambda>found.
       case found of
         None \<Rightarrow> throw E_FragmentNotReadable
       | Some blk \<Rightarrow> map_err db_error_of_read (read_fragment_at_offset F B blk frag_no off len))"

definition read_circular_fragment ::
  "('f, 'e) nor_flash \<Rightarrow> nat \<Rightarrow> circular \<Rightarrow> seq_no \<Rightarrow> nat
   \<Rightarrow> ('f block_device, bytes, db_error) action" where
  "read_circular_fragment F B c frag_no len = read_circular_fragment_at_offset F B c frag_no len 0"

definition initialize_writeable_circular_store :: "('f block_device, init_status, db_error) action" where
  "initialize_writeable_circular_store = and_then initialize_circular_store (\<lambda>_. ret InitExisting)"

text \<open>
  The header of the block to write to: \<open>None\<close> if the block has to be formatted first.
\<close>

definition writable_block_header ::
  "('f, 'e) nor_flash \<Rightarrow> nat \<Rightarrow> circular \<Rightarrow> seq_no
   \<Rightarrow> ('f block_device, block_hdr option, db_error) action" where
  "writable_block_header F B c frag_no =
     attempt (find_block_for_seq_no F B c frag_no) (\<lambda>r. case r of
         Err (FF_NotFound blk) \<Rightarrow>
           if overwrite_on_full c then ret None
           else and_then (map_err db_error_of_read (block_find_valid_fragment F B blk)) (\<lambda>v.
                  if v = None then ret None else throw E_NoSpaceAvailable)
       | Err (FF_Corrupt blk) \<Rightarrow>
           if auto_format c then ret None else throw (db_error_of_find_fail (FF_Corrupt blk))
       | Err (FF_Other e) \<Rightarrow> throw e
       | Ok h \<Rightarrow> ret h)"

definition format_circular_block ::
  "('f, 'e) nor_flash \<Rightarrow> nat \<Rightarrow> circular \<Rightarrow> seq_no \<Rightarrow> ('f block_device, unit, db_error) action" where
  "format_circular_block F B c frag_no =
     (case find_block_no_for_seq_no B c frag_no of
        None \<Rightarrow> throw E_Panic
      | Some block_id \<Rightarrow>
          if frag_no mod of_nat (fragments_per_block B c) \<noteq> 0 then throw E_FragmentNotWriteable
          else map_err db_error_of_write
                 (format_block F B block_id (obj_id c) 0xFF (of_nat (obj_fragment_size c)) frag_no))"

fun write_circular_attempts ::
  "('f, 'e) nor_flash \<Rightarrow> nat \<Rightarrow> circular \<Rightarrow> seq_no \<Rightarrow> bytes \<Rightarrow> nat list
   \<Rightarrow> ('f block_device, unit, db_error) action" where
  "write_circular_attempts F B c frag_no data [] = throw E_FragmentNotWriteable"
| "write_circular_attempts F B c frag_no data (attempt_no # rest) =
     and_then (writable_block_header F B c frag_no) (\<lambda>block_header. case block_header of
         Some blk \<Rightarrow> map_err db_error_of_write (write_fragment F B blk frag_no data)
       | None \<Rightarrow>
           if attempt_no = 0
           then and_then (format_circular_block F B c frag_no)
                  (\<lambda>_. write_circular_attempts F B c frag_no data rest)
           else throw E_FragmentNotWriteable)"

definition write_circular_fragment ::
  "('f, 'e) nor_flash \<Rightarrow> nat \<Rightarrow> circular \<Rightarrow> seq_no \<Rightarrow> bytes
   \<Rightarrow> ('f block_device, unit, db_error) action" where
  "write_circular_fragment F B c frag_no data = write_circular_attempts F B c frag_no data [0..<2]"

definition delete_circular_fragment ::
  "('f, 'e) nor_flash \<Rightarrow> nat \<Rightarrow> circular \<Rightarrow> seq_no \<Rightarrow> ('f block_device, unit, db_error) action" where
  "delete_circular_fragment F B c frag_no =
     and_then (map_err db_error_of_find_fail (find_block_for_seq_no F B c frag_no)) (\<lambda>found.
       case found of
         Some blk \<Rightarrow> map_err db_error_of_write (delete_fragment F B blk frag_no)
       | None \<Rightarrow> ret ())"

end
