(* ===== verification/Circular_Correct.thy ===== *)
theory Circular_Correct
  imports Circular_Store Block_Progress
begin

text \<open>
  The circular store as a map from sequence numbers to fragments: where a fragment lives, what
  the store holds for a sequence number, and that reading, writing and deleting act on this
  map, whatever the flash does.
\<close>

section \<open>Places\<close>

definition circ_ok :: "nat \<Rightarrow> nat \<Rightarrow> circular \<Rightarrow> bool" where
  "circ_ok B tot c \<longleftrightarrow> 0 < obj_fragment_size c \<and> obj_fragment_size c < 2 ^ 16
     \<and> 0 < fragments_per_block B c
     \<and> unat (obj_start c) + 1 < unat (obj_end c) \<and> unat (obj_end c) \<le> tot
     \<and> fragments_per_block B c * (block_count c - 1) \<le> MAX_FRAGMENTS_PER_OBJECT"

definition circ_slot :: "nat \<Rightarrow> circular \<Rightarrow> seq_no \<Rightarrow> nat" where
  "circ_slot B c n = unat n mod fragments_per_block B c"

definition circ_block :: "nat \<Rightarrow> circular \<Rightarrow> seq_no \<Rightarrow> u32" where
  "circ_block B c n = obj_start c + of_nat (unat n mod fragment_count B c div fragments_per_block B c)"

text \<open>The header is one of this circular's, and it places the fragment in this block.\<close>

definition own :: "circular \<Rightarrow> block_hdr \<Rightarrow> bool" where
  "own c h \<longleftrightarrow> obj_id c = bh_object_id h \<and> obj_fragment_size c = fragment_size h"

definition places :: "nat \<Rightarrow> circular \<Rightarrow> seq_no \<Rightarrow> block_hdr \<Rightarrow> bool" where
  "places B c n h \<longleftrightarrow> own c h \<and> n = bh_first_frag_no h + n mod of_nat (fragments_per_block B c)"

text \<open>What the store holds for a sequence number.\<close>

definition circ_lookup :: "nat \<Rightarrow> circular \<Rightarrow> bytes \<Rightarrow> seq_no \<Rightarrow> bytes option" where
  "circ_lookup B c m n = (case stored_header B m (circ_block B c n) of
       None \<Rightarrow> None
     | Some h \<Rightarrow> if places B c n h \<and> stored_status B m h (circ_slot B c n) = Valid
                 then Some (stored_data B m h (circ_slot B c n)) else None)"

lemma circ_okD:
  assumes "circ_ok B tot c" and "tot < 2 ^ 32"
  shows "0 < obj_fragment_size c" "obj_fragment_size c < 2 ^ 16" "0 < fragments_per_block B c"
    "fragments_per_block B c < 2 ^ 32" "block_count c = unat (obj_end c) - unat (obj_start c)"
    "fragment_count B c = fragments_per_block B c * (block_count c - 1)"
    "0 < fragment_count B c" "fragment_count B c < 2 ^ 31"
proof -
  note c = assms(1) [unfolded circ_ok_def]
  show f: "0 < obj_fragment_size c" "obj_fragment_size c < 2 ^ 16" "0 < fragments_per_block B c" using c by auto
  have "unat (obj_start c) < unat (obj_end c)" using c by linarith
  then show bc: "block_count c = unat (obj_end c) - unat (obj_start c)"
    by (simp add: block_count_def unat_sub word_le_nat_alt)
  then have one: "1 \<le> block_count c - 1" using c by linarith
  show fc: "fragment_count B c = fragments_per_block B c * (block_count c - 1)"
    using c one by (simp add: fragment_count_def usize_sub_def)
  show "0 < fragment_count B c" unfolding fc using one f(3) by simp
  have "fragment_count B c \<le> MAX_FRAGMENTS_PER_OBJECT" unfolding fc using c by simp
  then show lt: "fragment_count B c < 2 ^ 31" by (simp add: MAX_FRAGMENTS_PER_OBJECT_def)
  have "fragments_per_block B c * 1 \<le> fragment_count B c" unfolding fc using one by (intro mult_le_mono) simp_all
  then show "fragments_per_block B c < 2 ^ 32" using lt by simp
qed

lemma unat_of_nat_small: "k < 2 ^ 32 \<Longrightarrow> unat (of_nat k :: u32) = k"
  by (simp add: unat_of_nat take_bit_nat_eq_self)

text \<open>Every sequence number has a block of the object, never the spare one.\<close>

lemma circ_block_range:
  assumes ok: "circ_ok B tot c" and tot: "tot < 2 ^ 32"
  shows "unat (circ_block B c n) = unat (obj_start c) + unat n mod fragment_count B c div fragments_per_block B c"
    and "unat (circ_block B c n) < unat (obj_end c) - 1" and "unat (circ_block B c n) < tot"
proof -
  note C = circ_okD [OF ok tot]
  let ?k = "unat n mod fragment_count B c div fragments_per_block B c"
  have "unat n mod fragment_count B c < fragments_per_block B c * (block_count c - 1)"
    using C(6,7) by (metis mod_less_divisor)
  then have k: "?k < block_count c - 1" by (simp add: less_mult_imp_div_less mult.commute)
  have e: "unat (obj_end c) \<le> tot" using ok by (simp add: circ_ok_def)
  have "unat (obj_start c) + ?k < 2 ^ 32" using k C(5) e tot by linarith
  then show u: "unat (circ_block B c n) = unat (obj_start c) + ?k"
    using C(5) k by (simp add: circ_block_def unat_word_ariths unat_of_nat take_bit_eq_mod)
  show "unat (circ_block B c n) < unat (obj_end c) - 1" and "unat (circ_block B c n) < tot"
    using u k C(5) e by linarith+
qed

lemma find_block_no_Some:
  assumes ok: "circ_ok B tot c" and tot: "tot < 2 ^ 32"
  shows "find_block_no_for_seq_no B c n = Some (circ_block B c n)"
proof -
  note C = circ_okD [OF ok tot]
  have fc: "unat (of_nat (fragment_count B c) :: u32) = fragment_count B c"
    and pb: "unat (of_nat (fragments_per_block B c) :: u32) = fragments_per_block B c"
    using C(4,8) by (simp_all add: unat_of_nat_small)
  let ?x = "n mod of_nat (fragment_count B c) div of_nat (fragments_per_block B c)"
  have "of_nat (unat ?x) = ?x" by simp
  moreover have "unat ?x = unat n mod fragment_count B c div fragments_per_block B c"
    by (simp add: unat_div_distrib unat_mod_distrib fc pb)
  ultimately have "?x = of_nat (unat n mod fragment_count B c div fragments_per_block B c)" by simp
  moreover have "of_nat (fragment_count B c) \<noteq> (0 :: u32)" "of_nat (fragments_per_block B c) \<noteq> (0 :: u32)"
    using fc pb C(3,7) by (metis less_numeral_extra(3) unsigned_0)+
  ultimately show ?thesis by (simp add: find_block_no_for_seq_no_def circ_block_def Let_def)
qed

text \<open>
  For a header that places \<open>n\<close>, the fragment's index in the block is the slot, and it exists.
\<close>

lemma places_rel:
  assumes ok: "circ_ok B tot c" and tot: "tot < 2 ^ 32" and h: "header_ok B tot h" and pl: "places B c n h"
  shows "rel_frag h n = circ_slot B c n" and "circ_slot B c n < bh_frag_count h"
    and "bh_frag_count h = fragments_per_block B c" and "fragment_size h = obj_fragment_size c"
proof -
  note C = circ_okD [OF ok tot]
  have n: "n = bh_first_frag_no h + n mod of_nat (fragments_per_block B c)" and ow: "own c h"
    using pl by (simp_all add: places_def)
  have "n - bh_first_frag_no h = n mod of_nat (fragments_per_block B c)"
    by (subst n) simp
  then show "rel_frag h n = circ_slot B c n"
    using C(4) by (simp add: rel_frag_def circ_slot_def unat_mod_distrib unat_of_nat_small)
  show fs: "fragment_size h = obj_fragment_size c" using ow by (simp add: own_def)
  show "bh_frag_count h = fragments_per_block B c"
    using h fs by (simp add: header_ok_def fragments_per_block_def)
  then show "circ_slot B c n < bh_frag_count h" using C(3) by (simp add: circ_slot_def)
qed

lemma places_fresh:
  assumes ok: "circ_ok B tot c" and tot: "tot < 2 ^ 32" and al: "n mod of_nat (fragments_per_block B c) = 0"
    and new: "block_header_try_new B block_id (obj_id c) v (of_nat (obj_fragment_size c)) n = Ok h"
  shows "places B c n h"
proof -
  have "unat (of_nat (obj_fragment_size c) :: u16) = obj_fragment_size c"
    using circ_okD(2) [OF ok tot] by (simp add: unat_of_nat take_bit_nat_eq_self)
  then show ?thesis
    using try_new_Ok [OF new] al by (simp add: places_def own_def fragment_size_def)
qed

text \<open>The header a fresh format gives; it always fits.\<close>

lemma circ_try_new:
  assumes ok: "circ_ok B tot c" and tot: "tot < 2 ^ 32"
  obtains h where "block_header_try_new B block_id (obj_id c) v (of_nat (obj_fragment_size c)) n = Ok h"
proof -
  have "unat (of_nat (obj_fragment_size c) :: u16) = obj_fragment_size c"
    using circ_okD(2) [OF ok tot] by (simp add: unat_of_nat take_bit_nat_eq_self)
  then have "calculate_fragments_per_block B (unat (of_nat (obj_fragment_size c) :: u16)) \<noteq> 0"
    using circ_okD(3) [OF ok tot] by (simp add: fragments_per_block_def)
  then show thesis using that by (simp add: block_header_try_new_def Let_def)
qed

section \<open>Finding the block of a fragment\<close>

context nor_flash_contract begin

lemma keeps_find_block [keeps]: "keeps_mem mem (find_block_for_seq_no F B c n)"
  unfolding find_block_for_seq_no_def Let_def
  by (cases "find_block_no_for_seq_no B c n") (auto intro!: keeps split: option.splits)

lemma find_block_result:
  assumes dok: "dok B d" and ok: "circ_ok B (bd_blocks_total d) c"
    and fb: "find_block_for_seq_no F B c n d = (r, d')"
  shows "case r of
      Ok None \<Rightarrow> stored_header B (stored d) (circ_block B c n) = None
    | Ok (Some h) \<Rightarrow> stored_header B (stored d) (circ_block B c n) = Some h \<and> places B c n h
    | Err (FF_NotFound h) \<Rightarrow> stored_header B (stored d) (circ_block B c n) = Some h \<and> own c h \<and> \<not> places B c n h
    | Err (FF_Corrupt h) \<Rightarrow> stored_header B (stored d) (circ_block B c n) = Some h \<and> \<not> own c h
    | Err (FF_Other e) \<Rightarrow> True"
proof -
  have tot: "bd_blocks_total d < 2 ^ 32" by (rule device_okD(6) [OF dok])
  note i = circ_block_range(3) [OF ok tot, of n]
  from fb have "and_then
      (map_err (\<lambda>err. FF_Other (db_error_of_flash err)) (block_header F B (circ_block B c n)))
      (\<lambda>hdr. case hdr of None \<Rightarrow> ret None
        | Some blk \<Rightarrow> if obj_id c \<noteq> bh_object_id blk then throw (FF_Corrupt blk)
            else if obj_fragment_size c \<noteq> fragment_size blk then throw (FF_Corrupt blk)
            else if n \<noteq> bh_first_frag_no blk + n mod of_nat (fragments_per_block B c)
              then throw (FF_NotFound blk) else ret (Some blk)) d = (r, d')"
    by (simp add: find_block_for_seq_no_def find_block_no_Some [OF ok tot] Let_def)
  then show ?thesis
  proof (cases rule: and_then_map_errE)
    case (ok ho d1)
    note h = block_header_Ok [OF dok i ok(1)]
    show ?thesis using ok(2) h by (auto simp: own_def places_def split: option.splits if_splits)
  qed simp
qed

end

section \<open>Reading\<close>

lemma seg_data:
  assumes "off \<le> fragment_size h"
  shows "seg (data_pos B h i + off) (min len (fragment_size h - off)) m = take len (drop off (stored_data B m h i))"
  using assms by (simp add: stored_data_def seg_def drop_take min.commute add.commute)

lemma seg_data_past:
  assumes "\<not> off \<le> fragment_size h"
  shows "seg (data_pos B h i + off) (min len (fragment_size h - off)) m = take len (drop off (stored_data B m h i))"
  using assms by (simp add: stored_data_def seg_def)

lemma circ_lookup_Some:
  "circ_lookup B c m n = Some x \<longleftrightarrow> (\<exists>h. stored_header B m (circ_block B c n) = Some h \<and> places B c n h
     \<and> stored_status B m h (circ_slot B c n) = Valid \<and> x = stored_data B m h (circ_slot B c n))"
  by (auto simp: circ_lookup_def split: option.splits if_splits)

context nor_flash_contract begin

text \<open>A read that succeeds returns what the store holds.\<close>

lemma read_circular_Ok:
  assumes dok: "dok B d" and ok: "circ_ok B (bd_blocks_total d) c"
    and rd: "read_circular_fragment_at_offset F B c n len off d = (Ok bs, d')"
  shows "\<exists>x. circ_lookup B c (stored d) n = Some x \<and> bs = take len (drop off x)"
proof -
  have tot: "bd_blocks_total d < 2 ^ 32" by (rule device_okD(6) [OF dok])
  from rd obtain h d1 where fb: "find_block_for_seq_no F B c n d = (Ok (Some h), d1)"
    and rf: "read_fragment_at_offset F B h n off len d1 = (Ok bs, d')"
    unfolding read_circular_fragment_at_offset_def by (auto elim!: and_then_OkE split: option.splits)
  note k = keeps_memD [OF keeps_find_block fb]
  from find_block_result [OF dok ok fb] have sh: "stored_header B (stored d) (circ_block B c n) = Some h"
    and pl: "places B c n h" by simp_all
  note hk = stored_header_ok(1) [OF sh circ_block_range(3) [OF ok tot]]
  note rel = places_rel [OF ok tot hk pl]
  have "stored_status B (stored d) h (circ_slot B c n) = Valid"
    and "bs = seg (data_pos B h (circ_slot B c n) + off) (min len (fragment_size h - off)) (stored d)"
    using read_fragment_at_offset_Ok [OF _ _ rf] dok hk k rel(1) by auto
  then show ?thesis
    using sh pl seg_data [of off h] seg_data_past [of off h]
    by (cases "off \<le> fragment_size h") (auto simp: circ_lookup_Some)
qed

end

context reliable_nor_flash begin

lemma gives_find_block:
  assumes gd: "gd d" and dok: "dok B d" and ok: "circ_ok B (bd_blocks_total d) c"
    and sh: "stored_header B (stored d) (circ_block B c n) = ho" and pl: "\<And>h. ho = Some h \<Longrightarrow> places B c n h"
  shows "gives (find_block_for_seq_no F B c n) d ho"
proof -
  have tot: "bd_blocks_total d < 2 ^ 32" by (rule device_okD(6) [OF dok])
  note i = circ_block_range(3) [OF ok tot, of n]
  show ?thesis
    unfolding find_block_for_seq_no_def find_block_no_Some [OF ok tot] Let_def
    using gives_block_header [OF gd dok i] sh pl
    by (auto intro!: delivers_and_then [where x = ho] simp: own_def places_def split: option.splits)
qed

lemma gives_read_circular:
  assumes gd: "gd d" and dok: "dok B d" and ok: "circ_ok B (bd_blocks_total d) c"
    and lk: "circ_lookup B c (stored d) n = Some x" and off: "off < obj_fragment_size c"
  shows "gives (read_circular_fragment_at_offset F B c n len off) d (take len (drop off x))"
proof -
  have tot: "bd_blocks_total d < 2 ^ 32" by (rule device_okD(6) [OF dok])
  from lk obtain h where h: "stored_header B (stored d) (circ_block B c n) = Some h" "places B c n h"
    "stored_status B (stored d) h (circ_slot B c n) = Valid" "x = stored_data B (stored d) h (circ_slot B c n)"
    by (auto simp: circ_lookup_Some)
  note hk = stored_header_ok(1) [OF h(1) circ_block_range(3) [OF ok tot]]
  note rel = places_rel [OF ok tot hk h(2)]
  have "gives (read_fragment_at_offset F B h n off len) d' (take len (drop off x))"
    if d': "gd d'" "stored d' = stored d" "bd_blocks_total d' = bd_blocks_total d" for d'
    unfolding read_fragment_at_offset_def
  proof (rule delivers_and_then)
    show "gives (fragment_status F B h n) d' Valid"
      using gives_fragment_status [of d' B h n] d' dok hk rel h(3) by simp
    fix d2 assume d2: "gd d2" "stored d2 = stored d'" "bd_blocks_total d2 = bd_blocks_total d'"
    show "gives (case Valid of Empty \<Rightarrow> throw (FR_Read RK_FragmentEmpty)
        | Invalid \<Rightarrow> throw (FR_Read RK_FragmentInvalid) | Valid \<Rightarrow> read_raw_fragment F B h n off len
        | Obsolete \<Rightarrow> throw (FR_Read RK_FragmentObsolete)) d2 (take len (drop off x))"
      using gives_read_raw_fragment [of d2 B h n off len] d2 d' dok hk rel off h(4) seg_data [of off h] by simp
  qed
  then show ?thesis
    unfolding read_circular_fragment_at_offset_def
    by (intro delivers_and_then [where x = "Some h"])
      (use gives_find_block [OF gd dok ok h(1)] h(2) in simp_all)
qed

end

section \<open>Writing\<close>

text \<open>When a block may be formatted for a new fragment.\<close>

definition reformat_ok :: "nat \<Rightarrow> circular \<Rightarrow> bytes \<Rightarrow> u32 \<Rightarrow> bool" where
  "reformat_ok B c m b = (case stored_header B m b of
       None \<Rightarrow> True
     | Some h \<Rightarrow> \<not> own c h \<and> auto_format c
         \<or> own c h \<and> (overwrite_on_full c \<or> (\<forall>i < bh_frag_count h. stored_status B m h i \<noteq> Valid)))"

text \<open>A block formatted for \<open>n\<close> in which at most the fragment of \<open>n\<close> was touched.\<close>

definition fresh_block :: "nat \<Rightarrow> circular \<Rightarrow> seq_no \<Rightarrow> bytes \<Rightarrow> bytes \<Rightarrow> bool \<Rightarrow> bool" where
  "fresh_block B c n data m success \<longleftrightarrow> (\<exists>h. stored_header B m (circ_block B c n) = Some h \<and> places B c n h
     \<and> (\<forall>i < bh_frag_count h. i \<noteq> circ_slot B c n \<longrightarrow> stored_status B m h i = Empty)
     \<and> (stored_status B m h (circ_slot B c n) \<in> {Empty, Invalid} \<and> \<not> success
        \<or> stored_status B m h (circ_slot B c n) = Valid
          \<and> seg (data_pos B h (circ_slot B c n)) (length data) m = data \<and> length data \<le> fragment_size h))"

definition circ_write_effect :: "nat \<Rightarrow> circular \<Rightarrow> seq_no \<Rightarrow> bytes \<Rightarrow> bytes \<Rightarrow> bytes \<Rightarrow> bool \<Rightarrow> bool" where
  "circ_write_effect B c n data m m' success \<longleftrightarrow>
     m' = m \<and> \<not> success
     \<or> (\<exists>h. stored_header B m (circ_block B c n) = Some h \<and> places B c n h
          \<and> length data \<le> fragment_size h \<and> stored_status B m h (circ_slot B c n) = Empty
          \<and> write_outcome B h (circ_slot B c n) data m m' success)
     \<or> reformat_ok B c m (circ_block B c n)
       \<and> (stored_header B m' (circ_block B c n) = None \<and> \<not> success \<or> fresh_block B c n data m' success)"

lemma frag_count_lt:
  assumes "device_ok B m tot" and "header_ok B tot h"
  shows "bh_frag_count h < 2 ^ 32"
proof -
  have id: "unat (bh_id h) < tot" using assms(2) by (simp add: header_ok_def)
  have "bh_frag_count h \<le> B"
    using assms(2) device_okD(1) [OF assms(1)]
    by (auto simp: header_ok_def calculate_fragments_per_block_def usize_sub_def intro: le_trans [OF div_le_dividend])
  moreover have "B \<le> length m" using block_in_device [OF assms(1) id] by linarith
  ultimately show ?thesis using device_okD(4) [OF assms(1)] by linarith
qed

context nor_flash_contract begin

lemma find_valid_loop_None:
  assumes "dok B d" and "hok B d h" and "set is \<subseteq> {..<bh_frag_count h}"
    and "find_valid_fragment_loop F B h is d = (Ok None, d')"
  shows "\<forall>i \<in> set is. stored_status B (stored d) h i \<noteq> Valid"
  using assms
proof (induction "is" arbitrary: d)
  case (Cons i rest)
  from Cons.prems(4) obtain st d1 where st: "fragment_status F B h (bh_first_frag_no h + of_nat i) d = (Ok st, d1)"
    and nv: "st \<noteq> Valid" and tl: "find_valid_fragment_loop F B h rest d1 = (Ok None, d')"
    by (auto simp: Let_def elim!: and_then_OkE split: if_splits)
  note k = keeps_memD [OF keeps_fragment_status st]
  have "rel_frag h (bh_first_frag_no h + of_nat i) = i"
    using Cons.prems(3) frag_count_lt [OF Cons.prems(1,2)] by (simp add: rel_frag_def unat_of_nat_small)
  then have "stored_status B (stored d) h i \<noteq> Valid"
    using fragment_status_Ok [OF Cons.prems(1,2) st] nv by simp
  then show ?case using Cons.IH [OF _ _ _ tl] k Cons.prems(1-3) by simp
qed simp

lemma keeps_writable_block_header [keeps]: "keeps_mem mem (writable_block_header F B c n)"
  unfolding writable_block_header_def
  by (auto intro!: keeps split: sum.splits find_fail.splits)

lemma writable_block_header_result:
  assumes dok: "dok B d" and ok: "circ_ok B (bd_blocks_total d) c"
    and wb: "writable_block_header F B c n d = (Ok ho, d')"
  shows "case ho of
      Some h \<Rightarrow> stored_header B (stored d) (circ_block B c n) = Some h \<and> places B c n h
    | None \<Rightarrow> reformat_ok B c (stored d) (circ_block B c n)"
proof -
  have tot: "bd_blocks_total d < 2 ^ 32" by (rule device_okD(6) [OF dok])
  obtain r d1 where fb: "find_block_for_seq_no F B c n d = (r, d1)" by fastforce
  note res = find_block_result [OF dok ok fb] and k = keeps_memD [OF keeps_find_block fb]
  show ?thesis
  proof (cases "\<exists>h. r = Err (FF_NotFound h) \<and> \<not> overwrite_on_full c")
    case True
    then obtain h where r: "r = Err (FF_NotFound h)" and no: "\<not> overwrite_on_full c" by blast
    have sh: "stored_header B (stored d) (circ_block B c n) = Some h" "own c h" using res r by simp_all
    note hk = stored_header_ok(1) [OF sh(1) circ_block_range(3) [OF ok tot]]
    from wb fb r no have "ho = None" and fv: "block_find_valid_fragment F B h d1 = (Ok None, d')"
      by (auto simp: writable_block_header_def attempt_def elim!: and_then_OkE split: if_splits)
    have "\<forall>i < bh_frag_count h. stored_status B (stored d) h i \<noteq> Valid"
      using find_valid_loop_None [of B d1 h "[0..<bh_frag_count h]" d'] fv k dok hk
      by (auto simp: block_find_valid_fragment_def lessThan_atLeast0)
    then show ?thesis using \<open>ho = None\<close> sh by (simp add: reformat_ok_def)
  next
    case False
    then show ?thesis
      using wb fb res
      by (auto simp: writable_block_header_def attempt_def reformat_ok_def
          split: sum.splits find_fail.splits option.splits if_splits)
  qed
qed

text \<open>Writing to a fragment of a block whose header is in place.\<close>

lemma write_placed:
  assumes dok: "dok B d" and ok: "circ_ok B (bd_blocks_total d) c"
    and sh: "stored_header B (stored d) (circ_block B c n) = Some h" and pl: "places B c n h"
    and w: "write_fragment F B h n data d = (r, d')"
  shows "bd_blocks_total d' = bd_blocks_total d
    \<and> (r \<noteq> Ok () \<and> stored d' = stored d
       \<or> length data \<le> fragment_size h \<and> stored_status B (stored d) h (circ_slot B c n) = Empty
         \<and> write_outcome B h (circ_slot B c n) data (stored d) (stored d') (r = Ok ()))"
proof -
  have tot: "bd_blocks_total d < 2 ^ 32" by (rule device_okD(6) [OF dok])
  note hk = stored_header_ok(1) [OF sh circ_block_range(3) [OF ok tot]]
  show ?thesis
    using write_fragment_effect [OF dok hk w] unfolding places_rel(1) [OF ok tot hk pl] by blast
qed

lemma write_outcome_frame:
  assumes dok: "dok B d" and ok: "circ_ok B (bd_blocks_total d) c"
    and sh: "stored_header B (stored d) (circ_block B c n) = Some h" and pl: "places B c n h"
    and w: "write_outcome B h (circ_slot B c n) data (stored d) m' success"
  shows "same_outside (block_pos B (circ_block B c n) + 16) (block_pos B (circ_block B c n) + B) (stored d) m'"
    and "stored_header B m' b = stored_header B (stored d) b"
    and "i < bh_frag_count h \<Longrightarrow> i \<noteq> circ_slot B c n \<Longrightarrow>
      stored_status B m' h i = stored_status B (stored d) h i \<and> stored_data B m' h i = stored_data B (stored d) h i"
proof -
  have tot: "bd_blocks_total d < 2 ^ 32" by (rule device_okD(6) [OF dok])
  note hk = stored_header_ok [OF sh circ_block_range(3) [OF ok tot]]
  note rel = places_rel [OF ok tot hk(1) pl]
  have of: "only_fragment B h (circ_slot B c n) (stored d) m'" using w by (simp add: write_outcome_def)
  show so: "same_outside (block_pos B (circ_block B c n) + 16) (block_pos B (circ_block B c n) + B) (stored d) m'"
    using only_fragment_same_outside [OF dok hk(1) rel(2) of] hk(2) by simp
  show "stored_header B m' b = stored_header B (stored d) b"
    by (rule same_outside_header [OF so device_okD(1) [OF dok]])
  show "stored_status B m' h i = stored_status B (stored d) h i \<and> stored_data B m' h i = stored_data B (stored d) h i"
    if "i < bh_frag_count h" "i \<noteq> circ_slot B c n"
    using only_fragment_others [OF dok hk(1) rel(2) that(1) _ of] that(2) by auto
qed

end

context torn_erase_flash begin

lemma format_circular_effect:
  assumes dok: "dok B d" and ok: "circ_ok B (bd_blocks_total d) c"
    and fm: "format_circular_block F B c n d = (r, d')"
  shows "bd_blocks_total d' = bd_blocks_total d
    \<and> same_outside (block_pos B (circ_block B c n)) (block_pos B (circ_block B c n) + B) (stored d) (stored d')
    \<and> (stored d' = stored d \<and> r \<noteq> Ok ()
       \<or> stored_header B (stored d') (circ_block B c n) = None \<and> r \<noteq> Ok ()
       \<or> (\<exists>h. formatted B (circ_block B c n) h (stored d') \<and> places B c n h))"
proof -
  have tot: "bd_blocks_total d < 2 ^ 32" by (rule device_okD(6) [OF dok])
  note i = circ_block_range(3) [OF ok tot, of n]
  show ?thesis
  proof (cases "n mod of_nat (fragments_per_block B c) = 0")
    case False
    then show ?thesis
      using fm by (auto simp: format_circular_block_def find_block_no_Some [OF ok tot])
  next
    case True
    with fm obtain r' where
      f: "format_block F B (circ_block B c n) (obj_id c) 0xFF (of_nat (obj_fragment_size c)) n d = (r', d')"
      and r: "r = Ok () \<longleftrightarrow> r' = Ok ()"
      by (auto simp: format_circular_block_def find_block_no_Some [OF ok tot] elim!: map_errE)
    from format_block_effect [OF dok i f] r show ?thesis
      using places_fresh [OF ok tot True] by blast
  qed
qed

lemma formatted_fresh:
  assumes dok: "dok B d" and ok: "circ_ok B (bd_blocks_total d) c"
    and f: "formatted B (circ_block B c n) h (stored d)" and pl: "places B c n h"
  shows "fresh_block B c n data (stored d) False"
proof -
  have tot: "bd_blocks_total d < 2 ^ 32" by (rule device_okD(6) [OF dok])
  note i = circ_block_range(3) [OF ok tot, of n]
  have sh: "stored_header B (stored d) (circ_block B c n) = Some h" using f by (simp add: formatted_def)
  note hk = stored_header_ok(1) [OF sh i]
  show ?thesis
    using sh pl formatted_empty(1) [OF dok i f] places_rel(2) [OF ok tot hk pl]
    by (auto simp: fresh_block_def intro!: exI [of _ h])
qed

text \<open>The second attempt, on a freshly formatted block.\<close>

lemma second_attempt:
  assumes dok: "dok B d" and ok: "circ_ok B (bd_blocks_total d) c"
    and f: "formatted B (circ_block B c n) h (stored d)" and pl: "places B c n h"
    and w: "write_circular_attempts F B c n data [1] d = (r, d')"
  shows "bd_blocks_total d' = bd_blocks_total d
    \<and> same_outside (block_pos B (circ_block B c n)) (block_pos B (circ_block B c n) + B) (stored d) (stored d')
    \<and> fresh_block B c n data (stored d') (r = Ok ())"
proof -
  have tot: "bd_blocks_total d < 2 ^ 32" by (rule device_okD(6) [OF dok])
  note i = circ_block_range(3) [OF ok tot, of n] and fresh = formatted_fresh [OF dok ok f pl, of data]
  have sh: "stored_header B (stored d) (circ_block B c n) = Some h" using f by (simp add: formatted_def)
  note hk = stored_header_ok [OF sh i]
  from w have "and_then (writable_block_header F B c n) (\<lambda>ho. case ho of
      Some blk \<Rightarrow> map_err db_error_of_write (write_fragment F B blk n data)
    | None \<Rightarrow> throw E_FragmentNotWriteable) d = (r, d')"
    by (simp cong: option.case_cong)
  then show ?thesis
  proof (cases rule: and_thenE)
    case (err e)
    then show ?thesis using fresh keeps_memD [OF keeps_writable_block_header err(1)] by simp
  next
    case (ok ho d1)
    note k = keeps_memD [OF keeps_writable_block_header ok(1)]
    show ?thesis
    proof (cases ho)
      case None
      then show ?thesis using ok(2) fresh k by auto
    next
      case (Some h')
      have h': "h' = h" using writable_block_header_result [OF dok assms(2) ok(1)] sh Some by simp
      from ok(2) obtain r' where wf: "write_fragment F B h n data d1 = (r', d')"
        and r: "r = Ok () \<longleftrightarrow> r' = Ok ()" by (auto simp: Some h' elim!: map_errE)
      have d1: "dok B d1" "circ_ok B (bd_blocks_total d1) c" "stored_header B (stored d1) (circ_block B c n) = Some h"
        using dok assms(2) sh k by simp_all
      note wp = write_placed [OF d1 pl wf]
      show ?thesis
      proof (cases "r' \<noteq> Ok () \<and> stored d' = stored d1")
        case True
        then show ?thesis using fresh k wp r by auto
      next
        case False
        then have wo: "write_outcome B h (circ_slot B c n) data (stored d1) (stored d') (r' = Ok ())"
          and len: "length data \<le> fragment_size h" using wp by auto
        note fr = write_outcome_frame [OF d1 pl wo]
        have "fresh_block B c n data (stored d') (r = Ok ())"
          using fr(2,3) d1(3) pl wo r len k formatted_empty(1) [OF dok i f]
          by (auto simp: fresh_block_def write_outcome_def intro!: exI [of _ h])
        then show ?thesis
          using same_outside_mono [OF fr(1)] wp k by auto
      qed
    qed
  qed
qed

text \<open>The whole call.\<close>

lemma write_circular_effect:
  assumes dok: "dok B d" and ok: "circ_ok B (bd_blocks_total d) c"
    and w: "write_circular_fragment F B c n data d = (r, d')"
  shows "bd_blocks_total d' = bd_blocks_total d
    \<and> same_outside (block_pos B (circ_block B c n)) (block_pos B (circ_block B c n) + B) (stored d) (stored d')
    \<and> circ_write_effect B c n data (stored d) (stored d') (r = Ok ())"
proof -
  have tot: "bd_blocks_total d < 2 ^ 32" by (rule device_okD(6) [OF dok])
  from w have "and_then (writable_block_header F B c n) (\<lambda>ho. case ho of
      Some blk \<Rightarrow> map_err db_error_of_write (write_fragment F B blk n data)
    | None \<Rightarrow> and_then (format_circular_block F B c n)
        (\<lambda>_. write_circular_attempts F B c n data [1])) d = (r, d')"
    by (simp add: write_circular_fragment_def upt_rec [of _ 2] cong: option.case_cong)
  then show ?thesis
  proof (cases rule: and_thenE)
    case (err e)
    then show ?thesis
      using keeps_memD [OF keeps_writable_block_header err(1)] by (simp add: circ_write_effect_def)
  next
    case (ok ho d1)
    note k = keeps_memD [OF keeps_writable_block_header ok(1)]
      and res = writable_block_header_result [OF dok assms(2) ok(1)]
    have d1: "dok B d1" "circ_ok B (bd_blocks_total d1) c" using dok assms(2) k by simp_all
    show ?thesis
    proof (cases ho)
      case (Some h)
      from ok(2) obtain r' where wf: "write_fragment F B h n data d1 = (r', d')"
        and r: "r = Ok () \<longleftrightarrow> r' = Ok ()" by (auto simp: Some elim!: map_errE)
      have sh: "stored_header B (stored d1) (circ_block B c n) = Some h" and pl: "places B c n h"
        using res Some k by simp_all
      from write_placed [OF d1 sh pl wf] show ?thesis
        using same_outside_mono [OF write_outcome_frame(1) [OF d1 sh pl]] sh pl k r
        by (auto simp: circ_write_effect_def)
    next
      case None
      then have ro: "reformat_ok B c (stored d) (circ_block B c n)" using res by simp
      from ok(2) have "and_then (format_circular_block F B c n)
          (\<lambda>_. write_circular_attempts F B c n data [1]) d1 = (r, d')" by (simp add: None)
      then show ?thesis
      proof (cases rule: and_thenE)
        case (err e)
        note f = format_circular_effect [OF d1 err(1)]
        have d': "dok B d'" "circ_ok B (bd_blocks_total d') c"
          using block_dok_keep [OF d1(1)] f d1(2) by auto
        show ?thesis using f formatted_fresh [OF d', of n _ data] ro err(2) k by (auto simp: circ_write_effect_def)
      next
        case (ok u d2)
        note f = format_circular_effect [OF d1 ok(1)]
        have d2: "dok B d2" "circ_ok B (bd_blocks_total d2) c"
          using block_dok_keep [OF d1(1)] f d1(2) by auto
        from f obtain h where "formatted B (circ_block B c n) h (stored d2)" "places B c n h" by auto
        note s = second_attempt [OF d2 this ok(2)]
        show ?thesis
          using f s ro k same_outside_trans by (auto simp: circ_write_effect_def)
      qed
    qed
  qed
qed

end

end
