(* ===== verification/Circular_Map.thy ===== *)
theory Circular_Map
  imports Circular_Correct
begin

text \<open>
  The contract of the circular store towards its users, as laws on the map from sequence numbers
  to fragments: what a write and a deletion may do to it, and that they leave other blocks alone.
\<close>

section \<open>The map before and after a write\<close>

lemma lookup_other_block:
  assumes dev: "device_ok B m tot" and ok: "circ_ok B tot c"
    and so: "same_outside (block_pos B b) (block_pos B b + B) m m'" and ne: "circ_block B c k \<noteq> b"
  shows "circ_lookup B c m' k = circ_lookup B c m k"
proof -
  have tot: "tot < 2 ^ 32" by (rule device_okD(6) [OF dev])
  note i = circ_block_range(3) [OF ok tot, of k]
  have dis: "block_pos B (circ_block B c k) + B \<le> block_pos B b \<or> block_pos B b + B \<le> block_pos B (circ_block B c k)"
    by (rule other_block_disjoint [OF ne])
  have "seg (block_pos B (circ_block B c k)) 16 m' = seg (block_pos B (circ_block B c k)) 16 m"
    using dis device_okD(1) [OF dev] by (intro same_outside_seg [OF so]) auto
  then have sh': "stored_header B m' (circ_block B c k) = stored_header B m (circ_block B c k)"
    by (simp add: stored_header_def)
  show ?thesis
  proof (cases "stored_header B m (circ_block B c k)")
    case None
    then show ?thesis by (simp add: circ_lookup_def sh')
  next
    case (Some h)
    note hk = stored_header_ok [OF Some i]
    have "stored_status B m' h (circ_slot B c k) = stored_status B m h (circ_slot B c k)
        \<and> stored_data B m' h (circ_slot B c k) = stored_data B m h (circ_slot B c k)" if pl: "places B c k h"
      by (rule other_block_kept [OF dev hk(1) places_rel(2) [OF ok tot hk(1) pl], of b 0])
        (simp_all add: hk(2) ne so)
    then show ?thesis by (cases "places B c k h") (simp_all add: circ_lookup_def sh' Some)
  qed
qed

lemma places_unique:
  assumes "places B c n h" "places B c k h" "circ_slot B c n = circ_slot B c k" "fragments_per_block B c < 2 ^ 32"
  shows "n = k"
proof -
  have "unat (n mod of_nat (fragments_per_block B c)) = unat (k mod of_nat (fragments_per_block B c))"
    using assms(3,4) by (simp add: circ_slot_def unat_mod_distrib unat_of_nat_small)
  then have eq: "n mod of_nat (fragments_per_block B c) = k mod of_nat (fragments_per_block B c)"
    by (simp add: word_unat_eq_iff)
  have "n = bh_first_frag_no h + n mod of_nat (fragments_per_block B c)"
    and "k = bh_first_frag_no h + k mod of_nat (fragments_per_block B c)"
    using assms(1,2) by (simp_all add: places_def)
  then show ?thesis using eq by metis
qed

text \<open>
  What a write of \<open>data\<close> as \<open>n\<close> may do to the map: success stores the data; on failure the entry is
  gone or holds the data, unless nothing changed at all; other entries stay or are dropped, and
  without circular overwrite they all stay.
\<close>

definition holds_data :: "bytes \<Rightarrow> bytes option \<Rightarrow> bool" where
  "holds_data data v \<longleftrightarrow> (\<exists>x. v = Some x \<and> take (length data) x = data)"

definition map_write ::
  "bool \<Rightarrow> seq_no \<Rightarrow> bytes \<Rightarrow> (seq_no \<Rightarrow> bytes option) \<Rightarrow> (seq_no \<Rightarrow> bytes option) \<Rightarrow> bool \<Rightarrow> bool" where
  "map_write overwrite n data f f' success \<longleftrightarrow>
     (success \<longrightarrow> holds_data data (f' n))
     \<and> (f' = f \<or> f' n = None \<or> holds_data data (f' n))
     \<and> (\<forall>k. k \<noteq> n \<longrightarrow> f' k = f k \<or> f' k = None)
     \<and> (\<not> overwrite \<longrightarrow> (\<forall>k x. f k = Some x \<longrightarrow> f' k = Some x))"

lemma holds_dataI:
  assumes "stored_header B m (circ_block B c n) = Some h" "places B c n h"
    "stored_status B m h (circ_slot B c n) = Valid"
    "seg (data_pos B h (circ_slot B c n)) (length data) m = data" "length data \<le> fragment_size h"
  shows "holds_data data (circ_lookup B c m n)"
  using assms by (auto simp: holds_data_def circ_lookup_Some stored_data_def take_seg)

lemma only_fragment_lookup:
  assumes dev: "device_ok B m tot" and ok: "circ_ok B tot c"
    and sh: "stored_header B m (circ_block B c n) = Some h" and pl: "places B c n h"
    and of: "only_fragment B h (circ_slot B c n) m m'"
  shows "stored_header B m' (circ_block B c n) = Some h"
    and "k \<noteq> n \<Longrightarrow> circ_lookup B c m' k = circ_lookup B c m k"
proof -
  have tot: "tot < 2 ^ 32" by (rule device_okD(6) [OF dev])
  note i = circ_block_range(3) [OF ok tot] and fpb = circ_okD(4) [OF ok tot]
  note hk = stored_header_ok [OF sh i]
  note rel = places_rel [OF ok tot hk(1) pl]
  note so = only_fragment_same_outside [OF dev hk(1) rel(2) of]
  have so': "same_outside (block_pos B (circ_block B c n)) (block_pos B (circ_block B c n) + B) m m'"
    using so hk(2) by (auto intro: same_outside_mono)
  show sh': "stored_header B m' (circ_block B c n) = Some h"
    using same_outside_header [OF so device_okD(1) [OF dev]] sh by simp
  show "circ_lookup B c m' k = circ_lookup B c m k" if kn: "k \<noteq> n"
  proof (cases "circ_block B c k = circ_block B c n")
    case True
    have "circ_slot B c k \<noteq> circ_slot B c n" if "places B c k h"
      using places_unique [OF that pl] fpb kn by metis
    then show ?thesis
      using only_fragment_others [OF dev hk(1) rel(2) _ _ of, of "circ_slot B c k"]
        places_rel(2) [OF ok tot hk(1), of k] sh sh' True by (auto simp: circ_lookup_def)
  next
    case False
    then show ?thesis by (rule lookup_other_block [OF dev ok so'])
  qed
qed

lemma direct_write_map:
  assumes dev: "device_ok B m tot" and ok: "circ_ok B tot c"
    and sh: "stored_header B m (circ_block B c n) = Some h" and pl: "places B c n h"
    and len: "length data \<le> fragment_size h" and em: "stored_status B m h (circ_slot B c n) = Empty"
    and wo: "write_outcome B h (circ_slot B c n) data m m' success"
  shows "map_write ov n data (circ_lookup B c m) (circ_lookup B c m') success"
proof -
  have of: "only_fragment B h (circ_slot B c n) m m'" using wo by (simp add: write_outcome_def)
  note fr = only_fragment_lookup [OF dev ok sh pl of]
  have n: "success \<longrightarrow> holds_data data (circ_lookup B c m' n)"
    "circ_lookup B c m' n = None \<or> holds_data data (circ_lookup B c m' n)"
    using holds_dataI [OF fr(1) pl _ _ len] wo fr(1) by (auto simp: write_outcome_def circ_lookup_def)
  have "circ_lookup B c m n = None" using sh em by (simp add: circ_lookup_def)
  then have "circ_lookup B c m k = Some x \<Longrightarrow> circ_lookup B c m' k = Some x" for k x
    using fr(2) by (cases "k = n") auto
  then show ?thesis using n fr(2) by (simp add: map_write_def)
qed

lemma reformat_write_map:
  assumes dev: "device_ok B m tot" and ok: "circ_ok B tot c"
    and so: "same_outside (block_pos B (circ_block B c n)) (block_pos B (circ_block B c n) + B) m m'"
    and ro: "reformat_ok B c m (circ_block B c n)"
    and ef: "stored_header B m' (circ_block B c n) = None \<and> \<not> success \<or> fresh_block B c n data m' success"
  shows "map_write (overwrite_on_full c) n data (circ_lookup B c m) (circ_lookup B c m') success"
proof -
  have tot: "tot < 2 ^ 32" by (rule device_okD(6) [OF dev])
  note i = circ_block_range(3) [OF ok tot] and fpb = circ_okD(4) [OF ok tot]
  let ?b = "circ_block B c n" and ?s = "circ_slot B c n"
  have fresh: "circ_lookup B c m' n \<noteq> None \<or> success \<longrightarrow> holds_data data (circ_lookup B c m' n)"
    using ef holds_dataI [of B m' c n] by (auto simp: fresh_block_def circ_lookup_def)
  have gone: "circ_lookup B c m' k = None" if kn: "k \<noteq> n" and kb: "circ_block B c k = ?b" for k
  proof (rule ccontr)
    assume "circ_lookup B c m' k \<noteq> None"
    then obtain h where h: "stored_header B m' ?b = Some h" "places B c k h"
      "stored_status B m' h (circ_slot B c k) = Valid"
      using kb by (auto simp: circ_lookup_Some)
    have "places B c n h" and oth: "\<forall>i < bh_frag_count h. i \<noteq> ?s \<longrightarrow> stored_status B m' h i = Empty"
      using ef h(1) by (auto simp: fresh_block_def)
    then have "circ_slot B c k \<noteq> ?s" using places_unique [OF _ h(2)] fpb kn by metis
    then show False
      using oth h(3) places_rel(2) [OF ok tot stored_header_ok(1) [OF h(1) i] h(2)] by simp
  qed
  have other: "circ_block B c k \<noteq> ?b" if no: "\<not> overwrite_on_full c" and lk: "circ_lookup B c m k = Some x" for k x
  proof
    assume "circ_block B c k = ?b"
    with lk obtain h where h: "stored_header B m ?b = Some h" "places B c k h"
      "stored_status B m h (circ_slot B c k) = Valid" by (auto simp: circ_lookup_Some)
    have "circ_slot B c k < bh_frag_count h"
      using places_rel(2) [OF ok tot stored_header_ok(1) [OF h(1) i] h(2)] .
    then show False using ro h no by (auto simp: reformat_ok_def places_def)
  qed
  note lo = lookup_other_block [OF dev ok so]
  have "circ_lookup B c m' k = circ_lookup B c m k \<or> circ_lookup B c m' k = None" if "k \<noteq> n" for k
    using gone that lo by (cases "circ_block B c k = ?b") auto
  moreover have "circ_lookup B c m' k = Some x"
    if "\<not> overwrite_on_full c" "circ_lookup B c m k = Some x" for k x
    using lo [OF other [OF that]] that(2) by simp
  ultimately show ?thesis using fresh by (auto simp: map_write_def)
qed

lemma map_write_refl: "map_write ov n data f f False"
  by (simp add: map_write_def)

lemma write_effect_map:
  assumes dev: "device_ok B m tot" and ok: "circ_ok B tot c"
    and so: "same_outside (block_pos B (circ_block B c n)) (block_pos B (circ_block B c n) + B) m m'"
    and ef: "circ_write_effect B c n data m m' success"
  shows "map_write (overwrite_on_full c) n data (circ_lookup B c m) (circ_lookup B c m') success"
  using ef unfolding circ_write_effect_def
proof (elim disjE)
  assume "m' = m \<and> \<not> success"
  then show ?thesis by (simp add: map_write_refl)
qed (use direct_write_map [OF dev ok] reformat_write_map [OF dev ok so] in blast)+

section \<open>The map before and after a deletion\<close>

definition map_delete :: "seq_no \<Rightarrow> (seq_no \<Rightarrow> bytes option) \<Rightarrow> (seq_no \<Rightarrow> bytes option) \<Rightarrow> bool \<Rightarrow> bool" where
  "map_delete n f f' success \<longleftrightarrow> (success \<longrightarrow> f' n = None) \<and> (f' n = f n \<or> f' n = None)
     \<and> (\<forall>k. k \<noteq> n \<longrightarrow> f' k = f k)"

context nor_flash_contract begin

lemma delete_circular_effect:
  assumes dok: "dok B d" and ok: "circ_ok B (bd_blocks_total d) c"
    and del: "delete_circular_fragment F B c n d = (r, d')"
  shows "bd_blocks_total d' = bd_blocks_total d \<and> length (stored d') = length (stored d)
    \<and> map_delete n (circ_lookup B c (stored d)) (circ_lookup B c (stored d')) (r = Ok ())
    \<and> same_outside (block_pos B (circ_block B c n)) (block_pos B (circ_block B c n) + B) (stored d) (stored d')"
  using del unfolding delete_circular_fragment_def
proof (cases rule: and_then_map_errE)
  case (err e)
  then show ?thesis using keeps_memD [OF keeps_find_block err(1)] by (simp add: map_delete_def)
next
  case (ok ho d1)
  note k = keeps_memD [OF keeps_find_block ok(1)] and res = find_block_result [OF dok assms(2) ok(1)]
  show ?thesis
  proof (cases ho)
    case None
    then show ?thesis using ok(2) k res by (auto simp: map_delete_def circ_lookup_def)
  next
    case (Some h)
    have tot: "bd_blocks_total d < 2 ^ 32" by (rule device_okD(6) [OF dok])
    have sh: "stored_header B (stored d) (circ_block B c n) = Some h" and pl: "places B c n h"
      using res Some by simp_all
    note hk = stored_header_ok(1) [OF sh circ_block_range(3) [OF assms(2) tot]]
      and id = stored_header_ok(2) [OF sh circ_block_range(3) [OF assms(2) tot]]
    note rel = places_rel [OF assms(2) tot hk pl]
    from ok(2) obtain r' where df: "delete_fragment F B h n d1 = (r', d')" and r: "r = Ok () \<longleftrightarrow> r' = Ok ()"
      by (auto simp: Some elim!: map_errE)
    have d1: "dok B d1" "hok B d1 h" using dok hk k by simp_all
    note eff = delete_fragment_outcome [OF d1 df, unfolded rel(1)]
    show ?thesis
    proof (cases "r' \<noteq> Ok () \<and> stored d' = stored d1")
      case True
      then show ?thesis using eff k r by (simp add: map_delete_def)
    next
      case False
      then have so: "same_outside (status_pos B h (circ_slot B c n) + 2) (status_pos B h (circ_slot B c n) + 3)
          (stored d) (stored d')" using eff k by auto
      have "only_fragment B h (circ_slot B c n) (stored d) (stored d')"
        by (rule only_fragment_status [OF so]) simp_all
      note fr = only_fragment_lookup [OF dok assms(2) sh pl this]
      have "same_outside (block_pos B (circ_block B c n)) (block_pos B (circ_block B c n) + B) (stored d) (stored d')"
        using pos_in_block(1) [OF dok hk rel(2)] header_before_status [of B h "circ_slot B c n"] id
        by (intro same_outside_mono [OF so]) simp_all
      then show ?thesis
        using eff False fr k r same_outside_length [OF so] by (auto simp: map_delete_def circ_lookup_def)
    qed
  qed
qed

end

end
