(* ===== verification/Circular_Progress.thy ===== *)
theory Circular_Progress
  imports Circular_Map
begin

text \<open>
  On a flash that does not fail, a write to a sequence number that the store can take succeeds.
\<close>

definition circ_writable :: "nat \<Rightarrow> circular \<Rightarrow> bytes \<Rightarrow> seq_no \<Rightarrow> bool" where
  "circ_writable B c m n =
     (let fresh = n mod of_nat (fragments_per_block B c) = 0 \<and> reformat_ok B c m (circ_block B c n)
      in case stored_header B m (circ_block B c n) of
           None \<Rightarrow> fresh
         | Some h \<Rightarrow> if places B c n h
             then stored_status B m h (circ_slot B c n) = Empty
                  \<and> stored_data B m h (circ_slot B c n) = replicate (fragment_size h) 0xFF
             else fresh)"

text \<open>Both reliable and torn-erase: the contract of a flash whose faults, if any, are not armed.\<close>

locale sound_flash = reliable_nor_flash F mem good + torn_erase_flash F mem
  for F :: "('f, 'e) nor_flash" and mem and good

context reliable_nor_flash begin

lemma find_block_good:
  assumes gd: "gd d" and dok: "dok B d" and ok: "circ_ok B (bd_blocks_total d) c"
  shows "\<exists>d'. find_block_for_seq_no F B c n d =
      ((case stored_header B (stored d) (circ_block B c n) of
          None \<Rightarrow> Ok None
        | Some h \<Rightarrow> if \<not> own c h then Err (FF_Corrupt h)
                    else if places B c n h then Ok (Some h) else Err (FF_NotFound h)), d')
    \<and> gd d' \<and> stored d' = stored d \<and> bd_blocks_total d' = bd_blocks_total d"
proof -
  have tot: "bd_blocks_total d < 2 ^ 32" by (rule device_okD(6) [OF dok])
  obtain d' where d': "block_header F B (circ_block B c n) d = (Ok (stored_header B (stored d) (circ_block B c n)), d')"
    "gd d'" "stored d' = stored d" "bd_blocks_total d' = bd_blocks_total d"
    using gives_block_header [OF gd dok circ_block_range(3) [OF ok tot]] by (auto elim: deliversE)
  then show ?thesis
    by (auto simp: find_block_for_seq_no_def find_block_no_Some [OF ok tot] Let_def own_def places_def
        and_then_def split: option.splits)
qed

lemma gives_find_valid_loop:
  assumes "gd d" and "dok B d" and "hok B d h" and "set is \<subseteq> {..<bh_frag_count h}"
    and "\<forall>i \<in> set is. stored_status B (stored d) h i \<noteq> Valid"
  shows "gives (find_valid_fragment_loop F B h is) d None"
  using assms
proof (induction "is" arbitrary: d)
  case (Cons i rest)
  have rel: "rel_frag h (bh_first_frag_no h + of_nat i) = i"
    using Cons.prems(4) frag_count_lt [OF Cons.prems(2,3)] by (simp add: rel_frag_def unat_of_nat_small)
  have "gives (fragment_status F B h (bh_first_frag_no h + of_nat i)) d (stored_status B (stored d) h i)"
    using gives_fragment_status [OF Cons.prems(1-3), of "bh_first_frag_no h + of_nat i"] rel Cons.prems(4) by simp
  then show ?case
    unfolding find_valid_fragment_loop.simps Let_def
    by (rule delivers_and_then) (use Cons in auto)
qed simp

lemma gives_writable_block_header:
  assumes gd: "gd d" and dok: "dok B d" and ok: "circ_ok B (bd_blocks_total d) c"
    and ho: "ho = (case stored_header B (stored d) (circ_block B c n) of
        Some h \<Rightarrow> if places B c n h then Some h else None | None \<Rightarrow> None)"
    and ro: "ho = None \<Longrightarrow> reformat_ok B c (stored d) (circ_block B c n)"
  shows "gives (writable_block_header F B c n) d ho"
proof -
  have tot: "bd_blocks_total d < 2 ^ 32" by (rule device_okD(6) [OF dok])
  obtain d1 where fb: "find_block_for_seq_no F B c n d =
      ((case stored_header B (stored d) (circ_block B c n) of
          None \<Rightarrow> Ok None
        | Some h \<Rightarrow> if \<not> own c h then Err (FF_Corrupt h)
                    else if places B c n h then Ok (Some h) else Err (FF_NotFound h)), d1)"
    "gd d1" "stored d1 = stored d" "bd_blocks_total d1 = bd_blocks_total d"
    using find_block_good [OF gd dok ok] by blast
  show ?thesis
  proof (cases "stored_header B (stored d) (circ_block B c n)")
    case None
    then show ?thesis using fb ho by (simp add: delivers_def writable_block_header_def attempt_def)
  next
    case (Some h)
    note hk = stored_header_ok(1) [OF Some circ_block_range(3) [OF ok tot]]
    consider "places B c n h" | "\<not> own c h" | "own c h" "\<not> places B c n h" "overwrite_on_full c"
      | "own c h" "\<not> places B c n h" "\<not> overwrite_on_full c" by blast
    then show ?thesis
    proof cases
      case 4
      have "gives (block_find_valid_fragment F B h) d1 None"
        using gives_find_valid_loop [of d1 B h "[0..<bh_frag_count h]"] 4 fb dok hk ro ho Some
        by (auto simp: block_find_valid_fragment_def reformat_ok_def lessThan_atLeast0)
      then obtain d2 where "block_find_valid_fragment F B h d1 = (Ok None, d2)" "gd d2"
        "stored d2 = stored d" "bd_blocks_total d2 = bd_blocks_total d"
        using fb by (auto elim!: deliversE)
      then show ?thesis using fb Some 4 ho
        by (simp add: delivers_def writable_block_header_def attempt_def and_then_def)
    qed (use fb Some ho ro in \<open>auto simp: delivers_def writable_block_header_def attempt_def reformat_ok_def places_def\<close>)
  qed
qed

end

context sound_flash begin

lemma write_placed_good:
  assumes gd: "gd d" and dok: "dok B d" and ok: "circ_ok B (bd_blocks_total d) c"
    and sh: "stored_header B (stored d) (circ_block B c n) = Some h" and pl: "places B c n h"
    and em: "stored_status B (stored d) h (circ_slot B c n) = Empty"
    and ff: "stored_data B (stored d) h (circ_slot B c n) = replicate (fragment_size h) 0xFF"
    and len: "length data \<le> obj_fragment_size c"
  shows "\<exists>d'. write_circular_attempts F B c n data (a # as) d = (Ok (), d') \<and> gd d'"
proof -
  have tot: "bd_blocks_total d < 2 ^ 32" by (rule device_okD(6) [OF dok])
  note hk = stored_header_ok(1) [OF sh circ_block_range(3) [OF ok tot]]
  note rel = places_rel [OF ok tot hk pl]
  obtain d1 where d1: "writable_block_header F B c n d = (Ok (Some h), d1)" "gd d1" "stored d1 = stored d"
    "bd_blocks_total d1 = bd_blocks_total d"
    using gives_writable_block_header [OF gd dok ok refl, of n] unfolding sh by (auto simp: pl elim!: deliversE)
  obtain d2 where "write_fragment F B h n data d1 = (Ok (), d2)" "gd d2"
    using write_fragment_good [of d1 B h n data] d1 dok hk rel em ff len circ_okD(1) [OF ok tot] by auto
  then show ?thesis using d1 by simp
qed

text \<open>Writing succeeds: directly, or after formatting the block.\<close>

lemma write_circular_good:
  assumes gd: "gd d" and dok: "dok B d" and ok: "circ_ok B (bd_blocks_total d) c"
    and B: "B = nf_erase_size F" and wr: "circ_writable B c (stored d) n"
    and len: "length data \<le> obj_fragment_size c"
  shows "\<exists>d'. write_circular_fragment F B c n data d = (Ok (), d') \<and> gd d'"
proof -
  have tot: "bd_blocks_total d < 2 ^ 32" by (rule device_okD(6) [OF dok])
  note i = circ_block_range(3) [OF ok tot, of n]
  have att: "[0..<2] = [0, 1::nat]" by (simp add: upt_rec)
  show ?thesis
  proof (cases "\<exists>h. stored_header B (stored d) (circ_block B c n) = Some h \<and> places B c n h")
    case True
    then obtain h where h: "stored_header B (stored d) (circ_block B c n) = Some h" "places B c n h"
      "stored_status B (stored d) h (circ_slot B c n) = Empty"
      "stored_data B (stored d) h (circ_slot B c n) = replicate (fragment_size h) 0xFF"
      using wr by (auto simp: circ_writable_def)
    show ?thesis
      unfolding write_circular_fragment_def att by (rule write_placed_good [OF gd dok ok h len])
  next
    case False
    then have al: "n mod of_nat (fragments_per_block B c) = 0"
      and ro: "reformat_ok B c (stored d) (circ_block B c n)"
      using wr by (auto simp: circ_writable_def Let_def split: option.splits)
    have "None = (case stored_header B (stored d) (circ_block B c n) of
        Some h \<Rightarrow> if places B c n h then Some h else None | None \<Rightarrow> None)"
      using False by (auto split: option.splits)
    from gives_writable_block_header [OF gd dok ok this ro] obtain d1 where
      d1: "writable_block_header F B c n d = (Ok None, d1)" "gd d1" "stored d1 = stored d"
      "bd_blocks_total d1 = bd_blocks_total d" by (auto elim!: deliversE)
    have dok1: "dok B d1" "circ_ok B (bd_blocks_total d1) c" "unat (circ_block B c n) < bd_blocks_total d1"
      using dok ok i d1 by simp_all
    obtain h where new: "block_header_try_new B (circ_block B c n) (obj_id c) 0xFF (of_nat (obj_fragment_size c)) n = Ok h"
      using circ_try_new [OF ok tot] by blast
    obtain d2 where f: "format_block F B (circ_block B c n) (obj_id c) 0xFF (of_nat (obj_fragment_size c)) n d1 = (Ok (), d2)"
      "gd d2" using format_block_good [OF d1(2) dok1(1,3) B new] by blast
    note eff = format_block_effect [OF dok1(1,3) f(1)]
    have fm: "formatted B (circ_block B c n) h (stored d2)" using eff new by simp
    have d2: "dok B d2" "circ_ok B (bd_blocks_total d2) c" "unat (circ_block B c n) < bd_blocks_total d2"
      using block_dok_keep [OF dok1(1)] eff dok1(2,3) by auto
    have pl: "places B c n h" by (rule places_fresh [OF ok tot al new])
    have sh: "stored_header B (stored d2) (circ_block B c n) = Some h" using fm by (simp add: formatted_def)
    note hk = stored_header_ok(1) [OF sh d2(3)]
    note slot = places_rel(2) [OF d2(2) device_okD(6) [OF d2(1)] hk pl]
    from write_placed_good [OF f(2) d2(1,2) sh pl formatted_empty [OF d2(1,3) fm slot] len]
    obtain d3 where "write_circular_attempts F B c n data [1] d2 = (Ok (), d3)" "gd d3" by blast
    moreover have "format_circular_block F B c n d1 = (Ok (), d2)"
      using f(1) al by (simp add: format_circular_block_def find_block_no_Some [OF ok tot])
    ultimately have "write_circular_attempts F B c n data [0, 1] d = (Ok (), d3)"
      using d1(1) unfolding write_circular_attempts.simps(2) [of F B c n data 0 "[1]"] by simp
    then show ?thesis using \<open>gd d3\<close> unfolding write_circular_fragment_def att by blast
  qed
qed

end

interpretation sound_in_memory: sound_flash "in_memory E" memory no_fault for E
  by unfold_locales

end
