(* ===== verification/Circular_Theorems.thy ===== *)
theory Circular_Theorems
  imports Circular_Progress
begin

text \<open>
  The properties of the circular store. \<open>circ_lookup\<close> is what the store holds for a sequence number:
  the data of the fragment, if its block carries a header of this object that places it there
  and the fragment is marked valid.
\<close>

section \<open>Code equations and a concrete store\<close>

lemma fragment_gte_code [code]: "fragment_gte large small \<longleftrightarrow> large - small < 0x7FFFFFFF"
  by (simp add: fragment_gte_def MAX_FRAGMENTS_PER_OBJECT_def)

text \<open>
  Three blocks of 32 bytes, the last one spare, with two fragments of four bytes per block, on a
  flash of four blocks.
\<close>

definition ex_circ :: circular where
  "ex_circ = \<lparr>obj_id = 7, obj_fragment_size = 4, obj_start = 0, obj_end = 3, obj_capacity = None,
     overwrite_on_full = False, auto_format = True\<rparr>"

definition ex_flash :: "in_memory_flash block_device" where
  "ex_flash = \<lparr>bd_flash = in_memory_new 128, bd_blocks_total = 4\<rparr>"

definition ex_stored :: "in_memory_flash block_device" where
  "ex_stored = snd (write_circular_fragment (in_memory 32) 32 ex_circ 0 [1, 2, 3] ex_flash)"

definition ex_stored2 :: "in_memory_flash block_device" where
  "ex_stored2 = snd (write_circular_fragment (in_memory 32) 32 ex_circ 1 [9] ex_stored)"

lemma ex_circ_sizes:
  "length (memory (bd_flash ex_flash)) = 128" "bd_blocks_total ex_flash = 4"
  "length (memory (bd_flash ex_stored)) = 128" "bd_blocks_total ex_stored = 4"
  "length (memory (bd_flash ex_stored2)) = 128" "bd_blocks_total ex_stored2 = 4"
  by code_simp+

lemma ex_circ_devices:
  "device_ok 32 (memory (bd_flash ex_flash)) (bd_blocks_total ex_flash)"
  "device_ok 32 (memory (bd_flash ex_stored)) (bd_blocks_total ex_stored)"
  "device_ok 32 (memory (bd_flash ex_stored2)) (bd_blocks_total ex_stored2)"
  by (simp_all add: device_ok_def ex_circ_sizes)

lemma ex_circ_ok: "circ_ok 32 4 ex_circ"
  by (simp add: circ_ok_def ex_circ_def fragments_per_block_def calculate_fragments_per_block_def
      usize_sub_def block_count_def MAX_FRAGMENTS_PER_OBJECT_def)

lemma ex_circ_writes:
  "write_circular_fragment (in_memory 32) 32 ex_circ 0 [1, 2, 3] ex_flash = (Ok (), ex_stored)"
  "write_circular_fragment (in_memory 32) 32 ex_circ 1 [9] ex_stored = (Ok (), ex_stored2)"
  by code_simp+

lemma ex_lookups:
  "circ_lookup 32 ex_circ (memory (bd_flash ex_stored)) 0 = Some [1, 2, 3, 0xFF]"
  "circ_writable 32 ex_circ (memory (bd_flash ex_stored)) 1"
  by code_simp+

lemma ex_no_fault: "no_fault (bd_flash ex_flash)" "no_fault (bd_flash ex_stored)" "no_fault (bd_flash ex_stored2)"
  by code_simp+

section \<open>Properties\<close>



text \<open>
  C5. No data loss without circular overwrite: if \<open>overwrite_on_full\<close> is off, a call of
  \<open>write_circular_fragment\<close> for any sequence number, successful, failing or interrupted, leaves
  everything the store holds in place.
\<close>

theorem circular_write_keeps_data:
  assumes "torn_erase_flash F mem"
    and "device_ok B (mem (bd_flash d)) (bd_blocks_total d)" and "circ_ok B (bd_blocks_total d) c"
    and "write_circular_fragment F B c n data d = (r, d')"
    and "\<not> overwrite_on_full c" and "circ_lookup B c (mem (bd_flash d)) k = Some x"
  shows "circ_lookup B c (mem (bd_flash d')) k = Some x"
proof -
  note e = torn_erase_flash.write_circular_effect [OF assms(1-4)]
  show ?thesis
    using write_effect_map [OF assms(2,3) conjunct1 [OF conjunct2 [OF e]] conjunct2 [OF conjunct2 [OF e]]]
      assms(5,6) by (simp add: map_write_def)
qed

theorem circular_write_keeps_data_witness:
  "circ_lookup 32 ex_circ (memory (bd_flash ex_stored2)) 0 = Some [1, 2, 3, 0xFF]"
  using circular_write_keeps_data [OF mock.torn_erase_flash_axioms ex_circ_devices(2) _ ex_circ_writes(2) _ ex_lookups(1)]
    ex_circ_ok by (simp add: ex_circ_sizes) (simp add: ex_circ_def)

text \<open>
  Write then read: on a flash that does not fail, a fragment that fits is written successfully
  to every sequence number the store can take (an erased fragment of a block prepared for it, or
  the first fragment of a block that may be formatted), and reading it back returns the data.
\<close>

theorem circular_write_then_read:
  assumes "sound_flash F mem good" and "good (bd_flash d)"
    and "device_ok B (mem (bd_flash d)) (bd_blocks_total d)" and "circ_ok B (bd_blocks_total d) c"
    and "B = nf_erase_size F" and "circ_writable B c (mem (bd_flash d)) n"
    and "length data \<le> obj_fragment_size c"
  shows "\<exists>d' d'' bs. write_circular_fragment F B c n data d = (Ok (), d')
    \<and> read_circular_fragment F B c n (length data) d' = (Ok bs, d'') \<and> bs = data"
proof -
  note sf = sound_flash.axioms [OF assms(1)]
  from sound_flash.write_circular_good [OF assms] obtain d' where
    w: "write_circular_fragment F B c n data d = (Ok (), d')" "good (bd_flash d')" by blast
  note e = torn_erase_flash.write_circular_effect [OF sf(2) assms(3,4) w(1)]
  have "map_write (overwrite_on_full c) n data (circ_lookup B c (mem (bd_flash d)))
      (circ_lookup B c (mem (bd_flash d'))) True"
    using write_effect_map [OF assms(3,4) conjunct1 [OF conjunct2 [OF e]] conjunct2 [OF conjunct2 [OF e]]] by simp
  then obtain x where x: "circ_lookup B c (mem (bd_flash d')) n = Some x" "take (length data) x = data"
    by (auto simp: map_write_def holds_data_def)
  have d': "device_ok B (mem (bd_flash d')) (bd_blocks_total d')" "circ_ok B (bd_blocks_total d') c"
    using assms(3,4) e same_outside_length by (fastforce simp: device_ok_def)+
  have "0 < obj_fragment_size c" using assms(4) by (simp add: circ_ok_def)
  from reliable_nor_flash.gives_read_circular [OF sf(1) w(2) d' x(1) this, of "length data"] x(2)
  obtain d'' where "read_circular_fragment F B c n (length data) d' = (Ok data, d'')"
    by (auto simp: read_circular_fragment_def elim: deliversE)
  with w(1) show ?thesis by blast
qed

theorem circular_write_then_read_witness:
  "\<exists>d' d'' bs. write_circular_fragment (in_memory 32) 32 ex_circ 1 [9] ex_stored = (Ok (), d')
    \<and> read_circular_fragment (in_memory 32) 32 ex_circ 1 1 d' = (Ok bs, d'') \<and> bs = [9]"
  using circular_write_then_read [OF sound_in_memory.sound_flash_axioms [of 32] ex_no_fault(2) ex_circ_devices(2)
      _ _ ex_lookups(2), of "[9]"] ex_circ_ok
  by (simp add: ex_circ_sizes in_memory_def) (simp add: ex_circ_def)

text \<open>
  Reads return what is stored: if \<open>read_circular_fragment_at_offset\<close> succeeds, on any flash that
  meets its contract, the store holds data for this sequence number and the result is its part
  from the offset on, cut to the buffer; the flash is not changed.
\<close>

theorem circular_read_returns_stored:
  assumes "nor_flash_contract F mem"
    and "device_ok B (mem (bd_flash d)) (bd_blocks_total d)" and "circ_ok B (bd_blocks_total d) c"
    and "read_circular_fragment_at_offset F B c n len off d = (Ok bs, d')"
  shows "\<exists>x. circ_lookup B c (mem (bd_flash d)) n = Some x \<and> bs = take len (drop off x)"
  by (rule nor_flash_contract.read_circular_Ok [OF assms])

theorem circular_read_returns_stored_witness:
  "\<exists>x. circ_lookup 32 ex_circ (memory (bd_flash ex_stored)) 0 = Some x \<and> [2, 3] = take 2 (drop 1 x)"
proof -
  have "read_circular_fragment_at_offset (in_memory 32) 32 ex_circ 0 2 1 ex_stored
      = (Ok [2, 3], snd (read_circular_fragment_at_offset (in_memory 32) 32 ex_circ 0 2 1 ex_stored))"
    by code_simp
  from circular_read_returns_stored [OF mock.nor_flash_contract_axioms ex_circ_devices(2) _ this] ex_circ_ok
  show ?thesis by (simp add: ex_circ_sizes)
qed

text \<open>
  Deletion: whatever the flash does, \<open>delete_circular_fragment\<close> removes at most the entry of its
  own sequence number, and after success the store holds nothing for it.
\<close>

theorem circular_delete:
  assumes "nor_flash_contract F mem"
    and "device_ok B (mem (bd_flash d)) (bd_blocks_total d)" and "circ_ok B (bd_blocks_total d) c"
    and "delete_circular_fragment F B c n d = (r, d')"
  shows "(r = Ok () \<longrightarrow> circ_lookup B c (mem (bd_flash d')) n = None)
    \<and> circ_lookup B c (mem (bd_flash d')) n \<in> {circ_lookup B c (mem (bd_flash d)) n, None}
    \<and> (k \<noteq> n \<longrightarrow> circ_lookup B c (mem (bd_flash d')) k = circ_lookup B c (mem (bd_flash d)) k)"
  using nor_flash_contract.delete_circular_effect [OF assms] by (auto simp: map_delete_def)

theorem circular_delete_witness:
  "circ_lookup 32 ex_circ
     (memory (bd_flash (snd (delete_circular_fragment (in_memory 32) 32 ex_circ 0 ex_stored)))) 0 = None"
proof -
  have "delete_circular_fragment (in_memory 32) 32 ex_circ 0 ex_stored
      = (Ok (), snd (delete_circular_fragment (in_memory 32) 32 ex_circ 0 ex_stored))"
    by code_simp
  from circular_delete [OF mock.nor_flash_contract_axioms ex_circ_devices(2) _ this] ex_circ_ok
  show ?thesis by (simp add: ex_circ_sizes)
qed

text \<open>
  One place per fragment: two different sequence numbers less than a whole object apart are
  stored in different fragments, and every fragment lies in a data block of the object, never in
  the spare block.
\<close>

theorem circular_places_distinct:
  assumes "circ_ok B tot c" and "tot < 2 ^ 32"
    and "unat k < unat n" and "unat n < unat k + fragment_count B c"
  shows "(circ_block B c k, circ_slot B c k) \<noteq> (circ_block B c n, circ_slot B c n)
    \<and> unat (obj_start c) \<le> unat (circ_block B c n) \<and> circ_block B c n < spare_block c
    \<and> circ_slot B c n < fragments_per_block B c
    \<and> find_block_no_for_seq_no B c n = Some (circ_block B c n)"
proof -
  note C = circ_okD [OF assms(1,2)] and R = circ_block_range [OF assms(1,2)]
  let ?p = "fragments_per_block B c" and ?f = "fragment_count B c"
  have "(circ_block B c k, circ_slot B c k) \<noteq> (circ_block B c n, circ_slot B c n)"
  proof
    assume eq: "(circ_block B c k, circ_slot B c k) = (circ_block B c n, circ_slot B c n)"
    then have d: "unat k mod ?f div ?p = unat n mod ?f div ?p" using R(1) [of k] R(1) [of n] by simp
    have dv: "?p dvd ?f" unfolding C(6) by simp
    have "unat k mod ?f mod ?p = unat n mod ?f mod ?p"
      using eq dv by (simp add: circ_slot_def mod_mod_cancel)
    with d have "unat k mod ?f = unat n mod ?f" by (metis div_mult_mod_eq)
    then have "?f dvd unat n - unat k" using assms(3) by (metis less_imp_le mod_eq_dvd_iff_nat)
    then show False using assms(3,4) by (auto dest: dvd_imp_le)
  qed
  moreover have "circ_block B c n < spare_block c"
  proof -
    have "obj_end c \<noteq> 0" using assms(1) by (auto simp: circ_ok_def)
    then have "unat (obj_end c - 1) = unat (obj_end c) - 1" by (simp add: unat_minus_one)
    then show ?thesis using R(2) [of n] \<open>obj_end c \<noteq> 0\<close> by (simp add: spare_block_def word_less_nat_alt)
  qed
  ultimately show ?thesis
    using R(1) [of n] C(3) find_block_no_Some [OF assms(1,2), of n] by (simp add: circ_slot_def)
qed

theorem circular_places_distinct_witness:
  "(circ_block 32 ex_circ 1, circ_slot 32 ex_circ 1) \<noteq> (circ_block 32 ex_circ 4, circ_slot 32 ex_circ 4)"
proof -
  have "fragment_count 32 ex_circ = 4" by code_simp
  then show ?thesis using circular_places_distinct [OF ex_circ_ok, of 1 4] by simp
qed

text \<open>
  Comparing sequence numbers: within any window of \<open>MAX_FRAGMENTS_PER_OBJECT\<close> successive
  sequence numbers, also across the wrap of the counter, \<open>fragment_gte\<close> is the order in which
  they were given out.
\<close>

theorem fragment_gte_order:
  assumes "i < MAX_FRAGMENTS_PER_OBJECT" and "j < MAX_FRAGMENTS_PER_OBJECT"
  shows "fragment_gte (s + of_nat i) (s + of_nat j) \<longleftrightarrow> j \<le> i"
proof -
  have small: "i < 2 ^ 32" "j < 2 ^ 32" using assms by (simp_all add: MAX_FRAGMENTS_PER_OBJECT_def)
  have M: "unat (of_nat MAX_FRAGMENTS_PER_OBJECT :: u32) = 0x7FFFFFFF"
    by (simp add: MAX_FRAGMENTS_PER_OBJECT_def)
  have "s + of_nat i - (s + of_nat j) = (of_nat i - of_nat j :: u32)" by simp
  moreover have "unat (of_nat i - of_nat j :: u32) = (if j \<le> i then i - j else i + 2 ^ 32 - j)"
    using small by (simp add: unat_sub_if' unat_of_nat_small word_le_nat_alt)
  ultimately show ?thesis
    using assms by (auto simp: fragment_gte_def word_less_nat_alt M MAX_FRAGMENTS_PER_OBJECT_def)
qed

theorem fragment_gte_order_witness: "fragment_gte (0xFFFFFFFF + of_nat 2) (0xFFFFFFFF + of_nat 0)"
  using fragment_gte_order [of 2 0 "0xFFFFFFFF"] by (simp add: MAX_FRAGMENTS_PER_OBJECT_def)

end
