(* ===== verification/File_Store.thy ===== *)
theory File_Store
  imports Flash_Db
begin

text \<open>
  The file store, \<open>storage/flash_db/file_store.rs\<close>: files of fixed capacity, read as a whole or
  per fragment through a handle that names the current version of the file, written after a
  soft delete that gives the file a new version.
\<close>

section \<open>Handles\<close>

record file_handle =
  fh_file :: object
  fh_version :: u8

type_synonym frag_index = u32

definition initialize_file_store :: "('f block_device, unit, db_error) action" where
  "initialize_file_store = ret ()"

definition file_handle_of ::
  "('f, 'e) nor_flash \<Rightarrow> nat \<Rightarrow> object \<Rightarrow> ('f block_device, file_handle, db_error) action" where
  "file_handle_of F B file =
     and_then (lock_status_of F B file LockSpare) (\<lambda>st. case st of
         Unlocked version \<Rightarrow> ret \<lparr>fh_file = file, fh_version = version\<rparr>
       | Locked \<Rightarrow> throw E_FileNotReadable)"

section \<open>Reading\<close>

text \<open>
  The block and the fragment in it that hold the fragment \<open>i\<close> of a file; \<open>None\<close> is the panic of
  a division by zero.
\<close>

definition file_fragment_place :: "nat \<Rightarrow> object \<Rightarrow> frag_index \<Rightarrow> (u32 \<times> u32) option" where
  "file_fragment_place B file i =
     (let per_block = of_nat (fragments_per_block B file) :: u32
      in if per_block = 0 then None
         else Some (obj_start file + i div per_block, i mod per_block))"

definition read_file_fragment ::
  "('f, 'e) nor_flash \<Rightarrow> nat \<Rightarrow> file_handle \<Rightarrow> frag_index \<Rightarrow> nat
   \<Rightarrow> ('f block_device, bytes, db_error) action" where
  "read_file_fragment F B filehandle fragment_index len =
     (let file = fh_file filehandle
      in if fragment_index \<ge> of_nat (fragment_count B file) then throw E_NoSpaceAvailable
         else
           (let remaining = usize_sub (obj_capacity_bytes B file)
                              (unat fragment_index * obj_fragment_size file);
                len' = min len remaining
            in case file_fragment_place B file fragment_index of
                 None \<Rightarrow> throw E_Panic
               | Some (block_no, fragment_in_block) \<Rightarrow>
                   and_then (map_err db_error_of_flash (block_header F B block_no)) (\<lambda>hdr.
                     case hdr of
                       None \<Rightarrow> throw E_FragmentNotReadable
                     | Some blk \<Rightarrow>
                         if bh_object_version blk \<noteq> fh_version filehandle
                         then throw E_FragmentNotReadable
                         else map_err db_error_of_read
                                (read_fragment F B blk (bh_first_frag_no blk + fragment_in_block) len'))))"

text \<open>
  The loop of \<open>read_file\<close> over the chunks of the buffer, given by their lengths. The bytes read so
  far are \<open>acc\<close>.
\<close>

fun read_file_loop ::
  "('f, 'e) nor_flash \<Rightarrow> nat \<Rightarrow> file_handle \<Rightarrow> nat \<Rightarrow> nat \<Rightarrow> nat list \<Rightarrow> bytes
   \<Rightarrow> ('f block_device, bytes, db_error) action" where
  "read_file_loop F B fh max_n_frags frag_index [] acc = ret acc"
| "read_file_loop F B fh max_n_frags frag_index (chunk_len # rest) acc =
     (if frag_index \<ge> max_n_frags then ret acc
      else attempt (read_file_fragment F B fh (of_nat frag_index) chunk_len) (\<lambda>r.
        case (case r of
                Err E_FragmentNotReadable \<Rightarrow>
                  (if length acc > 0 then Ok [] else Err E_FileNotReadable)
              | other \<Rightarrow> other) of
          Err e \<Rightarrow> throw e
        | Ok bs \<Rightarrow>
            if length bs \<noteq> chunk_len then ret (acc @ bs)
            else read_file_loop F B fh max_n_frags (Suc frag_index) rest (acc @ bs)))"

text \<open>
  \<open>bytes.chunks_mut(frag_size)\<close> panics for a chunk size of zero.
\<close>

definition read_file ::
  "('f, 'e) nor_flash \<Rightarrow> nat \<Rightarrow> object \<Rightarrow> nat \<Rightarrow> ('f block_device, bytes, db_error) action" where
  "read_file F B file buffer_len =
     and_then (file_handle_of F B file) (\<lambda>fh.
       let len = min buffer_len (obj_capacity_bytes B file)
       in if obj_fragment_size file = 0 then throw E_Panic
          else read_file_loop F B fh (fragment_count B file) 0
                 (map length (chunks (obj_fragment_size file) [0..<len])) [])"

section \<open>Writing\<close>

definition initialize_writeable_file_store ::
  "bool \<Rightarrow> ('f block_device, init_status, db_error) action" where
  "initialize_writeable_file_store do_format = and_then initialize_file_store (\<lambda>_. ret InitExisting)"

definition write_file_fragment ::
  "('f, 'e) nor_flash \<Rightarrow> nat \<Rightarrow> file_handle \<Rightarrow> frag_index \<Rightarrow> bytes
   \<Rightarrow> ('f block_device, unit, db_error) action" where
  "write_file_fragment F B filehandle fragment_index data =
     (let file = fh_file filehandle
      in if fragment_index \<ge> of_nat (fragment_count B file) then throw E_NoSpaceAvailable
         else if length data > usize_sub (obj_capacity_bytes B file)
                                 (unat fragment_index * obj_fragment_size file)
         then throw E_NoSpaceAvailable
         else (case file_fragment_place B file fragment_index of
                 None \<Rightarrow> throw E_Panic
               | Some (block_no, fragment_in_block) \<Rightarrow>
                   and_then (prepare_writeable_block F B file block_no (fh_version filehandle)) (\<lambda>blk.
                     map_err db_error_of_write
                       (write_fragment F B blk (bh_first_frag_no blk + fragment_in_block) data))))"

definition delete_file ::
  "('f, 'e) nor_flash \<Rightarrow> nat \<Rightarrow> object \<Rightarrow> ('f block_device, file_handle, db_error) action" where
  "delete_file F B file =
     and_then (delete_object F B file SoftVersion) (\<lambda>_. file_handle_of F B file)"

fun write_file_loop ::
  "('f, 'e) nor_flash \<Rightarrow> nat \<Rightarrow> file_handle \<Rightarrow> nat \<Rightarrow> nat \<Rightarrow> bytes list
   \<Rightarrow> ('f block_device, unit, db_error) action" where
  "write_file_loop F B fh max_n_frags frag_index [] = ret ()"
| "write_file_loop F B fh max_n_frags frag_index (chunk # rest) =
     (if frag_index \<ge> max_n_frags then throw E_NoSpaceAvailable
      else and_then (write_file_fragment F B fh (of_nat frag_index) chunk)
             (\<lambda>_. write_file_loop F B fh max_n_frags (Suc frag_index) rest))"

definition write_file ::
  "('f, 'e) nor_flash \<Rightarrow> nat \<Rightarrow> object \<Rightarrow> bytes \<Rightarrow> ('f block_device, unit, db_error) action" where
  "write_file F B file data =
     (if length data > obj_capacity_bytes B file then throw E_NoSpaceAvailable
      else
        and_then (lock F B file LockSpare) (\<lambda>_.
        and_then (delete_file F B file) (\<lambda>w_handle.
        if obj_fragment_size file = 0 then throw E_Panic
        else
          and_then (write_file_loop F B w_handle (fragment_count B file) 0
                      (chunks (obj_fragment_size file) data)) (\<lambda>_.
          unlock F B file LockSpare (fh_version w_handle)))))"

end
