(* ===== verification/File_Correct.thy ===== *)
theory File_Correct
  imports File_Store Block_Progress Circular_Theorems
begin

text \<open>
  Locking, deletion and versions of files: what the lock and a soft delete do on a flash that may
  fail, and how the version of a file changes.
\<close>

section \<open>Objects on the device\<close>

definition obj_ok :: "nat \<Rightarrow> ('a) object_scheme \<Rightarrow> bool" where
  "obj_ok tot ob \<longleftrightarrow> unat (obj_start ob) + 1 < unat (obj_end ob) \<and> unat (obj_end ob) \<le> tot"

lemma spare_block_range:
  assumes "obj_ok tot ob"
  shows "unat (spare_block ob) = unat (obj_end ob) - 1" and "unat (spare_block ob) < tot"
    and "unat (obj_start ob) < tot" and "obj_start ob \<noteq> spare_block ob"
proof -
  have ne: "obj_end ob \<noteq> 0" using assms by (auto simp: obj_ok_def)
  then show u: "unat (spare_block ob) = unat (obj_end ob) - 1" by (simp add: spare_block_def unat_minus_one)
  show "unat (spare_block ob) < tot" "unat (obj_start ob) < tot" using assms u by (auto simp: obj_ok_def)
  show "obj_start ob \<noteq> spare_block ob" using assms u by (auto simp: obj_ok_def)
qed

section \<open>Versions\<close>

text \<open>
  The version after a deletion. Only one of the two headers counts, against the default \<open>0xFF\<close>,
  so versions run from 0 to 127 and start again.
\<close>

lemma next_version: "newest_version v 0xFF + 1 = (if v < 127 then v + 1 else 0)"
proof -
  have lt: "unat v < 256" using unsigned_less [of v] by simp
  then have "v \<le> 0xFF" by (simp add: word_le_nat_alt)
  then have max: "max v 0xFF = 0xFF" "min v 0xFF = v" by (auto simp: max_def min_def)
  have "unat (0xFF - v) = 255 - unat v"
    using lt by (simp add: unat_sub word_le_nat_alt)
  then have "0xFF - v > 128 \<longleftrightarrow> v < 127" using lt by (auto simp: word_less_nat_alt)
  then show ?thesis by (simp add: newest_version_def max)
qed

lemma next_version_ne: "newest_version v 0xFF + 1 \<noteq> v"
  unfolding next_version by (auto simp: word_less_nat_alt)

section \<open>Locking\<close>

context nor_flash_contract begin

lemma keeps_lock_status [keeps]: "keeps_mem mem (lock_status_of F B ob mode)"
  unfolding lock_status_of_def
  by (cases mode) (auto intro!: keeps split: option.splits)

text \<open>An object is reported unlocked only if its spare block is its own, with an empty first fragment.\<close>

lemma lock_status_Unlocked:
  assumes dok: "dok B d" and sp: "unat (spare_block ob) < bd_blocks_total d"
    and ls: "lock_status_of F B ob mode d = (Ok (Unlocked v), d')"
  shows "\<exists>h. stored_header B (stored d) (spare_block ob) = Some h \<and> bh_object_id h = obj_id ob
    \<and> stored_status B (stored d) h 0 = Empty \<and> v = bh_object_version h"
proof -
  from ls obtain h d1 d2 where bh: "block_header F B (spare_block ob) d = (Ok (Some h), d1)"
    and own: "obj_id ob = bh_object_id h"
    and fs: "fragment_status F B h (bh_first_frag_no h) d1 = (Ok Empty, d2)" and v: "v = bh_object_version h"
    by (cases mode) (auto simp: lock_status_of_def elim!: and_then_OkE split: option.splits if_splits)
  note sh = block_header_Ok [OF dok sp bh] and k = keeps_memD [OF keeps_block_header bh]
  note hk = stored_header_ok(1) [OF sh [symmetric] sp]
  have "dok B d1" "hok B d1 h" using dok hk k by simp_all
  from fragment_status_Ok [OF this fs] have "stored_status B (stored d) h 0 = Empty"
    using k by (simp add: rel_frag_def)
  then show ?thesis using sh [symmetric] own v by (intro exI [of _ h]) simp
qed

lemma lock_locks:
  assumes dok: "dok B d" and sp: "unat (spare_block ob) < bd_blocks_total d"
    and lk: "lock F B ob mode d = (Ok (), d')"
  shows "bd_blocks_total d' = bd_blocks_total d \<and> dok B d'
    \<and> (\<forall>h. stored_header B (stored d') (spare_block ob) = Some h \<longrightarrow> stored_status B (stored d') h 0 \<noteq> Empty)"
proof -
  from lk obtain ho d1 where bh: "block_header F B (spare_block ob) d = (Ok ho, d1)"
    and rest: "(case ho of Some spare \<Rightarrow> map_err db_error_of_write (delete_fragment F B spare (bh_first_frag_no spare))
        | None \<Rightarrow> ret ()) d1 = (Ok (), d')"
    by (cases mode) (auto simp: lock_def elim!: and_then_OkE)
  note sh = block_header_Ok [OF dok sp bh] and k = keeps_memD [OF keeps_block_header bh]
  show ?thesis
  proof (cases ho)
    case None
    then show ?thesis using rest sh k dok by auto
  next
    case (Some h)
    note hk = stored_header_ok [OF sh [symmetric, unfolded Some] sp]
    have d1: "dok B d1" "hok B d1 h" using dok hk k by simp_all
    have df: "delete_fragment F B h (bh_first_frag_no h) d1 = (Ok (), d')" using rest Some by simp
    have eff: "bd_blocks_total d' = bd_blocks_total d1"
      "same_outside (status_pos B h 0 + 2) (status_pos B h 0 + 3) (stored d1) (stored d')"
      "stored_status B (stored d') h 0 \<in> {Obsolete, Invalid}" "0 < bh_frag_count h"
      using delete_fragment_outcome [OF d1 df] by (auto simp: rel_frag_def)
    have of: "only_fragment B h 0 (stored d1) (stored d')"
      by (rule only_fragment_status [OF eff(2)]) simp_all
    have "stored_header B (stored d') (spare_block ob) = Some h"
      using same_outside_header [OF only_fragment_same_outside [OF d1 eff(4) of] device_okD(1) [OF dok]]
        sh k Some by simp
    then show ?thesis
      using eff k dok dok_keep [OF dok] same_outside_length [OF eff(2)] by auto
  qed
qed

end

section \<open>Soft deletion\<close>

context torn_erase_flash begin

lemma format_step:
  assumes dok: "dok B d" and i: "unat block_id < bd_blocks_total d"
    and f: "format_block F B block_id oid v fs ffn d = (Ok (), d')"
  shows "bd_blocks_total d' = bd_blocks_total d" and "dok B d'"
    and "same_outside (block_pos B block_id) (block_pos B block_id + B) (stored d) (stored d')"
    and "\<exists>h. block_header_try_new B block_id oid v fs ffn = Ok h \<and> formatted B block_id h (stored d')"
  using format_block_effect [OF dok i f] block_dok_keep [OF dok] by auto

lemma formatted_kept:
  assumes "formatted B b h m" and "same_outside (block_pos B b') (block_pos B b' + B) m m'" and "b \<noteq> b'"
    and "block_pos B b + B \<le> length m" and "16 \<le> B"
  shows "formatted B b h m'"
proof -
  note dis = other_block_disjoint [OF assms(3), of B]
  have "seg (block_pos B b) 16 m' = seg (block_pos B b) 16 m"
    using dis assms(5) by (intro same_outside_seg [OF assms(2)]) auto
  moreover have "m' ! k = m ! k" if "block_pos B b + 16 \<le> k" "k < block_pos B b + B" for k
    using same_outside_nth [OF assms(2), of k] that dis assms(4) by auto
  ultimately show ?thesis using assms(1) by (auto simp: formatted_def stored_header_def)
qed

text \<open>
  A successful soft delete formats the first and the spare block with one new version, which is
  not the version of the header it was computed from, and leaves the other blocks alone.
\<close>

lemma delete_soft:
  assumes dok: "dok B d" and ob: "obj_ok (bd_blocks_total d) ob"
    and del: "delete_object F B ob SoftVersion d = (Ok (), d')"
  shows "bd_blocks_total d' = bd_blocks_total d \<and> dok B d'
    \<and> (\<exists>v h hs. formatted B (obj_start ob) h (stored d') \<and> formatted B (spare_block ob) hs (stored d')
        \<and> bh_object_version h = v \<and> bh_object_version hs = v
        \<and> bh_object_id h = obj_id ob \<and> bh_object_id hs = obj_id ob \<and> v \<le> 127
        \<and> bh_frag_size h = of_nat (obj_fragment_size ob) \<and> bh_frag_size hs = of_nat (obj_fragment_size ob))
    \<and> (\<forall>k < length (stored d). \<not> (block_pos B (obj_start ob) \<le> k \<and> k < block_pos B (obj_start ob) + B)
        \<and> \<not> (block_pos B (spare_block ob) \<le> k \<and> k < block_pos B (spare_block ob) + B)
        \<longrightarrow> stored d' ! k = stored d ! k)"
proof -
  note sp = spare_block_range [OF ob]
  let ?tot = "of_nat (fragment_count B ob) :: u32"
  obtain r1 d1 where b1: "block_header F B (obj_start ob) d = (r1, d1)" by fastforce
  obtain r2 d2 where b2: "block_header F B (spare_block ob) d1 = (r2, d2)" by fastforce
  have k: "stored d2 = stored d" "bd_blocks_total d2 = bd_blocks_total d"
    using keeps_memD [OF keeps_block_header b1] keeps_memD [OF keeps_block_header b2] by simp_all
  obtain v0 e0 where sc: "delete_scan ?tot [r1, r2] (0xFF, 0) = (v0, e0)" by fastforce
  define v where "v = newest_version v0 0xFF + 1"
  have "delete_soft_loop F B ob ?tot v [(obj_start ob, e0), (spare_block ob, 0)] d2 = (Ok (), d')"
    using del b1 b2 sc
    by (auto simp: delete_object_def attempt_def Let_def v_def simp del: delete_soft_loop.simps delete_scan.simps
        split: if_splits)
  then obtain d3 where
    f1: "format_block F B (obj_start ob) (obj_id ob) v (of_nat (obj_fragment_size ob))
           (obj_start ob * of_nat (fragments_per_block B ob) + (e0 + 1) * ?tot) d2 = (Ok (), d3)"
    and f2: "format_block F B (spare_block ob) (obj_id ob) v (of_nat (obj_fragment_size ob))
           (spare_block ob * of_nat (fragments_per_block B ob) + (0 + 1) * ?tot) d3 = (Ok (), d')"
    by (auto simp: Let_def elim!: and_then_OkE)
  have d2: "dok B d2" "unat (obj_start ob) < bd_blocks_total d2" using dok sp(3) k by simp_all
  note s1 = format_step [OF d2 f1]
  have i3: "unat (spare_block ob) < bd_blocks_total d3" using sp(2) s1(1) k by simp
  note s2 = format_step [OF s1(2) i3 f2]
  from s1(4) obtain h where h: "block_header_try_new B (obj_start ob) (obj_id ob) v (of_nat (obj_fragment_size ob))
      (obj_start ob * of_nat (fragments_per_block B ob) + (e0 + 1) * ?tot) = Ok h"
      "formatted B (obj_start ob) h (stored d3)" by blast
  from s2(4) obtain hs where hs: "block_header_try_new B (spare_block ob) (obj_id ob) v (of_nat (obj_fragment_size ob))
      (spare_block ob * of_nat (fragments_per_block B ob) + (0 + 1) * ?tot) = Ok hs"
      "formatted B (spare_block ob) hs (stored d')" by blast
  have i1: "unat (obj_start ob) < bd_blocks_total d3" using d2(2) s1(1) by simp
  have "formatted B (obj_start ob) h (stored d')"
    by (rule formatted_kept [OF h(2) s2(3) sp(4) block_in_device [OF s1(2) i1] device_okD(1) [OF dok]])
  moreover have "v \<le> 127" unfolding v_def next_version
    by (auto simp: word_le_nat_alt word_less_nat_alt unat_word_ariths)
  moreover have "stored d' ! k = stored d ! k" if "k < length (stored d)"
    "\<not> (block_pos B (obj_start ob) \<le> k \<and> k < block_pos B (obj_start ob) + B)"
    "\<not> (block_pos B (spare_block ob) \<le> k \<and> k < block_pos B (spare_block ob) + B)" for k
    using same_outside_nth [OF s1(3), of k] same_outside_nth [OF s2(3), of k] that
      same_outside_length [OF s1(3)] \<open>stored d2 = stored d\<close> by auto
  ultimately show ?thesis
    using hs(2) try_new_Ok [OF h(1)] try_new_Ok [OF hs(1)] s1(1) s2(1,2) k
    by (intro conjI exI [of _ v] exI [of _ h] exI [of _ hs]) auto
qed

end

end
