(* ===== verification/File_Theorems.thy ===== *)
theory File_Theorems
  imports File_Correct
begin

text \<open>
  The properties of the file store: the lock that keeps a half-written file from being read,
  deletion, and what an interrupted \<open>write_file\<close> leaves behind.
\<close>

section \<open>Files after a deletion\<close>

context torn_erase_flash begin

lemma read_first_fragment_fails:
  assumes dok: "dok B d" and fm: "formatted B (obj_start f) h (stored d)"
    and i: "unat (obj_start f) < bd_blocks_total d"
  shows "read_file_fragment F B \<lparr>fh_file = f, fh_version = v\<rparr> 0 len d \<noteq> (Ok bs, d')"
proof
  assume "read_file_fragment F B \<lparr>fh_file = f, fh_version = v\<rparr> 0 len d = (Ok bs, d')"
  then obtain h' len' d1 where bh: "block_header F B (obj_start f) d = (Ok (Some h'), d1)"
    and rf: "read_fragment F B h' (bh_first_frag_no h') len' d1 = (Ok bs, d')"
    by (auto simp: read_file_fragment_def file_fragment_place_def Let_def elim!: and_then_OkE
        split: if_splits option.splits)
  have sh: "stored_header B (stored d) (obj_start f) = Some h" using fm by (simp add: formatted_def)
  have h': "h' = h" using block_header_Ok [OF dok i bh] sh by simp
  note k = keeps_memD [OF keeps_block_header bh] and hk = stored_header_ok(1) [OF sh i]
  have d1: "dok B d1" "hok B d1 h" using dok hk k by simp_all
  from read_fragment_at_offset_Ok [OF d1, of "bh_first_frag_no h" 0 len' bs d'] rf h'
  have "0 < bh_frag_count h" "stored_status B (stored d) h 0 = Valid"
    using k by (simp_all add: read_fragment_def rel_frag_def)
  then show False using formatted_empty(1) [OF dok i fm, of 0] by simp
qed

lemma deleted_file_empty:
  assumes dok: "dok B d" and ob: "obj_ok (bd_blocks_total d) f"
    and del: "delete_file F B f d = (Ok fh, d1)" and rd: "read_file F B f n d1 = (Ok bs, d2)"
  shows "bs = []"
proof -
  from del obtain da where da: "delete_object F B f SoftVersion d = (Ok (), da)"
    and fh: "file_handle_of F B f da = (Ok fh, d1)"
    by (auto simp: delete_file_def elim!: and_then_OkE)
  from delete_soft [OF dok ob da] obtain h where
    a: "bd_blocks_total da = bd_blocks_total d" "dok B da" "formatted B (obj_start f) h (stored da)" by blast
  have k1: "keeps_mem mem (file_handle_of F B f)"
    unfolding file_handle_of_def by (auto intro!: keeps split: lock_status.splits)
  obtain fh' d1' where fh': "file_handle_of F B f d1 = (Ok fh', d1')"
    and lp: "read_file_loop F B fh' (fragment_count B f) 0
      (map length (chunks (obj_fragment_size f) [0..<min n (obj_capacity_bytes B f)])) [] d1' = (Ok bs, d2)"
    using rd by (auto simp: read_file_def Let_def elim!: and_then_OkE split: if_splits)
  obtain v where v: "fh' = \<lparr>fh_file = f, fh_version = v\<rparr>"
    using fh' by (auto simp: file_handle_of_def elim!: and_then_OkE split: lock_status.splits)
  note k = keeps_memD [OF k1 fh] keeps_memD [OF k1 fh']
  have e: "dok B d1'" "formatted B (obj_start f) h (stored d1')" "unat (obj_start f) < bd_blocks_total d1'"
    using a k spare_block_range(3) [OF ob] by simp_all
  show ?thesis
  proof (cases "chunks (obj_fragment_size f) [0..<min n (obj_capacity_bytes B f)]")
    case Nil
    then show ?thesis using lp by simp
  next
    case (Cons c cs)
    note no = read_first_fragment_fails [OF e, of v "length c"]
    show ?thesis using lp no unfolding v Cons
      by (auto simp: attempt_def split: if_splits prod.splits sum.splits db_error.splits)
  qed
qed

end

section \<open>A concrete file\<close>

definition ex_file :: object where
  "ex_file = \<lparr>obj_id = 7, obj_fragment_size = 4, obj_start = 0, obj_end = 3, obj_capacity = None\<rparr>"

definition ex_file_flash :: "in_memory_flash block_device" where
  "ex_file_flash = \<lparr>bd_flash = in_memory_new 128, bd_blocks_total = 4\<rparr>"

definition ex_file_written :: "in_memory_flash block_device" where
  "ex_file_written = snd (write_file (in_memory 32) 32 ex_file [1, 2, 3, 4, 5, 6, 7, 8] ex_file_flash)"

definition ex_file_locked :: "in_memory_flash block_device" where
  "ex_file_locked = snd (lock (in_memory 32) 32 ex_file LockSpare ex_file_written)"

definition ex_file_deleted :: "in_memory_flash block_device" where
  "ex_file_deleted = snd (delete_file (in_memory 32) 32 ex_file ex_file_written)"

lemma ex_file_runs:
  "write_file (in_memory 32) 32 ex_file [1, 2, 3, 4, 5, 6, 7, 8] ex_file_flash = (Ok (), ex_file_written)"
  "lock (in_memory 32) 32 ex_file LockSpare ex_file_written = (Ok (), ex_file_locked)"
  "delete_file (in_memory 32) 32 ex_file ex_file_written
     = (Ok \<lparr>fh_file = ex_file, fh_version = 1\<rparr>, ex_file_deleted)"
  by code_simp+

lemma ex_file_sizes:
  "length (memory (bd_flash ex_file_written)) = 128" "bd_blocks_total ex_file_written = 4"
  by code_simp+

lemma ex_file_ok:
  "device_ok 32 (memory (bd_flash ex_file_written)) (bd_blocks_total ex_file_written)"
  "obj_ok (bd_blocks_total ex_file_written) ex_file"
  "unat (spare_block ex_file) < bd_blocks_total ex_file_written"
  by (simp_all add: device_ok_def obj_ok_def ex_file_sizes ex_file_def spare_block_def)

section \<open>Properties\<close>

text \<open>
  A locked file cannot be read. Once \<open>lock\<close> has succeeded on a file (on any flash, with any
  faults), neither \<open>file_handle\<close> nor \<open>read_file\<close> succeeds, until the spare block changes.
\<close>

theorem locked_file_not_readable:
  assumes "nor_flash_contract F mem" and "device_ok B (mem (bd_flash d)) (bd_blocks_total d)"
    and "unat (spare_block f) < bd_blocks_total d" and "lock F B f LockSpare d = (Ok (), d1)"
  shows "file_handle_of F B f d1 \<noteq> (Ok fh, d2) \<and> read_file F B f n d1 \<noteq> (Ok bs, d3)"
proof -
  note lk = nor_flash_contract.lock_locks [OF assms]
  have no: "file_handle_of F B f d1 \<noteq> (Ok fh, d2)" for fh d2
  proof
    assume "file_handle_of F B f d1 = (Ok fh, d2)"
    then obtain v where "lock_status_of F B f LockSpare d1 = (Ok (Unlocked v), d2)"
      by (auto simp: file_handle_of_def elim!: and_then_OkE split: lock_status.splits)
    from nor_flash_contract.lock_status_Unlocked [OF assms(1) _ _ this] lk assms(3)
    show False by auto
  qed
  then show ?thesis by (auto simp: read_file_def elim!: and_then_OkE)
qed

theorem locked_file_not_readable_witness:
  "file_handle_of (in_memory 32) 32 ex_file ex_file_locked \<noteq> (Ok \<lparr>fh_file = ex_file, fh_version = 0\<rparr>, ex_file_locked)
   \<and> read_file (in_memory 32) 32 ex_file 8 ex_file_locked \<noteq> (Ok [1, 2, 3, 4, 5, 6, 7, 8], ex_file_locked)"
  by (rule locked_file_not_readable [OF mock.nor_flash_contract_axioms ex_file_ok(1,3) ex_file_runs(2)])

text \<open>
  A soft delete gives the file one new version: after success the first and the spare block
  are freshly formatted for this file with the same version, which lies between 0 and 127, and
  no byte outside the two blocks has changed.
\<close>

theorem soft_delete_effect:
  assumes "torn_erase_flash F mem" and "device_ok B (mem (bd_flash d)) (bd_blocks_total d)"
    and "obj_ok (bd_blocks_total d) ob" and "delete_object F B ob SoftVersion d = (Ok (), d')"
  shows "(\<exists>v h hs. formatted B (obj_start ob) h (mem (bd_flash d'))
        \<and> formatted B (spare_block ob) hs (mem (bd_flash d'))
        \<and> bh_object_version h = v \<and> bh_object_version hs = v
        \<and> bh_object_id h = obj_id ob \<and> bh_object_id hs = obj_id ob \<and> v \<le> 127)
    \<and> (\<forall>k < length (mem (bd_flash d)).
        k div B \<noteq> unat (obj_start ob) \<and> k div B \<noteq> unat (spare_block ob)
        \<longrightarrow> mem (bd_flash d') ! k = mem (bd_flash d) ! k)"
proof -
  have B: "0 < B" using device_okD(1) [OF assms(2)] by simp
  have out: "\<not> (block_pos B i \<le> k \<and> k < block_pos B i + B)" if "k div B \<noteq> unat i" for k i
    using that B by (auto simp: block_pos_def div_nat_eqI mult.commute add.commute)
  note eff = torn_erase_flash.delete_soft [OF assms]
  then have "\<exists>v h hs. formatted B (obj_start ob) h (mem (bd_flash d'))
        \<and> formatted B (spare_block ob) hs (mem (bd_flash d'))
        \<and> bh_object_version h = v \<and> bh_object_version hs = v
        \<and> bh_object_id h = obj_id ob \<and> bh_object_id hs = obj_id ob \<and> v \<le> 127" by blast
  moreover have "mem (bd_flash d') ! k = mem (bd_flash d) ! k"
    if "k < length (mem (bd_flash d))" "k div B \<noteq> unat (obj_start ob)" "k div B \<noteq> unat (spare_block ob)" for k
    using eff that(1) out [OF that(2)] out [OF that(3)] by blast
  ultimately show ?thesis by blast
qed

theorem soft_delete_effect_witness:
  "\<exists>h. formatted 32 0 h (memory (bd_flash (snd (delete_object (in_memory 32) 32 ex_file SoftVersion ex_file_written))))"
proof -
  have "delete_object (in_memory 32) 32 ex_file SoftVersion ex_file_written
      = (Ok (), snd (delete_object (in_memory 32) 32 ex_file SoftVersion ex_file_written))"
    by code_simp
  from soft_delete_effect [OF mock.torn_erase_flash_axioms ex_file_ok(1,2) this]
  show ?thesis by (auto simp: ex_file_def)
qed

text \<open>
  After a successful \<open>delete\<close> the file is empty: no call of \<open>read_file\<close> returns a byte of it.
\<close>

theorem deleted_file_reads_empty:
  assumes "torn_erase_flash F mem" and "device_ok B (mem (bd_flash d)) (bd_blocks_total d)"
    and "obj_ok (bd_blocks_total d) f" and "delete_file F B f d = (Ok fh, d1)"
    and "read_file F B f n d1 = (Ok bs, d2)"
  shows "bs = []"
  by (rule torn_erase_flash.deleted_file_empty [OF assms])

theorem deleted_file_reads_empty_witness:
  "fst (read_file (in_memory 32) 32 ex_file 0 ex_file_deleted) = Ok []"
proof -
  have "\<exists>bs. read_file (in_memory 32) 32 ex_file 0 ex_file_deleted
      = (Ok bs, snd (read_file (in_memory 32) 32 ex_file 0 ex_file_deleted))"
    by (rule exI [of _ "[]"]) code_simp
  then obtain bs where rd: "read_file (in_memory 32) 32 ex_file 0 ex_file_deleted
      = (Ok bs, snd (read_file (in_memory 32) 32 ex_file 0 ex_file_deleted))" ..
  from deleted_file_reads_empty [OF mock.torn_erase_flash_axioms ex_file_ok(1,2) ex_file_runs(3) rd]
  show ?thesis by (subst rd) simp
qed

text \<open>
  An example: an interrupted \<open>write_file\<close> may leave a part of the new file readable: \<open>delete\<close> formats the
  spare block, which releases the lock before any data is written. Here the eleventh flash write of
  overwriting an eight byte file fails; \<open>write_file\<close> reports the error, and \<open>read_file\<close> then returns
  the first four bytes of the new contents, which is neither the old file, nor the new one, nor an
  empty file.
\<close>

lemma interrupted_write_visible:
  "let broken = ex_file_written\<lparr>bd_flash :=
         trigger_write_error_after 10 (MockError OtherKind) (bd_flash ex_file_written)\<rparr>;
       (result, after) = write_file (in_memory 32) 32 ex_file [11, 12, 13, 14, 15, 16, 17, 18] broken
   in result = Err E_Flash \<and> fst (read_file (in_memory 32) 32 ex_file 8 after) = Ok [11, 12, 13, 14]"
  by code_simp

end
