(* ===== verification/Stream_Store.thy ===== *)
theory Stream_Store
  imports Circular_Store Peek_Queue
begin

text \<open>
  The stream store, \<open>storage/common/stream_store.rs\<close>: a persistent queue of variable-length items
  on a circular store, each item stored with its length and checksum. It is generic over the
  database (trait \<open>WriteableCircularStore\<close>), here a record of operations, of which \<open>database\<close> is
  the repository's own; the checksum of the crate \<open>crc\<close> is the parameter \<open>crc\<close>.
\<close>

section \<open>The database interface\<close>

record 'd circular_db =
  cdb_initialize :: "('d, init_status, db_error) action"
  cdb_find_range :: "circular \<Rightarrow> ('d, circular_range, db_error) action"
  cdb_read :: "circular \<Rightarrow> seq_no \<Rightarrow> nat \<Rightarrow> nat \<Rightarrow> ('d, bytes, db_error) action"
  cdb_write :: "circular \<Rightarrow> seq_no \<Rightarrow> bytes \<Rightarrow> ('d, unit, db_error) action"
  cdb_delete :: "circular \<Rightarrow> seq_no \<Rightarrow> ('d, unit, db_error) action"

definition database :: "('f, 'e) nor_flash \<Rightarrow> nat \<Rightarrow> 'f block_device circular_db" where
  "database F B =
     \<lparr>cdb_initialize = initialize_writeable_circular_store,
      cdb_find_range = find_circular_range F B,
      cdb_read = read_circular_fragment_at_offset F B,
      cdb_write = write_circular_fragment F B,
      cdb_delete = delete_circular_fragment F B\<rparr>"

section \<open>StreamStore\<close>

definition CRC_OVERHEAD_BYTES :: nat where
  [simp]: "CRC_OVERHEAD_BYTES = 4"

definition LEN_OVERHEAD_BYTES :: nat where
  [simp]: "LEN_OVERHEAD_BYTES = 2"

definition STREAM_OVERHEAD_BYTES :: nat where
  [simp]: "STREAM_OVERHEAD_BYTES = LEN_OVERHEAD_BYTES + CRC_OVERHEAD_BYTES"

definition MAX_PEEKS :: nat where
  [simp]: "MAX_PEEKS = 5"

record 'd stream_store =
  ss_store :: 'd
  ss_queue :: queue
  ss_init_done :: bool
  ss_circular :: circular

definition stream_new :: "nat \<Rightarrow> 'd \<Rightarrow> circular \<Rightarrow> 'd stream_store" where
  "stream_new B store c =
     \<lparr>ss_store = store,
      ss_queue = queue_with_overwrite_support MAX_PEEKS (fragment_count B c) (fragments_per_block B c),
      ss_init_done = False, ss_circular = c\<rparr>"

text \<open>A call on the field \<open>store\<close>.\<close>

definition on_store :: "('d, 'a, 'e) action \<Rightarrow> ('d stream_store, 'a, 'e) action" where
  "on_store m s = (case m (ss_store s) of (r, d) \<Rightarrow> (r, s\<lparr>ss_store := d\<rparr>))"

definition stream_initialize :: "'d circular_db \<Rightarrow> ('d stream_store, unit, db_error) action" where
  "stream_initialize DB s =
     (if ss_init_done s then ret () s
      else and_then (on_store (cdb_initialize DB)) (\<lambda>_.
           and_then (on_store (cdb_find_range DB (ss_circular s))) (\<lambda>rng s1.
             (Ok (), s1\<lparr>ss_queue := reinit_with_existing_range MAX_PEEKS (read_at rng, write_at rng) (ss_queue s1),
                        ss_init_done := True\<rparr>))) s)"

definition stream_is_drained :: "'d circular_db \<Rightarrow> ('d stream_store, bool, db_error) action" where
  "stream_is_drained DB =
     and_then (stream_initialize DB) (\<lambda>_ s.
       case queue_is_drained MAX_PEEKS (ss_queue s) of (b, q) \<Rightarrow> (Ok b, s\<lparr>ss_queue := q\<rparr>))"

definition stream_wait_confirmation :: "'d stream_store \<Rightarrow> 'd stream_store option" where
  "stream_wait_confirmation s =
     map_option (\<lambda>q. s\<lparr>ss_queue := q\<rparr>) (wait_confirmation MAX_PEEKS (ss_queue s))"

text \<open>
  The clean-up loop of \<open>peek_next\<close>: it runs from \<open>oldest\<close> up to the new lower bound, so its
  number of rounds is their distance.
\<close>

fun delete_confirmed ::
  "'d circular_db \<Rightarrow> circular \<Rightarrow> nat \<Rightarrow> seq_no \<Rightarrow> ('d stream_store, unit, db_error) action" where
  "delete_confirmed DB c 0 oldest = ret ()"
| "delete_confirmed DB c (Suc rounds) oldest =
     attempt (on_store (cdb_delete DB c oldest)) (\<lambda>r. case r of
         Ok _ \<Rightarrow> delete_confirmed DB c rounds (oldest + 1)
       | Err E_FragmentNotFound \<Rightarrow> delete_confirmed DB c rounds (oldest + 1)
       | Err err \<Rightarrow> throw err)"

definition confirm_and_throw :: "confirm_handle \<Rightarrow> db_error \<Rightarrow> ('d stream_store, 'a, db_error) action" where
  "confirm_and_throw h e s = (Err e, s\<lparr>ss_queue := handle_confirm MAX_PEEKS h (ss_queue s)\<rparr>)"

definition drop_and_throw :: "confirm_handle \<Rightarrow> db_error \<Rightarrow> ('d stream_store, 'a, db_error) action" where
  "drop_and_throw h e s = (Err e, s\<lparr>ss_queue := handle_drop MAX_PEEKS h (ss_queue s)\<rparr>)"

text \<open>The second half of \<open>peek_next\<close>: read the item of a handle.\<close>

definition read_item ::
  "'d circular_db \<Rightarrow> (bytes \<Rightarrow> u32) \<Rightarrow> circular \<Rightarrow> nat \<Rightarrow> confirm_handle
   \<Rightarrow> ('d stream_store, (bytes \<times> confirm_handle) option, db_error) action" where
  "read_item DB crc c buffer_len h =
     attempt (on_store (cdb_read DB c (ch_id h) STREAM_OVERHEAD_BYTES 0)) (\<lambda>r. case r of
         Err error \<Rightarrow>
           if error = E_Flash \<or> error = E_InvalidObject then drop_and_throw h error
           else confirm_and_throw h error
       | Ok bs \<Rightarrow>
           (let header_buffer = bs @ replicate (STREAM_OVERHEAD_BYTES - length bs) 0;
                data_len = unat (u16_from_le (take LEN_OVERHEAD_BYTES header_buffer));
                data_crc = u32_from_le (drop LEN_OVERHEAD_BYTES header_buffer)
            in if buffer_len < data_len then confirm_and_throw h E_BufferTooSmall
               else attempt (on_store (cdb_read DB c (ch_id h) data_len STREAM_OVERHEAD_BYTES)) (\<lambda>r2.
                 case r2 of
                   Err error \<Rightarrow> confirm_and_throw h error
                 | Ok item \<Rightarrow>
                     if data_len \<noteq> length item \<or> data_crc \<noteq> crc item
                     then confirm_and_throw h E_FragmentNotReadable
                     else ret (Some (item, h)))))"

definition stream_peek_next ::
  "'d circular_db \<Rightarrow> (bytes \<Rightarrow> u32) \<Rightarrow> nat
   \<Rightarrow> ('d stream_store, (bytes \<times> confirm_handle) option, db_error) action" where
  "stream_peek_next DB crc buffer_len =
     and_then (stream_initialize DB) (\<lambda>_ s.
       let oldest_fragment = fst (existing_range (ss_queue s));
           (peek_result, q) = queue_peek_next MAX_PEEKS (ss_queue s);
           c = ss_circular s;
           rng = existing_range q
       in attempt (delete_confirmed DB c (unat (fst rng - oldest_fragment)) oldest_fragment) (\<lambda>r.
            case r of
              Err err \<Rightarrow> (case peek_result of
                  Ok h \<Rightarrow> drop_and_throw h err
                | Err _ \<Rightarrow> throw err)
            | Ok _ \<Rightarrow> (case peek_result of
                  Ok h \<Rightarrow> read_item DB crc c buffer_len h
                | Err blocking \<Rightarrow> ret None)) (s\<lparr>ss_queue := q\<rparr>))"

definition stream_prefix :: "(bytes \<Rightarrow> u32) \<Rightarrow> bytes \<Rightarrow> bytes" where
  "stream_prefix crc data = u16_to_le (of_nat (length data)) @ u32_to_le (crc data)"

definition stream_enqueue ::
  "'d circular_db \<Rightarrow> (bytes \<Rightarrow> u32) \<Rightarrow> nat \<Rightarrow> bytes \<Rightarrow> ('d stream_store, seq_no, db_error) action" where
  "stream_enqueue DB crc B data =
     and_then (stream_initialize DB) (\<lambda>_ s.
       let n = writable_seq_no (ss_queue s);
           c = ss_circular s;
           len = length data
       in if len > obj_fragment_size c - STREAM_OVERHEAD_BYTES then throw E_FragmentTooLarge s
          else if STREAM_OVERHEAD_BYTES + len > B then throw E_FragmentTooLarge s
          else
            attempt (on_store (cdb_write DB c n (stream_prefix crc data @ data))) (\<lambda>write_result s1.
              case write_result of
                Ok _ \<Rightarrow> (case queue_enqueue (ss_queue s1) of
                    (Ok _, q) \<Rightarrow> (Ok n, s1\<lparr>ss_queue := q\<rparr>)
                  | (Err _, q) \<Rightarrow> (Err E_NoSpaceAvailable, s1\<lparr>ss_queue := q\<rparr>))
              | Err err \<Rightarrow>
                  if err = E_FragmentNotWriteable \<or> err = E_FragmentExists
                  then (Err err, s1\<lparr>ss_queue := snd (queue_enqueue (ss_queue s1))\<rparr>)
                  else (Err err, s1)) s)"

end
