(* ===== verification/Topics.thy ===== *)
theory Topics
  imports Prelude
begin

text \<open>
  The MQTT topics of the protocol crate, \<open>sensor-link-protocol/src/topics.rs\<close>: the topic types, the
  strings \<open>prefix/uid/topic\<close> built from them and the parsers of these strings. A \<open>&str\<close> is its
  list of UTF-8 bytes, so \<open>len\<close> is the length in bytes; a \<open>heapless::String<N>\<close> refuses a write
  that would exceed \<open>N\<close> bytes.
\<close>

section \<open>Constants\<close>

definition MAX_TOPIC_PREFIX_LEN :: nat where
  [simp]: "MAX_TOPIC_PREFIX_LEN = 8"

definition MAX_UID_LEN :: nat where
  [simp]: "MAX_UID_LEN = 9"

definition MAX_TOPIC_LEN :: nat where
  [simp]: "MAX_TOPIC_LEN = 40"

section \<open>Topics\<close>

datatype system_topic = SMSRequest | SMSResponse | ServerStatus

fun system_topic_as_str :: "system_topic \<Rightarrow> string" where
  "system_topic_as_str SMSRequest = ''sms/req''"
| "system_topic_as_str SMSResponse = ''sms/resp''"
| "system_topic_as_str ServerStatus = ''server/status''"

definition system_topic_try_from :: "string \<Rightarrow> (system_topic, unit) result" where
  "system_topic_try_from value =
     (if value = ''sms/req'' then Ok SMSRequest
      else if value = ''sms/resp'' then Ok SMSResponse
      else if value = ''server/status'' then Ok ServerStatus
      else Err ())"

definition parse_system_topic :: "string \<Rightarrow> system_topic option" where
  "parse_system_topic value = (case system_topic_try_from value of Ok t \<Rightarrow> Some t | Err _ \<Rightarrow> None)"

datatype topic_from_device =
    Online | Event | FWStatus | DeviceInfoV2 | DeviceInfoV3 | Status
  | BenchmarkEvent | BenchmarkData | ChargerStatus

datatype topic_to_device = Command | FWUpdateAnnounce | Time

fun topic_from_name :: "topic_from_device \<Rightarrow> string" where
  "topic_from_name Online = ''online''"
| "topic_from_name Event = ''events''"
| "topic_from_name FWStatus = ''fw_update/status''"
| "topic_from_name DeviceInfoV2 = ''info_v2''"
| "topic_from_name DeviceInfoV3 = ''info_v3''"
| "topic_from_name Status = ''status''"
| "topic_from_name ChargerStatus = ''charger_status''"
| "topic_from_name BenchmarkEvent = ''benchmark_event''"
| "topic_from_name BenchmarkData = ''benchmark_data''"

fun topic_to_name :: "topic_to_device \<Rightarrow> string" where
  "topic_to_name Command = ''commands''"
| "topic_to_name FWUpdateAnnounce = ''fw_update/meta''"
| "topic_to_name Time = ''time''"

section \<open>Building topic strings\<close>

datatype topic_serialize_error = PrefixLength | UIDLength | SuffixLength | TotalLength | OtherSerialize

definition validate_prefix :: "string \<Rightarrow> (string, topic_serialize_error) result" where
  "validate_prefix prefix =
     (if length prefix \<le> MAX_TOPIC_PREFIX_LEN then Ok prefix else Err PrefixLength)"

definition validate_uid :: "string \<Rightarrow> (string, topic_serialize_error) result" where
  "validate_uid prefix = (if length prefix \<le> MAX_UID_LEN then Ok prefix else Err UIDLength)"

text \<open>\<open>write!\<close> into a \<open>heapless::String<N>\<close> that is empty: \<open>None\<close> if the text does not fit.\<close>

definition write_str :: "nat \<Rightarrow> string \<Rightarrow> string option" where
  "write_str N s = (if length s \<le> N then Some s else None)"

definition build_topic_string ::
  "string \<Rightarrow> string \<Rightarrow> string \<Rightarrow> (string, topic_serialize_error) result" where
  "build_topic_string prefix uid topic_part =
     (case validate_prefix prefix of
        Err e \<Rightarrow> Err e
      | Ok prefix_str \<Rightarrow>
          (case validate_uid uid of
             Err e \<Rightarrow> Err e
           | Ok uid_str \<Rightarrow>
               (case write_str MAX_TOPIC_LEN (prefix_str @ ''/'' @ uid_str @ ''/'' @ topic_part) of
                  None \<Rightarrow> Err TotalLength
                | Some output \<Rightarrow> Ok output)))"

definition from_device_string_with_prefix ::
  "topic_from_device \<Rightarrow> string \<Rightarrow> string \<Rightarrow> (string, topic_serialize_error) result" where
  "from_device_string_with_prefix t prefix uid = build_topic_string prefix uid (topic_from_name t)"

definition from_device_string ::
  "topic_from_device \<Rightarrow> string \<Rightarrow> (string, topic_serialize_error) result" where
  "from_device_string t uid = from_device_string_with_prefix t ''f'' uid"

definition to_device_string_with_prefix ::
  "topic_to_device \<Rightarrow> string \<Rightarrow> string \<Rightarrow> (string, topic_serialize_error) result" where
  "to_device_string_with_prefix t prefix uid = build_topic_string prefix uid (topic_to_name t)"

definition to_device_string :: "topic_to_device \<Rightarrow> string \<Rightarrow> (string, topic_serialize_error) result" where
  "to_device_string t uid = to_device_string_with_prefix t ''t'' uid"

section \<open>Parsing\<close>

datatype topic_parse_error = NoMatch | MissingPrefix | SuffixParse

record 't topic_parts =
  tp_prefix :: string
  tp_device_id :: string
  tp_topic :: 't

text \<open>\<open>str::splitn\<close>: at most \<open>n\<close> parts, the last one keeps the rest of the string.\<close>

fun splitn :: "nat \<Rightarrow> char \<Rightarrow> string \<Rightarrow> string list" where
  "splitn 0 c s = []"
| "splitn (Suc 0) c s = [s]"
| "splitn (Suc (Suc n)) c s =
     (if c \<in> set s then takeWhile (\<lambda>x. x \<noteq> c) s # splitn (Suc n) c (tl (dropWhile (\<lambda>x. x \<noteq> c) s))
      else [s])"

definition parse_topic_parts ::
  "(string \<Rightarrow> 't option) \<Rightarrow> string \<Rightarrow> ('t topic_parts, topic_parse_error) result" where
  "parse_topic_parts parse_name topic =
     (case splitn 3 CHR ''/'' topic of
        [prefix, device_id, topic_name] \<Rightarrow>
          (case parse_name topic_name of
             None \<Rightarrow> Err NoMatch
           | Some t \<Rightarrow> Ok \<lparr>tp_prefix = prefix, tp_device_id = device_id, tp_topic = t\<rparr>)
      | _ \<Rightarrow> Err MissingPrefix)"

definition parse_from_name :: "string \<Rightarrow> topic_from_device option" where
  "parse_from_name n =
     (if n = ''online'' then Some Online
      else if n = ''benchmark_data'' then Some BenchmarkData
      else if n = ''benchmark_event'' then Some BenchmarkEvent
      else if n = ''events'' then Some Event
      else if n = ''status'' then Some Status
      else if n = ''charger_status'' then Some ChargerStatus
      else if n = ''info_v2'' then Some DeviceInfoV2
      else if n = ''info_v3'' then Some DeviceInfoV3
      else if n = ''fw_update/status'' then Some FWStatus
      else None)"

definition parse_topic_from_device :: "string \<Rightarrow> (topic_from_device topic_parts, topic_parse_error) result" where
  "parse_topic_from_device topic = parse_topic_parts parse_from_name topic"

definition parse_to_name :: "string \<Rightarrow> topic_to_device option" where
  "parse_to_name n =
     (if n = ''commands'' then Some Command
      else if n = ''time'' then Some Time
      else if n = ''fw_update/meta'' then Some FWUpdateAnnounce
      else None)"

definition parse_topic_to_device :: "string \<Rightarrow> (topic_to_device topic_parts, topic_parse_error) result" where
  "parse_topic_to_device topic = parse_topic_parts parse_to_name topic"

section \<open>Splitting and joining\<close>

lemma splitn_append:
  assumes "c \<notin> set p"
  shows "splitn (Suc (Suc n)) c (p @ c # r) = p # splitn (Suc n) c r"
proof -
  have "takeWhile (\<lambda>x. x \<noteq> c) (p @ c # r) = p" "dropWhile (\<lambda>x. x \<noteq> c) (p @ c # r) = c # r"
    using assms by (induction p) auto
  then show ?thesis by simp
qed

lemma splitn_ConsE:
  assumes "splitn (Suc (Suc n)) c s = x # y # zs"
  obtains r where "c \<notin> set x" and "s = x @ c # r" and "splitn (Suc n) c r = y # zs"
proof -
  have "c \<in> set s" using assms by (simp split: if_splits)
  then obtain p r where s: "s = p @ c # r" "c \<notin> set p" by (meson split_list_first)
  with assms that show thesis unfolding s(1) splitn_append [OF s(2)] by simp
qed

lemma splitn_3:
  "splitn 3 c s = [p, d, n] \<longleftrightarrow> c \<notin> set p \<and> c \<notin> set d \<and> s = p @ c # d @ c # n"
proof
  assume "splitn 3 c s = [p, d, n]"
  then have "splitn (Suc (Suc 1)) c s = p # d # [n]" by (simp add: numeral_3_eq_3)
  then obtain r where r: "c \<notin> set p" "s = p @ c # r" "splitn (Suc (Suc 0)) c r = d # n # []"
    by (rule splitn_ConsE) simp
  from r(3) obtain r' where "c \<notin> set d" "r = d @ c # r'" "splitn (Suc 0) c r' = [n]" by (rule splitn_ConsE)
  with r show "c \<notin> set p \<and> c \<notin> set d \<and> s = p @ c # d @ c # n" by simp
next
  assume "c \<notin> set p \<and> c \<notin> set d \<and> s = p @ c # d @ c # n"
  then show "splitn 3 c s = [p, d, n]"
    using splitn_append [of c p 1 "d @ c # n"] splitn_append [of c d 0 n]
    by (simp add: numeral_3_eq_3 del: splitn.simps(3))
qed

text \<open>
  The interface between topic names and topics: \<open>parse_name\<close> is the inverse of \<open>name\<close>. It is all
  that parsing a topic string relies on.
\<close>

locale topic_names =
  fixes name :: "'t \<Rightarrow> string" and parse_name :: "string \<Rightarrow> 't option"
  assumes parse_name_iff: "parse_name n = Some t \<longleftrightarrow> n = name t"
begin

lemma parse_parts_iff:
  "parse_topic_parts parse_name s = Ok ps \<longleftrightarrow>
     CHR ''/'' \<notin> set (tp_prefix ps) \<and> CHR ''/'' \<notin> set (tp_device_id ps)
     \<and> s = tp_prefix ps @ ''/'' @ tp_device_id ps @ ''/'' @ name (tp_topic ps)"
proof
  assume "parse_topic_parts parse_name s = Ok ps"
  then obtain n where n: "splitn 3 CHR ''/'' s = [tp_prefix ps, tp_device_id ps, n]"
    "parse_name n = Some (tp_topic ps)"
    by (auto simp: parse_topic_parts_def split: list.splits option.splits)
  then show "CHR ''/'' \<notin> set (tp_prefix ps) \<and> CHR ''/'' \<notin> set (tp_device_id ps)
     \<and> s = tp_prefix ps @ ''/'' @ tp_device_id ps @ ''/'' @ name (tp_topic ps)"
    by (simp add: splitn_3 parse_name_iff)
next
  assume "CHR ''/'' \<notin> set (tp_prefix ps) \<and> CHR ''/'' \<notin> set (tp_device_id ps)
     \<and> s = tp_prefix ps @ ''/'' @ tp_device_id ps @ ''/'' @ name (tp_topic ps)"
  then have "splitn 3 CHR ''/'' s = [tp_prefix ps, tp_device_id ps, name (tp_topic ps)]"
    by (simp add: splitn_3)
  moreover have "parse_name (name (tp_topic ps)) = Some (tp_topic ps)" by (simp add: parse_name_iff)
  ultimately show "parse_topic_parts parse_name s = Ok ps" by (simp add: parse_topic_parts_def)
qed

lemma build_parse:
  assumes "CHR ''/'' \<notin> set prefix" and "CHR ''/'' \<notin> set uid"
    and "length prefix \<le> MAX_TOPIC_PREFIX_LEN" and "length uid \<le> MAX_UID_LEN" and "length (name t) \<le> 21"
  shows "\<exists>s. build_topic_string prefix uid (name t) = Ok s \<and> length s \<le> MAX_TOPIC_LEN
    \<and> parse_topic_parts parse_name s = Ok \<lparr>tp_prefix = prefix, tp_device_id = uid, tp_topic = t\<rparr>"
  using assms by (simp add: build_topic_string_def validate_prefix_def validate_uid_def write_str_def parse_parts_iff)

end

interpretation from_device: topic_names topic_from_name parse_from_name
proof
  show "parse_from_name n = Some t \<longleftrightarrow> n = topic_from_name t" for n t
    by (cases t) (auto simp: parse_from_name_def split: if_splits)
qed

interpretation to_device: topic_names topic_to_name parse_to_name
proof
  show "parse_to_name n = Some t \<longleftrightarrow> n = topic_to_name t" for n t
    by (cases t) (auto simp: parse_to_name_def split: if_splits)
qed

section \<open>Properties\<close>

text \<open>
  C32. Every topic has a string, and it parses back: for a prefix and a device id within their length
  limits that contain no slash, building the string of any topic, from or to the device, succeeds
  within the limit of the topic length, and parsing the string returns the three parts.
\<close>

theorem topic_string_roundtrip:
  assumes "CHR ''/'' \<notin> set prefix" and "CHR ''/'' \<notin> set uid"
    and "length prefix \<le> MAX_TOPIC_PREFIX_LEN" and "length uid \<le> MAX_UID_LEN"
  shows "(\<exists>s. from_device_string_with_prefix t prefix uid = Ok s \<and> length s \<le> MAX_TOPIC_LEN
      \<and> parse_topic_from_device s = Ok \<lparr>tp_prefix = prefix, tp_device_id = uid, tp_topic = t\<rparr>)
    \<and> (\<exists>s. to_device_string_with_prefix t' prefix uid = Ok s \<and> length s \<le> MAX_TOPIC_LEN
      \<and> parse_topic_to_device s = Ok \<lparr>tp_prefix = prefix, tp_device_id = uid, tp_topic = t'\<rparr>)"
proof -
  have "length (topic_from_name t) \<le> 21" "length (topic_to_name t') \<le> 21" by (cases t; simp) (cases t'; simp)
  then show ?thesis
    using from_device.build_parse [OF assms, of t] to_device.build_parse [OF assms, of t']
    by (simp add: from_device_string_with_prefix_def to_device_string_with_prefix_def
        parse_topic_from_device_def parse_topic_to_device_def)
qed

theorem topic_string_roundtrip_witness:
  "\<exists>s. from_device_string_with_prefix FWStatus ''f'' ''1234-5678'' = Ok s
    \<and> parse_topic_from_device s = Ok \<lparr>tp_prefix = ''f'', tp_device_id = ''1234-5678'', tp_topic = FWStatus\<rparr>"
  using topic_string_roundtrip [of "''f''" "''1234-5678''" FWStatus Time] by auto

text \<open>
  Parsing accepts exactly the topic strings: \<open>parse_topic_from_device\<close> succeeds with a prefix, a
  device id and a topic if and only if neither of the first two contains a slash and the input is
  the string built from the three. Every other input is an error.
\<close>

theorem parse_topic_exact:
  "parse_topic_from_device s = Ok ps \<longleftrightarrow>
     CHR ''/'' \<notin> set (tp_prefix ps) \<and> CHR ''/'' \<notin> set (tp_device_id ps)
     \<and> s = tp_prefix ps @ ''/'' @ tp_device_id ps @ ''/'' @ topic_from_name (tp_topic ps)"
  unfolding parse_topic_from_device_def by (rule from_device.parse_parts_iff)

end
