(* ===== verification/Sendable.thy ===== *)
theory Sendable
  imports Topics
begin

text \<open>
  Serialized messages, \<open>sensor-link-firmware/src/serialize.rs\<close>: a topic header of eight bytes, made
  unreadable by a constant mask, and a payload, in a fixed buffer of \<open>MAX_OUTPUT_LEN\<close> bytes (the
  argument \<open>M\<close>).

  Topics are encoded by the crate \<open>postcard\<close>, which is not part of the repository: the record
  \<open>topic_codec\<close> has its two functions. \<open>tc_encode\<close> is the byte string that \<open>postcard::to_slice\<close>
  writes to the front of a buffer, if it has room; \<open>tc_decode\<close> reads a topic from the front of a
  buffer.
\<close>

section \<open>Types\<close>

record 't topic_codec =
  tc_encode :: "'t \<Rightarrow> bytes"
  tc_decode :: "bytes \<Rightarrow> 't option"

definition TOPIC_HEADER_SIZE :: nat where
  [simp]: "TOPIC_HEADER_SIZE = 8"

record sendable =
  sd_bytes :: bytes
  sd_payload_len :: nat

text \<open>\<open>Builder\<close> is its buffer; \<open>BuilderWithTopic\<close> has the topic too.\<close>

type_synonym builder = bytes

record 't builder_with_topic =
  bt_bytes :: bytes
  bt_topic :: 't

datatype length_error = TooLong | TooShort

text \<open>
  \<open>BE_Panic\<close>: a buffer size for which the assertions in \<open>calc_max_payload_len\<close> fail; the compiler
  refuses it, since \<open>MAX_PAYLOAD_LEN\<close> is a constant.
\<close>

datatype build_error = TopicSerializeFailed | PayloadTooLong | BE_Panic

section \<open>Operations\<close>

definition calc_max_payload_len :: "nat \<Rightarrow> nat option" where
  "calc_max_payload_len output_len =
     (if output_len > TOPIC_HEADER_SIZE \<and> output_len - TOPIC_HEADER_SIZE \<le> 1500
      then Some (output_len - TOPIC_HEADER_SIZE) else None)"

definition builder_new :: "nat \<Rightarrow> builder" where
  "builder_new M = replicate M 0"

definition create_with_total_length :: "nat \<Rightarrow> builder \<Rightarrow> nat \<Rightarrow> (sendable, length_error) result" where
  "create_with_total_length M b total_len =
     (if total_len > M then Err TooLong
      else if total_len < TOPIC_HEADER_SIZE then Err TooShort
      else Ok \<lparr>sd_bytes = b, sd_payload_len = total_len - TOPIC_HEADER_SIZE\<rparr>)"

definition builder_with_topic_new :: "nat \<Rightarrow> 't \<Rightarrow> 't builder_with_topic" where
  "builder_with_topic_new M t = \<lparr>bt_bytes = replicate M 0, bt_topic = t\<rparr>"

text \<open>Writing into the slice that \<open>payload_buffer\<close> returns.\<close>

definition payload_buffer :: "'t builder_with_topic \<Rightarrow> bytes" where
  "payload_buffer b = drop TOPIC_HEADER_SIZE (bt_bytes b)"

definition write_payload :: "bytes \<Rightarrow> 't builder_with_topic \<Rightarrow> 't builder_with_topic" where
  "write_payload p b =
     b\<lparr>bt_bytes := take TOPIC_HEADER_SIZE (bt_bytes b) @ p @ drop (length p) (payload_buffer b)\<rparr>"

definition serialize_topic_header ::
  "'t topic_codec \<Rightarrow> 't \<Rightarrow> bytes \<Rightarrow> (bytes, build_error) result" where
  "serialize_topic_header TC t buffer =
     (let e = tc_encode TC t
      in if length e > length buffer then Err TopicSerializeFailed
         else Ok (map (\<lambda>byte. byte XOR 0xA5) (e @ drop (length e) buffer)))"

definition deserialize_topic_header :: "'t topic_codec \<Rightarrow> bytes \<Rightarrow> 't option" where
  "deserialize_topic_header TC buffer = tc_decode TC (map (\<lambda>byte. byte XOR 0xA5) buffer)"

definition create_with_payload_length ::
  "'t topic_codec \<Rightarrow> nat \<Rightarrow> 't builder_with_topic \<Rightarrow> nat \<Rightarrow> (sendable, build_error) result" where
  "create_with_payload_length TC M b payload_len =
     (case calc_max_payload_len M of
        None \<Rightarrow> Err BE_Panic
      | Some max_payload \<Rightarrow>
          if payload_len > max_payload then Err PayloadTooLong
          else (case serialize_topic_header TC (bt_topic b) (take TOPIC_HEADER_SIZE (bt_bytes b)) of
                  Err e \<Rightarrow> Err e
                | Ok header \<Rightarrow>
                    Ok \<lparr>sd_bytes = header @ drop TOPIC_HEADER_SIZE (bt_bytes b), sd_payload_len = payload_len\<rparr>))"

definition try_from_slice :: "nat \<Rightarrow> bytes \<Rightarrow> (sendable, length_error) result" where
  "try_from_slice M slc =
     (if length slc > M then Err TooLong
      else if length slc < TOPIC_HEADER_SIZE then Err TooShort
      else Ok \<lparr>sd_bytes = slc @ replicate (M - length slc) 0,
               sd_payload_len = length slc - TOPIC_HEADER_SIZE\<rparr>)"

definition as_slice :: "sendable \<Rightarrow> bytes" where
  "as_slice s = take (TOPIC_HEADER_SIZE + sd_payload_len s) (sd_bytes s)"

definition payload_bytes :: "sendable \<Rightarrow> bytes" where
  "payload_bytes s = seg TOPIC_HEADER_SIZE (sd_payload_len s) (sd_bytes s)"

definition header_bytes :: "sendable \<Rightarrow> bytes" where
  "header_bytes s = take TOPIC_HEADER_SIZE (sd_bytes s)"

definition sendable_topic :: "'t topic_codec \<Rightarrow> sendable \<Rightarrow> 't option" where
  "sendable_topic TC s = deserialize_topic_header TC (header_bytes s)"

section \<open>Lemmas\<close>

text \<open>What the module relies on: decoding reads back what was encoded, whatever bytes follow.\<close>

locale topic_codec_contract =
  fixes TC :: "'t topic_codec"
  assumes decode_encode: "tc_decode TC (tc_encode TC t @ rest) = Some t"
begin

lemma header_roundtrip_topic:
  assumes "serialize_topic_header TC t buffer = Ok h"
  shows "deserialize_topic_header TC h = Some t \<and> length h = length buffer"
proof -
  have e: "length (tc_encode TC t) \<le> length buffer"
    and h: "h = map (\<lambda>byte. byte XOR 0xA5) (tc_encode TC t @ drop (length (tc_encode TC t)) buffer)"
    using assms by (auto simp: serialize_topic_header_def Let_def split: if_splits)
  have "map (\<lambda>byte. byte XOR 0xA5) h = tc_encode TC t @ drop (length (tc_encode TC t)) buffer"
    unfolding h by (simp add: comp_def xor.assoc)
  then show ?thesis using e h by (simp add: deserialize_topic_header_def decode_encode)
qed

end

text \<open>A slice determines the header and the payload.\<close>

lemma as_slice_parts:
  assumes "TOPIC_HEADER_SIZE + sd_payload_len s \<le> length (sd_bytes s)"
  shows "header_bytes s = take 8 (as_slice s)" and "payload_bytes s = drop 8 (as_slice s)"
    and "length (as_slice s) = 8 + sd_payload_len s"
  using assms by (simp_all add: header_bytes_def payload_bytes_def as_slice_def seg_def drop_take min.absorb1)

text \<open>Both ways to rebuild a message from its slice.\<close>

lemma try_from_slice_as_slice:
  assumes "try_from_slice M slc = Ok s"
  shows "as_slice s = slc" and "length (sd_bytes s) = M" and "sd_payload_len s + 8 = length slc"
  using assms by (auto simp: try_from_slice_def as_slice_def split: if_splits)

lemma create_with_total_length_as_slice:
  assumes "create_with_total_length M (slc @ rest) (length slc) = Ok s"
  shows "as_slice s = slc" and "sd_payload_len s + 8 = length slc" and "sd_bytes s = slc @ rest"
  using assms by (auto simp: create_with_total_length_def as_slice_def split: if_splits)

text \<open>
  An instance of the codec: \<open>postcard\<close> encodes a variant without data as its index, which fits in
  one byte.
\<close>

definition ex_topics :: "topic_from_device list" where
  "ex_topics = [Online, Event, FWStatus, DeviceInfoV2, DeviceInfoV3, Status, BenchmarkEvent, BenchmarkData,
     ChargerStatus]"

fun ex_index :: "topic_from_device \<Rightarrow> u8" where
  "ex_index Online = 0"
| "ex_index Event = 1"
| "ex_index FWStatus = 2"
| "ex_index DeviceInfoV2 = 3"
| "ex_index DeviceInfoV3 = 4"
| "ex_index Status = 5"
| "ex_index BenchmarkEvent = 6"
| "ex_index BenchmarkData = 7"
| "ex_index ChargerStatus = 8"

definition ex_codec :: "topic_from_device topic_codec" where
  "ex_codec = \<lparr>tc_encode = \<lambda>t. [ex_index t],
     tc_decode = \<lambda>bs. case bs of [] \<Rightarrow> None | b # _ \<Rightarrow> find (\<lambda>t. ex_index t = b) ex_topics\<rparr>"

interpretation variants: topic_codec_contract ex_codec
proof
  fix t rest
  show "tc_decode ex_codec (tc_encode ex_codec t @ rest) = Some t"
    by (cases t) (simp_all add: ex_codec_def ex_topics_def)
qed

lemma ex_encode: "tc_encode ex_codec t = [ex_index t]"
  by (simp add: ex_codec_def)

section \<open>Properties\<close>

text \<open>
  C31. A message survives storage: the sendable that a builder makes for a topic and a payload has
  that topic and that payload, and both ways to rebuild a sendable from its slice, \<open>try_from_slice\<close>
  and reading the slice into the buffer of a \<open>Builder\<close>, give the same slice, topic and payload
  again. The payload is refused exactly when it is longer than the buffer leaves room for, provided
  that the encoded topic fits in its header.
\<close>

theorem sendable_roundtrip:
  assumes "topic_codec_contract TC" and "length (tc_encode TC t) \<le> TOPIC_HEADER_SIZE"
    and "calc_max_payload_len M = Some max_payload" and "length p \<le> max_payload"
  shows "\<exists>s. create_with_payload_length TC M (write_payload p (builder_with_topic_new M t)) (length p) = Ok s
    \<and> sendable_topic TC s = Some t \<and> payload_bytes s = p
    \<and> (\<exists>s2. try_from_slice M (as_slice s) = Ok s2
        \<and> as_slice s2 = as_slice s \<and> sendable_topic TC s2 = Some t \<and> payload_bytes s2 = p)
    \<and> (\<exists>s3. create_with_total_length M (as_slice s @ drop (length (as_slice s)) (builder_new M))
              (length (as_slice s)) = Ok s3
        \<and> as_slice s3 = as_slice s \<and> sendable_topic TC s3 = Some t \<and> payload_bytes s3 = p)
    \<and> (\<forall>n. n > max_payload \<longrightarrow>
        create_with_payload_length TC M (write_payload p (builder_with_topic_new M t)) n = Err PayloadTooLong)"
proof -
  have M: "8 < M" "max_payload = M - 8" using assms(3) by (auto simp: calc_max_payload_len_def split: if_splits)
  let ?b = "write_payload p (builder_with_topic_new M t)"
  have b: "take 8 (bt_bytes ?b) = replicate 8 0" "drop 8 (bt_bytes ?b) = p @ replicate (M - 8 - length p) 0" "bt_topic ?b = t"
    using M by (simp_all add: write_payload_def builder_with_topic_new_def payload_buffer_def min_def)
  obtain hb where h: "serialize_topic_header TC t (replicate 8 0) = Ok hb"
    using assms(2) by (simp add: serialize_topic_header_def Let_def)
  have hb: "deserialize_topic_header TC hb = Some t" "length hb = 8"
    using topic_codec_contract.header_roundtrip_topic [OF assms(1) h] by simp_all
  let ?s = "\<lparr>sd_bytes = hb @ p @ replicate (M - 8 - length p) 0, sd_payload_len = length p\<rparr>"
  have mk: "create_with_payload_length TC M ?b (length p) = Ok ?s"
    using assms(3,4) b h by (simp add: create_with_payload_length_def)
  have sl: "as_slice ?s = hb @ p" using hb(2) by (simp add: as_slice_def)
  have parts: "sendable_topic TC x = Some t \<and> payload_bytes x = p"
    if "as_slice x = hb @ p" "8 + sd_payload_len x \<le> length (sd_bytes x)" for x
    using as_slice_parts(1,2) [of x] that hb by (simp add: sendable_topic_def)
  have s: "sendable_topic TC ?s = Some t \<and> payload_bytes ?s = p" using parts [OF sl] hb(2) by simp
  have len: "\<not> M < length (hb @ p)" "\<not> length (hb @ p) < 8" using assms(4) M hb(2) by simp_all
  obtain s2 where s2: "try_from_slice M (hb @ p) = Ok s2" using len by (simp add: try_from_slice_def)
  have p2: "as_slice s2 = hb @ p \<and> sendable_topic TC s2 = Some t \<and> payload_bytes s2 = p"
    using try_from_slice_as_slice [OF s2] parts [of s2] assms(4) M hb(2) by simp
  let ?rest = "drop (length (hb @ p)) (builder_new M)"
  obtain s3 where s3: "create_with_total_length M ((hb @ p) @ ?rest) (length (hb @ p)) = Ok s3"
    using len by (simp add: create_with_total_length_def)
  have p3: "as_slice s3 = hb @ p \<and> sendable_topic TC s3 = Some t \<and> payload_bytes s3 = p"
    using create_with_total_length_as_slice [OF s3] parts [of s3] hb(2) by simp
  have "create_with_payload_length TC M ?b n = Err PayloadTooLong" if "n > max_payload" for n
    using assms(3) that by (simp add: create_with_payload_length_def)
  then show ?thesis using mk sl s s2 p2 s3 p3 by (intro exI [of _ ?s]) simp
qed

theorem sendable_roundtrip_witness:
  "\<exists>s. create_with_payload_length ex_codec 20 (write_payload [1, 2, 3] (builder_with_topic_new 20 Status)) 3 = Ok s
     \<and> sendable_topic ex_codec s = Some Status \<and> payload_bytes s = [1, 2, 3]"
  using sendable_roundtrip [OF variants.topic_codec_contract_axioms, of Status 20 12 "[1, 2, 3]"]
  by (simp add: ex_encode calc_max_payload_len_def numeral_3_eq_3) blast

end
