(* ===== verification/Dispatch_Store.thy ===== *)
theory Dispatch_Store
  imports Stream_Store Sendable
begin

text \<open>
  The store of the dispatch pipeline, \<open>storage/dispatch_store.rs\<close>: one stream for events and one for
  sensor data, on clones of one database handle. The handle is the reference to an arbiter of
  \<open>flash_db/arbiter.rs\<close>, whose methods forward to the one shared database; so the record has the
  database once, and each operation runs with it in the field \<open>store\<close> of its stream. Other tasks
  take no turn between the database calls of one operation.

  \<open>SerializedSendable\<close> is generic in the length of its buffer; the lengths that the code takes from
  its type parameters are arguments here. The checks \<open>const { assert!(..) }\<close> are made by the
  compiler: \<open>store_sensor_data\<close> and \<open>peek_sensor_data\<close> only exist for lengths that pass them.
\<close>

section \<open>StreamPairStore\<close>

definition MAX_EVENT_LEN :: nat where
  "MAX_EVENT_LEN = 350"

record 'd stream_pair_store =
  ps_db :: 'd
  ps_sensor_data :: "'d stream_store"
  ps_events :: "'d stream_store"

definition pair_new :: "nat \<Rightarrow> 'd \<Rightarrow> circular \<Rightarrow> circular \<Rightarrow> 'd stream_pair_store" where
  "pair_new B db sensor_data event =
     \<lparr>ps_db = db, ps_sensor_data = stream_new B db sensor_data, ps_events = stream_new B db event\<rparr>"

definition on_sensor_data :: "('d stream_store, 'a, 'e) action \<Rightarrow> ('d stream_pair_store, 'a, 'e) action" where
  "on_sensor_data m p =
     (case m ((ps_sensor_data p)\<lparr>ss_store := ps_db p\<rparr>) of
        (r, s) \<Rightarrow> (r, p\<lparr>ps_db := ss_store s, ps_sensor_data := s\<rparr>))"

definition on_events :: "('d stream_store, 'a, 'e) action \<Rightarrow> ('d stream_pair_store, 'a, 'e) action" where
  "on_events m p =
     (case m ((ps_events p)\<lparr>ss_store := ps_db p\<rparr>) of
        (r, s) \<Rightarrow> (r, p\<lparr>ps_db := ss_store s, ps_events := s\<rparr>))"

definition pair_initialize :: "'d circular_db \<Rightarrow> ('d stream_pair_store, unit, db_error) action" where
  "pair_initialize DB =
     and_then (on_sensor_data (stream_initialize DB)) (\<lambda>_.
     and_then (on_events (stream_initialize DB)) (\<lambda>_. ret ()))"

section \<open>DispatchStore for StreamPairStore\<close>

definition store_event ::
  "'d circular_db \<Rightarrow> (bytes \<Rightarrow> u32) \<Rightarrow> nat \<Rightarrow> sendable \<Rightarrow> ('d stream_pair_store, seq_no, db_error) action" where
  "store_event DB crc B event = on_events (stream_enqueue DB crc B (as_slice event))"

text \<open>
  The second half of both peeks: \<open>peek_next\<close> has written the item to the front of the builder's
  buffer of \<open>M\<close> zeros.
\<close>

definition peeked_sendable ::
  "nat \<Rightarrow> (bytes \<times> confirm_handle) option
   \<Rightarrow> ('d stream_store, (sendable \<times> confirm_handle) option, db_error) action" where
  "peeked_sendable M peeked = (case peeked of
       Some (item, handle) \<Rightarrow>
         (case create_with_total_length M (item @ drop (length item) (builder_new M)) (length item) of
            Ok buffer \<Rightarrow> ret (Some (buffer, handle))
          | Err deserialize_error \<Rightarrow> confirm_and_throw handle E_FragmentNotReadable)
     | None \<Rightarrow> ret None)"

definition peek_event ::
  "'d circular_db \<Rightarrow> (bytes \<Rightarrow> u32)
   \<Rightarrow> ('d stream_pair_store, (sendable \<times> confirm_handle) option, db_error) action" where
  "peek_event DB crc =
     on_events (and_then (stream_peek_next DB crc MAX_EVENT_LEN) (peeked_sendable MAX_EVENT_LEN))"

definition store_sensor_data ::
  "'d circular_db \<Rightarrow> (bytes \<Rightarrow> u32) \<Rightarrow> nat \<Rightarrow> sendable \<Rightarrow> ('d stream_pair_store, seq_no, db_error) action" where
  "store_sensor_data DB crc B sendable = on_sensor_data (stream_enqueue DB crc B (as_slice sendable))"

definition peek_sensor_data ::
  "'d circular_db \<Rightarrow> (bytes \<Rightarrow> u32) \<Rightarrow> nat
   \<Rightarrow> ('d stream_pair_store, (sendable \<times> confirm_handle) option, db_error) action" where
  "peek_sensor_data DB crc MAX_PROCESSING_LEN =
     on_sensor_data (and_then (stream_peek_next DB crc MAX_PROCESSING_LEN) (peeked_sendable MAX_PROCESSING_LEN))"

text \<open>\<open>&&\<close> asks the sensor data only if the events are drained.\<close>

definition pair_is_drained :: "'d circular_db \<Rightarrow> ('d stream_pair_store, bool, db_error) action" where
  "pair_is_drained DB =
     and_then (on_events (stream_is_drained DB)) (\<lambda>e.
       if e then on_sensor_data (stream_is_drained DB) else ret False)"

text \<open>\<open>select2\<close> takes the first of the two that is ready; \<open>None\<close>: it waits.\<close>

definition pair_wait_confirmation :: "'d stream_pair_store \<Rightarrow> 'd stream_pair_store option" where
  "pair_wait_confirmation p =
     (case stream_wait_confirmation (ps_events p) of
        Some s \<Rightarrow> Some (p\<lparr>ps_events := s\<rparr>)
      | None \<Rightarrow> map_option (\<lambda>s. p\<lparr>ps_sensor_data := s\<rparr>) (stream_wait_confirmation (ps_sensor_data p)))"

end
