(* ===== verification/Stream_Correct.thy ===== *)
theory Stream_Correct
  imports Stream_Store Circular_Map Queue_Machine
begin

text \<open>
  The stream store over any database that meets the contract of the circular store: the locale
  \<open>circular_db_contract\<close> has the laws the stream store relies on, in terms of the map from
  sequence numbers to fragments; \<open>database_contract\<close> shows that the repository's database meets
  them on every flash that meets its own contract.
\<close>

section \<open>The contract of the database\<close>

locale circular_db_contract =
  fixes DB :: "'d circular_db" and c :: circular
    and ok :: "'d \<Rightarrow> bool" and lookup :: "'d \<Rightarrow> seq_no \<Rightarrow> bytes option"
  assumes initialize_keeps: "ok d \<Longrightarrow> cdb_initialize DB d = (ri, d') \<Longrightarrow> ok d' \<and> lookup d' = lookup d"
    and find_range_keeps: "ok d \<Longrightarrow> cdb_find_range DB c d = (rf, d') \<Longrightarrow> ok d' \<and> lookup d' = lookup d"
    and read_keeps: "ok d \<Longrightarrow> cdb_read DB c n len off d = (rr, d') \<Longrightarrow> ok d' \<and> lookup d' = lookup d"
    and read_result: "ok d \<Longrightarrow> cdb_read DB c n len off d = (Ok bs, d') \<Longrightarrow>
      \<exists>x. lookup d n = Some x \<and> bs = take len (drop off x)"
    and write_map: "ok d \<Longrightarrow> cdb_write DB c n data d = (rw, d') \<Longrightarrow>
      ok d' \<and> map_write (overwrite_on_full c) n data (lookup d) (lookup d') (rw = Ok ())"
    and delete_map: "ok d \<Longrightarrow> cdb_delete DB c n d = (rw, d') \<Longrightarrow>
      ok d' \<and> map_delete n (lookup d) (lookup d') (rw = Ok ())"

section \<open>The database meets it\<close>

context nor_flash_contract begin

lemma keeps_read_circular [keeps]: "keeps_mem mem (read_circular_fragment_at_offset F B c n len off)"
  unfolding read_circular_fragment_at_offset_def by (auto intro!: keeps split: option.splits)

lemma keeps_scan_fragments [keeps]: "keeps_mem mem (scan_fragments F B blk offs)"
  by (induction offs) (auto simp: Let_def intro!: keeps split: fragment_status.splits)

lemma keeps_scan_blocks [keeps]: "keeps_mem mem (scan_blocks F B c bs s)"
  by (induction bs arbitrary: s) (auto simp: Let_def intro!: keeps split: option.splits)

lemma keeps_skip_fragments [keeps]: "keeps_mem mem (skip_fragments F B skip blk k n)"
  by (induction k arbitrary: n) (auto intro!: keeps)

lemma keeps_find_circular_range [keeps]: "keeps_mem mem (find_circular_range F B c)"
  unfolding find_circular_range_def by (auto simp: Let_def intro!: keeps split: option.splits)

end

abbreviation db_ok :: "('f \<Rightarrow> bytes) \<Rightarrow> nat \<Rightarrow> circular \<Rightarrow> 'f block_device \<Rightarrow> bool" where
  "db_ok mem B c d \<equiv> device_ok B (mem (bd_flash d)) (bd_blocks_total d) \<and> circ_ok B (bd_blocks_total d) c"

lemma database_contract:
  assumes "torn_erase_flash F mem"
  shows "circular_db_contract (database F B) c (db_ok mem B c) (\<lambda>d. circ_lookup B c (mem (bd_flash d)))"
proof -
  note nf = torn_erase_flash.axioms(1) [OF assms]
  have keeps: "db_ok mem B c d' \<and> circ_lookup B c (mem (bd_flash d')) = circ_lookup B c (mem (bd_flash d))"
    if "keeps_mem mem m" "db_ok mem B c d" "m d = (r, d')" for m :: "('a block_device, 'x, 'y) action" and d r d'
    using keeps_memD [OF that(1,3)] that(2) by simp
  have resized: "db_ok mem B c d'" if "db_ok mem B c d" "bd_blocks_total d' = bd_blocks_total d"
    "length (mem (bd_flash d')) = length (mem (bd_flash d))" for d d'
    using that(1) unfolding device_ok_def that(2,3) .
  show ?thesis
  proof (unfold_locales, goal_cases)
    case (1 d ri d')
    then show ?case by (simp add: database_def initialize_writeable_circular_store_def
          initialize_circular_store_def and_then_def)
  next
    case (2 d rf d')
    show ?case by (rule keeps [OF nor_flash_contract.keeps_find_circular_range [OF nf, of B c] 2(1)])
      (use 2(2) in \<open>simp add: database_def\<close>)
  next
    case (3 d n len off rr d')
    show ?case by (rule keeps [OF nor_flash_contract.keeps_read_circular [OF nf, of B c n len off] 3(1)])
      (use 3(2) in \<open>simp add: database_def\<close>)
  next
    case (4 d n len off bs d')
    then show ?case
      using nor_flash_contract.read_circular_Ok [OF nf, of B d c n len off bs d'] by (simp add: database_def)
  next
    case (5 d n data rw d')
    then have w: "write_circular_fragment F B c n data d = (rw, d')" by (simp add: database_def)
    note e = torn_erase_flash.write_circular_effect [OF assms _ _ w]
    have so: "bd_blocks_total d' = bd_blocks_total d"
      "same_outside (block_pos B (circ_block B c n)) (block_pos B (circ_block B c n) + B)
        (mem (bd_flash d)) (mem (bd_flash d'))"
      "circ_write_effect B c n data (mem (bd_flash d)) (mem (bd_flash d')) (rw = Ok ())" using e 5(1) by auto
    show ?case
      using resized [OF 5(1) so(1)] same_outside_length [OF so(2)] write_effect_map [OF _ _ so(2,3)] 5(1) by blast
  next
    case (6 d n rw d')
    then have w: "delete_circular_fragment F B c n d = (rw, d')" by (simp add: database_def)
    from nor_flash_contract.delete_circular_effect [OF nf _ _ w] 6(1) show ?case
      using resized [OF 6(1)] by blast
  qed
qed

sublocale torn_erase_flash \<subseteq> db: circular_db_contract
  "database F B" c "db_ok mem B c" "\<lambda>d. circ_lookup B c (mem (bd_flash d))" for B c
  by (rule database_contract [OF torn_erase_flash_axioms])

section \<open>Items\<close>

text \<open>The fragment holds the item \<open>data\<close> with its length and checksum.\<close>

definition holds_item :: "(bytes \<Rightarrow> u32) \<Rightarrow> bytes \<Rightarrow> bytes option \<Rightarrow> bool" where
  "holds_item crc data v \<longleftrightarrow> holds_data (stream_prefix crc data @ data) v"

text \<open>What the reader of a fragment decodes, if it accepts it.\<close>

definition decode_item :: "(bytes \<Rightarrow> u32) \<Rightarrow> bytes \<Rightarrow> bytes option" where
  "decode_item crc x =
     (let header = take 6 x @ replicate (6 - length (take 6 x)) 0;
          data_len = unat (u16_from_le (take 2 header));
          item = take data_len (drop 6 x)
      in if data_len = length item \<and> u32_from_le (drop 2 header) = crc item then Some item else None)"

lemma decode_item:
  assumes "holds_item crc data (Some x)" and "length data < 2 ^ 16"
  shows "decode_item crc x = Some data"
proof -
  let ?h = "stream_prefix crc data"
  have len: "length ?h = 6" by (simp add: stream_prefix_def)
  have t: "take (6 + length data) x = ?h @ data" using assms(1) len by (simp add: holds_item_def holds_data_def)
  have "length (take (6 + length data) x) = 6 + length data" unfolding t using len by simp
  then have lx: "6 + length data \<le> length x" by simp
  have h: "take 6 x = ?h" using arg_cong [OF t, of "take 6"] len by simp
  have d: "take (length data) (drop 6 x) = data"
    using arg_cong [OF t, of "drop 6"] len by (simp add: drop_take)
  have u: "unat (of_nat (length data) :: u16) = length data"
    using assms(2) by (simp add: unat_of_nat take_bit_nat_eq_self)
  show ?thesis
    using lx d u by (simp add: decode_item_def Let_def h len) (simp add: stream_prefix_def)
qed

section \<open>The stream store on the contract\<close>

context circular_db_contract begin

abbreviation contents :: "'d stream_store \<Rightarrow> seq_no \<Rightarrow> bytes option" where
  "contents s \<equiv> lookup (ss_store s)"

abbreviation stream_ok :: "'d stream_store \<Rightarrow> bool" where
  "stream_ok s \<equiv> ok (ss_store s) \<and> ss_circular s = c"

lemma on_storeE:
  assumes "on_store m s = (r, s')"
  obtains d where "m (ss_store s) = (r, d)" "s' = s\<lparr>ss_store := d\<rparr>"
  using assms by (auto simp: on_store_def split: prod.splits)

lemma stream_initialize_keeps:
  assumes s: "stream_ok s" and i: "stream_initialize DB s = (r, s')"
  shows "stream_ok s' \<and> contents s' = contents s"
proof (cases "ss_init_done s")
  case False
  have "and_then (on_store (cdb_initialize DB)) (\<lambda>_.
      and_then (on_store (cdb_find_range DB c)) (\<lambda>rng s1.
        (Ok (), s1\<lparr>ss_queue := reinit_with_existing_range MAX_PEEKS (read_at rng, write_at rng) (ss_queue s1),
                   ss_init_done := True\<rparr>))) s = (r, s')"
    using i False s by (simp add: stream_initialize_def)
  then show ?thesis
  proof (cases rule: and_thenE)
    case (err e)
    then show ?thesis using s initialize_keeps by (fastforce elim!: on_storeE)
  next
    case (ok u s1)
    then have s1: "stream_ok s1 \<and> contents s1 = contents s" using s initialize_keeps by (fastforce elim!: on_storeE)
    from ok(2) show ?thesis
    proof (cases rule: and_thenE)
      case (err e)
      then show ?thesis using s1 find_range_keeps by (fastforce elim!: on_storeE)
    next
      case (ok rng s2)
      then show ?thesis using s1 find_range_keeps by (fastforce elim!: on_storeE)
    qed
  qed
qed (use i s in \<open>simp add: stream_initialize_def\<close>)

text \<open>The clean-up touches only the sequence numbers it walks over, and not the queue.\<close>

lemma delete_confirmed_effect:
  assumes "stream_ok s" and "delete_confirmed DB c rounds oldest s = (r, s')"
  shows "stream_ok s' \<and> ss_queue s' = ss_queue s
    \<and> (\<forall>k. (\<forall>i < rounds. k \<noteq> oldest + of_nat i) \<longrightarrow> contents s' k = contents s k)
    \<and> (\<forall>k. contents s' k \<in> {contents s k, None})"
  using assms
proof (induction rounds arbitrary: oldest s)
  case (Suc rounds)
  obtain r1 s1 where del: "on_store (cdb_delete DB c oldest) s = (r1, s1)" by fastforce
  then obtain d where d: "cdb_delete DB c oldest (ss_store s) = (r1, d)" "s1 = s\<lparr>ss_store := d\<rparr>"
    by (rule on_storeE)
  have okd: "ok d" and md: "map_delete oldest (lookup (ss_store s)) (lookup d) (r1 = Ok ())"
    using delete_map [OF _ d(1)] Suc.prems(1) by auto
  then have s1: "stream_ok s1" "ss_queue s1 = ss_queue s" "\<forall>k. k \<noteq> oldest \<longrightarrow> contents s1 k = contents s k"
    using d(2) Suc.prems(1) by (auto simp: map_delete_def)
  have s1': "\<forall>k. contents s1 k \<in> {contents s k, None}"
  proof
    fix k
    show "contents s1 k \<in> {contents s k, None}" using md d(2) by (cases "k = oldest") (auto simp: map_delete_def)
  qed
  have ne: "k \<noteq> oldest" if "\<forall>i < Suc rounds. k \<noteq> oldest + of_nat i" for k
    using that [rule_format, of 0] by simp
  show ?case
  proof (cases "\<exists>e. r1 = Err e \<and> e \<noteq> E_FragmentNotFound")
    case True
    then have "s' = s1" using Suc.prems(2) del by (auto simp: attempt_def split: db_error.splits)
    then show ?thesis using s1 s1' ne by simp
  next
    case False
    then have "delete_confirmed DB c rounds (oldest + 1) s1 = (r, s')"
      using Suc.prems(2) del by (auto simp: attempt_def split: sum.splits db_error.splits)
    note IH = Suc.IH [OF s1(1) this]
    have "contents s' k = contents s k" if k: "\<forall>i < Suc rounds. k \<noteq> oldest + of_nat i" for k
    proof -
      have "k \<noteq> oldest + 1 + of_nat i" if "i < rounds" for i
        using k [rule_format, of "Suc i"] that by (simp add: add.assoc)
      then show ?thesis using IH s1(3) ne [OF k] by simp
    qed
    moreover have "contents s' k \<in> {contents s k, None}" for k
    proof -
      have "contents s' k \<in> {contents s1 k, None}" using IH by blast
      then show ?thesis using s1' [rule_format, of k] by auto
    qed
    ultimately show ?thesis using IH s1(2) by simp
  qed
qed simp

text \<open>Reading an item leaves the store alone; an accepted item is the one the fragment encodes.\<close>

lemma read_item_effect:
  assumes s: "stream_ok s" and rd: "read_item DB crc c buffer_len h s = (r, s')"
  shows "stream_ok s' \<and> contents s' = contents s"
    and "r = Ok (Some (item, h')) \<Longrightarrow> h' = h \<and> ss_queue s' = ss_queue s
      \<and> (\<exists>x. contents s (ch_id h) = Some x \<and> decode_item crc x = Some item)"
    and "r \<noteq> Ok None"
proof -
  obtain r1 d1 where d1: "cdb_read DB c (ch_id h) 6 0 (ss_store s) = (r1, d1)" by fastforce
  have k1: "ok d1" "lookup d1 = lookup (ss_store s)" using read_keeps [OF _ d1] s by auto
  have "(stream_ok s' \<and> contents s' = contents s) \<and> r \<noteq> Ok None
    \<and> (r = Ok (Some (item, h')) \<longrightarrow> h' = h \<and> ss_queue s' = ss_queue s
      \<and> (\<exists>x. contents s (ch_id h) = Some x \<and> decode_item crc x = Some item))"
  proof (cases r1)
    case (Inl e)
    then show ?thesis
      using rd d1 k1 s by (auto simp: read_item_def attempt_def on_store_def drop_and_throw_def
          confirm_and_throw_def split: if_splits)
  next
    case (Inr bs)
    let ?hb = "bs @ replicate (6 - length bs) 0"
    let ?n = "unat (u16_from_le (take 2 ?hb))"
    obtain x where x: "contents s (ch_id h) = Some x" "bs = take 6 x"
      using read_result [of "ss_store s" "ch_id h" 6 0 bs d1] d1 Inr s by auto
    obtain r2 d2 where d2: "cdb_read DB c (ch_id h) ?n 6 d1 = (r2, d2)" by fastforce
    have k2: "ok d2" "lookup d2 = lookup (ss_store s)" using read_keeps [OF k1(1) d2] k1 by auto
    have it: "item2 = take ?n (drop 6 x)" if "r2 = Ok item2" for item2
      using read_result [OF k1(1) d2 [unfolded that]] k1(2) x(1) by simp
    show ?thesis
    proof (cases "buffer_len < ?n")
      case True
      then show ?thesis
        using rd d1 k1 s Inr by (auto simp: read_item_def Let_def attempt_def on_store_def confirm_and_throw_def
            simp del: take_append drop_append)
    next
      case False
      then have "(case r2 of Err e \<Rightarrow> confirm_and_throw h e
          | Ok item \<Rightarrow> if ?n = length item \<longrightarrow> u32_from_le (drop 2 ?hb) \<noteq> crc item
              then confirm_and_throw h E_FragmentNotReadable else ret (Some (item, h)))
          (s\<lparr>ss_store := d2\<rparr>) = (r, s')"
        using rd d1 d2 Inr
        by (simp add: read_item_def Let_def attempt_def on_store_def del: take_append drop_append)
      then show ?thesis
        using it k2 s x
        by (auto simp: confirm_and_throw_def decode_item_def Let_def split: sum.splits if_splits)
    qed
  qed
  then show "stream_ok s' \<and> contents s' = contents s"
    and "r = Ok (Some (item, h')) \<Longrightarrow> h' = h \<and> ss_queue s' = ss_queue s
      \<and> (\<exists>x. contents s (ch_id h) = Some x \<and> decode_item crc x = Some item)"
    and "r \<noteq> Ok None" by blast+
qed

text \<open>
  A peek: the state after the initialisation, the items the clean-up may delete, and the item.
\<close>

lemma stream_peek_effect:
  assumes s: "stream_ok s" and pk: "stream_peek_next DB crc buffer_len s = (r, s')"
  obtains (init_failed) e where "stream_initialize DB s = (Err e, s')" "r = Err e"
  | (peeked) s1 pr q where "stream_initialize DB s = (Ok (), s1)" "stream_ok s'"
      "queue_peek_next MAX_PEEKS (ss_queue s1) = (pr, q)"
      "\<And>k. contents s' k \<noteq> contents s k \<Longrightarrow> contents s' k = None \<and>
         (\<exists>i < unat (pq_min (q_readers q) - pq_min (q_readers (ss_queue s1))).
            k = pq_min (q_readers (ss_queue s1)) + of_nat i)"
      "\<And>item h. r = Ok (Some (item, h)) \<Longrightarrow> pr = Ok h \<and> ss_queue s' = q
         \<and> (\<exists>x. contents s' (ch_id h) = Some x \<and> decode_item crc x = Some item)"
      "r = Ok None \<Longrightarrow> \<exists>b. pr = Err b"
proof -
  obtain ri s1 where i: "stream_initialize DB s = (ri, s1)" by fastforce
  note k1 = stream_initialize_keeps [OF s i]
  show thesis
  proof (cases ri)
    case (Inl e)
    then show thesis using init_failed i pk by (simp add: stream_peek_next_def)
  next
    case (Inr u)
    let ?q1 = "ss_queue s1"
    have cc: "ss_circular s1 = c" using k1 by simp
    obtain pr q where p: "queue_peek_next MAX_PEEKS ?q1 = (pr, q)" by fastforce
    let ?rounds = "unat (pq_min (q_readers q) - pq_min (q_readers ?q1))"
    obtain rd s2 where del: "delete_confirmed DB c ?rounds (pq_min (q_readers ?q1)) (s1\<lparr>ss_queue := q\<rparr>) = (rd, s2)"
      by fastforce
    have e: "stream_ok s2" "ss_queue s2 = q"
      "\<And>k. (\<forall>i < ?rounds. k \<noteq> pq_min (q_readers ?q1) + of_nat i) \<Longrightarrow> contents s2 k = contents s k"
      "\<And>k. contents s2 k \<in> {contents s k, None}"
      using delete_confirmed_effect [OF _ del] k1 by simp_all
    have chg: "contents s2 k = None \<and> (\<exists>i < ?rounds. k = pq_min (q_readers ?q1) + of_nat i)"
      if "contents s2 k \<noteq> contents s k" for k
      using e(3,4) [of k] that by auto
    have fin: "(case rd of
            Err err \<Rightarrow> (case pr of Ok h \<Rightarrow> drop_and_throw h err | Err _ \<Rightarrow> throw err)
          | Ok _ \<Rightarrow> (case pr of Ok h \<Rightarrow> read_item DB crc c buffer_len h | Err blocking \<Rightarrow> ret None)) s2 = (r, s')"
      using pk i p del Inr cc
      by (simp add: stream_peek_next_def Let_def existing_range_def attempt_def cong: sum.case_cong)
    have res: "stream_ok s' \<and> contents s' = contents s2
        \<and> (\<forall>item h. r = Ok (Some (item, h)) \<longrightarrow> pr = Ok h \<and> ss_queue s' = q
             \<and> (\<exists>x. contents s' (ch_id h) = Some x \<and> decode_item crc x = Some item))
        \<and> (r = Ok None \<longrightarrow> (\<exists>b. pr = Err b))"
    proof (cases "(\<exists>u. rd = Ok u) \<and> (\<exists>h. pr = Ok h)")
      case True
      then obtain h where h: "pr = Ok h" and ri: "read_item DB crc c buffer_len h s2 = (r, s')" using fin by auto
      show ?thesis using read_item_effect [OF e(1) ri] h e(2) by auto
    next
      case False
      then show ?thesis
        using fin e(1) by (auto simp: drop_and_throw_def split: sum.splits)
    qed
    show thesis
      by (rule peeked [OF _ _ p]) (use i Inr res chg in auto)
  qed
qed

text \<open>An enqueue: success stores the item under the number it returns.\<close>

lemma stream_enqueue_effect:
  assumes s: "stream_ok s" and en: "stream_enqueue DB crc B data s = (r, s')"
  shows "stream_ok s'"
    and "r = Ok n \<Longrightarrow> \<exists>s1. stream_initialize DB s = (Ok (), s1) \<and> n = q_write_index (ss_queue s1)
      \<and> holds_item crc data (contents s' n) \<and> length data \<le> obj_fragment_size c - 6
      \<and> ss_queue s' = snd (queue_enqueue (ss_queue s1))"
    and "\<not> overwrite_on_full c \<Longrightarrow> contents s k = Some x \<Longrightarrow> contents s' k = Some x"
    and "stream_initialize DB s = (Ok (), s1) \<Longrightarrow> k \<noteq> q_write_index (ss_queue s1) \<Longrightarrow>
      contents s' k = contents s k \<or> contents s' k = None"
proof -
  obtain ri s2 where i: "stream_initialize DB s = (ri, s2)" by fastforce
  note k1 = stream_initialize_keeps [OF s i]
  have "stream_ok s' \<and> (r = Ok n \<longrightarrow> (\<exists>s1. stream_initialize DB s = (Ok (), s1) \<and> n = q_write_index (ss_queue s1)
      \<and> holds_item crc data (contents s' n) \<and> length data \<le> obj_fragment_size c - 6
      \<and> ss_queue s' = snd (queue_enqueue (ss_queue s1))))
    \<and> (\<not> overwrite_on_full c \<longrightarrow> contents s k = Some x \<longrightarrow> contents s' k = Some x)
    \<and> (k \<noteq> q_write_index (ss_queue s2) \<longrightarrow> contents s' k = contents s k \<or> contents s' k = None)"
  proof (cases "(\<exists>e. ri = Err e) \<or> length data > obj_fragment_size c - 6 \<or> 6 + length data > B")
    case True
    then show ?thesis
      using en i k1 by (auto simp: stream_enqueue_def Let_def and_then_def split: if_splits sum.splits)
  next
    case False
    then have ri: "ri = Ok ()" by (cases ri) auto
    let ?n = "q_write_index (ss_queue s2)" and ?bs = "stream_prefix crc data @ data"
    obtain rw d where w: "cdb_write DB c ?n ?bs (ss_store s2) = (rw, d)" by fastforce
    have okd: "ok d" and mw: "map_write (overwrite_on_full c) ?n ?bs (lookup (ss_store s2)) (lookup d) (rw = Ok ())"
      using write_map [OF _ w] k1 by auto
    have "(case rw of
          Ok _ \<Rightarrow> (case queue_enqueue (ss_queue s2) of
              (Ok _, q) \<Rightarrow> (Ok ?n, s2\<lparr>ss_store := d, ss_queue := q\<rparr>)
            | (Err _, q) \<Rightarrow> (Err E_NoSpaceAvailable, s2\<lparr>ss_store := d, ss_queue := q\<rparr>))
        | Err err \<Rightarrow> if err = E_FragmentNotWriteable \<or> err = E_FragmentExists
            then (Err err, s2\<lparr>ss_store := d, ss_queue := snd (queue_enqueue (ss_queue s2))\<rparr>)
            else (Err err, s2\<lparr>ss_store := d\<rparr>)) = (r, s')"
      using en i k1 False w
      by (auto simp: stream_enqueue_def Let_def and_then_def attempt_def on_store_def writable_seq_no_def
          split: sum.splits prod.splits if_splits)
    then show ?thesis
      using okd mw k1 i False ri
      by (auto simp: map_write_def holds_item_def split: sum.splits prod.splits if_splits)
  qed
  then show "stream_ok s'"
    and "r = Ok n \<Longrightarrow> \<exists>s1. stream_initialize DB s = (Ok (), s1) \<and> n = q_write_index (ss_queue s1)
      \<and> holds_item crc data (contents s' n) \<and> length data \<le> obj_fragment_size c - 6
      \<and> ss_queue s' = snd (queue_enqueue (ss_queue s1))"
    and "\<not> overwrite_on_full c \<Longrightarrow> contents s k = Some x \<Longrightarrow> contents s' k = Some x"
    and "stream_initialize DB s = (Ok (), s1) \<Longrightarrow> k \<noteq> q_write_index (ss_queue s1) \<Longrightarrow>
      contents s' k = contents s k \<or> contents s' k = None" using i by auto
qed

end

end
