(* ===== verification/Stream_Machine.thy ===== *)
theory Stream_Machine
  imports Stream_Correct
begin

text \<open>
  A stream store with its users, as a state machine: any sequence of calls of \<open>stream_store.rs\<close>, of
  confirmations and drops of the handles it has given out, and of changes that others make to the
  shared database. A user may also skip an item that it cannot make sense of. The ghost fields record which items were stored, which ones a user has
  confirmed, and which ones the store itself has skipped because it could not read them.
\<close>

section \<open>The machine\<close>

record 'd stream_system =
  sy_stream :: "'d stream_store"
  sy_handles :: "u32 list"
  sy_confirmed :: "nat set"
  sy_skipped :: "nat set"
  sy_stored :: "nat \<Rightarrow> bytes option"

abbreviation sy_queue :: "'d stream_system \<Rightarrow> queue" where
  "sy_queue s \<equiv> ss_queue (sy_stream s)"

abbreviation with_queue :: "'d stream_system \<Rightarrow> queue \<Rightarrow> 'd stream_system" where
  "with_queue s q \<equiv> s\<lparr>sy_stream := (sy_stream s)\<lparr>ss_queue := q\<rparr>\<rparr>"

text \<open>
  A peek that fails may have sent a confirmation of its own: the item will not be tried again.
\<close>

definition skipped_by :: "('a, db_error) result \<Rightarrow> queue \<Rightarrow> nat set" where
  "skipped_by r q = (case r of
       Err _ \<Rightarrow> (\<lambda>c. unat (cf_id c)) ` {c \<in> set (q_channel q). cf_success c}
     | Ok _ \<Rightarrow> {})"

definition given_out :: "(('a \<times> confirm_handle) option, db_error) result \<Rightarrow> u32 list" where
  "given_out r = (case r of Ok (Some (item, h)) \<Rightarrow> [ch_id h] | _ \<Rightarrow> [])"

definition after_store :: "bytes \<Rightarrow> (seq_no, db_error) result \<Rightarrow> (nat \<Rightarrow> bytes option) \<Rightarrow> nat \<Rightarrow> bytes option" where
  "after_store data r st = (case r of Ok n \<Rightarrow> st(unat n \<mapsto> data) | Err _ \<Rightarrow> st)"

inductive stream_step ::
  "'d circular_db \<Rightarrow> (bytes \<Rightarrow> u32) \<Rightarrow> nat \<Rightarrow> ('d \<Rightarrow> 'd \<Rightarrow> bool) \<Rightarrow> 'd stream_system \<Rightarrow> 'd stream_system \<Rightarrow> bool"
  for DB crc B env where
  store: "no_wrap MAX_PEEKS (sy_queue s) \<Longrightarrow> stream_enqueue DB crc B data (sy_stream s) = (r, t) \<Longrightarrow>
    stream_step DB crc B env s (s\<lparr>sy_stream := t, sy_stored := after_store data r (sy_stored s)\<rparr>)"
| peek: "stream_peek_next DB crc buffer_len (sy_stream s) = (r, t) \<Longrightarrow>
    stream_step DB crc B env s (s\<lparr>sy_stream := t, sy_handles := given_out r @ sy_handles s,
      sy_skipped := sy_skipped s \<union> skipped_by r (ss_queue t)\<rparr>)"
| confirm: "n \<in> set (sy_handles s) \<Longrightarrow>
    stream_step DB crc B env s ((with_queue s (handle_confirm MAX_PEEKS (confirm_handle_new n) (sy_queue s)))
      \<lparr>sy_handles := remove1 n (sy_handles s), sy_confirmed := insert (unat n) (sy_confirmed s)\<rparr>)"
| skip: "n \<in> set (sy_handles s) \<Longrightarrow>
    stream_step DB crc B env s ((with_queue s (handle_confirm MAX_PEEKS (confirm_handle_new n) (sy_queue s)))
      \<lparr>sy_handles := remove1 n (sy_handles s), sy_skipped := insert (unat n) (sy_skipped s)\<rparr>)"
| abort: "n \<in> set (sy_handles s) \<Longrightarrow>
    stream_step DB crc B env s ((with_queue s (handle_drop MAX_PEEKS (confirm_handle_new n) (sy_queue s)))
      \<lparr>sy_handles := remove1 n (sy_handles s)\<rparr>)"
| wait: "stream_wait_confirmation (sy_stream s) = Some t \<Longrightarrow>
    stream_step DB crc B env s (s\<lparr>sy_stream := t\<rparr>)"
| drained: "stream_is_drained DB (sy_stream s) = (r, t) \<Longrightarrow>
    stream_step DB crc B env s (s\<lparr>sy_stream := t\<rparr>)"
| others: "env (ss_store (sy_stream s)) d \<Longrightarrow>
    stream_step DB crc B env s (s\<lparr>sy_stream := (sy_stream s)\<lparr>ss_store := d\<rparr>\<rparr>)"

text \<open>A store that was just initialised, with the range of items found on flash.\<close>

definition stream_start :: "'d stream_store \<Rightarrow> 'd stream_system" where
  "stream_start t = \<lparr>sy_stream = t, sy_handles = [], sy_confirmed = {}, sy_skipped = {}, sy_stored = (\<lambda>_. None)\<rparr>"

section \<open>The queue of the stream store\<close>

text \<open>The invariant of the queue from its present lower bound on.\<close>

abbreviation queue_now :: "queue \<Rightarrow> u32 list \<Rightarrow> nat set \<Rightarrow> bool" where
  "queue_now q hs conf \<equiv> queue_ok MAX_PEEKS (low q) q hs conf {}"

lemma queue_now: "queue_ok P start q hs conf lost \<Longrightarrow> queue_ok P (low q) q hs conf {}"
  by (auto simp: queue_ok_def ghost_ok_def)

lemma confirm_now:
  assumes "queue_now q hs conf" and "n \<in> set hs"
  shows "queue_now (handle_confirm MAX_PEEKS (confirm_handle_new n) q) (remove1 n hs) (insert (unat n) conf)"
    and "q_channel (handle_confirm MAX_PEEKS (confirm_handle_new n) q) = q_channel q @ [\<lparr>cf_id = n, cf_success = True\<rparr>]"
proof -
  have ok: "queue_ok MAX_PEEKS (low q) q hs (insert (unat n) conf) {}" by (rule queue_ok_more [OF assms(1)]) auto
  show "queue_now (handle_confirm MAX_PEEKS (confirm_handle_new n) q) (remove1 n hs) (insert (unat n) conf)"
    using queue_now [OF send_ok(1) [OF ok assms(2), of True]] by (simp add: handle_send)
  show "q_channel (handle_confirm MAX_PEEKS (confirm_handle_new n) q) = q_channel q @ [\<lparr>cf_id = n, cf_success = True\<rparr>]"
    using send_ok(2) [OF ok assms(2), of True] by (simp add: handle_send)
qed

lemma drop_now:
  assumes "queue_now q hs conf" and "n \<in> set hs"
  shows "queue_now (handle_drop MAX_PEEKS (confirm_handle_new n) q) (remove1 n hs) conf"
  using queue_now [OF send_ok(1) [OF assms, of False]] by (simp add: handle_send)

text \<open>Items that a peek moves the lower bound over were confirmed.\<close>

lemma peek_now:
  assumes ok: "queue_now q hs conf" and pk: "queue_peek_next MAX_PEEKS q = (r, q')"
  shows "queue_now q' (case r of Ok h \<Rightarrow> ch_id h # hs | Err b \<Rightarrow> hs) conf"
    and "low q \<le> m \<Longrightarrow> m < low q' \<Longrightarrow> m \<in> conf"
    and "r = Ok h \<Longrightarrow> h = confirm_handle_new (ch_id h)"
  using queue_now [OF peek_next_ok [OF ok pk]] peek_next_ok [OF ok pk] pk
  by (auto simp: queue_ok_def ghost_ok_def queue_peek_next_def confirm_handle_new_def
      split: if_splits sum.splits prod.splits)

lemma update_reader_slots_min: "pq_min (q_readers (update_reader_slots P q)) = pq_min (q_readers q)"
proof -
  have "pq_min (fold (peek_update P) cs r) = pq_min r" for cs r
    by (induction cs arbitrary: r) (auto simp: peek_update_def Let_def)
  then show ?thesis by (simp add: update_reader_slots_def)
qed

lemma peek_low_mono:
  assumes ok: "queue_ok P start q hs conf lost" and pk: "queue_peek_next P q = (r, q')"
  shows "low q \<le> low q'"
proof (cases "unconfirmed_count q = 0")
  case False
  let ?u = "update_reader_slots P q"
  obtain r1 rd where fr: "find_reader P (q_write_index ?u) (q_readers ?u) = (r1, rd)" by fastforce
  have q': "q_readers q' = rd"
    using pk False fr by (auto simp: queue_peek_next_def try_alloc_reader_def split: sum.splits)
  have inv: "pq_inv P (q_write_index ?u) (q_readers ?u)"
    using update_reader_slots_ok [OF ok] by (simp add: queue_ok_def)
  from inv fr have "unat (pq_min (q_readers ?u)) \<le> unat (pq_min rd)"
    by (cases rule: find_reader_cases) (auto dest: quiet_le)
  then show ?thesis unfolding q' update_reader_slots_min .
qed (use pk in \<open>auto simp: queue_peek_next_def\<close>)

lemma wait_now:
  assumes "queue_now q hs conf" and "wait_confirmation MAX_PEEKS q = Some q'"
  shows "queue_now q' hs conf"
proof -
  from assms(2) obtain c cs where c: "q_channel q = c # cs" and "q' = take_message MAX_PEEKS q"
    by (auto simp: wait_confirmation_def take_message_def split: list.splits)
  then show ?thesis using queue_now [OF take_message_ok [OF assms(1) c]] by simp
qed

lemma drained_now:
  assumes "queue_now q hs conf" and "queue_is_drained MAX_PEEKS q = (b, q')"
  shows "queue_now q' hs conf"
  using queue_now [OF update_reader_slots_ok [OF assms(1)]] assms(2) by (auto simp: queue_is_drained_def Let_def)

lemma enqueue_now:
  assumes "queue_now q hs conf" and "no_wrap MAX_PEEKS q" and "queue_enqueue q = (r, q')"
  shows "queue_now q' hs conf" and "unat (q_write_index q') = unat (q_write_index q) + 1"
proof -
  show "queue_now q' hs conf" using queue_now [OF enqueue_ok [OF assms]] .
  have inv: "pq_inv MAX_PEEKS (q_write_index q) (q_readers q)"
    and g: "0 < unat (q_granularity q)" "unat (q_granularity q) \<le> unat (q_capacity q)"
    using assms(1) by (simp_all add: queue_ok_def)
  have w: "unat (q_write_index q + 1) = unat (q_write_index q) + 1"
    using assms(2) by (intro unat_suc) (simp add: no_wrap_def)
  from inv assms(2) g assms(3) show "unat (q_write_index q') = unat (q_write_index q) + 1"
    by (cases rule: enqueue_cases) (simp_all add: w)
qed

text \<open>The write position only moves when an item is enqueued.\<close>

lemma peek_write_index:
  "queue_peek_next P q = (r, q') \<Longrightarrow> q_write_index q' = q_write_index q"
  by (auto simp: queue_peek_next_def try_alloc_reader_def update_reader_slots_def split: if_splits sum.splits prod.splits)

lemma send_write_index [simp]:
  "q_write_index (handle_confirm P h q) = q_write_index q" "q_write_index (handle_drop P h q) = q_write_index q"
  by (simp_all add: handle_confirm_def handle_drop_def try_abort_def try_send_def)

text \<open>What a peek does to the queue once the store is initialised.\<close>

lemma read_item_queue:
  assumes "read_item DB crc c len h s = (r, s')"
  shows "(\<exists>item. r = Ok (Some (item, h)) \<and> ss_queue s' = ss_queue s)
    \<or> (\<exists>e. r = Err e \<and> ss_queue s' \<in> {handle_drop MAX_PEEKS h (ss_queue s), handle_confirm MAX_PEEKS h (ss_queue s)})"
  using assms
  by (auto simp: read_item_def Let_def attempt_def on_store_def drop_and_throw_def confirm_and_throw_def
      split: prod.splits sum.splits if_splits)

lemma delete_confirmed_queue:
  "delete_confirmed DB c rounds k s = (r, s') \<Longrightarrow>
     ss_queue s' = ss_queue s \<and> ss_init_done s' = ss_init_done s"
  by (induction rounds arbitrary: k s)
    (auto simp: attempt_def on_store_def split: prod.splits sum.splits db_error.splits)

lemma stream_peek_queue:
  assumes "ss_init_done s" and "stream_peek_next DB crc len s = (r, s')"
    and "queue_peek_next MAX_PEEKS (ss_queue s) = (pr, q)"
  shows "(\<exists>item h. pr = Ok h \<and> r = Ok (Some (item, h)) \<and> ss_queue s' = q)
    \<or> (\<exists>h e. pr = Ok h \<and> r = Err e \<and> ss_queue s' \<in> {handle_drop MAX_PEEKS h q, handle_confirm MAX_PEEKS h q})
    \<or> (\<exists>b. pr = Err b \<and> (\<forall>x. r \<noteq> Ok (Some x)) \<and> ss_queue s' = q)"
proof -
  let ?lo = "pq_min (q_readers (ss_queue s))"
  obtain rd s2 where del: "delete_confirmed DB (ss_circular s) (unat (pq_min (q_readers q) - ?lo)) ?lo (s\<lparr>ss_queue := q\<rparr>) = (rd, s2)"
    by fastforce
  have q: "ss_queue s2 = q" using delete_confirmed_queue [OF del] by simp
  have fin: "(case rd of
          Err err \<Rightarrow> (case pr of Ok h \<Rightarrow> drop_and_throw h err | Err _ \<Rightarrow> throw err)
        | Ok _ \<Rightarrow> (case pr of Ok h \<Rightarrow> read_item DB crc (ss_circular s) len h | Err blocking \<Rightarrow> ret None)) s2 = (r, s')"
    using assms del by (simp add: stream_peek_next_def stream_initialize_def Let_def existing_range_def attempt_def
        and_then_def cong: sum.case_cong)
  show ?thesis
  proof (cases "(\<exists>u. rd = Ok u) \<and> (\<exists>h. pr = Ok h)")
    case True
    then obtain h where h: "pr = Ok h" "read_item DB crc (ss_circular s) len h s2 = (r, s')" using fin by auto
    show ?thesis using read_item_queue [OF h(2)] h(1) q by auto
  next
    case False
    then show ?thesis using fin q by (auto simp: drop_and_throw_def split: sum.splits)
  qed
qed

section \<open>Durability\<close>

text \<open>
  The store is initialised and its queue consistent, and every item that was stored and neither
  confirmed nor skipped is on flash, with its length and checksum. A stored item that is gone was
  deleted as a whole: what the store holds under its number is never something else.
\<close>

definition stream_inv ::
  "(bytes \<Rightarrow> u32) \<Rightarrow> circular \<Rightarrow> ('d \<Rightarrow> bool) \<Rightarrow> ('d \<Rightarrow> seq_no \<Rightarrow> bytes option) \<Rightarrow> 'd stream_system \<Rightarrow> bool" where
  "stream_inv crc c ok lookup s \<longleftrightarrow>
     ok (ss_store (sy_stream s)) \<and> ss_circular (sy_stream s) = c \<and> ss_init_done (sy_stream s)
     \<and> queue_now (sy_queue s) (sy_handles s) (sy_confirmed s \<union> sy_skipped s)
     \<and> (\<forall>n data. sy_stored s n = Some data \<longrightarrow> n < unat (q_write_index (sy_queue s))
          \<and> length data \<le> obj_fragment_size c - 6
          \<and> (lookup (ss_store (sy_stream s)) (of_nat n) = None
             \<or> holds_item crc data (lookup (ss_store (sy_stream s)) (of_nat n)))
          \<and> (n \<notin> sy_confirmed s \<union> sy_skipped s \<longrightarrow>
               holds_item crc data (lookup (ss_store (sy_stream s)) (of_nat n))))"

lemma stream_invD:
  assumes "stream_inv crc c ok lookup s"
  shows "ok (ss_store (sy_stream s))" and "ss_circular (sy_stream s) = c" and "ss_init_done (sy_stream s)"
    and "queue_now (sy_queue s) (sy_handles s) (sy_confirmed s \<union> sy_skipped s)"
    and "sy_stored s n = Some data \<Longrightarrow> n < unat (q_write_index (sy_queue s))"
    and "sy_stored s n = Some data \<Longrightarrow> n \<notin> sy_confirmed s \<Longrightarrow> n \<notin> sy_skipped s \<Longrightarrow>
      holds_item crc data (lookup (ss_store (sy_stream s)) (of_nat n))"
    and "sy_stored s n = Some data \<Longrightarrow> length data \<le> obj_fragment_size c - 6"
    and "sy_stored s n = Some data \<Longrightarrow> lookup (ss_store (sy_stream s)) (of_nat n) = None
      \<or> holds_item crc data (lookup (ss_store (sy_stream s)) (of_nat n))"
  using assms by (simp_all add: stream_inv_def)

lemma holds_item_Some: "holds_item crc data v \<Longrightarrow> \<exists>x. v = Some x"
  by (auto simp: holds_item_def holds_data_def)

lemma unat_u32_lt: "unat (w :: u32) < 2 ^ 32"
  by (rule order_less_le_trans [OF unsigned_less]) simp

lemma of_nat_write:
  assumes "n < unat (w :: u32)" shows "(of_nat n :: u32) \<noteq> w" and "unat (of_nat n :: u32) = n"
proof -
  show u: "unat (of_nat n :: u32) = n" using assms unat_u32_lt [of w] by (intro unat_of_nat_lt) simp
  then show "(of_nat n :: u32) \<noteq> w" using assms by auto
qed

lemma initialize_done: "ss_init_done t \<Longrightarrow> stream_initialize DB t = (Ok (), t)"
  by (simp add: stream_initialize_def)

text \<open>The queue after an enqueue.\<close>

lemma stream_enqueue_queue:
  assumes "ss_init_done t" and "stream_enqueue DB crc B data t = (r, t')"
  shows "ss_init_done t'" and "ss_queue t' = ss_queue t \<and> (\<exists>e. r = Err e) \<or> ss_queue t' = snd (queue_enqueue (ss_queue t))"
proof -
  have "ss_init_done t' \<and> (ss_queue t' = ss_queue t \<and> (\<exists>e. r = Err e) \<or> ss_queue t' = snd (queue_enqueue (ss_queue t)))"
    using assms
    by (auto simp: stream_enqueue_def initialize_done and_then_def Let_def attempt_def on_store_def
        split: if_splits prod.splits sum.splits)
  then show "ss_init_done t'"
    and "ss_queue t' = ss_queue t \<and> (\<exists>e. r = Err e) \<or> ss_queue t' = snd (queue_enqueue (ss_queue t))" by blast+
qed

lemma stream_peek_done:
  assumes "ss_init_done t" and "stream_peek_next DB crc len t = (r, t')" shows "ss_init_done t'"
proof -
  have ri: "ss_init_done t2 = ss_init_done t1" if "read_item DB crc c len h t1 = (r2, t2)" for c h r2 t1 and t2 :: "'a stream_store"
    using that by (auto simp: read_item_def Let_def attempt_def on_store_def drop_and_throw_def confirm_and_throw_def
      split: prod.splits sum.splits if_splits)
  show ?thesis
    using assms
    by (auto simp: stream_peek_next_def initialize_done and_then_def Let_def attempt_def drop_and_throw_def
        dest!: delete_confirmed_queue ri split: prod.splits sum.splits)
qed

context circular_db_contract begin

lemma store_step_inv:
  assumes inv: "stream_inv crc c ok lookup s" and nov: "\<not> overwrite_on_full c"
    and nw: "no_wrap MAX_PEEKS (sy_queue s)" and en: "stream_enqueue DB crc B data (sy_stream s) = (r, t)"
  shows "stream_inv crc c ok lookup (s\<lparr>sy_stream := t, sy_stored := after_store data r (sy_stored s)\<rparr>)"
proof -
  note I = stream_invD [OF inv]
  have so: "ok (ss_store (sy_stream s)) \<and> ss_circular (sy_stream s) = c" using I(1,2) by simp
  note e = stream_enqueue_effect [OF so en]
  have q: "queue_now (ss_queue t) (sy_handles s) (sy_confirmed s \<union> sy_skipped s)"
    and w: "unat (q_write_index (sy_queue s)) \<le> unat (q_write_index (ss_queue t))"
    using stream_enqueue_queue(2) [OF I(3) en] enqueue_now [OF I(4) nw prod.collapse [symmetric]] I(4) by auto
  have old: "n < unat (q_write_index (ss_queue t)) \<and> length x \<le> obj_fragment_size c - 6
      \<and> (lookup (ss_store t) (of_nat n) = None \<or> holds_item crc x (lookup (ss_store t) (of_nat n)))
      \<and> (n \<notin> sy_confirmed s \<union> sy_skipped s \<longrightarrow> holds_item crc x (lookup (ss_store t) (of_nat n)))"
    if "sy_stored s n = Some x" for n x
  proof -
    have "holds_item crc x (lookup (ss_store t) (of_nat n))" if nc: "n \<notin> sy_confirmed s \<union> sy_skipped s"
    proof -
      have h: "holds_item crc x (lookup (ss_store (sy_stream s)) (of_nat n))"
        using I(6) [OF \<open>sy_stored s n = Some x\<close>] nc by simp
      then obtain y where "lookup (ss_store (sy_stream s)) (of_nat n) = Some y" using holds_item_Some by blast
      then show ?thesis using e(3) [OF nov] h by simp
    qed
    moreover have "lookup (ss_store t) (of_nat n) = lookup (ss_store (sy_stream s)) (of_nat n)
        \<or> lookup (ss_store t) (of_nat n) = None"
      using e(4) [OF initialize_done [OF I(3)] of_nat_write(1) [OF I(5) [OF that]]] .
    ultimately show ?thesis using I(5,7,8) [OF that] w by auto
  qed
  have new: "m < unat (q_write_index (ss_queue t)) \<and> length data \<le> obj_fragment_size c - 6 \<and> holds_item crc data (lookup (ss_store t) (of_nat m))"
    if r: "r = Ok n" and m: "m = unat n" for n m
  proof -
    have "n = q_write_index (sy_queue s)" and h: "holds_item crc data (lookup (ss_store t) n)"
      and qt: "ss_queue t = snd (queue_enqueue (sy_queue s))"
      using e(2) [OF r] initialize_done [OF I(3)] by auto
    then have "unat (q_write_index (ss_queue t)) = unat n + 1"
      using enqueue_now(2) [OF I(4) nw prod.collapse [symmetric]] by simp
    then show ?thesis using m h e(2) [OF r] by auto
  qed
  have "n < unat (q_write_index (ss_queue t)) \<and> length x \<le> obj_fragment_size c - 6
      \<and> (lookup (ss_store t) (of_nat n) = None \<or> holds_item crc x (lookup (ss_store t) (of_nat n)))
      \<and> (n \<notin> sy_confirmed s \<union> sy_skipped s \<longrightarrow> holds_item crc x (lookup (ss_store t) (of_nat n)))"
    if "after_store data r (sy_stored s) n = Some x" for n x
    using that old new by (auto simp: after_store_def split: sum.splits if_splits)
  then show ?thesis using e(1) stream_enqueue_queue(1) [OF I(3) en] q by (simp add: stream_inv_def)
qed

lemma peek_step_inv:
  assumes inv: "stream_inv crc c ok lookup s" and pk: "stream_peek_next DB crc len (sy_stream s) = (r, t)"
  shows "stream_inv crc c ok lookup (s\<lparr>sy_stream := t, sy_handles := given_out r @ sy_handles s,
      sy_skipped := sy_skipped s \<union> skipped_by r (ss_queue t)\<rparr>)"
proof -
  note I = stream_invD [OF inv]
  let ?conf = "sy_confirmed s \<union> sy_skipped s" and ?sk = "skipped_by r (ss_queue t)" and ?hs = "sy_handles s"
  obtain pr q where p: "queue_peek_next MAX_PEEKS (sy_queue s) = (pr, q)" by fastforce
  note now = peek_now [OF I(4) p]
  have so: "ok (ss_store (sy_stream s)) \<and> ss_circular (sy_stream s) = c" using I(1,2) by simp
  have qt: "queue_now (ss_queue t) (given_out r @ ?hs) (?conf \<union> ?sk) \<and> q_write_index (ss_queue t) = q_write_index (sy_queue s)"
    using stream_peek_queue [OF I(3) pk p]
  proof (elim disjE exE conjE)
    fix item h assume "pr = Ok h" "r = Ok (Some (item, h))" "ss_queue t = q"
    then show ?thesis using now(1) peek_write_index [OF p] by (simp add: given_out_def skipped_by_def)
  next
    fix b assume b: "pr = Err b" "\<forall>x. r \<noteq> Ok (Some x)" "ss_queue t = q"
    then have "given_out r = []" by (auto simp: given_out_def split: sum.splits option.splits)
    then show ?thesis using now(1) b peek_write_index [OF p] by (auto intro: queue_ok_more)
  next
    fix h e assume h: "pr = Ok h" "r = Err e" "ss_queue t \<in> {handle_drop MAX_PEEKS h q, handle_confirm MAX_PEEKS h q}"
    let ?n = "ch_id h"
    have hn: "h = confirm_handle_new ?n" and qn: "queue_now q (?n # ?hs) ?conf" using now(1,3) h(1) by simp_all
    have "queue_now (ss_queue t) ?hs (?conf \<union> ?sk)"
    proof (cases "ss_queue t = handle_drop MAX_PEEKS h q")
      case True
      then have "queue_now (ss_queue t) ?hs ?conf" using drop_now [OF qn, of ?n] hn by simp
      then show ?thesis by (rule queue_ok_more) auto
    next
      case False
      then have t: "ss_queue t = handle_confirm MAX_PEEKS (confirm_handle_new ?n) q" using h(3) hn by simp
      have "\<lparr>cf_id = ?n, cf_success = True\<rparr> \<in> set (q_channel (ss_queue t))"
        unfolding t using confirm_now(2) [OF qn, of ?n] by simp
      then have "unat ?n \<in> ?sk" using h(2) by (force simp: skipped_by_def)
      moreover have "queue_now (ss_queue t) ?hs (insert (unat ?n) ?conf)"
        using confirm_now(1) [OF qn, of ?n] t by simp
      ultimately show ?thesis by (auto intro: queue_ok_more)
    qed
    then show ?thesis using h peek_write_index [OF p] by (auto simp: given_out_def)
  qed
  from so pk show ?thesis
  proof (cases rule: stream_peek_effect)
    case (init_failed e)
    then show ?thesis using initialize_done [OF I(3)] by simp
  next
    case (peeked s1 pr' q')
    then have eq: "s1 = sy_stream s" "q' = q" using initialize_done [OF I(3)] p by auto
    have keep: "lookup (ss_store t) (of_nat n) = lookup (ss_store (sy_stream s)) (of_nat n)"
      if n: "n < unat (q_write_index (sy_queue s))" "n \<notin> ?conf" for n
    proof (rule ccontr)
      let ?lo = "pq_min (q_readers (sy_queue s))"
      assume "\<not> ?thesis"
      then obtain i where i: "i < unat (pq_min (q_readers q) - ?lo)" "of_nat n = ?lo + of_nat i"
        using peeked(4) eq by blast
      have le: "low (sy_queue s) \<le> low q" by (rule peek_low_mono [OF I(4) p])
      then have "low (sy_queue s) + i < low q" using i(1) by (simp add: unat_sub word_le_nat_alt)
      moreover from this have "unat (?lo + of_nat i) = low (sy_queue s) + i"
        using unat_u32_lt [of "pq_min (q_readers q)"] by (simp add: unat_word_ariths unat_of_nat)
      ultimately have "n < low q" "low (sy_queue s) \<le> n"
        using of_nat_write(2) [OF n(1)] i(2) by simp_all
      then show False using now(2) n(2) by blast
    qed
    have gone: "lookup (ss_store t) k = lookup (ss_store (sy_stream s)) k \<or> lookup (ss_store t) k = None" for k
      using peeked(4) [of k] by argo
    have "n < unat (q_write_index (ss_queue t)) \<and> length x \<le> obj_fragment_size c - 6
        \<and> (lookup (ss_store t) (of_nat n) = None \<or> holds_item crc x (lookup (ss_store t) (of_nat n)))
        \<and> (n \<notin> ?conf \<union> ?sk \<longrightarrow> holds_item crc x (lookup (ss_store t) (of_nat n)))"
      if st: "sy_stored s n = Some x" for n x
    proof -
      have "holds_item crc x (lookup (ss_store t) (of_nat n))" if "n \<notin> ?conf"
        using keep [OF I(5) [OF st] that] I(6) [OF st] that by simp
      moreover have "lookup (ss_store t) (of_nat n) = None \<or> holds_item crc x (lookup (ss_store t) (of_nat n))"
        using gone [of "of_nat n"] I(8) [OF st] by auto
      ultimately show ?thesis using I(5,7) [OF st] qt by simp
    qed
    then show ?thesis
      using qt peeked(2) stream_peek_done [OF I(3) pk] by (simp add: stream_inv_def Un_assoc)
  qed
qed

lemma stream_step_inv:
  assumes "stream_step DB crc B env s s'" and inv: "stream_inv crc c ok lookup s"
    and nov: "\<not> overwrite_on_full c"
    and env: "\<And>d d'. env d d' \<Longrightarrow> ok d \<Longrightarrow> ok d' \<and> lookup d' = lookup d"
  shows "stream_inv crc c ok lookup s'"
  using assms(1)
proof (cases rule: stream_step.cases)
  case (store data r t)
  then show ?thesis using store_step_inv [OF inv nov] by simp
next
  case (peek buffer_len r t)
  then show ?thesis using peek_step_inv [OF inv] by simp
next
  case (confirm n)
  then show ?thesis using confirm_now(1) [OF stream_invD(4) [OF inv], of n] inv by (simp add: stream_inv_def)
next
  case (skip n)
  then show ?thesis using confirm_now(1) [OF stream_invD(4) [OF inv], of n] inv by (simp add: stream_inv_def)
next
  case (abort n)
  then show ?thesis using drop_now [OF stream_invD(4) [OF inv], of n] inv by (simp add: stream_inv_def)
next
  case (wait t)
  then obtain q where q: "wait_confirmation MAX_PEEKS (sy_queue s) = Some q" "t = (sy_stream s)\<lparr>ss_queue := q\<rparr>"
    by (auto simp: stream_wait_confirmation_def)
  then have "q_write_index q = q_write_index (sy_queue s)" by (auto simp: wait_confirmation_def split: list.splits)
  then show ?thesis using wait_now [OF stream_invD(4) [OF inv] q(1)] inv wait(1) q(2) by (simp add: stream_inv_def)
next
  case (drained r t)
  then obtain b q where q: "queue_is_drained MAX_PEEKS (sy_queue s) = (b, q)" "t = (sy_stream s)\<lparr>ss_queue := q\<rparr>"
    by (auto simp: stream_is_drained_def initialize_done [OF stream_invD(3) [OF inv]] and_then_def split: prod.splits)
  then have "q_write_index q = q_write_index (sy_queue s)"
    by (auto simp: queue_is_drained_def update_reader_slots_def Let_def)
  then show ?thesis using drained_now [OF stream_invD(4) [OF inv] q(1)] inv drained(1) q(2) by (simp add: stream_inv_def)
next
  case (others d)
  then show ?thesis using env [OF others(2)] inv by (simp add: stream_inv_def)
qed

text \<open>The first state.\<close>

lemma stream_start_inv:
  assumes "ok d" and "stream_initialize DB (stream_new B d c) = (Ok (), t)"
    and "start_ok MAX_PEEKS (fragment_count B c) (fragments_per_block B c) (fst (existing_range (ss_queue t))) (q_write_index (ss_queue t))"
  shows "stream_inv crc c ok lookup (stream_start t)"
proof -
  have so: "ok (ss_store (stream_new B d c)) \<and> ss_circular (stream_new B d c) = c"
    using assms(1) by (simp add: stream_new_def)
  have "ss_init_done t \<and> (\<exists>rng. ss_queue t = reinit_with_existing_range MAX_PEEKS (read_at rng, write_at rng)
      (queue_with_overwrite_support MAX_PEEKS (fragment_count B c) (fragments_per_block B c)))"
    using assms(2) by (auto simp: stream_initialize_def stream_new_def and_then_def on_store_def
        split: prod.splits sum.splits)
  then obtain rng where "ss_init_done t" and q: "ss_queue t = qs_queue (queue_start MAX_PEEKS (fragment_count B c)
      (fragments_per_block B c) (read_at rng) (write_at rng))"
    by (auto simp: queue_start_def)
  moreover from q have "fst (existing_range (ss_queue t)) = read_at rng" "q_write_index (ss_queue t) = write_at rng"
    by (simp_all add: queue_start_def reinit_with_existing_range_def existing_range_def peek_queue_new_def)
  then have "queue_now (ss_queue t) [] {}"
    using queue_start_ok [OF assms(3)] queue_now unfolding q by (fastforce simp: queue_start_def)
  ultimately show ?thesis
    using stream_initialize_keeps [OF so assms(2)] by (simp add: stream_inv_def stream_start_def)
qed

end

end
