(* ===== verification/Dispatch_Correct.thy ===== *)
theory Dispatch_Correct
  imports Dispatch_Store Stream_Machine
begin

text \<open>
  The two streams of the dispatch store do not disturb each other: the locale \<open>circular_db_frame\<close>
  states that the operations on one circular leave a view of the database alone, and the database
  meets it for the contents of every other circular on disjoint blocks. So for each stream the
  calls on the other one are steps that others make in the machine of a stream with its users.
\<close>

section \<open>Frames\<close>

locale circular_db_frame =
  fixes DB :: "'d circular_db" and c :: circular and ok :: "'d \<Rightarrow> bool" and view :: "'d \<Rightarrow> 'v"
  assumes initialize_frame: "ok d \<Longrightarrow> cdb_initialize DB d = (ri, d') \<Longrightarrow> ok d' \<and> view d' = view d"
    and find_range_frame: "ok d \<Longrightarrow> cdb_find_range DB c d = (rf, d') \<Longrightarrow> ok d' \<and> view d' = view d"
    and read_frame: "ok d \<Longrightarrow> cdb_read DB c n len off d = (rr, d') \<Longrightarrow> ok d' \<and> view d' = view d"
    and write_frame: "ok d \<Longrightarrow> cdb_write DB c n data d = (rw, d') \<Longrightarrow> ok d' \<and> view d' = view d"
    and delete_frame: "ok d \<Longrightarrow> cdb_delete DB c n d = (rw, d') \<Longrightarrow> ok d' \<and> view d' = view d"

text \<open>An operation of a stream store on this circular that keeps the view.\<close>

definition frames :: "circular \<Rightarrow> ('d \<Rightarrow> bool) \<Rightarrow> ('d \<Rightarrow> 'v) \<Rightarrow> ('d stream_store, 'a, 'e) action \<Rightarrow> bool" where
  "frames c ok view m \<longleftrightarrow> (\<forall>s r s'. ok (ss_store s) \<and> ss_circular s = c \<and> m s = (r, s') \<longrightarrow>
     ok (ss_store s') \<and> view (ss_store s') = view (ss_store s) \<and> ss_circular s' = c)"

named_theorems frames_intro \<open>operations that keep a view\<close>

lemma framesD:
  "frames c ok view m \<Longrightarrow> m s = (r, s') \<Longrightarrow> ok (ss_store s) \<Longrightarrow> ss_circular s = c \<Longrightarrow>
     ok (ss_store s') \<and> view (ss_store s') = view (ss_store s) \<and> ss_circular s' = c"
  unfolding frames_def by blast

lemma frames_ret [frames_intro]: "frames c ok view (ret x)"
  by (simp add: frames_def ret_def)

lemma frames_throw [frames_intro]: "frames c ok view (throw e)"
  by (simp add: frames_def throw_def)

lemma frames_if [frames_intro]:
  "(b \<Longrightarrow> frames c ok view m) \<Longrightarrow> (\<not> b \<Longrightarrow> frames c ok view k) \<Longrightarrow> frames c ok view (if b then m else k)"
  by simp

lemma frames_attempt [frames_intro]:
  assumes "frames c ok view m" and "\<And>r. frames c ok view (k r)" shows "frames c ok view (attempt m k)"
  unfolding frames_def attempt_def
proof (intro allI impI, elim conjE)
  fix s r s' assume s: "ok (ss_store s)" "ss_circular s = c" and e: "(case m s of (r, s') \<Rightarrow> k r s') = (r, s')"
  obtain r1 s1 where 1: "m s = (r1, s1)" by fastforce
  from framesD [OF assms(1) 1 s] framesD [OF assms(2), of r1 s1 r s'] e 1
  show "ok (ss_store s') \<and> view (ss_store s') = view (ss_store s) \<and> ss_circular s' = c" by simp
qed

lemma frames_and_then [frames_intro]:
  assumes "frames c ok view m" and "\<And>x. frames c ok view (k x)" shows "frames c ok view (and_then m k)"
proof -
  have "and_then m k = attempt m (\<lambda>r. case r of Err e \<Rightarrow> throw e | Ok x \<Rightarrow> k x)"
    by (auto simp: fun_eq_iff and_then_def attempt_def throw_def split: prod.splits sum.splits)
  then show ?thesis using assms by (auto intro!: frames_attempt frames_throw split: sum.splits)
qed

text \<open>An update of the stream's own bookkeeping.\<close>

lemma frames_local:
  assumes "\<And>s. ss_store (snd (m s)) = ss_store s \<and> ss_circular (snd (m s)) = ss_circular s"
  shows "frames c ok view m"
  unfolding frames_def
proof (intro allI impI, elim conjE)
  fix s r s' assume s: "ok (ss_store s)" "ss_circular s = c" and e: "m s = (r, s')"
  show "ok (ss_store s') \<and> view (ss_store s') = view (ss_store s) \<and> ss_circular s' = c"
    using assms [of s] s e by simp
qed

context circular_db_frame begin

lemma frames_on_store:
  assumes "\<And>d r d'. ok d \<Longrightarrow> m d = (r, d') \<Longrightarrow> ok d' \<and> view d' = view d"
  shows "frames c ok view (on_store m)"
  unfolding frames_def on_store_def
proof (intro allI impI, elim conjE)
  fix s r s' assume s: "ok (ss_store s)" "ss_circular s = c"
    and e: "(case m (ss_store s) of (r, d) \<Rightarrow> (r, s\<lparr>ss_store := d\<rparr>)) = (r, s')"
  obtain r1 d where "m (ss_store s) = (r1, d)" by fastforce
  then show "ok (ss_store s') \<and> view (ss_store s') = view (ss_store s) \<and> ss_circular s' = c"
    using assms [OF s(1)] e s(2) by auto
qed

lemma frames_with_circular:
  assumes "\<And>s. ss_circular s = c \<Longrightarrow> m s = m' s" and "frames c ok view m'"
  shows "frames c ok view m"
  unfolding frames_def
proof (intro allI impI, elim conjE)
  fix s r s' assume s: "ok (ss_store s)" "ss_circular s = c" and e: "m s = (r, s')"
  have "m' s = (r, s')" using assms(1) [OF s(2)] e by simp
  from framesD [OF assms(2) this s]
  show "ok (ss_store s') \<and> view (ss_store s') = view (ss_store s) \<and> ss_circular s' = c" .
qed

lemma frames_db:
  "frames c ok view (on_store (cdb_initialize DB))"
  "frames c ok view (on_store (cdb_find_range DB c))"
  "frames c ok view (on_store (cdb_read DB c n len off))"
  "frames c ok view (on_store (cdb_write DB c n data))"
  "frames c ok view (on_store (cdb_delete DB c n))"
      apply (rule frames_on_store, erule (1) initialize_frame)
     apply (rule frames_on_store, erule (1) find_range_frame)
    apply (rule frames_on_store, erule (1) read_frame)
   apply (rule frames_on_store, erule (1) write_frame)
  apply (rule frames_on_store, erule (1) delete_frame)
  done

lemma frames_reinit:
  "frames c ok view (\<lambda>s. (Ok (), s\<lparr>ss_queue := reinit_with_existing_range P rng (ss_queue s), ss_init_done := True\<rparr>))"
  by (rule frames_local) simp

lemma frames_initialize: "frames c ok view (stream_initialize DB)"
proof (rule frames_with_circular)
  show "stream_initialize DB s = attempt (\<lambda>t. (Ok (ss_init_done t), t)) (\<lambda>i. if i = Ok True then ret () else
      and_then (on_store (cdb_initialize DB)) (\<lambda>_. and_then (on_store (cdb_find_range DB c)) (\<lambda>rng s1.
        (Ok (), s1\<lparr>ss_queue := reinit_with_existing_range MAX_PEEKS (read_at rng, write_at rng) (ss_queue s1),
                   ss_init_done := True\<rparr>)))) s" if "ss_circular s = c" for s
    using that by (simp add: stream_initialize_def attempt_def)
  have "frames c ok view (\<lambda>t. (Ok (ss_init_done t), t))" by (rule frames_local) simp
  then show "frames c ok view (attempt (\<lambda>t. (Ok (ss_init_done t), t)) (\<lambda>i. if i = Ok True then ret () else
      and_then (on_store (cdb_initialize DB)) (\<lambda>_. and_then (on_store (cdb_find_range DB c)) (\<lambda>rng s1.
        (Ok (), s1\<lparr>ss_queue := reinit_with_existing_range MAX_PEEKS (read_at rng, write_at rng) (ss_queue s1),
                   ss_init_done := True\<rparr>)))))"
    by (intro frames_attempt frames_if frames_and_then frames_db frames_ret frames_reinit)
qed

lemma frames_delete_confirmed: "frames c ok view (delete_confirmed DB c rounds k)"
  by (induction rounds arbitrary: k)
    (auto intro!: frames_attempt frames_db frames_ret frames_throw split: sum.splits db_error.splits)

lemma frames_confirm_and_throw: "frames c ok view (confirm_and_throw h e)"
  by (rule frames_local) (simp add: confirm_and_throw_def)

lemma frames_drop_and_throw: "frames c ok view (drop_and_throw h e)"
  by (rule frames_local) (simp add: drop_and_throw_def)

lemma frames_read_item: "frames c ok view (read_item DB crc c len h)"
  by (auto simp: read_item_def Let_def frames_confirm_and_throw frames_drop_and_throw
      intro!: frames_attempt frames_db frames_if frames_ret split: sum.splits)

lemma frames_peek: "frames c ok view (stream_peek_next DB crc len)"
  unfolding frames_def
proof (intro allI impI, elim conjE)
  fix s r s' assume s: "ok (ss_store s)" "ss_circular s = c" and e: "stream_peek_next DB crc len s = (r, s')"
  obtain ri s1 where i: "stream_initialize DB s = (ri, s1)" by fastforce
  note s1 = framesD [OF frames_initialize i s]
  let ?lo = "fst (existing_range (ss_queue s1))"
  obtain pr q where p: "queue_peek_next MAX_PEEKS (ss_queue s1) = (pr, q)" by fastforce
  have f: "frames c ok view (attempt (delete_confirmed DB c (unat (fst (existing_range q) - ?lo)) ?lo)
      (\<lambda>r. case r of
          Err err \<Rightarrow> (case pr of Ok h \<Rightarrow> drop_and_throw h err | Err _ \<Rightarrow> throw err)
        | Ok _ \<Rightarrow> (case pr of Ok h \<Rightarrow> read_item DB crc c len h | Err blocking \<Rightarrow> ret None)))"
    by (auto intro!: frames_attempt frames_delete_confirmed frames_read_item frames_drop_and_throw frames_throw
        frames_ret split: sum.splits)
  show "ok (ss_store s') \<and> view (ss_store s') = view (ss_store s) \<and> ss_circular s' = c"
  proof (cases ri)
    case (Inl x)
    then show ?thesis using e i s1 by (simp add: stream_peek_next_def and_then_def)
  next
    case (Inr u)
    have "attempt (delete_confirmed DB c (unat (fst (existing_range q) - ?lo)) ?lo)
      (\<lambda>r. case r of
          Err err \<Rightarrow> (case pr of Ok h \<Rightarrow> drop_and_throw h err | Err _ \<Rightarrow> throw err)
        | Ok _ \<Rightarrow> (case pr of Ok h \<Rightarrow> read_item DB crc c len h | Err blocking \<Rightarrow> ret None))
      (s1\<lparr>ss_queue := q\<rparr>) = (r, s')"
      using e i p s1 Inr by (simp add: stream_peek_next_def and_then_def Let_def cong: sum.case_cong)
    from framesD [OF f this] show ?thesis using s1 by simp
  qed
qed

lemma frames_enqueue: "frames c ok view (stream_enqueue DB crc B data)"
  unfolding frames_def
proof (intro allI impI, elim conjE)
  fix s r s' assume s: "ok (ss_store s)" "ss_circular s = c" and e: "stream_enqueue DB crc B data s = (r, s')"
  obtain ri s1 where i: "stream_initialize DB s = (ri, s1)" by fastforce
  note s1 = framesD [OF frames_initialize i s]
  obtain rw d where w: "cdb_write DB c (q_write_index (ss_queue s1)) (stream_prefix crc data @ data) (ss_store s1) = (rw, d)"
    by fastforce
  have "ok d \<and> view d = view (ss_store s1)" using write_frame [OF _ w] s1 by simp
  then show "ok (ss_store s') \<and> view (ss_store s') = view (ss_store s) \<and> ss_circular s' = c"
    using e i s1 w by (auto simp: stream_enqueue_def and_then_def Let_def attempt_def on_store_def writable_seq_no_def
        split: sum.splits prod.splits if_splits)
qed

lemma frames_is_drained: "frames c ok view (stream_is_drained DB)"
proof -
  have "frames c ok view (\<lambda>s. case queue_is_drained MAX_PEEKS (ss_queue s) of (b, q) \<Rightarrow> (Ok b, s\<lparr>ss_queue := q\<rparr>))"
    by (rule frames_local) (simp split: prod.splits)
  then show ?thesis unfolding stream_is_drained_def by (intro frames_and_then frames_initialize)
qed

lemma frames_peeked_sendable: "frames c ok view (peeked_sendable M x)"
  by (auto simp: peeked_sendable_def frames_confirm_and_throw intro!: frames_ret split: option.splits sum.splits)

lemmas frames_stream = frames_initialize frames_peek frames_enqueue frames_is_drained frames_peeked_sendable

end

section \<open>The database\<close>

text \<open>Two circulars on disjoint ranges of blocks.\<close>

definition apart :: "circular \<Rightarrow> circular \<Rightarrow> bool" where
  "apart a b \<longleftrightarrow> unat (obj_end a) \<le> unat (obj_start b) \<or> unat (obj_end b) \<le> unat (obj_start a)"

lemma apart_sym: "apart a b \<longleftrightarrow> apart b a"
  by (auto simp: apart_def)

lemma apart_blocks:
  assumes "apart a b" "circ_ok B tot a" "circ_ok B tot b" "tot < 2 ^ 32"
  shows "circ_block B b k \<noteq> circ_block B a n"
proof
  assume eq: "circ_block B b k = circ_block B a n"
  note x = circ_block_range(1,2) [OF assms(2,4), of n] and y = circ_block_range(1,2) [OF assms(3,4), of k]
  show False using x y assms(1) unfolding apart_def eq by linarith
qed

abbreviation pair_ok :: "('f \<Rightarrow> bytes) \<Rightarrow> nat \<Rightarrow> circular \<Rightarrow> circular \<Rightarrow> 'f block_device \<Rightarrow> bool" where
  "pair_ok mem B a b d \<equiv> db_ok mem B a d \<and> db_ok mem B b d"

lemma database_frame:
  assumes tf: "torn_erase_flash F mem" and ap: "apart a b"
  shows "circular_db_frame (database F B) a (pair_ok mem B a b) (\<lambda>d. circ_lookup B b (mem (bd_flash d)))"
proof -
  note nf = torn_erase_flash.axioms(1) [OF tf]
  let ?ok = "pair_ok mem B a b" and ?view = "\<lambda>d. circ_lookup B b (mem (bd_flash d))"
  have keeps: "?ok d' \<and> ?view d' = ?view d" if "keeps_mem mem m" "?ok d" "m d = (r, d')"
    for m :: "('a block_device, 'x, 'y) action" and d r d'
    using keeps_memD [OF that(1,3)] that(2) by simp
  have changed: "?ok d' \<and> ?view d' = ?view d"
    if ok: "?ok d" and tot: "bd_blocks_total d' = bd_blocks_total d"
      and so: "same_outside (block_pos B (circ_block B a n)) (block_pos B (circ_block B a n) + B)
        (mem (bd_flash d)) (mem (bd_flash d'))" for d d' n
  proof -
    have ne: "circ_block B b k \<noteq> circ_block B a n" for k
      by (rule apart_blocks [OF ap]) (use ok device_okD(6) in auto)
    have "?view d' = ?view d" by (rule ext, rule lookup_other_block [OF _ _ so ne]) (use ok in auto)
    moreover have "?ok d'" using ok unfolding device_ok_def tot same_outside_length [OF so] .
    ultimately show ?thesis by simp
  qed
  show ?thesis
  proof (unfold_locales, goal_cases)
    case (1 d ri d')
    then show ?case by (simp add: database_def initialize_writeable_circular_store_def
          initialize_circular_store_def and_then_def)
  next
    case (2 d rf d')
    show ?case by (rule keeps [OF nor_flash_contract.keeps_find_circular_range [OF nf, of B a] 2(1)])
      (use 2(2) in \<open>simp add: database_def\<close>)
  next
    case (3 d n len off rr d')
    show ?case by (rule keeps [OF nor_flash_contract.keeps_read_circular [OF nf, of B a n len off] 3(1)])
      (use 3(2) in \<open>simp add: database_def\<close>)
  next
    case (4 d n data rw d')
    then have "write_circular_fragment F B a n data d = (rw, d')" by (simp add: database_def)
    then show ?case using torn_erase_flash.write_circular_effect [OF tf] changed 4(1) by blast
  next
    case (5 d n rw d')
    then have "delete_circular_fragment F B a n d = (rw, d')" by (simp add: database_def)
    then show ?case using nor_flash_contract.delete_circular_effect [OF nf] changed 5(1) by blast
  qed
qed

lemma database_pair_contract:
  assumes tf: "torn_erase_flash F mem" and ap: "apart a b"
  shows "circular_db_contract (database F B) a (pair_ok mem B a b) (\<lambda>d. circ_lookup B a (mem (bd_flash d)))"
proof -
  note frame = database_frame [OF assms, of B] and con = database_contract [OF tf, of B a]
  note F = circular_db_frame.initialize_frame [OF frame] circular_db_frame.find_range_frame [OF frame]
    circular_db_frame.read_frame [OF frame] circular_db_frame.write_frame [OF frame]
    circular_db_frame.delete_frame [OF frame]
  show ?thesis
  proof (unfold_locales, goal_cases)
    case (1 d ri d')
    then show ?case using F(1) circular_db_contract.initialize_keeps [OF con] by blast
  next
    case (2 d rf d')
    then show ?case using F(2) circular_db_contract.find_range_keeps [OF con] by blast
  next
    case (3 d n len off rr d')
    then show ?case using F(3) circular_db_contract.read_keeps [OF con] by blast
  next
    case (4 d n len off bs d')
    then show ?case using circular_db_contract.read_result [OF con] by blast
  next
    case (5 d n data rw d')
    then show ?case using F(4) circular_db_contract.write_map [OF con] by blast
  next
    case (6 d n rw d')
    then show ?case using F(5) circular_db_contract.delete_map [OF con] by blast
  qed
qed

section \<open>The store with its users\<close>

text \<open>
  The users of both streams call the store in any order, and confirm or drop the handles that they
  were given. The ghost fields are those of the machine of a stream, for each of the two.
\<close>

datatype stream_id = Event_Stream | Sensor_Data_Stream

record stream_ghost =
  gh_handles :: "u32 list"
  gh_confirmed :: "nat set"
  gh_skipped :: "nat set"
  gh_stored :: "nat \<Rightarrow> bytes option"

record 'd pair_system =
  py_store :: "'d stream_pair_store"
  py_ghost :: "stream_id \<Rightarrow> stream_ghost"

fun ps_stream :: "stream_id \<Rightarrow> 'd stream_pair_store \<Rightarrow> 'd stream_store" where
  "ps_stream Event_Stream = ps_events"
| "ps_stream Sensor_Data_Stream = ps_sensor_data"

fun on_stream :: "stream_id \<Rightarrow> ('d stream_store, 'a, 'e) action \<Rightarrow> ('d stream_pair_store, 'a, 'e) action" where
  "on_stream Event_Stream = on_events"
| "on_stream Sensor_Data_Stream = on_sensor_data"

fun store_call ::
  "stream_id \<Rightarrow> 'd circular_db \<Rightarrow> (bytes \<Rightarrow> u32) \<Rightarrow> nat \<Rightarrow> sendable \<Rightarrow> ('d stream_pair_store, seq_no, db_error) action" where
  "store_call Event_Stream = store_event"
| "store_call Sensor_Data_Stream = store_sensor_data"

fun peek_call ::
  "stream_id \<Rightarrow> 'd circular_db \<Rightarrow> (bytes \<Rightarrow> u32) \<Rightarrow> nat
   \<Rightarrow> ('d stream_pair_store, (sendable \<times> confirm_handle) option, db_error) action" where
  "peek_call Event_Stream DB crc len = peek_event DB crc"
| "peek_call Sensor_Data_Stream DB crc len = peek_sensor_data DB crc len"

definition send_call :: "stream_id \<Rightarrow> (queue \<Rightarrow> queue) \<Rightarrow> 'd stream_pair_store \<Rightarrow> 'd stream_pair_store" where
  "send_call w f p = snd (on_stream w (\<lambda>s. (Ok () :: (unit, unit) result, s\<lparr>ss_queue := f (ss_queue s)\<rparr>)) p)"

inductive pair_step :: "'d circular_db \<Rightarrow> (bytes \<Rightarrow> u32) \<Rightarrow> nat \<Rightarrow> 'd pair_system \<Rightarrow> 'd pair_system \<Rightarrow> bool"
  for DB crc B where
  store: "no_wrap MAX_PEEKS (ss_queue (ps_stream w (py_store s))) \<Longrightarrow>
    store_call w DB crc B m (py_store s) = (r, p) \<Longrightarrow> g = py_ghost s w \<Longrightarrow>
    pair_step DB crc B s (s\<lparr>py_store := p,
      py_ghost := (py_ghost s)(w := g\<lparr>gh_stored := after_store (as_slice m) r (gh_stored g)\<rparr>)\<rparr>)"
| peek: "peek_call w DB crc len (py_store s) = (r, p) \<Longrightarrow> g = py_ghost s w \<Longrightarrow>
    pair_step DB crc B s (s\<lparr>py_store := p,
      py_ghost := (py_ghost s)(w := g\<lparr>gh_handles := given_out r @ gh_handles g,
        gh_skipped := gh_skipped g \<union> skipped_by r (ss_queue (ps_stream w p))\<rparr>)\<rparr>)"
| confirm: "n \<in> set (gh_handles (py_ghost s w)) \<Longrightarrow> g = py_ghost s w \<Longrightarrow>
    pair_step DB crc B s (s\<lparr>py_store := send_call w (handle_confirm MAX_PEEKS (confirm_handle_new n)) (py_store s),
      py_ghost := (py_ghost s)(w := g\<lparr>gh_handles := remove1 n (gh_handles g),
        gh_confirmed := insert (unat n) (gh_confirmed g)\<rparr>)\<rparr>)"
| abort: "n \<in> set (gh_handles (py_ghost s w)) \<Longrightarrow> g = py_ghost s w \<Longrightarrow>
    pair_step DB crc B s (s\<lparr>py_store := send_call w (handle_drop MAX_PEEKS (confirm_handle_new n)) (py_store s),
      py_ghost := (py_ghost s)(w := g\<lparr>gh_handles := remove1 n (gh_handles g)\<rparr>)\<rparr>)"
| drained: "pair_is_drained DB (py_store s) = (r, p) \<Longrightarrow> pair_step DB crc B s (s\<lparr>py_store := p\<rparr>)"
| wait: "pair_wait_confirmation (py_store s) = Some p \<Longrightarrow> pair_step DB crc B s (s\<lparr>py_store := p\<rparr>)"

inductive pair_reachable :: "'d circular_db \<Rightarrow> (bytes \<Rightarrow> u32) \<Rightarrow> nat \<Rightarrow> 'd pair_system \<Rightarrow> 'd pair_system \<Rightarrow> bool"
  for DB crc B s0 where
  init: "pair_reachable DB crc B s0 s0"
| step: "pair_reachable DB crc B s0 s \<Longrightarrow> pair_step DB crc B s s' \<Longrightarrow> pair_reachable DB crc B s0 s'"

definition pair_start :: "'d stream_pair_store \<Rightarrow> 'd pair_system" where
  "pair_start p = \<lparr>py_store = p,
     py_ghost = (\<lambda>_. \<lparr>gh_handles = [], gh_confirmed = {}, gh_skipped = {}, gh_stored = (\<lambda>_. None)\<rparr>)\<rparr>"

text \<open>One stream of the pair, as a system of its own.\<close>

definition view_of :: "stream_id \<Rightarrow> 'd pair_system \<Rightarrow> 'd stream_system" where
  "view_of w s = \<lparr>sy_stream = (ps_stream w (py_store s))\<lparr>ss_store := ps_db (py_store s)\<rparr>,
     sy_handles = gh_handles (py_ghost s w), sy_confirmed = gh_confirmed (py_ghost s w),
     sy_skipped = gh_skipped (py_ghost s w), sy_stored = gh_stored (py_ghost s w)\<rparr>"

end
