(* ===== verification/Dispatch_Machine.thy ===== *)
theory Dispatch_Machine
  imports Dispatch_Correct
begin

text \<open>
  Durability and integrity of the dispatch store with its users, from the invariant of the machine
  of one stream and the frames: each call is a step of its own stream, and for the other stream a
  step that others make.
\<close>

section \<open>Peeking a message\<close>

lemma stream_inv_more:
  assumes "stream_inv crc c ok lookup s" and "sy_skipped s \<subseteq> K"
  shows "stream_inv crc c ok lookup (s\<lparr>sy_skipped := K\<rparr>)"
proof -
  have "queue_now (sy_queue s) (sy_handles s) (sy_confirmed s \<union> K)"
    by (rule queue_ok_more [OF stream_invD(4) [OF assms(1)]]) (use assms(2) in auto)
  then show ?thesis using assms by (auto simp: stream_inv_def)
qed

context circular_db_contract begin

lemma skip_step_inv:
  assumes "stream_inv crc c ok lookup s" and "n \<in> set (sy_handles s)"
  shows "stream_inv crc c ok lookup ((with_queue s (handle_confirm MAX_PEEKS (confirm_handle_new n) (sy_queue s)))
      \<lparr>sy_handles := remove1 n (sy_handles s), sy_skipped := insert (unat n) (sy_skipped s)\<rparr>)"
  using confirm_now(1) [OF stream_invD(4) [OF assms(1)] assms(2)] assms(1) by (simp add: stream_inv_def)

lemma peek_sendable_inv:
  assumes inv: "stream_inv crc c ok lookup s"
    and pk: "and_then (stream_peek_next DB crc M) (peeked_sendable M) (sy_stream s) = (r, t)"
  shows "stream_inv crc c ok lookup (s\<lparr>sy_stream := t, sy_handles := given_out r @ sy_handles s,
      sy_skipped := sy_skipped s \<union> skipped_by r (ss_queue t)\<rparr>)"
proof -
  obtain r1 t1 where p1: "stream_peek_next DB crc M (sy_stream s) = (r1, t1)" by fastforce
  note i1 = peek_step_inv [OF inv p1]
  show ?thesis
  proof (cases "\<exists>item h. r1 = Ok (Some (item, h))")
    case False
    then have "t = t1 \<and> given_out r = given_out r1 \<and> skipped_by r (ss_queue t) = skipped_by r1 (ss_queue t1)"
      using pk p1 by (auto simp: and_then_def peeked_sendable_def given_out_def skipped_by_def
          split: sum.splits option.splits)
    then show ?thesis using i1 by metis
  next
    case True
    then obtain item h where r1: "r1 = Ok (Some (item, h))" by blast
    let ?cr = "create_with_total_length M (item @ drop (length item) (builder_new M)) (length item)"
    show ?thesis
    proof (cases ?cr)
      case (Inr buffer)
      then have "r = Ok (Some (buffer, h)) \<and> t = t1" using pk p1 r1 by (simp add: and_then_def peeked_sendable_def)
      then show ?thesis using i1 r1 by (simp add: given_out_def skipped_by_def)
    next
      case (Inl e)
      let ?s1 = "s\<lparr>sy_stream := t1, sy_handles := ch_id h # sy_handles s\<rparr>"
      have s1: "stream_inv crc c ok lookup ?s1" using i1 r1 by (simp add: given_out_def skipped_by_def)
      have h: "h = confirm_handle_new (ch_id h)"
      proof -
        obtain pr q where p: "queue_peek_next MAX_PEEKS (sy_queue s) = (pr, q)" by fastforce
        then have "pr = Ok h" using stream_peek_queue [OF stream_invD(3) [OF inv] p1 p] r1 by auto
        then show ?thesis using peek_now(3) [OF stream_invD(4) [OF inv] p] by simp
      qed
      let ?q = "handle_confirm MAX_PEEKS (confirm_handle_new (ch_id h)) (ss_queue t1)"
      have rt: "r = Err E_FragmentNotReadable" "t = t1\<lparr>ss_queue := ?q\<rparr>"
        using pk p1 r1 Inl h by (simp_all add: and_then_def peeked_sendable_def confirm_and_throw_def)
      have "\<lparr>cf_id = ch_id h, cf_success = True\<rparr> \<in> set (q_channel (ss_queue t))"
        using confirm_now(2) [OF stream_invD(4) [OF s1], of "ch_id h"] rt(2) by simp
      then have n: "insert (unat (ch_id h)) (sy_skipped s) \<subseteq> sy_skipped s \<union> skipped_by r (ss_queue t)"
        using rt(1) by (force simp: skipped_by_def)
      have "stream_inv crc c ok lookup (s\<lparr>sy_stream := t, sy_skipped := insert (unat (ch_id h)) (sy_skipped s)\<rparr>)"
        using skip_step_inv [OF s1, of "ch_id h"] rt(2) by simp
      from stream_inv_more [OF this, of "sy_skipped s \<union> skipped_by r (ss_queue t)"] n rt(1)
      show ?thesis by (simp add: given_out_def)
    qed
  qed
qed

text \<open>What a peek hands out under the number of a stored item is that item.\<close>

lemma peek_item_stored:
  assumes inv: "stream_inv crc c ok lookup s" and size: "obj_fragment_size c < 2 ^ 16"
    and pk: "stream_peek_next DB crc len (sy_stream s) = (Ok (Some (item, h)), t)"
    and st: "sy_stored s (unat (ch_id h)) = Some data"
  shows "item = data"
proof -
  note I = stream_invD [OF inv]
  have so: "ok (ss_store (sy_stream s)) \<and> ss_circular (sy_stream s) = c" using I(1,2) by simp
  from so pk obtain x where x: "contents t (ch_id h) = Some x" "decode_item crc x = Some item"
    and "contents t (ch_id h) = contents (sy_stream s) (ch_id h)"
    by (rule stream_peek_effect) (auto, metis option.distinct(1))
  then have "holds_item crc data (Some x)" using I(8) [OF st] by simp
  moreover have "length data < 2 ^ 16" using I(7) [OF st] size by simp
  ultimately show ?thesis using decode_item [of crc data x] x(2) by simp
qed

end

section \<open>The invariant of the pair\<close>

locale dispatch_pair =
  fixes DB :: "'d circular_db" and circ :: "stream_id \<Rightarrow> circular" and ok :: "'d \<Rightarrow> bool"
    and look :: "stream_id \<Rightarrow> 'd \<Rightarrow> seq_no \<Rightarrow> bytes option"
  assumes contract: "circular_db_contract DB (circ w) ok (look w)"
    and apart_frame: "w \<noteq> w' \<Longrightarrow> circular_db_frame DB (circ w) ok (look w')"
    and keeps_old: "\<not> overwrite_on_full (circ w)"
begin

definition pair_inv :: "(bytes \<Rightarrow> u32) \<Rightarrow> 'd pair_system \<Rightarrow> bool" where
  "pair_inv crc s \<longleftrightarrow> (\<forall>w. stream_inv crc (circ w) ok (look w) (view_of w s))"

lemma pair_invD: "pair_inv crc s \<Longrightarrow> stream_inv crc (circ w) ok (look w) (view_of w s)"
  by (simp add: pair_inv_def)

lemma on_streamE:
  assumes "on_stream w m p = (r, p')"
  obtains t where "m ((ps_stream w p)\<lparr>ss_store := ps_db p\<rparr>) = (r, t)" "ps_stream w p' = t" "ps_db p' = ss_store t"
    "\<And>w'. w' \<noteq> w \<Longrightarrow> ps_stream w' p' = ps_stream w' p"
proof -
  obtain r1 t where t: "m ((ps_stream w p)\<lparr>ss_store := ps_db p\<rparr>) = (r1, t)" by fastforce
  have p': "r1 = r" "p' = (case w of Event_Stream \<Rightarrow> p\<lparr>ps_db := ss_store t, ps_events := t\<rparr>
      | Sensor_Data_Stream \<Rightarrow> p\<lparr>ps_db := ss_store t, ps_sensor_data := t\<rparr>)"
    using assms t by (cases w; simp add: on_events_def on_sensor_data_def)+
  have "ps_stream w' p' = ps_stream w' p" if "w' \<noteq> w" for w'
    using that unfolding p' by (cases w; cases w') simp_all
  moreover have "ps_stream w p' = t \<and> ps_db p' = ss_store t" unfolding p' by (cases w) simp_all
  ultimately show thesis using that t p'(1) by simp
qed

text \<open>A call on one stream: it keeps the invariant of its own stream, and its frame that of the other.\<close>

lemma on_stream_inv:
  assumes inv: "pair_inv crc s" and m: "on_stream w m (py_store s) = (r, p)"
    and fr: "\<And>w'. w \<noteq> w' \<Longrightarrow> frames (circ w) ok (look w') m"
    and own: "\<And>t. m (sy_stream (view_of w s)) = (r, t) \<Longrightarrow> ps_stream w p = t \<Longrightarrow>
      stream_inv crc (circ w) ok (look w) ((view_of w s)\<lparr>sy_stream := t, sy_handles := gh_handles g,
        sy_confirmed := gh_confirmed g, sy_skipped := gh_skipped g, sy_stored := gh_stored g\<rparr>)"
  shows "pair_inv crc (s\<lparr>py_store := p, py_ghost := (py_ghost s)(w := g)\<rparr>)"
  unfolding pair_inv_def
proof
  fix w'
  from m obtain t where t: "m ((ps_stream w (py_store s))\<lparr>ss_store := ps_db (py_store s)\<rparr>) = (r, t)"
    "ps_stream w p = t" "ps_db p = ss_store t" "\<And>w'. w' \<noteq> w \<Longrightarrow> ps_stream w' p = ps_stream w' (py_store s)"
    by (rule on_streamE) blast
  let ?s' = "s\<lparr>py_store := p, py_ghost := (py_ghost s)(w := g)\<rparr>"
  show "stream_inv crc (circ w') ok (look w') (view_of w' ?s')"
  proof (cases "w' = w")
    case True
    have "view_of w ?s' = (view_of w s)\<lparr>sy_stream := t, sy_handles := gh_handles g,
        sy_confirmed := gh_confirmed g, sy_skipped := gh_skipped g, sy_stored := gh_stored g\<rparr>"
      using t by (simp add: view_of_def)
    then show ?thesis using own [of t] t True by (simp add: view_of_def)
  next
    case False
    note iw = stream_invD(1,2) [OF pair_invD [OF inv, of w]]
    have "ok (ss_store t) \<and> look w' (ss_store t) = look w' (ps_db (py_store s))"
      using framesD [OF fr [OF False [symmetric]] t(1)] iw by (simp add: view_of_def)
    moreover have "view_of w' ?s' = (view_of w' s)\<lparr>sy_stream := (sy_stream (view_of w' s))\<lparr>ss_store := ss_store t\<rparr>\<rparr>"
      using t(3,4) False by (simp add: view_of_def)
    ultimately show ?thesis using pair_invD [OF inv, of w'] by (simp add: stream_inv_def view_of_def)
  qed
qed

lemma stream_frames:
  assumes "w \<noteq> w'"
  shows "frames (circ w) ok (look w') (stream_enqueue DB crc B data)"
    and "frames (circ w) ok (look w') (and_then (stream_peek_next DB crc M) (peeked_sendable M))"
    and "frames (circ w) ok (look w') (stream_is_drained DB)"
    and "frames (circ w) ok (look w') (\<lambda>s. (x, s\<lparr>ss_queue := f (ss_queue s)\<rparr>))"
  using circular_db_frame.frames_stream [OF apart_frame [OF assms]]
  by (auto intro: frames_and_then frames_local)

lemma ghost_eq: "(view_of w s)\<lparr>sy_stream := t, sy_handles := gh_handles (py_ghost s w),
    sy_confirmed := gh_confirmed (py_ghost s w), sy_skipped := gh_skipped (py_ghost s w),
    sy_stored := gh_stored (py_ghost s w)\<rparr> = (view_of w s)\<lparr>sy_stream := t\<rparr>"
  by (simp add: view_of_def)

lemma drained_inv:
  assumes "pair_inv crc s" and "on_stream w (stream_is_drained DB) (py_store s) = (r, p)"
  shows "pair_inv crc (s\<lparr>py_store := p\<rparr>)"
proof -
  have "stream_inv crc (circ w) ok (look w) ((view_of w s)\<lparr>sy_stream := t\<rparr>)"
    if "stream_is_drained DB (sy_stream (view_of w s)) = (r, t)" for t
    by (rule circular_db_contract.stream_step_inv [OF contract
          stream_step.drained [where env = "\<lambda>_ _. False", OF that] pair_invD [OF assms(1)] keeps_old]) simp
  from on_stream_inv [OF assms stream_frames(3), of "py_ghost s w"] this show ?thesis
    by (simp add: ghost_eq)
qed

lemma send_inv:
  assumes "pair_inv crc s"
    and "stream_inv crc (circ w) ok (look w) ((with_queue (view_of w s) (f (sy_queue (view_of w s))))
      \<lparr>sy_handles := gh_handles g, sy_confirmed := gh_confirmed g, sy_skipped := gh_skipped g, sy_stored := gh_stored g\<rparr>)"
  shows "pair_inv crc (s\<lparr>py_store := send_call w f (py_store s), py_ghost := (py_ghost s)(w := g)\<rparr>)"
proof -
  let ?m = "\<lambda>s. (Ok () :: (unit, unit) result, s\<lparr>ss_queue := f (ss_queue s)\<rparr>)"
  obtain r p where p: "on_stream w ?m (py_store s) = (r, p)" by fastforce
  then have "send_call w f (py_store s) = p" by (simp add: send_call_def)
  with on_stream_inv [OF assms(1) p stream_frames(4), of g] assms(2) show ?thesis by simp
qed

lemma wait_inv:
  assumes inv: "pair_inv crc s" and "pair_wait_confirmation (py_store s) = Some p"
  shows "pair_inv crc (s\<lparr>py_store := p\<rparr>)"
proof -
  let ?p = "py_store s"
  have 1: "pair_inv crc (s\<lparr>py_store := q\<rparr>)"
    if "stream_wait_confirmation (ps_stream w ?p) = Some t" "ps_db q = ps_db ?p" "ps_stream w q = t"
      "\<And>w'. w' \<noteq> w \<Longrightarrow> ps_stream w' q = ps_stream w' ?p" for w t q
    unfolding pair_inv_def
  proof
    fix w'
    have v: "stream_wait_confirmation (sy_stream (view_of w s)) = Some (t\<lparr>ss_store := ps_db ?p\<rparr>)"
      using that(1) by (auto simp: stream_wait_confirmation_def view_of_def)
    have "stream_inv crc (circ w) ok (look w) ((view_of w s)\<lparr>sy_stream := t\<lparr>ss_store := ps_db ?p\<rparr>\<rparr>)"
      by (rule circular_db_contract.stream_step_inv [OF contract
            stream_step.wait [where env = "\<lambda>_ _. False", OF v] pair_invD [OF inv] keeps_old]) simp
    then show "stream_inv crc (circ w') ok (look w') (view_of w' (s\<lparr>py_store := q\<rparr>))"
      using that(2-4) pair_invD [OF inv, of w'] by (cases "w' = w") (auto simp: view_of_def)
  qed
  show ?thesis
  proof (cases "stream_wait_confirmation (ps_events ?p)")
    case (Some t)
    then have p: "p = ?p\<lparr>ps_events := t\<rparr>" using assms(2) by (simp add: pair_wait_confirmation_def)
    then have "ps_stream w' p = ps_stream w' ?p" if "w' \<noteq> Event_Stream" for w' using that by (cases w') simp_all
    with 1 [of Event_Stream t p] Some p show ?thesis by simp
  next
    case None
    then obtain t where t: "stream_wait_confirmation (ps_sensor_data ?p) = Some t" "p = ?p\<lparr>ps_sensor_data := t\<rparr>"
      using assms(2) by (auto simp: pair_wait_confirmation_def)
    then have "ps_stream w' p = ps_stream w' ?p" if "w' \<noteq> Sensor_Data_Stream" for w' using that by (cases w') simp_all
    with 1 [of Sensor_Data_Stream t p] t show ?thesis by simp
  qed
qed

lemma store_inv:
  assumes inv: "pair_inv crc s" and nw: "no_wrap MAX_PEEKS (ss_queue (ps_stream w (py_store s)))"
    and st: "on_stream w (stream_enqueue DB crc B data) (py_store s) = (r, p)"
    and g: "g = (py_ghost s w)\<lparr>gh_stored := after_store data r (gh_stored (py_ghost s w))\<rparr>"
  shows "pair_inv crc (s\<lparr>py_store := p, py_ghost := (py_ghost s)(w := g)\<rparr>)"
proof (rule on_stream_inv [OF inv st stream_frames(1)])
  fix t assume "stream_enqueue DB crc B data (sy_stream (view_of w s)) = (r, t)"
  from circular_db_contract.store_step_inv [OF contract pair_invD [OF inv] keeps_old _ this] nw g
  show "stream_inv crc (circ w) ok (look w) ((view_of w s)\<lparr>sy_stream := t, sy_handles := gh_handles g,
      sy_confirmed := gh_confirmed g, sy_skipped := gh_skipped g, sy_stored := gh_stored g\<rparr>)"
    by (simp add: view_of_def)
qed

lemma peek_inv:
  assumes inv: "pair_inv crc s"
    and pk: "on_stream w (and_then (stream_peek_next DB crc M) (peeked_sendable M)) (py_store s) = (r, p)"
    and g: "g = (py_ghost s w)\<lparr>gh_handles := given_out r @ gh_handles (py_ghost s w),
      gh_skipped := gh_skipped (py_ghost s w) \<union> skipped_by r (ss_queue (ps_stream w p))\<rparr>"
  shows "pair_inv crc (s\<lparr>py_store := p, py_ghost := (py_ghost s)(w := g)\<rparr>)"
proof (rule on_stream_inv [OF inv pk stream_frames(2)])
  fix t assume t: "and_then (stream_peek_next DB crc M) (peeked_sendable M) (sy_stream (view_of w s)) = (r, t)"
    and p: "ps_stream w p = t"
  from circular_db_contract.peek_sendable_inv [OF contract pair_invD [OF inv] t] g p
  show "stream_inv crc (circ w) ok (look w) ((view_of w s)\<lparr>sy_stream := t, sy_handles := gh_handles g,
      sy_confirmed := gh_confirmed g, sy_skipped := gh_skipped g, sy_stored := gh_stored g\<rparr>)"
    by (simp add: view_of_def)
qed

lemma call_on_stream:
  "store_call w DB crc B m = on_stream w (stream_enqueue DB crc B (as_slice m))"
  "\<exists>M. peek_call w DB crc len = on_stream w (and_then (stream_peek_next DB crc M) (peeked_sendable M))"
  by (cases w; auto simp: fun_eq_iff store_event_def store_sensor_data_def peek_event_def peek_sensor_data_def)+

lemma pair_step_inv:
  assumes "pair_step DB crc B s s'" and inv: "pair_inv crc s"
  shows "pair_inv crc s'"
  using assms(1)
proof (cases rule: pair_step.cases)
  case (store w m r p g)
  then show ?thesis using store_inv [OF inv, of w B "as_slice m" r p] by (simp add: call_on_stream(1))
next
  case (peek w len r p g)
  obtain M where "peek_call w DB crc len = on_stream w (and_then (stream_peek_next DB crc M) (peeked_sendable M))"
    using call_on_stream(2) by blast
  then show ?thesis using peek_inv [OF inv, of w M r p] peek by simp
next
  case (confirm n w g)
  have "stream_step DB crc B (\<lambda>_ _. False) (view_of w s)
      ((with_queue (view_of w s) (handle_confirm MAX_PEEKS (confirm_handle_new n) (sy_queue (view_of w s))))
        \<lparr>sy_handles := remove1 n (sy_handles (view_of w s)), sy_confirmed := insert (unat n) (sy_confirmed (view_of w s))\<rparr>)"
    by (rule stream_step.confirm) (use confirm in \<open>simp add: view_of_def\<close>)
  from circular_db_contract.stream_step_inv [OF contract this pair_invD [OF inv] keeps_old]
  show ?thesis unfolding confirm(1) by (intro send_inv [OF inv]) (simp add: view_of_def confirm(3))
next
  case (abort n w g)
  have "stream_step DB crc B (\<lambda>_ _. False) (view_of w s)
      ((with_queue (view_of w s) (handle_drop MAX_PEEKS (confirm_handle_new n) (sy_queue (view_of w s))))
        \<lparr>sy_handles := remove1 n (sy_handles (view_of w s))\<rparr>)"
    by (rule stream_step.abort) (use abort in \<open>simp add: view_of_def\<close>)
  from circular_db_contract.stream_step_inv [OF contract this pair_invD [OF inv] keeps_old]
  show ?thesis unfolding abort(1) by (intro send_inv [OF inv]) (simp add: view_of_def abort(3))
next
  case (drained r p)
  obtain r1 p1 where 1: "on_events (stream_is_drained DB) (py_store s) = (r1, p1)" by fastforce
  have i1: "pair_inv crc (s\<lparr>py_store := p1\<rparr>)" using drained_inv [OF inv, of Event_Stream r1 p1] 1 by simp
  show ?thesis
  proof (cases "r1 = Ok True")
    case True
    then have "on_stream Sensor_Data_Stream (stream_is_drained DB) (py_store (s\<lparr>py_store := p1\<rparr>)) = (r, p)"
      using drained(2) 1 by (simp add: pair_is_drained_def and_then_def)
    from drained_inv [OF i1 this] show ?thesis unfolding drained(1) by simp
  next
    case False
    then have "p = p1" using drained(2) 1 by (auto simp: pair_is_drained_def and_then_def split: sum.splits if_splits)
    then show ?thesis unfolding drained(1) using i1 by simp
  qed
next
  case (wait p)
  then show ?thesis using wait_inv [OF inv] by simp
qed

lemma pair_reachable_inv:
  assumes "pair_reachable DB crc B s0 s" and "pair_inv crc s0" shows "pair_inv crc s"
  using assms(1) by induction (use assms(2) pair_step_inv in blast)+

text \<open>The first state.\<close>

lemma pair_start_inv:
  assumes d: "ok d"
    and i: "pair_initialize DB (pair_new B d (circ Sensor_Data_Stream) (circ Event_Stream)) = (Ok (), p0)"
    and st: "\<And>w. start_ok MAX_PEEKS (fragment_count B (circ w)) (fragments_per_block B (circ w))
      (fst (existing_range (ss_queue (ps_stream w p0)))) (q_write_index (ss_queue (ps_stream w p0)))"
  shows "pair_inv crc (pair_start p0)"
proof -
  let ?sd = "circ Sensor_Data_Stream" and ?ev = "circ Event_Stream"
  have new: "(stream_new B d1 c)\<lparr>ss_store := d2\<rparr> = stream_new B d2 c" for d1 d2 c by (simp add: stream_new_def)
  obtain t1 t2 where t1: "stream_initialize DB (stream_new B d ?sd) = (Ok (), t1)"
    and t2: "stream_initialize DB (stream_new B (ss_store t1) ?ev) = (Ok (), t2)"
    and p0: "ps_sensor_data p0 = t1" "ps_events p0 = t2" "ps_db p0 = ss_store t2"
    using i by (auto simp: pair_initialize_def pair_new_def on_sensor_data_def on_events_def and_then_def new
        split: prod.splits sum.splits)
  note s1 = circular_db_contract.stream_start_inv [OF contract d t1, of crc]
  have s1: "stream_inv crc ?sd ok (look Sensor_Data_Stream) (stream_start t1)"
    by (rule s1) (use st [of Sensor_Data_Stream] p0 in simp)
  have ok1: "ok (ss_store t1)" using stream_invD(1) [OF s1] by (simp add: stream_start_def)
  have s2: "stream_inv crc ?ev ok (look Event_Stream) (stream_start t2)"
    by (rule circular_db_contract.stream_start_inv [OF contract ok1 t2]) (use st [of Event_Stream] p0 in simp)
  have "frames ?ev ok (look Sensor_Data_Stream) (stream_initialize DB)"
    by (rule circular_db_frame.frames_initialize [OF apart_frame]) simp
  from framesD [OF this t2] ok1 have "ok (ss_store t2)"
    "look Sensor_Data_Stream (ss_store t2) = look Sensor_Data_Stream (ss_store t1)" by (simp_all add: stream_new_def)
  then have "stream_inv crc ?sd ok (look Sensor_Data_Stream) (view_of Sensor_Data_Stream (pair_start p0))"
    using s1 p0 by (simp add: stream_inv_def stream_start_def view_of_def pair_start_def)
  moreover have "stream_inv crc ?ev ok (look Event_Stream) (view_of Event_Stream (pair_start p0))"
    using s2 p0 by (simp add: stream_inv_def stream_start_def view_of_def pair_start_def)
  ultimately show ?thesis unfolding pair_inv_def by (metis (full_types) stream_id.exhaust)
qed

end

section \<open>The pair on the database\<close>

locale dispatch_flash = torn_erase_flash F mem for F :: "('f, 'e) nor_flash" and mem :: "'f \<Rightarrow> bytes" +
  fixes circ :: "stream_id \<Rightarrow> circular" and B :: nat
  assumes streams_apart: "apart (circ Event_Stream) (circ Sensor_Data_Stream)"
    and no_overwrite: "\<not> overwrite_on_full (circ w)"

abbreviation streams_ok :: "('f \<Rightarrow> bytes) \<Rightarrow> nat \<Rightarrow> (stream_id \<Rightarrow> circular) \<Rightarrow> 'f block_device \<Rightarrow> bool" where
  "streams_ok mem B circ d \<equiv> pair_ok mem B (circ Event_Stream) (circ Sensor_Data_Stream) d"

lemma pair_ok_sym: "pair_ok mem B a b = pair_ok mem B b a"
  by (auto simp: fun_eq_iff)

sublocale dispatch_flash \<subseteq> pair: dispatch_pair "database F B" circ "streams_ok mem B circ"
  "\<lambda>w d. circ_lookup B (circ w) (mem (bd_flash d))"
proof (rule dispatch_pair.intro)
  fix w
  have "pair_ok mem B (circ Event_Stream) (circ Sensor_Data_Stream) = pair_ok mem B (circ Sensor_Data_Stream) (circ Event_Stream)"
    by (rule pair_ok_sym)
  then show "circular_db_contract (database F B) (circ w) (streams_ok mem B circ) (\<lambda>d. circ_lookup B (circ w) (mem (bd_flash d)))"
    using database_pair_contract [OF torn_erase_flash_axioms streams_apart, of B]
      database_pair_contract [OF torn_erase_flash_axioms streams_apart [unfolded apart_sym [of "circ Event_Stream"]], of B]
    by (cases w) simp_all
next
  fix w w' :: stream_id
  have "pair_ok mem B (circ Event_Stream) (circ Sensor_Data_Stream) = pair_ok mem B (circ Sensor_Data_Stream) (circ Event_Stream)"
    by (rule pair_ok_sym)
  moreover assume "w \<noteq> w'"
  ultimately show "circular_db_frame (database F B) (circ w) (streams_ok mem B circ) (\<lambda>d. circ_lookup B (circ w') (mem (bd_flash d)))"
    using database_frame [OF torn_erase_flash_axioms streams_apart, of B]
      database_frame [OF torn_erase_flash_axioms streams_apart [unfolded apart_sym [of "circ Event_Stream"]], of B]
    by (cases w; cases w') simp_all
qed (rule no_overwrite)

context dispatch_flash begin

lemma pair_axioms: "dispatch_pair (database F B) circ (streams_ok mem B circ)
    (\<lambda>w d. circ_lookup B (circ w) (mem (bd_flash d)))"
  by (rule pair.dispatch_pair_axioms)

end

end
