(* ===== verification/Stream_Theorems.thy ===== *)
theory Stream_Theorems
  imports Stream_Correct Circular_Theorems
begin

text \<open>
  The properties of the stream store on the repository's database.
\<close>

section \<open>A concrete stream\<close>

text \<open>
  Four blocks of 64 bytes; a stream over the first three, with three fragments of ten bytes per
  block. The checksum of the example is the sum of the bytes.
\<close>

definition ex_sum :: "bytes \<Rightarrow> u32" where
  "ex_sum bs = foldl (\<lambda>a b. a + ucast b) 0 bs"

definition ex_stream_circ :: circular where
  "ex_stream_circ = \<lparr>obj_id = 7, obj_fragment_size = 10, obj_start = 0, obj_end = 3, obj_capacity = None,
     overwrite_on_full = False, auto_format = True\<rparr>"

definition ex_stream0 :: "in_memory_flash block_device stream_store" where
  "ex_stream0 = stream_new 64 \<lparr>bd_flash = in_memory_new 256, bd_blocks_total = 4\<rparr> ex_stream_circ"

definition ex_stream1 :: "in_memory_flash block_device stream_store" where
  "ex_stream1 = snd (stream_enqueue (database (in_memory 64) 64) ex_sum 64 [5, 6, 7] ex_stream0)"

definition ex_stream2 :: "in_memory_flash block_device stream_store" where
  "ex_stream2 = snd (stream_peek_next (database (in_memory 64) 64) ex_sum 20 ex_stream1)"

lemma ex_stream_ops:
  "stream_enqueue (database (in_memory 64) 64) ex_sum 64 [5, 6, 7] ex_stream0 = (Ok 0, ex_stream1)"
  "stream_peek_next (database (in_memory 64) 64) ex_sum 20 ex_stream1
     = (Ok (Some ([5, 6, 7], confirm_handle_new 0)), ex_stream2)"
  by code_simp+

lemma ex_stream_sizes:
  "length (memory (bd_flash (ss_store ex_stream0))) = 256" "bd_blocks_total (ss_store ex_stream0) = 4"
  "length (memory (bd_flash (ss_store ex_stream1))) = 256" "bd_blocks_total (ss_store ex_stream1) = 4"
  "ss_circular ex_stream0 = ex_stream_circ" "ss_circular ex_stream1 = ex_stream_circ"
  by code_simp+

lemma ex_stream_circ_ok: "circ_ok 64 4 ex_stream_circ"
  by (simp add: circ_ok_def ex_stream_circ_def fragments_per_block_def calculate_fragments_per_block_def
      usize_sub_def block_count_def MAX_FRAGMENTS_PER_OBJECT_def)

lemma ex_stream_db_ok: "db_ok memory 64 ex_stream_circ (ss_store ex_stream0)"
    "db_ok memory 64 ex_stream_circ (ss_store ex_stream1)"
  by (simp_all add: device_ok_def ex_stream_sizes ex_stream_circ_ok)

section \<open>Properties\<close>

text \<open>
  Durability: when \<open>enqueue\<close> succeeds, on any flash that meets its contract, the store holds the
  item with its length and checksum under the returned sequence number, which was the queue's
  write position; and without circular overwrite no call of \<open>enqueue\<close>, successful or not, harms
  an item that was stored before.
\<close>

theorem stream_enqueue_durable:
  assumes "torn_erase_flash F mem" and "db_ok mem B c (ss_store s)" and "ss_circular s = c"
    and "stream_enqueue (database F B) crc B data s = (r, s')"
  shows "(\<forall>n. r = Ok n \<longrightarrow> holds_item crc data (circ_lookup B c (mem (bd_flash (ss_store s'))) n)
        \<and> ss_init_done s' \<and> n + 1 = q_write_index (ss_queue s'))
    \<and> (\<not> overwrite_on_full c \<longrightarrow> (\<forall>k x. circ_lookup B c (mem (bd_flash (ss_store s))) k = Some x \<longrightarrow>
        circ_lookup B c (mem (bd_flash (ss_store s'))) k = Some x))"
proof -
  note db = database_contract [OF assms(1), of B c]
  have ok: "db_ok mem B c (ss_store s) \<and> ss_circular s = c" using assms(2,3) by simp
  note e = circular_db_contract.stream_enqueue_effect [OF db ok assms(4)]
  have "ss_init_done s' \<and> n + 1 = q_write_index (ss_queue s')" if "r = Ok n" for n
    using assms(4) that
    by (auto simp: stream_enqueue_def stream_initialize_def Let_def attempt_def on_store_def and_then_def
        queue_enqueue_def writable_seq_no_def bump_min_index_def
        split: sum.splits prod.splits if_splits)
  then show ?thesis using e(2,3) by blast
qed

theorem stream_enqueue_durable_witness:
  "holds_item ex_sum [5, 6, 7] (circ_lookup 64 ex_stream_circ (memory (bd_flash (ss_store ex_stream1))) 0)"
  using stream_enqueue_durable [OF mock.torn_erase_flash_axioms ex_stream_db_ok(1) ex_stream_sizes(5) ex_stream_ops(1)]
  by blast

text \<open>
  C14. Integrity: an item that \<open>peek_next\<close> hands out is the one that the store holds for the handle's
  sequence number: if an item was stored there by \<open>enqueue\<close>, it is returned unchanged; and no
  fragment is handed out whose stored length or checksum does not match its data.
\<close>

theorem stream_peek_returns_item:
  assumes "torn_erase_flash F mem" and "db_ok mem B c (ss_store s)" and "ss_circular s = c"
    and "stream_peek_next (database F B) crc buffer_len s = (Ok (Some (item, h)), s')"
  shows "\<exists>x. circ_lookup B c (mem (bd_flash (ss_store s))) (ch_id h) = Some x \<and> decode_item crc x = Some item
    \<and> (\<forall>data. holds_item crc data (Some x) \<and> length data < 2 ^ 16 \<longrightarrow> item = data)"
proof -
  note db = database_contract [OF assms(1), of B c]
  have ok: "db_ok mem B c (ss_store s) \<and> ss_circular s = c" using assms(2,3) by simp
  from ok assms(4) obtain x where
    x: "circ_lookup B c (mem (bd_flash (ss_store s'))) (ch_id h) = Some x" "decode_item crc x = Some item"
    and same: "circ_lookup B c (mem (bd_flash (ss_store s'))) (ch_id h)
      = circ_lookup B c (mem (bd_flash (ss_store s))) (ch_id h)"
    by (rule circular_db_contract.stream_peek_effect [OF db]) (auto, metis option.distinct(1))
  then show ?thesis using decode_item by (metis option.inject)
qed

theorem stream_peek_returns_item_witness:
  "\<exists>x. circ_lookup 64 ex_stream_circ (memory (bd_flash (ss_store ex_stream1))) 0 = Some x
     \<and> decode_item ex_sum x = Some [5, 6, 7]"
  using stream_peek_returns_item [OF mock.torn_erase_flash_axioms ex_stream_db_ok(2) ex_stream_sizes(6) ex_stream_ops(2)]
  by (auto simp: confirm_handle_new_def)

end
