(* ===== verification/Dispatch_Theorems.thy ===== *)
theory Dispatch_Theorems
  imports Dispatch_Machine Stream_Theorems
begin

text \<open>
  The properties of the dispatch store on the repository's database, with a concrete run: an event
  and a sensor message are stored, and the event is peeked.
\<close>

section \<open>A concrete run\<close>

text \<open>Four blocks of 48 bytes: two for the events, two for the sensor data.\<close>

fun ex_streams :: "stream_id \<Rightarrow> circular" where
  "ex_streams Event_Stream = \<lparr>obj_id = 7, obj_fragment_size = 20, obj_start = 0, obj_end = 2, obj_capacity = None,
     overwrite_on_full = False, auto_format = True\<rparr>"
| "ex_streams Sensor_Data_Stream = \<lparr>obj_id = 8, obj_fragment_size = 20, obj_start = 2, obj_end = 4, obj_capacity = None,
     overwrite_on_full = False, auto_format = True\<rparr>"

abbreviation ex_db :: "in_memory_flash block_device circular_db" where
  "ex_db \<equiv> database (in_memory 48) 48"

definition ex_device :: "in_memory_flash block_device" where
  "ex_device = \<lparr>bd_flash = in_memory_new 192, bd_blocks_total = 4\<rparr>"

definition ex_event :: sendable where
  "ex_event = \<lparr>sd_bytes = [0xA0, 0xA5, 0xA5, 0xA5, 0xA5, 0xA5, 0xA5, 0xA5, 1, 2, 3, 0], sd_payload_len = 3\<rparr>"

definition ex_data :: sendable where
  "ex_data = \<lparr>sd_bytes = [0xA2, 0xA5, 0xA5, 0xA5, 0xA5, 0xA5, 0xA5, 0xA5, 9, 0], sd_payload_len = 1\<rparr>"

definition ex_pair0 :: "in_memory_flash block_device stream_pair_store" where
  "ex_pair0 = snd (pair_initialize ex_db (pair_new 48 ex_device (ex_streams Sensor_Data_Stream) (ex_streams Event_Stream)))"

definition ex_pair1 :: "in_memory_flash block_device stream_pair_store" where
  "ex_pair1 = snd (store_event ex_db ex_sum 48 ex_event ex_pair0)"

definition ex_pair2 :: "in_memory_flash block_device stream_pair_store" where
  "ex_pair2 = snd (store_sensor_data ex_db ex_sum 48 ex_data ex_pair1)"

definition ex_pair3 :: "in_memory_flash block_device stream_pair_store" where
  "ex_pair3 = snd (peek_event ex_db ex_sum ex_pair2)"

definition ex_delivered :: sendable where
  "ex_delivered = \<lparr>sd_bytes = as_slice ex_event @ replicate 339 0, sd_payload_len = 3\<rparr>"

lemma ex_pair_init:
  "pair_initialize ex_db (pair_new 48 ex_device (ex_streams Sensor_Data_Stream) (ex_streams Event_Stream)) = (Ok (), ex_pair0)"
  by code_simp

lemma ex_pair_store:
  "store_event ex_db ex_sum 48 ex_event ex_pair0 = (Ok 0, ex_pair1)"
  by code_simp

lemma ex_pair_store2:
  "store_sensor_data ex_db ex_sum 48 ex_data ex_pair1 = (Ok 0, ex_pair2)"
  by code_simp

lemma ex_pair_peek:
  "peek_event ex_db ex_sum ex_pair2 = (Ok (Some (ex_delivered, confirm_handle_new 0)), ex_pair3)"
  by code_simp

definition ex_run0 :: "in_memory_flash block_device pair_system" where
  "ex_run0 = pair_start ex_pair0"

definition ex_run1 :: "in_memory_flash block_device pair_system" where
  "ex_run1 = ex_run0\<lparr>py_store := ex_pair1, py_ghost := (py_ghost ex_run0)(Event_Stream :=
     (py_ghost ex_run0 Event_Stream)\<lparr>gh_stored := after_store (as_slice ex_event) (Ok 0) (gh_stored (py_ghost ex_run0 Event_Stream))\<rparr>)\<rparr>"

definition ex_run2 :: "in_memory_flash block_device pair_system" where
  "ex_run2 = ex_run1\<lparr>py_store := ex_pair2, py_ghost := (py_ghost ex_run1)(Sensor_Data_Stream :=
     (py_ghost ex_run1 Sensor_Data_Stream)\<lparr>gh_stored := after_store (as_slice ex_data) (Ok 0) (gh_stored (py_ghost ex_run1 Sensor_Data_Stream))\<rparr>)\<rparr>"

text \<open>A run of the store with its users, from a database \<open>d\<close> on.\<close>

definition dispatch_run ::
  "('f, 'e) nor_flash \<Rightarrow> nat \<Rightarrow> (stream_id \<Rightarrow> circular) \<Rightarrow> (bytes \<Rightarrow> u32) \<Rightarrow> 'f block_device
   \<Rightarrow> 'f block_device pair_system \<Rightarrow> bool" where
  "dispatch_run F B circ crc d s \<longleftrightarrow>
     (\<exists>p0. pair_initialize (database F B) (pair_new B d (circ Sensor_Data_Stream) (circ Event_Stream)) = (Ok (), p0)
       \<and> (\<forall>w. start_ok MAX_PEEKS (fragment_count B (circ w)) (fragments_per_block B (circ w))
            (fst (existing_range (ss_queue (ps_stream w p0)))) (q_write_index (ss_queue (ps_stream w p0))))
       \<and> pair_reachable (database F B) crc B (pair_start p0) s)"

lemma ex_queues:
  "existing_range (ss_queue (ps_events ex_pair0)) = (0, 0)" "existing_range (ss_queue (ps_sensor_data ex_pair0)) = (0, 0)"
  "existing_range (ss_queue (ps_sensor_data ex_pair1)) = (0, 0)"
  "q_granularity (ss_queue (ps_events ex_pair0)) = 1" "q_granularity (ss_queue (ps_sensor_data ex_pair1)) = 1"
  by code_simp+

lemma ex_pair_sizes: "fragment_count 48 (ex_streams w) = 1" "fragments_per_block 48 (ex_streams w) = 1"
  by (cases w; simp add: fragment_count_def fragments_per_block_def calculate_fragments_per_block_def usize_sub_def
      block_count_def MAX_FRAGMENTS_PER_OBJECT_def)+

lemma ex_reachable: "pair_reachable ex_db ex_sum 48 ex_run0 ex_run2"
proof -
  have nw: "no_wrap MAX_PEEKS (ss_queue (ps_stream Event_Stream (py_store ex_run0)))"
    "no_wrap MAX_PEEKS (ss_queue (ps_stream Sensor_Data_Stream (py_store ex_run1)))"
    using ex_queues by (simp_all add: no_wrap_def ex_run0_def ex_run1_def pair_start_def existing_range_def)
  have "pair_step ex_db ex_sum 48 ex_run0 ex_run1"
    unfolding ex_run1_def
    by (rule pair_step.store [OF nw(1), of _ _ _ ex_event])
      (use ex_pair_store in \<open>simp_all add: ex_run0_def pair_start_def\<close>)
  moreover have "pair_step ex_db ex_sum 48 ex_run1 ex_run2"
    unfolding ex_run2_def
    by (rule pair_step.store [OF nw(2), of _ _ _ ex_data]) (use ex_pair_store2 in \<open>simp_all add: ex_run1_def\<close>)
  ultimately show ?thesis by (blast intro: pair_reachable.intros)
qed

lemma ex_start_ok_pair: "start_ok MAX_PEEKS (fragment_count 48 (ex_streams w)) (fragments_per_block 48 (ex_streams w))
    (fst (existing_range (ss_queue (ps_stream w ex_pair0)))) (q_write_index (ss_queue (ps_stream w ex_pair0)))"
  using ex_queues by (cases w) (simp_all add: start_ok_def ex_pair_sizes existing_range_def del: ex_streams.simps)

lemma ex_dispatch_run: "dispatch_run (in_memory 48) 48 ex_streams ex_sum ex_device ex_run2"
  unfolding dispatch_run_def
proof (intro exI conjI allI)
  show "pair_reachable ex_db ex_sum 48 (pair_start ex_pair0) ex_run2" using ex_reachable by (simp add: ex_run0_def)
  fix w show "start_ok MAX_PEEKS (fragment_count 48 (ex_streams w)) (fragments_per_block 48 (ex_streams w))
      (fst (existing_range (ss_queue (ps_stream w ex_pair0)))) (q_write_index (ss_queue (ps_stream w ex_pair0)))"
    by (rule ex_start_ok_pair)
qed (rule ex_pair_init)

interpretation ex_flash: dispatch_flash "in_memory 48" memory ex_streams 48
proof
  show "apart (ex_streams Event_Stream) (ex_streams Sensor_Data_Stream)" by (simp add: apart_def)
  show "\<not> overwrite_on_full (ex_streams w)" for w by (cases w) simp_all
qed

lemma ex_streams_ok: "streams_ok memory 48 ex_streams ex_device"
proof -
  have "circ_ok 48 4 (ex_streams w)" for w
    by (cases w) (simp_all add: circ_ok_def fragments_per_block_def calculate_fragments_per_block_def
        usize_sub_def block_count_def MAX_FRAGMENTS_PER_OBJECT_def)
  then show ?thesis by (simp add: ex_device_def device_ok_def in_memory_new_def del: ex_streams.simps)
qed

section \<open>Every run keeps the invariant\<close>

lemma run_inv:
  assumes "dispatch_flash F mem circ" and "streams_ok mem B circ d" and "dispatch_run F B circ crc d s"
  shows "stream_inv crc (circ w) (streams_ok mem B circ) (\<lambda>d. circ_lookup B (circ w) (mem (bd_flash d))) (view_of w s)"
proof -
  note pr = dispatch_flash.pair_axioms [OF assms(1), of B]
  from assms(3) obtain p0 where
    i: "pair_initialize (database F B) (pair_new B d (circ Sensor_Data_Stream) (circ Event_Stream)) = (Ok (), p0)"
    and st: "\<And>w. start_ok MAX_PEEKS (fragment_count B (circ w)) (fragments_per_block B (circ w))
      (fst (existing_range (ss_queue (ps_stream w p0)))) (q_write_index (ss_queue (ps_stream w p0)))"
    and r: "pair_reachable (database F B) crc B (pair_start p0) s"
    unfolding dispatch_run_def by blast
  note inv = dispatch_pair.pair_reachable_inv [OF pr r dispatch_pair.pair_start_inv [OF pr assms(2) i st]]
  show ?thesis using dispatch_pair.pair_invD [OF pr inv] .
qed

lemma peek_call_Some:
  assumes "peek_call w DB crc len p = (Ok (Some (msg, h)), p')"
  obtains M item t where
    "stream_peek_next DB crc M ((ps_stream w p)\<lparr>ss_store := ps_db p\<rparr>) = (Ok (Some (item, h)), t)"
    "create_with_total_length M (item @ drop (length item) (builder_new M)) (length item) = Ok msg"
  using assms
  by (cases w) (auto simp: peek_event_def peek_sensor_data_def on_events_def on_sensor_data_def and_then_def
      peeked_sendable_def confirm_and_throw_def split: prod.splits sum.splits option.splits)

section \<open>Properties\<close>

text \<open>
  C8. Durability of the dispatch store: after any sequence of stores, peeks, confirmations, drops and
  waits on both streams, on any flash that meets its contract (also one that fails), every event and
  every sensor message whose store succeeded is still on flash, with its length and checksum, unless
  its reader has confirmed it, or a peek of that item failed and the store gave it up. Nothing that
  happens on one stream affects the other. The streams are on disjoint blocks and do not overwrite
  old data, and the 32-bit sequence numbers do not wrap.
\<close>

theorem dispatch_durable:
  assumes "dispatch_flash F mem circ" and "streams_ok mem B circ d" and "dispatch_run F B circ crc d s"
    and "gh_stored (py_ghost s w) n = Some data"
  shows "n \<in> gh_confirmed (py_ghost s w) \<or> n \<in> gh_skipped (py_ghost s w)
    \<or> holds_item crc data (circ_lookup B (circ w) (mem (bd_flash (ps_db (py_store s)))) (of_nat n))"
  using stream_invD(6) [OF run_inv [OF assms(1-3), of w], of n data] assms(4) by (auto simp: view_of_def)

theorem dispatch_durable_witness:
  "holds_item ex_sum (as_slice ex_event) (circ_lookup 48 (ex_streams Event_Stream) (memory (bd_flash (ps_db ex_pair2))) 0)"
  using dispatch_durable [OF ex_flash.dispatch_flash_axioms ex_streams_ok ex_dispatch_run, of Event_Stream 0 "as_slice ex_event"]
  by (simp add: ex_run2_def ex_run1_def ex_run0_def pair_start_def after_store_def del: ex_streams.simps)

text \<open>
  Integrity of the dispatch store: in every state that such a run can reach, a message that
  \<open>peek_event\<close> or \<open>peek_sensor_data\<close> hands out under the sequence number of a stored message is that
  message: it has the same serialized bytes, the same payload and the same topic.
\<close>

theorem dispatch_delivers_stored:
  assumes "dispatch_flash F mem circ" and "streams_ok mem B circ d" and "dispatch_run F B circ crc d s"
    and "peek_call w (database F B) crc len (py_store s) = (Ok (Some (msg, h)), p)"
    and "gh_stored (py_ghost s w) (unat (ch_id h)) = Some (as_slice m)"
    and "TOPIC_HEADER_SIZE + sd_payload_len m \<le> length (sd_bytes m)"
  shows "as_slice msg = as_slice m \<and> payload_bytes msg = payload_bytes m \<and> sendable_topic TC msg = sendable_topic TC m"
proof -
  note inv = run_inv [OF assms(1-3), of w]
  from peek_call_Some [OF assms(4)] obtain M item t where
    pk: "stream_peek_next (database F B) crc M (sy_stream (view_of w s)) = (Ok (Some (item, h)), t)"
    and cr: "create_with_total_length M (item @ drop (length item) (builder_new M)) (length item) = Ok msg"
    by (auto simp: view_of_def)
  have con: "circular_db_contract (database F B) (circ w) (streams_ok mem B circ)
      (\<lambda>d. circ_lookup B (circ w) (mem (bd_flash d)))"
    by (rule dispatch_pair.contract [OF dispatch_flash.pair_axioms [OF assms(1)]])
  have "obj_fragment_size (circ w) < 2 ^ 16" using assms(2) by (cases w) (simp_all add: circ_ok_def)
  then have item: "item = as_slice m"
    using circular_db_contract.peek_item_stored [OF con inv _ pk] assms(5) by (simp add: view_of_def)
  note a = create_with_total_length_as_slice [OF cr] and b = as_slice_parts [OF assms(6)]
  have "8 + sd_payload_len msg \<le> length (sd_bytes msg)" using a(2,3) by simp
  from as_slice_parts(1,2) [of msg] this a(1) b item show ?thesis by (simp add: sendable_topic_def)
qed

theorem dispatch_delivers_stored_witness:
  "as_slice ex_delivered = as_slice ex_event \<and> payload_bytes ex_delivered = payload_bytes ex_event
   \<and> sendable_topic ex_codec ex_delivered = sendable_topic ex_codec ex_event"
proof -
  have "peek_call Event_Stream ex_db ex_sum 0 (py_store ex_run2) = (Ok (Some (ex_delivered, confirm_handle_new 0)), ex_pair3)"
    using ex_pair_peek by (simp add: ex_run2_def)
  from dispatch_delivers_stored [OF ex_flash.dispatch_flash_axioms ex_streams_ok ex_dispatch_run this, of ex_event ex_codec]
  show ?thesis
    by (simp add: ex_run2_def ex_run1_def ex_run0_def pair_start_def after_store_def confirm_handle_new_def ex_event_def
        del: ex_streams.simps)
qed

end
