(* ===== verification/Samples.thy ===== *)
theory Samples
  imports Prelude
begin

text \<open>
  The sample packets of the protocol crate, \<open>sensor-link-protocol/src/samples/q15.rs\<close> and
  \<open>q15xl.rs\<close>: channels of 16-bit fixed-point samples with a shared exponent, their binary encoding
  with an 8-bit (\<open>Q15\<close>) or a 16-bit (\<open>Q15XL\<close>) sample count, and the packets with timestamp and
  sample frequency around them.

  The const generics \<open>N_CH\<close> and \<open>MAX_N_SAMPLES\<close> are arguments. An \<open>f32\<close> is its 32-bit pattern:
  the encodings move it as four bytes and only ask whether it is positive. An \<open>i8\<close>, \<open>i16\<close> or
  \<open>i64\<close> is the word of its width, read with \<open>sint\<close>. A buffer that is written into is an argument
  and a result; the returned slice is the first component.
\<close>

section \<open>Constants\<close>

definition Q15_BYTES_PER_SAMPLE :: nat where
  [simp]: "Q15_BYTES_PER_SAMPLE = 2"

definition Q15_OVERHEAD_PER_PACKET :: nat where
  [simp]: "Q15_OVERHEAD_PER_PACKET = 1"

definition Q15XL_OVERHEAD_PER_PACKET :: nat where
  [simp]: "Q15XL_OVERHEAD_PER_PACKET = 2"

definition Q15_OVERHEAD_PER_CHANNEL :: nat where
  [simp]: "Q15_OVERHEAD_PER_CHANNEL = 1"

definition UNIFORM_HEADER_OVERHEAD :: nat where
  [simp]: "UNIFORM_HEADER_OVERHEAD = 8 + 4"

definition MAX_MESSAGE_LEN :: nat where
  [simp]: "MAX_MESSAGE_LEN = 1500"

section \<open>Channels\<close>

type_synonym i8 = "8 word"
type_synonym i16 = "16 word"
type_synonym i64 = "64 word"
type_synonym f32_bits = "32 word"

record q15_channel =
  exponent :: i8
  channel_values :: "i16 list"

definition q15_channel_empty :: "nat \<Rightarrow> q15_channel" where
  "q15_channel_empty max_n = \<lparr>exponent = 0, channel_values = replicate max_n 0\<rparr>"

definition i16_to_bytes :: "i16 \<Rightarrow> bytes" where
  "i16_to_bytes v = u16_to_le v"

definition i16_from_bytes :: "bytes \<Rightarrow> i16" where
  "i16_from_bytes bs = u16_from_le bs"

text \<open>The bytes of one channel: its exponent, and two bytes per sample.\<close>

definition channel_to_bytes :: "nat \<Rightarrow> q15_channel \<Rightarrow> bytes" where
  "channel_to_bytes n_samples ch =
     [exponent ch] @ concat (map (\<lambda>spl. i16_to_bytes (channel_values ch ! spl)) [0..<n_samples])"

text \<open>Reading a channel back into an empty one: the samples beyond \<open>n_samples\<close> stay zero.\<close>

definition channel_from_bytes :: "nat \<Rightarrow> nat \<Rightarrow> bytes \<Rightarrow> q15_channel" where
  "channel_from_bytes max_n n_samples bs =
     (let ch_src = drop Q15_OVERHEAD_PER_CHANNEL bs
      in \<lparr>exponent = bs ! 0,
          channel_values =
            map (\<lambda>spl. if spl < n_samples
                       then i16_from_bytes [ch_src ! (2 * spl), ch_src ! (2 * spl + 1)]
                       else channel_values (q15_channel_empty max_n) ! spl) [0..<max_n]\<rparr>)"

section \<open>Errors\<close>

text \<open>\<open>SE_Panic\<close> is the panic of the size assertion, which ends the call.\<close>

datatype serialize_error = BufferFull nat | SE_Panic

datatype deserialize_error = BufferUnexpectedEnd nat | TooManySamples nat nat

datatype parse_error = PE_Deserialize deserialize_error | PE_BufferTooSmall | PE_Invalid

section \<open>Sizes\<close>

definition serialized_size_per_channel :: "nat \<Rightarrow> nat" where
  "serialized_size_per_channel n_samples =
     (if n_samples = 0 then 0 else Q15_OVERHEAD_PER_CHANNEL + Q15_BYTES_PER_SAMPLE * n_samples)"

definition q15_serialized_size :: "nat \<Rightarrow> nat \<Rightarrow> nat" where
  "q15_serialized_size n_ch n_samples =
     (if n_ch = 0 then 0 else if n_samples = 0 then 0
      else Q15_OVERHEAD_PER_PACKET + n_ch * serialized_size_per_channel n_samples)"

definition q15xl_serialized_size :: "nat \<Rightarrow> nat \<Rightarrow> nat" where
  "q15xl_serialized_size n_ch n_samples =
     (if n_ch = 0 then 0 else if n_samples = 0 then 0
      else Q15XL_OVERHEAD_PER_PACKET + n_ch * serialized_size_per_channel n_samples)"

section \<open>Q15: 8-bit sample count\<close>

record q15 =
  num_samples :: u8
  q15_ch :: "q15_channel list"

definition q15_len :: "q15 \<Rightarrow> nat" where
  "q15_len q = unat (num_samples q)"

definition q15_is_empty :: "q15 \<Rightarrow> bool" where
  "q15_is_empty q \<longleftrightarrow> num_samples q = 0"

text \<open>
  The slice that \<open>to_bytes\<close> returns starts after the sample count: the name \<open>output\<close> is rebound
  to the rest of the buffer before it is returned.
\<close>

definition q15_to_bytes :: "nat \<Rightarrow> q15 \<Rightarrow> bytes \<Rightarrow> (bytes, serialize_error) result \<times> bytes" where
  "q15_to_bytes n_ch q buf =
     (let output_len = q15_serialized_size n_ch (q15_len q)
      in if length buf < output_len then (Err (BufferFull output_len), buf)
         else if num_samples q = 0 \<or> n_ch = 0 then (Ok [], buf)
         else
           (let n_samples = unat (num_samples q);
                output = concat (map (\<lambda>ch. channel_to_bytes n_samples (q15_ch q ! ch)) [0..<n_ch])
            in (Ok output, [num_samples q] @ output @ drop output_len buf)))"

definition q15_from_bytes :: "nat \<Rightarrow> nat \<Rightarrow> bytes \<Rightarrow> (q15, deserialize_error) result" where
  "q15_from_bytes n_ch max_n bs =
     (let num_samples_u8 = (case bs of [] \<Rightarrow> 0 | b # _ \<Rightarrow> b);
          n = unat num_samples_u8
      in if n > max_n then Err (TooManySamples n max_n)
         else if n > 0
         then (let expected_bytes = q15_serialized_size n_ch n
               in if length bs < expected_bytes then Err (BufferUnexpectedEnd expected_bytes)
                  else (let rest = drop 1 bs;
                            bytes_per_ch = serialized_size_per_channel n
                        in Ok \<lparr>num_samples = num_samples_u8,
                               q15_ch = map (\<lambda>ch. channel_from_bytes max_n n
                                   (seg (ch * bytes_per_ch) bytes_per_ch rest)) [0..<n_ch]\<rparr>))
         else Ok \<lparr>num_samples = 0, q15_ch = replicate n_ch (q15_channel_empty max_n)\<rparr>)"

section \<open>Q15XL: 16-bit sample count\<close>

record q15xl =
  xl_num_samples :: u16
  xl_ch :: "q15_channel list"

definition q15xl_len :: "q15xl \<Rightarrow> nat" where
  "q15xl_len q = unat (xl_num_samples q)"

definition q15xl_is_empty :: "q15xl \<Rightarrow> bool" where
  "q15xl_is_empty q \<longleftrightarrow> xl_num_samples q = 0"

definition q15xl_to_bytes :: "nat \<Rightarrow> q15xl \<Rightarrow> bytes \<Rightarrow> (bytes, serialize_error) result \<times> bytes" where
  "q15xl_to_bytes n_ch q buf =
     (let output_len = q15xl_serialized_size n_ch (q15xl_len q)
      in if length buf < output_len then (Err (BufferFull output_len), buf)
         else if xl_num_samples q = 0 \<or> n_ch = 0 then (Ok [], buf)
         else
           (let n_samples = unat (xl_num_samples q);
                output = concat (map (\<lambda>ch. channel_to_bytes n_samples (xl_ch q ! ch)) [0..<n_ch])
            in (Ok output, u16_to_le (xl_num_samples q) @ output @ drop output_len buf)))"

definition q15xl_from_bytes :: "nat \<Rightarrow> nat \<Rightarrow> bytes \<Rightarrow> (q15xl, deserialize_error) result" where
  "q15xl_from_bytes n_ch max_n bs =
     (let num_samples_u16 = (case bs of lo # hi # _ \<Rightarrow> u16_from_le [lo, hi] | _ \<Rightarrow> 0);
          n = unat num_samples_u16
      in if n > max_n then Err (TooManySamples n max_n)
         else if n > 0
         then (let expected_bytes = q15xl_serialized_size n_ch n
               in if length bs < expected_bytes then Err (BufferUnexpectedEnd expected_bytes)
                  else (let rest = drop 2 bs;
                            bytes_per_ch = serialized_size_per_channel n
                        in Ok \<lparr>xl_num_samples = num_samples_u16,
                               xl_ch = map (\<lambda>ch. channel_from_bytes max_n n
                                   (seg (ch * bytes_per_ch) bytes_per_ch rest)) [0..<n_ch]\<rparr>))
         else Ok \<lparr>xl_num_samples = 0, xl_ch = replicate n_ch (q15_channel_empty max_n)\<rparr>)"

section \<open>Packets\<close>

record 'd uniform =
  uniform_t :: i64
  uniform_fs :: f32_bits
  uniform_data :: 'd

text \<open>\<open>x.is_nan()\<close> and \<open>x <= 0.0\<close> on the bit pattern.\<close>

definition f32_is_nan :: "f32_bits \<Rightarrow> bool" where
  "f32_is_nan x \<longleftrightarrow> x AND 0x7FFFFFFF > 0x7F800000"

definition f32_le_zero :: "f32_bits \<Rightarrow> bool" where
  "f32_le_zero x \<longleftrightarrow> \<not> f32_is_nan x \<and> (x AND 0x7FFFFFFF = 0 \<or> x AND 0x80000000 \<noteq> 0)"

definition uniform_verify :: "'d uniform \<Rightarrow> bool" where
  "uniform_verify u =
     (if sint (uniform_t u) \<le> 0 then False
      else if f32_le_zero (uniform_fs u) \<or> f32_is_nan (uniform_fs u) then False
      else True)"

definition u64_to_le :: "u64 \<Rightarrow> bytes" where
  "u64_to_le w = map (\<lambda>i. ucast (drop_bit (8 * i) w)) [0..<8]"

definition u64_from_le :: "bytes \<Rightarrow> u64" where
  "u64_from_le bs = fold (\<lambda>i acc. acc OR push_bit (8 * i) (ucast (bs ! i))) [0..<8] 0"

text \<open>The capacity computation, and the size with its assertion (\<open>None\<close> is the panic).\<close>

definition q15_max_num_input_samples :: "nat \<Rightarrow> nat \<Rightarrow> nat" where
  "q15_max_num_input_samples n_ch buffer_size =
     (let required_overhead = UNIFORM_HEADER_OVERHEAD + Q15_OVERHEAD_PER_PACKET
      in if buffer_size < required_overhead \<or> n_ch = 0 then 0
         else
           (let available_bytes = buffer_size - required_overhead;
                required_per_channel = Q15_OVERHEAD_PER_CHANNEL + Q15_BYTES_PER_SAMPLE
            in if available_bytes < n_ch * required_per_channel then 0
               else (available_bytes div n_ch - Q15_OVERHEAD_PER_CHANNEL) div Q15_BYTES_PER_SAMPLE))"

definition q15xl_max_num_input_samples :: "nat \<Rightarrow> nat \<Rightarrow> nat" where
  "q15xl_max_num_input_samples n_ch buffer_size =
     (let required_overhead = UNIFORM_HEADER_OVERHEAD + Q15XL_OVERHEAD_PER_PACKET
      in if buffer_size < required_overhead \<or> n_ch = 0 then 0
         else
           (let available_bytes = buffer_size - required_overhead;
                required_per_channel = Q15_OVERHEAD_PER_CHANNEL + Q15_BYTES_PER_SAMPLE
            in if available_bytes < n_ch * required_per_channel then 0
               else (available_bytes div n_ch - Q15_OVERHEAD_PER_CHANNEL) div Q15_BYTES_PER_SAMPLE))"

definition uniform_q15_serialized_size :: "nat \<Rightarrow> nat \<Rightarrow> nat option" where
  "uniform_q15_serialized_size n_ch n_samples =
     (let size = UNIFORM_HEADER_OVERHEAD + q15_serialized_size n_ch n_samples
      in if size \<le> MAX_MESSAGE_LEN then Some size else None)"

definition uniform_q15xl_serialized_size :: "nat \<Rightarrow> nat \<Rightarrow> nat option" where
  "uniform_q15xl_serialized_size n_ch n_samples =
     (let size = UNIFORM_HEADER_OVERHEAD + q15xl_serialized_size n_ch n_samples
      in if size \<le> MAX_MESSAGE_LEN then Some size else None)"

definition q15_as_topic_data :: "nat \<Rightarrow> q15 uniform \<Rightarrow> bytes \<Rightarrow> (bytes, serialize_error) result" where
  "q15_as_topic_data n_ch u buf =
     (case uniform_q15_serialized_size n_ch (q15_len (uniform_data u)) of
        None \<Rightarrow> Err SE_Panic
      | Some output_len \<Rightarrow>
          if length buf < output_len then Err (BufferFull output_len)
          else
            (let output = take output_len buf
             in case q15_to_bytes n_ch (uniform_data u) (drop 12 output) of
                  (Err e, _) \<Rightarrow> Err e
                | (Ok _, written) \<Rightarrow>
                    Ok (u64_to_le (uniform_t u) @ u32_to_le (uniform_fs u) @ written)))"

definition q15xl_as_topic_data :: "nat \<Rightarrow> q15xl uniform \<Rightarrow> bytes \<Rightarrow> (bytes, serialize_error) result" where
  "q15xl_as_topic_data n_ch u buf =
     (case uniform_q15xl_serialized_size n_ch (q15xl_len (uniform_data u)) of
        None \<Rightarrow> Err SE_Panic
      | Some output_len \<Rightarrow>
          if length buf < output_len then Err (BufferFull output_len)
          else
            (let output = take output_len buf
             in case q15xl_to_bytes n_ch (uniform_data u) (drop 12 output) of
                  (Err e, _) \<Rightarrow> Err e
                | (Ok _, written) \<Rightarrow>
                    Ok (u64_to_le (uniform_t u) @ u32_to_le (uniform_fs u) @ written)))"

definition q15_from_topic_data :: "nat \<Rightarrow> nat \<Rightarrow> bytes \<Rightarrow> (q15 uniform, parse_error) result" where
  "q15_from_topic_data n_ch max_n bs =
     (if length bs < UNIFORM_HEADER_OVERHEAD + q15_serialized_size n_ch 0 then Err PE_BufferTooSmall
      else
        (case q15_from_bytes n_ch max_n (drop 12 bs) of
           Err e \<Rightarrow> Err (PE_Deserialize e)
         | Ok data \<Rightarrow>
             (let result = \<lparr>uniform_t = u64_from_le (seg 0 8 bs), uniform_fs = u32_from_le (seg 8 4 bs),
                            uniform_data = data\<rparr>
              in if uniform_verify result then Ok result else Err PE_Invalid)))"

definition q15xl_from_topic_data :: "nat \<Rightarrow> nat \<Rightarrow> bytes \<Rightarrow> (q15xl uniform, parse_error) result" where
  "q15xl_from_topic_data n_ch max_n bs =
     (if length bs < UNIFORM_HEADER_OVERHEAD + q15xl_serialized_size n_ch 0 then Err PE_BufferTooSmall
      else
        (case q15xl_from_bytes n_ch max_n (drop 12 bs) of
           Err e \<Rightarrow> Err (PE_Deserialize e)
         | Ok data \<Rightarrow>
             (let result = \<lparr>uniform_t = u64_from_le (seg 0 8 bs), uniform_fs = u32_from_le (seg 8 4 bs),
                            uniform_data = data\<rparr>
              in if uniform_verify result then Ok result else Err PE_Invalid)))"

end
