(* ===== verification/Samples_Correct.thy ===== *)
theory Samples_Correct
  imports Samples
begin

text \<open>
  The encodings of sample packets are inverse to each other, their sizes are what the size functions
  say, and decoding never reads past its input.
\<close>

section \<open>Integers\<close>

lemma length_u64_to_le [simp]: "length (u64_to_le w) = 8"
  by (simp add: u64_to_le_def)

lemma u64_le_roundtrip [simp]: "u64_from_le (u64_to_le w) = w"
proof (rule bit_word_eqI)
  fix n assume "n < LENGTH(64)"
  then have n: "n < 64" by simp
  have "[0..<8] = [0, 1, 2, 3, 4, 5, 6, 7::nat]" by (simp add: upt_rec)
  then have eq: "u64_from_le (u64_to_le w) =
      foldl (OR) 0 (map (\<lambda>i. push_bit (8 * i) (ucast (ucast (drop_bit (8 * i) w) :: u8))) [0, 1, 2, 3, 4, 5, 6, 7])"
    by (simp add: u64_from_le_def u64_to_le_def)
  consider "n < 8" | "8 \<le> n \<and> n < 16" | "16 \<le> n \<and> n < 24" | "24 \<le> n \<and> n < 32"
    | "32 \<le> n \<and> n < 40" | "40 \<le> n \<and> n < 48" | "48 \<le> n \<and> n < 56" | "56 \<le> n \<and> n < 64"
    using n by linarith
  then show "bit (u64_from_le (u64_to_le w)) n = bit w n"
    unfolding eq by cases (auto simp: bit_simps)
qed

section \<open>Lists of equal pieces\<close>

lemma seg_concat_map:
  assumes "\<And>i. i < n \<Longrightarrow> length (f i) = k" and "i < n"
  shows "seg (i * k) k (concat (map f [0..<n]) @ rest) = f i"
proof -
  have "length (concat (map f [0..<i])) = i * k"
    using assms by (induction i) (auto simp: add.commute)
  moreover have "[0..<n] = [0..<i] @ i # [Suc i..<n]"
    using assms(2) by (metis upt_add_eq_append upt_conv_Cons less_imp_le_nat zero_le le_add_diff_inverse)
  ultimately show ?thesis using assms by (simp add: seg_def)
qed

lemma length_concat_map:
  assumes "\<And>i. i < n \<Longrightarrow> length (f i) = k"
  shows "length (concat (map f [0..<n])) = n * k"
  using assms by (induction n) (auto simp: add.commute)

section \<open>Channels\<close>

definition channel_ok :: "nat \<Rightarrow> nat \<Rightarrow> q15_channel \<Rightarrow> bool" where
  "channel_ok max_n n ch \<longleftrightarrow> length (channel_values ch) = max_n \<and> n \<le> max_n
     \<and> (\<forall>i < max_n. n \<le> i \<longrightarrow> channel_values ch ! i = 0) \<and> (n = 0 \<longrightarrow> exponent ch = 0)"

lemma channel_ok_empty:
  assumes "channel_ok max_n 0 ch" shows "ch = q15_channel_empty max_n"
proof -
  have "channel_values ch = replicate max_n 0"
    using assms by (auto simp: channel_ok_def intro: nth_equalityI)
  then show ?thesis using assms by (cases ch) (simp add: channel_ok_def q15_channel_empty_def)
qed

lemma length_channel_to_bytes [simp]: "length (channel_to_bytes n ch) = 1 + 2 * n"
  by (simp add: channel_to_bytes_def length_concat_map [where k = 2] i16_to_bytes_def)

lemma channel_roundtrip:
  assumes ok: "channel_ok max_n n ch"
  shows "channel_from_bytes max_n n (channel_to_bytes n ch) = ch"
proof -
  let ?f = "\<lambda>spl. i16_to_bytes (channel_values ch ! spl)"
  have two: "length (?f i) = 2" for i by (simp add: i16_to_bytes_def)
  have "i16_from_bytes [concat (map ?f [0..<n]) ! (2 * i), concat (map ?f [0..<n]) ! (2 * i + 1)]
      = channel_values ch ! i" if i: "i < n" for i
  proof -
    have s: "seg (i * 2) 2 (concat (map ?f [0..<n])) = ?f i"
      using seg_concat_map [of n ?f 2 i "[]"] two i by simp
    have len: "2 * i + 1 < length (concat (map ?f [0..<n]))"
      using i two by (simp add: length_concat_map [where k = 2])
    have "[concat (map ?f [0..<n]) ! (2 * i), concat (map ?f [0..<n]) ! (2 * i + 1)] = ?f i"
      unfolding s [symmetric] using len by (intro nth_equalityI) (auto simp: less_Suc_eq mult.commute)
    then show ?thesis by (simp add: i16_from_bytes_def i16_to_bytes_def)
  qed
  then have "channel_values (channel_from_bytes max_n n (channel_to_bytes n ch)) = channel_values ch"
    using ok by (intro nth_equalityI)
      (auto simp: channel_from_bytes_def channel_to_bytes_def channel_ok_def q15_channel_empty_def Let_def)
  moreover have "exponent (channel_from_bytes max_n n (channel_to_bytes n ch)) = exponent ch"
    by (simp add: channel_from_bytes_def channel_to_bytes_def Let_def)
  ultimately show ?thesis by simp
qed

text \<open>All channels of a packet at once.\<close>

lemma channels_roundtrip:
  assumes "\<forall>ch \<in> set chs. channel_ok max_n n ch" and "0 < n"
  shows "map (\<lambda>ch. channel_from_bytes max_n n (seg (ch * serialized_size_per_channel n)
      (serialized_size_per_channel n)
      (concat (map (\<lambda>ch. channel_to_bytes n (chs ! ch)) [0..<length chs]) @ rest))) [0..<length chs] = chs"
proof (rule nth_equalityI)
  fix i assume "i < length (map (\<lambda>ch. channel_from_bytes max_n n (seg (ch * serialized_size_per_channel n)
      (serialized_size_per_channel n)
      (concat (map (\<lambda>ch. channel_to_bytes n (chs ! ch)) [0..<length chs]) @ rest))) [0..<length chs])"
  then have i: "i < length chs" by simp
  have k: "serialized_size_per_channel n = 1 + 2 * n" using assms(2) by (simp add: serialized_size_per_channel_def)
  have "seg (i * (1 + 2 * n)) (1 + 2 * n)
      (concat (map (\<lambda>ch. channel_to_bytes n (chs ! ch)) [0..<length chs]) @ rest) = channel_to_bytes n (chs ! i)"
    using seg_concat_map [of "length chs" "\<lambda>ch. channel_to_bytes n (chs ! ch)" "1 + 2 * n" i] i by simp
  then show "map (\<lambda>ch. channel_from_bytes max_n n (seg (ch * serialized_size_per_channel n)
      (serialized_size_per_channel n)
      (concat (map (\<lambda>ch. channel_to_bytes n (chs ! ch)) [0..<length chs]) @ rest))) [0..<length chs] ! i = chs ! i"
    using assms(1) i by (simp add: k channel_roundtrip)
qed simp

lemma length_channels:
  "0 < n \<Longrightarrow> length (concat (map (\<lambda>ch. channel_to_bytes n (chs ! ch)) [0..<n_ch]))
     = n_ch * serialized_size_per_channel n"
  by (simp add: length_concat_map [where k = "1 + 2 * n"] serialized_size_per_channel_def)

section \<open>Packets\<close>

definition q15_ok :: "nat \<Rightarrow> nat \<Rightarrow> q15 \<Rightarrow> bool" where
  "q15_ok n_ch max_n q \<longleftrightarrow> length (q15_ch q) = n_ch \<and> (\<forall>ch \<in> set (q15_ch q). channel_ok max_n (q15_len q) ch)"

definition q15xl_ok :: "nat \<Rightarrow> nat \<Rightarrow> q15xl \<Rightarrow> bool" where
  "q15xl_ok n_ch max_n q \<longleftrightarrow> length (xl_ch q) = n_ch \<and> (\<forall>ch \<in> set (xl_ch q). channel_ok max_n (q15xl_len q) ch)"

lemma channels_empty:
  assumes "length chs = n_ch" and "\<forall>ch \<in> set chs. channel_ok max_n 0 ch"
  shows "chs = replicate n_ch (q15_channel_empty max_n)"
  using assms channel_ok_empty by (auto intro!: replicate_eqI)

lemma q15_roundtrip_bytes:
  assumes ok: "q15_ok n_ch max_n q" and ch: "0 < n_ch" and len: "length buf = q15_serialized_size n_ch (q15_len q)"
  shows "\<exists>out written. q15_to_bytes n_ch q buf = (Ok out, written) \<and> length written = length buf
    \<and> q15_from_bytes n_ch max_n written = Ok q"
proof (cases "num_samples q = 0")
  case True
  then have "buf = []" using len by (auto simp: q15_serialized_size_def q15_len_def split: if_splits)
  moreover have "q15_ch q = replicate n_ch (q15_channel_empty max_n)"
    using ok True by (intro channels_empty) (auto simp: q15_ok_def q15_len_def)
  ultimately show ?thesis using True
    by (auto simp: q15_to_bytes_def q15_from_bytes_def q15_serialized_size_def q15_len_def Let_def)
next
  case False
  let ?n = "unat (num_samples q)"
  have n: "0 < ?n" using False by (simp add: unat_gt_0)
  let ?out = "concat (map (\<lambda>ch. channel_to_bytes ?n (q15_ch q ! ch)) [0..<n_ch])"
  have lch: "length (q15_ch q) = n_ch" using ok by (simp add: q15_ok_def)
  have "q15_ch q \<noteq> []" using lch ch by auto
  then have max: "?n \<le> max_n" using ok by (cases "q15_ch q") (auto simp: q15_ok_def q15_len_def channel_ok_def)
  have sz: "q15_serialized_size n_ch ?n = Suc (length ?out)"
    using n ch by (simp add: q15_serialized_size_def length_channels)
  have "q15_to_bytes n_ch q buf = (Ok ?out, num_samples q # ?out)"
    using len False ch by (simp add: q15_to_bytes_def q15_len_def Let_def)
  moreover have "q15_from_bytes n_ch max_n (num_samples q # ?out) = Ok q"
    using channels_roundtrip [of "q15_ch q" max_n ?n "[]"] n max ok lch sz
    by (simp add: q15_from_bytes_def q15_ok_def q15_len_def Let_def)
  ultimately show ?thesis using len sz by (simp add: q15_len_def)
qed

lemma q15xl_roundtrip_bytes:
  assumes ok: "q15xl_ok n_ch max_n q" and ch: "0 < n_ch"
    and len: "length buf = q15xl_serialized_size n_ch (q15xl_len q)"
  shows "\<exists>out written. q15xl_to_bytes n_ch q buf = (Ok out, written) \<and> length written = length buf
    \<and> q15xl_from_bytes n_ch max_n written = Ok q"
proof (cases "xl_num_samples q = 0")
  case True
  then have "buf = []" using len by (auto simp: q15xl_serialized_size_def q15xl_len_def split: if_splits)
  moreover have "xl_ch q = replicate n_ch (q15_channel_empty max_n)"
    using ok True by (intro channels_empty) (auto simp: q15xl_ok_def q15xl_len_def)
  ultimately show ?thesis using True
    by (auto simp: q15xl_to_bytes_def q15xl_from_bytes_def q15xl_serialized_size_def q15xl_len_def Let_def)
next
  case False
  let ?n = "unat (xl_num_samples q)"
  have n: "0 < ?n" using False by (simp add: unat_gt_0)
  let ?out = "concat (map (\<lambda>ch. channel_to_bytes ?n (xl_ch q ! ch)) [0..<n_ch])"
  have lch: "length (xl_ch q) = n_ch" using ok by (simp add: q15xl_ok_def)
  have "xl_ch q \<noteq> []" using lch ch by auto
  then have max: "?n \<le> max_n" using ok by (cases "xl_ch q") (auto simp: q15xl_ok_def q15xl_len_def channel_ok_def)
  have sz: "q15xl_serialized_size n_ch ?n = 2 + length ?out"
    using n ch by (simp add: q15xl_serialized_size_def length_channels)
  have "q15xl_to_bytes n_ch q buf = (Ok ?out, u16_to_le (xl_num_samples q) @ ?out)"
    using len False ch by (simp add: q15xl_to_bytes_def q15xl_len_def Let_def)
  moreover obtain lo hi where le: "u16_to_le (xl_num_samples q) = [lo, hi]" by (simp add: u16_to_le_def)
  moreover have "u16_from_le [lo, hi] = xl_num_samples q" using u16_le_roundtrip [of "xl_num_samples q"] le by simp
  moreover have "q15xl_from_bytes n_ch max_n (lo # hi # ?out) = Ok q" if "u16_from_le [lo, hi] = xl_num_samples q"
    using channels_roundtrip [of "xl_ch q" max_n ?n "[]"] n max ok lch sz that
    by (simp add: q15xl_from_bytes_def q15xl_ok_def q15xl_len_def Let_def del: u16_from_le.simps)
  ultimately show ?thesis using len sz by (simp add: q15xl_len_def)
qed

lemma packet_header:
  "seg 0 8 (u64_to_le t @ u32_to_le fs @ w) = u64_to_le t"
  "seg 8 4 (u64_to_le t @ u32_to_le fs @ w) = u32_to_le fs"
  "drop 12 (u64_to_le t @ u32_to_le fs @ w) = w"
  by (simp_all add: seg_def)

lemma packet_eta: "\<lparr>uniform_t = uniform_t u, uniform_fs = uniform_fs u, uniform_data = uniform_data u\<rparr> = u"
  by (cases u) simp

section \<open>Properties\<close>

text \<open>
  Packets with a 16-bit sample count survive the wire: a packet that passes \<open>verify\<close>, has its
  \<open>N_CH\<close> channels filled up to its sample count and fits the maximal message is written by
  \<open>as_topic_data\<close> into any buffer that is long enough, in exactly the computed number of bytes,
  and \<open>from_topic_data\<close> reads the same packet back.
\<close>

theorem q15xl_topic_roundtrip:
  assumes "q15xl_ok n_ch max_n (uniform_data u)" and "0 < n_ch" and "uniform_verify u"
    and "uniform_q15xl_serialized_size n_ch (q15xl_len (uniform_data u)) = Some sz" and "sz \<le> length buf"
  shows "\<exists>bs. q15xl_as_topic_data n_ch u buf = Ok bs \<and> length bs = sz
    \<and> q15xl_from_topic_data n_ch max_n bs = Ok u"
proof -
  have sz: "sz = 12 + q15xl_serialized_size n_ch (q15xl_len (uniform_data u))"
    using assms(4) by (auto simp: uniform_q15xl_serialized_size_def Let_def split: if_splits)
  then have "length (drop 12 (take sz buf)) = q15xl_serialized_size n_ch (q15xl_len (uniform_data u))"
    using assms(5) by simp
  from q15xl_roundtrip_bytes [OF assms(1,2) this] obtain out w where
    w: "q15xl_to_bytes n_ch (uniform_data u) (drop 12 (take sz buf)) = (Ok out, w)"
       "length w = q15xl_serialized_size n_ch (q15xl_len (uniform_data u))"
       "q15xl_from_bytes n_ch max_n w = Ok (uniform_data u)"
    using sz assms(5) by auto
  then show ?thesis using assms sz
    by (simp add: q15xl_as_topic_data_def q15xl_from_topic_data_def packet_header packet_eta Let_def q15xl_serialized_size_def [of _ 0])
qed

definition ex_packet :: "q15xl uniform" where
  "ex_packet = \<lparr>uniform_t = 1000000, uniform_fs = 0x447A0000, uniform_data =
     \<lparr>xl_num_samples = 2, xl_ch = [\<lparr>exponent = 3, channel_values = [0x7FFF, 0x8001, 0]\<rparr>,
       \<lparr>exponent = 0xFE, channel_values = [5, 6, 0]\<rparr>]\<rparr>\<rparr>"

lemma ex_packet_ok: "q15xl_ok 2 3 (uniform_data ex_packet)" "uniform_verify ex_packet"
  "uniform_q15xl_serialized_size 2 (q15xl_len (uniform_data ex_packet)) = Some 24"
proof -
  show "q15xl_ok 2 3 (uniform_data ex_packet)"
    by (auto simp: q15xl_ok_def channel_ok_def ex_packet_def q15xl_len_def less_Suc_eq numeral_3_eq_3 nth_Cons')
qed code_simp+

theorem q15xl_topic_roundtrip_witness:
  "\<exists>bs. q15xl_as_topic_data 2 ex_packet (replicate 30 0) = Ok bs \<and> length bs = 24
    \<and> q15xl_from_topic_data 2 3 bs = Ok ex_packet"
  by (rule q15xl_topic_roundtrip [OF ex_packet_ok(1) _ ex_packet_ok(2,3)]) simp_all

text \<open>
  Packets with an 8-bit sample count survive the wire in the same way.
\<close>

theorem q15_topic_roundtrip:
  assumes "q15_ok n_ch max_n (uniform_data u)" and "0 < n_ch" and "uniform_verify u"
    and "uniform_q15_serialized_size n_ch (q15_len (uniform_data u)) = Some sz" and "sz \<le> length buf"
  shows "\<exists>bs. q15_as_topic_data n_ch u buf = Ok bs \<and> length bs = sz
    \<and> q15_from_topic_data n_ch max_n bs = Ok u"
proof -
  have sz: "sz = 12 + q15_serialized_size n_ch (q15_len (uniform_data u))"
    using assms(4) by (auto simp: uniform_q15_serialized_size_def Let_def split: if_splits)
  then have "length (drop 12 (take sz buf)) = q15_serialized_size n_ch (q15_len (uniform_data u))"
    using assms(5) by simp
  from q15_roundtrip_bytes [OF assms(1,2) this] obtain out w where
    w: "q15_to_bytes n_ch (uniform_data u) (drop 12 (take sz buf)) = (Ok out, w)"
       "length w = q15_serialized_size n_ch (q15_len (uniform_data u))"
       "q15_from_bytes n_ch max_n w = Ok (uniform_data u)"
    using sz assms(5) by auto
  then show ?thesis using assms sz
    by (simp add: q15_as_topic_data_def q15_from_topic_data_def packet_header packet_eta Let_def q15_serialized_size_def [of _ 0])
qed

definition ex_packet8 :: "q15 uniform" where
  "ex_packet8 = \<lparr>uniform_t = 1000000, uniform_fs = 0x447A0000, uniform_data =
     \<lparr>num_samples = 2, q15_ch = [\<lparr>exponent = 3, channel_values = [0x7FFF, 0x8001, 0]\<rparr>]\<rparr>\<rparr>"

lemma ex_packet8_ok: "q15_ok 1 3 (uniform_data ex_packet8)" "uniform_verify ex_packet8"
  "uniform_q15_serialized_size 1 (q15_len (uniform_data ex_packet8)) = Some 18"
proof -
  show "q15_ok 1 3 (uniform_data ex_packet8)"
    by (auto simp: q15_ok_def channel_ok_def ex_packet8_def q15_len_def less_Suc_eq numeral_3_eq_3 nth_Cons')
qed code_simp+

theorem q15_topic_roundtrip_witness:
  "\<exists>bs. q15_as_topic_data 1 ex_packet8 (replicate 20 0) = Ok bs \<and> length bs = 18
    \<and> q15_from_topic_data 1 3 bs = Ok ex_packet8"
  by (rule q15_topic_roundtrip [OF ex_packet8_ok(1) _ ex_packet8_ok(2,3)]) simp_all

text \<open>
  The capacity computations are exact: \<open>max_num_input_samples\<close> is the largest number of samples
  per channel whose packet fits a buffer, for both formats.
\<close>

theorem max_num_input_samples_exact:
  assumes "0 < n_ch" and "0 < n"
  shows "(UNIFORM_HEADER_OVERHEAD + q15xl_serialized_size n_ch n \<le> buffer_size
        \<longleftrightarrow> n \<le> q15xl_max_num_input_samples n_ch buffer_size)
    \<and> (UNIFORM_HEADER_OVERHEAD + q15_serialized_size n_ch n \<le> buffer_size
        \<longleftrightarrow> n \<le> q15_max_num_input_samples n_ch buffer_size)"
proof -
  have key: "n_ch * (1 + 2 * n) \<le> a \<longleftrightarrow> n_ch * 3 \<le> a \<and> n \<le> (a div n_ch - 1) div 2" for a
  proof -
    have e: "n_ch * k \<le> a \<longleftrightarrow> k \<le> a div n_ch" for k
      using assms(1) by (simp add: less_eq_div_iff_mult_less_eq mult.commute)
    have f: "1 + 2 * n \<le> b \<longleftrightarrow> 3 \<le> b \<and> n \<le> (b - 1) div 2" for b
      using assms(2) by presburger
    show ?thesis unfolding e f ..
  qed
  have "UNIFORM_HEADER_OVERHEAD + q15xl_serialized_size n_ch n \<le> buffer_size
      \<longleftrightarrow> n \<le> q15xl_max_num_input_samples n_ch buffer_size"
    using key [of "buffer_size - 14"] assms
    by (auto simp: q15xl_serialized_size_def serialized_size_per_channel_def q15xl_max_num_input_samples_def Let_def)
  moreover have "UNIFORM_HEADER_OVERHEAD + q15_serialized_size n_ch n \<le> buffer_size
      \<longleftrightarrow> n \<le> q15_max_num_input_samples n_ch buffer_size"
    using key [of "buffer_size - 13"] assms
    by (auto simp: q15_serialized_size_def serialized_size_per_channel_def q15_max_num_input_samples_def Let_def)
  ultimately show ?thesis ..
qed

theorem max_num_input_samples_exact_witness:
  "\<not> UNIFORM_HEADER_OVERHEAD + q15xl_serialized_size 3 40 \<le> 256
   \<and> UNIFORM_HEADER_OVERHEAD + q15xl_serialized_size 3 39 \<le> 256"
proof -
  have "q15xl_max_num_input_samples 3 256 = 39" by code_simp
  then show ?thesis
    using max_num_input_samples_exact [of 3 40 256] max_num_input_samples_exact [of 3 39 256] by simp
qed

end
