(* ===== verification/Mail_Throttle.thy ===== *)
theory Mail_Throttle
  imports Prelude
begin

text \<open>
  Rate limiting of outgoing e-mail, \<open>server/sensor-link-notify/src/mail_throttle.rs\<close>: a limiter with
  sliding windows of a minute, an hour and a day, which answers when the next e-mail may be sent.

  An \<open>Instant\<close> is a natural number of nanoseconds since the origin of the clock, so that
  \<open>checked_sub\<close> fails below the origin; the end of its range (centuries) is not modelled.
\<close>

section \<open>Definitions\<close>

type_synonym instant = nat
type_synonym duration = nat

definition from_secs :: "nat \<Rightarrow> duration" where
  "from_secs s = s * 10 ^ 9"

definition MINUTE :: duration where
  "MINUTE = from_secs 60"

definition HOUR :: duration where
  "HOUR = from_secs (60 * 60)"

definition DAY :: duration where
  "DAY = from_secs (24 * 60 * 60)"

record throttle_config =
  per_minute :: u32
  per_hour :: u32
  per_day :: u32
  max_queued :: nat

definition throttle_config_default :: throttle_config where
  "throttle_config_default = \<lparr>per_minute = 20, per_hour = 200, per_day = 800, max_queued = 10000\<rparr>"

record rate_limiter =
  rl_config :: throttle_config
  rl_sends :: "instant list"

definition batch_idle_time :: "throttle_config \<Rightarrow> duration" where
  "batch_idle_time cfg =
     (let longest_gap = if unat (per_hour cfg) < unat (per_minute cfg) * 60 then HOUR else MINUTE
      in longest_gap + MINUTE)"

definition rate_limiter_new :: "throttle_config \<Rightarrow> rate_limiter" where
  "rate_limiter_new cfg = \<lparr>rl_config = cfg, rl_sends = []\<rparr>"

definition checked_sub :: "instant \<Rightarrow> duration \<Rightarrow> instant option" where
  "checked_sub t d = (if d \<le> t then Some (t - d) else None)"

definition prune :: "instant \<Rightarrow> rate_limiter \<Rightarrow> rate_limiter" where
  "prune now l = (case checked_sub now DAY of
       None \<Rightarrow> l
     | Some cutoff \<Rightarrow> l\<lparr>rl_sends := dropWhile (\<lambda>ts. ts \<le> cutoff) (rl_sends l)\<rparr>)"

definition rl_record :: "instant \<Rightarrow> nat \<Rightarrow> rate_limiter \<Rightarrow> rate_limiter" where
  "rl_record now count l = (let l1 = prune now l in l1\<lparr>rl_sends := rl_sends l1 @ replicate count now\<rparr>)"

text \<open>
  \<open>VecDeque::partition_point\<close> on a sequence whose elements that satisfy the predicate come first: the
  index of the first one that does not.
\<close>

definition partition_point :: "('a \<Rightarrow> bool) \<Rightarrow> 'a list \<Rightarrow> nat" where
  "partition_point p xs = length (takeWhile p xs)"

definition window_release ::
  "instant \<Rightarrow> duration \<Rightarrow> u32 \<Rightarrow> nat \<Rightarrow> rate_limiter \<Rightarrow> instant option" where
  "window_release now window lim count l =
     (let limit = unat lim;
          first_in_window = (case checked_sub now window of
              Some cutoff \<Rightarrow> partition_point (\<lambda>ts. ts \<le> cutoff) (rl_sends l)
            | None \<Rightarrow> 0);
          in_window = length (rl_sends l) - first_in_window
      in if in_window + count \<le> limit then None
         else if in_window = 0 then None
         else (let must_expire = min (in_window + count - limit) in_window;
                   last_to_expire = rl_sends l ! (first_in_window + must_expire - 1)
               in Some (last_to_expire + window)))"

text \<open>\<open>Iterator::max\<close> of the entries that are present.\<close>

fun option_max :: "nat option list \<Rightarrow> nat option" where
  "option_max [] = None"
| "option_max (None # xs) = option_max xs"
| "option_max (Some x # xs) = (case option_max xs of None \<Rightarrow> Some x | Some y \<Rightarrow> Some (max x y))"

definition next_allowed :: "instant \<Rightarrow> nat \<Rightarrow> rate_limiter \<Rightarrow> instant option \<times> rate_limiter" where
  "next_allowed now count l =
     (let l1 = prune now l;
          cfg = rl_config l1
      in (option_max (map (\<lambda>(window, limit). window_release now window limit count l1)
            [(MINUTE, per_minute cfg), (HOUR, per_hour cfg), (DAY, per_day cfg)]), l1))"

section \<open>Specification\<close>

text \<open>
  The sends of a history that are in the window of length \<open>w\<close> that ends at \<open>t\<close>, and when \<open>count\<close>
  more fit: in every window there is room for them, or the window is empty.
\<close>

definition in_window :: "instant list \<Rightarrow> duration \<Rightarrow> instant \<Rightarrow> nat" where
  "in_window sends w t = length (filter (\<lambda>ts. t < ts + w) sends)"

definition windows :: "throttle_config \<Rightarrow> (duration \<times> nat) list" where
  "windows cfg = [(MINUTE, unat (per_minute cfg)), (HOUR, unat (per_hour cfg)), (DAY, unat (per_day cfg))]"

definition fits_window :: "instant list \<Rightarrow> nat \<Rightarrow> instant \<Rightarrow> duration \<times> nat \<Rightarrow> bool" where
  "fits_window sends count t wl \<longleftrightarrow>
     in_window sends (fst wl) t + count \<le> snd wl \<or> in_window sends (fst wl) t = 0"

definition fits :: "throttle_config \<Rightarrow> instant list \<Rightarrow> nat \<Rightarrow> instant \<Rightarrow> bool" where
  "fits cfg sends count t \<longleftrightarrow> list_all (fits_window sends count t) (windows cfg)"

section \<open>Correctness\<close>

lemma checked_sub_less: "ts \<le> t \<Longrightarrow> (case checked_sub t d of Some cutoff \<Rightarrow> \<not> ts \<le> cutoff | None \<Rightarrow> True) \<longleftrightarrow> t < ts + d"
  by (auto simp: checked_sub_def)

lemma in_window_mono: "t \<le> t' \<Longrightarrow> in_window sends w t' \<le> in_window sends w t"
  unfolding in_window_def by (induction sends) auto

lemma in_window_span: "length (filter (\<lambda>ts. ts \<le> t \<and> t < ts + w) sends) \<le> in_window sends w t"
  unfolding in_window_def by (induction sends) auto

lemma fits_window_mono: "t \<le> t' \<Longrightarrow> fits_window sends count t wl \<Longrightarrow> fits_window sends count t' wl"
  using in_window_mono [of t t' sends "fst wl"] by (auto simp: fits_window_def)

lemma fits_mono: "t \<le> t' \<Longrightarrow> fits cfg sends count t \<Longrightarrow> fits cfg sends count t'"
  using fits_window_mono by (auto simp: fits_def list_all_iff)

text \<open>In a sorted history the sends that are in a window are a suffix.\<close>

lemma in_window_sorted:
  assumes "sorted sends"
  shows "in_window sends w t = length sends - length (takeWhile (\<lambda>ts. ts + w \<le> t) sends)"
  using assms
proof (induction sends)
  case (Cons s sends)
  show ?case
  proof (cases "s + w \<le> t")
    case True
    then show ?thesis using Cons by (simp add: in_window_def)
  next
    case False
    then have "filter (\<lambda>ts. t < ts + w) sends = sends" using Cons.prems by (intro filter_True) fastforce
    then show ?thesis using False by (simp add: in_window_def)
  qed
qed (simp add: in_window_def)

lemma first_in_window:
  assumes "0 < w"
  shows "(case checked_sub now w of Some cutoff \<Rightarrow> partition_point (\<lambda>ts. ts \<le> cutoff) sends | None \<Rightarrow> 0)
    = length (takeWhile (\<lambda>ts. ts + w \<le> now) sends)"
proof (cases "w \<le> now")
  case True
  then have "(\<lambda>ts. ts \<le> now - w) = (\<lambda>ts. ts + w \<le> now)" by (auto simp: fun_eq_iff)
  then show ?thesis using True by (simp add: checked_sub_def partition_point_def)
next
  case False
  then have "takeWhile (\<lambda>ts. ts + w \<le> now) sends = []" by (cases sends) auto
  then show ?thesis using False by (simp add: checked_sub_def)
qed

lemma in_window_append: "in_window (xs @ ys) w t = in_window xs w t + in_window ys w t"
  by (simp add: in_window_def)

lemma in_window_le:
  assumes "\<And>i. i < k \<Longrightarrow> i < length sends \<Longrightarrow> sends ! i + w \<le> t"
  shows "in_window sends w t \<le> length sends - k"
proof -
  have "filter (\<lambda>ts. t < ts + w) (take k sends) = []"
    using assms by (auto simp: filter_empty_conv in_set_conv_nth) (meson leD)
  then have "in_window (take k sends) w t = 0" by (simp add: in_window_def)
  moreover have "in_window (drop k sends) w t \<le> length sends - k" by (simp add: in_window_def le_trans [OF length_filter_le])
  ultimately show ?thesis using in_window_append [of "take k sends" "drop k sends" w t] by simp
qed

lemma in_window_ge:
  assumes "\<And>i. k \<le> i \<Longrightarrow> i < length sends \<Longrightarrow> t < sends ! i + w"
  shows "length sends - k \<le> in_window sends w t"
proof -
  have "filter (\<lambda>ts. t < ts + w) (drop k sends) = drop k sends"
    using assms by (auto simp: filter_id_conv in_set_conv_nth)
  then have "in_window (drop k sends) w t = length sends - k" by (simp add: in_window_def)
  then show ?thesis using in_window_append [of "take k sends" "drop k sends" w t] by simp
qed

text \<open>One window: the call answers exactly when the sends fit.\<close>

lemma window_release_eq:
  assumes "0 < w"
  shows "window_release now w lim count l =
    (let f = length (takeWhile (\<lambda>ts. ts + w \<le> now) (rl_sends l)); iw = length (rl_sends l) - f
     in if iw + count \<le> unat lim then None else if iw = 0 then None
        else Some (rl_sends l ! (f + min (iw + count - unat lim) iw - 1) + w))"
  unfolding window_release_def Let_def first_in_window [OF assms] ..

lemma window_release_None:
  assumes "sorted (rl_sends l)" and "0 < w"
  shows "window_release now w lim count l = None \<longleftrightarrow> fits_window (rl_sends l) count now (w, unat lim)"
  unfolding window_release_eq [OF assms(2)] fits_window_def fst_conv snd_conv in_window_sorted [OF assms(1)] Let_def
  by (auto simp only: option.distinct split: if_split)

text \<open>Removing the first \<open>k\<close> sends and one more makes the difference at the time the last of them expires.\<close>

lemma expiry_step:
  assumes srt: "sorted s" and k: "k < length s"
  shows "in_window s w (s ! k + w) \<le> length s - (k + 1)"
    and "t' < s ! k + w \<Longrightarrow> length s - k \<le> in_window s w t'"
proof -
  have mono: "s ! i \<le> s ! j" if "i \<le> j" "j < length s" for i j using srt that by (simp add: sorted_nth_mono)
  show "in_window s w (s ! k + w) \<le> length s - (k + 1)"
    by (rule in_window_le) (use mono k in simp)
  assume "t' < s ! k + w"
  then show "length s - k \<le> in_window s w t'"
    by (intro in_window_ge) (meson add_le_mono le_refl less_le_trans mono)
qed

lemma window_release_Some:
  assumes srt: "sorted (rl_sends l)" and w: "0 < w" and t: "window_release now w lim count l = Some t"
  shows "now < t \<and> fits_window (rl_sends l) count t (w, unat lim)
    \<and> (\<forall>t' < t. \<not> fits_window (rl_sends l) count t' (w, unat lim))"
proof -
  define s L f iw m where "s = rl_sends l" "L = unat lim" "f = length (takeWhile (\<lambda>ts. ts + w \<le> now) s)"
    "iw = length s - f" "m = min (iw + count - L) iw"
  note d = this
  have full: "L < iw + count" "0 < iw" and tt: "t = s ! (f + m - 1) + w"
    using t unfolding window_release_eq [OF w] by (auto simp: Let_def d split: if_splits)
  have m: "0 < m" "m \<le> iw" "m \<le> iw + count - L" using full by (auto simp: d(5))
  have fl: "f \<le> length s" unfolding d(3) by (rule length_takeWhile_le)
  then have k: "f \<le> f + m - 1" "f + m - 1 < length s" using m(1,2) d(4) by linarith+
  have ss: "sorted s" using srt d(1) by simp
  note step = expiry_step [where w = w, OF ss k(2), folded tt]
  have "f < length s" using k by linarith
  then have "\<not> s ! f + w \<le> now" unfolding d(3) by (rule nth_length_takeWhile)
  moreover have "s ! f \<le> s ! (f + m - 1)" using ss k by (simp add: sorted_nth_mono)
  ultimately have now: "now < t" using tt by linarith
  have fit: "in_window s w t + count \<le> L \<or> in_window s w t = 0"
  proof (cases "iw \<le> iw + count - L")
    case True
    then have "m = iw" by (simp add: d(5))
    then show ?thesis using step(1) k fl m(1) by (simp add: d(4))
  next
    case False
    then have "m = iw + count - L" by (simp add: d(5))
    then have "in_window s w t + count \<le> L" using step(1) k full d(4) by linarith
    then show ?thesis ..
  qed
  have "\<not> (in_window s w t' + count \<le> L \<or> in_window s w t' = 0)" if "t' < t" for t'
    using step(2) [OF that] m full fl d(4) by linarith
  then show ?thesis using now fit by (simp add: fits_window_def d(1,2))
qed

lemma option_max_None: "option_max xs = None \<longleftrightarrow> set xs \<subseteq> {None}"
  by (induction xs rule: option_max.induct) (auto split: option.splits)

lemma option_max_Some:
  "option_max xs = Some t \<Longrightarrow> Some t \<in> set xs \<and> (\<forall>u. Some u \<in> set xs \<longrightarrow> u \<le> t)"
proof (induction xs arbitrary: t rule: option_max.induct)
  case (3 x xs)
  show ?case
  proof (cases "option_max xs")
    case None
    then have "t = x" "set xs \<subseteq> {None}" using "3.prems" option_max_None [of xs] by simp_all
    then show ?thesis by auto
  next
    case (Some y)
    then show ?thesis using "3.prems" "3.IH" [of y] by (auto simp: max_def split: if_splits)
  qed
qed auto

subsection \<open>The whole history\<close>

text \<open>
  The limiter forgets sends that are a day old. \<open>tracks hist now l\<close>: it knows every send of the
  history \<open>hist\<close> that still counts at \<open>now\<close> or later.
\<close>

definition tracks :: "instant list \<Rightarrow> instant \<Rightarrow> rate_limiter \<Rightarrow> bool" where
  "tracks hist now l \<longleftrightarrow> sorted hist \<and> (\<forall>ts \<in> set hist. ts \<le> now)
     \<and> (\<exists>pre. hist = pre @ rl_sends l \<and> (\<forall>ts \<in> set pre. ts + DAY \<le> now))"

lemma tracks_new: "tracks [] now (rate_limiter_new cfg)"
  by (simp add: tracks_def rate_limiter_new_def)

lemma tracks_mono: "tracks hist now l \<Longrightarrow> now \<le> now' \<Longrightarrow> tracks hist now' l"
  unfolding tracks_def by (elim conjE exE) (auto intro: order_trans)

lemma tracks_sorted: "tracks hist now l \<Longrightarrow> sorted (rl_sends l)"
  by (auto simp: tracks_def sorted_append)

lemma prune_config [simp]: "rl_config (prune now l) = rl_config l"
  by (simp add: prune_def split: option.splits)

lemma prune_tracks:
  assumes "tracks hist now l" shows "tracks hist now (prune now l)"
proof (cases "DAY \<le> now")
  case True
  obtain pre where pre: "hist = pre @ rl_sends l" "\<forall>ts \<in> set pre. ts + DAY \<le> now"
    using assms by (auto simp: tracks_def)
  let ?p = "\<lambda>ts. ts \<le> now - DAY"
  have "rl_sends (prune now l) = dropWhile ?p (rl_sends l)" using True by (simp add: prune_def checked_sub_def)
  moreover have "hist = (pre @ takeWhile ?p (rl_sends l)) @ dropWhile ?p (rl_sends l)" using pre(1) by simp
  moreover have "ts + DAY \<le> now" if "ts \<in> set (pre @ takeWhile ?p (rl_sends l))" for ts
    using that pre(2) True by (auto dest: set_takeWhileD)
  ultimately show ?thesis using assms unfolding tracks_def by metis
qed (use assms in \<open>simp add: prune_def checked_sub_def\<close>)

lemma record_tracks:
  assumes "tracks hist now l" and "now \<le> t"
  shows "tracks (hist @ replicate count t) t (rl_record t count l)"
proof -
  have p: "tracks hist t (prune t l)" using prune_tracks [OF tracks_mono [OF assms]] .
  then obtain pre where "hist = pre @ rl_sends (prune t l)" "\<forall>ts \<in> set pre. ts + DAY \<le> t" by (auto simp: tracks_def)
  moreover have "sorted (replicate count t)" by simp
  ultimately show ?thesis using p by (auto simp: tracks_def rl_record_def Let_def sorted_append)
qed

lemma tracks_window:
  assumes "tracks hist now l" and "now \<le> t" and "w \<le> DAY"
  shows "in_window hist w t = in_window (rl_sends l) w t"
proof -
  obtain pre where pre: "hist = pre @ rl_sends l" "\<forall>ts \<in> set pre. ts + DAY \<le> now"
    using assms(1) by (auto simp: tracks_def)
  have "in_window pre w t = 0"
    using pre(2) assms(2,3) by (fastforce simp: in_window_def filter_empty_conv)
  then show ?thesis by (simp add: pre(1) in_window_append)
qed

lemma window_lengths: "0 < MINUTE" "MINUTE \<le> DAY" "0 < HOUR" "HOUR \<le> DAY" "0 < DAY"
  by (simp_all add: MINUTE_def HOUR_def DAY_def from_secs_def)

lemma tracks_fits:
  assumes "tracks hist now l" and "now \<le> t"
  shows "fits cfg hist count t = fits cfg (rl_sends l) count t"
  using tracks_window [OF assms] window_lengths by (simp add: fits_def windows_def fits_window_def)

lemma next_allowed_result:
  assumes tr: "tracks hist now l" and na: "next_allowed now count l = (r, l')"
  shows "l' = prune now l" and "r = None \<Longrightarrow> fits (rl_config l) hist count now"
    and "r = Some t \<Longrightarrow> now < t \<and> fits (rl_config l) hist count t
      \<and> (\<forall>t'. now \<le> t' \<and> t' < t \<longrightarrow> \<not> fits (rl_config l) hist count t')"
proof -
  let ?l = "prune now l" and ?cfg = "rl_config l"
  note tp = prune_tracks [OF tr]
  note srt = tracks_sorted [OF tp]
  define wr where "wr = (\<lambda>(window, lim). window_release now window lim count ?l)"
  define ws where "ws = [(MINUTE, per_minute ?cfg), (HOUR, per_hour ?cfg), (DAY, per_day ?cfg)]"
  define fw where "fw = (\<lambda>t wl :: duration \<times> u32. fits_window (rl_sends ?l) count t (fst wl, unat (snd wl)))"
  show "l' = ?l" using na by (simp add: next_allowed_def Let_def)
  have r: "option_max (map wr ws) = r" using na by (auto simp: next_allowed_def Let_def wr_def ws_def)
  have fit: "fits ?cfg hist count t = (\<forall>wl \<in> set ws. fw t wl)" if "now \<le> t" for t
    unfolding tracks_fits [OF tp that] by (simp add: fits_def windows_def ws_def fw_def)
  have pos: "0 < fst wl" if "wl \<in> set ws" for wl using that window_lengths by (auto simp: ws_def)
  have none: "wr wl = None \<longleftrightarrow> fw now wl" if "wl \<in> set ws" for wl
    using window_release_None [OF srt pos [OF that]] by (cases wl) (simp add: wr_def fw_def)
  have some: "wr wl = Some u \<Longrightarrow> now < u \<and> fw u wl \<and> (\<forall>t' < u. \<not> fw t' wl)" if "wl \<in> set ws" for wl u
    using window_release_Some [OF srt pos [OF that]] by (cases wl) (simp add: wr_def fw_def)
  have later: "fw t wl \<Longrightarrow> t \<le> t' \<Longrightarrow> fw t' wl" for t t' wl using fits_window_mono by (simp add: fw_def)
  show "fits ?cfg hist count now" if "r = None"
    using that none r [unfolded that option_max_None] fit [OF order_refl] by auto
  show "now < t \<and> fits ?cfg hist count t \<and> (\<forall>t'. now \<le> t' \<and> t' < t \<longrightarrow> \<not> fits ?cfg hist count t')" if "r = Some t"
  proof -
    note om = option_max_Some [OF r [unfolded that], unfolded set_map]
    from om obtain wl where wl: "wl \<in> set ws" "wr wl = Some t" by (elim conjE imageE) simp
    note s = some [OF wl]
    have "fw t x" if x: "x \<in> set ws" for x
    proof (cases "wr x")
      case None
      then show ?thesis using none [OF x] s later [of now x t] by simp
    next
      case (Some u)
      then have "Some u \<in> wr ` set ws" using x by (metis imageI)
      then have "u \<le> t" using om by simp
      then show ?thesis using some [OF x Some] later [of u x t] by simp
    qed
    moreover have "\<not> fits ?cfg hist count t'" if "now \<le> t'" "t' < t" for t'
      using s wl(1) fit [OF that(1)] that(2) by auto
    ultimately show ?thesis using s fit [of t] by simp
  qed
qed

end
