(* ===== verification/Mail_Task.thy ===== *)
theory Mail_Task
  imports Mail_Throttle
begin

text \<open>
  The task that sends e-mail, \<open>send_task\<close> of \<open>server/sensor-link-notify/src/mail.rs\<close>: urgent e-mail is
  sent at once, other e-mail waits in a bounded queue until the limiter lets it through, and a
  shutdown drains the queue for a limited time. Building and transmitting messages is not modelled:
  \<open>Sent_Urgent\<close> and \<open>Sent_Queued\<close> stand for the call of \<open>send_email\<close>, \<open>Dropped\<close> for \<open>report_dropped\<close>.
  Metrics, logging and the SMTP configuration are left out.
\<close>

section \<open>Data\<close>

record email =
  em_recipients :: "string list"
  em_cc :: "string option"
  em_subject :: string
  em_message :: string
  em_html :: "string option"
  em_logo_path :: string
  em_urgent :: bool

definition email_new :: "string list \<Rightarrow> string \<Rightarrow> string \<Rightarrow> string \<Rightarrow> email" where
  "email_new recipients subject message logo_path =
     \<lparr>em_recipients = recipients, em_cc = None, em_subject = subject, em_message = message, em_html = None,
      em_logo_path = logo_path, em_urgent = True\<rparr>"

definition with_cc :: "string \<Rightarrow> email \<Rightarrow> email" where
  "with_cc cc m = m\<lparr>em_cc := Some cc\<rparr>"

definition with_html :: "string \<Rightarrow> email \<Rightarrow> email" where
  "with_html html m = m\<lparr>em_html := Some html\<rparr>"

definition non_urgent :: "email \<Rightarrow> email" where
  "non_urgent m = m\<lparr>em_urgent := False\<rparr>"

definition is_urgent :: "email \<Rightarrow> bool" where
  "is_urgent m = em_urgent m"

definition send_count :: "email \<Rightarrow> nat" where
  "send_count m = length (em_recipients m)"

definition SHUTDOWN_DRAIN_GRACE :: duration where
  "SHUTDOWN_DRAIN_GRACE = from_secs 60"

definition RELEASE_STARVATION_LIMIT :: duration where
  "RELEASE_STARVATION_LIMIT = from_secs 1"

datatype drop_reason = DROP_QUEUE_FULL | DROP_SHUTDOWN

record queued_email =
  qe_mail :: email
  qe_queued_at :: instant

record batch =
  started_at :: instant
  last_sent_at :: instant
  batch_sent :: u64

text \<open>The local variables of \<open>send_task\<close>; \<open>mt_done\<close>: the loop was left by the drain timeout.\<close>

record mail_task =
  mt_limiter :: rate_limiter
  mt_queue :: "queued_email list"
  mt_batch :: "batch option"
  mt_drain_until :: "instant option"
  mt_eligible_since :: "instant option"
  mt_done :: bool

datatype task_action =
    Sent_Urgent email
  | Sent_Queued email
  | Dropped email drop_reason
  | Batch_Reported batch

section \<open>The loop\<close>

definition task_new :: "throttle_config \<Rightarrow> mail_task" where
  "task_new throttle = \<lparr>mt_limiter = rate_limiter_new throttle, mt_queue = [], mt_batch = None,
     mt_drain_until = None, mt_eligible_since = None, mt_done = False\<rparr>"

definition finished :: "mail_task \<Rightarrow> bool" where
  "finished st \<longleftrightarrow> mt_done st \<or> mt_drain_until st \<noteq> None \<and> mt_queue st = []"

text \<open>The start of an iteration: when the head of the queue may be sent (\<open>None\<close>: the queue is empty).\<close>

definition loop_top :: "instant \<Rightarrow> mail_task \<Rightarrow> instant option option \<times> mail_task" where
  "loop_top now st =
     (let (release_at, limiter) = (case mt_queue st of
              [] \<Rightarrow> (None, mt_limiter st)
            | queued # _ \<Rightarrow> (case next_allowed now (send_count (qe_mail queued)) (mt_limiter st) of
                (r, l) \<Rightarrow> (Some r, l)));
          eligible = (if release_at = Some None
                      then (case mt_eligible_since st of None \<Rightarrow> Some now | Some t \<Rightarrow> Some t)
                      else None)
      in (release_at, st\<lparr>mt_limiter := limiter, mt_eligible_since := eligible\<rparr>))"

definition starving :: "instant \<Rightarrow> mail_task \<Rightarrow> bool" where
  "starving now st = (case mt_eligible_since st of
       None \<Rightarrow> False
     | Some since \<Rightarrow> now - since \<ge> RELEASE_STARVATION_LIMIT)"

definition batch_done_at :: "throttle_config \<Rightarrow> mail_task \<Rightarrow> instant option" where
  "batch_done_at throttle st = (case mt_batch st of
       Some b \<Rightarrow> if mt_queue st = [] then Some (last_sent_at b + batch_idle_time throttle) else None
     | None \<Rightarrow> None)"

text \<open>The branches of \<open>tokio::select!\<close>.\<close>

datatype task_event =
    Mail_Received "email option"
  | Release
  | Batch_Idle
  | Drain_Expired
  | Shutdown_Requested

text \<open>
  Whether a branch is enabled, and its future is ready at \<open>t\<close>. Which of several ready branches is
  taken is left open; the code takes the first one.
\<close>

fun branch_ready :: "throttle_config \<Rightarrow> instant \<Rightarrow> instant \<Rightarrow> instant option option \<Rightarrow> mail_task \<Rightarrow> task_event \<Rightarrow> bool" where
  "branch_ready throttle now t release_at st (Mail_Received m) \<longleftrightarrow> mt_drain_until st = None \<and> \<not> starving now st"
| "branch_ready throttle now t release_at st Release \<longleftrightarrow> (case release_at of
       None \<Rightarrow> False
     | Some None \<Rightarrow> True
     | Some (Some deadline) \<Rightarrow> deadline \<le> t)"
| "branch_ready throttle now t release_at st Batch_Idle \<longleftrightarrow> (case batch_done_at throttle st of
       None \<Rightarrow> False
     | Some deadline \<Rightarrow> deadline \<le> t)"
| "branch_ready throttle now t release_at st Drain_Expired \<longleftrightarrow> (case mt_drain_until st of
       None \<Rightarrow> False
     | Some deadline \<Rightarrow> deadline \<le> t)"
| "branch_ready throttle now t release_at st Shutdown_Requested \<longleftrightarrow> mt_drain_until st = None"

definition queue_mail :: "throttle_config \<Rightarrow> instant \<Rightarrow> email \<Rightarrow> mail_task \<Rightarrow> task_action list \<times> mail_task" where
  "queue_mail throttle now mail st =
     (let st1 = (if mt_batch st = None
                 then st\<lparr>mt_batch := Some \<lparr>started_at = now, last_sent_at = now, batch_sent = 0\<rparr>\<rparr> else st);
          queued = \<lparr>qe_mail = mail, qe_queued_at = now\<rparr>
      in if length (mt_queue st1) \<ge> max_queued throttle
         then (case mt_queue st1 of
                 [] \<Rightarrow> ([], st1\<lparr>mt_queue := [queued]\<rparr>)
               | dropped # rest \<Rightarrow> ([Dropped (qe_mail dropped) DROP_QUEUE_FULL], st1\<lparr>mt_queue := rest @ [queued]\<rparr>))
         else ([], st1\<lparr>mt_queue := mt_queue st1 @ [queued]\<rparr>))"

text \<open>The body of a branch; \<open>sent_at\<close> is the time after the e-mail was sent.\<close>

fun branch_body :: "throttle_config \<Rightarrow> instant \<Rightarrow> instant \<Rightarrow> task_event \<Rightarrow> mail_task \<Rightarrow> task_action list \<times> mail_task" where
  "branch_body throttle now sent_at (Mail_Received None) st =
     ([], st\<lparr>mt_drain_until := Some (now + SHUTDOWN_DRAIN_GRACE)\<rparr>)"
| "branch_body throttle now sent_at (Mail_Received (Some mail)) st =
     (if is_urgent mail
      then ([Sent_Urgent mail], st\<lparr>mt_limiter := rl_record now (send_count mail) (mt_limiter st)\<rparr>)
      else queue_mail throttle now mail st)"
| "branch_body throttle now sent_at Release st =
     (case mt_queue st of
        [] \<Rightarrow> ([], st)
      | queued # rest \<Rightarrow>
          ([Sent_Queued (qe_mail queued)],
           st\<lparr>mt_queue := rest, mt_eligible_since := None,
              mt_limiter := rl_record now (send_count (qe_mail queued)) (mt_limiter st),
              mt_batch := map_option (\<lambda>b. b\<lparr>batch_sent := batch_sent b + 1, last_sent_at := sent_at\<rparr>) (mt_batch st)\<rparr>))"
| "branch_body throttle now sent_at Batch_Idle st =
     (case mt_batch st of None \<Rightarrow> ([], st) | Some b \<Rightarrow> ([Batch_Reported b], st\<lparr>mt_batch := None\<rparr>))"
| "branch_body throttle now sent_at Drain_Expired st =
     (map (\<lambda>q. Dropped (qe_mail q) DROP_SHUTDOWN) (mt_queue st), st\<lparr>mt_queue := [], mt_done := True\<rparr>)"
| "branch_body throttle now sent_at Shutdown_Requested st =
     ([], st\<lparr>mt_drain_until := Some (now + SHUTDOWN_DRAIN_GRACE)\<rparr>)"

text \<open>After the loop.\<close>

definition task_exit :: "mail_task \<Rightarrow> task_action list \<times> mail_task" where
  "task_exit st = (case mt_batch st of None \<Rightarrow> ([], st) | Some b \<Rightarrow> ([Batch_Reported b], st\<lparr>mt_batch := None\<rparr>))"

section \<open>Runs\<close>

text \<open>
  A run with its clock; the ghost fields are all e-mail received, all actions, and the times of all
  sends, one for each recipient.
\<close>

record task_system =
  ts_task :: mail_task
  ts_now :: instant
  ts_received :: "email list"
  ts_trace :: "task_action list"
  ts_hist :: "instant list"

fun sends_of :: "instant \<Rightarrow> task_action \<Rightarrow> instant list" where
  "sends_of t (Sent_Urgent m) = replicate (send_count m) t"
| "sends_of t (Sent_Queued m) = replicate (send_count m) t"
| "sends_of t (Dropped m r) = []"
| "sends_of t (Batch_Reported b) = []"

definition received_by :: "task_event \<Rightarrow> email list" where
  "received_by ev = (case ev of Mail_Received (Some m) \<Rightarrow> [m] | _ \<Rightarrow> [])"

inductive task_step :: "throttle_config \<Rightarrow> task_system \<Rightarrow> task_system \<Rightarrow> bool" for throttle where
  iterate: "\<not> finished (ts_task s) \<Longrightarrow> ts_now s \<le> now \<Longrightarrow> now \<le> t \<Longrightarrow> t \<le> sent_at \<Longrightarrow>
    loop_top now (ts_task s) = (release_at, st) \<Longrightarrow> branch_ready throttle now t release_at st ev \<Longrightarrow>
    branch_body throttle t sent_at ev st = (acts, st') \<Longrightarrow>
    task_step throttle s \<lparr>ts_task = st', ts_now = sent_at, ts_received = ts_received s @ received_by ev,
      ts_trace = ts_trace s @ acts, ts_hist = ts_hist s @ concat (map (sends_of t) acts)\<rparr>"

definition task_start :: "throttle_config \<Rightarrow> instant \<Rightarrow> task_system" where
  "task_start throttle now = \<lparr>ts_task = task_new throttle, ts_now = now, ts_received = [], ts_trace = [], ts_hist = []\<rparr>"

inductive task_reachable :: "throttle_config \<Rightarrow> instant \<Rightarrow> task_system \<Rightarrow> bool" for throttle now where
  init: "task_reachable throttle now (task_start throttle now)"
| step: "task_reachable throttle now s \<Longrightarrow> task_step throttle s s' \<Longrightarrow> task_reachable throttle now s'"

section \<open>The queue\<close>

text \<open>The e-mail that left the queue, in order.\<close>

fun left_queue :: "task_action \<Rightarrow> email list" where
  "left_queue (Sent_Queued m) = [m]"
| "left_queue (Dropped m r) = [m]"
| "left_queue a = []"

fun sent_urgent :: "task_action \<Rightarrow> email list" where
  "sent_urgent (Sent_Urgent m) = [m]"
| "sent_urgent a = []"

lemma loop_top_queue:
  "loop_top now st = (r, st1) \<Longrightarrow> mt_queue st1 = mt_queue st \<and> mt_batch st1 = mt_batch st
     \<and> mt_drain_until st1 = mt_drain_until st \<and> mt_done st1 = mt_done st"
  by (auto simp: loop_top_def Let_def split: list.splits prod.splits)

lemma drained_actions [simp]:
  "concat (map (left_queue \<circ> (\<lambda>q. Dropped (qe_mail q) r)) qs) = map qe_mail qs"
  "concat (map (sent_urgent \<circ> (\<lambda>q. Dropped (qe_mail q) r)) qs) = []"
  "concat (map (sends_of t \<circ> (\<lambda>q. Dropped (qe_mail q) r)) qs) = []"
  by (induction qs) auto

lemma branch_body_queue:
  assumes "branch_body throttle t sent_at ev st = (acts, st')"
  shows "map qe_mail (mt_queue st) @ filter (\<lambda>m. \<not> is_urgent m) (received_by ev)
      = concat (map left_queue acts) @ map qe_mail (mt_queue st')"
    and "concat (map sent_urgent acts) = filter is_urgent (received_by ev)"
    and "length (mt_queue st) \<le> max 1 (max_queued throttle) \<Longrightarrow> length (mt_queue st') \<le> max 1 (max_queued throttle)"
proof -
  show "map qe_mail (mt_queue st) @ filter (\<lambda>m. \<not> is_urgent m) (received_by ev)
      = concat (map left_queue acts) @ map qe_mail (mt_queue st')"
    using assms by (cases "(throttle, t, sent_at, ev, st)" rule: branch_body.cases)
      (auto simp: received_by_def queue_mail_def Let_def split: if_splits list.splits option.splits)
  show "concat (map sent_urgent acts) = filter is_urgent (received_by ev)"
    using assms by (cases "(throttle, t, sent_at, ev, st)" rule: branch_body.cases)
      (auto simp: received_by_def queue_mail_def Let_def split: if_splits list.splits option.splits)
  show "length (mt_queue st) \<le> max 1 (max_queued throttle) \<Longrightarrow> length (mt_queue st') \<le> max 1 (max_queued throttle)"
    using assms by (cases "(throttle, t, sent_at, ev, st)" rule: branch_body.cases)
      (auto simp: received_by_def queue_mail_def Let_def split: if_splits list.splits option.splits)
qed

lemma queue_accounting:
  assumes "task_reachable throttle start s"
  shows "filter (\<lambda>m. \<not> is_urgent m) (ts_received s)
      = concat (map left_queue (ts_trace s)) @ map qe_mail (mt_queue (ts_task s))
    \<and> concat (map sent_urgent (ts_trace s)) = filter is_urgent (ts_received s)
    \<and> length (mt_queue (ts_task s)) \<le> max 1 (max_queued throttle)"
  using assms
proof induction
  case (step s s')
  from step.hyps(2) show ?case
  proof cases
    case (iterate now t sent_at release_at st ev acts st')
    have q: "mt_queue st = mt_queue (ts_task s)" using loop_top_queue [OF iterate(6)] by simp
    note b = branch_body_queue [OF iterate(8)]
    have "concat (map left_queue (ts_trace s)) @ map qe_mail (mt_queue st) @ filter (\<lambda>m. \<not> is_urgent m) (received_by ev)
        = concat (map left_queue (ts_trace s)) @ concat (map left_queue acts) @ map qe_mail (mt_queue st')"
      using b(1) by simp
    then show ?thesis unfolding iterate(1) using step.IH b(2,3) q by simp
  qed
qed (simp add: task_start_def task_new_def)

section \<open>The limiter\<close>

text \<open>What a step does to the limiter: it records exactly the sends of the step.\<close>

lemma branch_body_limiter:
  assumes "branch_body throttle t sent_at ev st = (acts, st')"
  shows "mt_limiter st' = mt_limiter st \<and> concat (map (sends_of t) acts) = []
    \<or> (\<exists>count. mt_limiter st' = rl_record t count (mt_limiter st) \<and> concat (map (sends_of t) acts) = replicate count t)"
  using assms by (cases "(throttle, t, sent_at, ev, st)" rule: branch_body.cases)
    (auto simp: queue_mail_def Let_def split: if_splits list.splits option.splits)

lemma record_config [simp]: "rl_config (rl_record t count l) = rl_config l"
  by (simp add: rl_record_def Let_def)

lemma loop_top_limiter:
  assumes tr: "tracks hist now (mt_limiter st)" and lt: "loop_top now st = (r, st1)"
  shows "tracks hist now (mt_limiter st1)" and "rl_config (mt_limiter st1) = rl_config (mt_limiter st)"
    and "r = Some None \<Longrightarrow> mt_queue st = q # qs \<Longrightarrow> fits (rl_config (mt_limiter st)) hist (send_count (qe_mail q)) now"
    and "r = Some (Some d) \<Longrightarrow> mt_queue st = q # qs \<Longrightarrow>
      fits (rl_config (mt_limiter st)) hist (send_count (qe_mail q)) d"
proof -
  have "(case mt_queue st of [] \<Rightarrow> r = None \<and> mt_limiter st1 = mt_limiter st
      | q # _ \<Rightarrow> (\<exists>x. r = Some x \<and> next_allowed now (send_count (qe_mail q)) (mt_limiter st) = (x, mt_limiter st1)))"
    using lt by (auto simp: loop_top_def Let_def split: list.splits prod.splits)
  note c = this
  have "mt_limiter st1 = mt_limiter st \<or> mt_limiter st1 = prune now (mt_limiter st)"
    using c next_allowed_result(1) [OF tr] by (auto split: list.splits)
  then show "tracks hist now (mt_limiter st1)" and "rl_config (mt_limiter st1) = rl_config (mt_limiter st)"
    using tr prune_tracks [OF tr] by auto
  show "fits (rl_config (mt_limiter st)) hist (send_count (qe_mail q)) now" if "r = Some None" "mt_queue st = q # qs"
    using c that next_allowed_result(2) [OF tr] by auto
  show "fits (rl_config (mt_limiter st)) hist (send_count (qe_mail q)) d" if "r = Some (Some d)" "mt_queue st = q # qs"
    using c that next_allowed_result(3) [OF tr] by auto
qed

text \<open>The times of all sends are known to the limiter as far as they still count.\<close>

definition task_inv :: "throttle_config \<Rightarrow> task_system \<Rightarrow> bool" where
  "task_inv throttle s \<longleftrightarrow> tracks (ts_hist s) (ts_now s) (mt_limiter (ts_task s))
     \<and> rl_config (mt_limiter (ts_task s)) = throttle"

lemma task_step_inv:
  assumes "task_step throttle s s'" and "task_inv throttle s" shows "task_inv throttle s'"
  using assms(1)
proof cases
  case (iterate now t sent_at release_at st ev acts st')
  have tr: "tracks (ts_hist s) now (mt_limiter (ts_task s))"
    using tracks_mono iterate(3) assms(2) by (auto simp: task_inv_def)
  note lt = loop_top_limiter(1,2) [OF tr iterate(6)]
  have "tracks (ts_hist s @ concat (map (sends_of t) acts)) t (mt_limiter st') \<and> rl_config (mt_limiter st') = throttle"
    using branch_body_limiter [OF iterate(8)]
  proof (elim disjE exE conjE)
    assume c: "mt_limiter st' = mt_limiter st" "concat (map (sends_of t) acts) = []"
    show ?thesis unfolding c using tracks_mono [OF lt(1) iterate(4)] lt(2) assms(2) by (simp add: task_inv_def)
  next
    fix count assume c: "mt_limiter st' = rl_record t count (mt_limiter st)" "concat (map (sends_of t) acts) = replicate count t"
    show ?thesis unfolding c using record_tracks [OF lt(1) iterate(4)] lt(2) assms(2) by (simp add: task_inv_def)
  qed
  then show ?thesis unfolding iterate(1) using tracks_mono iterate(5) by (auto simp: task_inv_def)
qed

lemma task_reachable_inv:
  assumes "task_reachable throttle now s" shows "task_inv throttle s"
  using assms
proof induction
  case init
  have "rl_config (rate_limiter_new throttle) = throttle" by (simp add: rate_limiter_new_def)
  then show ?case using tracks_new by (simp add: task_inv_def task_start_def task_new_def)
qed (rule task_step_inv)

text \<open>An e-mail that is released from the queue fits the limits at that time.\<close>

lemma released_fits:
  assumes inv: "task_inv throttle s" and now: "ts_now s \<le> now" "now \<le> t"
    and lt: "loop_top now (ts_task s) = (release_at, st)" and rdy: "branch_ready throttle now t release_at st Release"
    and q: "mt_queue st = q # qs"
  shows "fits throttle (ts_hist s) (send_count (qe_mail q)) t"
proof -
  have tr: "tracks (ts_hist s) now (mt_limiter (ts_task s))" and cfg: "rl_config (mt_limiter (ts_task s)) = throttle"
    using tracks_mono now(1) inv by (auto simp: task_inv_def)
  have q0: "mt_queue (ts_task s) = q # qs" using loop_top_queue [OF lt] q by simp
  note l = loop_top_limiter(3,4) [OF tr lt]
  consider "release_at = Some None" | d where "release_at = Some (Some d)" "d \<le> t"
    using rdy by (auto split: option.splits)
  then show ?thesis
  proof cases
    case 1
    then show ?thesis using l(1) [OF _ q0] cfg fits_mono [OF now(2)] by simp
  next
    case 2
    then show ?thesis using l(2) [OF _ q0] cfg fits_mono [OF 2(2)] by simp
  qed
qed

end
