(* ===== verification/Mail_Theorems.thy ===== *)
theory Mail_Theorems
  imports Mail_Task
begin

text \<open>
  The properties of the e-mail throttle, with a concrete run: limits of one e-mail per minute and
  two per hour; one e-mail is received and sent, and the next one has to wait for a minute.
\<close>

section \<open>A concrete run\<close>

definition ex_throttle :: throttle_config where
  "ex_throttle = \<lparr>per_minute = 1, per_hour = 2, per_day = 10, max_queued = 4\<rparr>"

definition ex_mail :: email where
  "ex_mail = non_urgent (email_new [''a@example.org''] ''report'' ''text'' ''logo.png'')"

definition ex_task1 :: mail_task where
  "ex_task1 = snd (branch_body ex_throttle 10 10 (Mail_Received (Some ex_mail)) (task_new ex_throttle))"

definition ex_task2 :: mail_task where
  "ex_task2 = snd (branch_body ex_throttle 20 20 Release (snd (loop_top 20 ex_task1)))"

definition ex_mail_run :: task_system where
  "ex_mail_run = \<lparr>ts_task = ex_task2, ts_now = 20, ts_received = [ex_mail], ts_trace = [Sent_Queued ex_mail], ts_hist = [20]\<rparr>"

lemma ex_mail_eqs:
  "ex_task1 = \<lparr>mt_limiter = \<lparr>rl_config = ex_throttle, rl_sends = []\<rparr>, mt_queue = [\<lparr>qe_mail = ex_mail, qe_queued_at = 10\<rparr>],
     mt_batch = Some \<lparr>started_at = 10, last_sent_at = 10, batch_sent = 0\<rparr>, mt_drain_until = None,
     mt_eligible_since = None, mt_done = False\<rparr>"
  "\<not> is_urgent ex_mail" "send_count ex_mail = 1"
  by (simp_all add: ex_task1_def ex_mail_def is_urgent_def non_urgent_def email_new_def send_count_def queue_mail_def
      task_new_def rate_limiter_new_def ex_throttle_def Let_def)

lemma ex_loop_top:
  "loop_top 20 ex_task1 = (Some None, ex_task1\<lparr>mt_eligible_since := Some 20\<rparr>)"
  by (simp add: ex_mail_eqs loop_top_def next_allowed_def prune_def checked_sub_def window_release_def Let_def
      ex_throttle_def MINUTE_def HOUR_def DAY_def from_secs_def)

lemma ex_mail_reachable: "task_reachable ex_throttle 0 ex_mail_run"
proof -
  let ?s0 = "task_start ex_throttle 0"
  let ?s1 = "\<lparr>ts_task = ex_task1, ts_now = 10, ts_received = [ex_mail], ts_trace = [], ts_hist = []\<rparr>"
  have s0: "ts_task ?s0 = task_new ex_throttle" by (simp add: task_start_def)
  have a: "\<not> finished (ts_task ?s0)" "ts_now ?s0 \<le> 10" by (simp_all add: task_start_def finished_def task_new_def)
  have b: "loop_top 10 (ts_task ?s0) = (None, task_new ex_throttle)" by (simp add: s0 loop_top_def task_new_def)
  have c: "branch_ready ex_throttle 10 10 None (task_new ex_throttle) (Mail_Received (Some ex_mail))"
    by (simp add: task_new_def starving_def)
  have d: "branch_body ex_throttle 10 10 (Mail_Received (Some ex_mail)) (task_new ex_throttle) = ([], ex_task1)"
    by (simp add: ex_mail_eqs queue_mail_def task_new_def rate_limiter_new_def ex_throttle_def Let_def)
  have "task_step ex_throttle ?s0 ?s1"
    using task_step.iterate [OF a order_refl order_refl b c d] by (simp add: task_start_def received_by_def)
  note r1 = task_reachable.step [OF task_reachable.init this]
  have e: "\<not> finished (ts_task ?s1)" "ts_now ?s1 \<le> 20" by (simp_all add: finished_def ex_mail_eqs)
  have f: "loop_top 20 (ts_task ?s1) = (Some None, ex_task1\<lparr>mt_eligible_since := Some 20\<rparr>)" using ex_loop_top by simp
  have g: "branch_ready ex_throttle 20 20 (Some None) (ex_task1\<lparr>mt_eligible_since := Some 20\<rparr>) Release" by simp
  have h: "branch_body ex_throttle 20 20 Release (ex_task1\<lparr>mt_eligible_since := Some 20\<rparr>) = ([Sent_Queued ex_mail], ex_task2)"
    unfolding ex_task2_def ex_loop_top by (simp add: ex_mail_eqs)
  have "task_step ex_throttle ?s1 ex_mail_run"
    using task_step.iterate [OF e order_refl order_refl f g h]
    by (simp add: ex_mail_run_def received_by_def ex_mail_eqs)
  from task_reachable.step [OF r1 this] show ?thesis .
qed

section \<open>Properties\<close>

text \<open>
  C37. \<open>next_allowed\<close> answers exactly what it is asked: given a limiter that knows the sends of a history
  that still count, \<open>None\<close> means that \<open>count\<close> more sends fit now in the windows of a minute, an hour and
  a day, or find a window empty that is too small for them; and an instant it returns is the earliest
  one at which they fit.
\<close>

theorem next_allowed_earliest:
  assumes "tracks hist now l"
  shows "case fst (next_allowed now count l) of
      None \<Rightarrow> fits (rl_config l) hist count now
    | Some t \<Rightarrow> now < t \<and> fits (rl_config l) hist count t
        \<and> (\<forall>t'. now \<le> t' \<and> t' < t \<longrightarrow> \<not> fits (rl_config l) hist count t')"
  using next_allowed_result(2,3) [OF assms prod.collapse [symmetric]] by (simp split: option.splits)

theorem next_allowed_earliest_witness:
  "fits ex_throttle [20] 1 (20 + MINUTE) \<and> \<not> fits ex_throttle [20] 1 (19 + MINUTE)"
proof -
  define l where "l = \<lparr>rl_config = ex_throttle, rl_sends = [20]\<rparr>"
  have tr: "tracks [20] 30 l" by (simp add: tracks_def l_def)
  have na: "fst (next_allowed 30 1 l) = Some (20 + MINUTE)"
    by (simp add: l_def next_allowed_def prune_def checked_sub_def window_release_def Let_def
      ex_throttle_def MINUTE_def HOUR_def DAY_def from_secs_def)
  have "30 \<le> 19 + MINUTE" by (simp add: MINUTE_def from_secs_def)
  then show ?thesis using next_allowed_earliest [OF tr, of 1] na by (simp add: l_def)
qed

text \<open>
  C15. The limits are never exceeded: as long as no urgent e-mail was received and no e-mail has more
  recipients than a limit, in every state that the task can reach, no window of a minute, an hour or
  a day, wherever it lies, contains more sends than its limit, counting every recipient.
\<close>

theorem mail_limits_hold:
  assumes "task_reachable throttle start s"
    and "\<forall>m \<in> set (ts_received s). \<not> is_urgent m \<and> (\<forall>wl \<in> set (windows throttle). send_count m \<le> snd wl)"
    and "(w, limit) \<in> set (windows throttle)"
  shows "length (filter (\<lambda>ts. ts \<le> t \<and> t < ts + w) (ts_hist s)) \<le> limit"
  using assms(1,2)
proof (induction arbitrary: t)
  case (step s s')
  note inv = task_reachable_inv [OF step.hyps(1)]
  from step.hyps(2) show ?case
  proof cases
    case (iterate now t1 sent_at release_at st ev acts st')
    have small: "\<forall>m \<in> set (ts_received s @ received_by ev). \<not> is_urgent m \<and> (\<forall>wl \<in> set (windows throttle). send_count m \<le> snd wl)"
      using step.prems iterate(1) by simp
    then have IH: "length (filter (\<lambda>ts. ts \<le> t \<and> t < ts + w) (ts_hist s)) \<le> limit" for t using step.IH by simp
    show ?thesis
    proof (cases "concat (map (sends_of t1) acts) = []")
      case True
      then have "ts_hist s' = ts_hist s" using iterate(1) by (simp del: concat_eq_Nil_conv)
      then show ?thesis using IH by simp
    next
      case False
      have "ev = Release \<and> (\<exists>q qs. mt_queue st = q # qs \<and> acts = [Sent_Queued (qe_mail q)])"
        using False small iterate(8)
        by (cases "(throttle, t1, sent_at, ev, st)" rule: branch_body.cases)
          (auto simp: received_by_def queue_mail_def Let_def split: if_splits list.splits option.splits)
      then obtain q qs where q: "ev = Release" "mt_queue st = q # qs" "acts = [Sent_Queued (qe_mail q)]" by blast
      have "fits throttle (ts_hist s) (send_count (qe_mail q)) t1"
        using released_fits [OF inv iterate(3,4,6) _ q(2)] iterate(7) q(1) by simp
      then have fit: "in_window (ts_hist s) w t1 + send_count (qe_mail q) \<le> limit \<or> in_window (ts_hist s) w t1 = 0"
        using assms(3) by (auto simp: fits_def fits_window_def list_all_iff)
      have "qe_mail q \<in> set (filter (\<lambda>m. \<not> is_urgent m) (ts_received s))"
        using queue_accounting [OF step.hyps(1)] loop_top_queue [OF iterate(6)] q(2) by (metis Un_iff list.set_intros(1) list.simps(9) set_append)
      then have "send_count (qe_mail q) \<le> limit" using small assms(3) by fastforce
      then have room: "in_window (ts_hist s) w t1 + send_count (qe_mail q) \<le> limit" using fit by auto
      have hist: "ts_hist s' = ts_hist s @ replicate (send_count (qe_mail q)) t1" using iterate(1) q(3) by simp
      show ?thesis
      proof (cases "t < t1")
        case True
        then show ?thesis using IH [of t] by (simp add: hist)
      next
        case False
        have "length (filter (\<lambda>ts. ts \<le> t \<and> t < ts + w) (ts_hist s')) \<le> in_window (ts_hist s') w t"
          by (rule in_window_span)
        also have "\<dots> \<le> in_window (ts_hist s') w t1" using False by (intro in_window_mono) simp
        also have "\<dots> \<le> in_window (ts_hist s) w t1 + send_count (qe_mail q)"
          unfolding hist in_window_append by (simp add: in_window_def le_trans [OF length_filter_le])
        finally show ?thesis using room by simp
      qed
    qed
  qed
qed (simp add: task_start_def)

theorem mail_limits_hold_witness:
  "length (filter (\<lambda>ts. ts \<le> 20 \<and> 20 < ts + MINUTE) (ts_hist ex_mail_run)) \<le> 1"
proof -
  have "(MINUTE, 1) \<in> set (windows ex_throttle)" by (simp add: windows_def ex_throttle_def)
  moreover have "\<forall>m \<in> set (ts_received ex_mail_run). \<not> is_urgent m \<and> (\<forall>wl \<in> set (windows ex_throttle). send_count m \<le> snd wl)"
    by (simp add: ex_mail_run_def ex_mail_eqs windows_def ex_throttle_def)
  ultimately show ?thesis using mail_limits_hold [OF ex_mail_reachable] by blast
qed

text \<open>
  C16. The queue is a bounded first-in first-out queue: in every state that the task can reach, the
  e-mail received that is not urgent is, in this order, what has left the queue, sent or dropped,
  followed by what is queued; urgent e-mail was sent at once, in the order it was received; and the
  queue is never longer than configured (but holds one e-mail even if configured for none).
\<close>

theorem mail_queue_fifo:
  assumes "task_reachable throttle start s"
  shows "filter (\<lambda>m. \<not> is_urgent m) (ts_received s)
      = concat (map left_queue (ts_trace s)) @ map qe_mail (mt_queue (ts_task s))
    \<and> concat (map sent_urgent (ts_trace s)) = filter is_urgent (ts_received s)
    \<and> length (mt_queue (ts_task s)) \<le> max 1 (max_queued throttle)"
  by (rule queue_accounting [OF assms])

theorem mail_queue_fifo_witness:
  "filter (\<lambda>m. \<not> is_urgent m) [ex_mail] = [ex_mail] @ map qe_mail (mt_queue ex_task2)"
  using mail_queue_fifo [OF ex_mail_reachable] by (simp add: ex_mail_run_def)

end
