(* ===== verification/Spi_Flash.thy ===== *)
theory Spi_Flash
  imports Nor_Flash
begin

text \<open>
  The driver of SPI flash chips, \<open>drivers/spi_flash.rs\<close>, the flash behind the storage stack on the
  device. It is generic over the SPI bus (trait \<open>SpiDevice\<close> of the crate \<open>embedded_hal_async\<close>), here
  the record \<open>spi_device\<close>: a transaction is a list of operations, which returns the bytes of its
  reads or an error; the passing of time is an operation of the device too, since a chip that is
  busy becomes ready.
\<close>

section \<open>The bus\<close>

datatype spi_op = Op_Write bytes | Op_Read nat

record 'd spi_device =
  spi_transaction :: "spi_op list \<Rightarrow> ('d, bytes list, unit) action"
  spi_delay_us :: "nat \<Rightarrow> 'd \<Rightarrow> 'd"

section \<open>Descriptors\<close>

record flash_descriptor =
  fd_page_size :: nat
  fd_erase_size :: nat
  fd_total_size :: nat
  fd_program_timeout_us :: u32
  fd_erase_timeout_us :: u32
  fd_sleep_timeout_us :: u32

datatype descriptor_error =
    PageSizeInvalid
  | EraseSizeNotMultipleOfPage
  | TotalSizeNotMultipleOfErase
  | EraseSizeNotMultipleMaxEraseSize

text \<open>\<open>is_multiple_of\<close>: only zero is a multiple of zero.\<close>

definition is_power_of_two :: "nat \<Rightarrow> bool" where
  "is_power_of_two n \<longleftrightarrow> list_ex (\<lambda>k. n = 2 ^ k) [0..<32]"

definition descriptor_validate :: "nat \<Rightarrow> flash_descriptor \<Rightarrow> (flash_descriptor, descriptor_error) result" where
  "descriptor_validate MAX_ERASE_SIZE d =
     (if fd_page_size d < 1 \<or> \<not> is_power_of_two (fd_page_size d) then Err PageSizeInvalid
      else if \<not> fd_page_size d dvd fd_erase_size d then Err EraseSizeNotMultipleOfPage
      else if \<not> fd_erase_size d dvd fd_total_size d then Err TotalSizeNotMultipleOfErase
      else if \<not> fd_erase_size d dvd MAX_ERASE_SIZE then Err EraseSizeNotMultipleMaxEraseSize
      else Ok d)"

datatype manufacturer = InfineonCypress | WinBondNexcom

definition manufacturer_try_from :: "u8 \<Rightarrow> manufacturer option" where
  "manufacturer_try_from b = (if b = 0x01 then Some InfineonCypress else if b = 0xEF then Some WinBondNexcom else None)"

datatype spi_error = SE_UnSupported | SE_SizeMismatch | SE_SPI | SE_OutOfBounds | SE_Alignment | SE_Write | SE_Timeout

fun spi_error_kind :: "spi_error \<Rightarrow> nor_flash_error_kind" where
  "spi_error_kind SE_UnSupported = OtherKind"
| "spi_error_kind SE_SizeMismatch = OtherKind"
| "spi_error_kind SE_SPI = OtherKind"
| "spi_error_kind SE_OutOfBounds = OutOfBounds"
| "spi_error_kind SE_Alignment = NotAligned"
| "spi_error_kind SE_Write = OtherKind"
| "spi_error_kind SE_Timeout = OtherKind"

definition status_is_busy :: "u8 \<Rightarrow> bool" where
  "status_is_busy bits = bit bits 0"

definition status_is_write_enable_set :: "u8 \<Rightarrow> bool" where
  "status_is_write_enable_set bits = bit bits 1"

datatype addr_mode = B24 | B32

section \<open>Commands\<close>

datatype command =
    Wakeup | Sleep | PowerDown | ReadJEDEC | ReadStatus | WriteStatus | Enter4ByteMode | ReadData
  | WriteEnable | WriteDisable | EraseSector | EraseSector4B | ProgramPage

fun command_byte :: "command \<Rightarrow> u8" where
  "command_byte Wakeup = 0xAB"
| "command_byte Sleep = 0xB9"
| "command_byte PowerDown = 0x79"
| "command_byte ReadJEDEC = 0x9F"
| "command_byte ReadStatus = 0x05"
| "command_byte WriteStatus = 0x01"
| "command_byte Enter4ByteMode = 0xB7"
| "command_byte ReadData = 0x03"
| "command_byte WriteEnable = 0x06"
| "command_byte WriteDisable = 0x04"
| "command_byte EraseSector = 0x20"
| "command_byte EraseSector4B = 0x21"
| "command_byte ProgramPage = 0x02"

definition to_be_bytes :: "u32 \<Rightarrow> bytes" where
  "to_be_bytes w = rev (u32_to_le w)"

definition cmd_and_addr :: "command \<Rightarrow> u32 \<Rightarrow> addr_mode \<Rightarrow> bytes" where
  "cmd_and_addr cmd addr mode = (case mode of
       B24 \<Rightarrow> command_byte cmd # tl (to_be_bytes addr)
     | B32 \<Rightarrow> command_byte cmd # to_be_bytes addr)"

definition bounds_check :: "u32 \<Rightarrow> nat \<Rightarrow> u32 \<Rightarrow> nat \<Rightarrow> (u32, spi_error) result" where
  "bounds_check address len min_addr max_len =
     (if address < min_addr then Err SE_OutOfBounds
      else if len > max_len then Err SE_OutOfBounds
      else if address - min_addr > of_nat (max_len - len) then Err SE_OutOfBounds
      else Ok address)"

section \<open>LowlevelFlash\<close>

definition bus :: "'d spi_device \<Rightarrow> spi_op list \<Rightarrow> ('d, bytes list, spi_error) action" where
  "bus SPI ops = map_err (\<lambda>_. SE_SPI) (spi_transaction SPI ops)"

definition delay_us :: "'d spi_device \<Rightarrow> nat \<Rightarrow> ('d, unit, spi_error) action" where
  "delay_us SPI t d = (Ok (), spi_delay_us SPI t d)"

definition send_command :: "'d spi_device \<Rightarrow> command \<Rightarrow> ('d, unit, spi_error) action" where
  "send_command SPI cmd = and_then (bus SPI [Op_Write [command_byte cmd]]) (\<lambda>_. ret ())"

definition read_reg :: "'d spi_device \<Rightarrow> command \<Rightarrow> nat \<Rightarrow> ('d, bytes, spi_error) action" where
  "read_reg SPI cmd n = and_then (bus SPI [Op_Write [command_byte cmd], Op_Read n]) (\<lambda>rs. ret (concat rs))"

definition flash_status :: "'d spi_device \<Rightarrow> ('d, u8, spi_error) action" where
  "flash_status SPI = and_then (read_reg SPI ReadStatus 1) (\<lambda>bs. ret (hd bs))"

fun is_ready_loop :: "'d spi_device \<Rightarrow> nat \<Rightarrow> nat \<Rightarrow> ('d, unit, spi_error) action" where
  "is_ready_loop SPI step 0 = throw SE_Timeout"
| "is_ready_loop SPI step (Suc n) =
     and_then (flash_status SPI) (\<lambda>st.
       if \<not> status_is_busy st then ret ()
       else and_then (delay_us SPI step) (\<lambda>_. is_ready_loop SPI step n))"

definition is_ready :: "'d spi_device \<Rightarrow> u32 \<Rightarrow> ('d, unit, spi_error) action" where
  "is_ready SPI timeout_us = is_ready_loop SPI (unat (timeout_us div 10)) 10"

definition write_enable :: "'d spi_device \<Rightarrow> ('d, unit, spi_error) action" where
  "write_enable SPI =
     and_then (send_command SPI WriteEnable) (\<lambda>_.
     and_then (flash_status SPI) (\<lambda>st. if status_is_write_enable_set st then ret () else throw SE_Write))"

definition program_page :: "'d spi_device \<Rightarrow> u32 \<Rightarrow> bytes \<Rightarrow> bytes \<Rightarrow> ('d, unit, spi_error) action" where
  "program_page SPI timeout_us cmd_addr bs =
     and_then (write_enable SPI) (\<lambda>_.
     and_then (bus SPI [Op_Write cmd_addr, Op_Write bs]) (\<lambda>_. is_ready SPI timeout_us))"

section \<open>SPIFlash\<close>

record spi_stats =
  st_read_bytes :: u32
  st_read_attempts :: u32
  st_reads :: u32
  st_erase_attempts :: u32

definition stats_default :: spi_stats where
  "stats_default = \<lparr>st_read_bytes = 0, st_read_attempts = 0, st_reads = 0, st_erase_attempts = 0\<rparr>"

text \<open>The field \<open>flash: Sleepy\<close> of the code is flattened into \<open>sf_device\<close>, \<open>sf_awake\<close> and \<open>sf_sleep_delay_us\<close>.\<close>

record 'd spi_flash =
  sf_device :: 'd
  sf_awake :: bool
  sf_sleep_delay_us :: u32
  sf_cfg :: flash_descriptor
  sf_mode :: addr_mode
  sf_stats :: spi_stats

definition spi_flash_new :: "'d \<Rightarrow> flash_descriptor \<Rightarrow> 'd spi_flash" where
  "spi_flash_new spi_dev descriptor =
     \<lparr>sf_device = spi_dev, sf_awake = False, sf_sleep_delay_us = fd_sleep_timeout_us descriptor,
      sf_cfg = descriptor, sf_mode = B24, sf_stats = stats_default\<rparr>"

definition on_device :: "('d, 'a, 'e) action \<Rightarrow> ('d spi_flash, 'a, 'e) action" where
  "on_device m f = (case m (sf_device f) of (r, d) \<Rightarrow> (r, f\<lparr>sf_device := d\<rparr>))"

fun sleep_attempts :: "'d spi_device \<Rightarrow> nat \<Rightarrow> 'd \<Rightarrow> 'd" where
  "sleep_attempts SPI 0 d = d"
| "sleep_attempts SPI (Suc n) d = (case send_command SPI Sleep d of
       (Ok _, d') \<Rightarrow> d'
     | (Err _, d') \<Rightarrow> sleep_attempts SPI n d')"

definition flash_sleep :: "'d spi_device \<Rightarrow> 'd spi_flash \<Rightarrow> 'd spi_flash" where
  "flash_sleep SPI f = f\<lparr>sf_awake := False, sf_device := sleep_attempts SPI 2 (sf_device f)\<rparr>"

text \<open>The retry loop of \<open>wakeup\<close>: five attempts, each after a delay.\<close>

fun wakeup_attempts :: "'d spi_device \<Rightarrow> u32 \<Rightarrow> nat \<Rightarrow> ('d, unit, spi_error) action" where
  "wakeup_attempts SPI sleep_delay 0 = throw SE_SPI"
| "wakeup_attempts SPI sleep_delay (Suc n) =
     and_then (delay_us SPI (unat sleep_delay)) (\<lambda>_.
     attempt (send_command SPI Wakeup) (\<lambda>r. case r of
         Ok _ \<Rightarrow> ret ()
       | Err error \<Rightarrow> if n = 0 then throw error else wakeup_attempts SPI sleep_delay n))"

definition wakeup :: "'d spi_device \<Rightarrow> ('d spi_flash, unit, spi_error) action" where
  "wakeup SPI f =
     (if sf_awake f then (Ok (), f)
      else (case wakeup_attempts SPI (sf_sleep_delay_us f) 5 (sf_device f) of
              (Err error, d) \<Rightarrow> (Err error, flash_sleep SPI (f\<lparr>sf_device := d\<rparr>))
            | (Ok _, d) \<Rightarrow>
                (Ok (), f\<lparr>sf_device := spi_delay_us SPI (unat (sf_sleep_delay_us f)) d, sf_awake := True\<rparr>)))"

text \<open>An error that puts the chip to sleep before it is returned.\<close>

definition sleep_and_throw :: "'d spi_device \<Rightarrow> 'e \<Rightarrow> ('d spi_flash, 'a, 'e) action" where
  "sleep_and_throw SPI e f = (Err e, flash_sleep SPI f)"

definition enter_4_byte_mode :: "'d spi_device \<Rightarrow> ('d spi_flash, unit, spi_error) action" where
  "enter_4_byte_mode SPI =
     and_then (wakeup SPI) (\<lambda>_.
     attempt (on_device (send_command SPI Enter4ByteMode)) (\<lambda>r. case r of
         Err err \<Rightarrow> sleep_and_throw SPI err
       | Ok _ \<Rightarrow> (\<lambda>f. (Ok (), f\<lparr>sf_mode := B32\<rparr>))))"

definition above_16mb :: "nat \<Rightarrow> bool" where
  "above_16mb n \<longleftrightarrow> n > 0x1000000"

lemma above_16mb_code [code]: "above_16mb n \<longleftrightarrow> int n > 0x1000000"
  by (simp add: above_16mb_def)

definition init_and_check_addr ::
  "'d spi_device \<Rightarrow> u32 \<Rightarrow> nat \<Rightarrow> ('d spi_flash, u32 \<times> addr_mode, spi_error) action" where
  "init_and_check_addr SPI addr len f =
     (case bounds_check addr len 0 (fd_total_size (sf_cfg f)) of
        Err e \<Rightarrow> (Err e, f)
      | Ok a \<Rightarrow>
          and_then (if sf_mode f = B24 \<and> above_16mb (fd_total_size (sf_cfg f)) then enter_4_byte_mode SPI else ret ()) (\<lambda>_.
          and_then (wakeup SPI) (\<lambda>_ f'. (Ok (a, sf_mode f'), f'))) f)"

definition count_read_attempt :: "'d spi_flash \<Rightarrow> 'd spi_flash" where
  "count_read_attempt f =
     (let s = (if st_read_attempts (sf_stats f) mod 2048 = 0 then stats_default else sf_stats f)
      in f\<lparr>sf_stats := s\<lparr>st_read_attempts := st_read_attempts s + 1\<rparr>\<rparr>)"

definition count_read :: "nat \<Rightarrow> 'd spi_flash \<Rightarrow> 'd spi_flash" where
  "count_read n f =
     f\<lparr>sf_stats := (sf_stats f)\<lparr>st_read_bytes := st_read_bytes (sf_stats f) + of_nat n,
        st_reads := st_reads (sf_stats f) + 1\<rparr>\<rparr>"

definition spi_flash_read :: "'d spi_device \<Rightarrow> u32 \<Rightarrow> nat \<Rightarrow> ('d spi_flash, bytes, spi_error) action" where
  "spi_flash_read SPI address n f =
     and_then (init_and_check_addr SPI address n) (\<lambda>(addr, mode).
     attempt (on_device (bus SPI [Op_Write (cmd_and_addr ReadData addr mode), Op_Read n])) (\<lambda>result f1.
       (case result of Err e \<Rightarrow> Err e | Ok rs \<Rightarrow> Ok (concat rs), flash_sleep SPI (count_read n f1)))) (count_read_attempt f)"

fun erase_loop :: "'d spi_device \<Rightarrow> u32 \<Rightarrow> command \<Rightarrow> addr_mode \<Rightarrow> u32 list \<Rightarrow> ('d, unit, spi_error) action" where
  "erase_loop SPI timeout_us cmd mode [] = ret ()"
| "erase_loop SPI timeout_us cmd mode (a # as) =
     and_then (write_enable SPI) (\<lambda>_.
     and_then (bus SPI [Op_Write (cmd_and_addr cmd a mode)]) (\<lambda>_.
     and_then (is_ready SPI timeout_us) (\<lambda>_. erase_loop SPI timeout_us cmd mode as)))"

text \<open>\<open>(0..len).step_by(erase_size)\<close>, added to the address.\<close>

definition erase_addrs :: "u32 \<Rightarrow> nat \<Rightarrow> nat \<Rightarrow> u32 list" where
  "erase_addrs addr len erase_size = map (\<lambda>k. addr + of_nat (k * erase_size)) [0..<len div erase_size]"

definition spi_flash_erase :: "'d spi_device \<Rightarrow> u32 \<Rightarrow> nat \<Rightarrow> ('d spi_flash, u32 \<times> nat, spi_error) action" where
  "spi_flash_erase SPI address len f =
     (let erase_size = fd_erase_size (sf_cfg f);
          erase_timeout_us = fd_erase_timeout_us (sf_cfg f)
      in and_then (init_and_check_addr SPI address len) (\<lambda>(addr, mode).
           if \<not> erase_size dvd unat addr \<or> \<not> erase_size dvd len then sleep_and_throw SPI SE_Alignment
           else
             (let erase_cmd = (case mode of B24 \<Rightarrow> EraseSector | B32 \<Rightarrow> EraseSector4B)
              in attempt (on_device (erase_loop SPI erase_timeout_us erase_cmd mode (erase_addrs addr len erase_size)))
                   (\<lambda>result f1. (case result of Err e \<Rightarrow> Err e | Ok _ \<Rightarrow> Ok (addr, len), flash_sleep SPI f1))))
         (f\<lparr>sf_stats := (sf_stats f)\<lparr>st_erase_attempts := st_erase_attempts (sf_stats f) + 1\<rparr>\<rparr>))"

text \<open>
  The loop of \<open>program\<close>: each round programs up to the end of the page. The page size is not zero in
  a valid descriptor, so each round makes progress and \<open>length bs\<close> rounds suffice.
\<close>

fun program_loop :: "'d spi_device \<Rightarrow> u32 \<Rightarrow> nat \<Rightarrow> addr_mode \<Rightarrow> nat \<Rightarrow> u32 \<Rightarrow> bytes \<Rightarrow> ('d, unit, spi_error) action" where
  "program_loop SPI timeout_us program_size mode fuel block_address bs =
     (let block_max_len = program_size - unat block_address mod program_size;
          n = min (length bs) block_max_len
      in if n = 0 then ret ()
         else (case fuel of
             0 \<Rightarrow> throw SE_Timeout
           | Suc k \<Rightarrow>
               and_then (program_page SPI timeout_us (cmd_and_addr ProgramPage block_address mode) (take n bs)) (\<lambda>_.
                 program_loop SPI timeout_us program_size mode k (block_address + of_nat n) (drop n bs))))"

definition spi_flash_program :: "'d spi_device \<Rightarrow> u32 \<Rightarrow> bytes \<Rightarrow> ('d spi_flash, unit, spi_error) action" where
  "spi_flash_program SPI address bs f =
     (let page_timeout_us = fd_program_timeout_us (sf_cfg f);
          program_size = fd_page_size (sf_cfg f)
      in and_then (init_and_check_addr SPI address (length bs)) (\<lambda>(addr, mode).
           attempt (on_device (program_loop SPI page_timeout_us program_size mode (length bs) addr bs)) (\<lambda>result f1.
             (result, flash_sleep SPI f1))) f)"

definition detect_type :: "'d spi_device \<Rightarrow> ('d spi_flash, manufacturer, spi_error) action" where
  "detect_type SPI =
     and_then (wakeup SPI) (\<lambda>_.
     attempt (on_device (read_reg SPI ReadJEDEC 3)) (\<lambda>r. case r of
         Err err \<Rightarrow> sleep_and_throw SPI err
       | Ok result \<Rightarrow>
           (\<lambda>f. let density = unat (result ! 2) in
              if density > 31 then sleep_and_throw SPI SE_SizeMismatch f
              else if 2 ^ density \<noteq> fd_total_size (sf_cfg f) then sleep_and_throw SPI SE_SizeMismatch f
              else (case manufacturer_try_from (result ! 0) of
                      Some m \<Rightarrow> (Ok m, f)
                    | None \<Rightarrow> sleep_and_throw SPI SE_UnSupported f))))"

section \<open>ErasedRange and NorFlash\<close>

record erased_range =
  er_start_addr :: u32
  er_max_len :: nat

definition erased_write :: "'d spi_device \<Rightarrow> erased_range \<Rightarrow> u32 \<Rightarrow> bytes \<Rightarrow> ('d spi_flash, unit, spi_error) action" where
  "erased_write SPI er address bs =
     (case bounds_check address (length bs) (er_start_addr er) (er_max_len er) of
        Err e \<Rightarrow> throw e
      | Ok addr \<Rightarrow> spi_flash_program SPI addr bs)"

definition erased_write_relative ::
  "'d spi_device \<Rightarrow> erased_range \<Rightarrow> nat \<Rightarrow> bytes \<Rightarrow> ('d spi_flash, unit, spi_error) action" where
  "erased_write_relative SPI er relative_offset bs =
     (if relative_offset \<ge> er_max_len er then throw SE_OutOfBounds
      else erased_write SPI er (of_nat relative_offset + er_start_addr er) bs)"

text \<open>The subtraction in \<open>erase\<close> wraps in a release build.\<close>

definition spi_nor_flash :: "'d spi_device \<Rightarrow> nat \<Rightarrow> ('d spi_flash, spi_error) nor_flash" where
  "spi_nor_flash SPI MAX_ERASE_SIZE =
     \<lparr>nf_read = spi_flash_read SPI,
      nf_write = spi_flash_program SPI,
      nf_erase = (\<lambda>from to. and_then (spi_flash_erase SPI from (unat (to - from))) (\<lambda>_. ret ())),
      nf_capacity = (\<lambda>f. fd_total_size (sf_cfg f)),
      nf_erase_size = MAX_ERASE_SIZE\<rparr>"

end
