(* ===== verification/Spi_Chip.thy ===== *)
theory Spi_Chip
  imports Spi_Flash
begin

text \<open>
  What the driver relies on: the locale \<open>spi_flash_chip\<close> states how a serial NOR flash answers the
  transactions that the driver sends, as the data sheets of the supported chips document it. The
  memory of a view is what the chip holds once the operation in progress, if any, has finished; it
  accepts no read until then. A transaction that fails may or may not have reached the chip.

  The executable chip \<open>sim_chip\<close> is an instance: it has a busy time, a write enable latch that
  each program or erase clears, sleep and 4-byte mode, it wraps around inside a page, and its bus
  loses transactions (\<open>Bus_Lost\<close>) or reports an error for a transaction the chip did perform
  (\<open>Bus_Late\<close>).
\<close>

section \<open>The documented behaviour\<close>

record chip_view =
  cv_mem :: bytes
  cv_busy :: bool
  cv_wel :: bool
  cv_awake :: bool
  cv_wide :: bool

definition be_addr :: "bytes \<Rightarrow> nat" where
  "be_addr bs = foldl (\<lambda>a b. a * 256 + unat b) 0 bs"

definition addr_len :: "bool \<Rightarrow> nat" where
  "addr_len wide = (if wide then 4 else 3)"

text \<open>Nothing is written, the address mode stays, and an idle chip stays idle.\<close>

definition undisturbed :: "chip_view \<Rightarrow> chip_view \<Rightarrow> bool" where
  "undisturbed v v' \<longleftrightarrow> cv_mem v' = cv_mem v \<and> cv_wide v' = cv_wide v \<and> (\<not> cv_busy v \<longrightarrow> \<not> cv_busy v')"

definition listening :: "chip_view \<Rightarrow> bool" where
  "listening v \<longleftrightarrow> cv_awake v \<and> \<not> cv_busy v"

definition only_clears :: "bytes \<Rightarrow> bytes \<Rightarrow> bool" where
  "only_clears M M' \<longleftrightarrow> (\<forall>i < length M. M ! i AND M' ! i = M' ! i)"

definition programmed :: "nat \<Rightarrow> bytes \<Rightarrow> bytes \<Rightarrow> bytes \<Rightarrow> bool" where
  "programmed a bs M M' \<longleftrightarrow> (\<forall>i < length bs. M' ! (a + i) = M ! (a + i) AND bs ! i)"

definition erased :: "nat \<Rightarrow> nat \<Rightarrow> bytes \<Rightarrow> bool" where
  "erased a n M \<longleftrightarrow> (\<forall>i < n. M ! (a + i) = 0xFF)"

locale spi_flash_chip =
  fixes SPI :: "'d spi_device" and view :: "'d \<Rightarrow> chip_view" and page sector t_sleep :: nat
  assumes delay: "undisturbed (view d) (view (spi_delay_us SPI t d))
      \<and> (cv_awake (view d) \<longrightarrow> cv_awake (view (spi_delay_us SPI t d)))"
    and plain_command: "b \<in> {0xAB, 0xB9, 0x06} \<Longrightarrow> spi_transaction SPI [Op_Write [b]] d = (r, d') \<Longrightarrow>
      undisturbed (view d) (view d') \<and> (b \<noteq> 0xB9 \<longrightarrow> cv_awake (view d) \<longrightarrow> cv_awake (view d'))"
    and wakes_up: "t_sleep \<le> t \<Longrightarrow> t_sleep \<le> t' \<Longrightarrow>
      spi_transaction SPI [Op_Write [0xAB]] (spi_delay_us SPI t d) = (Ok rs, d') \<Longrightarrow>
      cv_awake (view (spi_delay_us SPI t' d'))"
    and wide_command: "spi_transaction SPI [Op_Write [0xB7]] d = (r, d') \<Longrightarrow>
      undisturbed (view d) (view d'\<lparr>cv_wide := cv_wide (view d)\<rparr>)
      \<and> (cv_awake (view d) \<longrightarrow> cv_awake (view d'))"
    and wide_entered: "spi_transaction SPI [Op_Write [0xB7]] d = (Ok rs, d') \<Longrightarrow> listening (view d) \<Longrightarrow>
      cv_wide (view d')"
    and register: "b \<in> {0x05, 0x9F} \<Longrightarrow> spi_transaction SPI [Op_Write [b], Op_Read n] d = (r, d') \<Longrightarrow>
      view d' = view d \<and> (\<forall>rs. r = Ok rs \<longrightarrow> (\<exists>bs. rs = [bs] \<and> length bs = n))"
    and status: "spi_transaction SPI [Op_Write [0x05], Op_Read 1] d = (Ok [[st]], d') \<Longrightarrow> cv_awake (view d) \<Longrightarrow>
      bit st 0 = cv_busy (view d) \<and> bit st 1 = cv_wel (view d)"
    and read_view: "spi_transaction SPI [Op_Write (0x03 # ab), Op_Read n] d = (r, d') \<Longrightarrow> view d' = view d"
    and read_data: "spi_transaction SPI [Op_Write (0x03 # ab), Op_Read n] d = (Ok rs, d') \<Longrightarrow>
      listening (view d) \<Longrightarrow> length ab = addr_len (cv_wide (view d)) \<Longrightarrow>
      be_addr ab + n \<le> length (cv_mem (view d)) \<Longrightarrow> rs = [seg (be_addr ab) n (cv_mem (view d))]"
    and program: "spi_transaction SPI [Op_Write (0x02 # ab), Op_Write bs] d = (r, d') \<Longrightarrow>
      listening (view d) \<Longrightarrow> cv_wel (view d) \<Longrightarrow> length ab = addr_len (cv_wide (view d)) \<Longrightarrow>
      be_addr ab mod page + length bs \<le> page \<Longrightarrow> be_addr ab + length bs \<le> length (cv_mem (view d)) \<Longrightarrow>
      cv_awake (view d') \<and> cv_wide (view d') = cv_wide (view d)
      \<and> same_outside (be_addr ab) (be_addr ab + length bs) (cv_mem (view d)) (cv_mem (view d'))
      \<and> only_clears (cv_mem (view d)) (cv_mem (view d'))
      \<and> (\<forall>rs. r = Ok rs \<longrightarrow> programmed (be_addr ab) bs (cv_mem (view d)) (cv_mem (view d')))"
    and erase_sector: "spi_transaction SPI [Op_Write (b # ab)] d = (r, d') \<Longrightarrow>
      b = 0x20 \<and> length ab = addr_len (cv_wide (view d)) \<or> b = 0x21 \<and> length ab = 4 \<Longrightarrow>
      listening (view d) \<Longrightarrow> cv_wel (view d) \<Longrightarrow>
      sector dvd be_addr ab \<Longrightarrow> be_addr ab + sector \<le> length (cv_mem (view d)) \<Longrightarrow>
      cv_awake (view d') \<and> cv_wide (view d') = cv_wide (view d)
      \<and> same_outside (be_addr ab) (be_addr ab + sector) (cv_mem (view d)) (cv_mem (view d'))
      \<and> (\<forall>rs. r = Ok rs \<longrightarrow> erased (be_addr ab) sector (cv_mem (view d')))"

section \<open>A simulated chip\<close>

datatype bus_fault = Bus_Good | Bus_Lost | Bus_Late

record sim_chip =
  sc_mem :: bytes
  sc_busy_us :: nat
  sc_wel :: bool
  sc_awake :: bool
  sc_wide :: bool
  sc_program_us :: nat
  sc_erase_us :: nat
  sc_id :: bytes
  sc_faults :: "bus_fault list"

definition sim_listening :: "sim_chip \<Rightarrow> bool" where
  "sim_listening c \<longleftrightarrow> sc_awake c \<and> sc_busy_us c = 0"

definition sim_command :: "u8 \<Rightarrow> sim_chip \<Rightarrow> sim_chip" where
  "sim_command b c =
     (if \<not> sc_awake c then (if b = 0xAB then c\<lparr>sc_awake := True\<rparr> else c)
      else if sc_busy_us c > 0 then c
      else if b = 0xB9 then c\<lparr>sc_awake := False\<rparr>
      else if b = 0x06 then c\<lparr>sc_wel := True\<rparr>
      else if b = 0x04 then c\<lparr>sc_wel := False\<rparr>
      else if b = 0xB7 then c\<lparr>sc_wide := True\<rparr>
      else c)"

definition sim_status :: "sim_chip \<Rightarrow> u8" where
  "sim_status c = (if sc_busy_us c > 0 then 1 else 0) OR (if sc_wel c then 2 else 0)"

text \<open>The answer to a command that reads; a chip that does not listen leaves the line high.\<close>

definition sim_answer :: "u8 \<Rightarrow> bytes \<Rightarrow> nat \<Rightarrow> sim_chip \<Rightarrow> bytes" where
  "sim_answer b ab n c =
     (if b = 0x05 \<and> ab = [] \<and> sc_awake c then replicate n (sim_status c)
      else if b = 0x9F \<and> ab = [] \<and> sim_listening c then take n (sc_id c @ replicate n 0)
      else if b = 0x03 \<and> length ab = addr_len (sc_wide c) \<and> sim_listening c
        then take n (drop (be_addr ab) (sc_mem c) @ replicate n 0xFF)
      else replicate n 0xFF)"

text \<open>Programming clears bits and wraps around inside the page.\<close>

definition sim_cells :: "nat \<Rightarrow> nat \<Rightarrow> bytes \<Rightarrow> bytes \<Rightarrow> bytes" where
  "sim_cells page a bs M =
     fold (\<lambda>i m. let j = a div page * page + (a + i) mod page in m[j := m ! j AND bs ! i]) [0..<length bs] M"

definition sim_program :: "nat \<Rightarrow> bytes \<Rightarrow> bytes \<Rightarrow> sim_chip \<Rightarrow> sim_chip" where
  "sim_program page ab bs c =
     (if sim_listening c \<and> sc_wel c \<and> length ab = addr_len (sc_wide c)
      then c\<lparr>sc_mem := sim_cells page (be_addr ab) bs (sc_mem c), sc_wel := False, sc_busy_us := sc_program_us c\<rparr>
      else c)"

definition sim_erase :: "nat \<Rightarrow> u8 \<Rightarrow> bytes \<Rightarrow> sim_chip \<Rightarrow> sim_chip" where
  "sim_erase sector b ab c =
     (let a = be_addr ab div sector * sector in
      if sim_listening c \<and> sc_wel c \<and> a + sector \<le> length (sc_mem c)
         \<and> (b = 0x20 \<and> length ab = addr_len (sc_wide c) \<or> b = 0x21 \<and> length ab = 4)
      then c\<lparr>sc_mem := take a (sc_mem c) @ replicate sector 0xFF @ drop (a + sector) (sc_mem c),
             sc_wel := False, sc_busy_us := sc_erase_us c\<rparr>
      else c)"

fun sim_exec :: "nat \<Rightarrow> nat \<Rightarrow> spi_op list \<Rightarrow> sim_chip \<Rightarrow> bytes list \<times> sim_chip" where
  "sim_exec page sector [Op_Write (b # ab)] c = ([], if ab = [] then sim_command b c else sim_erase sector b ab c)"
| "sim_exec page sector [Op_Write (b # ab), Op_Read n] c = ([sim_answer b ab n c], c)"
| "sim_exec page sector [Op_Write (b # ab), Op_Write bs] c = ([], if b = 0x02 then sim_program page ab bs c else c)"
| "sim_exec page sector _ c = ([], c)"

definition sim_transaction :: "nat \<Rightarrow> nat \<Rightarrow> spi_op list \<Rightarrow> (sim_chip, bytes list, unit) action" where
  "sim_transaction page sector ops c =
     (case sc_faults c of
        [] \<Rightarrow> (case sim_exec page sector ops c of (rs, c') \<Rightarrow> (Ok rs, c'))
      | Bus_Good # fs \<Rightarrow> (case sim_exec page sector ops (c\<lparr>sc_faults := fs\<rparr>) of (rs, c') \<Rightarrow> (Ok rs, c'))
      | Bus_Lost # fs \<Rightarrow> (Err (), c\<lparr>sc_faults := fs\<rparr>)
      | Bus_Late # fs \<Rightarrow> (case sim_exec page sector ops (c\<lparr>sc_faults := fs\<rparr>) of (rs, c') \<Rightarrow> (Err (), c')))"

definition sim_delay :: "nat \<Rightarrow> sim_chip \<Rightarrow> sim_chip" where
  "sim_delay t c = c\<lparr>sc_busy_us := sc_busy_us c - t\<rparr>"

definition sim_spi :: "nat \<Rightarrow> nat \<Rightarrow> sim_chip spi_device" where
  "sim_spi page sector = \<lparr>spi_transaction = sim_transaction page sector, spi_delay_us = sim_delay\<rparr>"

definition sim_view :: "sim_chip \<Rightarrow> chip_view" where
  "sim_view c = \<lparr>cv_mem = sc_mem c, cv_busy = (sc_busy_us c > 0), cv_wel = sc_wel c, cv_awake = sc_awake c, cv_wide = sc_wide c\<rparr>"

section \<open>The simulated chip is a chip\<close>

lemma sim_spi_simps [simp]:
  "spi_transaction (sim_spi page sector) = sim_transaction page sector"
  "spi_delay_us (sim_spi page sector) = sim_delay"
  by (simp_all add: sim_spi_def)

lemma sim_view_simps [simp]:
  "cv_mem (sim_view c) = sc_mem c" "cv_busy (sim_view c) \<longleftrightarrow> 0 < sc_busy_us c" "cv_wel (sim_view c) = sc_wel c"
  "cv_awake (sim_view c) = sc_awake c" "cv_wide (sim_view c) = sc_wide c"
  "sim_view (c\<lparr>sc_faults := fs\<rparr>) = sim_view c"
  by (simp_all add: sim_view_def)

lemma listening_sim_view [simp]: "listening (sim_view c) = sim_listening c"
  by (simp add: listening_def sim_listening_def)

text \<open>A transaction fails without effect, or is performed whether or not an error is reported.\<close>

lemma sim_transactionE:
  assumes "sim_transaction page sector ops c = (r, c')"
  obtains (lost) "sim_view c' = sim_view c" "r = Err ()"
  | (seen) rs c1 where "sim_view c1 = sim_view c" "sim_exec page sector ops c1 = (rs, c')" "r = Ok rs \<or> r = Err ()"
  using assms
  by (auto simp: sim_transaction_def split: list.splits bus_fault.splits prod.splits) (metis sim_view_simps(6))+

lemma sim_view_eq_iff:
  "sim_view c1 = sim_view c \<longleftrightarrow> sc_mem c1 = sc_mem c \<and> (0 < sc_busy_us c1) = (0 < sc_busy_us c)
     \<and> sc_wel c1 = sc_wel c \<and> sc_awake c1 = sc_awake c \<and> sc_wide c1 = sc_wide c"
  by (auto simp: sim_view_def)

lemma length_sim_cells [simp]: "length (sim_cells page a bs M) = length M"
proof -
  have "length (fold (\<lambda>i m. let j = a div page * page + (a + i) mod page in m[j := m ! j AND bs ! i]) is M) = length M" for "is"
    by (induction "is" arbitrary: M) (auto simp: Let_def)
  then show ?thesis by (simp add: sim_cells_def)
qed

text \<open>Inside a page, programming is a conjunction of the cells with the data.\<close>

lemma nth_sim_cells:
  assumes "a mod page + length bs \<le> page" and "a + length bs \<le> length M" and "k < length M"
  shows "sim_cells page a bs M ! k = (if a \<le> k \<and> k < a + length bs then M ! k AND bs ! (k - a) else M ! k)"
proof -
  have place: "a div page * page + (a + i) mod page = a + i" if "i < length bs" for i
  proof -
    have "a mod page + i < page" using assms(1) that by simp
    then have "(a + i) mod page = a mod page + i" by (metis mod_add_left_eq mod_less)
    then show ?thesis by simp
  qed
  have "n \<le> length bs \<Longrightarrow>
      fold (\<lambda>i m. let j = a div page * page + (a + i) mod page in m[j := m ! j AND bs ! i]) [0..<n] M ! k
        = (if a \<le> k \<and> k < a + n then M ! k AND bs ! (k - a) else M ! k)
      \<and> length (fold (\<lambda>i m. let j = a div page * page + (a + i) mod page in m[j := m ! j AND bs ! i]) [0..<n] M) = length M" for n
  proof (induction n)
    case (Suc n)
    then show ?case using assms by (auto simp: place Let_def nth_list_update)
  qed auto
  then show ?thesis by (simp add: sim_cells_def)
qed

lemma sim_cells_laws:
  assumes "a mod page + length bs \<le> page" and "a + length bs \<le> length M"
  shows "same_outside a (a + length bs) M (sim_cells page a bs M)"
    and "only_clears M (sim_cells page a bs M)"
    and "programmed a bs M (sim_cells page a bs M)"
  using assms
  by (auto simp: same_outside_def only_clears_def programmed_def nth_sim_cells and.assoc [symmetric])

lemma sim_command_view:
  "undisturbed (sim_view c) (sim_view (sim_command b c)\<lparr>cv_wide := cv_wide (sim_view c)\<rparr>)"
  "b \<noteq> 0xB7 \<Longrightarrow> sc_wide (sim_command b c) = sc_wide c"
  "b \<noteq> 0xB9 \<Longrightarrow> sc_awake c \<Longrightarrow> sc_awake (sim_command b c)"
  by (auto simp: sim_command_def undisturbed_def)

lemma sim_erase_view:
  assumes "sim_listening c" and "sc_wel c" and "sector dvd be_addr ab" and "be_addr ab + sector \<le> length (sc_mem c)"
    and "b = 0x20 \<and> length ab = addr_len (sc_wide c) \<or> b = 0x21 \<and> length ab = 4"
  shows "sc_awake (sim_erase sector b ab c)" and "sc_wide (sim_erase sector b ab c) = sc_wide c"
    and "same_outside (be_addr ab) (be_addr ab + sector) (sc_mem c) (sc_mem (sim_erase sector b ab c))"
    and "erased (be_addr ab) sector (sc_mem (sim_erase sector b ab c))"
  using assms same_outside_splice [of "be_addr ab" "be_addr ab + sector" "sc_mem c" "replicate sector 0xFF"]
  by (auto simp: sim_erase_def Let_def sim_listening_def erased_def nth_append)

interpretation sim: spi_flash_chip "sim_spi page sector" sim_view page sector t_sleep for page sector t_sleep
proof
  fix t d
  show "undisturbed (sim_view d) (sim_view (spi_delay_us (sim_spi page sector) t d))
      \<and> (cv_awake (sim_view d) \<longrightarrow> cv_awake (sim_view (spi_delay_us (sim_spi page sector) t d)))"
    by (simp add: sim_delay_def undisturbed_def)
next
  fix b d r d'
  assume "b \<in> {0xAB, 0xB9, 0x06 :: u8}" "spi_transaction (sim_spi page sector) [Op_Write [b]] d = (r, d')"
  then show "undisturbed (sim_view d) (sim_view d') \<and> (b \<noteq> 0xB9 \<longrightarrow> cv_awake (sim_view d) \<longrightarrow> cv_awake (sim_view d'))"
    by (auto simp: undisturbed_def sim_command_def sim_view_eq_iff sim_listening_def elim!: sim_transactionE)
next
  show "cv_awake (sim_view (spi_delay_us (sim_spi page sector) t' d'))"
    if "t_sleep \<le> t" "t_sleep \<le> t'"
      "spi_transaction (sim_spi page sector) [Op_Write [0xAB]] (spi_delay_us (sim_spi page sector) t d) = (Ok rs, d')"
    for t t' d rs d'
    using that by (auto simp: sim_command_def sim_delay_def elim!: sim_transactionE)
next
  show "undisturbed (sim_view d) (sim_view d'\<lparr>cv_wide := cv_wide (sim_view d)\<rparr>)
      \<and> (cv_awake (sim_view d) \<longrightarrow> cv_awake (sim_view d'))"
    if "spi_transaction (sim_spi page sector) [Op_Write [0xB7]] d = (r, d')" for d r d'
    using that by (auto simp: undisturbed_def sim_command_def sim_view_eq_iff sim_listening_def elim!: sim_transactionE)
next
  show "cv_wide (sim_view d')"
    if "spi_transaction (sim_spi page sector) [Op_Write [0xB7]] d = (Ok rs, d')" "listening (sim_view d)" for d rs d'
    using that by (auto simp: sim_command_def sim_view_eq_iff sim_listening_def elim!: sim_transactionE)
next
  show "sim_view d' = sim_view d \<and> (\<forall>rs. r = Ok rs \<longrightarrow> (\<exists>bs. rs = [bs] \<and> length bs = n))"
    if "b \<in> {0x05, 0x9F}" "spi_transaction (sim_spi page sector) [Op_Write [b], Op_Read n] d = (r, d')" for b n d r d'
    using that by (auto simp: sim_answer_def elim!: sim_transactionE)
next
  show "bit st 0 = cv_busy (sim_view d) \<and> bit st 1 = cv_wel (sim_view d)"
    if "spi_transaction (sim_spi page sector) [Op_Write [0x05], Op_Read 1] d = (Ok [[st]], d')" "cv_awake (sim_view d)"
    for d st d'
    using that by (auto simp: sim_answer_def sim_status_def bit_simps sim_view_eq_iff sim_listening_def elim!: sim_transactionE)
next
  show "sim_view d' = sim_view d"
    if "spi_transaction (sim_spi page sector) [Op_Write (0x03 # ab), Op_Read n] d = (r, d')" for ab n d r d'
    using that by (auto elim!: sim_transactionE)
next
  show "rs = [seg (be_addr ab) n (cv_mem (sim_view d))]"
    if "spi_transaction (sim_spi page sector) [Op_Write (0x03 # ab), Op_Read n] d = (Ok rs, d')"
      "listening (sim_view d)" "length ab = addr_len (cv_wide (sim_view d))"
      "be_addr ab + n \<le> length (cv_mem (sim_view d))" for ab n d rs d'
    using that by (auto simp: sim_answer_def seg_def sim_view_eq_iff sim_listening_def elim!: sim_transactionE)
next
  fix ab bs d r d'
  assume *: "spi_transaction (sim_spi page sector) [Op_Write (0x02 # ab), Op_Write bs] d = (r, d')"
    "listening (sim_view d)" "cv_wel (sim_view d)" "length ab = addr_len (cv_wide (sim_view d))"
    "be_addr ab mod page + length bs \<le> page" "be_addr ab + length bs \<le> length (cv_mem (sim_view d))"
  have "same_outside (be_addr ab) (be_addr ab + length bs) (sc_mem d) (sim_cells page (be_addr ab) bs (sc_mem d))"
    "only_clears (sc_mem d) (sim_cells page (be_addr ab) bs (sc_mem d))"
    "programmed (be_addr ab) bs (sc_mem d) (sim_cells page (be_addr ab) bs (sc_mem d))"
    using * sim_cells_laws [of "be_addr ab" page bs "sc_mem d"] by auto
  with * show "cv_awake (sim_view d') \<and> cv_wide (sim_view d') = cv_wide (sim_view d)
      \<and> same_outside (be_addr ab) (be_addr ab + length bs) (cv_mem (sim_view d)) (cv_mem (sim_view d'))
      \<and> only_clears (cv_mem (sim_view d)) (cv_mem (sim_view d'))
      \<and> (\<forall>rs. r = Ok rs \<longrightarrow> programmed (be_addr ab) bs (cv_mem (sim_view d)) (cv_mem (sim_view d')))"
    by (auto simp: sim_program_def only_clears_def sim_view_eq_iff sim_listening_def elim!: sim_transactionE)
next
  fix b ab d r d'
  assume *: "spi_transaction (sim_spi page sector) [Op_Write (b # ab)] d = (r, d')"
    "b = 0x20 \<and> length ab = addr_len (cv_wide (sim_view d)) \<or> b = 0x21 \<and> length ab = 4"
    "listening (sim_view d)" "cv_wel (sim_view d)"
    "sector dvd be_addr ab" "be_addr ab + sector \<le> length (cv_mem (sim_view d))"
  then have "ab \<noteq> []" by (auto simp: addr_len_def split: if_splits)
  from *(1) [unfolded sim_spi_simps] show "cv_awake (sim_view d') \<and> cv_wide (sim_view d') = cv_wide (sim_view d)
      \<and> same_outside (be_addr ab) (be_addr ab + sector) (cv_mem (sim_view d)) (cv_mem (sim_view d'))
      \<and> (\<forall>rs. r = Ok rs \<longrightarrow> erased (be_addr ab) sector (cv_mem (sim_view d')))"
  proof (cases rule: sim_transactionE)
    case lost
    with * show ?thesis by (auto simp: sim_view_eq_iff sim_listening_def)
  next
    case (seen rs c1)
    with \<open>ab \<noteq> []\<close> have "d' = sim_erase sector b ab c1" by simp
    with seen(1) * sim_erase_view [of c1 sector ab b] show ?thesis
      by (auto simp: sim_view_eq_iff sim_listening_def)
  qed
qed

end
