(* ===== verification/Spi_Correct.thy ===== *)
theory Spi_Correct
  imports Spi_Chip
begin

text \<open>
  The driver on any chip with the documented behaviour. \<open>driver_ready\<close> is what holds between two
  calls: the chip is idle, the driver's flag and address mode agree with the chip, and the
  descriptor describes the chip. From such a state each operation keeps everything outside its
  range, and on success it has done its whole work and the state is ready again. Reads and
  refused calls always leave the driver ready; a program or erase that fails on the bus or times
  out may leave the chip busy (see \<open>Spi_Theorems\<close>).
\<close>

section \<open>Frames\<close>

lemma be_addr_bytes:
  "be_addr (to_be_bytes w) = unat w"
  "be_addr (tl (to_be_bytes w)) = unat w mod 2 ^ 24"
proof -
  have small: "unat w < 2 ^ 32" using unsigned_less [of w] by simp
  have byte: "unat (ucast (drop_bit k w) :: u8) = unat w div 2 ^ k mod 256" for k
    using small
    by (simp only: unsigned_ucast_eq unsigned_drop_bit_eq) (simp add: drop_bit_eq_div take_bit_eq_mod)
  note bytes = byte [of 0, simplified] byte [of 8, simplified] byte [of 16, simplified] byte [of 24, simplified]
  define x where "x = unat w"
  have parts: "x div 65536 = x div 256 div 256" "x div 16777216 = x div 256 div 256 div 256"
    by (simp_all add: div_mult2_eq [symmetric])
  have "x < 2 ^ 32" unfolding x_def by (rule small)
  then have top: "x div 256 div 256 div 256 mod 256 = x div 256 div 256 div 256"
    by (simp add: div_mult2_eq [symmetric] less_mult_imp_div_less)
  have low: "x mod 2 ^ 24 = 256 * (256 * (x div 256 div 256 mod 256) + x div 256 mod 256) + x mod 256"
    using mod_mult2_eq [of x 256 65536] mod_mult2_eq [of "x div 256" 256 256] by simp
  have split: "x = x div 256 * 256 + x mod 256" "x div 256 = x div 256 div 256 * 256 + x div 256 mod 256"
    "x div 256 div 256 = x div 256 div 256 div 256 * 256 + x div 256 div 256 mod 256"
    by simp_all
  show "be_addr (to_be_bytes w) = unat w"
    unfolding be_addr_def to_be_bytes_def u32_to_le_def
    using split by (simp add: bytes parts top flip: x_def)
  show "be_addr (tl (to_be_bytes w)) = unat w mod 2 ^ 24"
    unfolding be_addr_def to_be_bytes_def u32_to_le_def
    using low by (simp add: bytes parts flip: x_def)
qed

lemma length_to_be_bytes [simp]: "length (to_be_bytes w) = 4"
  by (simp add: to_be_bytes_def)

lemma cmd_and_addr_frame:
  assumes "mode = B24 \<Longrightarrow> unat a < 2 ^ 24"
  obtains ab where "cmd_and_addr cmd a mode = command_byte cmd # ab" and "be_addr ab = unat a"
    and "length ab = addr_len (mode = B32)"
proof (cases mode)
  case B24
  with assms that [of "tl (to_be_bytes a)"] show ?thesis
    by (simp add: cmd_and_addr_def be_addr_bytes addr_len_def)
next
  case B32
  with that [of "to_be_bytes a"] show ?thesis
    by (simp add: cmd_and_addr_def be_addr_bytes addr_len_def)
qed

lemma unat_of_nat_u32: "n < 2 ^ 32 \<Longrightarrow> unat (of_nat n :: u32) = n"
  by (simp add: unat_of_nat)

lemma bounds_check_Ok_iff:
  assumes "cap < 2 ^ 32"
  shows "bounds_check a len 0 cap = Ok a' \<longleftrightarrow> a' = a \<and> unat a + len \<le> cap"
proof -
  have "unat (of_nat (cap - len) :: u32) = cap - len"
    by (rule unat_of_nat_u32) (use assms in simp)
  then show ?thesis
    unfolding bounds_check_def word_less_nat_alt by auto
qed

section \<open>Device operations\<close>

text \<open>The chip is awake and idle, in the given address mode, with the given memory.\<close>

definition engaged :: "addr_mode \<Rightarrow> bytes \<Rightarrow> chip_view \<Rightarrow> bool" where
  "engaged mode M v \<longleftrightarrow> listening v \<and> cv_wide v = (mode = B32) \<and> cv_mem v = M"

text \<open>The same while an operation may be running.\<close>

definition working :: "addr_mode \<Rightarrow> bytes \<Rightarrow> chip_view \<Rightarrow> bool" where
  "working mode M v \<longleftrightarrow> cv_awake v \<and> cv_wide v = (mode = B32) \<and> cv_mem v = M"

lemma engaged_working: "engaged mode M v \<Longrightarrow> working mode M v"
  by (simp add: engaged_def working_def listening_def)

lemma only_clears_refl [simp]: "only_clears M M"
  by (simp add: only_clears_def)

lemma only_clears_trans:
  "only_clears M M1 \<Longrightarrow> only_clears M1 M2 \<Longrightarrow> length M1 = length M \<Longrightarrow> only_clears M M2"
  unfolding only_clears_def
proof (intro allI impI)
  fix i assume *: "\<forall>i < length M. M ! i AND M1 ! i = M1 ! i" "\<forall>i < length M1. M1 ! i AND M2 ! i = M2 ! i"
    "length M1 = length M" "i < length M"
  then have "M ! i AND M1 ! i = M1 ! i" and "M1 ! i AND M2 ! i = M2 ! i" by simp_all
  then show "M ! i AND M2 ! i = M2 ! i" by (metis and.assoc)
qed

lemma programmed_append:
  assumes "programmed a (take n bs) M M1" and "same_outside a (a + n) M M1"
    and "programmed (a + n) (drop n bs) M1 M2" and "same_outside (a + n) (a + length bs) M1 M2"
    and "a + length bs \<le> length M" and "n \<le> length bs"
  shows "programmed a bs M M2"
  unfolding programmed_def
proof (intro allI impI)
  fix i assume i: "i < length bs"
  show "M2 ! (a + i) = M ! (a + i) AND bs ! i"
  proof (cases "i < n")
    case True
    then have "M2 ! (a + i) = M1 ! (a + i)"
      using assms(5) i by (intro same_outside_nth [OF assms(4)]) (auto simp: same_outside_length [OF assms(2)])
    with assms(1) True i show ?thesis by (simp add: programmed_def)
  next
    case False
    then have "M1 ! (a + i) = M ! (a + i)"
      using assms(5) i by (intro same_outside_nth [OF assms(2)]) auto
    moreover have "M2 ! (a + n + (i - n)) = M1 ! (a + n + (i - n)) AND drop n bs ! (i - n)"
      by (rule assms(3) [unfolded programmed_def, rule_format]) (use False i in simp)
    ultimately show ?thesis using False i by simp
  qed
qed

declare program_loop.simps [simp del]

lemma program_loop_Nil: "program_loop SPI timeout_us page mode fuel a [] = ret ()"
  by (simp add: program_loop.simps [of _ _ _ _ fuel])

lemma program_round:
  assumes "bs \<noteq> []" and "0 < page" and "unat a + length bs < 2 ^ 32"
  obtains n where "0 < n" and "n \<le> length bs" and "unat a mod page + n \<le> page" and "unat (a + of_nat n) = unat a + n"
    and "program_loop SPI timeout_us page mode (Suc k) a bs =
      and_then (program_page SPI timeout_us (cmd_and_addr ProgramPage a mode) (take n bs)) (\<lambda>_.
        program_loop SPI timeout_us page mode k (a + of_nat n) (drop n bs))"
proof -
  define n where "n = min (length bs) (page - unat a mod page)"
  have n: "0 < n" "n \<le> length bs" "unat a mod page + n \<le> page"
    using mod_less_divisor [OF assms(2), of "unat a"] assms(1) by (auto simp: n_def)
  moreover have "unat (a + of_nat n) = unat a + n"
    using n assms(3) by (subst unat_add_lem [THEN iffD1]) (auto simp: unat_of_nat)
  moreover have "program_loop SPI timeout_us page mode (Suc k) a bs =
      and_then (program_page SPI timeout_us (cmd_and_addr ProgramPage a mode) (take n bs)) (\<lambda>_.
        program_loop SPI timeout_us page mode k (a + of_nat n) (drop n bs))"
    using n(1) by (subst program_loop.simps) (simp add: Let_def n_def [symmetric])
  ultimately show thesis by (rule that)
qed

context spi_flash_chip
begin

lemma send_command_transaction:
  assumes "send_command SPI cmd d = (r, d')"
  obtains r0 where "spi_transaction SPI [Op_Write [command_byte cmd]] d = (r0, d')"
    and "r = Ok () \<longleftrightarrow> (\<exists>rs. r0 = Ok rs)"
  using assms
  by (cases "spi_transaction SPI [Op_Write [command_byte cmd]] d")
    (auto simp: send_command_def bus_def and_then_def map_err_def split: sum.splits)

lemma read_reg_transaction:
  assumes "read_reg SPI cmd n d = (r, d')"
  obtains r0 where "spi_transaction SPI [Op_Write [command_byte cmd], Op_Read n] d = (r0, d')"
    and "\<And>bs. r = Ok bs \<Longrightarrow> \<exists>rs. r0 = Ok rs \<and> bs = concat rs"
  using assms
  by (cases "spi_transaction SPI [Op_Write [command_byte cmd], Op_Read n] d")
    (auto simp: read_reg_def bus_def and_then_def map_err_def split: sum.splits)

lemma read_reg_view:
  assumes "read_reg SPI cmd n d = (r, d')" and "cmd \<in> {ReadStatus, ReadJEDEC}"
  shows "view d' = view d" and "r = Ok bs \<Longrightarrow> length bs = n"
proof -
  obtain r0 where "spi_transaction SPI [Op_Write [command_byte cmd], Op_Read n] d = (r0, d')"
    and "\<And>bs. r = Ok bs \<Longrightarrow> \<exists>rs. r0 = Ok rs \<and> bs = concat rs"
    using read_reg_transaction [OF assms(1)] by blast
  with register [of "command_byte cmd" n d r0 d'] assms(2)
  show "view d' = view d" and "r = Ok bs \<Longrightarrow> length bs = n" by fastforce+
qed

lemma flash_status_view:
  assumes "flash_status SPI d = (r, d')"
  shows "view d' = view d"
    and "r = Ok st \<Longrightarrow> cv_awake (view d) \<Longrightarrow>
      status_is_busy st = cv_busy (view d) \<and> status_is_write_enable_set st = cv_wel (view d)"
proof -
  obtain r1 where reg: "read_reg SPI ReadStatus 1 d = (r1, d')" and st: "\<And>st. r = Ok st \<Longrightarrow> \<exists>bs. r1 = Ok bs \<and> st = hd bs"
    using assms by (cases "read_reg SPI ReadStatus 1 d") (auto simp: flash_status_def and_then_def split: sum.splits)
  obtain r0 where tx: "spi_transaction SPI [Op_Write [0x05], Op_Read 1] d = (r0, d')"
    and *: "\<And>st. r = Ok st \<Longrightarrow> \<exists>rs. r0 = Ok rs \<and> st = hd (concat rs)"
    using read_reg_transaction [OF reg] st by (metis command_byte.simps(5))
  from register [of "0x05" 1 d r0 d'] tx
  show "view d' = view d" by simp
  have one: "\<exists>b. rs = [[b]]" if "r0 = Ok rs" for rs
    using register [of "0x05" 1 d r0 d'] tx that by (auto simp: length_Suc_conv)
  show "status_is_busy st = cv_busy (view d) \<and> status_is_write_enable_set st = cv_wel (view d)"
    if "r = Ok st" "cv_awake (view d)"
  proof -
    from that(1) * one obtain b where "r0 = Ok [[b]]" and "st = b" by fastforce
    with status tx that(2) show ?thesis
      by (simp add: status_is_busy_def status_is_write_enable_set_def)
  qed
qed

lemma delay_working: "working mode M (view d) \<Longrightarrow> working mode M (view (spi_delay_us SPI t d))"
  using delay [of d t] by (simp add: working_def undisturbed_def)

lemma is_ready_loop_view:
  assumes "is_ready_loop SPI step n d = (r, d')" and "working mode M (view d)"
  shows "working mode M (view d') \<and> (r = Ok () \<longrightarrow> engaged mode M (view d'))"
  using assms
proof (induction n arbitrary: d)
  case (Suc n)
  from Suc.prems(1) show ?case
    unfolding is_ready_loop.simps
  proof (cases rule: and_thenE)
    case err
    with flash_status_view(1) Suc.prems(2) show ?thesis by fastforce
  next
    case (ok st d1)
    from flash_status_view [OF ok(1)] have view: "view d1 = view d"
      and busy: "status_is_busy st = cv_busy (view d)"
      using Suc.prems(2) by (auto simp: working_def)
    show ?thesis
    proof (cases "status_is_busy st")
      case True
      with ok(2) have "is_ready_loop SPI step n (spi_delay_us SPI step d1) = (r, d')"
        by (simp add: delay_us_def and_then_def)
      with Suc.IH Suc.prems(2) view show ?thesis by (metis delay_working)
    next
      case False
      with ok(2) view busy Suc.prems(2) show ?thesis by (auto simp: working_def engaged_def listening_def)
    qed
  qed
qed auto

lemma is_ready_view:
  assumes "is_ready SPI timeout_us d = (r, d')" and "working mode M (view d)"
  shows "working mode M (view d') \<and> (r = Ok () \<longrightarrow> engaged mode M (view d'))"
  using assms is_ready_loop_view unfolding is_ready_def by blast

lemma write_enable_view:
  assumes "write_enable SPI d = (r, d')" and "engaged mode M (view d)"
  shows "engaged mode M (view d') \<and> (r = Ok () \<longrightarrow> cv_wel (view d'))"
proof -
  have step: "engaged mode M (view d1)" if "send_command SPI WriteEnable d = (r1, d1)" for r1 d1
    using send_command_transaction [OF that] plain_command [of "0x06" d _ d1] assms(2)
    by (fastforce simp: engaged_def listening_def undisturbed_def)
  show ?thesis
    using assms(1) unfolding write_enable_def
  proof (cases rule: and_thenE)
    case err
    with step show ?thesis by blast
  next
    case (ok x d1)
    from ok(2) step [OF ok(1)] flash_status_view [of d1] show ?thesis
      by (cases "flash_status SPI d1") (auto simp: and_then_def engaged_def listening_def split: sum.splits if_splits)
  qed
qed

lemma program_page_effect:
  assumes "program_page SPI timeout_us (cmd_and_addr ProgramPage a mode) bs d = (r, d')"
    and "engaged mode M (view d)" and "mode = B24 \<Longrightarrow> unat a < 2 ^ 24"
    and "unat a mod page + length bs \<le> page" and "unat a + length bs \<le> length M"
  obtains M' where "working mode M' (view d')" and "r = Ok () \<longrightarrow> engaged mode M' (view d')"
    and "same_outside (unat a) (unat a + length bs) M M'" and "only_clears M M'"
    and "r = Ok () \<longrightarrow> programmed (unat a) bs M M'"
proof -
  obtain ab where ab: "cmd_and_addr ProgramPage a mode = 0x02 # ab" "be_addr ab = unat a" "length ab = addr_len (mode = B32)"
    using cmd_and_addr_frame assms(3) by (metis command_byte.simps(13))
  from assms(1) show ?thesis
    unfolding program_page_def
  proof (cases rule: and_thenE)
    case err
    with write_enable_view [of d _ d'] assms(2) have "engaged mode M (view d')" by blast
    with err show ?thesis
      by (intro that [of M]) (auto simp: engaged_working only_clears_def)
  next
    case (ok x d1)
    have en: "engaged mode M (view d1)" "cv_wel (view d1)"
      using write_enable_view [OF ok(1) assms(2)] by auto
    obtain r0 d2 where tx: "spi_transaction SPI [Op_Write (0x02 # ab), Op_Write bs] d1 = (r0, d2)" by fastforce
    define M' where "M' = cv_mem (view d2)"
    have eff: "working mode M' (view d2)" "same_outside (unat a) (unat a + length bs) M M'" "only_clears M M'"
      "\<And>rs. r0 = Ok rs \<Longrightarrow> programmed (unat a) bs M M'"
      using program [OF tx] en assms(4,5) ab by (auto simp: engaged_def working_def M'_def)
    show ?thesis
    proof (cases r0)
      case (Inl e)
      with ok(2) tx ab(1) have "d' = d2" "r = Err SE_SPI" by (auto simp: bus_def and_then_def map_err_def)
      with eff show ?thesis by (intro that [of M']) auto
    next
      case (Inr rs)
      with ok(2) tx ab(1) have "is_ready SPI timeout_us d2 = (r, d')" by (auto simp: bus_def and_then_def map_err_def)
      with is_ready_view eff Inr show ?thesis by (intro that [of M']) blast+
    qed
  qed
qed

text \<open>The loop of \<open>program\<close> splits at page boundaries, needs at most one round per byte, and programs every byte.\<close>

lemma program_loop_effect:
  assumes "program_loop SPI timeout_us page mode fuel a bs d = (r, d')" and "engaged mode M (view d)"
    and "mode = B24 \<Longrightarrow> length M \<le> 2 ^ 24" and "length M < 2 ^ 32" and "0 < page"
    and "unat a + length bs \<le> length M" and "length bs \<le> fuel"
  shows "\<exists>M'. working mode M' (view d') \<and> (r = Ok () \<longrightarrow> engaged mode M' (view d'))
    \<and> same_outside (unat a) (unat a + length bs) M M' \<and> only_clears M M'
    \<and> (r = Ok () \<longrightarrow> programmed (unat a) bs M M')"
  using assms
proof (induction fuel arbitrary: a bs d M)
  case 0
  then show ?case by (simp add: engaged_working programmed_def program_loop_Nil exI [of _ M])
next
  case (Suc k)
  show ?case
  proof (cases "bs = []")
    case True
    with Suc.prems(1,2) show ?thesis by (auto simp: engaged_working programmed_def program_loop_Nil)
  next
    case False
    have small: "unat a + length bs < 2 ^ 32" using Suc.prems(4,6) by simp
    obtain n where n: "0 < n" "n \<le> length bs" "unat a mod page + n \<le> page" and next_addr: "unat (a + of_nat n) = unat a + n"
      and unfold: "program_loop SPI timeout_us page mode (Suc k) a bs =
        and_then (program_page SPI timeout_us (cmd_and_addr ProgramPage a mode) (take n bs)) (\<lambda>_.
          program_loop SPI timeout_us page mode k (a + of_nat n) (drop n bs))"
      by (rule program_round [OF False Suc.prems(5) small])
    obtain r1 d1 where page1: "program_page SPI timeout_us (cmd_and_addr ProgramPage a mode) (take n bs) d = (r1, d1)"
      by fastforce
    have b24: "unat a < 2 ^ 24" if "mode = B24" using Suc.prems(3) [OF that] Suc.prems(6) n by simp
    have len: "length (take n bs) = n" using n by simp
    obtain M1 where M1: "working mode M1 (view d1)" "r1 = Ok () \<longrightarrow> engaged mode M1 (view d1)"
      "same_outside (unat a) (unat a + n) M M1" "only_clears M M1" "r1 = Ok () \<longrightarrow> programmed (unat a) (take n bs) M M1"
      by (rule program_page_effect [OF page1 Suc.prems(2) b24, unfolded len]) (use n Suc.prems(6) in auto)
    note len1 = same_outside_length [OF M1(3)]
    have fuel: "length bs - n \<le> k" using Suc.prems(7) n by simp
    show ?thesis
    proof (cases r1)
      case (Inl e)
      with Suc.prems(1) page1 have "d' = d1" "r = Err e" by (auto simp: unfold)
      with M1 n same_outside_mono show ?thesis by (intro exI [of _ M1]) auto
    next
      case (Inr u)
      with Suc.prems(1) page1
      have "program_loop SPI timeout_us page mode k (a + of_nat n) (drop n bs) d1 = (r, d')"
        by (simp add: unfold)
      then obtain M2 where M2: "working mode M2 (view d')" "r = Ok () \<longrightarrow> engaged mode M2 (view d')"
        "same_outside (unat a + n) (unat a + length bs) M1 M2" "only_clears M1 M2"
        "r = Ok () \<longrightarrow> programmed (unat a + n) (drop n bs) M1 M2"
        using Suc.IH [of "a + of_nat n" "drop n bs" d1 M1] M1(2) Inr n Suc.prems(3-6) len1 next_addr fuel by auto
      have "same_outside (unat a) (unat a + length bs) M M2"
        by (rule same_outside_trans [OF same_outside_mono [OF M1(3)] same_outside_mono [OF M2(3)]]) (use n in simp_all)
      moreover have "only_clears M M2" using only_clears_trans M1(4) M2(4) len1 by blast
      moreover have "r = Ok () \<longrightarrow> programmed (unat a) bs M M2"
        using programmed_append [of "unat a" n bs M M1 M2] M1(3,5) M2(3,5) Inr n Suc.prems(6) by auto
      ultimately show ?thesis using M2(1,2) by blast
    qed
  qed
qed

lemma erase_sector_effect:
  assumes "and_then (write_enable SPI) (\<lambda>_.
      and_then (bus SPI [Op_Write (cmd_and_addr (case mode of B24 \<Rightarrow> EraseSector | B32 \<Rightarrow> EraseSector4B) a mode)]) (\<lambda>_.
      is_ready SPI timeout_us)) d = (r, d')"
    and "engaged mode M (view d)" and "mode = B24 \<Longrightarrow> unat a < 2 ^ 24"
    and "sector dvd unat a" and "unat a + sector \<le> length M"
  obtains M' where "working mode M' (view d')" and "r = Ok () \<longrightarrow> engaged mode M' (view d')"
    and "same_outside (unat a) (unat a + sector) M M'" and "r = Ok () \<longrightarrow> erased (unat a) sector M'"
proof -
  define cmd where "cmd = (case mode of B24 \<Rightarrow> EraseSector | B32 \<Rightarrow> EraseSector4B)"
  obtain ab where ab: "cmd_and_addr cmd a mode = command_byte cmd # ab" "be_addr ab = unat a" "length ab = addr_len (mode = B32)"
    using cmd_and_addr_frame assms(3) by metis
  from assms(1) [folded cmd_def] show ?thesis
  proof (cases rule: and_thenE)
    case err
    with write_enable_view [of d _ d'] assms(2) have "engaged mode M (view d')" by blast
    with err show ?thesis by (intro that [of M]) (auto simp: engaged_working)
  next
    case (ok x d1)
    have en: "engaged mode M (view d1)" "cv_wel (view d1)"
      using write_enable_view [OF ok(1) assms(2)] by auto
    obtain r0 d2 where tx: "spi_transaction SPI [Op_Write (command_byte cmd # ab)] d1 = (r0, d2)" by fastforce
    have form: "command_byte cmd = 0x20 \<and> length ab = addr_len (cv_wide (view d1)) \<or> command_byte cmd = 0x21 \<and> length ab = 4"
      using en ab(3) by (cases mode) (auto simp: cmd_def engaged_def addr_len_def)
    define M' where "M' = cv_mem (view d2)"
    have eff: "working mode M' (view d2)" "same_outside (unat a) (unat a + sector) M M'"
      "\<And>rs. r0 = Ok rs \<Longrightarrow> erased (unat a) sector M'"
      using erase_sector [OF tx form] en assms(4,5) ab by (auto simp: engaged_def working_def M'_def)
    show ?thesis
    proof (cases r0)
      case (Inl e)
      with ok(2) tx ab(1) have "d' = d2" "r = Err SE_SPI" by (auto simp: bus_def and_then_def map_err_def)
      with eff show ?thesis by (intro that [of M']) auto
    next
      case (Inr rs)
      with ok(2) tx ab(1) have "is_ready SPI timeout_us d2 = (r, d')" by (auto simp: bus_def and_then_def map_err_def)
      with is_ready_view eff Inr show ?thesis by (intro that [of M']) blast+
    qed
  qed
qed

end

lemma erase_addrs_Suc:
  "0 < s \<Longrightarrow> erase_addrs a (Suc n * s) s = a # erase_addrs (a + of_nat s) (n * s) s"
  by (simp add: erase_addrs_def upt_conv_Cons map_Suc_upt [symmetric] add.assoc algebra_simps del: upt_Suc)

lemma erased_append:
  assumes "erased a s M1" and "same_outside (a + s) hi M1 M2" and "erased (a + s) n M2" and "a + s \<le> length M1"
  shows "erased a (s + n) M2"
  unfolding erased_def
proof (intro allI impI)
  fix i assume "i < s + n"
  show "M2 ! (a + i) = 0xFF"
  proof (cases "i < s")
    case True
    with same_outside_nth [OF assms(2), of "a + i"] assms(1,4) show ?thesis by (simp add: erased_def)
  next
    case False
    with \<open>i < s + n\<close> assms(3) [unfolded erased_def, rule_format, of "i - s"] show ?thesis by simp
  qed
qed

context spi_flash_chip
begin

lemma erase_loop_Cons:
  "erase_loop SPI timeout_us cmd mode (a # as) =
     and_then (and_then (write_enable SPI) (\<lambda>_. and_then (bus SPI [Op_Write (cmd_and_addr cmd a mode)]) (\<lambda>_.
       is_ready SPI timeout_us))) (\<lambda>_. erase_loop SPI timeout_us cmd mode as)"
  by (rule ext) (simp add: and_then_def split: prod.splits sum.splits)

lemma erase_loop_effect:
  assumes "erase_loop SPI timeout_us (case mode of B24 \<Rightarrow> EraseSector | B32 \<Rightarrow> EraseSector4B) mode
      (erase_addrs a (n * sector) sector) d = (r, d')"
    and "engaged mode M (view d)"
    and "mode = B24 \<Longrightarrow> length M \<le> 2 ^ 24" and "length M < 2 ^ 32" and "0 < sector"
    and "sector dvd unat a" and "unat a + n * sector \<le> length M"
  shows "\<exists>M'. working mode M' (view d') \<and> (r = Ok () \<longrightarrow> engaged mode M' (view d'))
    \<and> same_outside (unat a) (unat a + n * sector) M M' \<and> (r = Ok () \<longrightarrow> erased (unat a) (n * sector) M')"
  using assms
proof (induction n arbitrary: a d M)
  case 0
  then show ?case by (auto simp: erase_addrs_def engaged_working erased_def)
next
  case (Suc n)
  have b24: "unat a < 2 ^ 24" if "mode = B24" using Suc.prems(3) [OF that] Suc.prems(5,7) by simp
  from Suc.prems(1) [unfolded erase_addrs_Suc [OF Suc.prems(5)] erase_loop_Cons] show ?case
  proof (cases rule: and_thenE)
    case (err e)
    obtain M1 where "working mode M1 (view d')" "same_outside (unat a) (unat a + sector) M M1"
      by (rule erase_sector_effect [OF err(1) Suc.prems(2) b24 Suc.prems(6)]) (use Suc.prems(7) in auto)
    with err same_outside_mono [of "unat a" "unat a + sector" M M1 "unat a" "unat a + Suc n * sector"] show ?thesis
      by auto
  next
    case (ok x d1)
    obtain M1 where M1: "engaged mode M1 (view d1)" "same_outside (unat a) (unat a + sector) M M1" "erased (unat a) sector M1"
      by (rule erase_sector_effect [OF ok(1) Suc.prems(2) b24 Suc.prems(6)]) (use Suc.prems(7) in auto)
    note len1 = same_outside_length [OF M1(2)]
    have addr: "unat (a + of_nat sector) = unat a + sector"
      using Suc.prems(4,7) by (subst unat_add_lem [THEN iffD1]) (auto simp: unat_of_nat)
    obtain M2 where M2: "working mode M2 (view d')" "r = Ok () \<longrightarrow> engaged mode M2 (view d')"
      "same_outside (unat a + sector) (unat a + sector + n * sector) M1 M2"
      "r = Ok () \<longrightarrow> erased (unat a + sector) (n * sector) M2"
      using Suc.IH [OF ok(2) M1(1)] Suc.prems(3-7) len1 unfolding addr by (auto simp: add.assoc)
    have "same_outside (unat a) (unat a + Suc n * sector) M M2"
      by (rule same_outside_trans [OF same_outside_mono [OF M1(2)] same_outside_mono [OF M2(3)]]) simp_all
    moreover have "r = Ok () \<longrightarrow> erased (unat a) (Suc n * sector) M2"
      using erased_append [OF M1(3) M2(3)] M2(4) Suc.prems(7) len1 by auto
    ultimately show ?thesis using M2(1,2) by blast
  qed
qed

end

end
