(* ===== verification/Spi_Driver.thy ===== *)
theory Spi_Driver
  imports Spi_Correct
begin

text \<open>
  The operations of \<open>SPIFlash\<close> on any chip with the documented behaviour: the invariant between
  two calls, that sleeping, waking up, entering the 4-byte mode and detecting the chip keep it, and
  what \<open>read\<close>, \<open>program\<close> and \<open>erase\<close> do to the memory.
\<close>

section \<open>The state between two calls\<close>

definition flash_mem :: "('d \<Rightarrow> chip_view) \<Rightarrow> 'd spi_flash \<Rightarrow> bytes" where
  "flash_mem view f = cv_mem (view (sf_device f))"

text \<open>
  The chip is idle and awake if the driver believes so; the descriptor gives its page, sector and
  total size; a chip of more than 16 MB is in 4-byte mode if the driver believes so, a smaller one
  is not.
\<close>

definition driver_ready :: "('d \<Rightarrow> chip_view) \<Rightarrow> nat \<Rightarrow> nat \<Rightarrow> nat \<Rightarrow> 'd spi_flash \<Rightarrow> bool" where
  "driver_ready view page sector t_sleep f \<longleftrightarrow>
     \<not> cv_busy (view (sf_device f)) \<and> (sf_awake f \<longrightarrow> cv_awake (view (sf_device f)))
     \<and> fd_page_size (sf_cfg f) = page \<and> 0 < page \<and> fd_erase_size (sf_cfg f) = sector \<and> 0 < sector
     \<and> fd_total_size (sf_cfg f) = length (flash_mem view f) \<and> length (flash_mem view f) < 2 ^ 32
     \<and> t_sleep \<le> unat (sf_sleep_delay_us f)
     \<and> (sf_mode f = B32 \<longrightarrow> cv_wide (view (sf_device f)))
     \<and> (length (flash_mem view f) \<le> 2 ^ 24 \<longrightarrow> sf_mode f = B24 \<and> \<not> cv_wide (view (sf_device f)))"

lemma driver_ready_stats [simp]:
  "driver_ready view page sector t_sleep (f\<lparr>sf_stats := s\<rparr>) = driver_ready view page sector t_sleep f"
  "flash_mem view (f\<lparr>sf_stats := s\<rparr>) = flash_mem view f"
  by (simp_all add: driver_ready_def flash_mem_def)

lemma driver_ready_new:
  assumes "fd_page_size c = page" "0 < page" "fd_erase_size c = sector" "0 < sector"
    and "fd_total_size c = length (cv_mem (view d))" "length (cv_mem (view d)) < 2 ^ 32"
    and "t_sleep \<le> unat (fd_sleep_timeout_us c)" "\<not> cv_busy (view d)" "length (cv_mem (view d)) \<le> 2 ^ 24 \<longrightarrow> \<not> cv_wide (view d)"
  shows "driver_ready view page sector t_sleep (spi_flash_new d c)"
  using assms by (simp add: driver_ready_def spi_flash_new_def flash_mem_def)

lemma undisturbed_refl [simp]: "undisturbed v v"
  by (simp add: undisturbed_def)

lemma undisturbed_trans: "undisturbed u v \<Longrightarrow> undisturbed v w \<Longrightarrow> undisturbed u w"
  by (auto simp: undisturbed_def)

text \<open>A device step that disturbs nothing keeps the driver ready, if the flag \<open>awake\<close> stays right.\<close>

lemma driver_ready_step:
  assumes "driver_ready view page sector t_sleep f" and "undisturbed (view (sf_device f)) (view (sf_device f'))"
    and "sf_awake f' \<longrightarrow> cv_awake (view (sf_device f'))"
    and "sf_mode f' = sf_mode f" and "sf_cfg f' = sf_cfg f" and "sf_sleep_delay_us f' = sf_sleep_delay_us f"
  shows "driver_ready view page sector t_sleep f'" and "flash_mem view f' = flash_mem view f"
  using assms by (auto simp: driver_ready_def flash_mem_def undisturbed_def)

context spi_flash_chip
begin

abbreviation ready :: "'d spi_flash \<Rightarrow> bool" where
  "ready \<equiv> driver_ready view page sector t_sleep"

abbreviation "memory_of \<equiv> flash_mem view"

lemma sleep_attempts_undisturbed: "undisturbed (view d) (view (sleep_attempts SPI n d))"
proof (induction n arbitrary: d)
  case (Suc n)
  obtain r d1 where cmd: "send_command SPI Sleep d = (r, d1)" by fastforce
  have "undisturbed (view d) (view d1)"
    using send_command_transaction [OF cmd] plain_command [of "0xB9" d _ d1] by fastforce
  with Suc.IH [of d1] cmd show ?case
    by (auto split: sum.splits intro: undisturbed_trans)
qed simp

lemma flash_sleep_ready:
  assumes "ready f"
  shows "ready (flash_sleep SPI f)" and "memory_of (flash_sleep SPI f) = memory_of f"
  using driver_ready_step [OF assms, of "flash_sleep SPI f"] sleep_attempts_undisturbed [of "sf_device f" 2]
  by (simp_all add: flash_sleep_def)

lemma flash_sleep_mem: "memory_of (flash_sleep SPI f) = memory_of f"
  using sleep_attempts_undisturbed [of "sf_device f" 2] by (simp add: flash_sleep_def flash_mem_def undisturbed_def)

lemma flash_sleep_fields [simp]:
  "sf_mode (flash_sleep SPI f) = sf_mode f" "sf_cfg (flash_sleep SPI f) = sf_cfg f"
  by (simp_all add: flash_sleep_def)

text \<open>Each attempt waits before it sends the command, so that a chip that is falling asleep notices it.\<close>

lemma wakeup_attempts_view:
  assumes "wakeup_attempts SPI sleep_delay n d = (r, d')" and "t_sleep \<le> unat sleep_delay"
  shows "undisturbed (view d) (view d')
    \<and> (r = Ok () \<longrightarrow> cv_awake (view (spi_delay_us SPI (unat sleep_delay) d')))"
  using assms
proof (induction n arbitrary: d)
  case (Suc n)
  define d1 where "d1 = spi_delay_us SPI (unat sleep_delay) d"
  obtain r2 d2 where cmd: "send_command SPI Wakeup d1 = (r2, d2)" by fastforce
  obtain r0 where tx: "spi_transaction SPI [Op_Write [0xAB]] d1 = (r0, d2)" and r2: "r2 = Ok () \<longleftrightarrow> (\<exists>rs. r0 = Ok rs)"
    using send_command_transaction [OF cmd] by auto
  have quiet: "undisturbed (view d) (view d2)"
    using delay [of d] plain_command [of "0xAB" d1 r0 d2] tx by (auto simp: d1_def intro: undisturbed_trans)
  show ?case
  proof (cases r2)
    case (Inl e)
    with Suc.prems(1) cmd have "d' = d2 \<and> r = Err e \<or> wakeup_attempts SPI sleep_delay n d2 = (r, d')"
      by (auto simp: delay_us_def and_then_def attempt_def d1_def split: if_splits)
    with quiet Suc.IH [of d2] Suc.prems(2) undisturbed_trans show ?thesis by blast
  next
    case (Inr u)
    with Suc.prems(1) cmd have "d' = d2" "r = Ok ()"
      by (auto simp: delay_us_def and_then_def attempt_def d1_def)
    moreover from Inr r2 obtain rs where "r0 = Ok rs" by auto
    ultimately show ?thesis
      using quiet wakes_up [of "unat sleep_delay" "unat sleep_delay" d rs d2] tx Suc.prems(2) by (simp add: d1_def)
  qed
qed auto

lemma wakeup_effect:
  assumes "wakeup SPI f = (r, f')" and "ready f"
  shows "ready f'" and "memory_of f' = memory_of f" and "sf_mode f' = sf_mode f" and "r = Ok () \<Longrightarrow> sf_awake f'"
proof -
  have "ready f' \<and> memory_of f' = memory_of f \<and> sf_mode f' = sf_mode f \<and> (r = Ok () \<longrightarrow> sf_awake f')"
  proof (cases "sf_awake f")
    case True
    with assms show ?thesis by (simp add: wakeup_def)
  next
    case False
    define s where "s = sf_sleep_delay_us f"
    obtain r1 d1 where att: "wakeup_attempts SPI s 5 (sf_device f) = (r1, d1)" by fastforce
    have "t_sleep \<le> unat s" using assms(2) by (simp add: driver_ready_def s_def)
    then have quiet: "undisturbed (view (sf_device f)) (view d1)"
      and awake: "r1 = Ok () \<Longrightarrow> cv_awake (view (spi_delay_us SPI (unat s) d1))"
      using wakeup_attempts_view [OF att] by auto
    have d1: "ready (f\<lparr>sf_device := d1\<rparr>)" "memory_of (f\<lparr>sf_device := d1\<rparr>) = memory_of f"
      using driver_ready_step [OF assms(2), of "f\<lparr>sf_device := d1\<rparr>"] quiet False by auto
    have "undisturbed (view (sf_device f)) (view (spi_delay_us SPI (unat s) d1))"
      using quiet delay [of d1 "unat s"] undisturbed_trans by blast
    then have "r1 = Ok () \<Longrightarrow> ready (f\<lparr>sf_device := spi_delay_us SPI (unat s) d1, sf_awake := True\<rparr>)"
      "r1 = Ok () \<Longrightarrow> memory_of (f\<lparr>sf_device := spi_delay_us SPI (unat s) d1, sf_awake := True\<rparr>) = memory_of f"
      using driver_ready_step [OF assms(2), of "f\<lparr>sf_device := spi_delay_us SPI (unat s) d1, sf_awake := True\<rparr>"] awake
      by auto
    with att assms(1) False d1 flash_sleep_ready [OF d1(1)]
    show ?thesis by (auto simp: wakeup_def s_def split: sum.splits)
  qed
  then show "ready f'" and "memory_of f' = memory_of f" and "sf_mode f' = sf_mode f" and "r = Ok () \<Longrightarrow> sf_awake f'"
    by auto
qed

lemma ready_listening: "ready f \<Longrightarrow> sf_awake f \<Longrightarrow> listening (view (sf_device f))"
  by (simp add: driver_ready_def listening_def)

lemma enter_4_byte_mode_effect:
  assumes "enter_4_byte_mode SPI f = (r, f')" and "ready f" and "2 ^ 24 < length (memory_of f)" and "sf_mode f = B24"
  shows "ready f' \<and> memory_of f' = memory_of f \<and> (r = Ok () \<longrightarrow> sf_mode f' = B32)"
  using assms(1) unfolding enter_4_byte_mode_def
proof (cases rule: and_thenE)
  case err
  with wakeup_effect [of f] assms(2) show ?thesis by fastforce
next
  case (ok u f1)
  have f1: "ready f1" "memory_of f1 = memory_of f" "sf_awake f1"
    using wakeup_effect [OF ok(1) assms(2)] by auto
  obtain r2 d2 where cmd: "send_command SPI Enter4ByteMode (sf_device f1) = (r2, d2)" by fastforce
  obtain r0 where tx: "spi_transaction SPI [Op_Write [0xB7]] (sf_device f1) = (r0, d2)" and r2: "r2 = Ok () \<longleftrightarrow> (\<exists>rs. r0 = Ok rs)"
    using send_command_transaction [OF cmd] by auto
  have wide: "r2 = Ok () \<Longrightarrow> cv_wide (view d2)"
    using wide_entered tx r2 ready_listening [OF f1(1,3)] by blast
  have step: "ready (f1\<lparr>sf_device := d2, sf_mode := m\<rparr>)" if "m = B32 \<longrightarrow> cv_wide (view d2)" for m
    using f1 assms(3) wide_command [OF tx] that by (auto simp: driver_ready_def flash_mem_def undisturbed_def)
  have mem: "memory_of (f1\<lparr>sf_device := d2, sf_mode := m\<rparr>) = memory_of f" for m
    using f1(2) wide_command [OF tx] by (simp add: flash_mem_def undisturbed_def)
  have old: "f1\<lparr>sf_device := d2\<rparr> = f1\<lparr>sf_device := d2, sf_mode := sf_mode f1\<rparr>" by simp
  show ?thesis
  proof (cases r2)
    case (Inl e)
    have "sf_mode f1 = B32 \<longrightarrow> cv_wide (view d2)"
      using wakeup_effect(3) [OF ok(1) assms(2)] assms(4) by simp
    with step [of "sf_mode f1"] mem [of "sf_mode f1"] flash_sleep_ready [of "f1\<lparr>sf_device := d2\<rparr>"] ok(2) cmd Inl
    show ?thesis by (auto simp: attempt_def on_device_def sleep_and_throw_def)
  next
    case (Inr x)
    with step [of B32] mem [of B32] wide ok(2) cmd show ?thesis
      by (auto simp: attempt_def on_device_def)
  qed
qed

lemma engaged_ready:
  assumes "ready f" and "engaged (sf_mode f) M (view d)" and "length M = length (memory_of f)"
  shows "ready (f\<lparr>sf_device := d\<rparr>)" and "memory_of (f\<lparr>sf_device := d\<rparr>) = M"
  using assms by (auto simp: driver_ready_def flash_mem_def engaged_def listening_def)

lemma init_and_check_addr_effect:
  assumes "init_and_check_addr SPI addr len f = (r, f')" and "ready f"
  shows "ready f'" and "memory_of f' = memory_of f"
    and "r = Ok (a, mode) \<Longrightarrow> a = addr \<and> unat addr + len \<le> length (memory_of f) \<and> mode = sf_mode f'
      \<and> engaged mode (memory_of f) (view (sf_device f')) \<and> (mode = B24 \<longrightarrow> length (memory_of f) \<le> 2 ^ 24)"
proof -
  let ?N = "length (memory_of f)"
  have cap: "fd_total_size (sf_cfg f) = ?N" "?N < 2 ^ 32" using assms(2) by (auto simp: driver_ready_def)
  have "ready f' \<and> memory_of f' = memory_of f \<and> (\<forall>a mode. r = Ok (a, mode) \<longrightarrow>
      a = addr \<and> unat addr + len \<le> ?N \<and> mode = sf_mode f'
      \<and> engaged mode (memory_of f) (view (sf_device f')) \<and> (mode = B24 \<longrightarrow> ?N \<le> 2 ^ 24))"
  proof (cases "bounds_check addr len 0 ?N")
    case (Inl e)
    with assms cap show ?thesis by (auto simp: init_and_check_addr_def)
  next
    case (Inr a0)
    then have a0: "a0 = addr" "unat addr + len \<le> ?N" using bounds_check_Ok_iff [OF cap(2)] by auto
    define m where "m = (if sf_mode f = B24 \<and> above_16mb ?N then enter_4_byte_mode SPI else ret ())"
    obtain r1 f1 where m: "m f = (r1, f1)" by fastforce
    have f1: "ready f1" "memory_of f1 = memory_of f" "r1 = Ok () \<Longrightarrow> sf_mode f1 = B24 \<Longrightarrow> ?N \<le> 2 ^ 24"
      using m enter_4_byte_mode_effect [of f r1 f1] assms(2) by (auto simp: m_def above_16mb_def split: if_splits)
    obtain r2 f2 where w: "wakeup SPI f1 = (r2, f2)" by fastforce
    note f2 = wakeup_effect [OF w f1(1)]
    have "engaged (sf_mode f2) (memory_of f) (view (sf_device f2))" if "r1 = Ok ()" "r2 = Ok ()"
      using f2 that f1(2,3) ready_listening [OF f2(1)] by (cases "sf_mode f2") (auto simp: engaged_def driver_ready_def flash_mem_def)
    with f1 f2 a0 m w assms(1) Inr cap show ?thesis
      by (cases r1; cases r2) (auto simp: init_and_check_addr_def m_def [symmetric] and_then_def)
  qed
  then show "ready f'" and "memory_of f' = memory_of f"
    and "r = Ok (a, mode) \<Longrightarrow> a = addr \<and> unat addr + len \<le> length (memory_of f) \<and> mode = sf_mode f'
      \<and> engaged mode (memory_of f) (view (sf_device f')) \<and> (mode = B24 \<longrightarrow> length (memory_of f) \<le> 2 ^ 24)"
    by auto
qed

lemma init_out_of_bounds:
  assumes "ready f" and "length (memory_of f) < unat addr + len"
  shows "init_and_check_addr SPI addr len f = (Err SE_OutOfBounds, f)"
proof -
  have cap: "fd_total_size (sf_cfg f) = length (memory_of f)" "length (memory_of f) < 2 ^ 32"
    using assms(1) by (auto simp: driver_ready_def)
  have "bounds_check addr len 0 (length (memory_of f)) \<noteq> Ok a" for a
    using bounds_check_Ok_iff [OF cap(2)] assms(2) by simp
  moreover have "bounds_check addr len 0 (length (memory_of f)) \<in> {Err SE_OutOfBounds, Ok addr}"
    by (simp add: bounds_check_def)
  ultimately have "bounds_check addr len 0 (length (memory_of f)) = Err SE_OutOfBounds"
    by blast
  with cap(1) show ?thesis by (simp add: init_and_check_addr_def)
qed

section \<open>Read, program and erase\<close>

lemma count_read_ready [simp]:
  "ready (count_read n f) = ready f" "memory_of (count_read n f) = memory_of f"
  "ready (count_read_attempt f) = ready f" "memory_of (count_read_attempt f) = memory_of f"
  by (simp_all add: count_read_def count_read_attempt_def Let_def)

lemma read_transaction:
  assumes "bus SPI [Op_Write (cmd_and_addr ReadData a mode), Op_Read n] d = (r, d')" and "engaged mode M (view d)"
    and "mode = B24 \<longrightarrow> length M \<le> 2 ^ 24" and "unat a + n \<le> length M"
  shows "view d' = view d" and "r = Ok rs \<Longrightarrow> concat rs = seg (unat a) n M"
proof -
  obtain ab where frame: "cmd_and_addr ReadData a mode = 0x03 # ab" "length ab = addr_len (mode = B32)"
    "be_addr ab + n \<le> length M" "seg (be_addr ab) n M = seg (unat a) n M"
  proof (cases "n = 0 \<and> mode = B24")
    case True
    then show ?thesis using that [of "tl (to_be_bytes a)"] assms(4)
      by (simp add: cmd_and_addr_def addr_len_def be_addr_bytes mod_le_divisor order.trans [OF mod_less_eq_dividend])
  next
    case False
    then have "mode = B24 \<Longrightarrow> unat a < 2 ^ 24" using assms(3,4) by auto
    then show ?thesis using that cmd_and_addr_frame assms(4) by (metis command_byte.simps(8))
  qed
  obtain r0 where tx: "spi_transaction SPI [Op_Write (0x03 # ab), Op_Read n] d = (r0, d')" and r0: "\<And>rs. r = Ok rs \<Longrightarrow> r0 = Ok rs"
    using assms(1) frame(1) by (auto simp: bus_def elim: map_errE)
  show "view d' = view d" by (rule read_view [OF tx])
  show "concat rs = seg (unat a) n M" if "r = Ok rs"
    using read_data [of ab n d rs d'] tx r0 [OF that] assms(2) frame by (simp add: engaged_def)
qed

lemma spi_flash_read_effect:
  assumes "spi_flash_read SPI a n f = (r, f')" and "ready f"
  shows "ready f'" and "memory_of f' = memory_of f"
    and "r = Ok bs \<Longrightarrow> unat a + n \<le> length (memory_of f) \<and> bs = seg (unat a) n (memory_of f)"
proof -
  obtain r1 f1 where init: "init_and_check_addr SPI a n (count_read_attempt f) = (r1, f1)" by fastforce
  note f1 = init_and_check_addr_effect [OF init]
  have "ready f' \<and> memory_of f' = memory_of f
    \<and> (\<forall>bs. r = Ok bs \<longrightarrow> unat a + n \<le> length (memory_of f) \<and> bs = seg (unat a) n (memory_of f))"
  proof (cases r1)
    case (Inl e)
    with assms init f1 show ?thesis by (auto simp: spi_flash_read_def)
  next
    case (Inr am)
    obtain addr mode where am: "am = (addr, mode)" by fastforce
    obtain r2 d2 where tx: "bus SPI [Op_Write (cmd_and_addr ReadData addr mode), Op_Read n] (sf_device f1) = (r2, d2)" by fastforce
    have eng: "addr = a" "unat a + n \<le> length (memory_of f)" "mode = sf_mode f1"
      "engaged mode (memory_of f) (view (sf_device f1))" "mode = B24 \<longrightarrow> length (memory_of f) \<le> 2 ^ 24"
      using f1(3) [of addr mode] assms(2) Inr am by auto
    note rd = read_transaction [OF tx eng(4,5)]
    have view: "view d2 = view (sf_device f1)" using rd(1) eng(1,2) by simp
    then have "ready (f1\<lparr>sf_device := d2\<rparr>)" "memory_of (f1\<lparr>sf_device := d2\<rparr>) = memory_of f"
      using engaged_ready [of f1 "memory_of f" d2] f1(1,2) assms(2) eng(3,4) by auto
    moreover have "r = (case r2 of Err e \<Rightarrow> Err e | Ok rs \<Rightarrow> Ok (concat rs))" "f' = flash_sleep SPI (count_read n (f1\<lparr>sf_device := d2\<rparr>))"
      using assms(1) init Inr am tx by (auto simp: spi_flash_read_def attempt_def on_device_def)
    ultimately show ?thesis
      using flash_sleep_ready [of "count_read n (f1\<lparr>sf_device := d2\<rparr>)"] rd(2) eng(1,2) by (auto split: sum.splits)
  qed
  then show "ready f'" and "memory_of f' = memory_of f"
    and "r = Ok bs \<Longrightarrow> unat a + n \<le> length (memory_of f) \<and> bs = seg (unat a) n (memory_of f)" by auto
qed

lemma spi_flash_program_effect:
  assumes "spi_flash_program SPI a bs f = (r, f')" and "ready f"
  shows "same_outside (unat a) (unat a + length bs) (memory_of f) (memory_of f')"
    and "only_clears (memory_of f) (memory_of f')"
    and "r = Ok () \<Longrightarrow> ready f' \<and> unat a + length bs \<le> length (memory_of f)
      \<and> programmed (unat a) bs (memory_of f) (memory_of f')"
proof -
  obtain r1 f1 where init: "init_and_check_addr SPI a (length bs) f = (r1, f1)" by fastforce
  note f1 = init_and_check_addr_effect [OF init assms(2)]
  have "same_outside (unat a) (unat a + length bs) (memory_of f) (memory_of f') \<and> only_clears (memory_of f) (memory_of f')
    \<and> (r = Ok () \<longrightarrow> ready f' \<and> unat a + length bs \<le> length (memory_of f)
      \<and> programmed (unat a) bs (memory_of f) (memory_of f'))"
  proof (cases r1)
    case (Inl e)
    with assms init f1 show ?thesis by (auto simp: spi_flash_program_def)
  next
    case (Inr am)
    obtain addr mode where am: "am = (addr, mode)" by fastforce
    define t where "t = fd_program_timeout_us (sf_cfg f)"
    have cfg: "fd_page_size (sf_cfg f) = page" "0 < page" "length (memory_of f) < 2 ^ 32"
      using assms(2) by (auto simp: driver_ready_def)
    have eng: "addr = a" "unat a + length bs \<le> length (memory_of f)" "mode = sf_mode f1"
      "engaged mode (memory_of f) (view (sf_device f1))" "mode = B24 \<Longrightarrow> length (memory_of f) \<le> 2 ^ 24"
      using f1(3) [of addr mode] Inr am by auto
    obtain r2 d2 where loop: "program_loop SPI t page mode (length bs) a bs (sf_device f1) = (r2, d2)" by fastforce
    obtain M' where M': "working mode M' (view d2)" "r2 = Ok () \<longrightarrow> engaged mode M' (view d2)"
      "same_outside (unat a) (unat a + length bs) (memory_of f) M'" "only_clears (memory_of f) M'"
      "r2 = Ok () \<longrightarrow> programmed (unat a) bs (memory_of f) M'"
      using program_loop_effect [OF loop eng(4,5) cfg(3,2) eng(2) order.refl] by blast
    have res: "r = r2" "f' = flash_sleep SPI (f1\<lparr>sf_device := d2\<rparr>)"
      using assms(1) init Inr am loop eng(1) cfg(1) by (auto simp: spi_flash_program_def attempt_def on_device_def t_def)
    have mem: "memory_of f' = M'" using M'(1) by (simp add: res(2) flash_sleep_mem) (simp add: flash_mem_def working_def)
    have "r = Ok () \<longrightarrow> ready f'"
      using engaged_ready(1) [of f1 M' d2] f1(1,2) M'(2) eng(3) same_outside_length [OF M'(3)] flash_sleep_ready(1) res by auto
    with M' mem eng(2) res(1) show ?thesis by simp
  qed
  then show "same_outside (unat a) (unat a + length bs) (memory_of f) (memory_of f')"
    and "only_clears (memory_of f) (memory_of f')"
    and "r = Ok () \<Longrightarrow> ready f' \<and> unat a + length bs \<le> length (memory_of f)
      \<and> programmed (unat a) bs (memory_of f) (memory_of f')" by auto
qed

lemma spi_flash_erase_effect:
  assumes "spi_flash_erase SPI a len f = (r, f')" and "ready f"
  shows "same_outside (unat a) (unat a + len) (memory_of f) (memory_of f')"
    and "r = Ok x \<Longrightarrow> ready f' \<and> x = (a, len) \<and> unat a + len \<le> length (memory_of f)
      \<and> sector dvd unat a \<and> sector dvd len \<and> erased (unat a) len (memory_of f')"
proof -
  define f0 where "f0 = f\<lparr>sf_stats := (sf_stats f)\<lparr>st_erase_attempts := st_erase_attempts (sf_stats f) + 1\<rparr>\<rparr>"
  have f0: "ready f0" "memory_of f0 = memory_of f" "sf_cfg f0 = sf_cfg f" using assms(2) by (simp_all add: f0_def)
  have cfg: "fd_erase_size (sf_cfg f) = sector" "0 < sector" "length (memory_of f) < 2 ^ 32"
    using assms(2) by (auto simp: driver_ready_def)
  obtain r1 f1 where init: "init_and_check_addr SPI a len f0 = (r1, f1)" by fastforce
  note f1 = init_and_check_addr_effect [OF init f0(1), unfolded f0(2)]
  have "same_outside (unat a) (unat a + len) (memory_of f) (memory_of f')
    \<and> (\<forall>x. r = Ok x \<longrightarrow> ready f' \<and> x = (a, len) \<and> unat a + len \<le> length (memory_of f)
      \<and> sector dvd unat a \<and> sector dvd len \<and> erased (unat a) len (memory_of f'))"
  proof (cases r1)
    case (Inl e)
    with assms init f1(1,2) show ?thesis by (auto simp: spi_flash_erase_def Let_def f0_def)
  next
    case (Inr am)
    obtain addr mode where am: "am = (addr, mode)" by fastforce
    have eng: "addr = a" "unat a + len \<le> length (memory_of f)" "mode = sf_mode f1"
      "engaged mode (memory_of f) (view (sf_device f1))" "mode = B24 \<Longrightarrow> length (memory_of f) \<le> 2 ^ 24"
      using f1(3) [of addr mode] Inr am by auto
    show ?thesis
    proof (cases "sector dvd unat a \<and> sector dvd len")
      case False
      with assms(1) init Inr am eng(1) cfg(1) have "f' = flash_sleep SPI f1" "r = Err SE_Alignment"
        by (auto simp: spi_flash_erase_def Let_def f0_def [symmetric] sleep_and_throw_def)
      with f1(2) show ?thesis by (simp add: flash_sleep_mem)
    next
      case True
      then obtain n where len: "len = n * sector" by (metis dvd_def mult.commute)
      define t where "t = fd_erase_timeout_us (sf_cfg f)"
      define cmd where "cmd = (case mode of B24 \<Rightarrow> EraseSector | B32 \<Rightarrow> EraseSector4B)"
      obtain r2 d2 where loop: "erase_loop SPI t cmd mode (erase_addrs a len sector) (sf_device f1) = (r2, d2)" by fastforce
      obtain M' where M': "working mode M' (view d2)" "r2 = Ok () \<longrightarrow> engaged mode M' (view d2)"
        "same_outside (unat a) (unat a + len) (memory_of f) M'" "r2 = Ok () \<longrightarrow> erased (unat a) len M'"
        using erase_loop_effect [OF loop [unfolded cmd_def len] eng(4,5) cfg(3,2)] True eng(2) len by blast
      have res: "r = (case r2 of Err e \<Rightarrow> Err e | Ok _ \<Rightarrow> Ok (a, len))" "f' = flash_sleep SPI (f1\<lparr>sf_device := d2\<rparr>)"
        using assms(1) init Inr am loop eng(1) cfg(1) True
        by (auto simp: spi_flash_erase_def Let_def f0_def [symmetric] t_def [symmetric] cmd_def [symmetric] attempt_def on_device_def)
      have mem: "memory_of f' = M'" using M'(1) by (simp add: res(2) flash_sleep_mem) (simp add: flash_mem_def working_def)
      have "r2 = Ok () \<longrightarrow> ready f'"
        using engaged_ready(1) [of f1 M' d2] f1(1,2) M'(2) eng(3) same_outside_length [OF M'(3)] flash_sleep_ready(1) res(2) by auto
      with M' mem eng(2) res(1) True show ?thesis by (auto split: sum.splits)
    qed
  qed
  then show "same_outside (unat a) (unat a + len) (memory_of f) (memory_of f')"
    and "r = Ok x \<Longrightarrow> ready f' \<and> x = (a, len) \<and> unat a + len \<le> length (memory_of f)
      \<and> sector dvd unat a \<and> sector dvd len \<and> erased (unat a) len (memory_of f')" by auto
qed

lemma detect_type_effect:
  assumes "detect_type SPI f = (r, f')" and "ready f"
  shows "ready f' \<and> memory_of f' = memory_of f
    \<and> (\<forall>m. r = Ok m \<longrightarrow> sf_awake f' \<and> (\<exists>k \<le> 31. length (memory_of f) = 2 ^ k))"
  using assms(1) unfolding detect_type_def
proof (cases rule: and_thenE)
  case err
  with wakeup_effect [of f] assms(2) show ?thesis by fastforce
next
  case (ok u f1)
  have f1: "ready f1" "memory_of f1 = memory_of f" "sf_awake f1"
    using wakeup_effect [OF ok(1) assms(2)] by auto
  obtain r2 d2 where reg: "read_reg SPI ReadJEDEC 3 (sf_device f1) = (r2, d2)" by fastforce
  have "view d2 = view (sf_device f1)" using read_reg_view(1) [OF reg] by simp
  then have f2: "ready (f1\<lparr>sf_device := d2\<rparr>)" "memory_of (f1\<lparr>sf_device := d2\<rparr>) = memory_of f"
    using driver_ready_step [OF f1(1), of "f1\<lparr>sf_device := d2\<rparr>"] f1 ready_listening [OF f1(1,3)]
    by (auto simp: listening_def)
  note slept = flash_sleep_ready [OF f2(1)]
  have cap: "fd_total_size (sf_cfg f1) = length (memory_of f)" using f1 by (simp add: driver_ready_def)
  from ok(2) reg f1(3) f2 slept cap show ?thesis
    by (auto simp: attempt_def on_device_def sleep_and_throw_def Let_def split: sum.splits if_splits option.splits)
      (metis not_less)
qed

lemma erase_out_of_bounds:
  assumes "ready f" and "length (memory_of f) < unat a + len" and "spi_flash_erase SPI a len f = (r, f')"
  shows "r = Err SE_OutOfBounds" and "memory_of f' = memory_of f"
  using assms init_out_of_bounds [of "f\<lparr>sf_stats := (sf_stats f)\<lparr>st_erase_attempts := st_erase_attempts (sf_stats f) + 1\<rparr>\<rparr>" a len]
  by (auto simp: spi_flash_erase_def Let_def)

end

end
