(* ===== verification/Spi_Progress.thy ===== *)
theory Spi_Progress
  imports Spi_Driver
begin

text \<open>
  On a bus that works and with a chip that keeps its times, the operations of the driver succeed.
  \<open>responsive_chip\<close> adds to the documented behaviour that transactions succeed and how long the
  chip is busy. The driver polls ten times with a tenth of the timeout between two polls and does
  not poll after the last wait, so it needs the chip to be done within nine tenths of the timeout.
\<close>

section \<open>Actions that succeed\<close>

definition succeeds :: "('s \<Rightarrow> bool) \<Rightarrow> ('s, 'a, 'e) action \<Rightarrow> 's \<Rightarrow> bool" where
  "succeeds good m s \<longleftrightarrow> (\<exists>x s'. m s = (Ok x, s') \<and> good s')"

lemma succeeds_and_then:
  assumes "succeeds good m s" and "\<And>x s'. m s = (Ok x, s') \<Longrightarrow> good s' \<Longrightarrow> succeeds good (k x) s'"
  shows "succeeds good (and_then m k) s"
  using assms by (auto simp: succeeds_def and_then_def)

lemma succeeds_ret [simp]: "succeeds good (ret x) s \<longleftrightarrow> good s"
  by (simp add: succeeds_def)

lemma succeeds_on_device:
  "succeeds (good \<circ> sf_device) (on_device m) f \<longleftrightarrow> succeeds good m (sf_device f)"
  by (auto simp: succeeds_def on_device_def split: prod.splits)

section \<open>Chips that keep their times\<close>

locale responsive_chip = spi_flash_chip SPI view page sector t_sleep
  for SPI :: "'d spi_device" and view :: "'d \<Rightarrow> chip_view" and page sector t_sleep +
  fixes good :: "'d \<Rightarrow> bool" and busy_us :: "'d \<Rightarrow> nat" and t_program t_erase :: nat
  assumes transaction_good: "good d \<Longrightarrow> succeeds good (spi_transaction SPI ops) d"
    and delay_good: "good d \<Longrightarrow> good (spi_delay_us SPI t d)"
    and busy_iff: "good d \<Longrightarrow> cv_busy (view d) \<longleftrightarrow> 0 < busy_us d"
    and delay_busy: "good d \<Longrightarrow> busy_us (spi_delay_us SPI t d) \<le> busy_us d - t"
    and status_busy: "good d \<Longrightarrow> spi_transaction SPI [Op_Write [0x05], Op_Read 1] d = (r, d') \<Longrightarrow> busy_us d' \<le> busy_us d"
    and latch_set: "good d \<Longrightarrow> listening (view d) \<Longrightarrow> spi_transaction SPI [Op_Write [0x06]] d = (Ok rs, d') \<Longrightarrow> cv_wel (view d')"
    and program_busy: "good d \<Longrightarrow> listening (view d) \<Longrightarrow>
      spi_transaction SPI [Op_Write (0x02 # ab), Op_Write bs] d = (r, d') \<Longrightarrow> busy_us d' \<le> t_program"
    and erase_busy: "good d \<Longrightarrow> listening (view d) \<Longrightarrow> b \<in> {0x20, 0x21} \<Longrightarrow>
      spi_transaction SPI [Op_Write (b # ab)] d = (r, d') \<Longrightarrow> busy_us d' \<le> t_erase"
begin

lemma bus_succeeds: "good d \<Longrightarrow> succeeds good (bus SPI ops) d"
  using transaction_good [of d ops] by (auto simp: succeeds_def bus_def)

lemma send_command_succeeds: "good d \<Longrightarrow> succeeds good (send_command SPI cmd) d"
  unfolding send_command_def by (rule succeeds_and_then) (simp_all add: bus_succeeds)

lemma flash_status_succeeds: "good d \<Longrightarrow> succeeds good (flash_status SPI) d"
  unfolding flash_status_def read_reg_def by (intro succeeds_and_then) (simp_all add: bus_succeeds)

lemma flash_status_busy: "good d \<Longrightarrow> flash_status SPI d = (r, d') \<Longrightarrow> busy_us d' \<le> busy_us d"
  using status_busy [of d]
  by (cases "spi_transaction SPI [Op_Write [0x05], Op_Read 1] d")
    (auto simp: flash_status_def read_reg_def bus_def and_then_def map_err_def split: sum.splits)

lemma is_ready_loop_succeeds:
  assumes "good d" and "cv_awake (view d)" and "busy_us d \<le> n * step"
  shows "succeeds good (is_ready_loop SPI step (Suc n)) d"
  using assms
proof (induction n arbitrary: d)
  case (0 d)
  show ?case unfolding is_ready_loop.simps
  proof (rule succeeds_and_then [OF flash_status_succeeds [OF 0(1)]])
    fix st d1 assume st: "flash_status SPI d = (Ok st, d1)" "good d1"
    have "\<not> status_is_busy st"
      using flash_status_view(2) [OF st(1) _ 0(2)] busy_iff [OF 0(1)] 0(3) by simp
    with st(2) show "succeeds good (if \<not> status_is_busy st then ret ()
        else and_then (delay_us SPI step) (\<lambda>_. throw SE_Timeout)) d1" by simp
  qed
next
  case (Suc n d)
  show ?case unfolding is_ready_loop.simps(2) [of SPI step "Suc n"]
  proof (rule succeeds_and_then [OF flash_status_succeeds [OF Suc.prems(1)]])
    fix st d1 assume st: "flash_status SPI d = (Ok st, d1)" "good d1"
    define d2 where "d2 = spi_delay_us SPI step d1"
    have "busy_us d2 \<le> n * step"
      using flash_status_busy [OF Suc.prems(1) st(1)] delay_busy [OF st(2), of step] Suc.prems(3) by (simp add: d2_def)
    moreover have "cv_awake (view d2)"
      using flash_status_view(1) [OF st(1)] delay [of d1 step] Suc.prems(2) by (simp add: d2_def)
    moreover have "good d2" using delay_good st(2) by (simp add: d2_def)
    ultimately have "succeeds good (is_ready_loop SPI step (Suc n)) d2" using Suc.IH by blast
    then show "succeeds good (if \<not> status_is_busy st then ret ()
        else and_then (delay_us SPI step) (\<lambda>_. is_ready_loop SPI step (Suc n))) d1"
      using st(2) by (simp add: succeeds_def and_then_def delay_us_def d2_def del: is_ready_loop.simps)
  qed
qed

lemma is_ready_succeeds:
  assumes "good d" and "cv_awake (view d)" and "busy_us d \<le> 9 * unat (timeout_us div 10)"
  shows "succeeds good (is_ready SPI timeout_us) d"
  using is_ready_loop_succeeds [OF assms] unfolding is_ready_def by (simp del: is_ready_loop.simps)

lemma write_enable_succeeds:
  assumes "good d" and "engaged mode M (view d)"
  shows "succeeds good (write_enable SPI) d"
  unfolding write_enable_def
proof (rule succeeds_and_then [OF send_command_succeeds [OF assms(1)]])
  fix x d1 assume cmd: "send_command SPI WriteEnable d = (Ok x, d1)" "good d1"
  have "cv_wel (view d1)"
    using send_command_transaction [OF cmd(1)] latch_set [OF assms(1)] assms(2) by (fastforce simp: engaged_def)
  moreover have "cv_awake (view d1)"
    using send_command_transaction [OF cmd(1)] plain_command [of "0x06" d _ d1] assms(2)
    by (fastforce simp: engaged_def listening_def)
  ultimately have "status_is_write_enable_set st" if "flash_status SPI d1 = (Ok st, d2)" for st d2
    using flash_status_view(2) [OF that] by simp
  then show "succeeds good (and_then (flash_status SPI) (\<lambda>st. if status_is_write_enable_set st then ret () else throw SE_Write)) d1"
    by (intro succeeds_and_then [OF flash_status_succeeds [OF cmd(2)]]) simp
qed

lemma program_page_succeeds:
  assumes "good d" and "engaged mode M (view d)" and "mode = B24 \<Longrightarrow> unat a < 2 ^ 24"
    and "unat a mod page + length bs \<le> page" and "unat a + length bs \<le> length M"
    and "t_program \<le> 9 * unat (timeout_us div 10)"
  shows "succeeds good (program_page SPI timeout_us (cmd_and_addr ProgramPage a mode) bs) d"
  unfolding program_page_def
proof (intro succeeds_and_then [OF write_enable_succeeds [OF assms(1,2)]] succeeds_and_then [OF bus_succeeds])
  fix x d1 rs d2
  assume we: "write_enable SPI d = (Ok x, d1)" "good d1"
    and tx: "bus SPI [Op_Write (cmd_and_addr ProgramPage a mode), Op_Write bs] d1 = (Ok rs, d2)" "good d2"
  obtain ab where ab: "cmd_and_addr ProgramPage a mode = 0x02 # ab" "be_addr ab = unat a" "length ab = addr_len (mode = B32)"
    using cmd_and_addr_frame assms(3) by (metis command_byte.simps(13))
  have en: "engaged mode M (view d1)" "cv_wel (view d1)" using write_enable_view [OF we(1) assms(2)] by auto
  have tx': "spi_transaction SPI [Op_Write (0x02 # ab), Op_Write bs] d1 = (Ok rs, d2)"
    using tx(1) ab(1) by (simp add: bus_def)
  have "cv_awake (view d2)" using program [OF tx'] en assms(4,5) ab by (simp add: engaged_def)
  moreover have "busy_us d2 \<le> t_program" using program_busy [OF we(2) _ tx'] en by (simp add: engaged_def)
  ultimately show "succeeds good (is_ready SPI timeout_us) d2"
    using is_ready_succeeds tx(2) assms(6) by simp
qed

lemma program_loop_succeeds:
  assumes "good d" and "engaged mode M (view d)" and "mode = B24 \<Longrightarrow> length M \<le> 2 ^ 24" and "length M < 2 ^ 32"
    and "0 < page" and "unat a + length bs \<le> length M" and "length bs \<le> fuel"
    and "t_program \<le> 9 * unat (timeout_us div 10)"
  shows "succeeds good (program_loop SPI timeout_us page mode fuel a bs) d"
  using assms
proof (induction fuel arbitrary: a bs d M)
  case 0
  then show ?case by (simp add: program_loop_Nil succeeds_def)
next
  case (Suc k)
  show ?case
  proof (cases "bs = []")
    case True
    with Suc.prems(1) show ?thesis by (simp add: program_loop_Nil succeeds_def)
  next
    case False
    have small: "unat a + length bs < 2 ^ 32" using Suc.prems(4,6) by simp
    obtain n where n: "0 < n" "n \<le> length bs" "unat a mod page + n \<le> page" and next_addr: "unat (a + of_nat n) = unat a + n"
      and unfold: "program_loop SPI timeout_us page mode (Suc k) a bs =
        and_then (program_page SPI timeout_us (cmd_and_addr ProgramPage a mode) (take n bs)) (\<lambda>_.
          program_loop SPI timeout_us page mode k (a + of_nat n) (drop n bs))"
      by (rule program_round [OF False Suc.prems(5) small])
    have b24: "unat a < 2 ^ 24" if "mode = B24" using Suc.prems(3) [OF that] Suc.prems(6) n by simp
    have len: "length (take n bs) = n" and fuel: "length (drop n bs) \<le> k" using n Suc.prems(7) by auto
    have fits: "unat a + n \<le> length M" using n Suc.prems(6) by simp
    show ?thesis unfolding unfold
    proof (rule succeeds_and_then)
      show "succeeds good (program_page SPI timeout_us (cmd_and_addr ProgramPage a mode) (take n bs)) d"
        by (rule program_page_succeeds [OF Suc.prems(1,2) b24]) (use len n(3) fits Suc.prems(8) in simp_all)
    next
      fix x d1 assume page1: "program_page SPI timeout_us (cmd_and_addr ProgramPage a mode) (take n bs) d = (Ok x, d1)" and "good d1"
      obtain M1 where M1: "engaged mode M1 (view d1)" "same_outside (unat a) (unat a + n) M M1"
        by (rule program_page_effect [OF page1 Suc.prems(2) b24, unfolded len]) (use n(3) fits in auto)
      show "succeeds good (program_loop SPI timeout_us page mode k (a + of_nat n) (drop n bs)) d1"
        using Suc.IH [OF \<open>good d1\<close> M1(1) _ _ Suc.prems(5) _ fuel Suc.prems(8)] Suc.prems(3,4,6) n next_addr
          same_outside_length [OF M1(2)] by simp
    qed
  qed
qed

lemma erase_loop_succeeds:
  assumes "good d" and "engaged mode M (view d)"
    and "mode = B24 \<Longrightarrow> length M \<le> 2 ^ 24" and "length M < 2 ^ 32" and "0 < sector"
    and "sector dvd unat a" and "unat a + n * sector \<le> length M"
    and "t_erase \<le> 9 * unat (timeout_us div 10)"
  shows "succeeds good (erase_loop SPI timeout_us (case mode of B24 \<Rightarrow> EraseSector | B32 \<Rightarrow> EraseSector4B) mode
      (erase_addrs a (n * sector) sector)) d"
  using assms
proof (induction n arbitrary: a d M)
  case 0
  then show ?case by (simp add: erase_addrs_def succeeds_def)
next
  case (Suc n)
  define cmd where "cmd = (case mode of B24 \<Rightarrow> EraseSector | B32 \<Rightarrow> EraseSector4B)"
  have b24: "unat a < 2 ^ 24" if "mode = B24" using Suc.prems(3) [OF that] Suc.prems(5,7) by simp
  have fits: "unat a + sector \<le> length M" using Suc.prems(7) by simp
  obtain ab where ab: "cmd_and_addr cmd a mode = command_byte cmd # ab" "be_addr ab = unat a" "length ab = addr_len (mode = B32)"
    using cmd_and_addr_frame b24 by metis
  show ?case unfolding erase_addrs_Suc [OF Suc.prems(5)] erase_loop_Cons cmd_def [symmetric]
  proof (rule succeeds_and_then)
    show "succeeds good (and_then (write_enable SPI) (\<lambda>_. and_then (bus SPI [Op_Write (cmd_and_addr cmd a mode)]) (\<lambda>_.
        is_ready SPI timeout_us))) d"
    proof (intro succeeds_and_then [OF write_enable_succeeds [OF Suc.prems(1,2)]] succeeds_and_then [OF bus_succeeds])
      fix x d1 rs d2
      assume we: "write_enable SPI d = (Ok x, d1)" "good d1"
        and tx: "bus SPI [Op_Write (cmd_and_addr cmd a mode)] d1 = (Ok rs, d2)" "good d2"
      have en: "engaged mode M (view d1)" "cv_wel (view d1)" using write_enable_view [OF we(1) Suc.prems(2)] by auto
      have tx': "spi_transaction SPI [Op_Write (command_byte cmd # ab)] d1 = (Ok rs, d2)"
        using tx(1) ab(1) by (simp add: bus_def)
      have form: "command_byte cmd = 0x20 \<and> length ab = addr_len (cv_wide (view d1)) \<or> command_byte cmd = 0x21 \<and> length ab = 4"
        using en ab(3) by (cases mode) (auto simp: cmd_def engaged_def addr_len_def)
      have "cv_awake (view d2)" using erase_sector [OF tx' form] en Suc.prems(6) fits ab(2) by (simp add: engaged_def)
      moreover have "busy_us d2 \<le> t_erase" using erase_busy [OF we(2) _ _ tx'] en form by (auto simp: engaged_def)
      ultimately show "succeeds good (is_ready SPI timeout_us) d2" using is_ready_succeeds tx(2) Suc.prems(8) by simp
    qed
  next
    fix x d1
    assume step: "and_then (write_enable SPI) (\<lambda>_. and_then (bus SPI [Op_Write (cmd_and_addr cmd a mode)]) (\<lambda>_.
        is_ready SPI timeout_us)) d = (Ok x, d1)" and "good d1"
    obtain M1 where M1: "engaged mode M1 (view d1)" "same_outside (unat a) (unat a + sector) M M1"
      by (rule erase_sector_effect [OF step [unfolded cmd_def] Suc.prems(2) b24 Suc.prems(6) fits]) auto
    have "unat (a + of_nat sector) = unat a + sector"
      using Suc.prems(4,7) by (subst unat_add_lem [THEN iffD1]) (auto simp: unat_of_nat)
    then show "succeeds good (erase_loop SPI timeout_us cmd mode (erase_addrs (a + of_nat sector) (n * sector) sector)) d1"
      unfolding cmd_def
      using Suc.IH [OF \<open>good d1\<close> M1(1) _ _ Suc.prems(5) _ _ Suc.prems(8)] Suc.prems(3,4,6,7) same_outside_length [OF M1(2)] by simp
  qed
qed

lemma sleep_attempts_good: "good d \<Longrightarrow> good (sleep_attempts SPI n d)"
proof (induction n arbitrary: d)
  case (Suc n)
  then show ?case using send_command_succeeds [of d Sleep] by (auto simp: succeeds_def)
qed simp

lemma wakeup_succeeds:
  fixes f :: "'d spi_flash"
  shows "good (sf_device f) \<Longrightarrow> succeeds (good \<circ> sf_device) (wakeup SPI) f"
  using send_command_succeeds [of "spi_delay_us SPI (unat (sf_sleep_delay_us f)) (sf_device f)" Wakeup] delay_good
  by (auto simp: succeeds_def wakeup_def numeral_eq_Suc delay_us_def and_then_def attempt_def)

lemma enter_4_byte_mode_succeeds:
  fixes f :: "'d spi_flash"
  shows "good (sf_device f) \<Longrightarrow> succeeds (good \<circ> sf_device) (enter_4_byte_mode SPI) f"
  unfolding enter_4_byte_mode_def
proof (rule succeeds_and_then [OF wakeup_succeeds])
  fix x and f' :: "'d spi_flash" assume "(good \<circ> sf_device) f'"
  then show "succeeds (good \<circ> sf_device) (attempt (on_device (send_command SPI Enter4ByteMode)) (\<lambda>r. case r of
      Err err \<Rightarrow> sleep_and_throw SPI err | Ok _ \<Rightarrow> (\<lambda>f. (Ok (), f\<lparr>sf_mode := B32\<rparr>)))) f'"
    using send_command_succeeds [of "sf_device f'" Enter4ByteMode] by (auto simp: succeeds_def attempt_def on_device_def)
qed

lemma init_and_check_addr_succeeds:
  fixes f :: "'d spi_flash"
  assumes "good (sf_device f)" and "ready f" and "unat a + len \<le> length (memory_of f)"
  shows "succeeds (good \<circ> sf_device) (init_and_check_addr SPI a len) f"
proof -
  have "bounds_check a len 0 (fd_total_size (sf_cfg f)) = Ok a"
    using assms(2,3) bounds_check_Ok_iff [of "length (memory_of f)" a len a] by (simp add: driver_ready_def)
  moreover have "succeeds (good \<circ> sf_device) (and_then (if sf_mode f = B24 \<and> above_16mb (fd_total_size (sf_cfg f))
        then enter_4_byte_mode SPI else ret ()) (\<lambda>_. and_then (wakeup SPI) (\<lambda>_ f'. (Ok (a, sf_mode f'), f')))) f"
  proof (intro succeeds_and_then)
    show "succeeds (good \<circ> sf_device) (if sf_mode f = B24 \<and> above_16mb (fd_total_size (sf_cfg f))
        then enter_4_byte_mode SPI else ret ()) f"
      using enter_4_byte_mode_succeeds assms(1) by (auto simp: succeeds_def)
  qed (auto simp: wakeup_succeeds, auto simp: succeeds_def)
  ultimately show ?thesis by (simp add: succeeds_def init_and_check_addr_def)
qed

text \<open>The shape shared by the operations: after \<open>init_and_check_addr\<close>, a device action and sleep.\<close>

lemma succeeds_then_sleep:
  fixes f :: "'d spi_flash"
  assumes "succeeds good m (sf_device f)" and "\<And>d. g (f\<lparr>sf_device := d\<rparr>) = (h d)\<lparr>sf_device := d\<rparr>"
    and "\<And>x. \<exists>y. res (Ok x) = Ok y"
  shows "succeeds (good \<circ> sf_device) (attempt (on_device m) (\<lambda>r f1. (res r, flash_sleep SPI (g f1)))) f"
proof -
  obtain x d where m: "m (sf_device f) = (Ok x, d)" "good d" using assms(1) by (auto simp: succeeds_def)
  moreover obtain y where "res (Ok x) = Ok y" using assms(3) by blast
  moreover have "sf_device (g (f\<lparr>sf_device := d\<rparr>)) = d" by (simp add: assms(2))
  ultimately show ?thesis
    by (simp add: succeeds_def attempt_def on_device_def flash_sleep_def sleep_attempts_good)
qed

lemma spi_flash_program_succeeds:
  fixes f :: "'d spi_flash"
  assumes "good (sf_device f)" and "ready f" and "unat a + length bs \<le> length (memory_of f)"
    and "t_program \<le> 9 * unat (fd_program_timeout_us (sf_cfg f) div 10)"
  shows "succeeds (good \<circ> sf_device) (spi_flash_program SPI a bs) f"
proof -
  have cfg: "fd_page_size (sf_cfg f) = page" "0 < page" "length (memory_of f) < 2 ^ 32"
    using assms(2) by (auto simp: driver_ready_def)
  have "succeeds (good \<circ> sf_device) (and_then (init_and_check_addr SPI a (length bs)) (\<lambda>(addr, mode).
      attempt (on_device (program_loop SPI (fd_program_timeout_us (sf_cfg f)) page mode (length bs) addr bs)) (\<lambda>result f1.
        (result, flash_sleep SPI f1)))) f"
  proof (rule succeeds_and_then [OF init_and_check_addr_succeeds [OF assms(1-3)]])
    fix am and f1 :: "'d spi_flash" assume init: "init_and_check_addr SPI a (length bs) f = (Ok am, f1)" and "(good \<circ> sf_device) f1"
    obtain addr mode where am: "am = (addr, mode)" by fastforce
    have "succeeds good (program_loop SPI (fd_program_timeout_us (sf_cfg f)) page mode (length bs) addr bs) (sf_device f1)"
      using init_and_check_addr_effect(3) [OF init assms(2), of addr mode] am cfg assms(4) \<open>(good \<circ> sf_device) f1\<close>
      by (intro program_loop_succeeds [of _ _ "memory_of f"]) auto
    from succeeds_then_sleep [OF this, of "\<lambda>f. f" "\<lambda>d. f1\<lparr>sf_device := d\<rparr>" "\<lambda>r. r"]
    show "succeeds (good \<circ> sf_device) (case am of (addr, mode) \<Rightarrow>
        attempt (on_device (program_loop SPI (fd_program_timeout_us (sf_cfg f)) page mode (length bs) addr bs)) (\<lambda>result f1.
          (result, flash_sleep SPI f1))) f1"
      by (simp add: am)
  qed
  then show ?thesis by (simp add: succeeds_def spi_flash_program_def Let_def cfg(1))
qed

lemma spi_flash_read_succeeds:
  fixes f :: "'d spi_flash"
  assumes "good (sf_device f)" and "ready f" and "unat a + n \<le> length (memory_of f)"
  shows "succeeds (good \<circ> sf_device) (spi_flash_read SPI a n) f"
proof -
  have "sf_device (count_read_attempt f) = sf_device f" by (simp add: count_read_attempt_def Let_def)
  then have "succeeds (good \<circ> sf_device) (and_then (init_and_check_addr SPI a n) (\<lambda>(addr, mode).
      attempt (on_device (bus SPI [Op_Write (cmd_and_addr ReadData addr mode), Op_Read n])) (\<lambda>result f1.
       (case result of Err e \<Rightarrow> Err e | Ok rs \<Rightarrow> Ok (concat rs), flash_sleep SPI (count_read n f1))))) (count_read_attempt f)"
  proof (intro succeeds_and_then [OF init_and_check_addr_succeeds])
    fix am and f1 :: "'d spi_flash" assume "(good \<circ> sf_device) f1"
    then show "succeeds (good \<circ> sf_device) (case am of (addr, mode) \<Rightarrow>
        attempt (on_device (bus SPI [Op_Write (cmd_and_addr ReadData addr mode), Op_Read n])) (\<lambda>result f1.
         (case result of Err e \<Rightarrow> Err e | Ok rs \<Rightarrow> Ok (concat rs), flash_sleep SPI (count_read n f1)))) f1"
      using succeeds_then_sleep [of _ f1 "count_read n" "\<lambda>d. count_read n (f1\<lparr>sf_device := d\<rparr>)"
          "\<lambda>r. case r of Err e \<Rightarrow> Err e | Ok rs \<Rightarrow> Ok (concat rs)", OF bus_succeeds]
      by (simp add: count_read_def split: prod.splits)
  qed (use assms in simp_all)
  then show ?thesis by (simp add: succeeds_def spi_flash_read_def)
qed

lemma spi_flash_erase_succeeds:
  fixes f :: "'d spi_flash"
  assumes "good (sf_device f)" and "ready f" and "unat a + len \<le> length (memory_of f)"
    and "sector dvd unat a" and "sector dvd len"
    and "t_erase \<le> 9 * unat (fd_erase_timeout_us (sf_cfg f) div 10)"
  shows "succeeds (good \<circ> sf_device) (spi_flash_erase SPI a len) f"
proof -
  define f0 where "f0 = f\<lparr>sf_stats := (sf_stats f)\<lparr>st_erase_attempts := st_erase_attempts (sf_stats f) + 1\<rparr>\<rparr>"
  have f0: "good (sf_device f0)" "ready f0" "unat a + len \<le> length (memory_of f0)" using assms(1-3) by (simp_all add: f0_def)
  have cfg: "fd_erase_size (sf_cfg f) = sector" "0 < sector" "length (memory_of f0) < 2 ^ 32"
    using assms(2) by (auto simp: driver_ready_def f0_def)
  obtain n where len: "len = n * sector" using assms(5) by (metis dvd_def mult.commute)
  have "succeeds (good \<circ> sf_device) (and_then (init_and_check_addr SPI a len) (\<lambda>(addr, mode).
      if \<not> sector dvd unat addr \<or> \<not> sector dvd len then sleep_and_throw SPI SE_Alignment
      else attempt (on_device (erase_loop SPI (fd_erase_timeout_us (sf_cfg f))
             (case mode of B24 \<Rightarrow> EraseSector | B32 \<Rightarrow> EraseSector4B) mode (erase_addrs addr len sector)))
           (\<lambda>result f1. (case result of Err e \<Rightarrow> Err e | Ok _ \<Rightarrow> Ok (addr, len), flash_sleep SPI f1)))) f0"
  proof (rule succeeds_and_then [OF init_and_check_addr_succeeds [OF f0]])
    fix am and f1 :: "'d spi_flash" assume init: "init_and_check_addr SPI a len f0 = (Ok am, f1)" and good: "(good \<circ> sf_device) f1"
    obtain addr mode where am: "am = (addr, mode)" by fastforce
    note eff = init_and_check_addr_effect(3) [OF init f0(2), of addr mode, unfolded am]
    have "succeeds good (erase_loop SPI (fd_erase_timeout_us (sf_cfg f)) (case mode of B24 \<Rightarrow> EraseSector | B32 \<Rightarrow> EraseSector4B)
        mode (erase_addrs a (n * sector) sector)) (sf_device f1)"
      using eff cfg assms(4,6) good len by (intro erase_loop_succeeds [of _ _ "memory_of f0"]) auto
    from succeeds_then_sleep [OF this, of "\<lambda>f. f" "\<lambda>d. f1\<lparr>sf_device := d\<rparr>" "\<lambda>r. case r of Err e \<Rightarrow> Err e | Ok _ \<Rightarrow> Ok (a, len)"] eff
    show "succeeds (good \<circ> sf_device) (case am of (addr, mode) \<Rightarrow>
        if \<not> sector dvd unat addr \<or> \<not> sector dvd len then sleep_and_throw SPI SE_Alignment
        else attempt (on_device (erase_loop SPI (fd_erase_timeout_us (sf_cfg f))
               (case mode of B24 \<Rightarrow> EraseSector | B32 \<Rightarrow> EraseSector4B) mode (erase_addrs addr len sector)))
             (\<lambda>result f1. (case result of Err e \<Rightarrow> Err e | Ok _ \<Rightarrow> Ok (addr, len), flash_sleep SPI f1))) f1"
      using assms(4,5) by (simp add: am len)
  qed
  then show ?thesis unfolding succeeds_def spi_flash_erase_def Let_def cfg(1) f0_def .
qed

end

section \<open>The simulated chip keeps its times\<close>

definition sim_good :: "nat \<Rightarrow> nat \<Rightarrow> sim_chip \<Rightarrow> bool" where
  "sim_good t_program t_erase c \<longleftrightarrow> sc_faults c = [] \<and> sc_program_us c \<le> t_program \<and> sc_erase_us c \<le> t_erase"

lemma sim_exec_good: "sim_exec page sector ops c = (rs, c') \<Longrightarrow> sim_good tp te c \<Longrightarrow> sim_good tp te c'"
  by (cases "(page, sector, ops, c)" rule: sim_exec.cases)
    (auto simp: sim_good_def sim_command_def sim_erase_def sim_program_def Let_def split: if_splits)

interpretation sim_timely: responsive_chip "sim_spi page sector" sim_view page sector t_sleep
  "sim_good t_program t_erase" sc_busy_us t_program t_erase
  for page sector t_sleep t_program t_erase
proof (unfold_locales, goal_cases)
  case (1 d ops)
  then show ?case
    using sim_exec_good [of page sector ops d] by (auto simp: succeeds_def sim_transaction_def sim_good_def split: prod.splits)
next
  case (8 d b ab r d')
  then show ?case
    by (auto simp: sim_good_def sim_transaction_def sim_command_def sim_erase_def sim_listening_def Let_def split: if_splits)
qed (auto simp: sim_good_def sim_delay_def sim_transaction_def sim_command_def sim_program_def sim_listening_def)

end
