(* ===== verification/Spi_Theorems.thy ===== *)
theory Spi_Theorems
  imports Spi_Progress
begin

text \<open>
  The properties of the SPI flash driver: what the storage stack may rely on when the chip behaves
  as documented, that the operations succeed when the bus works and the chip keeps its times, and
  what a read returns after a write whose status poll was lost.
\<close>

lemma spi_nor_flash_simps [simp]:
  "nf_read (spi_nor_flash SPI E) = spi_flash_read SPI"
  "nf_write (spi_nor_flash SPI E) = spi_flash_program SPI"
  "nf_capacity (spi_nor_flash SPI E) f = fd_total_size (sf_cfg f)"
  "nf_erase_size (spi_nor_flash SPI E) = E"
  by (simp_all add: spi_nor_flash_def)

lemma spi_nor_flash_erase:
  "nf_erase (spi_nor_flash SPI E) from to f = (r, f') \<Longrightarrow>
     \<exists>r0. spi_flash_erase SPI from (unat (to - from)) f = (r0, f') \<and> (r = Ok () \<longrightarrow> (\<exists>x. r0 = Ok x))"
  by (auto simp: spi_nor_flash_def and_then_def split: prod.splits sum.splits)

text \<open>A range whose end is before its start wraps around and is refused.\<close>

lemma erase_range:
  assumes "unat from + unat (to - from) \<le> n" and "n < 2 ^ 32"
  shows "unat from + unat (to - from) = unat (to :: u32)"
proof -
  have "unat to = unat (from + (to - from))" by simp
  also have "\<dots> = unat from + unat (to - from)"
    using assms by (subst unat_add_lem [THEN iffD1]) simp_all
  finally show ?thesis by simp
qed

lemma erased_and [simp]: "(0xFF :: u8) AND x = x"
proof -
  have "(0xFF :: u8) = - 1" by simp
  then show ?thesis by (simp only: and.left_neutral)
qed

text \<open>
  A small chip for the concrete runs: 16 pages of 4 bytes, sectors of 16 bytes, erased but for the
  first byte. It takes the given times to program a page and to erase a sector.
\<close>

definition ex_chip :: "nat \<Rightarrow> nat \<Rightarrow> bus_fault list \<Rightarrow> sim_chip" where
  "ex_chip program_us erase_us faults =
     \<lparr>sc_mem = 0x11 # replicate 63 0xFF, sc_busy_us = 0, sc_wel = False, sc_awake = False, sc_wide = False,
      sc_program_us = program_us, sc_erase_us = erase_us, sc_id = [0xEF, 0x60, 6], sc_faults = faults\<rparr>"

definition ex_descriptor :: flash_descriptor where
  "ex_descriptor = \<lparr>fd_page_size = 4, fd_erase_size = 16, fd_total_size = 64,
     fd_program_timeout_us = 100, fd_erase_timeout_us = 1000, fd_sleep_timeout_us = 3\<rparr>"

abbreviation "ex_flash program_us erase_us faults \<equiv> spi_flash_new (ex_chip program_us erase_us faults) ex_descriptor"

lemma ex_flash_ready: "driver_ready sim_view 4 16 3 (ex_flash pu eu faults)"
  by (rule driver_ready_new) (simp_all add: ex_descriptor_def ex_chip_def)

section \<open>Properties\<close>

text \<open>
  C12. On a chip with the documented behaviour, in every state in which the chip is idle and the
  driver knows its state (\<open>driver_ready\<close>), the driver meets the contract of the storage stack. A
  read changes nothing and returns the stored bytes. A write, successful or not, changes no byte
  outside its range and sets no bit; a successful write has programmed every byte, across all page
  boundaries and in both address modes. An erase changes nothing outside its range, and a successful
  erase has set all of it to \<open>0xFF\<close>. Reads, and writes and erases that succeed, leave the driver
  in such a state again.
\<close>

theorem spi_flash_meets_contract:
  assumes "spi_flash_chip SPI view page sector t_sleep" and "driver_ready view page sector t_sleep f"
  shows "(\<forall>a n r f'. nf_read (spi_nor_flash SPI E) a n f = (r, f') \<longrightarrow>
        driver_ready view page sector t_sleep f' \<and> flash_mem view f' = flash_mem view f
        \<and> (\<forall>bs. r = Ok bs \<longrightarrow> unat a + n \<le> length (flash_mem view f) \<and> bs = seg (unat a) n (flash_mem view f)))
    \<and> (\<forall>a bs r f'. nf_write (spi_nor_flash SPI E) a bs f = (r, f') \<longrightarrow>
        same_outside (unat a) (unat a + length bs) (flash_mem view f) (flash_mem view f')
        \<and> only_clears (flash_mem view f) (flash_mem view f')
        \<and> (r = Ok () \<longrightarrow> driver_ready view page sector t_sleep f' \<and> unat a + length bs \<le> length (flash_mem view f)
            \<and> programmed (unat a) bs (flash_mem view f) (flash_mem view f')))
    \<and> (\<forall>from to r f'. nf_erase (spi_nor_flash SPI E) from to f = (r, f') \<longrightarrow>
        same_outside (unat from) (unat to) (flash_mem view f) (flash_mem view f')
        \<and> (r = Ok () \<longrightarrow> driver_ready view page sector t_sleep f' \<and> unat from \<le> unat to
            \<and> unat to \<le> length (flash_mem view f)
            \<and> (\<forall>i. unat from \<le> i \<and> i < unat to \<longrightarrow> flash_mem view f' ! i = 0xFF)))"
proof (intro conjI allI impI)
  fix a n r f' assume "nf_read (spi_nor_flash SPI E) a n f = (r, f')"
  then have "spi_flash_read SPI a n f = (r, f')" by simp
  note eff = spi_flash_chip.spi_flash_read_effect [OF assms(1) this assms(2)]
  show "driver_ready view page sector t_sleep f'" "flash_mem view f' = flash_mem view f" by (rule eff)+
  show "unat a + n \<le> length (flash_mem view f)" "bs = seg (unat a) n (flash_mem view f)" if "r = Ok bs" for bs
    using eff(3) that by auto
next
  fix a bs r f' assume "nf_write (spi_nor_flash SPI E) a bs f = (r, f')"
  then have "spi_flash_program SPI a bs f = (r, f')" by simp
  note eff = spi_flash_chip.spi_flash_program_effect [OF assms(1) this assms(2)]
  show "same_outside (unat a) (unat a + length bs) (flash_mem view f) (flash_mem view f')"
    "only_clears (flash_mem view f) (flash_mem view f')" by (rule eff)+
  show "driver_ready view page sector t_sleep f'" "unat a + length bs \<le> length (flash_mem view f)"
    "programmed (unat a) bs (flash_mem view f) (flash_mem view f')" if "r = Ok ()"
    using eff(3) that by auto
next
  fix "from" to r f' assume "nf_erase (spi_nor_flash SPI E) from to f = (r, f')"
  then obtain r0 where er: "spi_flash_erase SPI from (unat (to - from)) f = (r0, f')" and r0: "r = Ok () \<longrightarrow> (\<exists>x. r0 = Ok x)"
    using spi_nor_flash_erase by blast
  note eff = spi_flash_chip.spi_flash_erase_effect [OF assms(1) er assms(2)]
  have cap: "length (flash_mem view f) < 2 ^ 32" using assms(2) by (simp add: driver_ready_def)
  show "same_outside (unat from) (unat to) (flash_mem view f) (flash_mem view f')"
    using eff(1) spi_flash_chip.erase_out_of_bounds [OF assms(1,2), of "from" "unat (to - from)"] er
      erase_range [OF _ cap, of "from" to]
    by (cases "unat from + unat (to - from) \<le> length (flash_mem view f)") auto
  assume "r = Ok ()"
  with r0 obtain x where "r0 = Ok x" by blast
  note ok = eff(2) [OF this]
  have range: "unat from + unat (to - from) = unat to" using erase_range [OF _ cap] ok by blast
  show "driver_ready view page sector t_sleep f'" "unat from \<le> unat to" "unat to \<le> length (flash_mem view f)"
    using ok range by auto
  fix i assume "unat from \<le> i \<and> i < unat to"
  then show "flash_mem view f' ! i = 0xFF"
    using ok range unfolding erased_def by (metis add_less_cancel_left le_add_diff_inverse)
qed

theorem spi_flash_meets_contract_witness:
  "\<exists>f'. nf_write (spi_nor_flash (sim_spi 4 16) 16) 2 [1, 2, 3, 4] (ex_flash 50 500 []) = (Ok (), f')
     \<and> driver_ready sim_view 4 16 3 f' \<and> programmed 2 [1, 2, 3, 4] (flash_mem sim_view (ex_flash 50 500 [])) (flash_mem sim_view f')"
proof -
  obtain r f' where run: "nf_write (spi_nor_flash (sim_spi 4 16) 16) 2 [1, 2, 3, 4] (ex_flash 50 500 []) = (r, f')"
    by fastforce
  have "fst (nf_write (spi_nor_flash (sim_spi 4 16) 16) 2 [1, 2, 3, 4] (ex_flash 50 500 [])) = Ok ()"
    by code_simp
  with run have "r = Ok ()" by simp
  with run spi_flash_meets_contract [OF sim.spi_flash_chip_axioms ex_flash_ready, of 16 50 500 "[]"]
  show ?thesis by fastforce
qed

text \<open>
  When the bus works and the chip needs at most nine tenths of the configured times, a write
  to an erased range inside the chip succeeds, and a read afterwards succeeds and returns the data.
\<close>

theorem spi_write_then_read:
  assumes "responsive_chip SPI view page sector t_sleep good busy_us t_program t_erase"
    and "driver_ready view page sector t_sleep f" and "good (sf_device f)"
    and "t_program \<le> 9 * unat (fd_program_timeout_us (sf_cfg f) div 10)"
    and "unat a + length bs \<le> length (flash_mem view f)" and "erased (unat a) (length bs) (flash_mem view f)"
  shows "\<exists>f1 f2. nf_write (spi_nor_flash SPI E) a bs f = (Ok (), f1)
    \<and> nf_read (spi_nor_flash SPI E) a (length bs) f1 = (Ok bs, f2)"
proof -
  have chip: "spi_flash_chip SPI view page sector t_sleep" using assms(1) by (simp add: responsive_chip_def)
  obtain f1 where w: "spi_flash_program SPI a bs f = (Ok (), f1)" "good (sf_device f1)"
    using responsive_chip.spi_flash_program_succeeds [OF assms(1,3,2,5,4)] by (auto simp: succeeds_def)
  note eff = spi_flash_chip.spi_flash_program_effect [OF chip w(1) assms(2)]
  have len: "length (flash_mem view f1) = length (flash_mem view f)" by (rule same_outside_length [OF eff(1)])
  have ready: "driver_ready view page sector t_sleep f1" using eff(3) by simp
  obtain out f2 where r: "spi_flash_read SPI a (length bs) f1 = (Ok out, f2)"
    using responsive_chip.spi_flash_read_succeeds [OF assms(1) w(2) ready, of a "length bs"] assms(5) len
    by (auto simp: succeeds_def)
  have "seg (unat a) (length bs) (flash_mem view f1) = bs"
    using assms(5,6) len eff(3) by (intro seg_eqI) (auto simp: programmed_def erased_def)
  with r spi_flash_chip.spi_flash_read_effect(3) [OF chip r ready] w(1) show ?thesis by auto
qed

theorem spi_write_then_read_witness:
  "\<exists>f1 f2. nf_write (spi_nor_flash (sim_spi 4 16) 16) 2 [1, 2, 3, 4] (ex_flash 90 500 []) = (Ok (), f1)
     \<and> nf_read (spi_nor_flash (sim_spi 4 16) 16) 2 4 f1 = (Ok [1, 2, 3, 4], f2)"
proof -
  have chip: "responsive_chip (sim_spi 4 16) sim_view 4 16 3 (sim_good 90 500) sc_busy_us 90 500" ..
  have good: "sim_good 90 500 (sf_device (ex_flash 90 500 []))"
    by (simp add: sim_good_def spi_flash_new_def ex_chip_def)
  have time: "90 \<le> 9 * unat (fd_program_timeout_us (sf_cfg (ex_flash 90 500 [])) div 10)"
    by (simp add: spi_flash_new_def ex_descriptor_def)
  have range: "unat (2 :: u32) + length [1, 2, 3, 4 :: u8] \<le> length (flash_mem sim_view (ex_flash 90 500 []))"
    and erased: "erased (unat (2 :: u32)) (length [1, 2, 3, 4 :: u8]) (flash_mem sim_view (ex_flash 90 500 []))"
    by (simp_all add: spi_flash_new_def ex_chip_def flash_mem_def erased_def)
  have "length [1, 2, 3, 4 :: u8] = 4" by simp
  with spi_write_then_read [OF chip ex_flash_ready good time range erased, of 16] show ?thesis by metis
qed

section \<open>A chip that is still busy\<close>

text \<open>While the chip is busy, the driver reads whatever the line shows.\<close>

lemma read_of_busy_chip:
  assumes "\<not> sf_awake f" and "sc_awake (sf_device f)" and "sc_faults (sf_device f) = []"
    and "2 * unat (sf_sleep_delay_us f) < sc_busy_us (sf_device f)"
    and "sf_mode f = B24" and "fd_total_size (sf_cfg f) \<le> 2 ^ 24" and "unat b + n \<le> fd_total_size (sf_cfg f)"
  shows "\<exists>f'. spi_flash_read (sim_spi page sector) b n f = (Ok (replicate n 0xFF), f')"
proof -
  define w where "w = unat (sf_sleep_delay_us f)"
  have "bounds_check b n 0 (fd_total_size (sf_cfg f)) = Ok b"
    using assms(6,7) by (subst bounds_check_Ok_iff) simp_all
  moreover have "\<not> above_16mb (fd_total_size (sf_cfg f))"
    using assms(6) by (simp add: above_16mb_def)
  moreover have "w < sc_busy_us (sf_device f)" "w < sc_busy_us (sf_device f) - w" "w + w < sc_busy_us (sf_device f)"
    using assms(4) by (simp_all add: w_def)
  ultimately show ?thesis
    using assms(1-3,5)
    by (simp add: spi_flash_read_def init_and_check_addr_def count_read_attempt_def Let_def and_then_def attempt_def ret_def
        wakeup_def delay_us_def send_command_def bus_def map_err_def on_device_def sim_transaction_def sim_delay_def
        sim_command_def sim_answer_def sim_listening_def cmd_and_addr_def numeral_eq_Suc flip: w_def)
qed

lemma sim_wakes_up:
  assumes "sc_faults c = Bus_Good # fs" and "sc_busy_us c = 0"
  shows "wakeup_attempts (sim_spi page sector) t 5 c = (Ok (), c\<lparr>sc_awake := True, sc_faults := fs\<rparr>)"
  using assms wakeup_attempts.simps(2) [of "sim_spi page sector" t 4]
  by (simp add: and_then_def attempt_def ret_def delay_us_def send_command_def bus_def map_err_def
      sim_transaction_def sim_delay_def sim_command_def)

lemma sim_program_lost_poll:
  assumes "sc_faults c = [Bus_Good, Bus_Good, Bus_Good, Bus_Lost]" and "sc_busy_us c = 0" and "sc_awake c" and "\<not> sc_wide c"
  shows "\<exists>c'. program_page (sim_spi page sector) t (cmd_and_addr ProgramPage a B24) bs c = (Err SE_SPI, c')
    \<and> sc_awake c' \<and> sc_faults c' = [] \<and> sc_busy_us c' = sc_program_us c"
proof -
  have "length (tl (to_be_bytes a)) = 3"
    by (simp add: to_be_bytes_def u32_to_le_def)
  moreover have "bit (2 :: u8) 1"
    by (simp add: bit_iff_odd)
  ultimately show ?thesis
    using assms is_ready_loop.simps(2) [of "sim_spi page sector" "unat (t div 10)" 9]
    by (simp add: program_page_def write_enable_def and_then_def ret_def throw_def send_command_def bus_def map_err_def
        flash_status_def read_reg_def is_ready_def sim_transaction_def sim_command_def sim_answer_def sim_status_def
        sim_listening_def sim_program_def addr_len_def cmd_and_addr_def status_is_write_enable_set_def)
qed

lemma busy_chip_ignores_sleep:
  assumes "sc_faults c = []" and "sc_awake c" and "0 < sc_busy_us c"
  shows "sleep_attempts (sim_spi page sector) 2 c = c"
  using assms
  by (simp add: numeral_2_eq_2 send_command_def and_then_def ret_def bus_def map_err_def sim_transaction_def sim_command_def)

lemma write_with_lost_poll:
  assumes "driver_ready sim_view page sector t_sleep f" and "\<not> sf_awake f"
    and "sc_faults (sf_device f) = [Bus_Good, Bus_Good, Bus_Good, Bus_Good, Bus_Lost]" and "0 < sc_program_us (sf_device f)"
    and "length (flash_mem sim_view f) \<le> 2 ^ 24" and "bs \<noteq> []" and "unat a + length bs \<le> length (flash_mem sim_view f)"
  shows "\<exists>f'. spi_flash_program (sim_spi page sector) a bs f = (Err SE_SPI, f')
    \<and> \<not> sf_awake f' \<and> sc_awake (sf_device f') \<and> sc_faults (sf_device f') = []
    \<and> sc_busy_us (sf_device f') = sc_program_us (sf_device f) \<and> sf_sleep_delay_us f' = sf_sleep_delay_us f
    \<and> sf_mode f' = B24 \<and> sf_cfg f' = sf_cfg f"
proof -
  note r = assms(1) [unfolded driver_ready_def]
  let ?c = "sf_device f\<lparr>sc_awake := True, sc_faults := [Bus_Good, Bus_Good, Bus_Good, Bus_Lost]\<rparr>"
  have init: "bounds_check a (length bs) 0 (fd_total_size (sf_cfg f)) = Ok a" "\<not> above_16mb (fd_total_size (sf_cfg f))"
    using r assms(5,7) by (auto simp: bounds_check_Ok_iff above_16mb_def)
  have chip: "fd_page_size (sf_cfg f) = page" "0 < page" "sf_mode f = B24" "sc_busy_us (sf_device f) = 0" "\<not> sc_wide (sf_device f)"
    using r assms(5) by auto
  have "init_and_check_addr (sim_spi page sector) a (length bs) f = (Ok (a, B24), f\<lparr>sf_device := ?c, sf_awake := True\<rparr>)"
    using init chip assms(2,3) sim_wakes_up [of "sf_device f"]
    by (simp add: init_and_check_addr_def and_then_def ret_def wakeup_def sim_delay_def)
  moreover obtain c' where page: "program_page (sim_spi page sector) (fd_program_timeout_us (sf_cfg f)) (cmd_and_addr ProgramPage a B24)
        (take (min (length bs) (page - unat a mod page)) bs) ?c = (Err SE_SPI, c')"
      and c': "sc_awake c'" "sc_faults c' = []" "sc_busy_us c' = sc_program_us (sf_device f)"
    using sim_program_lost_poll [of ?c page sector "fd_program_timeout_us (sf_cfg f)" a "take (min (length bs) (page - unat a mod page)) bs"] chip(4,5)
    by simp blast
  have "program_loop (sim_spi page sector) (fd_program_timeout_us (sf_cfg f)) page B24 (length bs) a bs ?c = (Err SE_SPI, c')"
  proof -
    have "0 < min (length bs) (page - unat a mod page)" and "length bs \<noteq> 0"
      using chip(2) assms(6) by simp_all
    with page show ?thesis
      by (subst program_loop.simps) (auto simp: Let_def and_then_def split: nat.split)
  qed
  ultimately have "spi_flash_program (sim_spi page sector) a bs f
      = (Err SE_SPI, flash_sleep (sim_spi page sector) (f\<lparr>sf_awake := True, sf_device := c'\<rparr>))"
    using chip(1) by (simp add: spi_flash_program_def Let_def and_then_def attempt_def on_device_def)
  then show ?thesis
    using c' chip assms(4) by (simp add: flash_sleep_def busy_chip_ignores_sleep)
qed



text \<open>
  A chip that programs a page in 95 us is in time for a configured maximum of 100 us, but the
  last of the ten polls is at 90 us: the write is reported as timed out.
\<close>

lemma timeout_before_maximum:
  "fst (nf_write (spi_nor_flash (sim_spi 4 16) 16) 4 [0x22] (ex_flash 95 500 [])) = Err SE_Timeout"
  by code_simp

end
