(* ===== verification/Firmware.thy ===== *)
theory Firmware
  imports Prelude
begin

text \<open>
  Firmware images, \<open>meta/firmware.rs\<close>, \<open>meta/firmware/v2.rs\<close> and \<open>meta/section_header.rs\<close>: the
  application header, the validator that is fed an image in slices, and the signing of an image.

  The validator is generic over the header format (trait \<open>ApplicationHeader\<close>), here the record
  \<open>app_header\<close>; the only format of the repository, version 2, is \<open>header_v2\<close>. SHA-256 and ECDSA
  come from the crates \<open>sha2\<close> and \<open>p256\<close> and are the record \<open>crypto\<close>, an argument. A \<open>Hasher\<close> is
  the data it was fed so far, and \<open>hash\<close> applies the hash function to it; the type \<open>'s\<close> is a parsed
  signature, \<open>'k\<close> a public key. The device type is a parameter too (trait \<open>DeviceType\<close>).
\<close>

section \<open>Section headers\<close>

datatype header_kind = AppMetaV2 | ConfigMeta | BootloaderMetaHdr

definition HEADER_MASK :: u8 where
  "HEADER_MASK = 0x55"

fun header_constant :: "header_kind \<Rightarrow> bytes" where
  "header_constant AppMetaV2 = map (\<lambda>b. b XOR HEADER_MASK) [0x4A, 0x54, 0x52, 0x02]"
| "header_constant ConfigMeta = map (\<lambda>b. b XOR HEADER_MASK) [0x4A, 0x54, 0x52, 0x10]"
| "header_constant BootloaderMetaHdr = map (\<lambda>b. b XOR HEADER_MASK) [0x4A, 0x54, 0x52, 0x08]"

definition section_header :: "header_kind \<Rightarrow> bytes" where
  "section_header kind = map2 (\<lambda>r b. r XOR b) (replicate 4 HEADER_MASK) (header_constant kind)"

section \<open>Cryptography\<close>

record ('p, 'k, 's) crypto =
  cr_sha256 :: "bytes \<Rightarrow> bytes"
  cr_verify :: "'k \<Rightarrow> bytes \<Rightarrow> 's \<Rightarrow> bool"
  cr_sign :: "'p \<Rightarrow> bytes \<Rightarrow> 's option"
  cr_sig_to_bytes :: "'s \<Rightarrow> bytes"
  cr_sig_from_bytes :: "bytes \<Rightarrow> 's option"

definition signature_try_from_bytes :: "('p, 'k, 's) crypto \<Rightarrow> bytes \<Rightarrow> 's option" where
  "signature_try_from_bytes Cr bs = (if length bs < 64 then None else cr_sig_from_bytes Cr (take 64 bs))"

definition hash_try_from_bytes :: "bytes \<Rightarrow> bytes option" where
  "hash_try_from_bytes bs = (if length bs < 32 then None else Some (take 32 bs))"

section \<open>Headers\<close>

datatype security_level = SL_None | SL_IntegrityOnly | SL_Signed

fun level_byte :: "security_level \<Rightarrow> u8" where
  "level_byte SL_None = 0"
| "level_byte SL_IntegrityOnly = 1"
| "level_byte SL_Signed = 2"

definition level_try_from :: "u8 \<Rightarrow> security_level option" where
  "level_try_from b = (if b = 0 then Some SL_None else if b = 1 then Some SL_IntegrityOnly
     else if b = 2 then Some SL_Signed else None)"

definition level_less :: "security_level \<Rightarrow> security_level \<Rightarrow> bool" where
  "level_less a b \<longleftrightarrow> level_byte a < level_byte b"

datatype 's security = Sec_None | Sec_IntegrityOnly nat bytes | Sec_Signed nat 's

fun security_level_of :: "'s security \<Rightarrow> security_level" where
  "security_level_of Sec_None = SL_None"
| "security_level_of (Sec_IntegrityOnly _ _) = SL_IntegrityOnly"
| "security_level_of (Sec_Signed _ _) = SL_Signed"

fun security_length :: "'s security \<Rightarrow> nat option" where
  "security_length Sec_None = None"
| "security_length (Sec_IntegrityOnly len _) = Some len"
| "security_length (Sec_Signed len _) = Some len"

datatype header_error = AH_TooFewBytes | AH_InvalidHeader | AH_InvalidSecurityLevel | AH_InvalidSecurityTag
  | AH_InvalidLength | AH_InvalidDeviceType

text \<open>The trait \<open>ApplicationHeader\<close>. \<open>ah_as_bytes\<close> gives the first \<open>BINARY_SIZE\<close> bytes that are written.\<close>

record ('h, 'd, 's) app_header =
  ah_binary_size :: nat
  ah_binary_size_raw :: nat
  ah_try_from_bytes :: "bytes \<Rightarrow> ('h, header_error) result"
  ah_as_bytes :: "'h \<Rightarrow> bytes"
  ah_auth_fields :: "'h \<Rightarrow> bytes"
  ah_write_signature :: "nat \<Rightarrow> 's \<Rightarrow> 'h \<Rightarrow> 'h"
  ah_security :: "'h \<Rightarrow> 's security"
  ah_device_type :: "'h \<Rightarrow> 'd"
  ah_anti_downgrade :: "'h \<Rightarrow> u32"

subsection \<open>Version 2\<close>

record 'd device_type_ops =
  dt_to_byte :: "'d \<Rightarrow> u8"
  dt_try_from_byte :: "u8 \<Rightarrow> 'd option"

record ('d, 's) application_header_v2 =
  hv_security :: "'s security"
  hv_anti_downgrade_version :: u32
  hv_device_type :: 'd

definition BINARY_SIZE_RAW :: nat where
  [simp]: "BINARY_SIZE_RAW = 76"

definition BINARY_SIZE_AUTH :: nat where
  [simp]: "BINARY_SIZE_AUTH = 5"

definition BINARY_SIZE :: nat where
  [simp]: "BINARY_SIZE = BINARY_SIZE_RAW + BINARY_SIZE_AUTH"

definition header_placeholder :: "'d \<Rightarrow> ('d, 's) application_header_v2" where
  "header_placeholder device_type =
     \<lparr>hv_security = Sec_None, hv_anti_downgrade_version = 0, hv_device_type = device_type\<rparr>"

definition authenticated_fields_as_bytes :: "'d device_type_ops \<Rightarrow> ('d, 's) application_header_v2 \<Rightarrow> bytes" where
  "authenticated_fields_as_bytes D h = u32_to_le (hv_anti_downgrade_version h) @ [dt_to_byte D (hv_device_type h)]"

definition write_signature :: "nat \<Rightarrow> 's \<Rightarrow> ('d, 's) application_header_v2 \<Rightarrow> ('d, 's) application_header_v2" where
  "write_signature len sig h = h\<lparr>hv_security := Sec_Signed len sig\<rparr>"

text \<open>A field of fixed size that starts with the given bytes and is zero after them.\<close>

definition zero_padded :: "nat \<Rightarrow> bytes \<Rightarrow> bytes" where
  "zero_padded n bs = bs @ replicate (n - length bs) 0"

fun security_tag :: "('p, 'k, 's) crypto \<Rightarrow> 's security \<Rightarrow> bytes" where
  "security_tag Cr Sec_None = []"
| "security_tag Cr (Sec_IntegrityOnly _ hash) = hash"
| "security_tag Cr (Sec_Signed _ sig) = cr_sig_to_bytes Cr sig"

definition header_as_bytes :: "('p, 'k, 's) crypto \<Rightarrow> 'd device_type_ops \<Rightarrow> ('d, 's) application_header_v2 \<Rightarrow> bytes" where
  "header_as_bytes Cr D h =
     section_header AppMetaV2
     @ [level_byte (security_level_of (hv_security h)), 0, 0, 0]
     @ u32_to_le (of_nat (case security_length (hv_security h) of None \<Rightarrow> 0 | Some len \<Rightarrow> len))
     @ zero_padded 64 (security_tag Cr (hv_security h))
     @ authenticated_fields_as_bytes D h"

definition parse_security :: "('p, 'k, 's) crypto \<Rightarrow> u32 \<Rightarrow> security_level \<Rightarrow> bytes \<Rightarrow> ('s security, header_error) result" where
  "parse_security Cr len level tag =
     (case level of
        SL_None \<Rightarrow> Ok Sec_None
      | SL_IntegrityOnly \<Rightarrow>
          if len = 0 then Err AH_InvalidLength
          else (case hash_try_from_bytes tag of
                  None \<Rightarrow> Err AH_InvalidSecurityTag | Some hash \<Rightarrow> Ok (Sec_IntegrityOnly (unat len) hash))
      | SL_Signed \<Rightarrow>
          if len = 0 then Err AH_InvalidLength
          else (case signature_try_from_bytes Cr tag of
                  None \<Rightarrow> Err AH_InvalidSecurityTag | Some sig \<Rightarrow> Ok (Sec_Signed (unat len) sig)))"

definition header_try_from_bytes ::
  "('p, 'k, 's) crypto \<Rightarrow> 'd device_type_ops \<Rightarrow> bytes \<Rightarrow> (('d, 's) application_header_v2, header_error) result" where
  "header_try_from_bytes Cr D bs =
     (if length bs < BINARY_SIZE then Err AH_TooFewBytes
      else if take 4 bs \<noteq> section_header AppMetaV2 then Err AH_InvalidHeader
      else (case level_try_from (bs ! 4) of
          None \<Rightarrow> Err AH_InvalidSecurityLevel
        | Some level \<Rightarrow>
            (case parse_security Cr (u32_from_le (seg 8 4 bs)) level (seg 12 64 bs) of
               Err e \<Rightarrow> Err e
             | Ok sec \<Rightarrow>
                 (case dt_try_from_byte D (bs ! 80) of
                    None \<Rightarrow> Err AH_InvalidDeviceType
                  | Some device_type \<Rightarrow>
                      Ok \<lparr>hv_security = sec, hv_anti_downgrade_version = u32_from_le (seg 76 4 bs),
                          hv_device_type = device_type\<rparr>))))"

definition header_v2 ::
  "('p, 'k, 's) crypto \<Rightarrow> 'd device_type_ops \<Rightarrow> (('d, 's) application_header_v2, 'd, 's) app_header" where
  "header_v2 Cr D =
     \<lparr>ah_binary_size = BINARY_SIZE, ah_binary_size_raw = BINARY_SIZE_RAW,
      ah_try_from_bytes = header_try_from_bytes Cr D, ah_as_bytes = header_as_bytes Cr D,
      ah_auth_fields = authenticated_fields_as_bytes D, ah_write_signature = write_signature,
      ah_security = hv_security, ah_device_type = hv_device_type,
      ah_anti_downgrade = hv_anti_downgrade_version\<rparr>"

section \<open>The validator\<close>

datatype validation_error = VE_Incomplete | VE_Invalid header_error | VE_Security security_level
  | VE_Downgrade u32 | VE_Integrity | VE_Signature

datatype 'h validator_state = V_Init bytes | V_NeedMoreData 'h bytes | V_Complete 'h bytes | V_Fail header_error

record ('h, 'd, 'k) validator =
  v_signing_key :: 'k
  v_min_security :: security_level
  v_device_type :: 'd
  v_state :: "'h validator_state"
  v_n_bytes :: nat

definition validator_new :: "('h, 'd, 's) app_header \<Rightarrow> 'k \<Rightarrow> security_level \<Rightarrow> 'd \<Rightarrow> ('h, 'd, 'k) validator" where
  "validator_new H signing_key min_security device_type =
     \<lparr>v_signing_key = signing_key, v_min_security = min_security, v_device_type = device_type,
      v_state = V_Init (replicate (ah_binary_size H) 0), v_n_bytes = 0\<rparr>"

definition validator_reset :: "('h, 'd, 's) app_header \<Rightarrow> ('h, 'd, 'k) validator \<Rightarrow> ('h, 'd, 'k) validator" where
  "validator_reset H v = validator_new H (v_signing_key v) (v_min_security v) (v_device_type v)"

text \<open>
  One round of the loop of \<open>update\<close>: either the function returns (\<open>None\<close>), or the round processed
  some bytes.
\<close>

definition update_round ::
  "('p, 'k, 's) crypto \<Rightarrow> ('h, 'd, 's) app_header \<Rightarrow> bytes \<Rightarrow> ('h, 'd, 'k) validator \<Rightarrow> nat option \<times> ('h, 'd, 'k) validator" where
  "update_round Cr H application_bytes v =
     (case v_state v of
        V_Init buffer \<Rightarrow>
          (let remaining = ah_binary_size H - v_n_bytes v;
               bytes_processed = min remaining (length application_bytes);
               slice = take (v_n_bytes v) buffer @ take bytes_processed application_bytes @ drop (v_n_bytes v + bytes_processed) buffer
           in (Some bytes_processed,
               if bytes_processed = remaining
               then v\<lparr>v_n_bytes := 0,
                      v_state := (case ah_try_from_bytes H slice of Ok m \<Rightarrow> V_NeedMoreData m [] | Err e \<Rightarrow> V_Fail e)\<rparr>
               else v\<lparr>v_state := V_Init slice\<rparr>))
      | V_NeedMoreData m hasher \<Rightarrow>
          (case security_length (ah_security H m) of
             None \<Rightarrow> (None, v\<lparr>v_state := V_Complete m (cr_sha256 Cr hasher)\<rparr>)
           | Some n_bytes_required \<Rightarrow>
               if v_n_bytes v > n_bytes_required then (None, v\<lparr>v_state := V_Fail AH_InvalidLength\<rparr>)
               else
                 (let remaining = n_bytes_required - v_n_bytes v;
                      bytes_processed = min remaining (length application_bytes);
                      hasher1 = (if v_n_bytes v = ah_binary_size H then hasher @ ah_auth_fields H m else hasher);
                      hasher2 = hasher1 @ take bytes_processed application_bytes
                  in (Some bytes_processed,
                      v\<lparr>v_state := (if bytes_processed = remaining then V_Complete m (cr_sha256 Cr hasher2)
                                    else V_NeedMoreData m hasher2)\<rparr>)))
      | V_Complete _ _ \<Rightarrow> (None, v)
      | V_Fail _ \<Rightarrow> (None, v))"

function validator_update ::
  "('p, 'k, 's) crypto \<Rightarrow> ('h, 'd, 's) app_header \<Rightarrow> bytes \<Rightarrow> ('h, 'd, 'k) validator \<Rightarrow> bool \<times> ('h, 'd, 'k) validator" where
  "validator_update Cr H application_bytes v =
     (case update_round Cr H application_bytes v of
        (None, v') \<Rightarrow> (True, v')
      | (Some bytes_processed, v') \<Rightarrow>
          (let v'' = v'\<lparr>v_n_bytes := v_n_bytes v' + bytes_processed\<rparr>;
               rest = drop bytes_processed application_bytes
           in if bytes_processed = 0 \<or> rest = [] then (False, v'') else validator_update Cr H rest v''))"
  by pat_completeness auto
termination
  by (relation "measure (\<lambda>(Cr, H, bs, v). length bs)") auto

declare validator_update.simps [simp del]

definition validate_update_of ::
  "('p, 'k, 's) crypto \<Rightarrow> ('h, 'd, 's) app_header \<Rightarrow> 'h option \<Rightarrow> ('h, 'd, 'k) validator \<Rightarrow> ('h, validation_error) result" where
  "validate_update_of Cr H existing_application v =
     (case v_state v of
        V_Init _ \<Rightarrow> Err VE_Incomplete
      | V_NeedMoreData _ _ \<Rightarrow> Err VE_Incomplete
      | V_Fail meta_error \<Rightarrow> Err (VE_Invalid meta_error)
      | V_Complete m hash \<Rightarrow>
          (let level = security_level_of (ah_security H m);
               min_version = (case existing_application of Some existing \<Rightarrow> ah_anti_downgrade H existing | None \<Rightarrow> 0);
               version = ah_anti_downgrade H m
           in if ah_device_type H m \<noteq> v_device_type v then Err (VE_Invalid AH_InvalidDeviceType)
              else if level_less level (v_min_security v) then Err (VE_Security level)
              else if version < min_version then Err (VE_Downgrade version)
              else (case ah_security H m of
                  Sec_None \<Rightarrow> Ok m
                | Sec_IntegrityOnly _ ref_hash \<Rightarrow> if ref_hash = hash then Ok m else Err VE_Integrity
                | Sec_Signed _ ref_signature \<Rightarrow>
                    if cr_verify Cr (v_signing_key v) hash ref_signature then Ok m else Err VE_Signature)))"

definition verify :: "('p, 'k, 's) crypto \<Rightarrow> ('h, 'd, 's) app_header \<Rightarrow> ('h, 'd, 'k) validator \<Rightarrow> ('h, validation_error) result" where
  "verify Cr H v = validate_update_of Cr H None v"

definition allow_update_from ::
  "('p, 'k, 's) crypto \<Rightarrow> ('h, 'd, 's) app_header \<Rightarrow> 'h \<Rightarrow> ('h, 'd, 'k) validator \<Rightarrow> ('h, validation_error) result" where
  "allow_update_from Cr H existing_application v = validate_update_of Cr H (Some existing_application) v"

definition data_hash :: "('h, 'd, 'k) validator \<Rightarrow> (bytes, validation_error) result" where
  "data_hash v =
     (case v_state v of
        V_Init _ \<Rightarrow> Err VE_Incomplete
      | V_NeedMoreData _ _ \<Rightarrow> Err VE_Incomplete
      | V_Fail meta_error \<Rightarrow> Err (VE_Invalid meta_error)
      | V_Complete _ hash \<Rightarrow> Ok hash)"

section \<open>Signing\<close>

datatype sign_error = InvalidImage header_error | Signing

definition sign_image ::
  "('p, 'k, 's) crypto \<Rightarrow> ('h, 'd, 's) app_header \<Rightarrow> 'p \<Rightarrow> bytes \<Rightarrow> (bytes, sign_error) result" where
  "sign_image Cr H signing_key binary =
     (case ah_try_from_bytes H binary of
        Err e \<Rightarrow> Err (InvalidImage e)
      | Ok header \<Rightarrow>
          (case cr_sign Cr signing_key (drop (ah_binary_size_raw H) binary) of
             None \<Rightarrow> Err Signing
           | Some signature \<Rightarrow>
               Ok (ah_as_bytes H (ah_write_signature H (length binary) signature header)
                   @ drop (ah_binary_size H) binary)))"

end
