(* ===== verification/Firmware_Correct.thy ===== *)
theory Firmware_Correct
  imports Firmware
begin

text \<open>
  The validator on an image that arrives in slices is compared with a reference definition on the
  whole image, \<open>image_state\<close>; the locale \<open>application_header_format\<close> states what the validator and
  the signing tool rely on in a header format, and version 2 of the format is an instance for every
  signature scheme and device type with the documented round trips (\<open>v2_scheme\<close>).
\<close>

section \<open>The reference\<close>

definition image_state :: "('p, 'k, 's) crypto \<Rightarrow> ('h, 'd, 's) app_header \<Rightarrow> bytes \<Rightarrow> 'h validator_state" where
  "image_state Cr H img =
     (let bs = ah_binary_size H in
      case ah_try_from_bytes H (take bs img) of
        Err e \<Rightarrow> V_Fail e
      | Ok m \<Rightarrow>
          if length img = bs then V_NeedMoreData m []
          else (case security_length (ah_security H m) of
              None \<Rightarrow> V_Complete m (cr_sha256 Cr [])
            | Some n \<Rightarrow>
                if n < bs then V_Fail AH_InvalidLength
                else if n \<le> length img then V_Complete m (cr_sha256 Cr (ah_auth_fields H m @ seg bs (n - bs) img))
                else V_NeedMoreData m (ah_auth_fields H m @ drop bs img)))"

definition feed ::
  "('p, 'k, 's) crypto \<Rightarrow> ('h, 'd, 's) app_header \<Rightarrow> bytes list \<Rightarrow> ('h, 'd, 'k) validator \<Rightarrow> ('h, 'd, 'k) validator" where
  "feed Cr H slices v = fold (\<lambda>c v. snd (validator_update Cr H c v)) slices v"

text \<open>The validator has seen the image so far.\<close>

definition tracks :: "('p, 'k, 's) crypto \<Rightarrow> ('h, 'd, 's) app_header \<Rightarrow> ('h, 'd, 'k) validator \<Rightarrow> bytes \<Rightarrow> bool" where
  "tracks Cr H v img \<longleftrightarrow> ah_binary_size H \<le> length img \<and> v_state v = image_state Cr H img
     \<and> (\<forall>m h. v_state v = V_NeedMoreData m h \<longrightarrow> v_n_bytes v = length img)"

definition same_settings :: "('h, 'd, 'k) validator \<Rightarrow> ('h, 'd, 'k) validator \<Rightarrow> bool" where
  "same_settings v v' \<longleftrightarrow> v_signing_key v' = v_signing_key v \<and> v_min_security v' = v_min_security v
     \<and> v_device_type v' = v_device_type v"

lemma update_round_settings:
  "update_round Cr H c v = (r, v') \<Longrightarrow> same_settings v v'"
  by (auto simp: update_round_def same_settings_def Let_def split: validator_state.splits option.splits if_splits)

lemma validator_update_settings: "same_settings v (snd (validator_update Cr H c v))"
proof (induction Cr H c v rule: validator_update.induct)
  case (1 Cr H c v)
  obtain r v' where round: "update_round Cr H c v = (r, v')" by fastforce
  from update_round_settings [OF this] 1 [OF round [symmetric]] show ?case
    by (subst validator_update.simps) (auto simp: round same_settings_def Let_def split: option.splits)
qed

text \<open>A validator that has finished ignores further data.\<close>

lemma update_finished:
  assumes "v_state v = V_Complete m h \<or> v_state v = V_Fail e"
  shows "validator_update Cr H c v = (True, v)"
  using assms by (subst validator_update.simps) (auto simp: update_round_def)

lemma update_need_more_none:
  assumes "v_state v = V_NeedMoreData m h" and "security_length (ah_security H m) = None"
  shows "v_state (snd (validator_update Cr H c v)) = V_Complete m (cr_sha256 Cr h)"
  by (subst validator_update.simps) (simp add: update_round_def assms)

lemma update_need_more_short:
  assumes "v_state v = V_NeedMoreData m h" and "security_length (ah_security H m) = Some n" and "n < v_n_bytes v"
  shows "v_state (snd (validator_update Cr H c v)) = V_Fail AH_InvalidLength"
  by (subst validator_update.simps) (simp add: update_round_def assms)

lemma update_need_more_done:
  assumes "v_state v = V_NeedMoreData m h" and "security_length (ah_security H m) = Some n"
    and "v_n_bytes v \<le> n" and "n \<le> v_n_bytes v + length c"
  shows "v_state (snd (validator_update Cr H c v)) = V_Complete m (cr_sha256 Cr
      ((if v_n_bytes v = ah_binary_size H then h @ ah_auth_fields H m else h) @ take (n - v_n_bytes v) c))"
proof -
  have min: "min (n - v_n_bytes v) (length c) = n - v_n_bytes v" using assms(4) by simp
  show ?thesis
    by (subst validator_update.simps)
      (use assms in \<open>simp add: update_round_def Let_def min update_finished [where m = m]\<close>)
qed

lemma update_need_more_part:
  assumes "v_state v = V_NeedMoreData m h" and "security_length (ah_security H m) = Some n"
    and "v_n_bytes v + length c < n"
  shows "v_state (snd (validator_update Cr H c v)) =
      V_NeedMoreData m ((if v_n_bytes v = ah_binary_size H then h @ ah_auth_fields H m else h) @ c)"
    and "v_n_bytes (snd (validator_update Cr H c v)) = v_n_bytes v + length c"
proof -
  have min: "min (n - v_n_bytes v) (length c) = length c" using assms(3) by simp
  have round: "validator_update Cr H c v = (False, v\<lparr>v_state :=
      V_NeedMoreData m ((if v_n_bytes v = ah_binary_size H then h @ ah_auth_fields H m else h) @ c),
      v_n_bytes := v_n_bytes v + length c\<rparr>)"
    by (subst validator_update.simps) (use assms in \<open>simp add: update_round_def Let_def min\<close>)
  show "v_state (snd (validator_update Cr H c v)) =
      V_NeedMoreData m ((if v_n_bytes v = ah_binary_size H then h @ ah_auth_fields H m else h) @ c)"
    and "v_n_bytes (snd (validator_update Cr H c v)) = v_n_bytes v + length c"
    by (simp_all add: round)
qed

lemma seg_take: "off + n \<le> m \<Longrightarrow> seg off n (take m xs) = seg off n xs"
  by (simp add: seg_def drop_take min_def)

lemma seg_append: "off + n \<le> length xs \<Longrightarrow> seg off n (xs @ ys) = seg off n xs"
  by (simp add: seg_def)

text \<open>The cases of the reference.\<close>

lemma image_state_fail: "ah_try_from_bytes H (take (ah_binary_size H) img) = Err e \<Longrightarrow> image_state Cr H img = V_Fail e"
  by (simp add: image_state_def)

lemma image_state_header:
  "ah_try_from_bytes H (take (ah_binary_size H) img) = Ok m \<Longrightarrow> length img = ah_binary_size H \<Longrightarrow>
     image_state Cr H img = V_NeedMoreData m []"
  unfolding image_state_def Let_def by simp

lemma image_state_body:
  assumes "ah_try_from_bytes H (take (ah_binary_size H) img) = Ok m" and "ah_binary_size H < length img"
  shows "image_state Cr H img = (case security_length (ah_security H m) of
      None \<Rightarrow> V_Complete m (cr_sha256 Cr [])
    | Some n \<Rightarrow>
        if n < ah_binary_size H then V_Fail AH_InvalidLength
        else if n \<le> length img then V_Complete m (cr_sha256 Cr (ah_auth_fields H m @ seg (ah_binary_size H) (n - ah_binary_size H) img))
        else V_NeedMoreData m (ah_auth_fields H m @ drop (ah_binary_size H) img))"
  using assms unfolding image_state_def Let_def by simp

lemma image_state_parsed:
  assumes "image_state Cr H img = st" and "\<And>e. st \<noteq> V_Fail e"
  obtains m where "ah_try_from_bytes H (take (ah_binary_size H) img) = Ok m"
  using assms image_state_fail [of H img _ Cr] by (cases "ah_try_from_bytes H (take (ah_binary_size H) img)") auto

text \<open>A further non-empty slice is appended to the image.\<close>

lemma tracks_first_body:
  assumes "v_state v = V_NeedMoreData m []" and "v_n_bytes v = ah_binary_size H" and "length img = ah_binary_size H"
    and "ah_try_from_bytes H (take (ah_binary_size H) img) = Ok m" and "c \<noteq> []"
  shows "tracks Cr H (snd (validator_update Cr H c v)) (img @ c)"
proof -
  let ?B = "ah_binary_size H" and ?v = "snd (validator_update Cr H c v)"
  have body: "ah_try_from_bytes H (take ?B (img @ c)) = Ok m" "?B < length (img @ c)"
    using assms(3,4,5) by auto
  show ?thesis
  proof (cases "security_length (ah_security H m)")
    case None
    with update_need_more_none [OF assms(1) None, of Cr c] image_state_body [OF body, of Cr] assms(3) show ?thesis
      by (simp add: tracks_def)
  next
    case (Some n)
    consider "n < ?B" | "?B \<le> n" "n \<le> ?B + length c" | "?B + length c < n" by linarith
    then show ?thesis
    proof cases
      case 1
      with update_need_more_short [OF assms(1) Some, of Cr c] assms(2,3) image_state_body [OF body, of Cr] Some show ?thesis
        by (simp add: tracks_def)
    next
      case 2
      with update_need_more_done [OF assms(1) Some, of c Cr] assms(2,3) image_state_body [OF body, of Cr] Some show ?thesis
        by (simp add: tracks_def seg_def)
    next
      case 3
      with update_need_more_part [OF assms(1) Some, of c Cr] assms(2,3) image_state_body [OF body, of Cr] Some show ?thesis
        by (simp add: tracks_def)
    qed
  qed
qed

lemma tracks_more_body:
  assumes "tracks Cr H v img" and "v_state v = V_NeedMoreData m h" and "ah_binary_size H < length img"
    and "ah_try_from_bytes H (take (ah_binary_size H) img) = Ok m0" and "c \<noteq> []"
  shows "tracks Cr H (snd (validator_update Cr H c v)) (img @ c)"
proof -
  let ?B = "ah_binary_size H" and ?v = "snd (validator_update Cr H c v)"
  have nb: "v_n_bytes v = length img" and st: "image_state Cr H img = V_NeedMoreData m h"
    using assms(1,2) unfolding tracks_def by (blast, metis)
  have "\<exists>n. security_length (ah_security H m0) = Some n \<and> ?B \<le> n \<and> length img < n
      \<and> m0 = m \<and> h = ah_auth_fields H m @ drop ?B img"
    using st [unfolded image_state_body [OF assms(4,3)]] by (cases "security_length (ah_security H m0)") (auto split: if_splits)
  then obtain n where n: "security_length (ah_security H m0) = Some n" "?B \<le> n" "length img < n"
    and m: "m0 = m" and h: "h = ah_auth_fields H m @ drop ?B img" by blast
  have body: "ah_try_from_bytes H (take ?B (img @ c)) = Ok m" "?B < length (img @ c)"
    using assms(3,4) m by auto
  note len = n(1) [unfolded m]
  have ne: "v_n_bytes v \<noteq> ?B" using nb assms(3) by simp
  show ?thesis
  proof (cases "n \<le> length img + length c")
    case True
    have "v_state ?v = V_Complete m (cr_sha256 Cr (h @ take (n - length img) c))"
      using update_need_more_done [OF assms(2) len, of c Cr] True n(3) nb ne by simp
    moreover have "seg ?B (n - ?B) (img @ c) = drop ?B img @ take (n - length img) c"
      using n(2,3) assms(3) by (simp add: seg_def)
    then have "image_state Cr H (img @ c) = V_Complete m (cr_sha256 Cr (h @ take (n - length img) c))"
      using image_state_body [OF body, of Cr] True n(2) len by (simp add: h)
    ultimately show ?thesis using assms(3) by (simp add: tracks_def)
  next
    case False
    have "v_state ?v = V_NeedMoreData m (h @ c)" "v_n_bytes ?v = length (img @ c)"
      using update_need_more_part [OF assms(2) len, of c Cr] False nb ne by simp_all
    moreover have "image_state Cr H (img @ c) = V_NeedMoreData m (h @ c)"
      using image_state_body [OF body, of Cr] False n(2) len assms(3) by (simp add: h)
    ultimately show ?thesis using assms(3) by (simp add: tracks_def)
  qed
qed

lemma image_state_complete_append:
  assumes "image_state Cr H img = V_Complete m h" and "ah_binary_size H \<le> length img"
  shows "image_state Cr H (img @ c) = V_Complete m h"
proof -
  let ?B = "ah_binary_size H"
  obtain m0 where parse: "ah_try_from_bytes H (take ?B img) = Ok m0"
    by (rule image_state_parsed [OF assms(1)]) simp_all
  have long: "?B < length img" using assms image_state_header [OF parse, of Cr] by fastforce
  show ?thesis
    using assms(1) long parse image_state_body [OF parse long, of Cr] image_state_body [of H "img @ c" m0 Cr]
    by (auto simp: seg_append split: option.splits if_splits)
qed

lemma image_state_fail_append:
  assumes "image_state Cr H img = V_Fail e" and "ah_binary_size H \<le> length img"
  shows "image_state Cr H (img @ c) = V_Fail e"
proof -
  let ?B = "ah_binary_size H"
  show ?thesis
  proof (cases "ah_try_from_bytes H (take ?B img)")
    case (Inl e')
    with assms image_state_fail [of H img e' Cr] image_state_fail [of H "img @ c" e' Cr] show ?thesis by simp
  next
    case (Inr m0)
    have long: "?B < length img" using assms image_state_header [OF Inr, of Cr] by fastforce
    show ?thesis
      using assms(1) long Inr image_state_body [OF Inr long, of Cr] image_state_body [of H "img @ c" m0 Cr]
      by (auto split: option.splits if_splits)
  qed
qed

lemma tracks_update:
  assumes "tracks Cr H v img" and "c \<noteq> []"
  shows "tracks Cr H (snd (validator_update Cr H c v)) (img @ c)"
proof -
  let ?B = "ah_binary_size H"
  have B: "?B \<le> length img" and st: "v_state v = image_state Cr H img" using assms(1) by (auto simp: tracks_def)
  show ?thesis
  proof (cases "v_state v")
    case (V_Init b)
    then show ?thesis using st by (auto simp: image_state_def Let_def split: sum.splits option.splits if_splits)
  next
    case (V_NeedMoreData m h)
    obtain m0 where parse: "ah_try_from_bytes H (take ?B img) = Ok m0"
      by (rule image_state_parsed [OF st [symmetric]]) (simp_all add: V_NeedMoreData)
    show ?thesis
    proof (cases "length img = ?B")
      case True
      have "v_state v = V_NeedMoreData m0 []" using st image_state_header [OF parse True, of Cr] by simp
      then show ?thesis
        by (rule tracks_first_body [OF _ _ True parse assms(2)]) (use assms(1) True V_NeedMoreData in \<open>simp add: tracks_def\<close>)
    next
      case False
      with tracks_more_body [OF assms(1) V_NeedMoreData _ parse assms(2)] B show ?thesis by simp
    qed
  next
    case (V_Complete m h)
    have "image_state Cr H img = V_Complete m h" using st V_Complete by simp
    from image_state_complete_append [OF this B] V_Complete B show ?thesis
      by (simp add: tracks_def update_finished [of v m h])
  next
    case (V_Fail e)
    have "image_state Cr H img = V_Fail e" using st V_Fail by simp
    from image_state_fail_append [OF this B] V_Fail B show ?thesis
      by (simp add: tracks_def update_finished [of v _ _ e])
  qed
qed

text \<open>The first slice, when it contains the whole header.\<close>

lemma tracks_first:
  assumes "0 < ah_binary_size H" and "ah_binary_size H \<le> length c"
  shows "tracks Cr H (snd (validator_update Cr H c (validator_new H k l d))) c"
proof -
  let ?B = "ah_binary_size H"
  let ?st = "case ah_try_from_bytes H (take ?B c) of Ok m \<Rightarrow> V_NeedMoreData m [] | Err e \<Rightarrow> V_Fail e"
  define v1 where "v1 = (validator_new H k l d)\<lparr>v_state := ?st, v_n_bytes := ?B\<rparr>"
  have round: "update_round Cr H c (validator_new H k l d) = (Some ?B, (validator_new H k l d)\<lparr>v_n_bytes := 0, v_state := ?st\<rparr>)"
    using assms(2) by (simp add: update_round_def validator_new_def Let_def min_def)
  have one: "validator_update Cr H c (validator_new H k l d)
      = (if drop ?B c = [] then (False, v1) else validator_update Cr H (drop ?B c) v1)"
    using assms(1) by (subst validator_update.simps) (simp add: round v1_def Let_def)
  have t1: "tracks Cr H v1 (take ?B c)"
    using assms(2) image_state_header [of H "take ?B c" _ Cr] image_state_fail [of H "take ?B c" _ Cr]
    by (auto simp: tracks_def v1_def split: sum.splits)
  show ?thesis
  proof (cases "drop ?B c = []")
    case True
    with t1 one show ?thesis by simp
  next
    case False
    with tracks_update [OF t1 False] one show ?thesis by simp
  qed
qed

lemma feed_settings: "same_settings v (feed Cr H cs v)"
proof (induction cs arbitrary: v)
  case (Cons c cs)
  with validator_update_settings [of v Cr H c] show ?case
    by (simp add: feed_def same_settings_def)
qed (simp add: feed_def same_settings_def)

lemma tracks_feed:
  assumes "tracks Cr H v img" and "[] \<notin> set cs"
  shows "tracks Cr H (feed Cr H cs v) (img @ concat cs)"
  using assms
proof (induction cs arbitrary: v img)
  case (Cons c cs)
  then have "tracks Cr H (snd (validator_update Cr H c v)) (img @ c)" by (intro tracks_update) auto
  with Cons.IH [OF this] Cons.prems(2) show ?case by (simp add: feed_def)
qed (simp add: feed_def)

text \<open>The state after any slices of an image, the first of which contains the header.\<close>

lemma feed_image:
  assumes "0 < ah_binary_size H" and "ah_binary_size H \<le> length c" and "[] \<notin> set cs"
  shows "v_state (feed Cr H (c # cs) (validator_new H k l d)) = image_state Cr H (c @ concat cs)"
  using tracks_feed [OF tracks_first [OF assms(1,2), of Cr k l d] assms(3)] by (simp add: tracks_def feed_def)

text \<open>The decision on a whole image.\<close>

definition check_image ::
  "('p, 'k, 's) crypto \<Rightarrow> ('h, 'd, 's) app_header \<Rightarrow> 'k \<Rightarrow> security_level \<Rightarrow> 'd \<Rightarrow> 'h option \<Rightarrow> bytes \<Rightarrow> ('h, validation_error) result" where
  "check_image Cr H key min_security device_type existing img =
     validate_update_of Cr H existing ((validator_new H key min_security device_type)\<lparr>v_state := image_state Cr H img\<rparr>)"

lemma validate_update_cong:
  "v_state v = v_state v' \<Longrightarrow> same_settings v v' \<Longrightarrow> validate_update_of Cr H ex v = validate_update_of Cr H ex v'"
  unfolding same_settings_def
  by (elim conjE) (simp only: validate_update_of_def)

lemma feed_check:
  assumes "0 < ah_binary_size H" and "ah_binary_size H \<le> length c" and "[] \<notin> set cs"
  shows "validate_update_of Cr H ex (feed Cr H (c # cs) (validator_new H k l d)) = check_image Cr H k l d ex (c @ concat cs)"
  unfolding check_image_def
  by (rule validate_update_cong)
    (use feed_image [OF assms] feed_settings [of "validator_new H k l d" Cr H "c # cs"] in
      \<open>simp_all add: same_settings_def validator_new_def\<close>)

section \<open>Header formats\<close>

locale application_header_format =
  fixes H :: "('h, 'd, 's) app_header"
  assumes sizes: "0 < ah_binary_size H" "ah_binary_size_raw H \<le> ah_binary_size H"
    and parse_prefix: "ah_binary_size H \<le> length bs \<Longrightarrow> ah_try_from_bytes H (take (ah_binary_size H) bs) = ah_try_from_bytes H bs"
    and parse_long: "ah_try_from_bytes H bs = Ok h \<Longrightarrow> ah_binary_size H \<le> length bs"
    and auth_bytes: "ah_try_from_bytes H bs = Ok h \<Longrightarrow>
      ah_auth_fields H h = seg (ah_binary_size_raw H) (ah_binary_size H - ah_binary_size_raw H) bs"
    and signed: "ah_security H (ah_write_signature H n sig h) = Sec_Signed n sig"
      "ah_auth_fields H (ah_write_signature H n sig h) = ah_auth_fields H h"
      "ah_device_type H (ah_write_signature H n sig h) = ah_device_type H h"
      "ah_anti_downgrade H (ah_write_signature H n sig h) = ah_anti_downgrade H h"
    and print_parse: "ah_try_from_bytes H bs = Ok h \<Longrightarrow> 0 < n \<Longrightarrow> n < 2 ^ 32 \<Longrightarrow>
      length (ah_as_bytes H (ah_write_signature H n sig h)) = ah_binary_size H
      \<and> ah_try_from_bytes H (ah_as_bytes H (ah_write_signature H n sig h) @ rest) = Ok (ah_write_signature H n sig h)"
begin

lemma signed_part:
  assumes "ah_try_from_bytes H img = Ok m" and "ah_binary_size H \<le> n" and "n \<le> length img"
  shows "ah_auth_fields H m @ seg (ah_binary_size H) (n - ah_binary_size H) img
    = seg (ah_binary_size_raw H) (n - ah_binary_size_raw H) img"
  using auth_bytes [OF assms(1)] sizes assms(2,3)
    seg_append_seg [of "ah_binary_size_raw H" "ah_binary_size H - ah_binary_size_raw H" img "n - ah_binary_size H"]
  by simp

text \<open>What an accepted image guarantees.\<close>

lemma check_image_accepts:
  assumes "check_image Cr H k l d ex img = Ok m" and "ah_binary_size H \<le> length img"
  shows "ah_try_from_bytes H img = Ok m" and "ah_device_type H m = d"
    and "\<not> level_less (security_level_of (ah_security H m)) l"
    and "ex = Some e \<Longrightarrow> ah_anti_downgrade H e \<le> ah_anti_downgrade H m"
    and "ah_security H m = Sec_Signed n sig \<Longrightarrow> ah_binary_size H \<le> n \<and> n \<le> length img
      \<and> cr_verify Cr k (cr_sha256 Cr (seg (ah_binary_size_raw H) (n - ah_binary_size_raw H) img)) sig"
proof -
  obtain h where st: "image_state Cr H img = V_Complete m h"
    using assms(1) by (auto simp: check_image_def validate_update_of_def Let_def split: validator_state.splits if_splits security.splits)
  obtain m0 where parse: "ah_try_from_bytes H (take (ah_binary_size H) img) = Ok m0"
    by (rule image_state_parsed [OF st]) simp_all
  have long: "ah_binary_size H < length img"
    using st image_state_header [OF parse, of Cr] assms(2) by fastforce
  note body = st [unfolded image_state_body [OF parse long]]
  then have m: "m0 = m" by (auto split: option.splits if_splits)
  show p: "ah_try_from_bytes H img = Ok m" using parse parse_prefix [OF assms(2)] m by simp
  note dec = assms(1) [unfolded check_image_def validate_update_of_def, simplified st, simplified, unfolded Let_def]
  show "ah_device_type H m = d" "\<not> level_less (security_level_of (ah_security H m)) l"
    using dec by (auto simp: validator_new_def split: if_splits)
  show "ah_anti_downgrade H e \<le> ah_anti_downgrade H m" if "ex = Some e"
    using dec that by (auto simp: validator_new_def split: if_splits)
  show "ah_binary_size H \<le> n \<and> n \<le> length img
      \<and> cr_verify Cr k (cr_sha256 Cr (seg (ah_binary_size_raw H) (n - ah_binary_size_raw H) img)) sig"
    if sec: "ah_security H m = Sec_Signed n sig"
  proof -
    have n: "ah_binary_size H \<le> n" "n \<le> length img" and h: "h = cr_sha256 Cr (ah_auth_fields H m @ seg (ah_binary_size H) (n - ah_binary_size H) img)"
      using body m sec by (auto split: if_splits)
    from dec sec have "cr_verify Cr k h sig" by (auto simp: validator_new_def split: if_splits)
    with n h signed_part [OF p n] show ?thesis by simp
  qed
qed

lemma sign_image_accepted:
  assumes "sign_image Cr H p binary = Ok img" and "ah_binary_size H < length binary" and "length binary < 2 ^ 32"
    and "\<And>data sig. cr_sign Cr p data = Some sig \<Longrightarrow> cr_verify Cr k (cr_sha256 Cr data) sig"
    and "ah_try_from_bytes H binary = Ok h"
  obtains m sig where "check_image Cr H k l (ah_device_type H h) None img = Ok m"
    and "ah_security H m = Sec_Signed (length binary) sig" and "ah_anti_downgrade H m = ah_anti_downgrade H h"
    and "length img = length binary"
proof -
  let ?B = "ah_binary_size H" and ?R = "ah_binary_size_raw H"
  obtain sig where sig: "cr_sign Cr p (drop ?R binary) = Some sig"
    and img: "img = ah_as_bytes H (ah_write_signature H (length binary) sig h) @ drop ?B binary"
    using assms(1,5) by (auto simp: sign_image_def split: option.splits)
  define m where "m = ah_write_signature H (length binary) sig h"
  have "0 < length binary" using assms(2) by linarith
  then have print: "length (ah_as_bytes H m) = ?B" "ah_try_from_bytes H img = Ok m"
    using print_parse [OF assms(5) _ assms(3), of sig "drop ?B binary"] unfolding img m_def by blast+
  have len: "length img = length binary" using print(1) assms(2) by (simp add: img m_def)
  have parse: "ah_try_from_bytes H (take ?B img) = Ok m" using print(2) parse_prefix [of img] len assms(2) by simp
  have "ah_auth_fields H m @ seg ?B (length binary - ?B) img = drop ?R binary"
  proof -
    have "ah_auth_fields H m = seg ?R (?B - ?R) binary" using auth_bytes [OF assms(5)] signed(2) by (simp add: m_def)
    moreover have "seg ?B (length binary - ?B) img = drop ?B binary"
      using print(1) assms(2) by (simp add: img m_def seg_def)
    moreover have "seg ?R (?B - ?R) binary @ drop ?B binary = drop ?R binary"
      using sizes(2) by (simp add: seg_def) (metis append_take_drop_id drop_drop le_add_diff_inverse2)
    ultimately show ?thesis by simp
  qed
  then have "image_state Cr H img = V_Complete m (cr_sha256 Cr (drop ?R binary))"
    using image_state_body [OF parse, of Cr] assms(2) len signed(1) [of "length binary" sig h] by (simp add: m_def)
  then have "check_image Cr H k l (ah_device_type H h) None img = Ok m"
    using assms(4) [OF sig] signed [of "length binary" sig h]
    by (cases l) (simp_all add: check_image_def validate_update_of_def validator_new_def m_def level_less_def)
  with that [of m sig] signed(1,4) [of "length binary" sig h] len show thesis by (simp add: m_def)
qed

end

section \<open>Version 2 is such a format\<close>

locale v2_scheme =
  fixes Cr :: "('p, 'k, 's) crypto" and D :: "'d device_type_ops"
  assumes signature_bytes: "length (cr_sig_to_bytes Cr s) = 64" "cr_sig_from_bytes Cr (cr_sig_to_bytes Cr s) = Some s"
    and device_byte: "dt_try_from_byte D b = Some d \<Longrightarrow> dt_to_byte D d = b"

lemma section_header_v2: "section_header AppMetaV2 = [0x4A, 0x54, 0x52, 0x02]"
  by code_simp

lemma header_v2_simps [simp]:
  "ah_binary_size (header_v2 Cr D) = 81" "ah_binary_size_raw (header_v2 Cr D) = 76"
  "ah_try_from_bytes (header_v2 Cr D) = header_try_from_bytes Cr D" "ah_as_bytes (header_v2 Cr D) = header_as_bytes Cr D"
  "ah_auth_fields (header_v2 Cr D) = authenticated_fields_as_bytes D" "ah_write_signature (header_v2 Cr D) = write_signature"
  "ah_security (header_v2 Cr D) = hv_security" "ah_device_type (header_v2 Cr D) = hv_device_type"
  "ah_anti_downgrade (header_v2 Cr D) = hv_anti_downgrade_version"
  by (simp_all add: header_v2_def)

lemma header_try_from_bytes_Ok:
  assumes "header_try_from_bytes Cr D bs = Ok h"
  shows "81 \<le> length bs" and "dt_try_from_byte D (bs ! 80) = Some (hv_device_type h)"
    and "hv_anti_downgrade_version h = u32_from_le (seg 76 4 bs)"
  using assms by (auto simp: header_try_from_bytes_def split: if_splits option.splits sum.splits)

lemma u32_to_from_le: "length bs = 4 \<Longrightarrow> u32_to_le (u32_from_le bs) = bs"
proof -
  assume "length bs = 4"
  then obtain a b c d where bs: "bs = [a, b, c, d]"
    by (auto simp: numeral_eq_Suc length_Suc_conv)
  have "ucast (ucast a OR push_bit 8 (ucast b) OR push_bit 16 (ucast c) OR push_bit 24 (ucast d) :: u32) = a"
    "ucast (drop_bit 8 (ucast a OR push_bit 8 (ucast b) OR push_bit 16 (ucast c) OR push_bit 24 (ucast d) :: u32)) = b"
    "ucast (drop_bit 16 (ucast a OR push_bit 8 (ucast b) OR push_bit 16 (ucast c) OR push_bit 24 (ucast d) :: u32)) = c"
    "ucast (drop_bit 24 (ucast a OR push_bit 8 (ucast b) OR push_bit 16 (ucast c) OR push_bit 24 (ucast d) :: u32)) = d"
    by (rule bit_word_eqI; auto simp: bit_simps dest: bit_imp_le_length)+
  then show ?thesis by (simp add: bs u32_to_le_def)
qed

context v2_scheme
begin

lemma image_header_roundtrip:
  assumes "dt_try_from_byte D (dt_to_byte D (hv_device_type h)) = Some (hv_device_type h)"
    and "hv_security h = Sec_Signed n sig" and "0 < n" and "n < 2 ^ 32"
  shows "length (header_as_bytes Cr D h) = 81" and "header_try_from_bytes Cr D (header_as_bytes Cr D h @ rest) = Ok h"
proof -
  let ?bs = "header_as_bytes Cr D h"
  have bs: "?bs = [0x4A, 0x54, 0x52, 0x02] @ [2, 0, 0, 0] @ u32_to_le (of_nat n) @ cr_sig_to_bytes Cr sig
      @ u32_to_le (hv_anti_downgrade_version h) @ [dt_to_byte D (hv_device_type h)]"
    by (simp add: header_as_bytes_def assms(2) section_header_v2 zero_padded_def signature_bytes(1) authenticated_fields_as_bytes_def)
  show len: "length ?bs = 81" by (simp add: bs signature_bytes(1))
  have parts: "take 4 (?bs @ rest) = [0x4A, 0x54, 0x52, 0x02]" "(?bs @ rest) ! 4 = 2"
    "seg 8 4 (?bs @ rest) = u32_to_le (of_nat n)" "seg 12 64 (?bs @ rest) = cr_sig_to_bytes Cr sig"
    "seg 76 4 (?bs @ rest) = u32_to_le (hv_anti_downgrade_version h)" "(?bs @ rest) ! 80 = dt_to_byte D (hv_device_type h)"
    by (simp_all add: bs seg_def signature_bytes(1) nth_append)
  have start: "take 4 ?bs = [0x4A, 0x54, 0x52, 0x02]" by (simp add: bs)
  have "(of_nat n :: u32) \<noteq> 0" "unat (of_nat n :: u32) = n"
    using assms(3,4) by (auto simp: unat_of_nat word_eq_iff_unsigned simp flip: unat_eq_zero)
  then show "header_try_from_bytes Cr D (?bs @ rest) = Ok h"
    using len assms(1,2)
    by (simp add: header_try_from_bytes_def parts start section_header_v2 level_try_from_def parse_security_def
        signature_try_from_bytes_def signature_bytes)
qed

sublocale v2: application_header_format "header_v2 Cr D"
proof
  show "0 < ah_binary_size (header_v2 Cr D)" "ah_binary_size_raw (header_v2 Cr D) \<le> ah_binary_size (header_v2 Cr D)"
    by simp_all
next
  fix bs :: bytes assume "ah_binary_size (header_v2 Cr D) \<le> length bs"
  then show "ah_try_from_bytes (header_v2 Cr D) (take (ah_binary_size (header_v2 Cr D)) bs) = ah_try_from_bytes (header_v2 Cr D) bs"
  proof -
    note len = \<open>ah_binary_size (header_v2 Cr D) \<le> length bs\<close>
    have "seg 8 4 (take 81 bs) = seg 8 4 bs" "seg 12 64 (take 81 bs) = seg 12 64 bs" "seg 76 4 (take 81 bs) = seg 76 4 bs"
      "take 81 bs ! 80 = bs ! 80" "take 81 bs ! 4 = bs ! 4" "take 4 (take 81 bs) = take 4 bs"
      "(length (take 81 bs) < BINARY_SIZE) = (length bs < BINARY_SIZE)"
      using len by (simp_all add: seg_take)
    then show ?thesis by (simp only: header_v2_simps header_try_from_bytes_def)
  qed
next
  fix bs h assume "ah_try_from_bytes (header_v2 Cr D) bs = Ok h"
  then show "ah_binary_size (header_v2 Cr D) \<le> length bs" using header_try_from_bytes_Ok(1) by fastforce
next
  fix bs h assume "ah_try_from_bytes (header_v2 Cr D) bs = Ok h"
  then have "header_try_from_bytes Cr D bs = Ok h" by simp
  note parsed = header_try_from_bytes_Ok [OF this]
  have "seg 76 5 bs = seg 76 4 bs @ [bs ! 80]"
    using parsed(1) by (auto simp: list_eq_iff_nth_eq nth_append less_Suc_eq numeral_eq_Suc)
  with parsed show "ah_auth_fields (header_v2 Cr D) h
      = seg (ah_binary_size_raw (header_v2 Cr D)) (ah_binary_size (header_v2 Cr D) - ah_binary_size_raw (header_v2 Cr D)) bs"
    by (simp add: authenticated_fields_as_bytes_def u32_to_from_le device_byte)
next
  fix n sig h
  show "ah_security (header_v2 Cr D) (ah_write_signature (header_v2 Cr D) n sig h) = Sec_Signed n sig"
    "ah_auth_fields (header_v2 Cr D) (ah_write_signature (header_v2 Cr D) n sig h) = ah_auth_fields (header_v2 Cr D) h"
    "ah_device_type (header_v2 Cr D) (ah_write_signature (header_v2 Cr D) n sig h) = ah_device_type (header_v2 Cr D) h"
    "ah_anti_downgrade (header_v2 Cr D) (ah_write_signature (header_v2 Cr D) n sig h) = ah_anti_downgrade (header_v2 Cr D) h"
    by (simp_all add: write_signature_def authenticated_fields_as_bytes_def)
next
  fix bs h sig rest and n :: nat assume "ah_try_from_bytes (header_v2 Cr D) bs = Ok h" and n: "0 < n" "n < 2 ^ 32"
  then have "dt_try_from_byte D (dt_to_byte D (hv_device_type h)) = Some (hv_device_type h)"
    using header_try_from_bytes_Ok(2) [of Cr D bs h] device_byte by fastforce
  then show "length (ah_as_bytes (header_v2 Cr D) (ah_write_signature (header_v2 Cr D) n sig h)) = ah_binary_size (header_v2 Cr D)
      \<and> ah_try_from_bytes (header_v2 Cr D) (ah_as_bytes (header_v2 Cr D) (ah_write_signature (header_v2 Cr D) n sig h) @ rest)
        = Ok (ah_write_signature (header_v2 Cr D) n sig h)"
    using image_header_roundtrip [of "write_signature n sig h" n sig] n by (simp add: write_signature_def)
qed

lemma v2_format: "application_header_format (header_v2 Cr D)" ..

end

end
