(* ===== verification/Bootloader.thy ===== *)
theory Bootloader
  imports Firmware_Correct File_Store
begin

text \<open>
  The update logic of the bootloader, \<open>bootloader.rs\<close>: decide from the installed image and the
  firmware file whether to boot, update or give up, and install an update.

  The file store is the trait \<open>FileStore\<close>, here the record \<open>firmware_source\<close> of the two operations
  that are used and the number of fragments; \<open>flash_source\<close> is the file store of \<open>File_Store\<close>. The
  internal flash (traits \<open>AppFlashRead\<close>, \<open>AppFlashWrite\<close>) is implemented by the application; it is
  the record \<open>app_flash\<close>, an argument.
\<close>

record ('st, 'fh, 'e) firmware_source =
  fs_file_handle :: "('st, 'fh, 'e) action"
  fs_read_fragment :: "'fh \<Rightarrow> u32 \<Rightarrow> nat \<Rightarrow> ('st, bytes, 'e) action"
  fs_fragment_count :: nat

record ('i, 'e, 'w) app_flash =
  af_application_total :: "'i \<Rightarrow> bytes"
  af_erase_application :: "('i, unit, 'e) action"
  af_append :: "bytes \<Rightarrow> ('i, nat, 'w) action"
  af_finalize :: "('i, nat, 'w) action"

datatype 'h app_status = UpToDate 'h | UpdateRejected 'h validation_error | ShouldUpdate 'h
  | Bricked validation_error validation_error

definition validate_existing_firmware ::
  "('p, 'k, 's) crypto \<Rightarrow> ('h, 'd, 's) app_header \<Rightarrow> bytes \<Rightarrow> 'd \<Rightarrow> 'k \<Rightarrow> security_level \<Rightarrow> ('h, 'd, 'k) validator" where
  "validate_existing_firmware Cr H application_total device_type pubkey min_security =
     snd (validator_update Cr H application_total (validator_new H pubkey min_security device_type))"

fun new_firmware_loop ::
  "('p, 'k, 's) crypto \<Rightarrow> ('h, 'd, 's) app_header \<Rightarrow> ('st, 'fh, 'e) firmware_source \<Rightarrow> nat \<Rightarrow> 'fh \<Rightarrow> nat list \<Rightarrow>
   ('h, 'd, 'k) validator \<Rightarrow> 'st \<Rightarrow> ('h, 'd, 'k) validator \<times> 'st" where
  "new_firmware_loop Cr H S CHUNK_SIZE file_handle [] v st = (v, st)"
| "new_firmware_loop Cr H S CHUNK_SIZE file_handle (frag # frags) v st =
     (case fs_read_fragment S file_handle (of_nat frag) CHUNK_SIZE st of
        (Err _, st') \<Rightarrow> (v, st')
      | (Ok bs, st') \<Rightarrow>
          (case validator_update Cr H bs v of
             (True, v') \<Rightarrow> (v', st')
           | (False, v') \<Rightarrow> new_firmware_loop Cr H S CHUNK_SIZE file_handle frags v' st'))"

definition validate_new_firmware ::
  "('p, 'k, 's) crypto \<Rightarrow> ('h, 'd, 's) app_header \<Rightarrow> ('st, 'fh, 'e) firmware_source \<Rightarrow> nat \<Rightarrow> 'd \<Rightarrow> 'k \<Rightarrow> 'st \<Rightarrow>
   ('h, 'd, 'k) validator \<times> 'st" where
  "validate_new_firmware Cr H S CHUNK_SIZE device_type pubkey st =
     (let v = validator_new H pubkey SL_Signed device_type in
      case fs_file_handle S st of
        (Ok file_handle, st') \<Rightarrow> new_firmware_loop Cr H S CHUNK_SIZE file_handle [0..<fs_fragment_count S] v st'
      | (Err _, st') \<Rightarrow> (v, st'))"

definition read_new_header ::
  "('h, 'd, 's) app_header \<Rightarrow> ('st, 'fh, 'e) firmware_source \<Rightarrow> nat \<Rightarrow> 'st \<Rightarrow> 'h option \<times> 'st" where
  "read_new_header H S CHUNK_SIZE st =
     (case fs_file_handle S st of
        (Err _, st') \<Rightarrow> (None, st')
      | (Ok file_handle, st') \<Rightarrow>
          (case fs_read_fragment S file_handle 0 CHUNK_SIZE st' of
             (Err _, st'') \<Rightarrow> (None, st'')
           | (Ok bs, st'') \<Rightarrow> (case ah_try_from_bytes H bs of Ok h \<Rightarrow> Some h | Err _ \<Rightarrow> None, st'')))"

definition validate_update ::
  "('p, 'k, 's) crypto \<Rightarrow> ('h, 'd, 's) app_header \<Rightarrow> ('st, 'fh, 'e) firmware_source \<Rightarrow> nat \<Rightarrow> bytes \<Rightarrow> 'd \<Rightarrow> 'k \<Rightarrow>
   security_level \<Rightarrow> 'st \<Rightarrow> 'h app_status \<times> 'st" where
  "validate_update Cr H S CHUNK_SIZE application_total device_type pubkey installed_min_security st =
     (let (new_unvalidated_header, st1) = read_new_header H S CHUNK_SIZE st;
          old_validator = validate_existing_firmware Cr H application_total device_type pubkey installed_min_security
      in case verify Cr H old_validator of
           Ok existing_header \<Rightarrow>
             if new_unvalidated_header = Some existing_header then (UpToDate existing_header, st1)
             else
               (let (new_validator, st2) = validate_new_firmware Cr H S CHUNK_SIZE device_type pubkey st1 in
                if (case (data_hash new_validator, data_hash old_validator) of
                      (Ok new_hash, Ok old_hash) \<Rightarrow> new_hash = old_hash | _ \<Rightarrow> False)
                then (UpToDate existing_header, st2)
                else (case allow_update_from Cr H existing_header new_validator of
                        Ok new_header \<Rightarrow> (ShouldUpdate new_header, st2)
                      | Err e \<Rightarrow> (UpdateRejected existing_header e, st2)))
         | Err existing_error \<Rightarrow>
             (let (new_validator, st2) = validate_new_firmware Cr H S CHUNK_SIZE device_type pubkey st1 in
              case verify Cr H new_validator of
                Ok new_header \<Rightarrow> (ShouldUpdate new_header, st2)
              | Err new_error \<Rightarrow> (Bricked existing_error new_error, st2)))"

datatype ('e, 'w) update_error = UE_Erase 'e | UE_Write 'w | UE_Validate validation_error

text \<open>Copying the file: a fragment that cannot be read is left out.\<close>

fun copy_loop ::
  "('st, 'fh, 'r) firmware_source \<Rightarrow> ('i, 'e, 'w) app_flash \<Rightarrow> nat \<Rightarrow> 'fh \<Rightarrow> nat list \<Rightarrow>
   ('i \<times> 'st, unit, ('e, 'w) update_error) action" where
  "copy_loop S A CHUNK_SIZE file_handle [] s = (Ok (), s)"
| "copy_loop S A CHUNK_SIZE file_handle (frag # frags) (i, st) =
     (case fs_read_fragment S file_handle (of_nat frag) CHUNK_SIZE st of
        (Err _, st') \<Rightarrow> copy_loop S A CHUNK_SIZE file_handle frags (i, st')
      | (Ok bs, st') \<Rightarrow>
          (case af_append A bs i of
             (Err w, i') \<Rightarrow> (Err (UE_Write w), (i', st'))
           | (Ok _, i') \<Rightarrow> copy_loop S A CHUNK_SIZE file_handle frags (i', st')))"

definition copy_file ::
  "('st, 'fh, 'r) firmware_source \<Rightarrow> ('i, 'e, 'w) app_flash \<Rightarrow> nat \<Rightarrow> ('i \<times> 'st, unit, ('e, 'w) update_error) action" where
  "copy_file S A CHUNK_SIZE s =
     (case fs_file_handle S (snd s) of
        (Err _, st') \<Rightarrow> (Ok (), (fst s, st'))
      | (Ok file_handle, st') \<Rightarrow> copy_loop S A CHUNK_SIZE file_handle [0..<fs_fragment_count S] (fst s, st'))"

definition on_app :: "('i, 'a, 'x) action \<Rightarrow> ('i \<times> 'st, 'a, 'x) action" where
  "on_app m s = (case m (fst s) of (r, i') \<Rightarrow> (r, (i', snd s)))"

definition apply_update ::
  "('p, 'k, 's) crypto \<Rightarrow> ('h, 'd, 's) app_header \<Rightarrow> ('st, 'fh, 'r) firmware_source \<Rightarrow> ('i, 'e, 'w) app_flash \<Rightarrow> nat \<Rightarrow>
   'd \<Rightarrow> 'k \<Rightarrow> ('i \<times> 'st, 'h, ('e, 'w) update_error) action" where
  "apply_update Cr H S A CHUNK_SIZE device_type pubkey =
     and_then (map_err UE_Erase (on_app (af_erase_application A))) (\<lambda>_.
     and_then (copy_file S A CHUNK_SIZE) (\<lambda>_.
     and_then (map_err UE_Write (on_app (af_finalize A))) (\<lambda>_ s.
       (case verify Cr H (validate_existing_firmware Cr H (af_application_total A (fst s)) device_type pubkey SL_Signed) of
          Ok header \<Rightarrow> (Ok header, s)
        | Err e \<Rightarrow> (Err (UE_Validate e), s)))))"

text \<open>The file store of the database as the source of the update.\<close>

definition flash_source ::
  "('f, 'e) nor_flash \<Rightarrow> nat \<Rightarrow> object \<Rightarrow> ('f block_device, file_handle, db_error) firmware_source" where
  "flash_source F B file = \<lparr>fs_file_handle = file_handle_of F B file, fs_read_fragment = read_file_fragment F B,
     fs_fragment_count = fragment_count B file\<rparr>"

end
