(* ===== verification/Boot_Theorems.thy ===== *)
theory Boot_Theorems
  imports Bootloader
begin

text \<open>
  The properties of firmware validation and of the bootloader.
\<close>

section \<open>Lemmas\<close>

text \<open>An image shorter than the header never completes.\<close>

lemma update_short:
  assumes "length c < ah_binary_size H"
  shows "\<exists>b. v_state (snd (validator_update Cr H c (validator_new H k l d))) = V_Init b"
  using assms
  by (subst validator_update.simps) (simp add: update_round_def validator_new_def Let_def min_def)

lemma validate_existing_accepts:
  assumes "validate_update_of Cr H ex (validate_existing_firmware Cr H app d k l) = Ok h" and "0 < ah_binary_size H"
  shows "ah_binary_size H \<le> length app" and "check_image Cr H k l d ex app = Ok h"
proof -
  show long: "ah_binary_size H \<le> length app"
    using assms(1) update_short [of app H Cr k l d]
    by (force simp: validate_existing_firmware_def validate_update_of_def not_le)
  from feed_check [OF assms(2) long, of "[]" Cr ex k l d] assms(1) show "check_image Cr H k l d ex app = Ok h"
    by (simp add: feed_def validate_existing_firmware_def)
qed

text \<open>
  The slices of the firmware file, in order, up to the first fragment that cannot be read. The candidate is
  validated on them: a validator that has finished ignores what follows.
\<close>

fun slices_from :: "('st, 'fh, 'e) firmware_source \<Rightarrow> nat \<Rightarrow> 'fh \<Rightarrow> nat list \<Rightarrow> 'st \<Rightarrow> bytes list" where
  "slices_from S C fh [] st = []"
| "slices_from S C fh (frag # frags) st =
     (case fs_read_fragment S fh (of_nat frag) C st of
        (Ok bs, st') \<Rightarrow> bs # slices_from S C fh frags st'
      | (Err _, st') \<Rightarrow> [])"

definition candidate_slices :: "('st, 'fh, 'e) firmware_source \<Rightarrow> nat \<Rightarrow> 'st \<Rightarrow> bytes list" where
  "candidate_slices S C st =
     (case fs_file_handle S st of
        (Ok fh, st') \<Rightarrow> slices_from S C fh [0..<fs_fragment_count S] st'
      | (Err _, st') \<Rightarrow> [])"

lemma update_True_finished:
  "validator_update Cr H c v = (True, v') \<Longrightarrow> (\<exists>m h. v_state v' = V_Complete m h) \<or> (\<exists>e. v_state v' = V_Fail e)"
proof (induction Cr H c v rule: validator_update.induct)
  case (1 Cr H c v)
  obtain r v1 where round: "update_round Cr H c v = (r, v1)" by fastforce
  show ?case
  proof (cases r)
    case None
    with 1(2) round have "v' = v1"
      by (subst (asm) validator_update.simps) simp
    with round None show ?thesis
      by (auto simp: update_round_def Let_def split: validator_state.splits option.splits if_splits)
  next
    case (Some n)
    with 1(2) [unfolded validator_update.simps [of Cr H c v]] round
    have "validator_update Cr H (drop n c) (v1\<lparr>v_n_bytes := v_n_bytes v1 + n\<rparr>) = (True, v')" "\<not> (n = 0 \<or> drop n c = [])"
      by (auto simp: Let_def split: if_splits)
    with 1(1) [OF round [symmetric] Some] show ?thesis by simp
  qed
qed

lemma feed_finished:
  assumes "(\<exists>m h. v_state v = V_Complete m h) \<or> (\<exists>e. v_state v = V_Fail e)"
  shows "feed Cr H slices v = v"
  using assms by (induction slices) (auto simp: feed_def update_finished)

lemma new_firmware_loop_feed:
  "fst (new_firmware_loop Cr H S C fh frags v st) = feed Cr H (slices_from S C fh frags st) v"
proof (induction frags arbitrary: v st)
  case (Cons frag frags)
  obtain r st1 where rd: "fs_read_fragment S fh (of_nat frag) C st = (r, st1)" by fastforce
  show ?case
  proof (cases r)
    case (Inr bs)
    obtain f v1 where up: "validator_update Cr H bs v = (f, v1)" by fastforce
    with rd Inr Cons feed_finished [where Cr = Cr and H = H, OF update_True_finished, of Cr H bs v v1] show ?thesis
      by (cases f) (simp_all add: feed_def)
  qed (simp add: rd feed_def)
qed (simp add: feed_def)

lemma validate_new_firmware_feed:
  "fst (validate_new_firmware Cr H S C d k st) = feed Cr H (candidate_slices S C st) (validator_new H k SL_Signed d)"
  by (auto simp: validate_new_firmware_def candidate_slices_def Let_def new_firmware_loop_feed feed_def split: prod.splits sum.splits)

text \<open>What every accepted header satisfies, however the image arrived.\<close>

lemma validate_update_of_Ok:
  assumes "validate_update_of Cr H ex v = Ok m"
  shows "ah_device_type H m = v_device_type v" and "\<not> level_less (security_level_of (ah_security H m)) (v_min_security v)"
    and "ex = Some e \<Longrightarrow> ah_anti_downgrade H e \<le> ah_anti_downgrade H m"
    and "ah_security H m = Sec_Signed n sig \<Longrightarrow> \<exists>hash. data_hash v = Ok hash \<and> cr_verify Cr (v_signing_key v) hash sig"
  using assms by (auto simp: validate_update_of_def data_hash_def Let_def split: validator_state.splits if_splits security.splits)

lemma level_signed: "\<not> level_less (security_level_of s) SL_Signed \<Longrightarrow> \<exists>n sig. s = Sec_Signed n sig"
  by (cases s) (simp_all add: level_less_def)

section \<open>Authentic images\<close>

text \<open>
  The image starts with the header, the header is for the device, and the signature in it covers
  the version, the device type and the code of the image, up to the length in the header.
\<close>

definition authentic :: "('p, 'k, 's) crypto \<Rightarrow> ('h, 'd, 's) app_header \<Rightarrow> 'k \<Rightarrow> 'd \<Rightarrow> bytes \<Rightarrow> 'h \<Rightarrow> bool" where
  "authentic Cr H key device_type img h \<longleftrightarrow>
     ah_try_from_bytes H img = Ok h \<and> ah_device_type H h = device_type
     \<and> (case ah_security H h of
          Sec_Signed n sig \<Rightarrow> ah_binary_size H \<le> n \<and> n \<le> length img
            \<and> cr_verify Cr key (cr_sha256 Cr (seg (ah_binary_size_raw H) (n - ah_binary_size_raw H) img)) sig
        | _ \<Rightarrow> False)"

text \<open>
  A candidate that may be installed: it is signed for the device, and its signature verifies for the hash that
  the validator has computed from the slices of the file. When the first slice contains the whole header and no slice is
  empty, this means that the file is an authentic image.
\<close>

definition verified_candidate :: "('p, 'k, 's) crypto \<Rightarrow> ('h, 'd, 's) app_header \<Rightarrow> 'k \<Rightarrow> 'd \<Rightarrow> bytes list \<Rightarrow> 'h \<Rightarrow> bool" where
  "verified_candidate Cr H key device_type slices m \<longleftrightarrow> ah_device_type H m = device_type
     \<and> (\<exists>n sig hash. ah_security H m = Sec_Signed n sig
          \<and> data_hash (feed Cr H slices (validator_new H key SL_Signed device_type)) = Ok hash \<and> cr_verify Cr key hash sig)
     \<and> (\<forall>c cs. slices = c # cs \<and> ah_binary_size H \<le> length c \<and> [] \<notin> set cs \<longrightarrow>
          authentic Cr H key device_type (concat slices) m)"

context application_header_format
begin

lemma accepted_signed_authentic:
  assumes "check_image Cr H k SL_Signed d ex img = Ok h" and "ah_binary_size H \<le> length img"
  shows "authentic Cr H k d img h"
  using check_image_accepts [OF assms] level_signed [of "ah_security H h"]
  by (auto simp: authentic_def)

lemma existing_signed_authentic:
  assumes "verify Cr H (validate_existing_firmware Cr H app d k SL_Signed) = Ok h"
  shows "authentic Cr H k d app h"
  using validate_existing_accepts [OF assms [unfolded verify_def] sizes(1)] by (intro accepted_signed_authentic)

lemma apply_update_checks:
  assumes "apply_update Cr H S A C d k s = (Ok h, s')"
  shows "authentic Cr H k d (af_application_total A (fst s')) h"
  using assms existing_signed_authentic
  by (auto simp: apply_update_def elim!: and_then_OkE split: sum.splits)

lemma accepted_candidate:
  assumes "validate_update_of Cr H ex (feed Cr H slices (validator_new H k SL_Signed d)) = Ok m"
  shows "verified_candidate Cr H k d slices m"
proof -
  let ?v = "feed Cr H slices (validator_new H k SL_Signed d)"
  have settings: "v_min_security ?v = SL_Signed" "v_device_type ?v = d" "v_signing_key ?v = k"
    using feed_settings [of "validator_new H k SL_Signed d" Cr H slices] by (simp_all add: same_settings_def validator_new_def)
  note ok = validate_update_of_Ok [OF assms, unfolded settings]
  obtain n sig where sig: "ah_security H m = Sec_Signed n sig"
    using level_signed [OF ok(2)] by blast
  have "authentic Cr H k d (concat slices) m" if "slices = c # cs" "ah_binary_size H \<le> length c" "[] \<notin> set cs" for c cs
    using assms that feed_check [OF sizes(1) that(2,3), of Cr ex k SL_Signed d]
    by (auto intro!: accepted_signed_authentic [where ex = ex])
  with ok(1) ok(4) [OF sig] sig show ?thesis
    unfolding verified_candidate_def by blast
qed

lemma validate_update_checks:
  assumes "validate_update Cr H S C app d k l st = (status, st')"
  shows "status = UpToDate h \<or> status = UpdateRejected h e \<Longrightarrow>
      ah_try_from_bytes H app = Ok h \<and> ah_device_type H h = d \<and> \<not> level_less (security_level_of (ah_security H h)) l
      \<and> (l = SL_Signed \<longrightarrow> authentic Cr H k d app h)"
    and "status = ShouldUpdate m \<Longrightarrow>
      verified_candidate Cr H k d (candidate_slices S C (snd (read_new_header H S C st))) m
      \<and> (\<forall>x. verify Cr H (validate_existing_firmware Cr H app d k l) = Ok x \<longrightarrow> ah_anti_downgrade H x \<le> ah_anti_downgrade H m)"
proof -
  let ?old = "validate_existing_firmware Cr H app d k l"
  obtain hdr st1 where hdr: "read_new_header H S C st = (hdr, st1)" by fastforce
  obtain new st2 where new: "validate_new_firmware Cr H S C d k st1 = (new, st2)" by fastforce
  then have "new = feed Cr H (candidate_slices S C st1) (validator_new H k SL_Signed d)"
    using validate_new_firmware_feed [of Cr H S C d k st1] by simp
  note candidate = accepted_candidate [of Cr _ "candidate_slices S C st1" k d, folded this]
  have keep: "ah_try_from_bytes H app = Ok h \<and> ah_device_type H h = d \<and> \<not> level_less (security_level_of (ah_security H h)) l
      \<and> (l = SL_Signed \<longrightarrow> authentic Cr H k d app h)" if "verify Cr H ?old = Ok h" for h
    using check_image_accepts [of Cr k l d None app h] accepted_signed_authentic [of Cr k d None app h]
      validate_existing_accepts [OF that [unfolded verify_def] sizes(1)] by blast
  show "ah_try_from_bytes H app = Ok h \<and> ah_device_type H h = d \<and> \<not> level_less (security_level_of (ah_security H h)) l
      \<and> (l = SL_Signed \<longrightarrow> authentic Cr H k d app h)" if "status = UpToDate h \<or> status = UpdateRejected h e"
  proof -
    have "verify Cr H ?old = Ok h"
      using assms hdr new that by (auto simp: validate_update_def Let_def split: sum.splits if_splits)
    then show ?thesis by (rule keep)
  qed
  show "verified_candidate Cr H k d (candidate_slices S C (snd (read_new_header H S C st))) m
      \<and> (\<forall>x. verify Cr H ?old = Ok x \<longrightarrow> ah_anti_downgrade H x \<le> ah_anti_downgrade H m)" if "status = ShouldUpdate m"
  proof (cases "verify Cr H ?old")
    case (Inl e)
    with assms hdr new that have "validate_update_of Cr H None new = Ok m"
      by (auto simp: validate_update_def Let_def verify_def [of _ _ new] split: sum.splits if_splits)
    with candidate Inl hdr show ?thesis by simp
  next
    case (Inr x)
    with assms hdr new that have "validate_update_of Cr H (Some x) new = Ok m"
      by (auto simp: validate_update_def Let_def allow_update_from_def split: sum.splits if_splits)
    with candidate Inr hdr validate_update_of_Ok(3) show ?thesis by fastforce
  qed
qed

end

section \<open>Examples\<close>

text \<open>
  A signature scheme for the concrete runs: the hash is the sum of the bytes, a signature is the
  hash plus the key. Device types are bytes.
\<close>

definition ex_crypto :: "(u8, u8, u8) crypto" where
  "ex_crypto = \<lparr>cr_sha256 = (\<lambda>bs. [sum_list bs]), cr_verify = (\<lambda>k h s. s = k + hd h), cr_sign = (\<lambda>p data. Some (p + sum_list data)),
     cr_sig_to_bytes = (\<lambda>s. s # replicate 63 0), cr_sig_from_bytes = (\<lambda>bs. Some (hd bs))\<rparr>"

definition ex_device :: "u8 device_type_ops" where
  "ex_device = \<lparr>dt_to_byte = id, dt_try_from_byte = Some\<rparr>"

interpretation ex_scheme: v2_scheme ex_crypto ex_device
  by unfold_locales (simp_all add: ex_crypto_def ex_device_def)

abbreviation "ex_format \<equiv> header_v2 ex_crypto ex_device"

definition ex_unsigned :: bytes where
  "ex_unsigned = header_as_bytes ex_crypto ex_device
     \<lparr>hv_security = Sec_None, hv_anti_downgrade_version = 7, hv_device_type = 3\<rparr> @ [10, 20, 30]"

definition ex_image :: bytes where
  "ex_image = (case sign_image ex_crypto ex_format 5 ex_unsigned of Ok img \<Rightarrow> img | Err _ \<Rightarrow> [])"

definition ex_fw_header :: "(u8, u8) application_header_v2" where
  "ex_fw_header = \<lparr>hv_security = Sec_Signed 84 75, hv_anti_downgrade_version = 7, hv_device_type = 3\<rparr>"

lemma ex_image_signed: "sign_image ex_crypto ex_format 5 ex_unsigned = Ok ex_image"
  and ex_image_length: "length ex_image = 84"
  and ex_unsigned_length: "length ex_unsigned = 84"
  by code_simp+

lemma ex_checked: "check_image ex_crypto ex_format 5 SL_Signed 3 None ex_image = Ok ex_fw_header"
  by code_simp

text \<open>A file source over the fragments of a file in memory, and an internal flash that takes any bytes.\<close>

definition ex_source :: "bytes list \<Rightarrow> (unit, unit, unit) firmware_source" where
  "ex_source frags = \<lparr>fs_file_handle = ret (), fs_read_fragment = (\<lambda>_ i n. if unat i < length frags then ret (take n (frags ! unat i)) else throw ()),
     fs_fragment_count = length frags\<rparr>"

definition ex_app :: "(bytes, unit, unit) app_flash" where
  "ex_app = \<lparr>af_application_total = id, af_erase_application = (\<lambda>_. (Ok (), [])),
     af_append = (\<lambda>bs i. (Ok (length bs), i @ bs)), af_finalize = (\<lambda>i. (Ok (length i), i))\<rparr>"

section \<open>Properties\<close>

text \<open>
  C34. The decision of the validator does not depend on how an image is sliced: when the first slice
  contains the whole header and no slice is empty, \<open>verify\<close> and \<open>allow_update_from\<close> after feeding
  the slices decide as on the whole image, for every header format and signature scheme.
\<close>

theorem validator_slices:
  assumes "0 < ah_binary_size H" and "ah_binary_size H \<le> length c" and "[] \<notin> set cs"
  shows "verify Cr H (feed Cr H (c # cs) (validator_new H key min_security device_type))
      = check_image Cr H key min_security device_type None (concat (c # cs))
    \<and> allow_update_from Cr H existing (feed Cr H (c # cs) (validator_new H key min_security device_type))
      = check_image Cr H key min_security device_type (Some existing) (concat (c # cs))"
  using feed_check [OF assms, of Cr None key min_security device_type]
    feed_check [OF assms, of Cr "Some existing" key min_security device_type]
  by (simp add: verify_def allow_update_from_def)

theorem validator_slices_witness:
  "verify ex_crypto ex_format (feed ex_crypto ex_format [take 82 ex_image, drop 82 ex_image] (validator_new ex_format 5 SL_Signed 3))
     = Ok ex_fw_header"
proof -
  have "ah_binary_size ex_format \<le> length (take 82 ex_image)" and "[] \<notin> set [drop 82 ex_image]"
    using ex_image_length by auto
  from validator_slices [OF _ this, of ex_crypto 5 SL_Signed 3 ex_fw_header] ex_checked show ?thesis by simp
qed

text \<open>
  The same signed image that is accepted as a whole is not accepted when its header arrives in two
  slices.
\<close>

lemma split_header_rejected:
  "verify ex_crypto ex_format (feed ex_crypto ex_format [ex_image] (validator_new ex_format 5 SL_Signed 3)) = Ok ex_fw_header
   \<and> verify ex_crypto ex_format (feed ex_crypto ex_format [take 40 ex_image, drop 40 ex_image] (validator_new ex_format 5 SL_Signed 3))
       = Err VE_Incomplete"
  by code_simp

text \<open>
  C35. The condition on the first slice is needed, although the comment of \<open>update\<close> allows any
  slices: when the header arrives in two slices, its version and its device type are not
  authenticated. The byte counter restarts with the second part of the header, so the authenticated
  fields of the header are not hashed. From a signature over the fields \<open>auth\<close> and the code of a
  genuine image, an image with any version and device type in its header is accepted, by moving the
  genuine fields behind the header.
\<close>

theorem split_header_forgery:
  assumes "v2_scheme Cr D" and "cr_verify Cr key (cr_sha256 Cr (auth @ code)) sig"
    and "length auth = 5" and "length code < 2 ^ 31"
    and "h = \<lparr>hv_security = Sec_Signed (46 + length code) sig, hv_anti_downgrade_version = any_version, hv_device_type = any_device\<rparr>"
    and "dt_try_from_byte D (dt_to_byte D any_device) = Some any_device"
    and "img = header_as_bytes Cr D h @ auth @ code"
  shows "verify Cr (header_v2 Cr D) (feed Cr (header_v2 Cr D) [take 40 img, drop 40 img] (validator_new (header_v2 Cr D) key l any_device)) = Ok h"
proof -
  let ?H = "header_v2 Cr D" and ?new = "validator_new (header_v2 Cr D) key l any_device"
  have h: "hv_security h = Sec_Signed (46 + length code) sig" "hv_device_type h = any_device" using assms(5) by simp_all
  have n: "0 < 46 + length code" "46 + length code < 2 ^ 32" using assms(4) by simp_all
  have device: "dt_try_from_byte D (dt_to_byte D (hv_device_type h)) = Some (hv_device_type h)" using assms(6) h(2) by simp
  have hdr: "length (header_as_bytes Cr D h) = 81" "header_try_from_bytes Cr D (header_as_bytes Cr D h) = Ok h"
    using v2_scheme.image_header_roundtrip(1) [OF assms(1) device h(1) n]
      v2_scheme.image_header_roundtrip(2) [OF assms(1) device h(1) n, of "[]"] by simp_all
  define v1 where "v1 = ?new\<lparr>v_state := V_Init (take 40 img @ replicate 41 0), v_n_bytes := 40\<rparr>"
  have one: "validator_update Cr ?H (take 40 img) ?new = (False, v1)"
    using hdr(1) assms(7)
    by (subst validator_update.simps) (simp add: update_round_def validator_new_def v1_def Let_def)
  define v2 where "v2 = ?new\<lparr>v_state := V_NeedMoreData h [], v_n_bytes := 41\<rparr>"
  have header: "take 40 img @ take 41 (drop 40 img) = header_as_bytes Cr D h"
    using hdr(1) assms(7) by (simp add: take_add [symmetric])
  have "update_round Cr ?H (drop 40 img) v1 = (Some 41, v2\<lparr>v_n_bytes := 0\<rparr>)"
    using hdr assms(3,7) header by (simp add: update_round_def v1_def v2_def Let_def)
  moreover have "drop 41 (drop 40 img) = auth @ code" using hdr(1) assms(7) by simp
  ultimately have two: "validator_update Cr ?H (drop 40 img) v1 = validator_update Cr ?H (auth @ code) v2"
    using assms(3) by (subst validator_update.simps) (auto simp: v2_def Let_def)
  have "v_state (snd (validator_update Cr ?H (auth @ code) v2)) = V_Complete h (cr_sha256 Cr (auth @ code))"
    using update_need_more_done [of v2 h "[]" ?H "46 + length code" "auth @ code" Cr] assms(3) h(1)
    by (simp add: v2_def)
  moreover define v3 where "v3 = snd (validator_update Cr ?H (auth @ code) v2)"
  moreover have "v_signing_key v3 = key \<and> v_min_security v3 = l \<and> v_device_type v3 = any_device"
    using validator_update_settings [of v2 Cr ?H "auth @ code"] by (simp add: v3_def v2_def same_settings_def validator_new_def)
  moreover have "feed Cr ?H [take 40 img, drop 40 img] ?new = v3" by (simp add: feed_def one two v3_def)
  ultimately show ?thesis
    using assms(2) h by (cases l) (simp_all add: verify_def validate_update_of_def level_less_def)
qed

theorem split_header_forgery_witness:
  "\<exists>img. verify ex_crypto ex_format (feed ex_crypto ex_format [take 40 img, drop 40 img] (validator_new ex_format 5 SL_Signed 9))
     = Ok \<lparr>hv_security = Sec_Signed 49 75, hv_anti_downgrade_version = 200, hv_device_type = 9\<rparr>"
proof -
  define h where "h = \<lparr>hv_security = Sec_Signed (46 + length [10, 20, 30 :: u8]) (75 :: u8), hv_anti_downgrade_version = 200, hv_device_type = (9 :: u8)\<rparr>"
  define img where "img = header_as_bytes ex_crypto ex_device h @ [7, 0, 0, 0, 3] @ [10, 20, 30]"
  have "cr_verify ex_crypto 5 (cr_sha256 ex_crypto ([7, 0, 0, 0, 3] @ [10, 20, 30])) 75"
    and "dt_try_from_byte ex_device (dt_to_byte ex_device 9) = Some 9"
    by (simp_all add: ex_crypto_def ex_device_def)
  from split_header_forgery [OF ex_scheme.v2_scheme_axioms this(1) _ _ h_def this(2) img_def, of SL_Signed]
  have "verify ex_crypto ex_format (feed ex_crypto ex_format [take 40 img, drop 40 img] (validator_new ex_format 5 SL_Signed 9)) = Ok h"
    by simp
  then show ?thesis by (intro exI [of _ img]) (simp add: h_def)
qed

text \<open>
  An image that was signed with the private key is accepted with the public key, however it is
  sliced: signing succeeded, the image has code after its header and less than 4 GB, and signatures
  of the scheme verify. The accepted header carries the version of the unsigned image and the
  length of the image.
\<close>

theorem signed_image_accepted:
  assumes "v2_scheme Cr D" and "sign_image Cr (header_v2 Cr D) p binary = Ok img"
    and "header_try_from_bytes Cr D binary = Ok h" and "81 < length binary" and "length binary < 2 ^ 32"
    and "\<And>data sig. cr_sign Cr p data = Some sig \<Longrightarrow> cr_verify Cr k (cr_sha256 Cr data) sig"
    and "concat (c # cs) = img" and "81 \<le> length c" and "[] \<notin> set cs"
  shows "\<exists>m sig. verify Cr (header_v2 Cr D) (feed Cr (header_v2 Cr D) (c # cs) (validator_new (header_v2 Cr D) k l (hv_device_type h))) = Ok m
    \<and> hv_security m = Sec_Signed (length binary) sig \<and> hv_anti_downgrade_version m = hv_anti_downgrade_version h"
proof -
  have format: "application_header_format (header_v2 Cr D)" by (rule v2_scheme.v2_format [OF assms(1)])
  obtain m sig where "check_image Cr (header_v2 Cr D) k l (hv_device_type h) None img = Ok m"
    "hv_security m = Sec_Signed (length binary) sig" "hv_anti_downgrade_version m = hv_anti_downgrade_version h"
    using application_header_format.sign_image_accepted [OF format assms(2), of k h l thesis] assms(3-6) by auto
  with feed_check [of "header_v2 Cr D" c cs Cr None k l "hv_device_type h"] assms(7-9) show ?thesis
    by (auto simp: verify_def)
qed

theorem signed_image_accepted_witness:
  "\<exists>m sig. verify ex_crypto ex_format (feed ex_crypto ex_format [take 82 ex_image, drop 82 ex_image] (validator_new ex_format 5 SL_Signed 3)) = Ok m
     \<and> hv_security m = Sec_Signed 84 sig \<and> hv_anti_downgrade_version m = 7"
proof -
  define h :: "(u8, u8) application_header_v2" where "h = \<lparr>hv_security = Sec_None, hv_anti_downgrade_version = 7, hv_device_type = 3\<rparr>"
  have parse: "header_try_from_bytes ex_crypto ex_device ex_unsigned = Ok h" unfolding h_def by code_simp
  have verifies: "cr_verify ex_crypto 5 (cr_sha256 ex_crypto data) sig" if "cr_sign ex_crypto 5 data = Some sig" for data sig
    using that by (auto simp: ex_crypto_def)
  show ?thesis
    using signed_image_accepted [OF ex_scheme.v2_scheme_axioms ex_image_signed parse _ _ verifies,
        of "take 82 ex_image" "[drop 82 ex_image]" SL_Signed] ex_image_length ex_unsigned_length
    by (simp add: h_def)
qed

text \<open>
  C11. The bootloader starts or installs only firmware it may. It keeps the installed image
  (\<open>UpToDate\<close>, \<open>UpdateRejected\<close>) only if that image parses, is for this device and has the
  required security level; with the level \<open>Signed\<close> of production bootloaders, only if its
  signature covers its version, device type and code. It decides to update only to a candidate for this device
  that is not older than a valid installed image and whose signature verifies with the key of the bootloader for the hash of
  the file; when the first slice of the file contains the whole header and no slice is empty, the file is
  an authentic image: the signature covers version, device type and code. This holds for any content of the firmware file
  and any read errors.
\<close>

theorem bootloader_decision_safe:
  assumes "v2_scheme Cr D"
    and "validate_update Cr (header_v2 Cr D) S C app device_type key l st = (status, st')"
  shows "case status of
      UpToDate h \<Rightarrow> header_try_from_bytes Cr D app = Ok h \<and> hv_device_type h = device_type
        \<and> \<not> level_less (security_level_of (hv_security h)) l \<and> (l = SL_Signed \<longrightarrow> authentic Cr (header_v2 Cr D) key device_type app h)
    | UpdateRejected h _ \<Rightarrow> header_try_from_bytes Cr D app = Ok h \<and> hv_device_type h = device_type
        \<and> \<not> level_less (security_level_of (hv_security h)) l \<and> (l = SL_Signed \<longrightarrow> authentic Cr (header_v2 Cr D) key device_type app h)
    | ShouldUpdate m \<Rightarrow>
        verified_candidate Cr (header_v2 Cr D) key device_type
          (candidate_slices S C (snd (read_new_header (header_v2 Cr D) S C st))) m
        \<and> (\<forall>x. verify Cr (header_v2 Cr D) (validate_existing_firmware Cr (header_v2 Cr D) app device_type key l) = Ok x
            \<longrightarrow> hv_anti_downgrade_version x \<le> hv_anti_downgrade_version m)
    | Bricked _ _ \<Rightarrow> True"
proof -
  have "application_header_format (header_v2 Cr D)" by (rule v2_scheme.v2_format [OF assms(1)])
  from application_header_format.validate_update_checks [OF this assms(2)] show ?thesis
    by (cases status) simp_all
qed

text \<open>An update to a signed file when nothing is installed, and an installed image that is kept.\<close>

theorem bootloader_decision_safe_witness:
  "(fst (validate_update ex_crypto ex_format (ex_source [take 82 ex_image, drop 82 ex_image]) 100 [] 3 5 SL_Signed ()) = ShouldUpdate ex_fw_header
     \<and> authentic ex_crypto ex_format 5 3 ex_image ex_fw_header)
   \<and> fst (validate_update ex_crypto ex_format (ex_source []) 100 ex_image 3 5 SL_Signed ()) = UpdateRejected ex_fw_header VE_Incomplete"
proof -
  let ?slices = "[take 82 ex_image, drop 82 ex_image]"
  have runs: "fst (validate_update ex_crypto ex_format (ex_source ?slices) 100 [] 3 5 SL_Signed ()) = ShouldUpdate ex_fw_header"
    "candidate_slices (ex_source ?slices) 100 () = ?slices"
    "fst (validate_update ex_crypto ex_format (ex_source []) 100 ex_image 3 5 SL_Signed ()) = UpdateRejected ex_fw_header VE_Incomplete"
    by code_simp+
  obtain st' where "validate_update ex_crypto ex_format (ex_source ?slices) 100 [] 3 5 SL_Signed () = (ShouldUpdate ex_fw_header, st')"
    using runs(1) by (metis prod.collapse)
  from bootloader_decision_safe [OF ex_scheme.v2_scheme_axioms this]
  have "verified_candidate ex_crypto ex_format 5 3 ?slices ex_fw_header"
    by (simp add: runs(2))
  then have "authentic ex_crypto ex_format 5 3 ex_image ex_fw_header"
    using ex_image_length by (auto simp: verified_candidate_def)
  with runs show ?thesis by simp
qed

text \<open>
  C10. An update that was installed successfully is authentic: whatever was read from the file store
  and written to the internal flash, \<open>apply_update\<close> returns \<open>Ok\<close> only if the image that is then in the
  internal flash is signed for this device with the key of the bootloader.
\<close>

theorem installed_update_authentic:
  assumes "v2_scheme Cr D" and "apply_update Cr (header_v2 Cr D) S A C device_type key s = (Ok h, s')"
  shows "authentic Cr (header_v2 Cr D) key device_type (af_application_total A (fst s')) h"
  by (rule application_header_format.apply_update_checks [OF v2_scheme.v2_format [OF assms(1)] assms(2)])

theorem installed_update_authentic_witness:
  "\<exists>s'. apply_update ex_crypto ex_format (ex_source [take 82 ex_image, drop 82 ex_image]) ex_app 100 3 5 ([], ()) = (Ok ex_fw_header, s')
     \<and> authentic ex_crypto ex_format 5 3 (fst s') ex_fw_header"
proof -
  have "fst (apply_update ex_crypto ex_format (ex_source [take 82 ex_image, drop 82 ex_image]) ex_app 100 3 5 ([], ())) = Ok ex_fw_header"
    by code_simp
  then obtain s' where run: "apply_update ex_crypto ex_format (ex_source [take 82 ex_image, drop 82 ex_image]) ex_app 100 3 5 ([], ()) = (Ok ex_fw_header, s')"
    by (metis prod.collapse)
  with installed_update_authentic [OF ex_scheme.v2_scheme_axioms run] show ?thesis by (auto simp: ex_app_def)
qed

end
