(* ===== verification/Sample_Buffer.thy ===== *)
theory Sample_Buffer
  imports Prelude
begin

text \<open>
  The sample buffer of the dispatcher, \<open>logic/dispatch/buffer.rs\<close>, with the container
  \<open>UniformSamples\<close> it fills (\<open>sensor-link-protocol/src/samples.rs\<close>): batches of samples of several
  axes are collected until the buffer is full, a batch does not follow in time, or the collected
  time range is too long; then the buffer is serialized into one packet.

  The number of axes and the capacity are arguments. Samples are values of any type: the buffer
  moves them only; the sampling frequency of a batch and of the buffer is carried along and never
  read, and is left out. Timestamps (\<open>i64\<close>, microseconds) are integers: they stay far away from the limits
  of the type. The slack \<open>t_delta_us\<close>, two sample intervals, is computed in floating point from the
  sample frequency when the buffer is created; it is an argument of \<open>serializing_buffer_empty\<close>. The
  serializer (trait \<open>BufferSerializer\<close>) is an argument too: any function from the collected samples
  to a packet or an error.
\<close>

section \<open>UniformSamples\<close>

record 'x uniform_samples =
  us_t :: int
  us_ch :: "'x list list"

definition us_empty_at :: "nat \<Rightarrow> int \<Rightarrow> 'x uniform_samples" where
  "us_empty_at n_ch t_start = \<lparr>us_t = t_start, us_ch = replicate n_ch []\<rparr>"

definition us_empty :: "nat \<Rightarrow> 'x uniform_samples" where
  "us_empty n_ch = us_empty_at n_ch 0"

definition us_len :: "nat \<Rightarrow> 'x uniform_samples \<Rightarrow> nat" where
  "us_len max_n u = (if us_t u = 0 then 0 else fold (\<lambda>c acc. min acc (length c)) (us_ch u) max_n)"

section \<open>SampleData\<close>

record 'x sample_data =
  sd_t :: int
  sd_len :: nat
  sd_samples :: "'x list list"
  sd_t_last :: int

section \<open>SerializingBuffer\<close>

datatype buffer_status = BS_Ok | BS_NotContiguous | BS_NotEnoughSpace | BS_NotEnoughSpaceForNext | BS_Timeout

record 'x serializing_buffer =
  sb_sample_buffer :: "'x uniform_samples"
  sb_last_timestamp :: int
  sb_t_delta_us :: int
  sb_timeout_us :: int

definition serializing_buffer_empty :: "nat \<Rightarrow> int \<Rightarrow> int \<Rightarrow> 'x serializing_buffer" where
  "serializing_buffer_empty n_axes t_delta_us timeout_us =
     \<lparr>sb_sample_buffer = us_empty n_axes, sb_last_timestamp = 0, sb_t_delta_us = t_delta_us, sb_timeout_us = timeout_us\<rparr>"

definition sb_set_timeout :: "int \<Rightarrow> 'x serializing_buffer \<Rightarrow> 'x serializing_buffer" where
  "sb_set_timeout timeout_us b = b\<lparr>sb_timeout_us := timeout_us\<rparr>"

definition sb_len :: "nat \<Rightarrow> 'x serializing_buffer \<Rightarrow> nat" where
  "sb_len max_n b = us_len max_n (sb_sample_buffer b)"

definition sb_is_empty :: "nat \<Rightarrow> 'x serializing_buffer \<Rightarrow> bool" where
  "sb_is_empty max_n b \<longleftrightarrow> sb_len max_n b = 0"

definition sb_is_full :: "nat \<Rightarrow> 'x serializing_buffer \<Rightarrow> bool" where
  "sb_is_full max_n b \<longleftrightarrow> sb_len max_n b = max_n"

definition sb_clear :: "nat \<Rightarrow> 'x serializing_buffer \<Rightarrow> 'x serializing_buffer" where
  "sb_clear n_axes b = b\<lparr>sb_sample_buffer := us_empty n_axes\<rparr>"

text \<open>\<open>extend_from_slice\<close> on each axis; it refuses a slice that does not fit and leaves the axis as it was.\<close>

fun extend_axes :: "nat \<Rightarrow> 'x sample_data \<Rightarrow> nat list \<Rightarrow> 'x list list \<Rightarrow> bool \<times> 'x list list" where
  "extend_axes max_n data [] ch = (True, ch)"
| "extend_axes max_n data (i # is) ch =
     (let slice = take (sd_len data) (sd_samples data ! i) in
      if length (ch ! i) + length slice > max_n then (False, ch)
      else extend_axes max_n data is (ch[i := ch ! i @ slice]))"

definition sb_push :: "nat \<Rightarrow> nat \<Rightarrow> 'x sample_data \<Rightarrow> 'x serializing_buffer \<Rightarrow> buffer_status \<times> 'x serializing_buffer" where
  "sb_push n_axes max_n data b =
     (if sb_len max_n b + sd_len data > max_n then (BS_NotEnoughSpace, b)
      else
        (let b1 = (if sb_is_empty max_n b
                   then b\<lparr>sb_sample_buffer := (sb_sample_buffer b)\<lparr>us_t := sd_t data\<rparr>, sb_last_timestamp := sd_t_last data\<rparr>
                   else b)
         in if sd_t data > sb_last_timestamp b1 + sb_t_delta_us b1 then (BS_NotContiguous, b1)
            else
              (let (ok, ch) = extend_axes max_n data [0..<n_axes] (us_ch (sb_sample_buffer b1));
                   b2 = b1\<lparr>sb_sample_buffer := (sb_sample_buffer b1)\<lparr>us_ch := ch\<rparr>\<rparr>
               in if \<not> ok then (BS_NotEnoughSpace, b2)
                  else
                    (let b3 = b2\<lparr>sb_last_timestamp := sd_t_last data\<rparr>
                     in if sb_last_timestamp b3 - us_t (sb_sample_buffer b3) > sb_timeout_us b3 then (BS_Timeout, b3)
                        else if sb_len max_n b3 + sd_len data > max_n then (BS_NotEnoughSpaceForNext, b3)
                        else (BS_Ok, b3)))))"

section \<open>BufferManager\<close>

datatype 'p buffer_result = DataAdded | Serialized 'p | SerializationFailed

definition should_serialize :: "nat \<Rightarrow> 'p option \<Rightarrow> buffer_status \<Rightarrow> 'x serializing_buffer \<Rightarrow> bool" where
  "should_serialize max_n serialized_packet status b =
     (case status of
        BS_Ok \<Rightarrow> sb_is_full max_n b
      | BS_NotContiguous \<Rightarrow> True
      | BS_NotEnoughSpace \<Rightarrow> True
      | BS_NotEnoughSpaceForNext \<Rightarrow> serialized_packet = None
      | BS_Timeout \<Rightarrow> serialized_packet = None)"

definition status_inserted :: "buffer_status \<Rightarrow> bool" where
  "status_inserted status \<longleftrightarrow> status \<notin> {BS_NotContiguous, BS_NotEnoughSpace}"

text \<open>
  The loop of \<open>push_data\<close>; it ends when the data is in the buffer. \<open>None\<close> is running out of
  rounds: \<open>Sample_Buffer_Correct\<close> shows that three rounds are enough.
\<close>

fun push_rounds ::
  "('x uniform_samples \<Rightarrow> ('p, 'e) result) \<Rightarrow> nat \<Rightarrow> nat \<Rightarrow> 'x sample_data \<Rightarrow> nat \<Rightarrow> 'p option \<Rightarrow> nat \<Rightarrow> 'x serializing_buffer \<Rightarrow>
   ('p buffer_result \<times> 'x serializing_buffer) option" where
  "push_rounds serialize n_axes max_n data 0 packet num_tries b = None"
| "push_rounds serialize n_axes max_n data (Suc rounds) packet num_tries b =
     (let (status, b1) = sb_push n_axes max_n data b;
          data_inserted = status_inserted status;
          finish = (\<lambda>packet b. Some (case packet of Some p \<Rightarrow> Serialized p | None \<Rightarrow> DataAdded, b))
      in if should_serialize max_n packet status b1
         then (case serialize (sb_sample_buffer b1) of
                 Ok serialized \<Rightarrow>
                   if data_inserted then Some (Serialized serialized, sb_clear n_axes b1)
                   else push_rounds serialize n_axes max_n data rounds (Some serialized) num_tries (sb_clear n_axes b1)
               | Err _ \<Rightarrow>
                   if num_tries \<ge> 1 then Some (SerializationFailed, sb_clear n_axes b1)
                   else if data_inserted then finish packet (sb_clear n_axes b1)
                   else push_rounds serialize n_axes max_n data rounds packet (num_tries + 1) (sb_clear n_axes b1))
         else if data_inserted then finish packet b1
         else push_rounds serialize n_axes max_n data rounds packet num_tries b1)"

definition push_data ::
  "('x uniform_samples \<Rightarrow> ('p, 'e) result) \<Rightarrow> nat \<Rightarrow> nat \<Rightarrow> nat \<Rightarrow> 'x sample_data \<Rightarrow> 'x serializing_buffer \<Rightarrow>
   ('p buffer_result \<times> 'x serializing_buffer) option" where
  "push_data serialize n_axes max_n rounds data b = push_rounds serialize n_axes max_n data rounds None 0 b"

definition force_serialize ::
  "('x uniform_samples \<Rightarrow> ('p, 'e) result) \<Rightarrow> nat \<Rightarrow> nat \<Rightarrow> 'x serializing_buffer \<Rightarrow> 'p option \<times> 'x serializing_buffer" where
  "force_serialize serialize n_axes max_n b =
     (if \<not> sb_is_empty max_n b
      then (case serialize (sb_sample_buffer b) of
              Ok serialized \<Rightarrow> (Some serialized, sb_clear n_axes b)
            | Err _ \<Rightarrow> (None, sb_clear n_axes b))
      else (None, b))"

end
