(* ===== verification/Sample_Buffer_Correct.thy ===== *)
theory Sample_Buffer_Correct
  imports Sample_Buffer
begin

text \<open>
  What the sample buffer promises. The abstract state of a buffer is the list of the batches it
  holds, \<open>holds\<close>; the samples the buffer then contains are \<open>collect\<close> of that list. A push either
  appends its batch or refuses it with the buffer unchanged (\<open>sb_push_appends\<close>, \<open>sb_push_refuses\<close>),
  the loop of \<open>push_data\<close> ends after two rounds (\<open>push_data_two_rounds\<close>), and a stream of batches is cut
  into packets without losing, repeating or reordering a sample (\<open>push_stream_partition\<close>).
\<close>

section \<open>Batches and what they add up to\<close>

definition wf_batch :: "nat \<Rightarrow> nat \<Rightarrow> int \<Rightarrow> 'x sample_data \<Rightarrow> bool" where
  "wf_batch n_axes max_n delta d \<longleftrightarrow>
     sd_t d \<noteq> 0 \<and> 0 < sd_len d \<and> sd_len d \<le> max_n \<and> length (sd_samples d) = n_axes \<and>
     (\<forall>s \<in> set (sd_samples d). sd_len d \<le> length s) \<and> sd_t d \<le> sd_t_last d + delta"

definition axis_slice :: "nat \<Rightarrow> 'x sample_data \<Rightarrow> 'x list" where
  "axis_slice i d = take (sd_len d) (sd_samples d ! i)"

definition collect :: "nat \<Rightarrow> 'x sample_data list \<Rightarrow> 'x uniform_samples" where
  "collect n_axes ds =
     \<lparr>us_t = (case ds of [] \<Rightarrow> 0 | d # _ \<Rightarrow> sd_t d),
      us_ch = map (\<lambda>i. concat (map (axis_slice i) ds)) [0..<n_axes]\<rparr>"

definition total_len :: "'x sample_data list \<Rightarrow> nat" where
  "total_len ds = sum_list (map sd_len ds)"

definition holds :: "nat \<Rightarrow> nat \<Rightarrow> int \<Rightarrow> 'x serializing_buffer \<Rightarrow> 'x sample_data list \<Rightarrow> bool" where
  "holds n_axes max_n delta b ds \<longleftrightarrow>
     sb_sample_buffer b = collect n_axes ds \<and> sb_t_delta_us b = delta \<and>
     (ds \<noteq> [] \<longrightarrow> sb_last_timestamp b = sd_t_last (last ds)) \<and>
     total_len ds \<le> max_n \<and> (\<forall>d \<in> set ds. wf_batch n_axes max_n delta d)"

lemma collect_Nil [simp]: "collect n_axes [] = us_empty n_axes"
  by (simp add: collect_def us_empty_def us_empty_at_def list_eq_iff_nth_eq)

lemma total_len_simps [simp]:
  "total_len [] = 0" "total_len (d # ds) = sd_len d + total_len ds" "total_len (xs @ ys) = total_len xs + total_len ys"
  by (simp_all add: total_len_def)

lemma axis_slice_length: "wf_batch n_axes max_n delta d \<Longrightarrow> i < n_axes \<Longrightarrow> length (axis_slice i d) = sd_len d"
  by (auto simp: wf_batch_def axis_slice_def)

lemma axis_total_length:
  assumes "\<forall>d \<in> set ds. wf_batch n_axes max_n delta d" and "i < n_axes"
  shows "length (concat (map (axis_slice i) ds)) = total_len ds"
  using assms by (induction ds) (auto simp: axis_slice_length)

lemma fold_min_length:
  "\<forall>c \<in> set cs. length c = k \<Longrightarrow> fold (\<lambda>c acc. min acc (length c)) cs m = (if cs = [] then m else min m k)"
  by (induction cs arbitrary: m) auto

lemma us_len_collect:
  assumes "\<forall>d \<in> set ds. wf_batch n_axes max_n delta d" and "0 < n_axes" and "total_len ds \<le> max_n"
  shows "us_len max_n (collect n_axes ds) = total_len ds"
proof (cases ds)
  case Nil
  then show ?thesis by (simp add: us_len_def us_empty_def us_empty_at_def)
next
  case (Cons d rest)
  have "\<forall>c \<in> set (us_ch (collect n_axes ds)). length c = total_len ds"
    using assms(1) by (auto simp: collect_def axis_total_length)
  moreover have "us_t (collect n_axes ds) \<noteq> 0"
    using Cons assms(1) by (simp add: collect_def wf_batch_def)
  moreover have "us_ch (collect n_axes ds) \<noteq> []"
    using assms(2) by (simp add: collect_def)
  ultimately show ?thesis
    using assms(3) fold_min_length[of "us_ch (collect n_axes ds)" "total_len ds"] by (simp add: us_len_def)
qed

lemma holds_len: "holds n_axes max_n delta b ds \<Longrightarrow> 0 < n_axes \<Longrightarrow> sb_len max_n b = total_len ds"
  using us_len_collect[of ds n_axes max_n delta] by (simp add: sb_len_def holds_def)

lemma total_len_zero: "\<forall>d \<in> set ds. wf_batch n_axes max_n delta d \<Longrightarrow> total_len ds = 0 \<longleftrightarrow> ds = []"
  by (cases ds) (auto simp: wf_batch_def)

lemma holds_is_empty: "holds n_axes max_n delta b ds \<Longrightarrow> 0 < n_axes \<Longrightarrow> sb_is_empty max_n b \<longleftrightarrow> ds = []"
  by (simp add: sb_is_empty_def holds_len) (auto simp: holds_def total_len_zero)

lemma holds_wf: "holds n_axes max_n delta b ds \<Longrightarrow> d \<in> set ds \<Longrightarrow> wf_batch n_axes max_n delta d"
  by (simp add: holds_def)

section \<open>One push\<close>

lemma extend_axes_appends:
  assumes "distinct is" and "\<forall>i \<in> set is. i < length ch"
    and "\<forall>i \<in> set is. length (ch ! i) + length (axis_slice i d) \<le> max_n"
  shows "extend_axes max_n d is ch =
    (True, map (\<lambda>i. if i \<in> set is then ch ! i @ axis_slice i d else ch ! i) [0..<length ch])"
  using assms
proof (induction "is" arbitrary: ch)
  case Nil
  then show ?case by (simp add: map_nth)
next
  case (Cons i "is")
  let ?ch = "ch[i := ch ! i @ axis_slice i d]"
  have "extend_axes max_n d (i # is) ch = extend_axes max_n d is ?ch"
    using Cons.prems by (simp add: axis_slice_def)
  also have "\<dots> = (True, map (\<lambda>j. if j \<in> set is then ?ch ! j @ axis_slice j d else ?ch ! j) [0..<length ch])"
    using Cons.prems by (subst Cons.IH) (auto simp: nth_list_update)
  also have "map (\<lambda>j. if j \<in> set is then ?ch ! j @ axis_slice j d else ?ch ! j) [0..<length ch] =
      map (\<lambda>j. if j \<in> set (i # is) then ch ! j @ axis_slice j d else ch ! j) [0..<length ch]"
    using Cons.prems by (intro map_cong) (auto simp: nth_list_update)
  finally show ?case .
qed

lemma extend_axes_collect:
  assumes "\<forall>e \<in> set (ds @ [d]). wf_batch n_axes max_n delta e" and "total_len (ds @ [d]) \<le> max_n"
  shows "extend_axes max_n d [0..<n_axes] (us_ch (collect n_axes ds)) = (True, us_ch (collect n_axes (ds @ [d])))"
proof -
  have "length (us_ch (collect n_axes ds) ! i) = total_len ds" "length (axis_slice i d) = sd_len d" if "i < n_axes" for i
    using that assms(1) by (auto simp: collect_def axis_total_length axis_slice_length)
  then have "extend_axes max_n d [0..<n_axes] (us_ch (collect n_axes ds)) =
    (True, map (\<lambda>i. us_ch (collect n_axes ds) ! i @ axis_slice i d) [0..<n_axes])"
    using assms(2) by (subst extend_axes_appends) (auto simp: collect_def)
  then show ?thesis
    by (auto simp: collect_def)
qed

lemma sb_push_refuses:
  assumes "holds n_axes max_n delta b ds" and "0 < n_axes" and "wf_batch n_axes max_n delta d"
    and "total_len ds + sd_len d > max_n \<or> (ds \<noteq> [] \<and> sd_t d > sd_t_last (last ds) + delta)"
  shows "\<exists>status. sb_push n_axes max_n d b = (status, b) \<and> \<not> status_inserted status \<and> ds \<noteq> []"
proof -
  have "ds \<noteq> []"
    using assms(3,4) by (auto simp: wf_batch_def)
  then show ?thesis
    using assms holds_len[OF assms(1,2)] holds_is_empty[OF assms(1,2)]
    by (auto simp: sb_push_def status_inserted_def holds_def)
qed

definition span :: "'x sample_data list \<Rightarrow> int" where
  "span ds = (case ds of [] \<Rightarrow> 0 | d # _ \<Rightarrow> sd_t_last (last ds) - sd_t d)"

lemma sb_push_appends:
  assumes "holds n_axes max_n delta b ds" and "0 < n_axes" and "wf_batch n_axes max_n delta d"
    and "total_len (ds @ [d]) \<le> max_n" and "ds = [] \<or> sd_t d \<le> sd_t_last (last ds) + delta"
  obtains status b' where "sb_push n_axes max_n d b = (status, b')" and "status_inserted status"
    and "holds n_axes max_n delta b' (ds @ [d])" and "sb_timeout_us b' = sb_timeout_us b"
    and "status = BS_Timeout \<longleftrightarrow> span (ds @ [d]) > sb_timeout_us b"
    and "status = BS_Ok \<Longrightarrow> total_len (ds @ [d]) + sd_len d \<le> max_n"
proof -
  define b1 where "b1 = (if sb_is_empty max_n b
    then b\<lparr>sb_sample_buffer := (sb_sample_buffer b)\<lparr>us_t := sd_t d\<rparr>, sb_last_timestamp := sd_t_last d\<rparr> else b)"
  let ?b3 = "b\<lparr>sb_sample_buffer := collect n_axes (ds @ [d]), sb_last_timestamp := sd_t_last d\<rparr>"
  have wf: "\<forall>e \<in> set (ds @ [d]). wf_batch n_axes max_n delta e"
    using assms(1,3) by (auto simp: holds_def)
  have ch: "us_ch (sb_sample_buffer b1) = us_ch (collect n_axes ds)"
    using assms(1) by (simp add: b1_def holds_def)
  have contiguous: "\<not> sd_t d > sb_last_timestamp b1 + sb_t_delta_us b1"
    using assms(5) holds_is_empty[OF assms(1,2)] conjunct2[OF assms(1)[unfolded holds_def]] assms(3)[unfolded wf_batch_def]
    by (cases "ds = []") (simp_all add: b1_def)
  have joined: "b1\<lparr>sb_sample_buffer := (sb_sample_buffer b1)\<lparr>us_ch := us_ch (collect n_axes (ds @ [d]))\<rparr>,
      sb_last_timestamp := sd_t_last d\<rparr> = ?b3"
    using conjunct1[OF assms(1)[unfolded holds_def]] holds_is_empty[OF assms(1,2)]
    by (cases ds) (simp_all add: b1_def collect_def)
  have b3: "holds n_axes max_n delta ?b3 (ds @ [d])"
    using assms(1,4) wf by (simp add: holds_def)
  have room: "\<not> sb_len max_n b + sd_len d > max_n"
    using assms(4) holds_len[OF assms(1,2)] by simp
  define status where "status = (if sb_last_timestamp ?b3 - us_t (sb_sample_buffer ?b3) > sb_timeout_us ?b3 then BS_Timeout
    else if sb_len max_n ?b3 + sd_len d > max_n then BS_NotEnoughSpaceForNext else BS_Ok)"
  have push: "sb_push n_axes max_n d b = (status, ?b3)"
    unfolding sb_push_def Let_def b1_def[symmetric] ch extend_axes_collect[OF wf assms(4)] prod.case
      if_not_P[OF room] if_not_P[OF contiguous] joined status_def
    by (simp only: not_True_eq_False if_False if_distrib[of "\<lambda>s. (s, ?b3)"])
  have "us_t (collect n_axes (ds @ [d])) = sd_t (hd (ds @ [d]))"
    by (cases ds) (simp_all add: collect_def)
  moreover have "span (ds @ [d]) = sd_t_last d - sd_t (hd (ds @ [d]))"
    by (cases ds) (simp_all add: span_def)
  ultimately show ?thesis
    using b3 holds_len[OF b3 assms(2)] push
    by (intro that[of status ?b3]) (auto simp: status_inserted_def status_def split: if_splits)
qed

section \<open>push_data\<close>

lemma holds_clear: "holds n_axes max_n delta b ds \<Longrightarrow> holds n_axes max_n delta (sb_clear n_axes b) []"
  by (simp add: holds_def sb_clear_def)

lemma sb_clear_timeout [simp]: "sb_timeout_us (sb_clear n_axes b) = sb_timeout_us b"
  by (simp add: sb_clear_def)

text \<open>Into an empty buffer every well-formed batch fits: the first push or the first retry stores it.\<close>

lemma sb_push_empty:
  assumes "holds n_axes max_n delta b []" and "0 < n_axes" and "wf_batch n_axes max_n delta d"
  obtains status b' where "sb_push n_axes max_n d b = (status, b')" and "status_inserted status"
    and "holds n_axes max_n delta b' [d]" and "sb_timeout_us b' = sb_timeout_us b"
    and "status = BS_Ok \<Longrightarrow> \<not> sb_is_full max_n b'"
proof -
  have "total_len ([] @ [d]) \<le> max_n"
    using assms(3) by (simp add: wf_batch_def)
  then obtain status b' where *: "sb_push n_axes max_n d b = (status, b')" "status_inserted status"
    "holds n_axes max_n delta b' [d]" "sb_timeout_us b' = sb_timeout_us b" "status = BS_Ok \<Longrightarrow> sd_len d + sd_len d \<le> max_n"
    using sb_push_appends[OF assms] by (metis append_Nil total_len_simps(1,2) add_0_right)
  moreover have "\<not> sb_is_full max_n b'" if "status = BS_Ok"
    using *(5)[OF that] assms(3) holds_len[OF *(3) assms(2)] by (simp add: sb_is_full_def wf_batch_def)
  ultimately show ?thesis
    using that by blast
qed

definition accepts :: "nat \<Rightarrow> int \<Rightarrow> 'x sample_data list \<Rightarrow> 'x sample_data \<Rightarrow> bool" where
  "accepts max_n delta ds d \<longleftrightarrow> total_len (ds @ [d]) \<le> max_n \<and> (ds = [] \<or> sd_t d \<le> sd_t_last (last ds) + delta)"

lemma should_serialize_refused: "\<not> status_inserted status \<Longrightarrow> should_serialize max_n packet status b"
  by (cases status) (simp_all add: status_inserted_def should_serialize_def)

lemma push_data_two_rounds:
  assumes "holds n_axes max_n delta b ds" and "0 < n_axes" and "wf_batch n_axes max_n delta d"
  shows "\<exists>r b' ds'. push_data serialize n_axes max_n (Suc (Suc rounds)) d b = Some (r, b') \<and> holds n_axes max_n delta b' ds'"
proof (cases "accepts max_n delta ds d")
  case True
  then obtain status b' where "sb_push n_axes max_n d b = (status, b')" and "status_inserted status"
    and "holds n_axes max_n delta b' (ds @ [d])"
    using sb_push_appends[OF assms] by (metis accepts_def)
  then show ?thesis
    by (auto simp: push_data_def split: sum.splits dest: holds_clear)
next
  case False
  then obtain status where refused: "sb_push n_axes max_n d b = (status, b)" "\<not> status_inserted status"
    using sb_push_refuses[OF assms] by (auto simp: accepts_def not_le)
  obtain status' b' where "sb_push n_axes max_n d (sb_clear n_axes b) = (status', b')" and "status_inserted status'"
    and "holds n_axes max_n delta b' [d]"
    using sb_push_empty[OF holds_clear[OF assms(1)] assms(2,3)] by metis
  then show ?thesis
    using refused
    by (auto simp: push_data_def Let_def should_serialize_refused[OF refused(2)] split: sum.splits dest: holds_clear)
qed

lemma push_data_step:
  assumes "holds n_axes max_n delta b ds" and "0 < n_axes" and "wf_batch n_axes max_n delta d"
    and total: "\<And>u. serialize u = Ok (f u)"
  obtains r b' where "push_data serialize n_axes max_n (Suc (Suc rounds)) d b = Some (r, b')"
    and "sb_timeout_us b' = sb_timeout_us b"
    and "(r = DataAdded \<and> accepts max_n delta ds d \<and> span (ds @ [d]) \<le> sb_timeout_us b \<and> holds n_axes max_n delta b' (ds @ [d])) \<or>
         (r = Serialized (f (collect n_axes (ds @ [d]))) \<and> accepts max_n delta ds d \<and> holds n_axes max_n delta b' []) \<or>
         (r = Serialized (f (collect n_axes ds)) \<and> ds \<noteq> [] \<and> holds n_axes max_n delta b' [d])"
proof (cases "accepts max_n delta ds d")
  case True
  then obtain status b' where p: "sb_push n_axes max_n d b = (status, b')" "status_inserted status"
    "holds n_axes max_n delta b' (ds @ [d])" "sb_timeout_us b' = sb_timeout_us b"
    "status = BS_Timeout \<longleftrightarrow> span (ds @ [d]) > sb_timeout_us b"
    using sb_push_appends[OF assms(1-3)] by (metis accepts_def)
  have content: "sb_sample_buffer b' = collect n_axes (ds @ [d])"
    using p(3) by (simp add: holds_def)
  show ?thesis
  proof (cases "should_serialize max_n (None :: 'c option) status b'")
    case serialized: True
    then have "push_data serialize n_axes max_n (Suc (Suc rounds)) d b = Some (Serialized (f (collect n_axes (ds @ [d]))), sb_clear n_axes b')"
      using p(1,2) by (simp add: push_data_def total content)
    then show ?thesis
      using that True p(4) holds_clear[OF p(3)] by simp
  next
    case added: False
    then have "push_data serialize n_axes max_n (Suc (Suc rounds)) d b = Some (DataAdded, b')"
      using p(1,2) by (simp add: push_data_def)
    moreover have "status \<noteq> BS_Timeout"
      using added by (auto simp: should_serialize_def)
    ultimately show ?thesis
      using that True p(3-5) by simp
  qed
next
  case False
  then obtain status where refused: "sb_push n_axes max_n d b = (status, b)" "\<not> status_inserted status" "ds \<noteq> []"
    using sb_push_refuses[OF assms(1-3)] by (auto simp: accepts_def not_le)
  obtain status' b' where p: "sb_push n_axes max_n d (sb_clear n_axes b) = (status', b')" "status_inserted status'"
    "holds n_axes max_n delta b' [d]" "sb_timeout_us b' = sb_timeout_us b" "status' = BS_Ok \<Longrightarrow> \<not> sb_is_full max_n b'"
    using sb_push_empty[OF holds_clear[OF assms(1)] assms(2,3)] by (metis sb_clear_timeout)
  have "\<not> should_serialize max_n (Some (f (collect n_axes ds))) status' b'"
    using p(2,5) by (cases status') (auto simp: should_serialize_def status_inserted_def)
  moreover have "sb_sample_buffer b = collect n_axes ds"
    using assms(1) by (simp add: holds_def)
  ultimately have "push_data serialize n_axes max_n (Suc (Suc rounds)) d b = Some (Serialized (f (collect n_axes ds)), b')"
    using refused p(1,2) by (simp add: push_data_def total Let_def should_serialize_refused[OF refused(2)])
  then show ?thesis
    using that p(3,4) refused(3) by simp
qed

section \<open>A stream of batches\<close>

fun push_stream ::
  "('x uniform_samples \<Rightarrow> ('p, 'e) result) \<Rightarrow> nat \<Rightarrow> nat \<Rightarrow> nat \<Rightarrow> 'x sample_data list \<Rightarrow> 'x serializing_buffer \<Rightarrow>
   ('p list \<times> 'x serializing_buffer) option" where
  "push_stream serialize n_axes max_n rounds [] b = Some ([], b)"
| "push_stream serialize n_axes max_n rounds (d # ds) b =
     (case push_data serialize n_axes max_n rounds d b of
        None \<Rightarrow> None
      | Some (r, b1) \<Rightarrow>
          (case push_stream serialize n_axes max_n rounds ds b1 of
             None \<Rightarrow> None
           | Some (ps, b2) \<Rightarrow> Some ((case r of Serialized p \<Rightarrow> p # ps | _ \<Rightarrow> ps), b2)))"

definition contiguous :: "int \<Rightarrow> 'x sample_data list \<Rightarrow> bool" where
  "contiguous delta ds \<longleftrightarrow> successively (\<lambda>d e. sd_t e \<le> sd_t_last d + delta) ds"

text \<open>A group of batches keeps within the timeout until the batch that ends it; a first batch may be longer than the timeout by itself.\<close>

definition timely :: "int \<Rightarrow> nat \<Rightarrow> 'x sample_data list \<Rightarrow> bool" where
  "timely timeout m ds \<longleftrightarrow> (\<forall>k. 2 \<le> k \<and> k \<le> m \<longrightarrow> span (take k ds) \<le> timeout)"

definition packet_group :: "nat \<Rightarrow> int \<Rightarrow> int \<Rightarrow> 'x sample_data list \<Rightarrow> bool" where
  "packet_group max_n delta timeout g \<longleftrightarrow>
     g \<noteq> [] \<and> contiguous delta g \<and> total_len g \<le> max_n \<and> timely timeout (length g - 1) g"

definition pending_group :: "int \<Rightarrow> int \<Rightarrow> 'x sample_data list \<Rightarrow> bool" where
  "pending_group delta timeout g \<longleftrightarrow> contiguous delta g \<and> timely timeout (length g) g"

lemma contiguous_snoc: "contiguous delta ds \<Longrightarrow> accepts max_n delta ds d \<Longrightarrow> contiguous delta (ds @ [d])"
  by (auto simp: contiguous_def accepts_def successively_append_iff)

lemma timely_snoc: "timely timeout (length ds) ds \<Longrightarrow> timely timeout (length ds) (ds @ [d])"
  by (simp add: timely_def)

lemma pending_single [simp]: "pending_group delta timeout [d]" "pending_group delta timeout []"
  by (auto simp: pending_group_def contiguous_def timely_def)

lemma pending_added:
  "pending_group delta timeout ds \<Longrightarrow> accepts max_n delta ds d \<Longrightarrow> span (ds @ [d]) \<le> timeout \<Longrightarrow> pending_group delta timeout (ds @ [d])"
  by (auto simp: pending_group_def contiguous_snoc timely_def le_Suc_eq)

lemma pending_completed:
  "pending_group delta timeout ds \<Longrightarrow> accepts max_n delta ds d \<Longrightarrow> packet_group max_n delta timeout (ds @ [d])"
  by (simp add: packet_group_def pending_group_def contiguous_snoc timely_snoc) (simp add: accepts_def)

lemma pending_closed:
  "pending_group delta timeout ds \<Longrightarrow> ds \<noteq> [] \<Longrightarrow> total_len ds \<le> max_n \<Longrightarrow> packet_group max_n delta timeout ds"
  by (auto simp: packet_group_def pending_group_def timely_def)

definition partitions ::
  "nat \<Rightarrow> nat \<Rightarrow> int \<Rightarrow> int \<Rightarrow> ('x uniform_samples \<Rightarrow> 'p) \<Rightarrow> 'x sample_data list \<Rightarrow> ('p list \<times> 'x serializing_buffer) option \<Rightarrow> bool" where
  "partitions n_axes max_n delta timeout f batches result \<longleftrightarrow>
     (\<exists>groups rest b. batches = concat groups @ rest \<and> result = Some (map (f \<circ> collect n_axes) groups, b) \<and>
        holds n_axes max_n delta b rest \<and> pending_group delta timeout rest \<and>
        (\<forall>g \<in> set groups. packet_group max_n delta timeout g))"

lemma partitions_pending:
  "holds n_axes max_n delta b ds \<Longrightarrow> pending_group delta timeout ds \<Longrightarrow> partitions n_axes max_n delta timeout f ds (Some ([], b))"
  unfolding partitions_def by (intro exI[of _ "[]"] exI[of _ ds] exI[of _ b]) simp

lemma partitions_packet:
  assumes "partitions n_axes max_n delta timeout f batches result" and "packet_group max_n delta timeout g"
  shows "partitions n_axes max_n delta timeout f (g @ batches)
    (case result of None \<Rightarrow> None | Some (ps, b) \<Rightarrow> Some (f (collect n_axes g) # ps, b))"
proof -
  obtain groups rest b where *: "batches = concat groups @ rest" "result = Some (map (f \<circ> collect n_axes) groups, b)"
    "holds n_axes max_n delta b rest" "pending_group delta timeout rest" "\<forall>g \<in> set groups. packet_group max_n delta timeout g"
    using assms(1) unfolding partitions_def by blast
  show ?thesis
    unfolding partitions_def using * assms(2) by (intro exI[of _ "g # groups"] exI[of _ rest] exI[of _ b]) simp
qed

lemma push_stream_partition:
  assumes "holds n_axes max_n delta b ds" and "0 < n_axes" and "pending_group delta (sb_timeout_us b) ds"
    and "\<forall>d \<in> set batches. wf_batch n_axes max_n delta d" and "\<And>u. serialize u = Ok (f u)"
  shows "partitions n_axes max_n delta (sb_timeout_us b) f (ds @ batches)
    (push_stream serialize n_axes max_n (Suc (Suc rounds)) batches b)"
  using assms(1,3,4)
proof (induction batches arbitrary: b ds)
  case Nil
  then show ?case by (simp add: partitions_pending)
next
  case (Cons d batches)
  have wf: "wf_batch n_axes max_n delta d" "\<forall>d \<in> set batches. wf_batch n_axes max_n delta d"
    using Cons.prems(3) by auto
  obtain r b1 where step: "push_data serialize n_axes max_n (Suc (Suc rounds)) d b = Some (r, b1)" "sb_timeout_us b1 = sb_timeout_us b"
    "(r = DataAdded \<and> accepts max_n delta ds d \<and> span (ds @ [d]) \<le> sb_timeout_us b \<and> holds n_axes max_n delta b1 (ds @ [d])) \<or>
     (r = Serialized (f (collect n_axes (ds @ [d]))) \<and> accepts max_n delta ds d \<and> holds n_axes max_n delta b1 []) \<or>
     (r = Serialized (f (collect n_axes ds)) \<and> ds \<noteq> [] \<and> holds n_axes max_n delta b1 [d])"
    by (rule push_data_step[OF Cons.prems(1) assms(2) wf(1) assms(5)])
  have rest: "partitions n_axes max_n delta (sb_timeout_us b) f (ds' @ batches) (push_stream serialize n_axes max_n (Suc (Suc rounds)) batches b1)"
    if "holds n_axes max_n delta b1 ds'" "pending_group delta (sb_timeout_us b) ds'" for ds'
    using Cons.IH[OF that(1) _ wf(2)] that(2) step(2) by simp
  show ?case
    using step(3)
  proof (elim disjE conjE)
    assume added: "r = DataAdded" "accepts max_n delta ds d" "span (ds @ [d]) \<le> sb_timeout_us b" "holds n_axes max_n delta b1 (ds @ [d])"
    have "push_stream serialize n_axes max_n (Suc (Suc rounds)) (d # batches) b = push_stream serialize n_axes max_n (Suc (Suc rounds)) batches b1"
      by (simp only: push_stream.simps step(1) added(1)) (simp split: option.split)
    then show ?thesis
      using rest[OF added(4) pending_added[OF Cons.prems(2) added(2,3)]] by simp
  next
    assume full: "r = Serialized (f (collect n_axes (ds @ [d])))" "accepts max_n delta ds d" "holds n_axes max_n delta b1 []"
    then show ?thesis
      using partitions_packet[OF rest[OF full(3) pending_single(2)] pending_completed[OF Cons.prems(2) full(2)]] step(1)
      by (simp cong: option.case_cong)
  next
    assume closed: "r = Serialized (f (collect n_axes ds))" "ds \<noteq> []" "holds n_axes max_n delta b1 [d]"
    have "total_len ds \<le> max_n"
      using Cons.prems(1) by (simp add: holds_def)
    then show ?thesis
      using partitions_packet[OF rest[OF closed(3) pending_single(1)] pending_closed[OF Cons.prems(2) closed(2)]] step(1) closed(1)
      by (simp cong: option.case_cong)
  qed
qed

lemma holds_initial: "holds n_axes max_n delta (serializing_buffer_empty n_axes delta timeout) []"
  by (simp add: holds_def serializing_buffer_empty_def)

lemma force_serialize_flushes:
  assumes "holds n_axes max_n delta b ds" and "0 < n_axes" and "\<And>u. serialize u = Ok (f u)"
  shows "force_serialize serialize n_axes max_n b =
    (if ds = [] then (None, b) else (Some (f (collect n_axes ds)), sb_clear n_axes b))"
  using holds_is_empty[OF assms(1,2)] assms(1) by (simp add: force_serialize_def holds_def assms(3))

end
