(* ===== verification/Buffer_Theorems.thy ===== *)
theory Buffer_Theorems
  imports Sample_Buffer_Correct
begin

text \<open>
  The properties of the sample buffer, over the lemmas of \<open>Sample_Buffer_Correct\<close>, and two concrete
  runs that show the limits of the code: a batch whose serialization fails right after it was stored,
  and a batch whose start time is zero.
\<close>

section \<open>Limits\<close>

abbreviation batch :: "int \<Rightarrow> int \<Rightarrow> int list \<Rightarrow> int sample_data" where
  "batch t t_last xs \<equiv> \<lparr>sd_t = t, sd_len = length xs, sd_samples = [xs], sd_t_last = t_last\<rparr>"

text \<open>
  The serializer fails on a batch that was stored and filled the buffer: the buffer is cleared, and
  the caller is told \<open>DataAdded\<close>.
\<close>

lemma failed_serialization_reports_added:
  "push_data (\<lambda>_. Err () :: (unit, unit) result) 1 4 2 (batch 10 12 [1, 2, 3]) (serializing_buffer_empty 1 2 1000) =
   Some (DataAdded, (serializing_buffer_empty 1 2 1000)\<lparr>sb_last_timestamp := 12\<rparr>)"
  by code_simp

text \<open>
  A batch that starts at time 0 leaves the buffer counting as empty: the next batch is appended to
  its samples and its time becomes the time of all of them.
\<close>

lemma zero_timestamp_taken_over:
  "push_stream (Ok :: int uniform_samples \<Rightarrow> (int uniform_samples, unit) result) 1 8 2 [batch 0 1 [1, 2], batch 100 101 [3, 4]]
     (serializing_buffer_empty 1 2 1000) =
   Some ([], \<lparr>sb_sample_buffer = \<lparr>us_t = 100, us_ch = [[1, 2, 3, 4]]\<rparr>, sb_last_timestamp = 101, sb_t_delta_us = 2, sb_timeout_us = 1000\<rparr>)"
  by code_simp

section \<open>Properties\<close>

text \<open>
  The loop of \<open>push_data\<close> ends: whatever the serializer does, a well-formed batch (it has samples,
  a start time that is known, at most as many samples as the buffer can hold, and it does not start
  after its end) is handled in at most two rounds, and the buffer is left holding a list of complete batches.
\<close>

theorem push_data_terminates:
  assumes "holds n_axes max_n delta b ds" and "0 < n_axes" and "wf_batch n_axes max_n delta d"
  shows "\<exists>r b' ds'. push_data serialize n_axes max_n 2 d b = Some (r, b') \<and> holds n_axes max_n delta b' ds'"
  using push_data_two_rounds[OF assms, of serialize 0] by (simp add: numeral_2_eq_2)

text \<open>The property at a concrete buffer that holds one batch, for a serializer that always fails.\<close>

lemma holds_one: "holds 1 4 2 \<lparr>sb_sample_buffer = \<lparr>us_t = 10, us_ch = [[1, 2]]\<rparr>, sb_last_timestamp = 11, sb_t_delta_us = 2, sb_timeout_us = 100\<rparr> [batch 10 11 [1, 2]]"
  by (simp add: holds_def collect_def axis_slice_def wf_batch_def)

theorem push_data_terminates_witness:
  "\<exists>r b' ds'. push_data (\<lambda>_. Err () :: (unit, unit) result) 1 4 2 (batch 50 52 [3, 4, 5])
     \<lparr>sb_sample_buffer = \<lparr>us_t = 10, us_ch = [[1, 2]]\<rparr>, sb_last_timestamp = 11, sb_t_delta_us = 2, sb_timeout_us = 100\<rparr> = Some (r, b')
     \<and> holds 1 4 2 b' ds'"
  using push_data_terminates[OF holds_one, of "batch 50 52 [3, 4, 5]" "\<lambda>_. Err () :: (unit, unit) result"]
  by (simp add: wf_batch_def)

text \<open>
  C7. Buffering loses, repeats and reorders nothing: pushing a stream of well-formed batches into an
  empty buffer, with a serializer that succeeds, cuts the stream into consecutive groups of whole
  batches. Each packet is the serialization of exactly one group, with the start time of its first
  batch and the samples of its batches in order on each axis; the remaining batches are in the buffer, and
  flushing it gives their packet. In a packet every batch follows the one before in time, within the
  slack, the samples fit the buffer, and only the batch that closes a packet can take its time range over
  the timeout (unless its first batch alone is longer).
\<close>

theorem sample_stream_partitioned:
  assumes "0 < n_axes" and "\<forall>d \<in> set batches. wf_batch n_axes max_n delta d"
    and succeeds: "\<And>u. serialize u = Ok (f u)"
  shows "\<exists>groups rest b. batches = concat groups @ rest \<and>
    push_stream serialize n_axes max_n 2 batches (serializing_buffer_empty n_axes delta timeout) =
      Some (map (f \<circ> collect n_axes) groups, b) \<and>
    fst (force_serialize serialize n_axes max_n b) = (if rest = [] then None else Some (f (collect n_axes rest))) \<and>
    list_all (packet_group max_n delta timeout) groups"
proof -
  have "partitions n_axes max_n delta timeout f batches
      (push_stream serialize n_axes max_n 2 batches (serializing_buffer_empty n_axes delta timeout))"
    using push_stream_partition[OF holds_initial assms(1) _ assms(2), of timeout serialize f 0] succeeds
    by (simp add: serializing_buffer_empty_def numeral_2_eq_2)
  then obtain groups rest b where *: "batches = concat groups @ rest"
    "push_stream serialize n_axes max_n 2 batches (serializing_buffer_empty n_axes delta timeout) = Some (map (f \<circ> collect n_axes) groups, b)"
    "holds n_axes max_n delta b rest" "\<forall>g \<in> set groups. packet_group max_n delta timeout g"
    unfolding partitions_def by blast
  then show ?thesis
    by (intro exI[of _ groups] exI[of _ rest] exI[of _ b]) (simp add: list_all_iff force_serialize_flushes[OF *(3) assms(1) succeeds])
qed

theorem sample_stream_partitioned_witness:
  "\<exists>groups rest b. [batch 10 11 [1, 2], batch 12 13 [3, 4], batch 50 50 [5]] = concat groups @ rest \<and>
    push_stream (\<lambda>u. Ok u :: (int uniform_samples, unit) result) 1 5 2 [batch 10 11 [1, 2], batch 12 13 [3, 4], batch 50 50 [5]]
      (serializing_buffer_empty 1 2 100) = Some (map ((\<lambda>u. u) \<circ> collect 1) groups, b) \<and>
    fst (force_serialize (\<lambda>u. Ok u :: (int uniform_samples, unit) result) 1 5 b) = (if rest = [] then None else Some (collect 1 rest)) \<and>
    list_all (packet_group 5 2 100) groups"
  by (rule sample_stream_partitioned[where f = "\<lambda>u. u"]) (simp_all add: wf_batch_def)

end
