(* ===== verification/Double_Buffer.thy ===== *)
theory Double_Buffer
  imports Prelude
begin

text \<open>
  The double buffer of \<open>sync/mod.rs\<close>: readers copy the last published value without a lock while one
  writer fills the other half. The shared memory is the record \<open>double_buffer\<close>: the two atomics and the
  two halves. A value of the stored type is a list of memory cells, copied and assigned one cell at a
  time, so that a read which overlaps a write can see a mixture.

  Every access to the shared memory is one step of \<open>db_step\<close>, and any number of threads interleave
  their steps. Memory is sequentially consistent: the orderings \<open>Acquire\<close>, \<open>Release\<close> and \<open>Relaxed\<close>
  of the source are not modelled.
\<close>

section \<open>State\<close>

datatype db_st = WriteIdleRead0 | Writing1Read0 | WriteIdleRead1 | Writing0Read1

datatype read_idx = RZero | ROne

datatype write_idx = WZero | WOne

fun st_code :: "db_st \<Rightarrow> 32 word" where
  "st_code WriteIdleRead0 = 0"
| "st_code Writing1Read0 = 1"
| "st_code WriteIdleRead1 = 2"
| "st_code Writing0Read1 = 3"

definition st_from_u32 :: "32 word \<Rightarrow> db_st" where
  "st_from_u32 v =
     (let b = v AND 3 in
      if b = 0 then WriteIdleRead0 else if b = 1 then Writing1Read0 else if b = 2 then WriteIdleRead1 else Writing0Read1)"

fun st_from_write_index :: "write_idx \<Rightarrow> db_st" where
  "st_from_write_index WZero = Writing0Read1"
| "st_from_write_index WOne = Writing1Read0"

definition st_next :: "db_st \<Rightarrow> db_st" where
  "st_next st = st_from_u32 (st_code st + 1)"

fun read_index :: "db_st \<Rightarrow> read_idx" where
  "read_index WriteIdleRead0 = RZero"
| "read_index Writing1Read0 = RZero"
| "read_index WriteIdleRead1 = ROne"
| "read_index Writing0Read1 = ROne"

fun write_index :: "db_st \<Rightarrow> write_idx option" where
  "write_index WriteIdleRead0 = None"
| "write_index WriteIdleRead1 = None"
| "write_index Writing0Read1 = Some WZero"
| "write_index Writing1Read0 = Some WOne"

fun r_usize :: "read_idx \<Rightarrow> nat" where
  "r_usize RZero = 0"
| "r_usize ROne = 1"

fun w_usize :: "write_idx \<Rightarrow> nat" where
  "w_usize WZero = 0"
| "w_usize WOne = 1"

section \<open>The buffer and its threads\<close>

record 'a double_buffer =
  db_state :: "32 word"
  db_version :: "32 word"
  db_buffer :: "'a list list"

definition double_buffer_new :: "'a list \<Rightarrow> 'a double_buffer" where
  "double_buffer_new initial_value =
     \<lparr>db_state = st_code WriteIdleRead0, db_version = 0, db_buffer = [initial_value, initial_value]\<rparr>"

definition new_data_available_since :: "'a double_buffer \<Rightarrow> 32 word \<Rightarrow> bool \<times> 32 word" where
  "new_data_available_since db version = (version \<noteq> db_version db, db_version db)"

text \<open>
  Where a thread is in the code. \<open>P_LoadState\<close> to \<open>P_CheckVersion\<close> are the loop of \<open>read\<close>, with the
  locals it has by then; \<open>P_Cas2\<close> is the second compare-exchange of \<open>try_write\<close>, \<open>P_Init\<close> its
  assignment of the last value to the guard, and \<open>P_Finish\<close> is \<open>finish_writing\<close> after the version was
  incremented. \<open>th_guard\<close> is the \<open>WriteLockGuard\<close> the thread owns, and \<open>th_init\<close> marks the \<open>read\<close> that
  \<open>try_write\<close> calls.
\<close>

datatype 'a pc =
    P_Idle
  | P_LoadState
  | P_LoadVersion db_st
  | P_Copy db_st "32 word" "'a list"
  | P_CheckVersion db_st "32 word" "'a list" db_st
  | P_Cas2
  | P_Init "'a list" nat
  | P_Finish

record 'a thread =
  th_pc :: "'a pc"
  th_guard :: "write_idx option"
  th_init :: bool

definition idle_thread :: "'a thread" where
  "idle_thread = \<lparr>th_pc = P_Idle, th_guard = None, th_init = False\<rparr>"

text \<open>What a thread does next: call an operation, go on with the running one, store to the guarded value, or drop the guard.\<close>

datatype 'a act = A_Read | A_TryWrite | A_Go | A_Store nat 'a | A_Drop

text \<open>What a step shows to the outside.\<close>

datatype 'a db_event =
    E_Internal
  | E_ReadCalled
  | E_VersionLoaded
  | E_StateChecked
  | E_ReadReturned "'a list"
  | E_WriteRefused
  | E_Guard "'a list"
  | E_Bumped
  | E_Published "'a list"

definition store_cell :: "write_idx \<Rightarrow> nat \<Rightarrow> 'a \<Rightarrow> 'a double_buffer \<Rightarrow> 'a double_buffer" where
  "store_cell w j x db = db\<lparr>db_buffer := (db_buffer db)[w_usize w := (db_buffer db ! w_usize w)[j := x]]\<rparr>"

text \<open>One of the two compare-exchanges of \<open>try_write\<close>: from the expected idle state to the writing state after it.\<close>

definition try_lock :: "db_st \<Rightarrow> 'a double_buffer \<Rightarrow> (write_idx option \<times> 'a double_buffer) option" where
  "try_lock expected db =
     (if db_state db = st_code expected
      then let st = st_next (st_from_u32 (db_state db))
           in Some (write_index st, db\<lparr>db_state := st_code st\<rparr>)
      else None)"

text \<open>One step of the loop of \<open>read\<close>, on values of \<open>n\<close> cells.\<close>

fun read_step :: "nat \<Rightarrow> 'a double_buffer \<Rightarrow> 'a thread \<Rightarrow> ('a db_event \<times> 'a thread) option" where
  "read_step n db th =
     (case th_pc th of
        P_LoadState \<Rightarrow> Some (E_Internal, th\<lparr>th_pc := P_LoadVersion (st_from_u32 (db_state db))\<rparr>)
      | P_LoadVersion st \<Rightarrow> Some (E_VersionLoaded, th\<lparr>th_pc := P_Copy st (db_version db) []\<rparr>)
      | P_Copy st v xs \<Rightarrow>
          if length xs < n
          then Some (E_Internal, th\<lparr>th_pc := P_Copy st v (xs @ [db_buffer db ! r_usize (read_index st) ! length xs])\<rparr>)
          else Some (E_StateChecked, th\<lparr>th_pc := P_CheckVersion st v xs (st_from_u32 (db_state db))\<rparr>)
      | P_CheckVersion st v xs st' \<Rightarrow>
          if read_index st = read_index st' \<and> v = db_version db
          then if th_init th then Some (E_Internal, th\<lparr>th_pc := P_Init xs 0\<rparr>)
               else Some (E_ReadReturned xs, th\<lparr>th_pc := P_Idle\<rparr>)
          else Some (E_Internal, th\<lparr>th_pc := P_LoadState\<rparr>)
      | _ \<Rightarrow> None)"

definition enter_guard :: "(write_idx option \<times> 'a double_buffer) \<Rightarrow> 'a thread \<Rightarrow> 'a db_event \<times> 'a double_buffer \<times> 'a thread" where
  "enter_guard r th =
     (case r of
        (Some w, db) \<Rightarrow> (E_Internal, db, \<lparr>th_pc = P_LoadState, th_guard = Some w, th_init = True\<rparr>)
      | (None, db) \<Rightarrow> (E_WriteRefused, db, th\<lparr>th_pc := P_Idle\<rparr>))"

definition thread_step ::
  "nat \<Rightarrow> 'a act \<Rightarrow> 'a double_buffer \<Rightarrow> 'a thread \<Rightarrow> ('a db_event \<times> 'a double_buffer \<times> 'a thread) option" where
  "thread_step n a db th =
     (case (a, th_pc th) of
        (A_Read, P_Idle) \<Rightarrow> Some (E_ReadCalled, db, th\<lparr>th_pc := P_LoadState, th_init := False\<rparr>)
      | (A_TryWrite, P_Idle) \<Rightarrow>
          (case try_lock WriteIdleRead0 db of
             Some r \<Rightarrow> Some (enter_guard r th)
           | None \<Rightarrow> Some (E_Internal, db, th\<lparr>th_pc := P_Cas2\<rparr>))
      | (A_Go, P_Cas2) \<Rightarrow>
          (case try_lock WriteIdleRead1 db of
             Some r \<Rightarrow> Some (enter_guard r th)
           | None \<Rightarrow> Some (E_WriteRefused, db, th\<lparr>th_pc := P_Idle\<rparr>))
      | (A_Go, P_Init xs j) \<Rightarrow>
          (case th_guard th of
             Some w \<Rightarrow>
               if j < n then Some (E_Internal, store_cell w j (xs ! j) db, th\<lparr>th_pc := P_Init xs (j + 1)\<rparr>)
               else Some (E_Guard (db_buffer db ! w_usize w), db, th\<lparr>th_pc := P_Idle\<rparr>)
           | None \<Rightarrow> None)
      | (A_Store j x, P_Idle) \<Rightarrow>
          (case th_guard th of
             Some w \<Rightarrow> if j < n then Some (E_Internal, store_cell w j x db, th) else None
           | None \<Rightarrow> None)
      | (A_Drop, P_Idle) \<Rightarrow>
          (case th_guard th of
             Some w \<Rightarrow> Some (E_Bumped, db\<lparr>db_version := db_version db + 1\<rparr>, th\<lparr>th_pc := P_Finish\<rparr>)
           | None \<Rightarrow> None)
      | (A_Go, P_Finish) \<Rightarrow>
          (case th_guard th of
             Some w \<Rightarrow> Some (E_Published (db_buffer db ! w_usize w), db\<lparr>db_state := st_code (st_next (st_from_write_index w))\<rparr>,
                            th\<lparr>th_pc := P_Idle, th_guard := None\<rparr>)
           | None \<Rightarrow> None)
      | (A_Go, _) \<Rightarrow> (case read_step n db th of Some (e, th') \<Rightarrow> Some (e, db, th') | None \<Rightarrow> None)
      | _ \<Rightarrow> None)"

record 'a db_system =
  sys_db :: "'a double_buffer"
  sys_thread :: "nat \<Rightarrow> 'a thread"

definition db_step :: "nat \<Rightarrow> nat \<Rightarrow> 'a act \<Rightarrow> 'a db_system \<Rightarrow> ('a db_event \<times> 'a db_system) option" where
  "db_step n t a s =
     (case thread_step n a (sys_db s) (sys_thread s t) of
        Some (e, db, th) \<Rightarrow> Some (e, \<lparr>sys_db = db, sys_thread = (sys_thread s)(t := th)\<rparr>)
      | None \<Rightarrow> None)"

definition db_initial :: "'a list \<Rightarrow> 'a db_system" where
  "db_initial v = \<lparr>sys_db = double_buffer_new v, sys_thread = (\<lambda>_. idle_thread)\<rparr>"

end
