(* ===== verification/Double_Buffer_Correct.thy ===== *)
theory Double_Buffer_Correct
  imports Double_Buffer
begin

text \<open>
  The double buffer never hands out a torn value. The history of published values, the number of
  version increments and, for each thread, three moments of its running read are kept beside the
  program (\<open>ghost\<close>); the program does not read them. \<open>db_inv\<close> is the invariant of every
  interleaving: the readable half holds the last published value, at most one thread owns the guard and it
  writes the other half, and what a reader has copied so far is a part of that value unless the version
  has changed since, in which case the read will start over.
\<close>

section \<open>States and indices\<close>

lemma st_from_u32_code [simp]: "st_from_u32 (st_code st) = st"
  by (cases st) (simp_all add: st_from_u32_def)

lemma st_next_simps [simp]:
  "st_next WriteIdleRead0 = Writing1Read0" "st_next Writing1Read0 = WriteIdleRead1"
  "st_next WriteIdleRead1 = Writing0Read1" "st_next Writing0Read1 = WriteIdleRead0"
  by (simp_all add: st_next_def st_from_u32_def)

lemma st_code_inject [simp]: "st_code a = st_code b \<longleftrightarrow> a = b"
  by (metis st_from_u32_code)

declare st_code.simps [simp del]

lemma r_usize_inject [simp]: "r_usize a = r_usize b \<longleftrightarrow> a = b"
  by (cases a; cases b) simp_all

lemma usize_less [simp]: "r_usize r < 2" "w_usize w < 2"
  by (cases r; simp) (cases w; simp)

lemma write_index_writing [simp]: "write_index (st_from_write_index w) = Some w"
  by (cases w) simp_all

section \<open>The history beside the program\<close>

record 'a ghost =
  g_hist :: "'a list list"
  g_count :: nat
  g_start :: "nat \<Rightarrow> nat"
  g_vcount :: "nat \<Rightarrow> nat"
  g_check :: "nat \<Rightarrow> nat"

definition latest :: "'a ghost \<Rightarrow> nat" where
  "latest g = length (g_hist g) - 1"

definition ghost_initial :: "'a list \<Rightarrow> 'a ghost" where
  "ghost_initial v = \<lparr>g_hist = [v], g_count = 0, g_start = (\<lambda>_. 0), g_vcount = (\<lambda>_. 0), g_check = (\<lambda>_. 0)\<rparr>"

fun observe :: "nat \<Rightarrow> 'a db_event \<Rightarrow> 'a ghost \<Rightarrow> 'a ghost" where
  "observe t E_ReadCalled g = g\<lparr>g_start := (g_start g)(t := latest g)\<rparr>"
| "observe t E_VersionLoaded g = g\<lparr>g_vcount := (g_vcount g)(t := g_count g)\<rparr>"
| "observe t E_StateChecked g = g\<lparr>g_check := (g_check g)(t := latest g)\<rparr>"
| "observe t E_Bumped g = g\<lparr>g_count := g_count g + 1\<rparr>"
| "observe t (E_Published v) g = g\<lparr>g_hist := g_hist g @ [v]\<rparr>"
| "observe t _ g = g"

inductive db_run :: "nat \<Rightarrow> 'a list \<Rightarrow> 'a db_system \<Rightarrow> 'a ghost \<Rightarrow> bool" for n v0 where
  start: "length v0 = n \<Longrightarrow> db_run n v0 (db_initial v0) (ghost_initial v0)"
| step: "db_run n v0 s g \<Longrightarrow> db_step n t a s = Some (e, s') \<Longrightarrow> db_run n v0 s' (observe t e g)"

section \<open>The invariant\<close>

definition idle_state :: "nat \<Rightarrow> db_st" where
  "idle_state k = (if even k then WriteIdleRead0 else WriteIdleRead1)"

definition shared_inv :: "nat \<Rightarrow> 'a double_buffer \<Rightarrow> 'a ghost \<Rightarrow> bool" where
  "shared_inv n db g \<longleftrightarrow>
     g_hist g \<noteq> [] \<and> db_version db = of_nat (g_count g) \<and> length (db_buffer db) = 2 \<and>
     (\<forall>i < 2. length (db_buffer db ! i) = n) \<and> db_buffer db ! (latest g mod 2) = g_hist g ! latest g"

definition unlocked :: "'a db_system \<Rightarrow> 'a ghost \<Rightarrow> bool" where
  "unlocked s g \<longleftrightarrow>
     (\<forall>t. th_guard (sys_thread s t) = None) \<and> g_count g = latest g \<and> db_state (sys_db s) = st_code (idle_state (latest g))"

definition locked_by :: "nat \<Rightarrow> write_idx \<Rightarrow> 'a db_system \<Rightarrow> 'a ghost \<Rightarrow> bool" where
  "locked_by t w s g \<longleftrightarrow>
     th_guard (sys_thread s t) = Some w \<and> (\<forall>t'. t' \<noteq> t \<longrightarrow> th_guard (sys_thread s t') = None) \<and>
     w_usize w = (latest g + 1) mod 2 \<and> db_state (sys_db s) = st_code (st_from_write_index w) \<and>
     g_count g = latest g + (if th_pc (sys_thread s t) = P_Finish then 1 else 0)"

definition lock_inv :: "'a db_system \<Rightarrow> 'a ghost \<Rightarrow> bool" where
  "lock_inv s g \<longleftrightarrow> unlocked s g \<or> (\<exists>t w. locked_by t w s g)"

text \<open>What the locals of thread \<open>t\<close> say about the shared buffer.\<close>

definition thread_inv :: "nat \<Rightarrow> 'a list list \<Rightarrow> 'a ghost \<Rightarrow> nat \<Rightarrow> 'a thread \<Rightarrow> bool" where
  "thread_inv n buf g t th \<longleftrightarrow>
     g_start g t \<le> latest g \<and>
     (case th_pc th of
        P_Idle \<Rightarrow> True
      | P_Cas2 \<Rightarrow> True
      | P_LoadState \<Rightarrow> th_init th \<longrightarrow> th_guard th \<noteq> None
      | P_LoadVersion st \<Rightarrow> th_init th \<longrightarrow> th_guard th \<noteq> None
      | P_Copy st v xs \<Rightarrow>
          (th_init th \<longrightarrow> th_guard th \<noteq> None \<and> g_vcount g t = g_count g) \<and>
          v = of_nat (g_vcount g t) \<and> g_vcount g t \<le> g_count g \<and> length xs \<le> n \<and>
          (g_vcount g t = g_count g \<and> (r_usize (read_index st) = g_vcount g t mod 2 \<or> latest g + 1 = g_vcount g t) \<longrightarrow>
             xs = take (length xs) (buf ! r_usize (read_index st)))
      | P_CheckVersion st v xs st' \<Rightarrow>
          (th_init th \<longrightarrow> th_guard th \<noteq> None \<and> g_vcount g t = g_count g \<and> g_check g t = latest g) \<and>
          v = of_nat (g_vcount g t) \<and> g_vcount g t \<le> g_count g \<and> g_start g t \<le> g_check g t \<and> g_check g t \<le> latest g \<and>
          (g_vcount g t = g_count g \<and> read_index st = read_index st' \<longrightarrow> xs = g_hist g ! g_check g t)
      | P_Init xs j \<Rightarrow>
          (\<exists>w. th_guard th = Some w \<and> xs = g_hist g ! latest g \<and> j \<le> n \<and> take j (buf ! w_usize w) = take j xs)
      | P_Finish \<Rightarrow> th_guard th \<noteq> None)"

definition db_inv :: "nat \<Rightarrow> 'a db_system \<Rightarrow> 'a ghost \<Rightarrow> bool" where
  "db_inv n s g \<longleftrightarrow>
     shared_inv n (sys_db s) g \<and> lock_inv s g \<and> (\<forall>t. thread_inv n (db_buffer (sys_db s)) g t (sys_thread s t))"

lemma latest_published [simp]: "g_hist g \<noteq> [] \<Longrightarrow> latest (g\<lparr>g_hist := g_hist g @ [v]\<rparr>) = latest g + 1"
  by (cases "g_hist g") (simp_all add: latest_def)

lemma latest_other [simp]:
  "latest (g\<lparr>g_count := c\<rparr>) = latest g" "latest (g\<lparr>g_start := a\<rparr>) = latest g"
  "latest (g\<lparr>g_vcount := a\<rparr>) = latest g" "latest (g\<lparr>g_check := a\<rparr>) = latest g"
  by (simp_all add: latest_def)

lemma lock_read_index:
  assumes "lock_inv s g"
  shows "r_usize (read_index (st_from_u32 (db_state (sys_db s)))) = latest g mod 2"
proof -
  consider "unlocked s g" | t w where "locked_by t w s g"
    using assms by (auto simp: lock_inv_def)
  then show ?thesis
  proof cases
    case 1
    then show ?thesis by (simp add: unlocked_def idle_state_def) presburger
  next
    case (2 t w)
    then show ?thesis by (cases w) (auto simp: locked_by_def mod2_eq_if split: if_splits)
  qed
qed

lemma lock_count: "lock_inv s g \<Longrightarrow> g_count g = latest g \<or> g_count g = latest g + 1"
  by (auto simp: lock_inv_def unlocked_def locked_by_def split: if_splits)

lemma lock_owner:
  assumes "lock_inv s g" and "th_guard (sys_thread s t) = Some w"
  shows "locked_by t w s g"
  using assms by (auto simp: lock_inv_def unlocked_def locked_by_def) (metis option.distinct(1) option.inject)+

section \<open>Steps of the reader\<close>

lemma latest_length: "shared_inv n db g \<Longrightarrow> length (g_hist g ! latest g) = n"
  unfolding shared_inv_def by (metis mod_less_divisor zero_less_numeral)

lemma count_no_wrap:
  assumes "(of_nat a :: 32 word) = of_nat b" and "b \<le> a" and "a - b < 2 ^ 32"
  shows "a = b"
proof -
  have "a mod 2 ^ 32 = b mod 2 ^ 32"
    using assms(1) by (simp add: word_of_nat_eq_iff take_bit_eq_mod)
  then have "2 ^ 32 dvd a - b"
    using mod_eq_dvd_iff_nat[OF assms(2)] by blast
  then show ?thesis
    using assms(2,3) nat_dvd_not_less by (metis diff_is_0_eq le_antisym neq0_conv)
qed

lemma read_step_inv:
  assumes step: "read_step n db th = Some (e, th')" and shared: "shared_inv n db g"
    and inv: "thread_inv n (db_buffer db) g t th"
    and idx: "r_usize (read_index (st_from_u32 (db_state db))) = latest g mod 2"
    and count: "g_count g = latest g \<or> g_count g = latest g + 1"
    and owner: "th_guard th \<noteq> None \<Longrightarrow> g_count g = latest g"
  shows "thread_inv n (db_buffer db) (observe t e g) t th'"
proof (cases "th_pc th")
  case P_LoadState
  then show ?thesis using step inv by (auto simp: thread_inv_def)
next
  case (P_LoadVersion st)
  then show ?thesis using step inv shared by (auto simp: thread_inv_def shared_inv_def)
next
  case (P_Copy st v xs)
  show ?thesis
  proof (cases "length xs < n")
    case True
    have "length (db_buffer db ! r_usize (read_index st)) = n"
      using shared by (simp add: shared_inv_def)
    then show ?thesis
      using P_Copy step inv True by (auto simp: thread_inv_def take_Suc_conv_app_nth)
  next
    case False
    have stable: "xs = g_hist g ! latest g"
      if "g_vcount g t = g_count g" "read_index st = read_index (st_from_u32 (db_state db))"
    proof -
      have "r_usize (read_index st) = latest g mod 2"
        using that(2) idx by simp
      moreover have "xs = take (length xs) (db_buffer db ! r_usize (read_index st))"
        using inv P_Copy count that idx by (auto simp: thread_inv_def)
      ultimately show ?thesis
        using False inv P_Copy shared latest_length[OF shared] by (simp add: shared_inv_def thread_inv_def)
    qed
    then show ?thesis
      using P_Copy step inv False by (auto simp: thread_inv_def)
  qed
next
  case (P_CheckVersion st v xs st')
  then show ?thesis
    using step inv shared by (auto simp: thread_inv_def shared_inv_def split: if_splits)
qed (use step in simp_all)

text \<open>A read that returns: its value was the published one when it checked the state.\<close>

lemma read_returns:
  assumes "read_step n db th = Some (E_ReadReturned xs, th')" and "shared_inv n db g" and "thread_inv n (db_buffer db) g t th"
    and "g_count g - g_vcount g t < 2 ^ 32"
  shows "g_start g t \<le> g_check g t \<and> g_check g t \<le> latest g \<and> xs = g_hist g ! g_check g t"
proof -
  obtain st v st' where pc: "th_pc th = P_CheckVersion st v xs st'" "read_index st = read_index st'" "v = db_version db"
    using assms(1) by (auto split: pc.splits if_splits)
  have "(of_nat (g_count g) :: 32 word) = of_nat (g_vcount g t)" "g_vcount g t \<le> g_count g"
    using pc assms(2,3) by (auto simp: thread_inv_def shared_inv_def)
  then have "g_count g = g_vcount g t"
    using count_no_wrap assms(4) by blast
  then show ?thesis
    using pc assms(3) by (simp add: thread_inv_def)
qed

section \<open>Steps of the others\<close>

text \<open>What a thread that owns no guard knows survives what the owner of the guard does.\<close>

lemma frame_store:
  assumes "thread_inv n buf g t th" and "th_guard th = None" and "g_count g = latest g" and "k = (latest g + 1) mod 2"
  shows "thread_inv n (buf[k := z]) g t th"
proof -
  have "k \<noteq> latest g mod 2"
    using assms(4) by presburger
  then show ?thesis
    using assms(1-3) by (cases "th_pc th") (auto simp: thread_inv_def)
qed

lemma frame_bump:
  assumes "thread_inv n buf g t th" and "th_guard th = None"
  shows "thread_inv n buf (g\<lparr>g_count := g_count g + 1\<rparr>) t th"
  using assms by (cases "th_pc th") (auto simp: thread_inv_def)

lemma frame_publish:
  assumes "thread_inv n buf g t th" and "th_guard th = None" and "g_count g = latest g + 1" and "g_hist g \<noteq> []"
  shows "thread_inv n buf (g\<lparr>g_hist := g_hist g @ [v]\<rparr>) t th"
proof -
  have "latest g < length (g_hist g)"
    using assms(4) by (simp add: latest_def)
  then show ?thesis
    using assms by (cases "th_pc th") (auto simp: thread_inv_def nth_append)
qed

definition quiet :: "'a db_event \<Rightarrow> bool" where
  "quiet e \<longleftrightarrow> e \<noteq> E_Bumped \<and> (\<forall>v. e \<noteq> E_Published v)"

lemma observe_quiet [simp]:
  assumes "quiet e"
  shows "g_hist (observe t e g) = g_hist g" "g_count (observe t e g) = g_count g" "latest (observe t e g) = latest g"
  using assms by (cases e; simp add: quiet_def)+

lemma frame_quiet:
  assumes "quiet e" and "thread_inv n buf g t' th" and "t' \<noteq> t"
  shows "thread_inv n buf (observe t e g) t' th"
  using assms by (cases e) (simp_all add: quiet_def thread_inv_def cong: pc.case_cong)

section \<open>The lock\<close>

lemma lock_kept:
  assumes "lock_inv s g" and "quiet e" and "th_guard th' = th_guard (sys_thread s t)"
    and "th_pc th' = P_Finish \<longleftrightarrow> th_pc (sys_thread s t) = P_Finish" and "db_state db' = db_state (sys_db s)"
  shows "lock_inv \<lparr>sys_db = db', sys_thread = (sys_thread s)(t := th')\<rparr> (observe t e g)"
proof (cases "unlocked s g")
  case True
  then have "unlocked \<lparr>sys_db = db', sys_thread = (sys_thread s)(t := th')\<rparr> (observe t e g)"
    using assms by (simp add: unlocked_def)
  then show ?thesis by (simp add: lock_inv_def)
next
  case False
  then obtain t0 w where "locked_by t0 w s g"
    using assms(1) by (auto simp: lock_inv_def)
  then have "locked_by t0 w \<lparr>sys_db = db', sys_thread = (sys_thread s)(t := th')\<rparr> (observe t e g)"
    using assms by (auto simp: locked_by_def)
  then show ?thesis by (auto simp: lock_inv_def)
qed

lemma try_lock_some:
  assumes "try_lock expected db = Some r" and "expected = WriteIdleRead0 \<or> expected = WriteIdleRead1"
  obtains w where "db_state db = st_code expected" and "r = (Some w, db\<lparr>db_state := st_code (st_from_write_index w)\<rparr>)"
    and "r_usize (read_index expected) \<noteq> w_usize w"
  using assms by (auto simp: try_lock_def Let_def split: if_splits)

lemma lock_taken:
  assumes "lock_inv s g" and "db_state (sys_db s) = st_code expected" and "expected = WriteIdleRead0 \<or> expected = WriteIdleRead1"
    and "r_usize (read_index expected) \<noteq> w_usize w" and "db_state db' = st_code (st_from_write_index w)"
    and "th_guard th' = Some w" and "th_pc th' \<noteq> P_Finish"
  shows "locked_by t w \<lparr>sys_db = db', sys_thread = (sys_thread s)(t := th')\<rparr> g"
proof -
  have free: "unlocked s g"
    using assms(1-3) by (auto simp: lock_inv_def locked_by_def elim!: st_from_write_index.elims)
  have "r_usize (read_index expected) = latest g mod 2"
    using lock_read_index[OF assms(1)] assms(2) by simp
  then have "w_usize w = (latest g + 1) mod 2"
    using assms(3,4) by (cases w) (auto simp: mod2_eq_if split: if_splits)
  then show ?thesis
    using free assms(5-7) by (simp add: locked_by_def unlocked_def)
qed

section \<open>Every step keeps the invariant\<close>

lemma thread_step_cases:
  assumes "thread_step n a db th = Some (e, db', th')"
  obtains (call) "th_pc th = P_Idle" "e = E_ReadCalled" "db' = db" "th' = th\<lparr>th_pc := P_LoadState, th_init := False\<rparr>"
  | (lock) expected w where "expected = WriteIdleRead0 \<or> expected = WriteIdleRead1" "db_state db = st_code expected"
      "r_usize (read_index expected) \<noteq> w_usize w" "e = E_Internal" "db' = db\<lparr>db_state := st_code (st_from_write_index w)\<rparr>"
      "th' = \<lparr>th_pc = P_LoadState, th_guard = Some w, th_init = True\<rparr>"
  | (refused) "th_pc th = P_Idle \<or> th_pc th = P_Cas2" "e = E_Internal \<or> e = E_WriteRefused" "db' = db"
      "th' = th\<lparr>th_pc := P_Cas2\<rparr> \<or> th' = th\<lparr>th_pc := P_Idle\<rparr>"
  | (init) xs j w where "th_pc th = P_Init xs j" "th_guard th = Some w" "j < n" "e = E_Internal"
      "db' = store_cell w j (xs ! j) db" "th' = th\<lparr>th_pc := P_Init xs (j + 1)\<rparr>"
  | (ready) xs j w where "th_pc th = P_Init xs j" "th_guard th = Some w" "\<not> j < n" "e = E_Guard (db_buffer db ! w_usize w)"
      "db' = db" "th' = th\<lparr>th_pc := P_Idle\<rparr>"
  | (store) j x w where "th_pc th = P_Idle" "th_guard th = Some w" "j < n" "e = E_Internal" "db' = store_cell w j x db" "th' = th"
  | (bump) w where "th_pc th = P_Idle" "th_guard th = Some w" "e = E_Bumped" "db' = db\<lparr>db_version := db_version db + 1\<rparr>"
      "th' = th\<lparr>th_pc := P_Finish\<rparr>"
  | (publish) w where "th_pc th = P_Finish" "th_guard th = Some w" "e = E_Published (db_buffer db ! w_usize w)"
      "db' = db\<lparr>db_state := st_code (st_next (st_from_write_index w))\<rparr>" "th' = th\<lparr>th_pc := P_Idle, th_guard := None\<rparr>"
  | (reading) "read_step n db th = Some (e, th')" "db' = db"
proof (cases "th_pc th")
  case P_Idle
  show thesis
  proof (cases a)
    case A_TryWrite
    show thesis
    proof (cases "try_lock WriteIdleRead0 db")
      case None
      show thesis
        by (rule refused) (use assms P_Idle A_TryWrite None in \<open>simp_all add: thread_step_def\<close>)
    next
      case (Some r)
      obtain w where w: "db_state db = st_code WriteIdleRead0" "r = (Some w, db\<lparr>db_state := st_code (st_from_write_index w)\<rparr>)"
        "r_usize (read_index WriteIdleRead0) \<noteq> w_usize w"
        using try_lock_some[OF Some] by blast
      show thesis
        by (rule lock[OF _ w(1,3)]) (use assms P_Idle A_TryWrite Some w(2) in \<open>simp_all add: thread_step_def enter_guard_def\<close>)
    qed
  next
    case (A_Store k x)
    then show thesis
      using assms P_Idle by (cases "th_guard th") (auto simp: thread_step_def intro: store split: if_splits)
  next
    case A_Drop
    then show thesis
      using assms P_Idle by (cases "th_guard th") (auto simp: thread_step_def intro: bump)
  qed (use assms P_Idle in \<open>auto simp: thread_step_def intro: call\<close>)
next
  case P_Cas2
  show thesis
  proof (cases "try_lock WriteIdleRead1 db")
    case None
    show thesis
      by (rule refused) (use assms P_Cas2 None in \<open>cases a; simp add: thread_step_def\<close>)+
  next
    case (Some r)
    obtain w where w: "db_state db = st_code WriteIdleRead1" "r = (Some w, db\<lparr>db_state := st_code (st_from_write_index w)\<rparr>)"
      "r_usize (read_index WriteIdleRead1) \<noteq> w_usize w"
      using try_lock_some[OF Some] by blast
    show thesis
      by (rule lock[OF _ w(1,3)]) (use assms P_Cas2 Some w(2) in \<open>cases a; simp add: thread_step_def enter_guard_def\<close>)+
  qed
next
  case (P_Init xs j)
  then show thesis
    using assms by (cases a; cases "th_guard th"; cases "j < n") (auto simp: thread_step_def intro: init ready)
next
  case P_Finish
  then show thesis
    using assms by (cases a; cases "th_guard th") (auto simp: thread_step_def intro: publish)
qed (use assms in \<open>cases a; auto simp: thread_step_def simp del: read_step.simps split: option.splits intro: reading\<close>)+

lemma read_step_frame:
  assumes "read_step n db th = Some (e, th')"
  shows "quiet e" and "th_guard th' = th_guard th" and "th_pc th' \<noteq> P_Finish" and "th_pc th \<noteq> P_Finish" and "e \<noteq> E_Guard v"
  using assms by (auto simp: quiet_def split: pc.splits if_splits)

lemma db_inv_update:
  assumes "db_inv n s g" and "shared_inv n db' g'" and "lock_inv \<lparr>sys_db = db', sys_thread = (sys_thread s)(t := th')\<rparr> g'"
    and "thread_inv n (db_buffer db') g' t th'"
    and "\<And>t'. t' \<noteq> t \<Longrightarrow> thread_inv n (db_buffer (sys_db s)) g t' (sys_thread s t') \<Longrightarrow>
            thread_inv n (db_buffer db') g' t' (sys_thread s t')"
  shows "db_inv n \<lparr>sys_db = db', sys_thread = (sys_thread s)(t := th')\<rparr> g'"
  using assms by (auto simp: db_inv_def)

lemma shared_quiet:
  "shared_inv n db g \<Longrightarrow> quiet e \<Longrightarrow> db_version db' = db_version db \<Longrightarrow> db_buffer db' = db_buffer db \<Longrightarrow> shared_inv n db' (observe t e g)"
  by (simp add: shared_inv_def)

lemma store_cell_simps [simp]:
  "db_state (store_cell w j x db) = db_state db" "db_version (store_cell w j x db) = db_version db"
  "db_buffer (store_cell w j x db) = (db_buffer db)[w_usize w := (db_buffer db ! w_usize w)[j := x]]"
  by (simp_all add: store_cell_def)

lemma shared_store:
  assumes "shared_inv n db g" and "w_usize w = (latest g + 1) mod 2"
  shows "shared_inv n (store_cell w j x db) g"
proof -
  have "w_usize w \<noteq> latest g mod 2"
    using assms(2) by presburger
  then show ?thesis
    using assms(1) by (auto simp: shared_inv_def nth_list_update)
qed

lemma quiet_simps [simp]: "quiet E_Internal" "quiet E_ReadCalled" "quiet E_WriteRefused" "quiet (E_Guard v)"
  by (simp_all add: quiet_def)

lemma published_hist: "g_hist g \<noteq> [] \<Longrightarrow> (g_hist g @ [v]) ! Suc (latest g) = v"
  by (simp add: latest_def nth_append)

lemma idle_after_write: "w_usize w = (k + 1) mod 2 \<Longrightarrow> st_next (st_from_write_index w) = idle_state (Suc k)"
  by (cases w) (auto simp: idle_state_def mod2_eq_if split: if_splits)

text \<open>The owner of the guard stores a cell of its half.\<close>

lemma guard_store_inv:
  assumes inv: "db_inv n s g" and guard: "th_guard (sys_thread s t) = Some w" and "th_pc (sys_thread s t) \<noteq> P_Finish"
    and "th_guard th' = Some w" and "th_pc th' \<noteq> P_Finish"
    and "thread_inv n (db_buffer (store_cell w j x (sys_db s))) g t th'"
  shows "db_inv n \<lparr>sys_db = store_cell w j x (sys_db s), sys_thread = (sys_thread s)(t := th')\<rparr> g"
proof (rule db_inv_update[OF inv])
  have "lock_inv s g" and shared: "shared_inv n (sys_db s) g"
    using inv by (auto simp: db_inv_def)
  then have own: "locked_by t w s g"
    using lock_owner guard by blast
  then have w: "w_usize w = (latest g + 1) mod 2" and count: "g_count g = latest g"
    using assms(3) by (auto simp: locked_by_def)
  show "shared_inv n (store_cell w j x (sys_db s)) g"
    using shared_store[OF shared w] .
  show "lock_inv \<lparr>sys_db = store_cell w j x (sys_db s), sys_thread = (sys_thread s)(t := th')\<rparr> g"
    using lock_kept[OF \<open>lock_inv s g\<close>, of E_Internal th' t "store_cell w j x (sys_db s)"] assms(2-5) by simp
  show "thread_inv n (db_buffer (store_cell w j x (sys_db s))) g t' (sys_thread s t')"
    if "t' \<noteq> t" "thread_inv n (db_buffer (sys_db s)) g t' (sys_thread s t')" for t'
    using frame_store[OF that(2) _ count w] own that(1) by (simp add: locked_by_def)
qed (fact assms(6))

lemma db_step_inv:
  assumes inv: "db_inv n s g" and step: "db_step n t a s = Some (e, s')"
  shows "db_inv n s' (observe t e g)"
proof -
  obtain db' th' where ts: "thread_step n a (sys_db s) (sys_thread s t) = Some (e, db', th')"
    and s': "s' = \<lparr>sys_db = db', sys_thread = (sys_thread s)(t := th')\<rparr>"
    using step by (auto simp: db_step_def split: option.splits)
  have shared: "shared_inv n (sys_db s) g" and lock: "lock_inv s g"
    and me: "thread_inv n (db_buffer (sys_db s)) g t (sys_thread s t)"
    using inv by (auto simp: db_inv_def)
  have quiet_step: ?thesis
    if "quiet e" "db_buffer db' = db_buffer (sys_db s)" "db_version db' = db_version (sys_db s)"
      "lock_inv s' (observe t e g)" "thread_inv n (db_buffer (sys_db s)) (observe t e g) t th'"
    using db_inv_update[OF inv] shared_quiet[OF shared that(1,3,2)] frame_quiet[OF that(1)] that unfolding s' by auto
  show ?thesis
    using ts
  proof (cases rule: thread_step_cases)
    case call
    then show ?thesis
      using quiet_step lock_kept[OF lock, of e th' t db'] unfolding s' by (auto simp: thread_inv_def)
  next
    case (lock expected w)
    then show ?thesis
      using quiet_step lock_taken[OF \<open>lock_inv s g\<close> lock(2,1,3), of db' th' t] me unfolding s'
      by (auto simp: thread_inv_def lock_inv_def)
  next
    case refused
    then show ?thesis
      using quiet_step lock_kept[OF lock, of e th' t db'] me unfolding s' by (auto simp: thread_inv_def)
  next
    case (init xs j w)
    have "length (db_buffer (sys_db s) ! w_usize w) = n" "length (db_buffer (sys_db s)) = 2"
      using shared by (simp_all add: shared_inv_def)
    then have "thread_inv n (db_buffer db') g t th'"
      using init me latest_length[OF shared] by (auto simp: thread_inv_def take_Suc_conv_app_nth)
    then show ?thesis
      unfolding s' using guard_store_inv[OF inv init(2)] init by simp
  next
    case (ready xs j w)
    then show ?thesis
      using quiet_step lock_kept[OF lock, of e th' t db'] me unfolding s' by (auto simp: thread_inv_def)
  next
    case (store j x w)
    then show ?thesis
      unfolding s' using guard_store_inv[OF inv store(2), of th' j x] me by (simp add: thread_inv_def)
  next
    case (bump w)
    have own: "locked_by t w s g"
      using lock_owner[OF lock bump(2)] .
    then have others: "\<And>t'. t' \<noteq> t \<Longrightarrow> th_guard (sys_thread s t') = None"
      by (simp add: locked_by_def)
    have "locked_by t w \<lparr>sys_db = db', sys_thread = (sys_thread s)(t := th')\<rparr> (observe t e g)"
      using own bump by (simp add: locked_by_def)
    then have "lock_inv \<lparr>sys_db = db', sys_thread = (sys_thread s)(t := th')\<rparr> (observe t e g)"
      unfolding lock_inv_def by blast
    moreover have "shared_inv n db' (observe t e g)" "thread_inv n (db_buffer db') (observe t e g) t th'"
      using shared bump me by (simp_all add: shared_inv_def thread_inv_def)
    moreover have "thread_inv n (db_buffer db') (observe t e g) t' (sys_thread s t')"
      if "t' \<noteq> t" "thread_inv n (db_buffer (sys_db s)) g t' (sys_thread s t')" for t'
      using frame_bump[OF that(2) others[OF that(1)]] bump by simp
    ultimately show ?thesis
      unfolding s' by (intro db_inv_update[OF inv]) simp_all
  next
    case (publish w)
    have own: "locked_by t w s g"
      using lock_owner[OF lock publish(2)] .
    then have w: "w_usize w = (latest g + 1) mod 2" and others: "\<And>t'. t' \<noteq> t \<Longrightarrow> th_guard (sys_thread s t') = None"
      and count: "g_count g = latest g + 1"
      using publish(1) by (auto simp: locked_by_def)
    have hist: "g_hist g \<noteq> []"
      using shared by (simp add: shared_inv_def)
    have "unlocked \<lparr>sys_db = db', sys_thread = (sys_thread s)(t := th')\<rparr> (observe t e g)"
      using publish others count hist idle_after_write[OF w] by (auto simp: unlocked_def)
    moreover have "shared_inv n db' (observe t e g)"
      using shared publish(3,4) hist unfolding shared_inv_def
      by (simp add: published_hist w[unfolded Suc_eq_plus1[symmetric]])
    moreover have "thread_inv n (db_buffer db') (observe t e g) t th'"
      using publish me hist by (simp add: thread_inv_def)
    moreover have "thread_inv n (db_buffer db') (observe t e g) t' (sys_thread s t')"
      if "t' \<noteq> t" "thread_inv n (db_buffer (sys_db s)) g t' (sys_thread s t')" for t'
      using frame_publish[OF that(2) others[OF that(1)] count hist] publish by simp
    ultimately show ?thesis
      unfolding s' by (intro db_inv_update[OF inv]) (simp_all add: lock_inv_def)
  next
    case reading
    have "g_count g = latest g" if "th_guard (sys_thread s t) \<noteq> None"
      using that lock_owner[OF lock] read_step_frame(4)[OF reading(1)] by (auto simp: locked_by_def)
    then have own: "thread_inv n (db_buffer (sys_db s)) (observe t e g) t th'"
      by (rule read_step_inv[OF reading(1) shared me lock_read_index[OF lock] lock_count[OF lock]])
    have "lock_inv s' (observe t e g)"
      unfolding s' using lock_kept[OF lock, of e th' t db'] read_step_frame[OF reading(1)] reading(2) by blast
    then show ?thesis
      using quiet_step[OF read_step_frame(1)[OF reading(1)] _ _ _ own] reading(2) by blast
  qed
qed

lemma db_inv_initial: "length v0 = n \<Longrightarrow> db_inv n (db_initial v0) (ghost_initial v0)"
  by (simp add: db_inv_def shared_inv_def lock_inv_def unlocked_def thread_inv_def db_initial_def ghost_initial_def
      double_buffer_new_def latest_def idle_state_def idle_thread_def less_2_cases_iff)

lemma db_run_inv: "db_run n v0 s g \<Longrightarrow> db_inv n s g"
  by (induction rule: db_run.induct) (auto intro: db_inv_initial db_step_inv)

end
