(* ===== verification/Double_Buffer_Theorems.thy ===== *)
theory Double_Buffer_Theorems
  imports Double_Buffer_Correct
begin

text \<open>
  The properties of the double buffer, over the invariant of \<open>Double_Buffer_Correct\<close>, and concrete
  interleavings of a writer with a reader.
\<close>

section \<open>Concrete interleavings\<close>

fun interleave :: "nat \<Rightarrow> (nat \<times> 'a act) list \<Rightarrow> 'a db_system \<times> 'a ghost \<Rightarrow> ('a db_system \<times> 'a ghost) option" where
  "interleave n [] sg = Some sg"
| "interleave n ((t, a) # rest) sg =
     (case db_step n t a (fst sg) of
        Some (e, s') \<Rightarrow> interleave n rest (s', observe t e (snd sg))
      | None \<Rightarrow> None)"

lemma interleave_run:
  "interleave n acts sg = Some (s, g) \<Longrightarrow> db_run n v0 (fst sg) (snd sg) \<Longrightarrow> db_run n v0 s g"
proof (induction acts arbitrary: sg)
  case (Cons ta rest)
  obtain e s' where "db_step n (fst ta) (snd ta) (fst sg) = Some (e, s')"
    "interleave n rest (s', observe (fst ta) e (snd sg)) = Some (s, g)"
    using Cons.prems(1) by (cases ta) (auto split: option.splits)
  then show ?case
    using Cons.IH[of "(s', observe (fst ta) e (snd sg))"] db_run.step[OF Cons.prems(2)] by simp
qed simp

abbreviation started :: "int list \<Rightarrow> int db_system \<times> int ghost" where
  "started v \<equiv> (db_initial v, ghost_initial v)"

abbreviation go :: "nat \<Rightarrow> nat \<Rightarrow> (nat \<times> int act) list" where
  "go k t \<equiv> replicate k (t, A_Go)"

text \<open>
  Thread 0 takes the guard of a two-cell buffer and stores 7 and 8. Thread 1 starts to read before it
  publishes and has copied one cell when thread 0 publishes and takes the guard again: it starts over
  and returns the new value.
\<close>

definition overlapping :: "(nat \<times> int act) list" where
  "overlapping =
     [(0, A_TryWrite)] @ go 9 0 @ [(0, A_Store 0 7), (0, A_Store 1 8), (1, A_Read)] @ go 3 1 @ [(0, A_Drop), (0, A_Go), (0, A_TryWrite)] @
     go 2 0 @ go 8 1"

definition after_overlap :: "int db_system \<times> int ghost" where
  "after_overlap = the (interleave 2 overlapping (started [0, 0]))"

lemma overlapping_runs: "interleave 2 overlapping (started [0, 0]) = Some after_overlap"
proof -
  have "interleave 2 overlapping (started [0, 0]) \<noteq> None"
    unfolding Option.is_none_def[symmetric] by code_simp
  then show ?thesis by (auto simp: after_overlap_def)
qed

lemma overlapping_db_run: "db_run 2 [0, 0] (fst after_overlap) (snd after_overlap)"
  using interleave_run[of 2 overlapping "started [0, 0]" "fst after_overlap" "snd after_overlap" "[0, 0]"] overlapping_runs
  by (simp add: db_run.start)

lemma overlapping_read:
  obtains s' where "db_step 2 1 A_Go (fst after_overlap) = Some (E_ReadReturned [7, 8], s')"
proof -
  have "map_option fst (db_step 2 1 A_Go (fst after_overlap)) = Some (E_ReadReturned [7, 8])"
    by code_simp
  then show ?thesis using that by auto
qed

section \<open>Properties\<close>

text \<open>
  C6. Reads of the double buffer are never torn and never stale: in every interleaving of any number of
  readers and writers, a \<open>read\<close> that returns gives a value that some writer published as a whole (or
  the initial value), namely the one that was the latest at a moment between the call and the return. The
  hypothesis is the one the code states: fewer than \<open>2 ^ 32\<close> publications happen between loading the version
  and checking it.
\<close>

theorem double_buffer_read_atomic:
  assumes "db_run n v0 s g" and "db_step n t a s = Some (E_ReadReturned xs, s')" and "g_count g - g_vcount g t < 2 ^ 32"
  shows "\<exists>k. g_start g t \<le> k \<and> k \<le> latest g \<and> xs = g_hist g ! k"
proof -
  obtain db' th' where "thread_step n a (sys_db s) (sys_thread s t) = Some (E_ReadReturned xs, db', th')"
    using assms(2) by (auto simp: db_step_def split: option.splits)
  then have "read_step n (sys_db s) (sys_thread s t) = Some (E_ReadReturned xs, th')"
    by (cases rule: thread_step_cases) auto
  then show ?thesis
    using read_returns[of n "sys_db s" "sys_thread s t" xs th' g t] db_run_inv[OF assms(1)] assms(3)
    unfolding db_inv_def by blast
qed

theorem double_buffer_read_atomic_witness:
  "\<exists>k. g_start (snd after_overlap) 1 \<le> k \<and> k \<le> latest (snd after_overlap) \<and> [7, 8] = g_hist (snd after_overlap) ! k"
proof -
  obtain s' where "db_step 2 1 A_Go (fst after_overlap) = Some (E_ReadReturned [7, 8], s')"
    by (rule overlapping_read)
  moreover have "g_count (snd after_overlap) - g_vcount (snd after_overlap) 1 < 2 ^ 32"
  proof -
    have "g_count (snd after_overlap) = 1" by code_simp
    then show ?thesis by simp
  qed
  ultimately show ?thesis
    using double_buffer_read_atomic[OF overlapping_db_run] by blast
qed

text \<open>
  Writers exclude each other, and a writer that keeps a part of the value keeps the published part:
  in every interleaving at most one thread owns a \<open>WriteLockGuard\<close>, and when \<open>try_write\<close> returns one, the
  value behind it is the latest published value.
\<close>

theorem double_buffer_guard:
  assumes "db_run n v0 s g" and "db_step n t a s = Some (E_Guard v, s')"
  shows "v = g_hist g ! latest g \<and> (\<forall>t'. th_guard (sys_thread s' t') = None \<longleftrightarrow> t' \<noteq> t)"
proof -
  obtain db' th' where ts: "thread_step n a (sys_db s) (sys_thread s t) = Some (E_Guard v, db', th')"
    and s': "s' = \<lparr>sys_db = db', sys_thread = (sys_thread s)(t := th')\<rparr>"
    using assms(2) by (auto simp: db_step_def split: option.splits)
  have shared: "shared_inv n (sys_db s) g" and lock: "lock_inv s g"
    and me: "thread_inv n (db_buffer (sys_db s)) g t (sys_thread s t)"
    using db_run_inv[OF assms(1)] by (auto simp: db_inv_def)
  show ?thesis
    using ts
  proof (cases rule: thread_step_cases)
    case reading
    then show ?thesis using read_step_frame(5) by blast
  next
    case (ready xs j w)
    have "length (db_buffer (sys_db s) ! w_usize w) = n"
      using shared by (simp add: shared_inv_def)
    then have "v = g_hist g ! latest g"
      using ready me latest_length[OF shared] by (auto simp: thread_inv_def)
    moreover have "locked_by t w s g"
      using lock_owner[OF lock ready(2)] .
    ultimately show ?thesis
      using ready unfolding s' by (auto simp: locked_by_def)
  qed simp_all
qed

definition take_guard :: "(nat \<times> int act) list" where
  "take_guard = [(0, A_TryWrite)] @ go 8 0"

definition before_guard :: "int db_system \<times> int ghost" where
  "before_guard = the (interleave 2 take_guard (started [5, 6]))"

lemma take_guard_runs: "db_run 2 [5, 6] (fst before_guard) (snd before_guard)"
proof -
  have "interleave 2 take_guard (started [5, 6]) \<noteq> None"
    unfolding Option.is_none_def[symmetric] by code_simp
  then have "interleave 2 take_guard (started [5, 6]) = Some (fst before_guard, snd before_guard)"
    by (auto simp: before_guard_def)
  then show ?thesis
    by (rule interleave_run) (simp add: db_run.start)
qed

theorem double_buffer_guard_witness:
  "\<exists>s'. db_step 2 0 A_Go (fst before_guard) = Some (E_Guard [5, 6], s') \<and>
     [5, 6] = g_hist (snd before_guard) ! latest (snd before_guard) \<and> (\<forall>t'. th_guard (sys_thread s' t') = None \<longleftrightarrow> t' \<noteq> 0)"
proof -
  have "map_option fst (db_step 2 0 A_Go (fst before_guard)) = Some (E_Guard [5, 6])"
    by code_simp
  then obtain s' where "db_step 2 0 A_Go (fst before_guard) = Some (E_Guard [5, 6], s')"
    by auto
  then show ?thesis
    using double_buffer_guard[OF take_guard_runs] by blast
qed

end
