(* ===== verification/Dispatch_Task.thy ===== *)
theory Dispatch_Task
  imports Dispatch_Machine
begin

text \<open>
  The dispatch task, \<open>logic/dispatch.rs\<close> with \<open>dispatch/pending.rs\<close>, \<open>dispatch/confirmable.rs\<close> and
  \<open>dispatch/barrier.rs\<close>: it stores what comes in, peeks the oldest item of each stream, hands it
  to the network task through the upload queue, and answers a barrier request when everything is
  confirmed.

  The task is a loop of calls that wait; between two of them the network task may run. So a step of the
  machine at the end of this theory is one call of the store with the code that follows it up to the next
  call. The upload queue holds at most \<open>cap\<close> items and has one sender, so a send that waited for
  space succeeds. The result of an allocation in the pool (\<open>upload_alloc\<close>), the packets that
  the serializer \<open>data_in\<close> gives, and the serialized form of an event (\<open>as_sendable\<close>, \<open>None\<close> when it
  fails) are inputs of the steps. The signals sent to the orchestrator and the sequence numbers that the
  task logs when a store succeeds are kept in lists. \<open>select3\<close> prefers incoming data; here any of its
  futures that is ready may be taken, which allows more runs than the code has.
\<close>

section \<open>Confirmable\<close>

record confirmable =
  cn_inner :: sendable
  cn_handle :: "(stream_id \<times> confirm_handle) option"

definition confirmable_new :: "sendable \<Rightarrow> (stream_id \<times> confirm_handle) option \<Rightarrow> confirmable" where
  "confirmable_new inner confirm_handle = \<lparr>cn_inner = inner, cn_handle = confirm_handle\<rparr>"

definition can_be_retried :: "confirmable \<Rightarrow> bool" where
  "can_be_retried c \<longleftrightarrow> cn_handle c \<noteq> None"

fun drop_handle :: "(stream_id \<times> confirm_handle) option \<Rightarrow> 'd stream_pair_store \<Rightarrow> 'd stream_pair_store" where
  "drop_handle None store = store"
| "drop_handle (Some (w, h)) store = send_call w (handle_drop MAX_PEEKS h) store"

definition confirmable_drop :: "confirmable \<Rightarrow> 'd stream_pair_store \<Rightarrow> 'd stream_pair_store" where
  "confirmable_drop c = drop_handle (cn_handle c)"

definition confirmable_confirm :: "confirmable \<Rightarrow> 'd stream_pair_store \<Rightarrow> 'd stream_pair_store" where
  "confirmable_confirm c store =
     (case cn_handle c of
        Some (w, h) \<Rightarrow> send_call w (handle_confirm MAX_PEEKS h) store
      | None \<Rightarrow> store)"

section \<open>Pending\<close>

type_synonym pending = "confirmable option"

definition is_pending :: "pending \<Rightarrow> bool" where
  "is_pending p \<longleftrightarrow> p \<noteq> None"

text \<open>The old item is dropped when the new one takes its place; without space in the pool the new item and its handle are dropped.\<close>

definition inner_write ::
  "bool \<Rightarrow> sendable \<Rightarrow> (stream_id \<times> confirm_handle) option \<Rightarrow> pending \<times> 'd stream_pair_store \<Rightarrow> pending \<times> 'd stream_pair_store" where
  "inner_write alloc_ok data confirm_handle ps =
     (case ps of (p, store) \<Rightarrow>
        if alloc_ok
        then (Some (confirmable_new data confirm_handle), (case p of Some old \<Rightarrow> confirmable_drop old store | None \<Rightarrow> store))
        else (p, drop_handle confirm_handle store))"

definition pending_overwrite :: "bool \<Rightarrow> sendable \<Rightarrow> pending \<times> 'd stream_pair_store \<Rightarrow> pending \<times> 'd stream_pair_store" where
  "pending_overwrite alloc_ok data = inner_write alloc_ok data None"

definition pend_write ::
  "bool \<Rightarrow> sendable \<Rightarrow> stream_id \<times> confirm_handle \<Rightarrow> pending \<times> 'd stream_pair_store \<Rightarrow> pending \<times> 'd stream_pair_store" where
  "pend_write alloc_ok data confirm_handle = inner_write alloc_ok data (Some confirm_handle)"

section \<open>The task\<close>

datatype dispatch_signal = UrgentEvent | DispatchDrained | DispatchQueueEmpty

record 'd dispatch_task =
  dt_store :: "'d stream_pair_store"
  dt_pending_event :: pending
  dt_pending_data :: pending
  dt_barrier_active :: bool
  dt_store_retry :: bool
  dt_upload :: "confirmable list"
  dt_signals :: "dispatch_signal list"
  dt_logged :: "(stream_id \<times> seq_no \<times> bytes) list"

definition dispatch_task_new :: "'d stream_pair_store \<Rightarrow> 'd dispatch_task" where
  "dispatch_task_new store =
     \<lparr>dt_store = store, dt_pending_event = None, dt_pending_data = None, dt_barrier_active = False,
      dt_store_retry = False, dt_upload = [], dt_signals = [], dt_logged = []\<rparr>"

definition send_signal :: "dispatch_signal \<Rightarrow> 'd dispatch_task \<Rightarrow> 'd dispatch_task" where
  "send_signal x t = t\<lparr>dt_signals := dt_signals t @ [x]\<rparr>"

text \<open>Step 1a: nothing to send yet, so take the next event.\<close>

definition peek_event_round :: "'d circular_db \<Rightarrow> (bytes \<Rightarrow> u32) \<Rightarrow> bool \<Rightarrow> 'd dispatch_task \<Rightarrow> 'd dispatch_task" where
  "peek_event_round DB crc alloc_ok t =
     (let t = t\<lparr>dt_store_retry := False\<rparr> in
      if is_pending (dt_pending_event t) then t
      else case peek_event DB crc (dt_store t) of
             (Ok (Some (event, handle)), store) \<Rightarrow>
               (case pend_write alloc_ok event (Event_Stream, handle) (dt_pending_event t, store) of
                  (p, store) \<Rightarrow> t\<lparr>dt_pending_event := p, dt_store := store\<rparr>)
           | (Ok None, store) \<Rightarrow> t\<lparr>dt_store := store\<rparr>
           | (Err _, store) \<Rightarrow> t\<lparr>dt_store := store, dt_store_retry := True\<rparr>)"

text \<open>Step 1b: still nothing to send, so take the next sensor data.\<close>

definition peek_data_round :: "'d circular_db \<Rightarrow> (bytes \<Rightarrow> u32) \<Rightarrow> nat \<Rightarrow> bool \<Rightarrow> 'd dispatch_task \<Rightarrow> 'd dispatch_task" where
  "peek_data_round DB crc len alloc_ok t =
     (if is_pending (dt_pending_event t) \<or> is_pending (dt_pending_data t) then t
      else case peek_sensor_data DB crc len (dt_store t) of
             (Ok (Some (data, handle)), store) \<Rightarrow>
               (case pend_write alloc_ok data (Sensor_Data_Stream, handle) (dt_pending_data t, store) of
                  (p, store) \<Rightarrow> t\<lparr>dt_pending_data := p, dt_store := store\<rparr>)
           | (Ok None, store) \<Rightarrow> t\<lparr>dt_store := store\<rparr>
           | (Err _, store) \<Rightarrow> t\<lparr>dt_store := store, dt_store_retry := True\<rparr>)"

definition nothing_pending :: "'d dispatch_task \<Rightarrow> bool" where
  "nothing_pending t \<longleftrightarrow> \<not> is_pending (dt_pending_event t) \<and> \<not> is_pending (dt_pending_data t)"

definition process_event ::
  "'d circular_db \<Rightarrow> (bytes \<Rightarrow> u32) \<Rightarrow> nat \<Rightarrow> bool \<Rightarrow> bool \<Rightarrow> sendable option \<Rightarrow> 'd dispatch_task \<Rightarrow> 'd dispatch_task" where
  "process_event DB crc B alloc_ok urgent serialized t =
     (let t = (if urgent then send_signal UrgentEvent t else t) in
      case serialized of
        None \<Rightarrow> t
      | Some sendable \<Rightarrow>
          (case store_event DB crc B sendable (dt_store t) of
             (Ok seq_no, store) \<Rightarrow>
               t\<lparr>dt_store := store, dt_logged := dt_logged t @ [(Event_Stream, seq_no, as_slice sendable)]\<rparr>
           | (Err _, store) \<Rightarrow>
               (case pending_overwrite alloc_ok sendable (dt_pending_event t, store) of
                  (p, store) \<Rightarrow> t\<lparr>dt_pending_event := p, dt_store := store\<rparr>)))"

definition process_sensor_data ::
  "'d circular_db \<Rightarrow> (bytes \<Rightarrow> u32) \<Rightarrow> nat \<Rightarrow> bool \<Rightarrow> sendable \<Rightarrow> 'd dispatch_task \<Rightarrow> 'd dispatch_task" where
  "process_sensor_data DB crc B alloc_ok data t =
     (case store_sensor_data DB crc B data (dt_store t) of
        (Ok seq_no, store) \<Rightarrow>
          t\<lparr>dt_store := store, dt_logged := dt_logged t @ [(Sensor_Data_Stream, seq_no, as_slice data)]\<rparr>
      | (Err _, store) \<Rightarrow>
          (case pending_overwrite alloc_ok data (dt_pending_data t, store) of
             (p, store) \<Rightarrow> t\<lparr>dt_pending_data := p, dt_store := store\<rparr>))"

text \<open>The barrier when nothing is left to flush.\<close>

definition check_drained :: "'d circular_db \<Rightarrow> 'd dispatch_task \<Rightarrow> 'd dispatch_task" where
  "check_drained DB t =
     (case pair_is_drained DB (dt_store t) of
        (Ok True, store) \<Rightarrow> (send_signal DispatchDrained (t\<lparr>dt_store := store\<rparr>))\<lparr>dt_barrier_active := False\<rparr>
      | (_, store) \<Rightarrow> t\<lparr>dt_store := store\<rparr>)"

text \<open>
  \<open>try_transmit\<close>: first the event, then the data; each waits until the upload queue has space.
  \<open>Tr_Blocked\<close>: it still waits.
\<close>

datatype transmitted = Tr_Sent | Tr_NothingPending | Tr_Blocked

definition try_transmit :: "nat \<Rightarrow> 'd dispatch_task \<Rightarrow> transmitted \<times> 'd dispatch_task" where
  "try_transmit cap t =
     (let send_data = (\<lambda>result t.
            case dt_pending_data t of
              None \<Rightarrow> (result, t)
            | Some c \<Rightarrow>
                if length (dt_upload t) < cap
                then (Tr_Sent, t\<lparr>dt_pending_data := None, dt_upload := dt_upload t @ [c]\<rparr>)
                else (Tr_Blocked, t))
      in case dt_pending_event t of
           None \<Rightarrow> send_data Tr_NothingPending t
         | Some c \<Rightarrow>
             if length (dt_upload t) < cap
             then send_data Tr_Sent (t\<lparr>dt_pending_event := None, dt_upload := dt_upload t @ [c]\<rparr>)
             else (Tr_Blocked, t))"

section \<open>The machine\<close>

text \<open>
  \<open>At_Flush flushed\<close> is the loop that forces buffered data out, \<open>At_Select\<close> the \<open>select3\<close> at the end of
  an iteration. The network task takes items from the upload queue and confirms or drops each of them;
  \<open>dy_confirmed\<close> records its confirmations. \<open>dy_requested\<close> is the request flag of the barrier.
\<close>

datatype dispatch_pc = At_PeekEvent | At_PeekData | At_Flush bool | At_Drained | At_Select

record 'd dispatch_system =
  dy_task :: "'d dispatch_task"
  dy_pc :: dispatch_pc
  dy_network :: "confirmable list"
  dy_requested :: bool
  dy_confirmed :: "(stream_id \<times> u32) list"

definition dispatch_start :: "'d stream_pair_store \<Rightarrow> 'd dispatch_system" where
  "dispatch_start store =
     \<lparr>dy_task = dispatch_task_new store, dy_pc = At_PeekEvent, dy_network = [], dy_requested = False, dy_confirmed = []\<rparr>"

definition after_peeks :: "'d dispatch_task \<Rightarrow> dispatch_pc \<times> 'd dispatch_task" where
  "after_peeks t =
     (if nothing_pending t
      then if dt_barrier_active t then (At_Flush False, t) else (At_Select, send_signal DispatchQueueEmpty t)
      else (At_Select, t))"

definition handle_id :: "confirmable \<Rightarrow> (stream_id \<times> u32) list" where
  "handle_id c = (case cn_handle c of Some (w, h) \<Rightarrow> [(w, ch_id h)] | None \<Rightarrow> [])"

inductive dispatch_step ::
  "'d circular_db \<Rightarrow> (bytes \<Rightarrow> u32) \<Rightarrow> nat \<Rightarrow> nat \<Rightarrow> nat \<Rightarrow> 'd dispatch_system \<Rightarrow> 'd dispatch_system \<Rightarrow> bool"
  for DB crc B len cap where
  peek_event: "dy_pc s = At_PeekEvent \<Longrightarrow>
    dispatch_step DB crc B len cap s (s\<lparr>dy_pc := At_PeekData, dy_task := peek_event_round DB crc alloc_ok (dy_task s)\<rparr>)"
| peek_data: "dy_pc s = At_PeekData \<Longrightarrow> after_peeks (peek_data_round DB crc len alloc_ok (dy_task s)) = (pc, t) \<Longrightarrow>
    dispatch_step DB crc B len cap s (s\<lparr>dy_pc := pc, dy_task := t\<rparr>)"
| flush: "dy_pc s = At_Flush flushed \<Longrightarrow>
    dispatch_step DB crc B len cap s (s\<lparr>dy_pc := At_Flush True, dy_task := process_sensor_data DB crc B alloc_ok data (dy_task s)\<rparr>)"
| flushed: "dy_pc s = At_Flush flushed \<Longrightarrow>
    dispatch_step DB crc B len cap s (s\<lparr>dy_pc := if flushed then At_PeekEvent else At_Drained\<rparr>)"
| drained: "dy_pc s = At_Drained \<Longrightarrow>
    dispatch_step DB crc B len cap s (s\<lparr>dy_pc := At_Select, dy_task := send_signal DispatchQueueEmpty (check_drained DB (dy_task s))\<rparr>)"
| incoming_event: "dy_pc s = At_Select \<Longrightarrow>
    dispatch_step DB crc B len cap s (s\<lparr>dy_pc := At_PeekEvent, dy_task := process_event DB crc B alloc_ok urgent serialized (dy_task s)\<rparr>)"
| incoming_data: "dy_pc s = At_Select \<Longrightarrow>
    dispatch_step DB crc B len cap s (s\<lparr>dy_pc := At_PeekEvent, dy_task := process_sensor_data DB crc B alloc_ok data (dy_task s)\<rparr>)"
| incoming_error: "dy_pc s = At_Select \<Longrightarrow> dispatch_step DB crc B len cap s (s\<lparr>dy_pc := At_PeekEvent\<rparr>)"
| barrier: "dy_pc s = At_Select \<Longrightarrow> dy_requested s \<Longrightarrow>
    dispatch_step DB crc B len cap s (s\<lparr>dy_pc := At_PeekEvent, dy_requested := False, dy_task := (dy_task s)\<lparr>dt_barrier_active := True\<rparr>\<rparr>)"
| confirmation: "dy_pc s = At_Select \<Longrightarrow> pair_wait_confirmation (dt_store (dy_task s)) = Some store \<Longrightarrow>
    dispatch_step DB crc B len cap s (s\<lparr>dy_pc := At_PeekEvent, dy_task := (dy_task s)\<lparr>dt_store := store\<rparr>\<rparr>)"
| transmit: "dy_pc s = At_Select \<Longrightarrow> try_transmit cap (dy_task s) = (result, t) \<Longrightarrow>
    pc = (case result of
        Tr_Sent \<Rightarrow> At_PeekEvent
      | Tr_NothingPending \<Rightarrow> if dt_store_retry t then At_PeekEvent else At_Select
      | Tr_Blocked \<Rightarrow> At_Select) \<Longrightarrow>
    dispatch_step DB crc B len cap s (s\<lparr>dy_pc := pc, dy_task := t\<rparr>)"
| request: "dispatch_step DB crc B len cap s (s\<lparr>dy_requested := True\<rparr>)"
| network_recv: "dt_upload (dy_task s) = c # rest \<Longrightarrow>
    dispatch_step DB crc B len cap s (s\<lparr>dy_task := (dy_task s)\<lparr>dt_upload := rest\<rparr>, dy_network := dy_network s @ [c]\<rparr>)"
| network_confirm: "i < length (dy_network s) \<Longrightarrow> c = dy_network s ! i \<Longrightarrow>
    dispatch_step DB crc B len cap s
      (s\<lparr>dy_network := take i (dy_network s) @ drop (Suc i) (dy_network s), dy_confirmed := handle_id c @ dy_confirmed s,
         dy_task := (dy_task s)\<lparr>dt_store := confirmable_confirm c (dt_store (dy_task s))\<rparr>\<rparr>)"
| network_drop: "i < length (dy_network s) \<Longrightarrow> c = dy_network s ! i \<Longrightarrow>
    dispatch_step DB crc B len cap s
      (s\<lparr>dy_network := take i (dy_network s) @ drop (Suc i) (dy_network s),
         dy_task := (dy_task s)\<lparr>dt_store := confirmable_drop c (dt_store (dy_task s))\<rparr>\<rparr>)"

text \<open>Runs in which the 32-bit sequence numbers of the streams do not wrap.\<close>

definition numbers_left :: "'d dispatch_system \<Rightarrow> bool" where
  "numbers_left s \<longleftrightarrow> (\<forall>w. no_wrap MAX_PEEKS (ss_queue (ps_stream w (dt_store (dy_task s)))))"

inductive dispatch_reachable ::
  "'d circular_db \<Rightarrow> (bytes \<Rightarrow> u32) \<Rightarrow> nat \<Rightarrow> nat \<Rightarrow> nat \<Rightarrow> 'd dispatch_system \<Rightarrow> 'd dispatch_system \<Rightarrow> bool"
  for DB crc B len cap s0 where
  init: "dispatch_reachable DB crc B len cap s0 s0"
| step: "dispatch_reachable DB crc B len cap s0 s \<Longrightarrow> numbers_left s \<Longrightarrow> dispatch_step DB crc B len cap s s' \<Longrightarrow>
    dispatch_reachable DB crc B len cap s0 s'"

end
