(* ===== verification/Dispatch_Task_Correct.thy ===== *)
theory Dispatch_Task_Correct
  imports Dispatch_Task "HOL-Library.Multiset"
begin

text \<open>
  The dispatch task and the network task use the store as its machine (\<open>pair_step\<close>) allows: every run
  of the pipeline is a run of that machine, in which the handles that are out are exactly those of the
  items that are pending, in the upload queue or with the network task (\<open>pipeline_refines\<close>). No handle
  is lost and none is duplicated on the way, so what the store promises holds for the pipeline.
\<close>

section \<open>Handles on the way\<close>

definition good_handle :: "(stream_id \<times> confirm_handle) option \<Rightarrow> bool" where
  "good_handle h \<longleftrightarrow> (\<forall>w c. h = Some (w, c) \<longrightarrow> c = confirm_handle_new (ch_id c))"

abbreviation good :: "confirmable \<Rightarrow> bool" where
  "good c \<equiv> good_handle (cn_handle c)"

abbreviation handle_mset :: "(stream_id \<times> confirm_handle) option \<Rightarrow> (stream_id \<times> u32) multiset" where
  "handle_mset h \<equiv> (case h of Some (w, c) \<Rightarrow> {#(w, ch_id c)#} | None \<Rightarrow> {#})"

definition held :: "confirmable \<Rightarrow> (stream_id \<times> u32) multiset" where
  "held c = handle_mset (cn_handle c)"

definition held_by :: "confirmable list \<Rightarrow> (stream_id \<times> u32) multiset" where
  "held_by cs = sum_list (map held cs)"

definition pend_list :: "pending \<Rightarrow> confirmable list" where
  "pend_list p = (case p of Some c \<Rightarrow> [c] | None \<Rightarrow> [])"

definition places :: "'d dispatch_system \<Rightarrow> confirmable list" where
  "places s = pend_list (dt_pending_event (dy_task s)) @ pend_list (dt_pending_data (dy_task s)) @ dt_upload (dy_task s) @ dy_network s"

definition on_the_way :: "'d dispatch_system \<Rightarrow> (stream_id \<times> u32) multiset" where
  "on_the_way s = held_by (places s)"

lemma pend_list_simps [simp]: "pend_list None = []" "pend_list (Some c) = [c]"
  by (simp_all add: pend_list_def)

lemma held_by_simps [simp]:
  "held_by [] = {#}" "held_by (c # cs) = held c + held_by cs" "held_by (xs @ ys) = held_by xs + held_by ys"
  by (simp_all add: held_by_def)

lemma handle_id_held: "mset (handle_id c) = held c"
  by (simp add: handle_id_def held_def split: option.split)

lemma held_new [simp]: "held (confirmable_new data h) = handle_mset h"
  by (simp add: held_def confirmable_new_def)

lemma good_None [simp]: "good_handle None"
  by (simp add: good_handle_def)

lemma good_new [simp]: "good (confirmable_new data h) \<longleftrightarrow> good_handle h"
  by (simp add: confirmable_new_def)

lemma held_by_nth:
  "i < length cs \<Longrightarrow> held_by cs = held (cs ! i) + held_by (take i cs @ drop (Suc i) cs)"
  by (subst id_take_nth_drop[of i cs]) simp_all

section \<open>The store behind the pipeline\<close>

text \<open>
  Some run of the store's machine has reached this store, with the handles \<open>H\<close> out, the items \<open>C\<close>
  confirmed and the items \<open>L\<close> stored.
\<close>

definition logged_map :: "(stream_id \<times> seq_no \<times> bytes) list \<Rightarrow> stream_id \<Rightarrow> nat \<Rightarrow> bytes option" where
  "logged_map l w = foldl (\<lambda>m (w', n, data). if w' = w then m(unat n \<mapsto> data) else m) Map.empty l"

definition confirmed_on :: "(stream_id \<times> u32) set \<Rightarrow> stream_id \<Rightarrow> nat set" where
  "confirmed_on C w = {unat n |n. (w, n) \<in> C}"

definition tracked ::
  "(stream_id \<times> u32) multiset \<Rightarrow> (stream_id \<times> u32) set \<Rightarrow> (stream_id \<Rightarrow> nat \<Rightarrow> bytes option) \<Rightarrow> 'd stream_pair_store \<Rightarrow> 'd pair_system \<Rightarrow> bool" where
  "tracked H C L store p \<longleftrightarrow> py_store p = store \<and>
     (\<forall>w. mset (gh_handles (py_ghost p w)) = image_mset snd (filter_mset (\<lambda>x. fst x = w) H)
        \<and> gh_confirmed (py_ghost p w) = confirmed_on C w \<and> gh_stored (py_ghost p w) = L w)"

definition reaches ::
  "'d circular_db \<Rightarrow> (bytes \<Rightarrow> u32) \<Rightarrow> nat \<Rightarrow> 'd pair_system \<Rightarrow> (stream_id \<times> u32) multiset \<Rightarrow> (stream_id \<times> u32) set
   \<Rightarrow> (stream_id \<Rightarrow> nat \<Rightarrow> bytes option) \<Rightarrow> 'd stream_pair_store \<Rightarrow> bool" where
  "reaches DB crc B p0 H C L store \<longleftrightarrow> (\<exists>p. pair_reachable DB crc B p0 p \<and> tracked H C L store p)"

lemma reachesE:
  assumes "reaches DB crc B p0 H C L store"
  obtains p where "pair_reachable DB crc B p0 p" "tracked H C L store p"
  using assms by (auto simp: reaches_def)

lemma reachesI: "pair_reachable DB crc B p0 p \<Longrightarrow> pair_step DB crc B p p' \<Longrightarrow> tracked H C L store p' \<Longrightarrow> reaches DB crc B p0 H C L store"
  unfolding reaches_def by (blast intro: pair_reachable.step)

lemma confirmed_insert: "confirmed_on (insert (w, n) C) w' = (if w' = w then insert (unat n) (confirmed_on C w') else confirmed_on C w')"
  by (auto simp: confirmed_on_def)

lemma tracked_handle:
  assumes "tracked (add_mset (w, n) H) C L store p"
  shows "n \<in> set (gh_handles (py_ghost p w))"
proof -
  have "n \<in># mset (gh_handles (py_ghost p w))"
    using assms by (simp add: tracked_def)
  then show ?thesis by simp
qed

lemma reaches_drop:
  assumes "reaches DB crc B p0 (add_mset (w, n) H) C L store"
  shows "reaches DB crc B p0 H C L (send_call w (handle_drop MAX_PEEKS (confirm_handle_new n)) store)"
proof -
  obtain p where p: "pair_reachable DB crc B p0 p" "tracked (add_mset (w, n) H) C L store p"
    using assms by (rule reachesE)
  show ?thesis
    by (rule reachesI[OF p(1) pair_step.abort[OF tracked_handle[OF p(2)] refl]])
      (use p(2) in \<open>auto simp: tracked_def\<close>)
qed

lemma reaches_confirm:
  assumes "reaches DB crc B p0 (add_mset (w, n) H) C L store"
  shows "reaches DB crc B p0 H (insert (w, n) C) L (send_call w (handle_confirm MAX_PEEKS (confirm_handle_new n)) store)"
proof -
  obtain p where p: "pair_reachable DB crc B p0 p" "tracked (add_mset (w, n) H) C L store p"
    using assms by (rule reachesE)
  show ?thesis
    by (rule reachesI[OF p(1) pair_step.confirm[OF tracked_handle[OF p(2)] refl]])
      (use p(2) in \<open>auto simp: tracked_def confirmed_insert\<close>)
qed

lemma reaches_peek:
  assumes "reaches DB crc B p0 H C L store" and "peek_call w DB crc len store = (r, store')"
  shows "reaches DB crc B p0 (mset (map (Pair w) (given_out r)) + H) C L store'"
proof -
  obtain p where p: "pair_reachable DB crc B p0 p" "tracked H C L store p"
    using assms(1) by (rule reachesE)
  have "peek_call w DB crc len (py_store p) = (r, store')"
    using p(2) assms(2) by (simp add: tracked_def)
  from pair_step.peek[OF this refl] show ?thesis
    by (rule reachesI[OF p(1)])
      (use p(2) in \<open>auto simp: tracked_def filter_mset_image_mset image_mset.compositionality comp_def\<close>)
qed

lemma reaches_store:
  assumes "reaches DB crc B p0 H C L store" and "store_call w DB crc B m store = (r, store')"
    and "no_wrap MAX_PEEKS (ss_queue (ps_stream w store))"
  shows "reaches DB crc B p0 H C (L(w := after_store (as_slice m) r (L w))) store'"
proof -
  obtain p where p: "pair_reachable DB crc B p0 p" "tracked H C L store p"
    using assms(1) by (rule reachesE)
  have "store_call w DB crc B m (py_store p) = (r, store')" "no_wrap MAX_PEEKS (ss_queue (ps_stream w (py_store p)))"
    using p(2) assms(2,3) by (simp_all add: tracked_def)
  from pair_step.store[OF this(2,1) refl] show ?thesis
    by (rule reachesI[OF p(1)]) (use p(2) in \<open>auto simp: tracked_def\<close>)
qed

lemma reaches_quiet:
  assumes "reaches DB crc B p0 H C L store"
    and "pair_is_drained DB store = (r, store') \<or> pair_wait_confirmation store = Some store'"
  shows "reaches DB crc B p0 H C L store'"
proof -
  obtain p where p: "pair_reachable DB crc B p0 p" "tracked H C L store p"
    using assms(1) by (rule reachesE)
  have "pair_step DB crc B p (p\<lparr>py_store := store'\<rparr>)"
    using assms(2) p(2) by (auto simp: tracked_def intro: pair_step.drained pair_step.wait)
  then show ?thesis
    by (rule reachesI[OF p(1)]) (use p(2) in \<open>simp add: tracked_def\<close>)
qed

section \<open>The parts of the task\<close>

lemma reaches_drop_handle:
  assumes "reaches DB crc B p0 (handle_mset h + H) C L store" and "good_handle h"
  shows "reaches DB crc B p0 H C L (drop_handle h store)"
proof (cases h)
  case (Some wc)
  obtain w c where wc: "wc = (w, c)" by fastforce
  then have "c = confirm_handle_new (ch_id c)"
    using assms(2) Some by (simp add: good_handle_def)
  then show ?thesis
    using reaches_drop[of DB crc B p0 w "ch_id c" H C L store] assms(1) Some wc by simp
qed (use assms in simp)

lemma reaches_confirmable_drop:
  "reaches DB crc B p0 (held c + H) C L store \<Longrightarrow> good c \<Longrightarrow> reaches DB crc B p0 H C L (confirmable_drop c store)"
  unfolding confirmable_drop_def held_def by (rule reaches_drop_handle)

lemma reaches_confirmable_confirm:
  assumes "reaches DB crc B p0 (held c + H) C L store" and "good c"
  shows "reaches DB crc B p0 H (set (handle_id c) \<union> C) L (confirmable_confirm c store)"
proof (cases "cn_handle c")
  case (Some wc)
  obtain w h where wc: "wc = (w, h)" by fastforce
  then have "h = confirm_handle_new (ch_id h)"
    using assms(2) Some by (simp add: good_handle_def)
  then show ?thesis
    using reaches_confirm[of DB crc B p0 w "ch_id h" H C L store] assms(1) Some wc
    by (simp add: held_def handle_id_def confirmable_confirm_def)
qed (use assms in \<open>simp add: held_def handle_id_def confirmable_confirm_def\<close>)

abbreviation good_pending :: "pending \<Rightarrow> bool" where
  "good_pending p \<equiv> \<forall>c \<in> set (pend_list p). good c"

lemma inner_write_reaches:
  assumes "inner_write a data h (p, store) = (p', store')" and "good_handle h" and "good_pending p"
    and "reaches DB crc B p0 (handle_mset h + held_by (pend_list p) + H) C L store"
  shows "reaches DB crc B p0 (held_by (pend_list p') + H) C L store'" and "good_pending p'"
proof -
  show "reaches DB crc B p0 (held_by (pend_list p') + H) C L store'"
  proof (cases a)
    case True
    show ?thesis
    proof (cases p)
      case None
      then show ?thesis using assms(1,4) True by (auto simp: inner_write_def)
    next
      case (Some c)
      have "reaches DB crc B p0 (held c + (handle_mset h + H)) C L store"
        using assms(4) Some by (simp add: ac_simps)
      then have "reaches DB crc B p0 (handle_mset h + H) C L (confirmable_drop c store)"
        by (rule reaches_confirmable_drop) (use assms(3) Some in simp)
      then show ?thesis using assms(1) True Some by (auto simp: inner_write_def)
    qed
  next
    case False
    have "reaches DB crc B p0 (held_by (pend_list p) + H) C L (drop_handle h store)"
      by (rule reaches_drop_handle) (use assms in \<open>simp_all add: ac_simps\<close>)
    then show ?thesis using assms(1) False by (auto simp: inner_write_def)
  qed
  show "good_pending p'"
    using assms(1-3) by (auto simp: inner_write_def split: if_splits)
qed

lemma stream_peek_handle:
  assumes "stream_peek_next DB crc M s = (Ok (Some (item, h)), s')"
  shows "h = confirm_handle_new (ch_id h)"
proof -
  have "\<exists>P q q'. queue_peek_next P q = (Ok h, q')"
    using assms
    by (auto simp: stream_peek_next_def and_then_def attempt_def Let_def read_item_def drop_and_throw_def confirm_and_throw_def
        split: prod.splits sum.splits if_splits option.splits)
  then show ?thesis
    by (auto simp: queue_peek_next_def confirm_handle_new_def split: if_splits prod.splits sum.splits)
qed

lemma peek_handle_good:
  assumes "peek_call w DB crc len store = (Ok (Some (m, h)), store')"
  shows "h = confirm_handle_new (ch_id h)"
  using assms
  by (cases w) (auto simp: peek_event_def peek_sensor_data_def on_events_def on_sensor_data_def and_then_def
      peeked_sendable_def confirm_and_throw_def intro: stream_peek_handle split: prod.splits sum.splits option.splits)

text \<open>A peek into an empty slot: the handle is in the slot, or dropped.\<close>

lemma peek_into_reaches:
  assumes "peek_call w DB crc len store = (Ok (Some (m, h)), store1)" and "pend_write a m (w, h) (None, store1) = (p', store')"
    and "reaches DB crc B p0 H C L store"
  shows "reaches DB crc B p0 (held_by (pend_list p') + H) C L store'" and "good_pending p'"
proof -
  have g: "good_handle (Some (w, h))"
    using peek_handle_good[OF assms(1)] by (simp add: good_handle_def)
  have r: "reaches DB crc B p0 (handle_mset (Some (w, h)) + held_by (pend_list None) + H) C L store1"
    using reaches_peek[OF assms(3,1)] by (simp add: given_out_def)
  note w = inner_write_reaches[OF assms(2)[unfolded pend_write_def] g _ r]
  show "reaches DB crc B p0 (held_by (pend_list p') + H) C L store'" "good_pending p'"
    using w by simp_all
qed

text \<open>What the two streams of the task have in common: peeking, and storing with the fallback to the network.\<close>

definition pipeline :: "'d circular_db \<Rightarrow> (bytes \<Rightarrow> u32) \<Rightarrow> nat \<Rightarrow> 'd pair_system \<Rightarrow> 'd dispatch_system \<Rightarrow> bool" where
  "pipeline DB crc B p0 s \<longleftrightarrow> (\<forall>c \<in> set (places s). good c) \<and>
     reaches DB crc B p0 (on_the_way s) (set (dy_confirmed s)) (logged_map (dt_logged (dy_task s))) (dt_store (dy_task s))"

lemma store_or_keep_reaches:
  assumes "reaches DB crc B p0 (held_by (pend_list p) + H) C (logged_map l) store" and "good_pending p"
    and "no_wrap MAX_PEEKS (ss_queue (ps_stream w store))"
    and "store_call w DB crc B m store = (r, store1)"
  shows "r = Ok n \<Longrightarrow> reaches DB crc B p0 (held_by (pend_list p) + H) C (logged_map (l @ [(w, n, as_slice m)])) store1"
    and "r = Err e \<Longrightarrow> pending_overwrite a m (p, store1) = (p', store') \<Longrightarrow>
      reaches DB crc B p0 (held_by (pend_list p') + H) C (logged_map l) store' \<and> good_pending p'"
proof -
  note st = reaches_store[OF assms(1,4,3)]
  show "reaches DB crc B p0 (held_by (pend_list p) + H) C (logged_map (l @ [(w, n, as_slice m)])) store1" if "r = Ok n"
  proof -
    have "(logged_map l)(w := after_store (as_slice m) r (logged_map l w)) = logged_map (l @ [(w, n, as_slice m)])"
      using that by (auto simp: fun_eq_iff logged_map_def after_store_def)
    then show ?thesis using st by simp
  qed
  show "reaches DB crc B p0 (held_by (pend_list p') + H) C (logged_map l) store' \<and> good_pending p'"
    if "r = Err e" "pending_overwrite a m (p, store1) = (p', store')"
  proof -
    have "reaches DB crc B p0 (handle_mset None + held_by (pend_list p) + H) C (logged_map l) store1"
      using st that(1) by (simp add: after_store_def)
    then show ?thesis
      using inner_write_reaches[OF that(2)[unfolded pending_overwrite_def] good_None assms(2)] by blast
  qed
qed

section \<open>The rounds of the task\<close>

lemma peek_event_round_reaches:
  assumes "reaches DB crc B p0 (held_by (pend_list (dt_pending_event t)) + H) C L (dt_store t)" and "good_pending (dt_pending_event t)"
    and t'_def: "t' = peek_event_round DB crc a t"
  shows "reaches DB crc B p0 (held_by (pend_list (dt_pending_event t')) + H) C L (dt_store t')"
    and "good_pending (dt_pending_event t')"
    and "dt_pending_data t' = dt_pending_data t" and "dt_upload t' = dt_upload t" and "dt_logged t' = dt_logged t"
proof -
  obtain r store1 where pk: "peek_event DB crc (dt_store t) = (r, store1)" by fastforce
  then have pk': "peek_call Event_Stream DB crc 0 (dt_store t) = (r, store1)" by simp
  have "reaches DB crc B p0 (held_by (pend_list (dt_pending_event t')) + H) C L (dt_store t') \<and> good_pending (dt_pending_event t')"
  proof (cases "dt_pending_event t")
    case None
    then have base: "reaches DB crc B p0 H C L (dt_store t)" using assms(1) by simp
    show ?thesis
    proof (cases "\<exists>m h. r = Ok (Some (m, h))")
      case True
      then obtain m h where r: "r = Ok (Some (m, h))" by blast
      obtain p' store' where w: "pend_write a m (Event_Stream, h) (None, store1) = (p', store')" by fastforce
      show ?thesis
        using peek_into_reaches[OF pk'[unfolded r] w base] None pk r w
        by (simp add: t'_def peek_event_round_def is_pending_def)
    next
      case False
      then have "given_out r = []"
        by (auto simp: given_out_def split: sum.splits option.splits)
      then have "reaches DB crc B p0 H C L store1"
        using reaches_peek[OF base pk'] by simp
      then show ?thesis
        using None pk False by (auto simp: t'_def peek_event_round_def is_pending_def Let_def split: sum.splits option.splits)
    qed
  next
    case (Some c)
    then show ?thesis using assms(1,2) by (simp add: t'_def peek_event_round_def is_pending_def)
  qed
  then show "reaches DB crc B p0 (held_by (pend_list (dt_pending_event t')) + H) C L (dt_store t')" "good_pending (dt_pending_event t')"
    by blast+
  show "dt_pending_data t' = dt_pending_data t" "dt_upload t' = dt_upload t" "dt_logged t' = dt_logged t"
    by (auto simp: t'_def peek_event_round_def Let_def split: prod.splits sum.splits option.splits)
qed

lemma peek_data_round_reaches:
  assumes "reaches DB crc B p0 (held_by (pend_list (dt_pending_data t)) + H) C L (dt_store t)" and "good_pending (dt_pending_data t)"
    and t'_def: "t' = peek_data_round DB crc len a t"
  shows "reaches DB crc B p0 (held_by (pend_list (dt_pending_data t')) + H) C L (dt_store t')"
    and "good_pending (dt_pending_data t')"
    and "dt_pending_event t' = dt_pending_event t" and "dt_upload t' = dt_upload t" and "dt_logged t' = dt_logged t"
proof -
  obtain r store1 where pk: "peek_sensor_data DB crc len (dt_store t) = (r, store1)" by fastforce
  then have pk': "peek_call Sensor_Data_Stream DB crc len (dt_store t) = (r, store1)" by simp
  have "reaches DB crc B p0 (held_by (pend_list (dt_pending_data t')) + H) C L (dt_store t') \<and> good_pending (dt_pending_data t')"
  proof (cases "is_pending (dt_pending_event t) \<or> is_pending (dt_pending_data t)")
    case False
    then have none: "dt_pending_data t = None" and base: "reaches DB crc B p0 H C L (dt_store t)"
      using assms(1) by (simp_all add: is_pending_def)
    show ?thesis
    proof (cases "\<exists>m h. r = Ok (Some (m, h))")
      case True
      then obtain m h where r: "r = Ok (Some (m, h))" by blast
      obtain p' store' where w: "pend_write a m (Sensor_Data_Stream, h) (None, store1) = (p', store')" by fastforce
      show ?thesis
        using peek_into_reaches[OF pk'[unfolded r] w base] False none pk r w
        by (simp add: t'_def peek_data_round_def)
    next
      case no_item: False
      then have "given_out r = []"
        by (auto simp: given_out_def split: sum.splits option.splits)
      then have "reaches DB crc B p0 H C L store1"
        using reaches_peek[OF base pk'] by simp
      then show ?thesis
        using False none pk no_item by (auto simp: t'_def peek_data_round_def split: sum.splits option.splits)
    qed
  qed (use assms(1,2) in \<open>simp add: t'_def peek_data_round_def\<close>)
  then show "reaches DB crc B p0 (held_by (pend_list (dt_pending_data t')) + H) C L (dt_store t')" "good_pending (dt_pending_data t')"
    by blast+
  show "dt_pending_event t' = dt_pending_event t" "dt_upload t' = dt_upload t" "dt_logged t' = dt_logged t"
    by (auto simp: t'_def peek_data_round_def split: prod.splits sum.splits option.splits)
qed

lemma process_sensor_data_reaches:
  assumes "reaches DB crc B p0 (held_by (pend_list (dt_pending_data t)) + H) C (logged_map (dt_logged t)) (dt_store t)"
    and "good_pending (dt_pending_data t)" and "no_wrap MAX_PEEKS (ss_queue (ps_stream Sensor_Data_Stream (dt_store t)))"
    and t'_def: "t' = process_sensor_data DB crc B a data t"
  shows "reaches DB crc B p0 (held_by (pend_list (dt_pending_data t')) + H) C (logged_map (dt_logged t')) (dt_store t')"
    and "good_pending (dt_pending_data t')"
    and "dt_pending_event t' = dt_pending_event t" and "dt_upload t' = dt_upload t"
proof -
  obtain r store1 where st: "store_sensor_data DB crc B data (dt_store t) = (r, store1)" by fastforce
  then have st': "store_call Sensor_Data_Stream DB crc B data (dt_store t) = (r, store1)" by simp
  note k = store_or_keep_reaches[OF assms(1-3) st']
  have "reaches DB crc B p0 (held_by (pend_list (dt_pending_data t')) + H) C (logged_map (dt_logged t')) (dt_store t')
      \<and> good_pending (dt_pending_data t')"
    using k st assms(2) by (auto simp: t'_def process_sensor_data_def split: prod.splits sum.splits)
  then show "reaches DB crc B p0 (held_by (pend_list (dt_pending_data t')) + H) C (logged_map (dt_logged t')) (dt_store t')"
    "good_pending (dt_pending_data t')"
    by blast+
  show "dt_pending_event t' = dt_pending_event t" "dt_upload t' = dt_upload t"
    by (auto simp: t'_def process_sensor_data_def split: prod.splits sum.splits)
qed

lemma process_event_reaches:
  assumes "reaches DB crc B p0 (held_by (pend_list (dt_pending_event t)) + H) C (logged_map (dt_logged t)) (dt_store t)"
    and "good_pending (dt_pending_event t)" and "no_wrap MAX_PEEKS (ss_queue (ps_stream Event_Stream (dt_store t)))"
    and t'_def: "t' = process_event DB crc B a urgent serialized t"
  shows "reaches DB crc B p0 (held_by (pend_list (dt_pending_event t')) + H) C (logged_map (dt_logged t')) (dt_store t')"
    and "good_pending (dt_pending_event t')"
    and "dt_pending_data t' = dt_pending_data t" and "dt_upload t' = dt_upload t"
proof -
  have "reaches DB crc B p0 (held_by (pend_list (dt_pending_event t')) + H) C (logged_map (dt_logged t')) (dt_store t')
      \<and> good_pending (dt_pending_event t')"
  proof (cases serialized)
    case None
    then show ?thesis using assms(1,2) by (simp add: t'_def process_event_def send_signal_def)
  next
    case (Some m)
    obtain r store1 where st: "store_event DB crc B m (dt_store t) = (r, store1)" by fastforce
    then have st': "store_call Event_Stream DB crc B m (dt_store t) = (r, store1)" by simp
    note k = store_or_keep_reaches[OF assms(1-3) st']
    show ?thesis
      using k st assms(2) Some by (auto simp: t'_def process_event_def send_signal_def split: prod.splits sum.splits)
  qed
  then show "reaches DB crc B p0 (held_by (pend_list (dt_pending_event t')) + H) C (logged_map (dt_logged t')) (dt_store t')"
    "good_pending (dt_pending_event t')"
    by blast+
  show "dt_pending_data t' = dt_pending_data t" "dt_upload t' = dt_upload t"
    by (auto simp: t'_def process_event_def send_signal_def Let_def split: prod.splits sum.splits option.splits)
qed

lemma check_drained_reaches:
  assumes "reaches DB crc B p0 H C L (dt_store t)"
    and t'_def: "t' = check_drained DB t"
  shows "reaches DB crc B p0 H C L (dt_store t')"
    and "dt_pending_event t' = dt_pending_event t" and "dt_pending_data t' = dt_pending_data t"
    and "dt_upload t' = dt_upload t" and "dt_logged t' = dt_logged t"
proof -
  obtain r store' where dr: "pair_is_drained DB (dt_store t) = (r, store')" by fastforce
  have "dt_store t' = store'"
    using dr by (auto simp: t'_def check_drained_def send_signal_def split: sum.splits bool.splits)
  then show "reaches DB crc B p0 H C L (dt_store t')"
    using reaches_quiet[OF assms(1)] dr by blast
  show "dt_pending_event t' = dt_pending_event t" "dt_pending_data t' = dt_pending_data t"
    "dt_upload t' = dt_upload t" "dt_logged t' = dt_logged t"
    using dr by (auto simp: t'_def check_drained_def send_signal_def split: sum.splits bool.splits)
qed

lemma try_transmit_places:
  assumes "try_transmit cap t = (r, t')"
  shows "held_by (pend_list (dt_pending_event t') @ pend_list (dt_pending_data t') @ dt_upload t') =
      held_by (pend_list (dt_pending_event t) @ pend_list (dt_pending_data t) @ dt_upload t)"
    and "set (pend_list (dt_pending_event t') @ pend_list (dt_pending_data t') @ dt_upload t') =
      set (pend_list (dt_pending_event t) @ pend_list (dt_pending_data t) @ dt_upload t)"
    and "dt_store t' = dt_store t" and "dt_logged t' = dt_logged t"
  using assms by (auto simp: try_transmit_def Let_def ac_simps split: option.splits if_splits)

section \<open>The pipeline refines the machine of the store\<close>

lemma on_the_way_split:
  "on_the_way s = held_by (pend_list (dt_pending_event (dy_task s))) + held_by (pend_list (dt_pending_data (dy_task s)))
     + held_by (dt_upload (dy_task s)) + held_by (dy_network s)"
  by (simp add: on_the_way_def places_def)

lemma pipelineI:
  assumes "good_pending (dt_pending_event (dy_task s))" and "good_pending (dt_pending_data (dy_task s))"
    and "\<forall>c \<in> set (dt_upload (dy_task s)). good c" and "\<forall>c \<in> set (dy_network s). good c"
    and "reaches DB crc B p0 (held_by (pend_list (dt_pending_event (dy_task s))) + (held_by (pend_list (dt_pending_data (dy_task s)))
      + held_by (dt_upload (dy_task s)) + held_by (dy_network s)))
      (set (dy_confirmed s)) (logged_map (dt_logged (dy_task s))) (dt_store (dy_task s))"
  shows "pipeline DB crc B p0 s"
  using assms by (auto simp: pipeline_def places_def on_the_way_split ac_simps)

lemma pipelineD:
  assumes "pipeline DB crc B p0 s"
  shows "good_pending (dt_pending_event (dy_task s))" and "good_pending (dt_pending_data (dy_task s))"
    and "\<forall>c \<in> set (dt_upload (dy_task s)). good c" and "\<forall>c \<in> set (dy_network s). good c"
    and "reaches DB crc B p0 (held_by (pend_list (dt_pending_event (dy_task s))) + (held_by (pend_list (dt_pending_data (dy_task s)))
      + held_by (dt_upload (dy_task s)) + held_by (dy_network s)))
      (set (dy_confirmed s)) (logged_map (dt_logged (dy_task s))) (dt_store (dy_task s))"
    and "reaches DB crc B p0 (held_by (pend_list (dt_pending_data (dy_task s))) + (held_by (pend_list (dt_pending_event (dy_task s)))
      + held_by (dt_upload (dy_task s)) + held_by (dy_network s)))
      (set (dy_confirmed s)) (logged_map (dt_logged (dy_task s))) (dt_store (dy_task s))"
  using assms by (auto simp: pipeline_def places_def on_the_way_split ac_simps)

lemma numbers_leftD: "numbers_left s \<Longrightarrow> no_wrap MAX_PEEKS (ss_queue (ps_stream w (dt_store (dy_task s))))"
  by (simp add: numbers_left_def)

lemma network_takes:
  assumes "pipeline DB crc B p0 s" and "i < length (dy_network s)" and "c = dy_network s ! i"
  defines "rest \<equiv> take i (dy_network s) @ drop (Suc i) (dy_network s)"
  shows "good c" and "\<forall>c \<in> set rest. good c"
    and "reaches DB crc B p0 (held c + (held_by (pend_list (dt_pending_event (dy_task s))) + (held_by (pend_list (dt_pending_data (dy_task s)))
      + held_by (dt_upload (dy_task s)) + held_by rest)))
      (set (dy_confirmed s)) (logged_map (dt_logged (dy_task s))) (dt_store (dy_task s))"
proof -
  note P = pipelineD[OF assms(1)]
  show "good c" "\<forall>c \<in> set rest. good c"
    using P(4) assms(2,3) by (auto simp: rest_def dest: in_set_takeD in_set_dropD)
  show "reaches DB crc B p0 (held c + (held_by (pend_list (dt_pending_event (dy_task s))) + (held_by (pend_list (dt_pending_data (dy_task s)))
      + held_by (dt_upload (dy_task s)) + held_by rest)))
      (set (dy_confirmed s)) (logged_map (dt_logged (dy_task s))) (dt_store (dy_task s))"
    using P(5) held_by_nth[OF assms(2)] assms(3) by (simp add: rest_def ac_simps)
qed

lemma pipeline_step:
  assumes "dispatch_step DB crc B len cap s s'" and "pipeline DB crc B p0 s" and "numbers_left s"
  shows "pipeline DB crc B p0 s'"
  using assms(1)
proof (cases rule: dispatch_step.cases)
  case (peek_event a)
  note P = pipelineD[OF assms(2)]
  show ?thesis
    using peek_event_round_reaches[OF P(5,1) refl, of a] P(2-4) unfolding peek_event(1)
    by (intro pipelineI) simp_all
next
  case (peek_data a pc t)
  note P = pipelineD[OF assms(2)]
  have t: "dt_store t = dt_store (peek_data_round DB crc len a (dy_task s))" "dt_pending_event t = dt_pending_event (dy_task s)"
    "dt_pending_data t = dt_pending_data (peek_data_round DB crc len a (dy_task s))" "dt_upload t = dt_upload (dy_task s)"
    "dt_logged t = dt_logged (dy_task s)"
    using peek_data(3) peek_data_round_reaches(3-5)[OF P(6,2) refl, of len a]
    by (auto simp: after_peeks_def send_signal_def split: if_splits)
  show ?thesis
    using peek_data_round_reaches[OF P(6,2) refl, of len a] P(1,3,4) unfolding peek_data(1)
    by (intro pipelineI) (simp_all add: t ac_simps)
next
  case (flush flushed a data)
  note P = pipelineD[OF assms(2)]
  show ?thesis
    using process_sensor_data_reaches[OF P(6,2) numbers_leftD[OF assms(3)] refl, of a data] P(1,3,4) unfolding flush(1)
    by (intro pipelineI) (simp_all add: ac_simps)
next
  case (flushed flushed)
  then show ?thesis using assms(2) by (simp add: pipeline_def places_def on_the_way_def)
next
  case drained
  note P = pipelineD[OF assms(2)]
  show ?thesis
    using check_drained_reaches[OF P(5) refl] P(1-4) unfolding drained(1)
    by (intro pipelineI) (simp_all add: send_signal_def)
next
  case (incoming_event a urgent serialized)
  note P = pipelineD[OF assms(2)]
  show ?thesis
    using process_event_reaches[OF P(5,1) numbers_leftD[OF assms(3)] refl, of a urgent serialized] P(2-4) unfolding incoming_event(1)
    by (intro pipelineI) simp_all
next
  case (incoming_data a data)
  note P = pipelineD[OF assms(2)]
  show ?thesis
    using process_sensor_data_reaches[OF P(6,2) numbers_leftD[OF assms(3)] refl, of a data] P(1,3,4) unfolding incoming_data(1)
    by (intro pipelineI) (simp_all add: ac_simps)
next
  case incoming_error
  then show ?thesis using assms(2) by (simp add: pipeline_def places_def on_the_way_def)
next
  case barrier
  then show ?thesis using assms(2) by (simp add: pipeline_def places_def on_the_way_def)
next
  case (confirmation store)
  note P = pipelineD[OF assms(2)]
  show ?thesis
    using reaches_quiet[OF P(5)] confirmation(3) P(1-4) unfolding confirmation(1)
    by (intro pipelineI) simp_all
next
  case (transmit result t pc)
  note T = try_transmit_places[OF transmit(3)]
  have "set (places s') = set (places s)" "on_the_way s' = on_the_way s"
    using T(1,2) unfolding transmit(1) by (auto simp: places_def on_the_way_def)
  then show ?thesis using assms(2) T(3,4) unfolding transmit(1) by (simp add: pipeline_def)
next
  case request
  then show ?thesis using assms(2) by (simp add: pipeline_def places_def on_the_way_def)
next
  case (network_recv c rest)
  then show ?thesis using assms(2) by (simp add: pipeline_def places_def on_the_way_def ac_simps)
next
  case (network_confirm i c)
  note P = pipelineD[OF assms(2)] and T = network_takes[OF assms(2) network_confirm(2,3)]
  show ?thesis
    using reaches_confirmable_confirm[OF T(3,1)] P(1-3) T(2) unfolding network_confirm(1)
    by (intro pipelineI) simp_all
next
  case (network_drop i c)
  note P = pipelineD[OF assms(2)] and T = network_takes[OF assms(2) network_drop(2,3)]
  show ?thesis
    using reaches_confirmable_drop[OF T(3,1)] P(1-3) T(2) unfolding network_drop(1)
    by (intro pipelineI) simp_all
qed

lemma pipeline_start: "pipeline DB crc B (pair_start store) (dispatch_start store)"
proof -
  have "tracked {#} {} (logged_map []) store (pair_start store)"
    by (simp add: tracked_def pair_start_def confirmed_on_def logged_map_def)
  then show ?thesis
    unfolding pipeline_def reaches_def
    by (auto simp: dispatch_start_def dispatch_task_new_def places_def on_the_way_def intro: pair_reachable.init)
qed

lemma pipeline_refines:
  assumes "dispatch_reachable DB crc B len cap (dispatch_start store) s"
  shows "pipeline DB crc B (pair_start store) s"
  using assms by induction (use pipeline_start pipeline_step in blast)+

section \<open>The barrier\<close>

text \<open>When the task is about to ask whether the store is drained, it has nothing pending and a barrier is active.\<close>

definition barrier_inv :: "'d dispatch_system \<Rightarrow> bool" where
  "barrier_inv s \<longleftrightarrow>
     (dy_pc s = At_Drained \<or> dy_pc s = At_Flush False \<longrightarrow> nothing_pending (dy_task s)) \<and>
     (dy_pc s = At_Drained \<or> (\<exists>f. dy_pc s = At_Flush f) \<longrightarrow> dt_barrier_active (dy_task s))"

lemma process_sensor_data_barrier: "dt_barrier_active (process_sensor_data DB crc B a data t) = dt_barrier_active t"
  by (auto simp: process_sensor_data_def split: prod.splits sum.splits)

lemma barrier_step:
  assumes "dispatch_step DB crc B len cap s s'" and "barrier_inv s"
  shows "barrier_inv s'"
  using assms(1)
proof (cases rule: dispatch_step.cases)
  case (peek_data a pc t)
  then show ?thesis by (auto simp: barrier_inv_def after_peeks_def send_signal_def split: if_splits)
next
  case (flush flushed a data)
  then show ?thesis using assms(2) by (simp add: barrier_inv_def process_sensor_data_barrier)
next
  case (transmit result t pc)
  then show ?thesis by (auto simp: barrier_inv_def split: transmitted.splits if_splits)
qed (use assms(2) in \<open>auto simp: barrier_inv_def nothing_pending_def split: if_splits\<close>)

lemma barrier_reachable:
  assumes "dispatch_reachable DB crc B len cap (dispatch_start store) s"
  shows "barrier_inv s"
  using assms
proof induction
  case init
  then show ?case by (simp add: barrier_inv_def dispatch_start_def)
qed (use barrier_step in blast)

lemma drained_signal:
  assumes "dispatch_step DB crc B len cap s s'" and "dt_signals (dy_task s') = dt_signals (dy_task s) @ DispatchDrained # xs"
  shows "dy_pc s = At_Drained \<and> (\<exists>store'. pair_is_drained DB (dt_store (dy_task s)) = (Ok True, store'))"
  using assms(1)
proof (cases rule: dispatch_step.cases)
  case (peek_event a)
  then show ?thesis
    using assms(2) by (auto simp: peek_event_round_def Let_def split: prod.splits sum.splits option.splits if_splits)
next
  case (peek_data a pc t)
  then show ?thesis
    using assms(2)
    by (auto simp: after_peeks_def peek_data_round_def send_signal_def split: prod.splits sum.splits option.splits if_splits)
next
  case (incoming_event a urgent serialized)
  then show ?thesis
    using assms(2) by (auto simp: process_event_def Let_def send_signal_def split: prod.splits sum.splits option.splits if_splits)
next
  case (transmit result t pc)
  then show ?thesis
    using assms(2) by (auto simp: try_transmit_def Let_def split: option.splits if_splits)
next
  case drained
  then show ?thesis
    using assms(2) by (auto simp: check_drained_def send_signal_def split: prod.splits sum.splits bool.splits)
qed (use assms(2) in \<open>auto simp: process_sensor_data_def split: prod.splits sum.splits\<close>)

lemma stream_drained:
  assumes inv: "stream_inv crc c ok look s" and "stream_is_drained DB (sy_stream s) = (Ok True, t)"
  shows "sy_handles s = []"
    and "{low (sy_queue s)..<unat (q_write_index (sy_queue s))} \<subseteq> sy_confirmed s \<union> sy_skipped s"
proof -
  have "\<exists>q'. queue_is_drained MAX_PEEKS (sy_queue s) = (True, q')"
    using assms(2) initialize_done[OF stream_invD(3)[OF inv]]
    by (auto simp: stream_is_drained_def and_then_def split: prod.splits)
  then show "sy_handles s = []" "{low (sy_queue s)..<unat (q_write_index (sy_queue s))} \<subseteq> sy_confirmed s \<union> sy_skipped s"
    using drained_ok[OF stream_invD(4)[OF inv]] by auto
qed

context dispatch_pair begin

lemma pair_drained:
  assumes inv: "pair_inv crc p" and dr: "pair_is_drained DB (py_store p) = (Ok True, store')"
  shows "gh_handles (py_ghost p w) = [] \<and>
    {low (ss_queue (ps_stream w (py_store p)))..<unat (q_write_index (ss_queue (ps_stream w (py_store p))))}
      \<subseteq> gh_confirmed (py_ghost p w) \<union> gh_skipped (py_ghost p w)"
proof -
  obtain p1 where e: "on_stream Event_Stream (stream_is_drained DB) (py_store p) = (Ok True, p1)"
    and d: "on_stream Sensor_Data_Stream (stream_is_drained DB) p1 = (Ok True, store')"
    using dr by (auto simp: pair_is_drained_def and_then_def split: prod.splits sum.splits if_splits)
  have inv1: "pair_inv crc (p\<lparr>py_store := p1\<rparr>)"
    using drained_inv[OF inv e] .
  have same: "ps_stream Sensor_Data_Stream p1 = ps_stream Sensor_Data_Stream (py_store p)"
    using e by (rule on_streamE) (metis stream_id.distinct(2))
  obtain t1 where t1: "stream_is_drained DB (sy_stream (view_of Event_Stream p)) = (Ok True, t1)"
    using e by (rule on_streamE) (simp add: view_of_def)
  obtain t2 where t2: "stream_is_drained DB (sy_stream (view_of Sensor_Data_Stream (p\<lparr>py_store := p1\<rparr>))) = (Ok True, t2)"
    using d by (rule on_streamE) (simp add: view_of_def)
  show ?thesis
    using stream_drained[OF pair_invD[OF inv] t1] stream_drained[OF pair_invD[OF inv1] t2] same
    by (cases w) (simp_all add: view_of_def)
qed

end

end
