(* ===== verification/Pipeline_Theorems.thy ===== *)
theory Pipeline_Theorems
  imports Dispatch_Task_Correct Dispatch_Theorems
begin

text \<open>
  The properties of the dispatch pipeline on the flash database: what the dispatch store promises, carried
  over to the dispatch task, the upload queue and the network task by \<open>pipeline_refines\<close>.
\<close>

section \<open>Runs of the pipeline\<close>

text \<open>A run of the pipeline from the start of the task on a database \<open>d\<close>.\<close>

definition pipeline_run ::
  "('f, 'e) nor_flash \<Rightarrow> nat \<Rightarrow> (stream_id \<Rightarrow> circular) \<Rightarrow> (bytes \<Rightarrow> u32) \<Rightarrow> nat \<Rightarrow> nat \<Rightarrow> 'f block_device
   \<Rightarrow> 'f block_device dispatch_system \<Rightarrow> bool" where
  "pipeline_run F B circ crc len cap d s \<longleftrightarrow>
     (\<exists>p0. pair_initialize (database F B) (pair_new B d (circ Sensor_Data_Stream) (circ Event_Stream)) = (Ok (), p0)
       \<and> (\<forall>w. start_ok MAX_PEEKS (fragment_count B (circ w)) (fragments_per_block B (circ w))
            (fst (existing_range (ss_queue (ps_stream w p0)))) (q_write_index (ss_queue (ps_stream w p0))))
       \<and> dispatch_reachable (database F B) crc B len cap (dispatch_start p0) s)"

lemma pipeline_run_store:
  assumes "pipeline_run F B circ crc len cap d s"
  obtains p where "dispatch_run F B circ crc d p"
    and "tracked (on_the_way s) (set (dy_confirmed s)) (logged_map (dt_logged (dy_task s))) (dt_store (dy_task s)) p"
proof -
  from assms obtain p0 where
    "pair_initialize (database F B) (pair_new B d (circ Sensor_Data_Stream) (circ Event_Stream)) = (Ok (), p0)"
    "\<forall>w. start_ok MAX_PEEKS (fragment_count B (circ w)) (fragments_per_block B (circ w))
      (fst (existing_range (ss_queue (ps_stream w p0)))) (q_write_index (ss_queue (ps_stream w p0)))"
    "dispatch_reachable (database F B) crc B len cap (dispatch_start p0) s"
    unfolding pipeline_run_def by blast
  then show ?thesis
    using pipeline_refines[of "database F B" crc B len cap p0 s] that
    unfolding pipeline_def reaches_def dispatch_run_def by blast
qed

lemma pipeline_run_barrier: "pipeline_run F B circ crc len cap d s \<Longrightarrow> barrier_inv s"
  unfolding pipeline_run_def using barrier_reachable by blast

lemma run_pair_inv:
  assumes "dispatch_flash F mem circ" and "streams_ok mem B circ d" and "dispatch_run F B circ crc d p"
  shows "dispatch_pair.pair_inv circ (streams_ok mem B circ) (\<lambda>w d. circ_lookup B (circ w) (mem (bd_flash d))) crc p"
  unfolding dispatch_pair.pair_inv_def[OF dispatch_flash.pair_axioms[OF assms(1), of B]]
  using run_inv[OF assms] by blast

lemma run_durable:
  assumes "dispatch_flash F mem circ" and "streams_ok mem B circ d" and "dispatch_run F B circ crc d p"
    and "gh_stored (py_ghost p w) n = Some data"
  shows "n \<in> gh_confirmed (py_ghost p w) \<or> n \<in> gh_skipped (py_ghost p w)
    \<or> holds_item crc data (circ_lookup B (circ w) (mem (bd_flash (ps_db (py_store p)))) (of_nat n))"
  using stream_invD(6)[OF run_inv[OF assms(1-3), of w], of n data] assms(4) by (auto simp: view_of_def)

section \<open>Concrete runs\<close>

text \<open>
  The task starts on the empty database of the examples and finds nothing to send. In one run it then
  stores an event; in the other it is asked for a barrier.
\<close>

definition ex_idle_pair :: "in_memory_flash block_device stream_pair_store" where
  "ex_idle_pair = snd (peek_sensor_data ex_db ex_sum 40 ex_pair0)"

definition ex_event_pair :: "in_memory_flash block_device stream_pair_store" where
  "ex_event_pair = snd (store_event ex_db ex_sum 48 ex_event ex_idle_pair)"

lemma ex_empty_peeks:
  "peek_event ex_db ex_sum ex_pair0 = (Ok None, ex_pair0)"
  "peek_sensor_data ex_db ex_sum 40 ex_pair0 = (Ok None, ex_idle_pair)"
  "peek_event ex_db ex_sum ex_idle_pair = (Ok None, ex_idle_pair)"
  "peek_sensor_data ex_db ex_sum 40 ex_idle_pair = (Ok None, ex_idle_pair)"
  "pair_is_drained ex_db ex_idle_pair = (Ok True, ex_idle_pair)"
  "store_event ex_db ex_sum 48 ex_event ex_idle_pair = (Ok 0, ex_event_pair)"
  by code_simp+

lemma ex_idle_queues:
  "q_write_index (ss_queue (ps_sensor_data ex_pair0)) = 0" "q_granularity (ss_queue (ps_sensor_data ex_pair0)) = 1"
  "q_write_index (ss_queue (ps_events ex_pair0)) = 0" "q_granularity (ss_queue (ps_events ex_pair0)) = 1"
  "q_write_index (ss_queue (ps_sensor_data ex_idle_pair)) = 0" "q_granularity (ss_queue (ps_sensor_data ex_idle_pair)) = 1"
  "q_write_index (ss_queue (ps_events ex_idle_pair)) = 0" "q_granularity (ss_queue (ps_events ex_idle_pair)) = 1"
  by code_simp+

definition ex_task :: "in_memory_flash block_device stream_pair_store \<Rightarrow> bool \<Rightarrow> dispatch_signal list \<Rightarrow> in_memory_flash block_device dispatch_task" where
  "ex_task store active signals =
     \<lparr>dt_store = store, dt_pending_event = None, dt_pending_data = None, dt_barrier_active = active, dt_store_retry = False,
      dt_upload = [], dt_signals = signals, dt_logged = []\<rparr>"

definition ex_state ::
  "in_memory_flash block_device stream_pair_store \<Rightarrow> dispatch_pc \<Rightarrow> bool \<Rightarrow> bool \<Rightarrow> dispatch_signal list \<Rightarrow> in_memory_flash block_device dispatch_system" where
  "ex_state store pc requested active signals =
     \<lparr>dy_task = ex_task store active signals, dy_pc = pc, dy_network = [], dy_requested = requested, dy_confirmed = []\<rparr>"

abbreviation ex_reach :: "in_memory_flash block_device dispatch_system \<Rightarrow> bool" where
  "ex_reach \<equiv> dispatch_reachable ex_db ex_sum 48 40 4 (dispatch_start ex_pair0)"

abbreviation ex_steps :: "in_memory_flash block_device dispatch_system \<Rightarrow> in_memory_flash block_device dispatch_system \<Rightarrow> bool" where
  "ex_steps \<equiv> dispatch_step ex_db ex_sum 48 40 4"

lemma ex_numbers_left:
  assumes "store = ex_pair0 \<or> store = ex_idle_pair"
  shows "numbers_left (ex_state store pc requested active signals)"
  unfolding numbers_left_def
proof
  fix w show "no_wrap MAX_PEEKS (ss_queue (ps_stream w (dt_store (dy_task (ex_state store pc requested active signals)))))"
    using ex_idle_queues assms
    by (cases w) (auto simp: ex_state_def ex_task_def no_wrap_def)
qed

lemma ex_step:
  assumes "ex_reach (ex_state store pc requested active signals)" and "store = ex_pair0 \<or> store = ex_idle_pair"
    and "ex_steps (ex_state store pc requested active signals) s'"
  shows "ex_reach s'"
  using dispatch_reachable.step[OF assms(1) ex_numbers_left[OF assms(2)] assms(3)] .

text \<open>An iteration that finds nothing to send.\<close>

lemma ex_peek_steps:
  assumes "store = ex_pair0 \<or> store = ex_idle_pair"
  shows "ex_steps (ex_state store At_PeekEvent requested active signals) (ex_state store At_PeekData requested active signals)"
    and "ex_steps (ex_state store At_PeekData requested active signals)
      (ex_state ex_idle_pair (if active then At_Flush False else At_Select) requested active (if active then signals else signals @ [DispatchQueueEmpty]))"
proof -
  have "peek_event_round ex_db ex_sum True (ex_task store active signals) = ex_task store active signals"
    using assms ex_empty_peeks by (auto simp: peek_event_round_def ex_task_def is_pending_def)
  then show "ex_steps (ex_state store At_PeekEvent requested active signals) (ex_state store At_PeekData requested active signals)"
    using dispatch_step.peek_event[of "ex_state store At_PeekEvent requested active signals" ex_db ex_sum 48 40 4 True]
    by (simp add: ex_state_def)
  have "peek_data_round ex_db ex_sum 40 True (ex_task store active signals) = ex_task ex_idle_pair active signals"
    using assms ex_empty_peeks by (auto simp: peek_data_round_def ex_task_def is_pending_def)
  moreover have "after_peeks (ex_task ex_idle_pair active signals) =
    (if active then (At_Flush False, ex_task ex_idle_pair active signals) else (At_Select, ex_task ex_idle_pair active (signals @ [DispatchQueueEmpty])))"
    by (simp add: after_peeks_def nothing_pending_def is_pending_def ex_task_def send_signal_def)
  ultimately show "ex_steps (ex_state store At_PeekData requested active signals)
      (ex_state ex_idle_pair (if active then At_Flush False else At_Select) requested active (if active then signals else signals @ [DispatchQueueEmpty]))"
    using dispatch_step.peek_data[of "ex_state store At_PeekData requested active signals" ex_db ex_sum 40 True _ _ 48 4]
    by (cases active) (simp_all add: ex_state_def)
qed

lemma ex_iteration:
  assumes "ex_reach (ex_state store At_PeekEvent requested active signals)" and "store = ex_pair0 \<or> store = ex_idle_pair"
  shows "ex_reach (ex_state ex_idle_pair (if active then At_Flush False else At_Select) requested active
    (if active then signals else signals @ [DispatchQueueEmpty]))"
  using ex_step[OF ex_step[OF assms ex_peek_steps(1)[OF assms(2)]] assms(2) ex_peek_steps(2)[OF assms(2)]] .

abbreviation ex_idle :: "dispatch_pc \<Rightarrow> bool \<Rightarrow> bool \<Rightarrow> in_memory_flash block_device dispatch_system" where
  "ex_idle pc requested active \<equiv> ex_state ex_idle_pair pc requested active [DispatchQueueEmpty]"

lemma ex_start: "dispatch_start ex_pair0 = ex_state ex_pair0 At_PeekEvent False False []"
  by (simp add: dispatch_start_def ex_state_def ex_task_def dispatch_task_new_def)

lemma ex_idle_reach: "ex_reach (ex_idle At_Select False False)"
  using ex_iteration[of ex_pair0 False False "[]"] dispatch_reachable.init[of ex_db ex_sum 48 40 4 "dispatch_start ex_pair0"] by (simp add: ex_start)

definition ex_event_stored :: "in_memory_flash block_device dispatch_system" where
  "ex_event_stored = (ex_idle At_PeekEvent False False)
     \<lparr>dy_task := (ex_task ex_event_pair False [DispatchQueueEmpty])\<lparr>dt_logged := [(Event_Stream, 0, as_slice ex_event)]\<rparr>\<rparr>"

lemma ex_event_step: "ex_steps (ex_idle At_Select False False) ex_event_stored"
proof -
  have "process_event ex_db ex_sum 48 True False (Some ex_event) (ex_task ex_idle_pair False [DispatchQueueEmpty]) =
      (ex_task ex_event_pair False [DispatchQueueEmpty])\<lparr>dt_logged := [(Event_Stream, 0, as_slice ex_event)]\<rparr>"
    by (simp add: process_event_def ex_task_def ex_empty_peeks)
  then show ?thesis
    using dispatch_step.incoming_event[of "ex_idle At_Select False False" ex_db ex_sum 48 40 4 True False "Some ex_event"]
    by (simp add: ex_event_stored_def ex_state_def)
qed

lemma ex_event_stored_reach: "ex_reach ex_event_stored"
  using ex_step[OF ex_idle_reach _ ex_event_step] by simp

lemma ex_barrier_reach: "ex_reach (ex_idle At_Drained False True)"
proof -
  have "ex_steps (ex_idle At_Select False False) (ex_idle At_Select True False)"
    using dispatch_step.request[of ex_db ex_sum 48 40 4 "ex_idle At_Select False False"] by (simp add: ex_state_def)
  from ex_step[OF ex_idle_reach _ this] have 1: "ex_reach (ex_idle At_Select True False)" by simp
  have "ex_steps (ex_idle At_Select True False) (ex_idle At_PeekEvent False True)"
    using dispatch_step.barrier[of "ex_idle At_Select True False" ex_db ex_sum 48 40 4] by (simp add: ex_state_def ex_task_def)
  from ex_step[OF 1 _ this] have "ex_reach (ex_idle At_PeekEvent False True)" by simp
  from ex_iteration[OF this] have 2: "ex_reach (ex_idle (At_Flush False) False True)" by simp
  have "ex_steps (ex_idle (At_Flush False) False True) (ex_idle At_Drained False True)"
    using dispatch_step.flushed[of "ex_idle (At_Flush False) False True" False ex_db ex_sum 48 40 4] by (simp add: ex_state_def)
  from ex_step[OF 2 _ this] show ?thesis by simp
qed

definition ex_answered :: "in_memory_flash block_device dispatch_system" where
  "ex_answered = ex_state ex_idle_pair At_Select False False [DispatchQueueEmpty, DispatchDrained, DispatchQueueEmpty]"

lemma ex_drained_step: "ex_steps (ex_idle At_Drained False True) ex_answered"
proof -
  have "send_signal DispatchQueueEmpty (check_drained ex_db (ex_task ex_idle_pair True [DispatchQueueEmpty])) =
      ex_task ex_idle_pair False [DispatchQueueEmpty, DispatchDrained, DispatchQueueEmpty]"
    by (simp add: check_drained_def ex_task_def ex_empty_peeks send_signal_def)
  then show ?thesis
    using dispatch_step.drained[of "ex_idle At_Drained False True" ex_db ex_sum 48 40 4]
    by (simp add: ex_answered_def ex_state_def)
qed

lemma ex_pipeline_run:
  assumes "ex_reach s"
  shows "pipeline_run (in_memory 48) 48 ex_streams ex_sum 40 4 ex_device s"
  unfolding pipeline_run_def
proof (intro exI conjI allI)
  show "pair_initialize ex_db (pair_new 48 ex_device (ex_streams Sensor_Data_Stream) (ex_streams Event_Stream)) = (Ok (), ex_pair0)"
    by (rule ex_pair_init)
  fix w show "start_ok MAX_PEEKS (fragment_count 48 (ex_streams w)) (fragments_per_block 48 (ex_streams w))
      (fst (existing_range (ss_queue (ps_stream w ex_pair0)))) (q_write_index (ss_queue (ps_stream w ex_pair0)))"
    by (rule ex_start_ok_pair)
qed (rule assms)

section \<open>Properties\<close>

text \<open>
  C2. At-least-once delivery of the pipeline: whatever the flash, the pool, the network and the
  interleaving of the tasks do, every message whose store the dispatch task logged is confirmed by the
  network task, or still on flash with its length and checksum, or its stored copy was given up after a failed
  peek. The confirm handles that the store has given out are exactly those of the items that are pending, in the
  upload queue or with the network task: none is lost and none is duplicated, so an item that is dropped on
  the way is peeked again.
\<close>

theorem pipeline_at_least_once:
  assumes "dispatch_flash F mem circ" and "streams_ok mem B circ d" and "pipeline_run F B circ crc len cap d s"
  shows "\<exists>p. dispatch_run F B circ crc d p \<and> py_store p = dt_store (dy_task s)
    \<and> (\<forall>w. mset (gh_handles (py_ghost p w)) = image_mset snd (filter_mset (\<lambda>x. fst x = w) (on_the_way s)))
    \<and> (\<forall>w n data. logged_map (dt_logged (dy_task s)) w n = Some data \<longrightarrow>
          n \<in> confirmed_on (set (dy_confirmed s)) w \<or> n \<in> gh_skipped (py_ghost p w)
          \<or> holds_item crc data (circ_lookup B (circ w) (mem (bd_flash (ps_db (dt_store (dy_task s))))) (of_nat n)))"
proof -
  obtain p where p: "dispatch_run F B circ crc d p"
    "tracked (on_the_way s) (set (dy_confirmed s)) (logged_map (dt_logged (dy_task s))) (dt_store (dy_task s)) p"
    using assms(3) by (rule pipeline_run_store)
  show ?thesis
    using p run_durable[OF assms(1,2) p(1)] unfolding tracked_def by (intro exI[of _ p]) metis
qed

theorem pipeline_at_least_once_witness:
  "\<exists>p :: in_memory_flash block_device pair_system. py_store p = ex_event_pair \<and> (0 \<in> gh_skipped (py_ghost p Event_Stream) \<or>
     holds_item ex_sum (as_slice ex_event) (circ_lookup 48 (ex_streams Event_Stream) (memory (bd_flash (ps_db ex_event_pair))) 0))"
proof -
  have fields: "dt_store (dy_task ex_event_stored) = ex_event_pair" "dy_confirmed ex_event_stored = []"
    "dt_logged (dy_task ex_event_stored) = [(Event_Stream, 0, as_slice ex_event)]"
    by (simp_all add: ex_event_stored_def ex_state_def ex_task_def)
  obtain p :: "in_memory_flash block_device pair_system" where p: "py_store p = ex_event_pair"
    "\<forall>w n data. logged_map [(Event_Stream, 0, as_slice ex_event)] w n = Some data \<longrightarrow>
       n \<in> confirmed_on (set []) w \<or> n \<in> gh_skipped (py_ghost p w)
       \<or> holds_item ex_sum data (circ_lookup 48 (ex_streams w) (memory (bd_flash (ps_db ex_event_pair))) (of_nat n))"
    using pipeline_at_least_once[OF ex_flash.dispatch_flash_axioms ex_streams_ok ex_pipeline_run[OF ex_event_stored_reach]]
    unfolding fields by blast
  show ?thesis
    using p(1) p(2)[rule_format, of Event_Stream 0 "as_slice ex_event"]
    by (intro exI[of _ p]) (simp add: logged_map_def confirmed_on_def del: ex_streams.simps)
qed

text \<open>
  C17. The barrier answers only when everything is done: in every run, when the dispatch task sends
  \<open>DispatchDrained\<close>, a barrier was active, nothing is pending, no item that can be retried is in the upload queue
  or with the network task, and every message that the task stored and the store's queue has not released
  yet is confirmed by the network task, or was given up after a failed peek.
\<close>

theorem barrier_answer_sound:
  assumes "dispatch_flash F mem circ" and "streams_ok mem B circ d" and "pipeline_run F B circ crc len cap d s"
    and "dispatch_step (database F B) crc B len cap s s'"
    and "dt_signals (dy_task s') = dt_signals (dy_task s) @ DispatchDrained # xs"
  shows "dt_barrier_active (dy_task s) \<and> nothing_pending (dy_task s) \<and> on_the_way s = {#} \<and>
    (\<exists>p. dispatch_run F B circ crc d p \<and> py_store p = dt_store (dy_task s) \<and>
      (\<forall>w n data. logged_map (dt_logged (dy_task s)) w n = Some data \<longrightarrow>
         n < low (ss_queue (ps_stream w (dt_store (dy_task s)))) \<or>
         n \<in> confirmed_on (set (dy_confirmed s)) w \<or> n \<in> gh_skipped (py_ghost p w)))"
proof -
  obtain p where p: "dispatch_run F B circ crc d p"
    and t: "tracked (on_the_way s) (set (dy_confirmed s)) (logged_map (dt_logged (dy_task s))) (dt_store (dy_task s)) p"
    using assms(3) by (rule pipeline_run_store)
  obtain store' where pc: "dy_pc s = At_Drained" and dr: "pair_is_drained (database F B) (py_store p) = (Ok True, store')"
    using drained_signal[OF assms(4,5)] t by (auto simp: tracked_def)
  note D = dispatch_pair.pair_drained[OF dispatch_flash.pair_axioms[OF assms(1)] run_pair_inv[OF assms(1,2) p] dr]
  have "filter_mset (\<lambda>x. fst x = w) (on_the_way s) = {#}" for w
  proof -
    have "mset (gh_handles (py_ghost p w)) = image_mset snd (filter_mset (\<lambda>x. fst x = w) (on_the_way s))"
      using t by (simp add: tracked_def)
    then show ?thesis
      using D[of w] by (simp only: image_mset_is_empty_iff mset.simps(1) [symmetric]) (metis image_mset_is_empty_iff mset.simps(1))
  qed
  then have "on_the_way s = {#}"
    by (intro multiset_eqI) (metis (mono_tags, lifting) count_empty count_filter_mset)
  moreover have "n < low (ss_queue (ps_stream w (dt_store (dy_task s)))) \<or> n \<in> confirmed_on (set (dy_confirmed s)) w \<or> n \<in> gh_skipped (py_ghost p w)"
    if "logged_map (dt_logged (dy_task s)) w n = Some data" for w n data
  proof -
    have "sy_stored (view_of w p) n = Some data"
      using that t by (simp add: view_of_def tracked_def)
    from stream_invD(5)[OF run_inv[OF assms(1,2) p, of w] this] have "n < unat (q_write_index (ss_queue (ps_stream w (py_store p))))"
      by (simp add: view_of_def)
    then show ?thesis
      using D[of w] t by (auto simp: tracked_def subset_iff not_less)
  qed
  ultimately show ?thesis
    using pipeline_run_barrier[OF assms(3)] pc p t unfolding barrier_inv_def tracked_def by blast
qed

theorem barrier_answer_sound_witness:
  "on_the_way (ex_idle At_Drained False True) = {#} \<and> nothing_pending (dy_task (ex_idle At_Drained False True))"
  using barrier_answer_sound[OF ex_flash.dispatch_flash_axioms ex_streams_ok ex_pipeline_run[OF ex_barrier_reach] ex_drained_step, of "[DispatchQueueEmpty]"]
  by (simp add: ex_answered_def ex_state_def ex_task_def)

end
