(* ===== verification/Combined_Time.thy ===== *)
theory Combined_Time
  imports Prelude "HOL-Library.Signed_Division"
begin

text \<open>
  The clock of \<open>drivers/time.rs\<close>: \<open>CombinedTime\<close> interpolates an accurate clock of low resolution with a
  fast clock, whose offset and slope a \<open>TimeCorrection\<close> keeps. The readings of the two clocks are
  arguments of the operations: they come from drivers of the platform. The correction is held in a
  double buffer; a read returns the last published correction and \<open>try_write\<close> may be refused, which
  is the argument \<open>free\<close> below.

  An \<open>i64\<close> or \<open>i32\<close> is an \<open>int\<close> in its range: \<open>i64_wrap x\<close> and \<open>i32_wrap x\<close> wrap \<open>x\<close> as a release build does, and
  every sum and product of the source is wrapped. Division truncates toward zero (\<open>sdiv\<close>).
\<close>

section \<open>Signed machine integers\<close>

definition i64_wrap :: "int \<Rightarrow> int" where
  "i64_wrap x = signed_take_bit 63 x"

definition i32_wrap :: "int \<Rightarrow> int" where
  "i32_wrap x = signed_take_bit 31 x"

definition in_i64 :: "int \<Rightarrow> bool" where
  "in_i64 x \<longleftrightarrow> - (2 ^ 63) \<le> x \<and> x < 2 ^ 63"

definition in_i32 :: "int \<Rightarrow> bool" where
  "in_i32 x \<longleftrightarrow> - (2 ^ 31) \<le> x \<and> x < 2 ^ 31"

definition checked_mul :: "int \<Rightarrow> int \<Rightarrow> int option" where
  "checked_mul a b = (if in_i64 (a * b) then Some (a * b) else None)"

definition i32_try_from :: "int \<Rightarrow> int option" where
  "i32_try_from x = (if in_i32 x then Some x else None)"

definition i32_saturating_add :: "int \<Rightarrow> int \<Rightarrow> int" where
  "i32_saturating_add a b = max (- (2 ^ 31)) (min (2 ^ 31 - 1) (a + b))"

section \<open>Time correction\<close>

record time_correction =
  is_initialized :: bool
  tc_offset :: int
  last_corrected :: int
  tc_slope :: int
  tc_error :: int

definition time_correction_default :: time_correction where
  "time_correction_default =
     \<lparr>is_initialized = False, tc_offset = 0, last_corrected = 0, tc_slope = 0, tc_error = 0\<rparr>"

definition tc_initialized :: "int \<Rightarrow> int \<Rightarrow> time_correction" where
  "tc_initialized initial_time initial_offset =
     \<lparr>is_initialized = True, tc_offset = initial_offset, last_corrected = initial_time, tc_slope = 0, tc_error = 0\<rparr>"

definition UPDATE_INTERVAL_US :: int where
  "UPDATE_INTERVAL_US = 120000000"

definition UPDATE_INTERVAL_MIN_US :: int where
  "UPDATE_INTERVAL_MIN_US = 4000000"

definition SLOPE_RESOLUTION :: int where
  "SLOPE_RESOLUTION = 2 ^ 24"

definition correct :: "time_correction \<Rightarrow> int \<Rightarrow> int" where
  "correct c raw_time =
     (let now = i64_wrap (raw_time + tc_offset c) in
      if last_corrected c \<le> now then
        let t_since_last = i64_wrap (now - last_corrected c) in
        case checked_mul t_since_last (tc_slope c) of
          Some compensation \<Rightarrow> i64_wrap (now + compensation sdiv SLOPE_RESOLUTION)
        | None \<Rightarrow> now
      else now)"

definition should_update :: "time_correction \<Rightarrow> int \<Rightarrow> int \<Rightarrow> u32 \<Rightarrow> bool" where
  "should_update c ref_time offset offset_limit =
     (let t_now = i64_wrap (ref_time + offset);
          t_since_last = i64_wrap (t_now - last_corrected c) in
      \<not> is_initialized c \<or> uint offset_limit \<le> i64_wrap \<bar>offset\<bar> \<or> UPDATE_INTERVAL_MIN_US \<le> t_since_last)"

definition error_since_last :: "time_correction \<Rightarrow> int \<Rightarrow> int" where
  "error_since_last c error = i64_wrap (tc_error c - error)"

definition update_slope :: "time_correction \<Rightarrow> int \<Rightarrow> int \<Rightarrow> (unit, unit) result \<times> time_correction" where
  "update_slope c t_since_last error =
     (if 0 < t_since_last then
        case i32_try_from (i64_wrap (error_since_last c error * SLOPE_RESOLUTION) sdiv t_since_last) of
          None \<Rightarrow> (Err (), c)
        | Some slope_correction \<Rightarrow> (Ok (), c\<lparr>tc_slope := i32_saturating_add (tc_slope c) slope_correction\<rparr>)
      else (Ok (), c))"

definition tc_update :: "time_correction \<Rightarrow> int \<Rightarrow> int \<Rightarrow> u32 \<Rightarrow> time_correction" where
  "tc_update c ref_time offset offset_limit =
     (let t_now = i64_wrap (ref_time + offset);
          error = offset;
          t_since_last = i64_wrap (t_now - last_corrected c) in
      if \<not> is_initialized c then
        c\<lparr>tc_offset := i64_wrap (- error), last_corrected := t_now, is_initialized := True\<rparr>
      else if uint offset_limit \<le> i64_wrap \<bar>error\<bar> then
        c\<lparr>tc_offset := i64_wrap (tc_offset c - error), last_corrected := t_now, tc_error := 0\<rparr>
      else if UPDATE_INTERVAL_US < t_since_last \<or> uint (offset_limit div 4) \<le> \<bar>error_since_last c error\<bar> then
        let c' = snd (update_slope c t_since_last error) in
        c'\<lparr>last_corrected := t_now, tc_error := i32_wrap error\<rparr>
      else c)"

section \<open>The combined clock\<close>

datatype 'e clock_state =
    CS_Error 'e
  | LimitedResolution int "int option"
  | FastClock int int

record combined_time =
  has_fast_clock :: bool
  max_deviation :: u32
  time_corr :: time_correction

definition combined_time_new :: combined_time where
  "combined_time_new = \<lparr>has_fast_clock = False, max_deviation = 0, time_corr = time_correction_default\<rparr>"

text \<open>\<open>accurate\<close> and \<open>fast\<close> are what the two clocks return when they are read.\<close>

definition clock_status :: "combined_time \<Rightarrow> (int, 'e) result \<Rightarrow> (int, 'e) result \<Rightarrow> 'e clock_state" where
  "clock_status t accurate fast =
     (let fast = (if has_fast_clock t then (case fast of Ok x \<Rightarrow> Some x | Err _ \<Rightarrow> None) else None) in
      case (accurate, fast) of
        (Err error, _) \<Rightarrow> CS_Error error
      | (Ok accurate, None) \<Rightarrow> LimitedResolution accurate None
      | (Ok accurate, Some fast) \<Rightarrow>
          (let fast = correct (time_corr t) fast;
               delta = i64_wrap (fast - accurate);
               abs_delta = \<bar>delta\<bar> in
           if abs_delta < uint (max_deviation t) then FastClock accurate delta
           else LimitedResolution accurate (Some delta)))"

definition update_time_correction :: "bool \<Rightarrow> combined_time \<Rightarrow> int \<Rightarrow> int \<Rightarrow> combined_time" where
  "update_time_correction free t time offset =
     (if should_update (time_corr t) time offset (max_deviation t) then
        if free then t\<lparr>time_corr := tc_update (time_corr t) time offset (max_deviation t)\<rparr> else t
      else t)"

definition timestamp_us ::
  "bool \<Rightarrow> combined_time \<Rightarrow> (int, 'e) result \<Rightarrow> (int, 'e) result \<Rightarrow> (int, 'e) result \<times> combined_time" where
  "timestamp_us free t accurate fast =
     (case clock_status t accurate fast of
        CS_Error error \<Rightarrow> (Err error, t)
      | LimitedResolution time None \<Rightarrow> (Ok time, t)
      | LimitedResolution time (Some offset) \<Rightarrow> (Ok time, update_time_correction free t time offset)
      | FastClock time offset \<Rightarrow> (Ok (i64_wrap (time + offset)), update_time_correction free t time offset))"

definition with_high_resolution_clock ::
  "bool \<Rightarrow> combined_time \<Rightarrow> u32 \<Rightarrow> (int, 'e) result \<Rightarrow> (int, 'e) result \<Rightarrow> combined_time" where
  "with_high_resolution_clock free t max_deviation_us accurate fast =
     snd (timestamp_us free (t\<lparr>has_fast_clock := True, max_deviation := max_deviation_us\<rparr>) accurate fast)"

end
