(* ===== verification/Float32.thy ===== *)
theory Float32
  imports Prelude
begin

text \<open>
  The \<open>f32\<close> arithmetic that the clock estimator uses: binary32 numbers with rounding to nearest, ties to
  even. A finite number \<open>Fin m e\<close> has the value \<open>m * 2 ^ e\<close>. Zero has no sign: the only divisors of
  the source are a sum of squares and a positive constant. The conversions to integers truncate and
  saturate and map NaN to zero, as \<open>as\<close> does.
\<close>

datatype f32 = NaN | Infty bool | Fin int int

function bit_length :: "int \<Rightarrow> int" where
  "bit_length n = (if n \<le> 0 then 0 else 1 + bit_length (n div 2))"
  by pat_completeness auto
termination
  by (relation "measure nat") auto

declare bit_length.simps [simp del]

definition round_half_even :: "int \<Rightarrow> int \<Rightarrow> int" where
  "round_half_even n d =
     (let q = n div d; r = n mod d in
      if 2 * r < d \<or> (2 * r = d \<and> even q) then q else q + 1)"

text \<open>\<open>at_exponent n d s\<close> is \<open>n / (d * 2 ^ s)\<close> as a fraction.\<close>

definition at_exponent :: "int \<Rightarrow> int \<Rightarrow> int \<Rightarrow> int \<times> int" where
  "at_exponent n d s = (if s < 0 then (n * 2 ^ nat (- s), d) else (n, d * 2 ^ nat s))"

text \<open>The number nearest to \<open>n / d * 2 ^ e\<close>, for \<open>0 < d\<close>: 24 significant bits, exponents from -149 on.\<close>

definition f32_round :: "int \<Rightarrow> int \<Rightarrow> int \<Rightarrow> f32" where
  "f32_round n d e =
     (if n = 0 then Fin 0 0 else
      let k0 = max (- 149) (e + bit_length \<bar>n\<bar> - bit_length d - 24);
          (a0, b0) = at_exponent \<bar>n\<bar> d (k0 - e);
          k = (if 2 ^ 24 * b0 \<le> a0 then k0 + 1 else k0);
          (a, b) = at_exponent \<bar>n\<bar> d (k - e);
          m = round_half_even a b in
      if 104 < k \<or> (k = 104 \<and> 2 ^ 24 \<le> m) then Infty (n < 0) else Fin (sgn n * m) k)"

definition f32_of_int :: "int \<Rightarrow> f32" where
  "f32_of_int x = f32_round x 1 0"

fun f32_neg :: "f32 \<Rightarrow> f32" where
  "f32_neg NaN = NaN"
| "f32_neg (Infty s) = Infty (\<not> s)"
| "f32_neg (Fin m e) = Fin (- m) e"

fun f32_add :: "f32 \<Rightarrow> f32 \<Rightarrow> f32" where
  "f32_add NaN _ = NaN"
| "f32_add _ NaN = NaN"
| "f32_add (Infty s) (Infty t) = (if s = t then Infty s else NaN)"
| "f32_add (Infty s) (Fin _ _) = Infty s"
| "f32_add (Fin _ _) (Infty t) = Infty t"
| "f32_add (Fin m e) (Fin m' e') =
     (let k = min e e' in f32_round (m * 2 ^ nat (e - k) + m' * 2 ^ nat (e' - k)) 1 k)"

definition f32_sub :: "f32 \<Rightarrow> f32 \<Rightarrow> f32" where
  "f32_sub x y = f32_add x (f32_neg y)"

fun f32_mul :: "f32 \<Rightarrow> f32 \<Rightarrow> f32" where
  "f32_mul NaN _ = NaN"
| "f32_mul _ NaN = NaN"
| "f32_mul (Infty s) (Infty t) = Infty (s \<noteq> t)"
| "f32_mul (Infty s) (Fin m _) = (if m = 0 then NaN else Infty (s \<noteq> (m < 0)))"
| "f32_mul (Fin m _) (Infty t) = (if m = 0 then NaN else Infty ((m < 0) \<noteq> t))"
| "f32_mul (Fin m e) (Fin m' e') = f32_round (m * m') 1 (e + e')"

fun f32_div :: "f32 \<Rightarrow> f32 \<Rightarrow> f32" where
  "f32_div NaN _ = NaN"
| "f32_div _ NaN = NaN"
| "f32_div (Infty s) (Infty t) = NaN"
| "f32_div (Infty s) (Fin m _) = Infty (s \<noteq> (m < 0))"
| "f32_div (Fin _ _) (Infty _) = Fin 0 0"
| "f32_div (Fin m e) (Fin m' e') =
     (if m' = 0 then (if m = 0 then NaN else Infty (m < 0))
      else f32_round (m * sgn m') \<bar>m'\<bar> (e - e'))"

text \<open>The conversion to an integer type with the least value \<open>lo\<close> and the greatest value \<open>hi\<close>.\<close>

fun f32_to_int :: "int \<Rightarrow> int \<Rightarrow> f32 \<Rightarrow> int" where
  "f32_to_int lo hi NaN = 0"
| "f32_to_int lo hi (Infty s) = (if s then lo else hi)"
| "f32_to_int lo hi (Fin m e) =
     (let x = (if 0 \<le> e then m * 2 ^ nat e else sgn m * (\<bar>m\<bar> div 2 ^ nat (- e))) in max lo (min hi x))"

end
