(* ===== verification/Time_Adjust.thy ===== *)
theory Time_Adjust
  imports Combined_Time Float32
begin

text \<open>
  The estimator of the clock error of \<open>logic/time_adjust.rs\<close>: conversions between raw, temperature-corrected
  and drift-corrected time, and the drift estimate that is updated from the temperature and from the
  time of the server. Integers are \<open>int\<close> values in the range of their type, wrapped by \<open>i64_wrap\<close>, \<open>i32_wrap\<close> and
  \<open>u32_wrap\<close> where the source adds or subtracts; the average of two estimates and the correction of long
  intervals are computed with the \<open>f32\<close> operations of \<open>Float32\<close>. The newtypes around timestamps
  (\<open>RawMono\<close>, \<open>TempCorrectedMono\<close>, \<open>DriftCorrectedMono\<close>) are plain \<open>int\<close>, and one record stands for
  the four structures with an error and an uncertainty.
\<close>

section \<open>Constants and machine arithmetic\<close>

definition NETWORK_TIME_UPDATE_INTERVAL_MIN_US :: int where
  "NETWORK_TIME_UPDATE_INTERVAL_MIN_US = 60000000"

definition NETWORK_UNCERTAINTY_THRESHOLD_MIN_PPB :: int where
  "NETWORK_UNCERTAINTY_THRESHOLD_MIN_PPB = 1000"

definition ESTIMATE_MIN_INITIAL_UNCERTAINTY_PPB :: int where
  "ESTIMATE_MIN_INITIAL_UNCERTAINTY_PPB = 100"

definition CORRECTION_ERROR_MAX_PPB :: int where
  "CORRECTION_ERROR_MAX_PPB = 500000000"

definition u32_wrap :: "int \<Rightarrow> int" where
  "u32_wrap x = x mod 2 ^ 32"

definition i64_saturate :: "int \<Rightarrow> int" where
  "i64_saturate x = max (- (2 ^ 63)) (min (2 ^ 63 - 1) x)"

definition i32_saturating_sub :: "int \<Rightarrow> int \<Rightarrow> int" where
  "i32_saturating_sub a b = max (- (2 ^ 31)) (min (2 ^ 31 - 1) (a - b))"

definition clamp :: "int \<Rightarrow> int \<Rightarrow> int \<Rightarrow> int" where
  "clamp lo hi x = max lo (min hi x)"

section \<open>Estimates\<close>

record error_estimate =
  error_ppb :: int
  uncertainty_ppb :: int

definition estimate_zero :: error_estimate where
  "estimate_zero = \<lparr>error_ppb = 0, uncertainty_ppb = 0\<rparr>"

definition estimate_unknown :: error_estimate where
  "estimate_unknown = \<lparr>error_ppb = 0, uncertainty_ppb = CORRECTION_ERROR_MAX_PPB\<rparr>"

definition weighed_average :: "error_estimate \<Rightarrow> error_estimate \<Rightarrow> error_estimate" where
  "weighed_average self other =
     (let u = f32_of_int (uncertainty_ppb self);
          v = f32_of_int (uncertainty_ppb other);
          self_sq = f32_mul u u;
          other_sq = f32_mul v v;
          frac = f32_div other_sq (f32_add self_sq other_sq);
          other_frac = f32_sub (f32_of_int 1) frac;
          unc = f32_to_int 0 (2 ^ 32 - 1) (f32_add (f32_mul frac u) (f32_mul other_frac v));
          err = f32_to_int (- (2 ^ 31)) (2 ^ 31 - 1)
                  (f32_add (f32_mul frac (f32_of_int (error_ppb self))) (f32_mul other_frac (f32_of_int (error_ppb other)))) in
      \<lparr>error_ppb = clamp (- CORRECTION_ERROR_MAX_PPB) CORRECTION_ERROR_MAX_PPB err,
       uncertainty_ppb = min unc CORRECTION_ERROR_MAX_PPB\<rparr>)"

text \<open>\<open>ClockCalibration\<close> has the fields of an estimate under other names, and both conversions copy them.\<close>

definition is_significantly_different :: "error_estimate \<Rightarrow> error_estimate \<Rightarrow> bool" where
  "is_significantly_different self other \<longleftrightarrow>
     ESTIMATE_MIN_INITIAL_UNCERTAINTY_PPB < \<bar>uncertainty_ppb self - uncertainty_ppb other\<bar>
     \<or> ESTIMATE_MIN_INITIAL_UNCERTAINTY_PPB < \<bar>i32_saturating_sub (error_ppb self) (error_ppb other)\<bar>"

section \<open>Slopes\<close>

definition slope_correct :: "int \<Rightarrow> int \<Rightarrow> int" where
  "slope_correct dt correction_ppb =
     (if i64_saturate \<bar>dt\<bar> < 2 ^ 31 - 1 then i64_wrap (dt * correction_ppb) sdiv 1000000000
      else f32_to_int (- (2 ^ 63)) (2 ^ 63 - 1)
             (f32_mul (f32_of_int dt) (f32_div (f32_of_int correction_ppb) (f32_of_int 1000000000))))"

definition forward_slope_convert :: "int \<Rightarrow> int \<Rightarrow> int" where
  "forward_slope_convert dt correction_ppb = i64_wrap (dt + slope_correct dt correction_ppb)"

definition MAX_ITERATIONS :: nat where
  "MAX_ITERATIONS = 16"

text \<open>The loop of \<open>reverse_slope_convert\<close>: the first argument counts the rounds left.\<close>

fun reverse_rounds :: "nat \<Rightarrow> int \<Rightarrow> int \<Rightarrow> int \<Rightarrow> int" where
  "reverse_rounds 0 correction_ppb delta_adj dt = dt"
| "reverse_rounds (Suc n) correction_ppb delta_adj dt =
     (let delta_adj = slope_correct delta_adj correction_ppb;
          dt = i64_wrap (dt + delta_adj) in
      if delta_adj = 0 then dt else reverse_rounds n correction_ppb delta_adj dt)"

definition reverse_slope_convert :: "int \<Rightarrow> int \<Rightarrow> int" where
  "reverse_slope_convert dt correction_ppb = reverse_rounds MAX_ITERATIONS correction_ppb dt dt"

section \<open>The drift estimate\<close>

record network_time =
  timestamp_server_us :: int
  latency_estimate_us :: int

record network_ref =
  t_network :: network_time
  t_local :: int
  initial_estimate :: error_estimate
  max_temp_uncertainty_ppb :: int

record clock_drift_estimate =
  estimate_pre_temp :: error_estimate
  estimate_at :: "(int \<times> int) option"
  temp :: "(int \<times> int \<times> error_estimate) option"
  network :: "network_ref option"

datatype network_est_error =
    NoPreviousData
  | PreviousDataTooRecent
  | UncertaintyTooLarge
  | UncertaintyNotImprovedYet
  | ErrorTooLarge

definition drift_new :: "error_estimate \<Rightarrow> clock_drift_estimate" where
  "drift_new initial =
     \<lparr>estimate_pre_temp =
        (if uncertainty_ppb initial < ESTIMATE_MIN_INITIAL_UNCERTAINTY_PPB
         then initial\<lparr>uncertainty_ppb := ESTIMATE_MIN_INITIAL_UNCERTAINTY_PPB\<rparr> else initial),
      estimate_at = None, temp = None, network = None\<rparr>"

definition drift_total :: "clock_drift_estimate \<Rightarrow> error_estimate" where
  "drift_total c =
     (let temp_error = (case temp c of Some (_, _, estimate) \<Rightarrow> estimate | None \<Rightarrow> estimate_zero);
          drift_error = estimate_pre_temp c in
      \<lparr>error_ppb = clamp (- CORRECTION_ERROR_MAX_PPB) CORRECTION_ERROR_MAX_PPB
                     (i32_wrap (error_ppb temp_error + error_ppb drift_error)),
       uncertainty_ppb = min (u32_wrap (uncertainty_ppb temp_error + uncertainty_ppb drift_error)) CORRECTION_ERROR_MAX_PPB\<rparr>)"

definition temp_uncertainty :: "error_estimate option \<Rightarrow> error_estimate \<Rightarrow> int" where
  "temp_uncertainty previous temp_adjust =
     (case previous of
        None \<Rightarrow> uncertainty_ppb temp_adjust
      | Some prev \<Rightarrow>
          (let prev_min = i32_wrap (error_ppb prev - i32_wrap (uncertainty_ppb prev));
               prev_max = i32_wrap (error_ppb prev + i32_wrap (uncertainty_ppb prev));
               new_min = i32_wrap (error_ppb temp_adjust - i32_wrap (uncertainty_ppb temp_adjust));
               new_max = i32_wrap (error_ppb temp_adjust + i32_wrap (uncertainty_ppb temp_adjust));
               err_min = min prev_min new_min;
               err_max = max prev_max new_max in
           \<bar>i32_wrap (err_max - err_min)\<bar>))"

definition update_temp_correction ::
  "clock_drift_estimate \<Rightarrow> int \<Rightarrow> int \<Rightarrow> error_estimate \<Rightarrow> error_estimate \<times> clock_drift_estimate" where
  "update_temp_correction c t_raw t_temp temp_adjust =
     (let network' =
        (case network c of
           None \<Rightarrow> None
         | Some n \<Rightarrow> Some
             (if t_local n < t_temp then
                let uncertainty = temp_uncertainty (map_option (\<lambda>(_, _, prev). prev) (temp c)) temp_adjust in
                if max_temp_uncertainty_ppb n < uncertainty then n\<lparr>max_temp_uncertainty_ppb := uncertainty\<rparr> else n
              else n));
          c' = c\<lparr>network := network', temp := Some (t_raw, t_temp, temp_adjust)\<rparr> in
      (drift_total c', c'))"

definition update_network_time ::
  "clock_drift_estimate \<Rightarrow> int \<Rightarrow> int \<Rightarrow> network_time \<Rightarrow> (unit, network_est_error) result \<times> clock_drift_estimate" where
  "update_network_time c t_temp t_drift nt =
     (case network c of
        None \<Rightarrow>
          (Err NoPreviousData,
           c\<lparr>network := Some \<lparr>t_network = nt, t_local = t_temp, initial_estimate = estimate_pre_temp c,
               max_temp_uncertainty_ppb = (case temp c of Some (_, _, est) \<Rightarrow> uncertainty_ppb est | None \<Rightarrow> 0)\<rparr>\<rparr>)
      | Some prev \<Rightarrow>
          (let local_dt = i64_saturate (t_temp - t_local prev);
               network_dt = i64_saturate (timestamp_server_us nt - timestamp_server_us (t_network prev));
               max_latency_error = max (latency_estimate_us nt) (latency_estimate_us (t_network prev));
               network_dt_minimum = i64_saturate (network_dt - max_latency_error) in
           if min network_dt_minimum local_dt \<le> NETWORK_TIME_UPDATE_INTERVAL_MIN_US then (Err PreviousDataTooRecent, c)
           else
             let unc = i64_wrap (max_latency_error * 1000000000) sdiv network_dt_minimum in
             if CORRECTION_ERROR_MAX_PPB \<le> unc then (Err UncertaintyTooLarge, c)
             else
               let drift = i64_wrap (local_dt - network_dt);
                   err = i64_saturate (drift * 1000000000) sdiv network_dt in
               if 2 ^ 31 - 1 \<le> drift \<or> CORRECTION_ERROR_MAX_PPB \<le> err then
                 (Err ErrorTooLarge,
                  c\<lparr>network := Some \<lparr>t_network = nt, t_local = t_temp, initial_estimate = estimate_pre_temp c,
                      max_temp_uncertainty_ppb = max_temp_uncertainty_ppb prev\<rparr>\<rparr>)
               else
                 let network_estimate = \<lparr>error_ppb = i32_wrap err, uncertainty_ppb = u32_wrap (unc + max_temp_uncertainty_ppb prev)\<rparr>;
                     c' = c\<lparr>estimate_pre_temp := weighed_average (initial_estimate prev) network_estimate,
                            estimate_at := Some (t_temp, t_drift)\<rparr> in
                 (Ok (),
                  if unc < min (max_temp_uncertainty_ppb prev) NETWORK_UNCERTAINTY_THRESHOLD_MIN_PPB then
                    c'\<lparr>network := Some \<lparr>t_network = nt, t_local = t_temp, initial_estimate = estimate_pre_temp c',
                         max_temp_uncertainty_ppb = max_temp_uncertainty_ppb prev\<rparr>\<rparr>
                  else c')))"

section \<open>Conversions between time scales\<close>

definition convert_raw_to_temp_corrected :: "clock_drift_estimate \<Rightarrow> int \<Rightarrow> int" where
  "convert_raw_to_temp_corrected c raw =
     (case temp c of
        None \<Rightarrow> raw
      | Some (t_raw_offset, t_corr_offset, est) \<Rightarrow>
          i64_wrap (t_corr_offset + reverse_slope_convert (i64_wrap (raw - t_raw_offset)) (i32_wrap (- error_ppb est))))"

definition convert_temp_corrected_to_raw :: "clock_drift_estimate \<Rightarrow> int \<Rightarrow> int" where
  "convert_temp_corrected_to_raw c temp_corr =
     (case temp c of
        None \<Rightarrow> temp_corr
      | Some (t_raw_offset, t_corr_offset, est) \<Rightarrow>
          i64_wrap (t_raw_offset + forward_slope_convert (i64_wrap (temp_corr - t_corr_offset)) (error_ppb est)))"

definition convert_temp_corrected_to_drift_corrected :: "clock_drift_estimate \<Rightarrow> int \<Rightarrow> int \<times> clock_drift_estimate" where
  "convert_temp_corrected_to_drift_corrected c temp_corr =
     (case estimate_at c of
        None \<Rightarrow> (temp_corr, c\<lparr>estimate_at := Some (temp_corr, temp_corr)\<rparr>)
      | Some (temp_corr_offset, drift_corr_offset) \<Rightarrow>
          (i64_wrap (drift_corr_offset
                + reverse_slope_convert (i64_wrap (temp_corr - temp_corr_offset)) (i32_wrap (- error_ppb (estimate_pre_temp c)))), c))"

definition convert_drift_corrected_to_temp_corrected :: "clock_drift_estimate \<Rightarrow> int \<Rightarrow> int \<times> clock_drift_estimate" where
  "convert_drift_corrected_to_temp_corrected c drift_corr =
     (case estimate_at c of
        None \<Rightarrow> (drift_corr, c\<lparr>estimate_at := Some (drift_corr, drift_corr)\<rparr>)
      | Some (temp_corr_offset, drift_corr_offset) \<Rightarrow>
          (i64_wrap (temp_corr_offset
                + forward_slope_convert (i64_wrap (drift_corr - drift_corr_offset)) (error_ppb (estimate_pre_temp c))), c))"

section \<open>The clock error estimate\<close>

datatype timestamp =
    RawMono int
  | TempCorrectedMono int
  | DriftCorrectedMono int
  | OffsetAdjusted int

text \<open>\<open>ClockErrorEstimate\<close> has the drift estimate as its only field.\<close>

fun convert_to_temp_corrected :: "clock_drift_estimate \<Rightarrow> timestamp \<Rightarrow> (int \<times> int) \<times> clock_drift_estimate" where
  "convert_to_temp_corrected c (RawMono raw) = ((raw, convert_raw_to_temp_corrected c raw), c)"
| "convert_to_temp_corrected c (TempCorrectedMono temp_corr) = ((convert_temp_corrected_to_raw c temp_corr, temp_corr), c)"
| "convert_to_temp_corrected c (DriftCorrectedMono drift_corr) =
     (let (temp_corr, c') = convert_drift_corrected_to_temp_corrected c drift_corr in
      ((convert_temp_corrected_to_raw c' temp_corr, temp_corr), c'))"
| "convert_to_temp_corrected c (OffsetAdjusted time_offset_adj) =
     (let (temp_corr, c') = convert_drift_corrected_to_temp_corrected c time_offset_adj in
      ((convert_temp_corrected_to_raw c' temp_corr, temp_corr), c'))"

fun convert_to_drift_corrected :: "clock_drift_estimate \<Rightarrow> timestamp \<Rightarrow> (int \<times> int) \<times> clock_drift_estimate" where
  "convert_to_drift_corrected c (RawMono raw) =
     (let temp_corr = convert_raw_to_temp_corrected c raw;
          (drift_corr, c') = convert_temp_corrected_to_drift_corrected c temp_corr in
      ((temp_corr, drift_corr), c'))"
| "convert_to_drift_corrected c (TempCorrectedMono temp_corr) =
     (let (drift_corr, c') = convert_temp_corrected_to_drift_corrected c temp_corr in
      ((temp_corr, drift_corr), c'))"
| "convert_to_drift_corrected c (DriftCorrectedMono drift_corr) =
     (let (temp_corr, c') = convert_drift_corrected_to_temp_corrected c drift_corr in
      ((temp_corr, drift_corr), c'))"
| "convert_to_drift_corrected c (OffsetAdjusted time_offset_adj) =
     (let (temp_corr, c') = convert_drift_corrected_to_temp_corrected c time_offset_adj in
      ((temp_corr, time_offset_adj), c'))"

definition clock_update_temp ::
  "clock_drift_estimate \<Rightarrow> timestamp \<Rightarrow> error_estimate \<Rightarrow> error_estimate \<times> clock_drift_estimate" where
  "clock_update_temp c ts temp_adjust =
     (let ((t_raw, t_temp), c') = convert_to_temp_corrected c ts in
      update_temp_correction c' t_raw t_temp temp_adjust)"

definition clock_update_network ::
  "clock_drift_estimate \<Rightarrow> timestamp \<Rightarrow> network_time \<Rightarrow> (unit, network_est_error) result \<times> clock_drift_estimate" where
  "clock_update_network c ts nt =
     (let ((t_temp, t_drift), c') = convert_to_drift_corrected c ts in
      update_network_time c' t_temp t_drift nt)"

end
