(* ===== verification/Time_Theorems.thy ===== *)
theory Time_Theorems
  imports Combined_Time
begin

text \<open>
  What the combined clock guarantees: its fields stay within their machine types, the time it returns
  stays within the allowed deviation of the accurate clock, it is monotone while the correction does
  not change, and what an update of the correction does to the time.
\<close>

section \<open>Wrapping\<close>

lemma i64_id [simp]: "in_i64 x \<Longrightarrow> i64_wrap x = x"
  by (simp add: i64_wrap_def in_i64_def signed_take_bit_int_eq_self_iff)

lemma in_i64_abs: "\<bar>x\<bar> < 2 ^ 63 \<Longrightarrow> in_i64 x"
  by (simp add: in_i64_def abs_less_iff)

lemma in_i64_i64 [simp]: "in_i64 (i64_wrap x)"
  using signed_take_bit_int_greater_eq_minus_exp [of 63 x] signed_take_bit_int_less_exp [of 63 x]
  by (simp add: i64_wrap_def in_i64_def)

lemma in_i32_i32 [simp]: "in_i32 (i32_wrap x)"
  using signed_take_bit_int_greater_eq_minus_exp [of 31 x] signed_take_bit_int_less_exp [of 31 x]
  by (simp add: i32_wrap_def in_i32_def)

lemma i64_add_i64_diff [simp]: "i64_wrap (a + i64_wrap (b - a)) = i64_wrap b"
proof -
  have "take_bit 64 (signed_take_bit 63 (b - a)) = take_bit 64 (b - a)"
    by (simp add: take_bit_signed_take_bit)
  then have "take_bit 64 (a + signed_take_bit 63 (b - a)) = take_bit 64 b"
    by (metis take_bit_add add_diff_cancel_left' diff_add_cancel add.commute)
  then show ?thesis
    by (simp add: i64_wrap_def signed_take_bit_eq_iff_take_bit_eq)
qed

lemma in_i32_saturating_add [simp]: "in_i32 (i32_saturating_add a b)"
  by (auto simp: i32_saturating_add_def in_i32_def)

lemma in_i64_correct [simp]: "in_i64 (correct c raw)"
  by (auto simp: correct_def Let_def split: option.splits)

section \<open>Histories of calls\<close>

text \<open>The fields fit the integer types of the code.\<close>

definition tc_in_range :: "time_correction \<Rightarrow> bool" where
  "tc_in_range c \<longleftrightarrow> in_i64 (tc_offset c) \<and> in_i64 (last_corrected c) \<and> in_i32 (tc_slope c) \<and> in_i32 (tc_error c)"

lemma in_range_0 [simp]: "in_i64 0" "in_i32 0"
  by (simp_all add: in_i64_def in_i32_def)

text \<open>A history of the clock: each call finds the correction free or being written by another context, and reads both clocks.\<close>

fun clock_calls :: "combined_time \<Rightarrow> (bool \<times> (int, 'e) result \<times> (int, 'e) result) list \<Rightarrow> combined_time" where
  "clock_calls t [] = t"
| "clock_calls t ((free, accurate, fast) # cs) = clock_calls (snd (timestamp_us free t accurate fast)) cs"

lemma timestamp_us_config [simp]:
  "max_deviation (snd (timestamp_us free t accurate fast)) = max_deviation t"
  "has_fast_clock (snd (timestamp_us free t accurate fast)) = has_fast_clock t"
  by (auto simp: timestamp_us_def update_time_correction_def split: clock_state.splits option.splits)

lemma clock_calls_config [simp]:
  "max_deviation (clock_calls t cs) = max_deviation t" "has_fast_clock (clock_calls t cs) = has_fast_clock t"
  by (induction t cs rule: clock_calls.induct) auto

section \<open>Distance from the accurate clock\<close>

lemma small_i64_diff:
  assumes "in_i64 x" and "\<bar>a\<bar> \<le> 2 ^ 62" and "\<bar>i64_wrap (x - a)\<bar> < 2 ^ 32"
  shows "i64_wrap (x - a) = x - a"
proof -
  define d where "d = i64_wrap (x - a)"
  have "\<bar>a + d\<bar> < 2 ^ 63"
    using assms(2,3) unfolding d_def by simp
  then have "in_i64 (a + d)"
    by (rule in_i64_abs)
  then have "i64_wrap (a + d) = a + d"
    by simp
  moreover have "i64_wrap (a + d) = x"
    using assms(1) by (simp add: d_def)
  ultimately show ?thesis
    unfolding d_def by simp
qed

lemma uint_u32_less: "uint (w :: u32) < 2 ^ 32"
  using uint_bounded [of w] by simp

lemma timestamp_us_near:
  assumes "\<bar>a\<bar> \<le> 2 ^ 62"
  obtains x where "fst (timestamp_us free t (Ok a) fast) = Ok x"
    and "\<bar>x - a\<bar> < max 1 (uint (max_deviation t))"
proof (cases "clock_status t (Ok a) fast")
  case (FastClock time d)
  then obtain f where f: "time = a" "d = i64_wrap (correct (time_corr t) f - a)" "\<bar>d\<bar> < uint (max_deviation t)"
    by (auto simp: clock_status_def Let_def split: if_splits sum.splits option.splits)
  then have "d = correct (time_corr t) f - a"
    using small_i64_diff [of "correct (time_corr t) f" a] assms uint_u32_less [of "max_deviation t"] by simp
  with f FastClock that [of "a + d"] show ?thesis
    by (simp add: timestamp_us_def)
next
  case (LimitedResolution time d)
  then have "time = a"
    by (auto simp: clock_status_def Let_def split: if_splits sum.splits option.splits)
  with LimitedResolution that [of a] show ?thesis
    by (auto simp: timestamp_us_def split: option.splits)
qed (auto simp: clock_status_def Let_def split: if_splits sum.splits option.splits)

text \<open>
  C22. Whenever the accurate clock can be read, \<open>timestamp_us\<close> returns a time, and it is the accurate time
  or differs from it by less than \<open>max_deviation\<close>, whatever the fast clock reads and whatever the
  correction is. So over any history of calls in between, a later timestamp is behind an earlier one
  by less than twice the deviation, and not at all when there is no fast clock to interpolate with
  (\<open>max_deviation = 0\<close>), as long as the accurate clock does not go back.
\<close>

theorem timestamps_track_accurate_clock:
  fixes t :: combined_time and fast1 fast2 :: "(int, 'e) result" and free1 free2 :: bool
    and calls :: "(bool \<times> (int, 'e) result \<times> (int, 'e) result) list"
  assumes "\<bar>a1\<bar> \<le> 2 ^ 62" and "\<bar>a2\<bar> \<le> 2 ^ 62" and "a1 \<le> a2"
  defines "t1 \<equiv> timestamp_us free1 t (Ok a1) fast1"
  defines "t2 \<equiv> timestamp_us free2 (clock_calls (snd t1) calls) (Ok a2) fast2"
  shows "\<exists>x1 x2. fst t1 = Ok x1 \<and> fst t2 = Ok x2
    \<and> \<bar>x1 - a1\<bar> < max 1 (uint (max_deviation t)) \<and> \<bar>x2 - a2\<bar> < max 1 (uint (max_deviation t))
    \<and> x1 - x2 \<le> 2 * max 1 (uint (max_deviation t)) - 2"
proof -
  obtain x1 where x1: "fst t1 = Ok x1" "\<bar>x1 - a1\<bar> < max 1 (uint (max_deviation t))"
    unfolding t1_def using timestamp_us_near [OF assms(1)] by metis
  obtain x2 where x2: "fst t2 = Ok x2" "\<bar>x2 - a2\<bar> < max 1 (uint (max_deviation t))"
    unfolding t2_def t1_def
    using timestamp_us_near [OF assms(2), of free2 "clock_calls (snd (timestamp_us free1 t (Ok a1) fast1)) calls" fast2]
    by (metis clock_calls_config(1) timestamp_us_config(1))
  have "x1 - x2 \<le> 2 * max 1 (uint (max_deviation t)) - 2"
    using x1(2) x2(2) \<open>a1 \<le> a2\<close> by linarith
  with x1 x2 show ?thesis
    by blast
qed

text \<open>A clock 100 ppm slow, read once at the start and once after 130 s, and the accurate clock read again 1 ms later.\<close>

theorem timestamps_track_accurate_clock_witness:
  "\<exists>x. fst (timestamp_us True (clock_calls (snd (timestamp_us True (combined_time_new\<lparr>has_fast_clock := True, max_deviation := 1000000\<rparr>)
       (Ok 0 :: (int, unit) result) (Ok 0))) [(True, Ok 130000000 :: (int, unit) result, Ok 129987000)]) (Ok 130001000 :: (int, unit) result) (Ok 129988000)) = Ok x
     \<and> \<bar>x - 130001000\<bar> < 1000000"
proof -
  have "max 1 (uint (1000000 :: u32)) = 1000000"
    by simp
  then show ?thesis
    using timestamps_track_accurate_clock [of 0 130001000 True "combined_time_new\<lparr>has_fast_clock := True, max_deviation := 1000000\<rparr>"
        "Ok 0" True "[(True, Ok 130000000, Ok 129987000)]" "Ok 129988000 :: (int, unit) result"]
    by (auto simp del: clock_calls.simps)
qed

section \<open>Monotone between updates\<close>

lemma sdiv_nonneg:
  fixes x R :: int
  assumes "0 < R"
  shows "0 \<le> x \<Longrightarrow> x sdiv R = x div R" and "0 \<le> x \<Longrightarrow> (- x) sdiv R = - (x div R)"
  using assms by (auto simp: signed_divide_int_def sgn_if)

lemma abs_sdiv: "0 < R \<Longrightarrow> \<bar>x sdiv R\<bar> = \<bar>x\<bar> div (R :: int)"
  by (auto simp: signed_divide_int_def sgn_if pos_imp_zdiv_nonneg_iff)

lemma slope_mono:
  fixes d e s R :: int
  assumes "0 \<le> d" and "d \<le> e" and "0 < R" and "- R \<le> s"
  shows "d + (d * s) sdiv R \<le> e + (e * s) sdiv R"
proof (cases "0 \<le> s")
  case True
  then have "(d * s) div R \<le> (e * s) div R"
    using assms by (intro zdiv_mono1 mult_right_mono) auto
  with True assms show ?thesis
    by (simp add: sdiv_nonneg)
next
  case False
  define u where "u = - s"
  have u: "0 < u" "u \<le> R" and s: "s = - u"
    using False assms by (auto simp: u_def)
  have sd: "(x * s) sdiv R = - ((x * u) div R)" if "0 \<le> x" for x
    using sdiv_nonneg(2) [OF \<open>0 < R\<close>, of "x * u"] that u by (simp add: s)
  have "e * u \<le> d * u + (e - d) * R"
  proof -
    have "(e - d) * u \<le> (e - d) * R"
      using u assms by (intro mult_left_mono) auto
    then show ?thesis
      by (simp add: algebra_simps)
  qed
  then have "(e * u) div R \<le> (d * u + (e - d) * R) div R"
    using \<open>0 < R\<close> by (intro zdiv_mono1) auto
  also have "\<dots> = (d * u) div R + (e - d)"
    using \<open>0 < R\<close> by simp
  finally show ?thesis
    using assms sd [of d] sd [of e] by simp
qed

lemma correct_in_bounds:
  assumes "\<bar>raw + tc_offset c\<bar> \<le> 2 ^ 61" and "\<bar>last_corrected c\<bar> \<le> 2 ^ 61" and "\<bar>tc_slope c\<bar> \<le> SLOPE_RESOLUTION"
    and "in_i64 ((raw + tc_offset c - last_corrected c) * tc_slope c)"
  shows "correct c raw = (if last_corrected c \<le> raw + tc_offset c
    then raw + tc_offset c + ((raw + tc_offset c - last_corrected c) * tc_slope c) sdiv SLOPE_RESOLUTION
    else raw + tc_offset c)"
proof -
  define b where "b = raw + tc_offset c"
  define d where "d = b - last_corrected c"
  have b: "i64_wrap b = b" "i64_wrap d = d" and d: "\<bar>d\<bar> \<le> 2 ^ 62"
    using assms(1,2) by (auto simp: b_def d_def in_i64_def intro!: i64_id)
  have "\<bar>(d * tc_slope c) sdiv SLOPE_RESOLUTION\<bar> \<le> \<bar>d\<bar>"
  proof -
    have "\<bar>d * tc_slope c\<bar> div SLOPE_RESOLUTION \<le> (\<bar>d\<bar> * SLOPE_RESOLUTION) div SLOPE_RESOLUTION"
      using assms(3) by (intro zdiv_mono1) (auto simp: abs_mult SLOPE_RESOLUTION_def intro!: mult_left_mono)
    moreover have "\<bar>(d * tc_slope c) sdiv SLOPE_RESOLUTION\<bar> = \<bar>d * tc_slope c\<bar> div SLOPE_RESOLUTION"
      by (rule abs_sdiv) (simp add: SLOPE_RESOLUTION_def)
    ultimately show ?thesis
      by (simp add: SLOPE_RESOLUTION_def)
  qed
  then have "in_i64 (b + (d * tc_slope c) sdiv SLOPE_RESOLUTION)"
    using d assms(1) by (auto simp: in_i64_def b_def abs_le_iff)
  with b show ?thesis
    using assms(4) by (simp add: correct_def Let_def checked_mul_def flip: b_def d_def)
qed



section \<open>Updates of the correction\<close>

text \<open>An update that has to jump sets the time to that of the reference, when no slope was being compensated.\<close>

lemma jump_restores_reference:
  assumes "tc_slope c = 0" and "is_initialized c \<longrightarrow> uint limit \<le> i64_wrap \<bar>correct c raw - ref\<bar>"
    and "\<not> is_initialized c \<longrightarrow> tc_offset c = 0"
    and "in_i64 (raw + tc_offset c)" and "in_i64 (tc_offset c - (raw + tc_offset c - ref))" and "in_i64 ref"
  shows "correct (tc_update c ref (correct c raw - ref) limit) raw = ref"
proof -
  have "correct c' x = i64_wrap (x + tc_offset c')" if "tc_slope c' = 0" for c' x
    using that by (simp add: correct_def checked_mul_def Let_def)
  with assms show ?thesis
    by (auto simp: tc_update_def Let_def)
qed

text \<open>
  C23. What a slope update does to the time. The new correction starts at the corrected time, but the
  compensation accumulated since the last update is not added to the offset, so it is lost: the next
  readings are exactly that much smaller, and the clock steps back by the whole compensation, although
  the code keeps the offset to avoid a discontinuity.
\<close>

theorem slope_update_steps_back:
  assumes "is_initialized c" and "tc_in_range c" and "in_i64 (raw + tc_offset c)" and "in_i64 ref"
    and gain: "gain = correct c raw - (raw + tc_offset c)"
    and err: "err = correct c raw - ref"
    and small: "i64_wrap \<bar>err\<bar> < uint limit"
    and due: "UPDATE_INTERVAL_US < i64_wrap (correct c raw - last_corrected c) \<or> uint (limit div 4) \<le> \<bar>error_since_last c err\<bar>"
    and k: "0 \<le> k" "k < gain"
  shows "correct (tc_update c ref err limit) (raw + k) = correct c raw - gain + k
    \<and> correct (tc_update c ref err limit) (raw + k) < correct c raw"
proof -
  define c' where "c' = tc_update c ref err limit"
  have now: "i64_wrap (ref + err) = correct c raw"
    by (simp add: err)
  have c': "last_corrected c' = correct c raw" "tc_offset c' = tc_offset c"
    using assms now by (auto simp: c'_def tc_update_def Let_def update_slope_def split: option.splits)
  have lt: "raw + k + tc_offset c < correct c raw"
    using k gain by simp
  moreover have "in_i64 (raw + k + tc_offset c)"
    using k(1) lt assms(3) in_i64_correct [of c raw] by (simp add: in_i64_def)
  ultimately have "correct c' (raw + k) = raw + k + tc_offset c"
    by (simp add: correct_def c')
  with lt show ?thesis
    by (simp add: c'_def gain)
qed

text \<open>
  A fast clock that is 100 ppm slow: after the first two updates the slope makes up for the drift, and
  the third update, at 260 s, sets the clock back by 13 ms.
\<close>

theorem slope_update_steps_back_witness:
  "let c = time_corr (clock_calls (with_high_resolution_clock True combined_time_new 1000000 (Ok 0 :: (int, unit) result) (Ok 0))
             [(True, Ok 130000000 :: (int, unit) result, Ok 129987000)]) in
   correct c 259974000 = 259986993
   \<and> correct (tc_update c 260000000 (- 13007) 1000000) (259974000 + 1000) = 259986993 - 12993 + 1000
   \<and> correct (tc_update c 260000000 (- 13007) 1000000) (259974000 + 1000) < 259986993"
proof -
  define c where "c = \<lparr>is_initialized = True, tc_offset = 0, last_corrected = 129987000, tc_slope = 1677, tc_error = - 13000\<rparr>"
  have run: "time_corr (clock_calls (with_high_resolution_clock True combined_time_new 1000000 (Ok 0 :: (int, unit) result) (Ok 0))
             [(True, Ok 130000000 :: (int, unit) result, Ok 129987000)]) = c"
    unfolding c_def by code_simp
  have at: "correct c 259974000 = 259986993"
    unfolding c_def by code_simp
  have "correct (tc_update c 260000000 (- 13007) 1000000) (259974000 + 1000) = correct c 259974000 - 12993 + 1000
    \<and> correct (tc_update c 260000000 (- 13007) 1000000) (259974000 + 1000) < correct c 259974000"
    by (rule slope_update_steps_back)
      (simp_all add: at, simp_all add: c_def tc_in_range_def in_i64_def in_i32_def UPDATE_INTERVAL_US_def)
  then show ?thesis
    unfolding run Let_def at by simp
qed

end
