(* ===== verification/Adjust_Theorems.thy ===== *)
theory Adjust_Theorems
  imports Time_Adjust Time_Theorems
begin

text \<open>
  The estimator of the clock error: how far converting a timestamp to another scale and back can be
  off, and which measurements against the server the estimator accepts.
\<close>

section \<open>Conversions and their inverse\<close>

definition BILLION :: int where
  "BILLION = 1000000000"

lemma slope_correct_small:
  assumes "\<bar>dt\<bar> < 2 ^ 31 - 1" and "\<bar>e\<bar> \<le> 2 ^ 31"
  shows "slope_correct dt e = (dt * e) sdiv BILLION"
proof -
  have "\<bar>dt * e\<bar> \<le> 2 ^ 31 * 2 ^ 31"
    unfolding abs_mult using assms by (intro mult_mono) auto
  then have "in_i64 (dt * e)"
    by (intro in_i64_abs) simp
  moreover have "i64_saturate \<bar>dt\<bar> = \<bar>dt\<bar>"
    using assms(1) by (simp add: i64_saturate_def)
  ultimately show ?thesis
    using assms(1) by (simp add: slope_correct_def BILLION_def)
qed

lemma sdiv_error:
  fixes x R :: int
  assumes "0 < R"
  shows "\<bar>R * (x sdiv R) - x\<bar> < R"
proof -
  have *: "\<bar>R * (y div R) - y\<bar> < R" for y
  proof -
    have "R * (y div R) - y = - (y mod R)"
      by (simp add: minus_mod_eq_mult_div [symmetric])
    then show ?thesis
      using assms by simp
  qed
  show ?thesis
  proof (cases "0 \<le> x")
    case False
    define y where "y = - x"
    have "x sdiv R = - (y div R)" and x: "x = - y"
      using sdiv_nonneg(2) [OF assms, of y] False by (simp_all add: y_def)
    then have "R * (x sdiv R) - x = - (R * (y div R) - y)"
      by (simp add: algebra_simps)
    then show ?thesis
      using * [of y] by linarith
  qed (use * [of x] sdiv_nonneg(1) [OF assms] in simp)
qed

text \<open>One round of \<open>reverse_slope_convert\<close>: the correction shrinks with the slope, and the rounding loses less than a microsecond.\<close>

lemma slope_round:
  assumes "\<bar>a\<bar> < 2 ^ 31 - 1" and "\<bar>e\<bar> \<le> CORRECTION_ERROR_MAX_PPB"
  defines "a' \<equiv> slope_correct a (- e)"
  shows "\<bar>BILLION * a' + e * a\<bar> < BILLION" and "BILLION * \<bar>a'\<bar> \<le> \<bar>e\<bar> * \<bar>a\<bar>" and "2 * \<bar>a'\<bar> \<le> \<bar>a\<bar>"
proof -
  have a': "a' = (a * - e) sdiv BILLION"
    unfolding a'_def using assms(1,2) by (intro slope_correct_small) (auto simp: CORRECTION_ERROR_MAX_PPB_def)
  have "0 < BILLION"
    by (simp add: BILLION_def)
  from sdiv_error [OF this, of "a * - e"] show "\<bar>BILLION * a' + e * a\<bar> < BILLION"
    by (simp add: a' algebra_simps)
  have "BILLION * \<bar>a'\<bar> = BILLION * (\<bar>e * a\<bar> div BILLION)"
    using abs_sdiv [OF \<open>0 < BILLION\<close>, of "a * - e"] by (simp add: a' abs_mult mult.commute)
  also have "\<dots> \<le> \<bar>e * a\<bar>"
    using \<open>0 < BILLION\<close> by (metis mult.commute div_mult_mod_eq le_add_same_cancel1 pos_mod_sign)
  finally show *: "BILLION * \<bar>a'\<bar> \<le> \<bar>e\<bar> * \<bar>a\<bar>"
    by (simp add: abs_mult)
  also have "\<dots> \<le> CORRECTION_ERROR_MAX_PPB * \<bar>a\<bar>"
    using assms(2) by (intro mult_right_mono) auto
  finally show "2 * \<bar>a'\<bar> \<le> \<bar>a\<bar>"
    by (simp add: BILLION_def CORRECTION_ERROR_MAX_PPB_def)
qed

text \<open>The bounds that keep every intermediate time of the loop within the exact branch of \<open>slope_correct\<close>.\<close>

definition in_reach :: "int \<Rightarrow> int \<Rightarrow> bool" where
  "in_reach a d \<longleftrightarrow> \<bar>a\<bar> < 2 ^ 31 - 1 \<and> \<bar>d\<bar> + \<bar>a\<bar> < 2 ^ 31 - 1"

lemma in_reach_round:
  assumes "in_reach a d" and "\<bar>e\<bar> \<le> CORRECTION_ERROR_MAX_PPB"
  defines "a' \<equiv> slope_correct a (- e)"
  shows "in_reach a' (d + a')" and "i64_wrap (d + a') = d + a'"
proof -
  have "2 * \<bar>a'\<bar> \<le> \<bar>a\<bar>"
    unfolding a'_def using assms(1,2) by (intro slope_round) (auto simp: in_reach_def)
  then show r: "in_reach a' (d + a')"
    using assms(1) unfolding in_reach_def by linarith
  then have "in_i64 (d + a')"
    by (intro in_i64_abs) (auto simp: in_reach_def)
  then show "i64_wrap (d + a') = d + a'"
    by simp
qed

lemma reverse_rounds_in_reach:
  assumes "in_reach a d" and "\<bar>e\<bar> \<le> CORRECTION_ERROR_MAX_PPB"
  shows "\<bar>reverse_rounds n (- e) a d\<bar> < 2 ^ 31 - 1"
  using assms(1)
proof (induction n arbitrary: a d)
  case (Suc n)
  with in_reach_round [OF Suc.prems assms(2)] show ?case
    by (auto simp: Let_def in_reach_def)
qed (auto simp: in_reach_def)

text \<open>How far the loop is from the solution of \<open>D * (1 + e) = d\<close>, when it stops after at most \<open>k\<close> rounds.\<close>

lemma reverse_rounds_error:
  assumes "in_reach a d" and "\<bar>e\<bar> \<le> CORRECTION_ERROR_MAX_PPB"
    and "\<bar>a\<bar> * \<bar>e\<bar> ^ k < BILLION ^ k" and "k \<le> n"
  shows "\<bar>(BILLION + e) * reverse_rounds n (- e) a d - ((BILLION + e) * d - e * a)\<bar> \<le> int k * (BILLION - 1)"
  using assms(1,3,4)
proof (induction k arbitrary: a d n)
  case 0
  then have "a = 0"
    by simp
  moreover have "slope_correct 0 (- e) = 0"
    by (simp add: slope_correct_def i64_saturate_def)
  moreover have "i64_wrap d = d"
    using in_reach_round(2) [OF 0(1) assms(2)] calculation by simp
  ultimately show ?case
    by (cases n) (auto simp: Let_def)
next
  case (Suc k)
  then obtain m where n: "n = Suc m" and "k \<le> m"
    by (cases n) auto
  define a' where "a' = slope_correct a (- e)"
  note step = slope_round [of a e, folded a'_def] in_reach_round [OF Suc.prems(1) assms(2), folded a'_def]
  have a: "\<bar>a\<bar> < 2 ^ 31 - 1"
    using Suc.prems(1) by (simp add: in_reach_def)
  have "BILLION * (\<bar>a'\<bar> * \<bar>e\<bar> ^ k) \<le> \<bar>e\<bar> * \<bar>a\<bar> * \<bar>e\<bar> ^ k"
    using step(2) [OF a assms(2)] by (simp add: mult.assoc [symmetric] mult_right_mono)
  also have "\<dots> < BILLION * BILLION ^ k"
    using Suc.prems(2) by (simp add: algebra_simps)
  finally have "\<bar>a'\<bar> * \<bar>e\<bar> ^ k < BILLION ^ k"
    by (simp add: BILLION_def)
  from Suc.IH [OF step(4) this \<open>k \<le> m\<close>]
  have IH: "\<bar>(BILLION + e) * reverse_rounds m (- e) a' (d + a') - ((BILLION + e) * (d + a') - e * a')\<bar> \<le> int k * (BILLION - 1)" .
  have "reverse_rounds n (- e) a d = (if a' = 0 then d + a' else reverse_rounds m (- e) a' (d + a'))"
    using step(5) by (auto simp: n Let_def a'_def [symmetric])
  moreover have "0 \<le> int k * (BILLION - 1)"
    by (simp add: BILLION_def)
  ultimately have "\<bar>(BILLION + e) * reverse_rounds n (- e) a d - ((BILLION + e) * (d + a') - e * a')\<bar> \<le> int k * (BILLION - 1)"
    using IH by (auto simp: algebra_simps)
  moreover have "\<bar>BILLION * a' + e * a\<bar> \<le> BILLION - 1"
    using step(1) [OF a assms(2)] by simp
  moreover have "(BILLION + e) * (d + a') - e * a' = (BILLION + e) * d - e * a + (BILLION * a' + e * a)"
    by (simp add: algebra_simps)
  ultimately show ?case
    by (simp add: algebra_simps)
qed

lemma slope_roundtrip:
  assumes "\<bar>dt\<bar> < 2 ^ 30" and "\<bar>e\<bar> \<le> CORRECTION_ERROR_MAX_PPB" and "\<bar>dt\<bar> * \<bar>e\<bar> ^ k < BILLION ^ k" and "k \<le> MAX_ITERATIONS"
  shows "\<bar>forward_slope_convert (reverse_slope_convert dt (- e)) e - dt\<bar> \<le> int k"
    and "\<bar>reverse_slope_convert dt (- e)\<bar> < 2 ^ 31"
proof -
  define D where "D = reverse_slope_convert dt (- e)"
  have reach: "in_reach dt dt"
    using assms(1) by (simp add: in_reach_def)
  have D: "\<bar>D\<bar> < 2 ^ 31 - 1"
    unfolding D_def reverse_slope_convert_def by (rule reverse_rounds_in_reach [OF reach assms(2)])
  then show "\<bar>reverse_slope_convert dt (- e)\<bar> < 2 ^ 31"
    by (simp add: D_def)
  define s where "s = slope_correct D e"
  have s: "s = (D * e) sdiv BILLION"
    unfolding s_def using D assms(2) by (intro slope_correct_small) (auto simp: CORRECTION_ERROR_MAX_PPB_def)
  then have err: "\<bar>BILLION * s - D * e\<bar> < BILLION"
    using sdiv_error [of BILLION "D * e"] by (simp add: BILLION_def)
  have "\<bar>(BILLION + e) * D - BILLION * dt\<bar> \<le> int k * (BILLION - 1)"
    using reverse_rounds_error [OF reach assms(2,3,4)] by (simp add: D_def reverse_slope_convert_def algebra_simps)
  with err have "\<bar>BILLION * (D + s - dt)\<bar> < int k * (BILLION - 1) + BILLION"
    by (simp add: algebra_simps)
  also have "\<dots> \<le> BILLION * (int k + 1)"
    by (simp add: algebra_simps)
  finally have close: "\<bar>D + s - dt\<bar> < int k + 1"
    by (simp add: abs_mult BILLION_def)
  have "int k \<le> 16"
    using assms(4) by (simp add: MAX_ITERATIONS_def)
  then have "in_i64 (D + s)"
    using close assms(1) by (intro in_i64_abs) auto
  with close show "\<bar>forward_slope_convert (reverse_slope_convert dt (- e)) e - dt\<bar> \<le> int k"
    by (simp add: forward_slope_convert_def D_def [symmetric] s_def [symmetric])
qed

lemma i32_neg_small: "\<bar>e\<bar> \<le> CORRECTION_ERROR_MAX_PPB \<Longrightarrow> i32_wrap (- e) = - e"
  by (simp add: i32_wrap_def CORRECTION_ERROR_MAX_PPB_def signed_take_bit_int_eq_self_iff abs_le_iff)

text \<open>Shifting a time to its scale's origin, converting the slope both ways and shifting back.\<close>

lemma scale_roundtrip:
  assumes "\<bar>x - x0\<bar> < 2 ^ 30" and "\<bar>e\<bar> \<le> CORRECTION_ERROR_MAX_PPB" and "\<bar>x - x0\<bar> * \<bar>e\<bar> ^ k < BILLION ^ k"
    and "k \<le> MAX_ITERATIONS" and "\<bar>x0\<bar> \<le> 2 ^ 61" and "\<bar>y0\<bar> \<le> 2 ^ 61"
  defines "y \<equiv> i64_wrap (y0 + reverse_slope_convert (i64_wrap (x - x0)) (i32_wrap (- e)))"
  shows "\<bar>i64_wrap (x0 + forward_slope_convert (i64_wrap (y - y0)) e) - x\<bar> \<le> int k"
proof -
  define D where "D = reverse_slope_convert (x - x0) (- e)"
  have dx: "i64_wrap (x - x0) = x - x0"
    using assms(1) by (intro i64_id in_i64_abs) simp
  have D: "\<bar>D\<bar> < 2 ^ 31" and close: "\<bar>forward_slope_convert D e - (x - x0)\<bar> \<le> int k"
    using slope_roundtrip [OF assms(1-4)] by (simp_all add: D_def)
  have "y = y0 + D"
    unfolding y_def dx i32_neg_small [OF assms(2)] D_def [symmetric]
    using D assms(6) by (intro i64_id in_i64_abs) auto
  moreover have "i64_wrap D = D"
    using D by (intro i64_id in_i64_abs) simp
  moreover have "int k \<le> 16"
    using assms(4) by (simp add: MAX_ITERATIONS_def)
  then have "i64_wrap (x0 + forward_slope_convert D e) = x0 + forward_slope_convert D e"
    using close assms(1,5) by (intro i64_id in_i64_abs) auto
  ultimately show ?thesis
    using close by (simp add: algebra_simps)
qed

text \<open>
  C24. Converting a time to another scale and back is exact up to the rounding of the rounds the loop of
  \<open>reverse_slope_convert\<close> needs. If \<open>k \<le> 16\<close> rounds are enough for the interval and the error (three for
  errors up to 100 ppm), a raw time within 17 minutes of the last temperature correction is converted
  to temperature-corrected time and back with an error of at most \<open>k\<close> microseconds, and the same holds
  for temperature-corrected and drift-corrected time, up to the largest correction of 50 percent.
\<close>

theorem time_conversion_roundtrip:
  assumes "temp c = Some (t_raw, t_corr, est)" and "\<bar>error_ppb est\<bar> \<le> CORRECTION_ERROR_MAX_PPB"
    and "\<bar>raw - t_raw\<bar> < 2 ^ 30" and "\<bar>raw - t_raw\<bar> * \<bar>error_ppb est\<bar> ^ k < BILLION ^ k" and "k \<le> MAX_ITERATIONS"
    and "\<bar>t_raw\<bar> \<le> 2 ^ 61" and "\<bar>t_corr\<bar> \<le> 2 ^ 61"
    and "estimate_at c = Some (t0, d0)" and "\<bar>error_ppb (estimate_pre_temp c)\<bar> \<le> CORRECTION_ERROR_MAX_PPB"
    and "\<bar>t - t0\<bar> < 2 ^ 30" and "\<bar>t - t0\<bar> * \<bar>error_ppb (estimate_pre_temp c)\<bar> ^ k < BILLION ^ k"
    and "\<bar>t0\<bar> \<le> 2 ^ 61" and "\<bar>d0\<bar> \<le> 2 ^ 61"
  shows "\<bar>convert_temp_corrected_to_raw c (convert_raw_to_temp_corrected c raw) - raw\<bar> \<le> int k
    \<and> \<bar>fst (convert_drift_corrected_to_temp_corrected c (fst (convert_temp_corrected_to_drift_corrected c t))) - t\<bar> \<le> int k"
  using scale_roundtrip [OF assms(3,2,4,5,6,7)] scale_roundtrip [OF assms(10,9,11,5,12,13)] assms(1,8)
  by (simp add: convert_temp_corrected_to_raw_def convert_raw_to_temp_corrected_def
      convert_drift_corrected_to_temp_corrected_def convert_temp_corrected_to_drift_corrected_def)

text \<open>A temperature error of 100 ppm and a drift of -81 ppm, ten minutes after the last update.\<close>

definition sample_estimate :: clock_drift_estimate where
  "sample_estimate = \<lparr>estimate_pre_temp = \<lparr>error_ppb = - 81234, uncertainty_ppb = 100\<rparr>,
     estimate_at = Some (314000000000, 1234000000000),
     temp = Some (314000000000, 314000000000, \<lparr>error_ppb = 100000, uncertainty_ppb = 5000\<rparr>), network = None\<rparr>"

theorem time_conversion_roundtrip_witness:
  "\<bar>convert_temp_corrected_to_raw sample_estimate (convert_raw_to_temp_corrected sample_estimate 314600000000) - 314600000000\<bar> \<le> 3
   \<and> \<bar>fst (convert_drift_corrected_to_temp_corrected sample_estimate
        (fst (convert_temp_corrected_to_drift_corrected sample_estimate 314600000000))) - 314600000000\<bar> \<le> 3"
proof -
  have "\<bar>convert_temp_corrected_to_raw sample_estimate (convert_raw_to_temp_corrected sample_estimate 314600000000) - 314600000000\<bar> \<le> int 3
   \<and> \<bar>fst (convert_drift_corrected_to_temp_corrected sample_estimate
        (fst (convert_temp_corrected_to_drift_corrected sample_estimate 314600000000))) - 314600000000\<bar> \<le> int 3"
    by (rule time_conversion_roundtrip)
      (simp_all add: sample_estimate_def CORRECTION_ERROR_MAX_PPB_def BILLION_def MAX_ITERATIONS_def, simp_all)
  then show ?thesis
    by simp
qed

section \<open>The estimate stays bounded\<close>

datatype clock_input = ATemp timestamp error_estimate | ANetwork timestamp network_time

fun clock_input_step :: "clock_drift_estimate \<Rightarrow> clock_input \<Rightarrow> clock_drift_estimate" where
  "clock_input_step c (ATemp ts adj) = snd (clock_update_temp c ts adj)"
| "clock_input_step c (ANetwork ts nt) = snd (clock_update_network c ts nt)"

definition estimate_bounded :: "error_estimate \<Rightarrow> bool" where
  "estimate_bounded e \<longleftrightarrow> \<bar>error_ppb e\<bar> \<le> CORRECTION_ERROR_MAX_PPB \<and> 0 \<le> uncertainty_ppb e \<and> uncertainty_ppb e \<le> CORRECTION_ERROR_MAX_PPB"

lemma f32_to_u32_nonneg: "0 \<le> f32_to_int 0 (2 ^ 32 - 1) x"
  by (cases x) (auto simp: Let_def)

lemma weighed_average_bounded: "estimate_bounded (weighed_average a b)"
  unfolding weighed_average_def Let_def estimate_bounded_def
  using f32_to_u32_nonneg by (auto simp: clamp_def CORRECTION_ERROR_MAX_PPB_def)

lemma convert_keeps_estimate:
  "estimate_pre_temp (snd (convert_to_temp_corrected c ts)) = estimate_pre_temp c"
  "estimate_pre_temp (snd (convert_to_drift_corrected c ts)) = estimate_pre_temp c"
  by (cases ts; auto simp: Let_def convert_temp_corrected_to_drift_corrected_def
      convert_drift_corrected_to_temp_corrected_def split: option.splits prod.splits)+

lemma update_network_time_bounded:
  "estimate_bounded (estimate_pre_temp c) \<Longrightarrow> estimate_bounded (estimate_pre_temp (snd (update_network_time c t d nt)))"
  by (auto simp: update_network_time_def Let_def weighed_average_bounded split: option.splits)

lemma clock_input_step_bounded:
  "estimate_bounded (estimate_pre_temp c) \<Longrightarrow> estimate_bounded (estimate_pre_temp (clock_input_step c i))"
  by (cases i) (simp_all add: clock_update_temp_def clock_update_network_def update_temp_correction_def Let_def
      update_network_time_bounded convert_keeps_estimate case_prod_unfold)

text \<open>
  Whatever temperatures and server times are fed to the estimator, its drift estimate stays within plus
  or minus 50 percent with an uncertainty of at most 50 percent, and so does the total estimate that is
  used to calibrate the clock; the conversions can therefore rely on the slope they need to converge.
\<close>

theorem drift_estimate_bounded:
  assumes "estimate_bounded calibration"
  shows "estimate_bounded (estimate_pre_temp (foldl clock_input_step (drift_new calibration) inputs))
    \<and> estimate_bounded (drift_total (foldl clock_input_step (drift_new calibration) inputs))"
proof
  have "estimate_bounded (estimate_pre_temp (foldl clock_input_step c inputs))"
    if "estimate_bounded (estimate_pre_temp c)" for c
    using that by (induction inputs arbitrary: c) (auto simp: clock_input_step_bounded)
  then show "estimate_bounded (estimate_pre_temp (foldl clock_input_step (drift_new calibration) inputs))"
    using assms by (auto simp: drift_new_def estimate_bounded_def ESTIMATE_MIN_INITIAL_UNCERTAINTY_PPB_def CORRECTION_ERROR_MAX_PPB_def)
  show "estimate_bounded (drift_total (foldl clock_input_step (drift_new calibration) inputs))"
    by (simp add: estimate_bounded_def drift_total_def Let_def clamp_def u32_wrap_def CORRECTION_ERROR_MAX_PPB_def)
qed

theorem drift_estimate_bounded_witness:
  "estimate_bounded (drift_total (foldl clock_input_step (drift_new estimate_unknown)
     [ANetwork (RawMono 0) \<lparr>timestamp_server_us = 0, latency_estimate_us = 100000\<rparr>,
      ANetwork (RawMono 600000000) \<lparr>timestamp_server_us = 2400000000, latency_estimate_us = 100000\<rparr>]))"
  by (rule drift_estimate_bounded [THEN conjunct2])
    (simp add: estimate_unknown_def estimate_bounded_def CORRECTION_ERROR_MAX_PPB_def)

section \<open>Measurements against the server\<close>

lemma i64_saturate_id: "\<bar>x\<bar> < 2 ^ 63 \<Longrightarrow> i64_saturate x = x"
  by (simp add: i64_saturate_def abs_less_iff)

lemma sdiv_nonpos: "0 < R \<Longrightarrow> x \<le> 0 \<Longrightarrow> x sdiv R \<le> (0 :: int)"
  using sdiv_nonneg(2) [of R "- x"] by (simp add: pos_imp_zdiv_nonneg_iff)

lemma sdiv_le_iff:
  fixes b x R :: int
  assumes "0 < R" and "0 \<le> x"
  shows "b \<le> x sdiv R \<longleftrightarrow> b * R \<le> x"
proof -
  have "b \<le> x div R" if "b * R \<le> x"
    using zdiv_mono1 [OF that assms(1)] assms(1) by simp
  moreover have "b * R \<le> x" if "b \<le> x div R"
  proof -
    have "b * R \<le> (x div R) * R"
      using that assms(1) by (intro mult_right_mono) auto
    also have "\<dots> \<le> x"
      using assms(1) by (simp add: minus_mod_eq_div_mult [symmetric])
    finally show ?thesis .
  qed
  ultimately show ?thesis
    using assms by (auto simp: sdiv_nonneg(1))
qed

text \<open>The outcome of a measurement that is long enough and whose latency is small, in terms of the two intervals.\<close>

lemma update_network_time_outcome:
  fixes c :: clock_drift_estimate
  assumes prev: "network c = Some prev"
    and local_dt: "local_dt = t_temp - t_local prev"
    and server: "server = timestamp_server_us nt - timestamp_server_us (t_network prev)"
    and lat: "lat = max (latency_estimate_us nt) (latency_estimate_us (t_network prev))"
    and long: "NETWORK_TIME_UPDATE_INTERVAL_MIN_US < local_dt" "NETWORK_TIME_UPDATE_INTERVAL_MIN_US + lat < server"
    and range: "local_dt < 2 ^ 61" "server < 2 ^ 61" "0 \<le> lat" "lat < 2 ^ 32"
    and precise: "lat * BILLION < CORRECTION_ERROR_MAX_PPB * (server - lat)"
  defines "err \<equiv> i64_saturate ((local_dt - server) * BILLION) sdiv server"
  shows "2 ^ 31 - 1 \<le> local_dt - server \<or> CORRECTION_ERROR_MAX_PPB \<le> err \<Longrightarrow>
      fst (update_network_time c t_temp t_drift nt) = Err ErrorTooLarge
      \<and> estimate_pre_temp (snd (update_network_time c t_temp t_drift nt)) = estimate_pre_temp c"
    and "\<not> (2 ^ 31 - 1 \<le> local_dt - server \<or> CORRECTION_ERROR_MAX_PPB \<le> err) \<Longrightarrow>
      fst (update_network_time c t_temp t_drift nt) = Ok ()
      \<and> estimate_at (snd (update_network_time c t_temp t_drift nt)) = Some (t_temp, t_drift)"
proof -
  have sat: "i64_saturate local_dt = local_dt" "i64_saturate server = server" "i64_saturate (server - lat) = server - lat"
    "i64_wrap (local_dt - server) = local_dt - server" "i64_wrap (lat * BILLION) = lat * BILLION"
    using long range by (auto intro!: i64_saturate_id i64_id in_i64_abs simp: NETWORK_TIME_UPDATE_INTERVAL_MIN_US_def BILLION_def)
  have unc: "\<not> CORRECTION_ERROR_MAX_PPB \<le> (lat * BILLION) sdiv (server - lat)"
    using precise long range by (subst sdiv_le_iff) (auto simp: NETWORK_TIME_UPDATE_INTERVAL_MIN_US_def BILLION_def)
  have long': "\<not> min (server - lat) local_dt \<le> NETWORK_TIME_UPDATE_INTERVAL_MIN_US"
    using long by simp
  note unfold = update_network_time_def prev option.case Let_def local_dt [symmetric] server [symmetric] lat [symmetric]
    sat if_not_P [OF long'] BILLION_def [symmetric] if_not_P [OF unc] err_def [symmetric]
  show "2 ^ 31 - 1 \<le> local_dt - server \<or> CORRECTION_ERROR_MAX_PPB \<le> err \<Longrightarrow>
      fst (update_network_time c t_temp t_drift nt) = Err ErrorTooLarge
      \<and> estimate_pre_temp (snd (update_network_time c t_temp t_drift nt)) = estimate_pre_temp c"
    by (simp only: unfold if_True) simp
  show "\<not> (2 ^ 31 - 1 \<le> local_dt - server \<or> CORRECTION_ERROR_MAX_PPB \<le> err) \<Longrightarrow>
      fst (update_network_time c t_temp t_drift nt) = Ok ()
      \<and> estimate_at (snd (update_network_time c t_temp t_drift nt)) = Some (t_temp, t_drift)"
    by (simp only: unfold if_False) simp
qed

text \<open>
  C25. The check for unreasonable measurements has one side only. A measurement in which the local clock
  runs at least half as fast again as the server is refused with \<open>ErrorTooLarge\<close> and leaves the estimate
  alone, but a measurement in which the local clock falls behind is accepted however large the gap is,
  a step of the server's clock included, and replaces the drift estimate.
\<close>

theorem slow_clock_never_rejected:
  assumes "network c = Some prev"
    and "local_dt = t_temp - t_local prev"
    and "server = timestamp_server_us nt - timestamp_server_us (t_network prev)"
    and "lat = max (latency_estimate_us nt) (latency_estimate_us (t_network prev))"
    and "NETWORK_TIME_UPDATE_INTERVAL_MIN_US < local_dt" and "NETWORK_TIME_UPDATE_INTERVAL_MIN_US + lat < server"
    and "local_dt < 2 ^ 61" and "server < 2 ^ 61" and "0 \<le> lat" and "lat < 2 ^ 32"
    and "lat * BILLION < CORRECTION_ERROR_MAX_PPB * (server - lat)"
  shows "(local_dt \<le> server \<longrightarrow>
      fst (update_network_time c t_temp t_drift nt) = Ok ()
      \<and> estimate_at (snd (update_network_time c t_temp t_drift nt)) = Some (t_temp, t_drift))
    \<and> (3 * server \<le> 2 * local_dt \<longrightarrow>
      fst (update_network_time c t_temp t_drift nt) = Err ErrorTooLarge
      \<and> estimate_pre_temp (snd (update_network_time c t_temp t_drift nt)) = estimate_pre_temp c)"
proof -
  note outcome = update_network_time_outcome [OF assms, of t_drift]
  have server: "0 < server"
    using assms(6,9) by (simp add: NETWORK_TIME_UPDATE_INTERVAL_MIN_US_def)
  have "i64_saturate ((local_dt - server) * BILLION) sdiv server \<le> 0" if "local_dt \<le> server"
    using server that by (intro sdiv_nonpos) (auto simp: i64_saturate_def BILLION_def)
  moreover have "CORRECTION_ERROR_MAX_PPB \<le> i64_saturate ((local_dt - server) * BILLION) sdiv server"
    if "3 * server \<le> 2 * local_dt" "local_dt - server < 2 ^ 31 - 1"
  proof -
    have "i64_saturate ((local_dt - server) * BILLION) = (local_dt - server) * BILLION"
      using that server by (intro i64_saturate_id) (auto simp: BILLION_def)
    then show ?thesis
      using that server by (subst sdiv_le_iff) (auto simp: BILLION_def CORRECTION_ERROR_MAX_PPB_def)
  qed
  ultimately show ?thesis
    using outcome by (fastforce simp: CORRECTION_ERROR_MAX_PPB_def not_le)
qed

text \<open>
  The server's clock is set forward by half an hour during a measurement of ten minutes: the estimate, known
  to 20 ppm before, becomes a drift of minus 14 percent.
\<close>

definition half_hour_step :: "(unit, network_est_error) result \<times> clock_drift_estimate" where
  "half_hour_step =
     update_network_time
       (snd (update_network_time (drift_new \<lparr>error_ppb = 0, uncertainty_ppb = 20000\<rparr>) 0 0
          \<lparr>timestamp_server_us = 0, latency_estimate_us = 100000\<rparr>))
       600000000 600000000 \<lparr>timestamp_server_us = 2400000000, latency_estimate_us = 100000\<rparr>"

theorem slow_clock_never_rejected_witness:
  "fst half_hour_step = Ok () \<and> estimate_pre_temp (snd half_hour_step) = \<lparr>error_ppb = - 140434832, uncertainty_ppb = 24057\<rparr>"
proof
  have "network (snd (update_network_time (drift_new \<lparr>error_ppb = 0, uncertainty_ppb = 20000\<rparr>) 0 0
      \<lparr>timestamp_server_us = 0, latency_estimate_us = 100000\<rparr>))
    = Some \<lparr>t_network = \<lparr>timestamp_server_us = 0, latency_estimate_us = 100000\<rparr>, t_local = 0,
        initial_estimate = \<lparr>error_ppb = 0, uncertainty_ppb = 20000\<rparr>, max_temp_uncertainty_ppb = 0\<rparr>"
    by code_simp
  from slow_clock_never_rejected [OF this refl refl refl, of 600000000 "\<lparr>timestamp_server_us = 2400000000, latency_estimate_us = 100000\<rparr>" 600000000]
  show "fst half_hour_step = Ok ()"
    by (simp add: half_hour_step_def NETWORK_TIME_UPDATE_INTERVAL_MIN_US_def BILLION_def CORRECTION_ERROR_MAX_PPB_def)
  show "estimate_pre_temp (snd half_hour_step) = \<lparr>error_ppb = - 140434832, uncertainty_ppb = 24057\<rparr>"
    by code_simp
qed

end
