(* ===== verification/Session_Channel.thy ===== *)
theory Session_Channel
  imports Prelude
begin

text \<open>
  The session channel of \<open>sync/session_channel.rs\<close>: a sender and a receiver that divide a bounded queue
  into sessions and agree on their start and end over a channel that keeps only the latest state. The
  two ends run concurrently; a step of \<open>sess_step\<close> is one call of a channel operation. The channels are
  those of \<open>utils/channels.rs\<close>: a bounded queue whose \<open>send\<close> waits for room and whose \<open>recv\<close> waits for
  an item, and a latest-value channel whose \<open>recv\<close> waits for a value it has not returned yet. Both stay
  open for the whole run, so the error variants for a closed channel do not occur.
\<close>

section \<open>State\<close>

datatype 'a finite_stream = Data 'a | Reset | End

datatype session_state = SNone | Started u32 | Finished u32

datatype finish_error = FE_Send | FE_Feedback | FE_Restarted u32 | FE_OutOfSync

text \<open>
  Where the two ends are: the sender waits in \<open>wait_started\<close> or in \<open>finish_and_wait\<close>; the receiver has
  an active session with its \<open>should_finish\<close>, or is in \<open>_inner_finish\<close>, which runs a second time when
  \<open>finish\<close> has consumed the session and it is dropped.
\<close>

datatype sender_pc = S_Idle | S_WaitStart | S_Finishing

datatype receiver_pc = R_Idle | R_Active u32 bool | R_Finishing u32 bool

record 'a session_channel =
  sc_queue :: "'a finite_stream list"
  sc_life :: session_state
  sc_fresh :: bool
  ss_state :: session_state
  ss_pc :: sender_pc
  sr_next :: u32
  sr_pc :: receiver_pc

definition create_session_channel :: "'a session_channel" where
  "create_session_channel =
     \<lparr>sc_queue = [], sc_life = Finished 0, sc_fresh = False, ss_state = Finished 0, ss_pc = S_Idle,
      sr_next = 0, sr_pc = R_Idle\<rparr>"

section \<open>The channels\<close>

definition data_send :: "nat \<Rightarrow> 'a finite_stream \<Rightarrow> 'a session_channel \<Rightarrow> 'a session_channel option" where
  "data_send cap x c = (if length (sc_queue c) < cap then Some (c\<lparr>sc_queue := sc_queue c @ [x]\<rparr>) else None)"

fun pop_front :: "'b list \<Rightarrow> ('b \<times> 'b list) option" where
  "pop_front [] = None"
| "pop_front (x # xs) = Some (x, xs)"

definition life_send :: "session_state \<Rightarrow> 'a session_channel \<Rightarrow> 'a session_channel" where
  "life_send v c = c\<lparr>sc_life := v, sc_fresh := True\<rparr>"

definition life_recv :: "'a session_channel \<Rightarrow> (session_state \<times> 'a session_channel) option" where
  "life_recv c = (if sc_fresh c then Some (sc_life c, c\<lparr>sc_fresh := False\<rparr>) else None)"

section \<open>The sender\<close>

datatype 'a sess_event =
    E_Silent
  | E_StartSeen u32
  | E_Sent "'a finite_stream"
  | E_SendRefused 'a
  | E_EndSent "(unit, finish_error) result option"
  | E_FinishReturned "(unit, finish_error) result"
  | E_SessionStarted u32
  | E_Got "'a finite_stream"
  | E_EndAgain
  | E_Empty
  | E_Discarded "'a finite_stream"
  | E_SessionFinished u32

text \<open>A round of the loop of \<open>wait_started\<close>.\<close>

definition wait_started_round :: "'a session_channel \<Rightarrow> ('a sess_event \<times> 'a session_channel) option" where
  "wait_started_round c =
     (case life_recv c of
        None \<Rightarrow> None
      | Some (v, c') \<Rightarrow>
          (case v of
             Started session_id \<Rightarrow> Some (E_StartSeen session_id, c'\<lparr>ss_state := v, ss_pc := S_Idle\<rparr>)
           | _ \<Rightarrow> Some (E_Silent, c'\<lparr>ss_state := v\<rparr>)))"

definition sess_send :: "nat \<Rightarrow> 'a finite_stream \<Rightarrow> 'a session_channel \<Rightarrow> ('a sess_event \<times> 'a session_channel) option" where
  "sess_send cap x c = map_option (Pair (E_Sent x)) (data_send cap x c)"

definition sess_try_send :: "nat \<Rightarrow> 'a \<Rightarrow> 'a session_channel \<Rightarrow> ('a sess_event \<times> 'a session_channel) option" where
  "sess_try_send cap v c =
     (case data_send cap (Data v) c of
        Some c' \<Rightarrow> Some (E_Sent (Data v), c')
      | None \<Rightarrow> Some (E_SendRefused v, c))"

definition sess_is_ready :: "nat \<Rightarrow> 'a session_channel \<Rightarrow> bool" where
  "sess_is_ready cap c \<longleftrightarrow> length (sc_queue c) < cap"

text \<open>\<open>finish_and_wait\<close> up to its second await.\<close>

definition finish_send :: "nat \<Rightarrow> 'a session_channel \<Rightarrow> ('a sess_event \<times> 'a session_channel) option" where
  "finish_send cap c =
     (case data_send cap End c of
        None \<Rightarrow> None
      | Some c' \<Rightarrow>
          (case ss_state c' of
             Finished _ \<Rightarrow> Some (E_EndSent (Some (Ok ())), c')
           | _ \<Rightarrow> Some (E_EndSent None, c'\<lparr>ss_pc := S_Finishing\<rparr>)))"

definition finish_result :: "session_state \<Rightarrow> session_state \<Rightarrow> (unit, finish_error) result" where
  "finish_result old_state new_state =
     (let sess_id = (case old_state of Started sess_id \<Rightarrow> Some sess_id | _ \<Rightarrow> None) in
      case new_state of
        Finished finish_id \<Rightarrow>
          (let start_id = (case sess_id of Some s \<Rightarrow> s | None \<Rightarrow> finish_id) in
           if start_id = finish_id then Ok () else Err FE_OutOfSync)
      | Started start_id \<Rightarrow> Err (FE_Restarted start_id)
      | SNone \<Rightarrow> Err FE_OutOfSync)"

definition finish_wait :: "'a session_channel \<Rightarrow> ('a sess_event \<times> 'a session_channel) option" where
  "finish_wait c =
     (case life_recv c of
        None \<Rightarrow> None
      | Some (v, c') \<Rightarrow> Some (E_FinishReturned (finish_result (ss_state c) v), c'\<lparr>ss_state := v, ss_pc := S_Idle\<rparr>))"

section \<open>The receiver\<close>

definition sess_start :: "'a session_channel \<Rightarrow> ('a sess_event \<times> 'a session_channel) option" where
  "sess_start c =
     (let session_id = sr_next c in
      Some (E_SessionStarted session_id,
        (life_send (Started session_id) c)\<lparr>sr_next := session_id + 1, sr_pc := R_Active session_id False\<rparr>))"

definition is_end :: "'a finite_stream \<Rightarrow> bool" where
  "is_end x \<longleftrightarrow> (case x of End \<Rightarrow> True | _ \<Rightarrow> False)"

definition active_recv ::
  "u32 \<Rightarrow> bool \<Rightarrow> 'a session_channel \<Rightarrow> ('a sess_event \<times> 'a session_channel) option" where
  "active_recv session_id should_finish c =
     (if should_finish then Some (E_EndAgain, c)
      else case pop_front (sc_queue c) of
        None \<Rightarrow> None
      | Some (data, q) \<Rightarrow> Some (E_Got data, c\<lparr>sc_queue := q, sr_pc := R_Active session_id (is_end data)\<rparr>))"

definition active_try_recv ::
  "u32 \<Rightarrow> bool \<Rightarrow> 'a session_channel \<Rightarrow> ('a sess_event \<times> 'a session_channel) option" where
  "active_try_recv session_id should_finish c =
     (case active_recv session_id should_finish c of None \<Rightarrow> Some (E_Empty, c) | r \<Rightarrow> r)"

text \<open>A round of \<open>_inner_finish\<close>: one more item is discarded, or the queue is empty and the state is sent.\<close>

definition inner_finish_round ::
  "u32 \<Rightarrow> bool \<Rightarrow> 'a session_channel \<Rightarrow> ('a sess_event \<times> 'a session_channel) option" where
  "inner_finish_round session_id again c =
     (case pop_front (sc_queue c) of
        Some (data, q) \<Rightarrow> Some (E_Discarded data, c\<lparr>sc_queue := q\<rparr>)
      | None \<Rightarrow>
          Some (E_SessionFinished session_id,
            (life_send (Finished session_id) c)\<lparr>sr_pc := (if again then R_Finishing session_id False else R_Idle)\<rparr>))"

section \<open>Steps and runs\<close>

datatype 'a sess_act =
    A_WaitStarted
  | A_Send 'a
  | A_TrySend 'a
  | A_SendReset
  | A_FinishAndWait
  | A_SenderGo
  | A_Start
  | A_Recv
  | A_TryRecv
  | A_DropSession
  | A_FinishSession
  | A_ReceiverGo

fun sess_step :: "nat \<Rightarrow> 'a sess_act \<Rightarrow> 'a session_channel \<Rightarrow> ('a sess_event \<times> 'a session_channel) option" where
  "sess_step cap A_WaitStarted c = (if ss_pc c = S_Idle then Some (E_Silent, c\<lparr>ss_pc := S_WaitStart\<rparr>) else None)"
| "sess_step cap (A_Send v) c = (if ss_pc c = S_Idle then sess_send cap (Data v) c else None)"
| "sess_step cap (A_TrySend v) c = (if ss_pc c = S_Idle then sess_try_send cap v c else None)"
| "sess_step cap A_SendReset c = (if ss_pc c = S_Idle then sess_send cap Reset c else None)"
| "sess_step cap A_FinishAndWait c = (if ss_pc c = S_Idle then finish_send cap c else None)"
| "sess_step cap A_SenderGo c =
     (case ss_pc c of S_WaitStart \<Rightarrow> wait_started_round c | S_Finishing \<Rightarrow> finish_wait c | S_Idle \<Rightarrow> None)"
| "sess_step cap A_Start c = (if sr_pc c = R_Idle then sess_start c else None)"
| "sess_step cap A_Recv c = (case sr_pc c of R_Active i f \<Rightarrow> active_recv i f c | _ \<Rightarrow> None)"
| "sess_step cap A_TryRecv c = (case sr_pc c of R_Active i f \<Rightarrow> active_try_recv i f c | _ \<Rightarrow> None)"
| "sess_step cap A_DropSession c =
     (case sr_pc c of R_Active i f \<Rightarrow> Some (E_Silent, c\<lparr>sr_pc := R_Finishing i False\<rparr>) | _ \<Rightarrow> None)"
| "sess_step cap A_FinishSession c =
     (case sr_pc c of R_Active i f \<Rightarrow> Some (E_Silent, c\<lparr>sr_pc := R_Finishing i True\<rparr>) | _ \<Rightarrow> None)"
| "sess_step cap A_ReceiverGo c = (case sr_pc c of R_Finishing i again \<Rightarrow> inner_finish_round i again c | _ \<Rightarrow> None)"

text \<open>
  The use the traits describe: the sender waits for the start of a session before it sends, and the
  receiver ends a session after it has received \<open>End\<close>.
\<close>

fun is_started :: "session_state \<Rightarrow> bool" where
  "is_started (Started _) = True"
| "is_started _ = False"

fun by_protocol :: "'a sess_act \<Rightarrow> 'a session_channel \<Rightarrow> bool" where
  "by_protocol A_WaitStarted c = (\<not> is_started (ss_state c))"
| "by_protocol (A_Send _) c = is_started (ss_state c)"
| "by_protocol (A_TrySend _) c = is_started (ss_state c)"
| "by_protocol A_SendReset c = is_started (ss_state c)"
| "by_protocol A_FinishAndWait c = is_started (ss_state c)"
| "by_protocol A_DropSession c = (case sr_pc c of R_Active _ f \<Rightarrow> f | _ \<Rightarrow> False)"
| "by_protocol A_FinishSession c = (case sr_pc c of R_Active _ f \<Rightarrow> f | _ \<Rightarrow> False)"
| "by_protocol _ c = True"

inductive sess_run :: "nat \<Rightarrow> ('a sess_act \<Rightarrow> 'a session_channel \<Rightarrow> bool) \<Rightarrow> 'a sess_event list \<Rightarrow> 'a session_channel \<Rightarrow> bool"
  for cap :: nat and allowed :: "'a sess_act \<Rightarrow> 'a session_channel \<Rightarrow> bool" where
  run_start: "sess_run cap allowed [] create_session_channel"
| run_step: "sess_run cap allowed evs c \<Longrightarrow> allowed a c \<Longrightarrow> sess_step cap a c = Some (e, c')
    \<Longrightarrow> sess_run cap allowed (evs @ [e]) c'"

text \<open>What was put into the queue, and what the receiver was given.\<close>

fun sent_of :: "'a sess_event \<Rightarrow> 'a finite_stream list" where
  "sent_of (E_Sent x) = [x]"
| "sent_of (E_EndSent _) = [End]"
| "sent_of _ = []"

fun got_of :: "'a sess_event \<Rightarrow> 'a finite_stream list" where
  "got_of (E_Got x) = [x]"
| "got_of _ = []"

definition sent :: "'a sess_event list \<Rightarrow> 'a finite_stream list" where
  "sent evs = concat (map sent_of evs)"

definition got :: "'a sess_event list \<Rightarrow> 'a finite_stream list" where
  "got evs = concat (map got_of evs)"

end
