(* ===== verification/Session_Theorems.thy ===== *)
theory Session_Theorems
  imports Session_Channel
begin

text \<open>
  What the session channel guarantees when both ends follow the protocol: nothing is lost, and a sender
  whose \<open>finish_and_wait\<close> returns knows that the receiver has handled everything.
\<close>

section \<open>The states a run by the protocol can reach\<close>

definition between_sessions :: "'a session_channel \<Rightarrow> bool" where
  "between_sessions c \<longleftrightarrow> \<not> is_started (ss_state c) \<and> ss_pc c \<noteq> S_Finishing"

definition awaits_finish :: "u32 \<Rightarrow> 'a session_channel \<Rightarrow> bool" where
  "awaits_finish k c \<longleftrightarrow> ss_state c = Started k \<and> ss_pc c = S_Finishing"

definition in_session :: "u32 \<Rightarrow> 'a session_channel \<Rightarrow> bool" where
  "in_session k c \<longleftrightarrow> ss_state c = Started k \<and>
     (ss_pc c = S_Idle \<and> End \<notin> set (sc_queue c)
      \<or> ss_pc c = S_Finishing \<and> sc_queue c \<noteq> [] \<and> last (sc_queue c) = End \<and> End \<notin> set (butlast (sc_queue c)))"

definition sess_inv :: "'a session_channel \<Rightarrow> bool" where
  "sess_inv c \<longleftrightarrow>
     (case sr_pc c of
        R_Idle \<Rightarrow> sc_queue c = [] \<and>
          (\<exists>k. sc_life c = Finished k \<and> (between_sessions c \<or> sc_fresh c \<and> awaits_finish k c \<and> sr_next c = k + 1))
      | R_Active k f \<Rightarrow> sc_life c = Started k \<and> sr_next c = k + 1 \<and>
          (if f then sc_queue c = [] \<and> \<not> sc_fresh c \<and> awaits_finish k c
           else (sc_fresh c \<and> sc_queue c = [] \<and> (between_sessions c \<or> (\<exists>j. awaits_finish j c \<and> k = j + 1)))
             \<or> (\<not> sc_fresh c \<and> in_session k c))
      | R_Finishing k again \<Rightarrow> sc_queue c = [] \<and> sr_next c = k + 1 \<and>
          (sc_life c = Started k \<and> \<not> sc_fresh c \<and> awaits_finish k c
           \<or> sc_life c = Finished k \<and> (between_sessions c \<or> sc_fresh c \<and> awaits_finish k c)))"

lemma sess_inv_create: "sess_inv create_session_channel"
  by (simp add: sess_inv_def create_session_channel_def between_sessions_def)

lemmas sess_ops = wait_started_round_def sess_send_def sess_try_send_def finish_send_def finish_wait_def sess_start_def
  active_recv_def active_try_recv_def inner_finish_round_def data_send_def life_send_def life_recv_def Let_def

lemmas inv_parts = sess_inv_def between_sessions_def awaits_finish_def in_session_def

lemma pop_front_Some: "pop_front q = Some (x, xs) \<longleftrightarrow> q = x # xs"
  by (cases q) auto

lemma pop_front_None: "pop_front q = None \<longleftrightarrow> q = []"
  by (cases q) auto

lemma is_end_iff: "is_end x \<longleftrightarrow> x = End"
  by (auto simp: is_end_def split: finite_stream.splits)

lemma is_started_iff: "is_started s \<longleftrightarrow> (\<exists>k. s = Started k)"
  by (cases s) auto

text \<open>A sender that may send is in the session the receiver has open.\<close>

lemma may_send:
  assumes "sess_inv c" and "is_started (ss_state c)" and "ss_pc c = S_Idle"
  obtains k where "sr_pc c = R_Active k False" "sc_life c = Started k" "sr_next c = k + 1" "\<not> sc_fresh c"
    "ss_state c = Started k" "End \<notin> set (sc_queue c)"
  using assms by (cases "sr_pc c") (auto simp: inv_parts split: if_splits)

lemma inv_put:
  assumes "sess_inv c" and "is_started (ss_state c)" and "ss_pc c = S_Idle" and "x \<noteq> End"
  shows "sess_inv (c\<lparr>sc_queue := sc_queue c @ [x]\<rparr>)"
proof -
  obtain k where "sr_pc c = R_Active k False" "sc_life c = Started k" "sr_next c = k + 1" "\<not> sc_fresh c"
      "ss_state c = Started k" "End \<notin> set (sc_queue c)"
    using may_send [OF assms(1-3)] by metis
  then show ?thesis
    using assms(3,4) by (simp add: sess_inv_def in_session_def)
qed

lemma inv_put_end:
  assumes "sess_inv c" and "is_started (ss_state c)" and "ss_pc c = S_Idle"
  shows "sess_inv (c\<lparr>sc_queue := sc_queue c @ [End], ss_pc := S_Finishing\<rparr>)"
proof -
  obtain k where "sr_pc c = R_Active k False" "sc_life c = Started k" "sr_next c = k + 1" "\<not> sc_fresh c"
      "ss_state c = Started k" "End \<notin> set (sc_queue c)"
    using may_send [OF assms(1-3)] by metis
  then show ?thesis
    by (simp add: sess_inv_def in_session_def)
qed

lemma inv_receive:
  assumes "sess_inv c" and "sr_pc c = R_Active k False" and "sc_queue c = x # q"
  shows "sess_inv (c\<lparr>sc_queue := q, sr_pc := R_Active k (is_end x)\<rparr>)"
proof -
  have c: "sc_life c = Started k" "sr_next c = k + 1" "\<not> sc_fresh c" "in_session k c"
    using assms by (auto simp: sess_inv_def)
  show ?thesis
  proof (cases "q = []")
    case True
    then show ?thesis
      using c assms(3) by (auto simp: sess_inv_def in_session_def awaits_finish_def is_end_iff)
  next
    case False
    then have "x \<noteq> End"
      using c assms(3) by (auto simp: in_session_def)
    then show ?thesis
      using c assms(3) False by (auto simp: sess_inv_def in_session_def is_end_iff)
  qed
qed

lemma inv_queue_empty:
  "sess_inv c \<Longrightarrow> sr_pc c = R_Finishing k again \<Longrightarrow> sc_queue c = []"
  by (simp add: sess_inv_def)

text \<open>Taking the latest state: the receiver's new session becomes the sender's, or the sender is between sessions.\<close>

lemma inv_take_life:
  assumes "sess_inv c" and "sc_fresh c" and "ss_pc c \<noteq> S_Idle"
    and "pc' = (if is_started (sc_life c) then S_Idle else pc)" and "pc \<noteq> S_Finishing"
  shows "sess_inv (c\<lparr>sc_fresh := False, ss_state := sc_life c, ss_pc := pc'\<rparr>)"
proof (cases "sr_pc c")
  case R_Idle
  then show ?thesis
    using assms by (auto simp: sess_inv_def between_sessions_def)
next
  case (R_Active k f)
  then have "sc_life c = Started k" "sr_next c = k + 1" "sc_queue c = []" "\<not> f"
    using assms by (auto simp: sess_inv_def split: if_splits)
  then show ?thesis
    using R_Active assms(4) by (simp add: sess_inv_def in_session_def)
next
  case (R_Finishing k again)
  then have "sc_life c = Finished k" "sr_next c = k + 1" "sc_queue c = []"
    using assms by (auto simp: sess_inv_def)
  then show ?thesis
    using R_Finishing assms(4,5) by (simp add: sess_inv_def between_sessions_def)
qed

lemma sess_step_inv:
  assumes inv: "sess_inv c" and "by_protocol a c" and step: "sess_step cap a c = Some (e, c')"
  shows "sess_inv c'"
proof (cases a)
  case A_WaitStarted
  then have c': "c' = c\<lparr>ss_pc := S_WaitStart\<rparr>" and idle: "ss_pc c = S_Idle" "\<not> is_started (ss_state c)"
    using assms by (auto split: if_splits)
  then have "\<not> awaits_finish k c" "\<not> in_session k c" "between_sessions c" "between_sessions c'" for k
    by (auto simp: awaits_finish_def in_session_def between_sessions_def)
  then show ?thesis
    using inv by (simp add: sess_inv_def c' split: receiver_pc.splits if_splits)
next
  case (A_Send v)
  then show ?thesis
    using assms by (auto simp: sess_ops intro: inv_put split: if_splits)
next
  case (A_TrySend v)
  then show ?thesis
    using assms by (auto simp: sess_ops intro: inv_put split: if_splits)
next
  case A_SendReset
  then show ?thesis
    using assms by (auto simp: sess_ops intro: inv_put split: if_splits)
next
  case A_FinishAndWait
  then show ?thesis
    using assms inv_put_end [OF inv] by (auto simp: sess_ops is_started_iff split: if_splits session_state.splits)
next
  case A_SenderGo
  then show ?thesis
    using step inv_take_life [OF inv, of _ "ss_pc c"] inv_take_life [OF inv, of _ S_Idle]
    by (cases "sc_life c") (auto simp: sess_ops split: sender_pc.splits if_splits)
next
  case A_Start
  then show ?thesis
    using assms by (auto simp: inv_parts sess_ops split: if_splits)
next
  case A_Recv
  then show ?thesis
    using inv step inv_receive [OF inv]
    by (auto simp: sess_ops pop_front_Some split: receiver_pc.splits if_splits option.splits)
next
  case A_TryRecv
  then show ?thesis
    using inv step inv_receive [OF inv]
    by (auto simp: sess_ops pop_front_Some split: receiver_pc.splits if_splits option.splits)
next
  case A_ReceiverGo
  then obtain k again where "sr_pc c = R_Finishing k again"
    using step by (auto split: receiver_pc.splits)
  then show ?thesis
    using A_ReceiverGo inv step inv_queue_empty [OF inv]
    by (auto simp: inv_parts sess_ops split: if_splits)
qed (use assms in \<open>auto simp: inv_parts split: receiver_pc.splits if_splits\<close>)

section \<open>Delivery\<close>

fun discarded_of :: "'a sess_event \<Rightarrow> 'a finite_stream list" where
  "discarded_of (E_Discarded x) = [x]"
| "discarded_of _ = []"

lemma step_accounts:
  assumes "sess_step cap a c = Some (e, c')"
  shows "sc_queue c @ sent_of e = got_of e @ discarded_of e @ sc_queue c'"
  using assms by (cases a) (auto simp: sess_ops pop_front_Some split: receiver_pc.splits sender_pc.splits session_state.splits
      if_splits option.splits)

lemma step_discards:
  assumes "sess_inv c" and "sess_step cap a c = Some (e, c')"
  shows "discarded_of e = []"
proof -
  have "sc_queue c = []" if "sr_pc c = R_Finishing k again" for k again
    using inv_queue_empty [OF assms(1) that] .
  with assms(2) show ?thesis
    by (cases a) (auto simp: sess_ops split: receiver_pc.splits sender_pc.splits session_state.splits if_splits option.splits)
qed

lemma sess_run_inv: "sess_run cap by_protocol evs c \<Longrightarrow> sess_inv c"
  by (induction rule: sess_run.induct) (auto simp: sess_inv_create intro: sess_step_inv)

lemma run_delivers:
  "sess_run cap by_protocol evs c \<Longrightarrow> sent evs = got evs @ sc_queue c"
proof (induction rule: sess_run.induct)
  case run_start
  then show ?case
    by (simp add: sent_def got_def create_session_channel_def)
next
  case (run_step evs c a e c')
  then show ?case
    using step_accounts [OF run_step(3)] step_discards [OF sess_run_inv run_step(3)] by (simp add: sent_def got_def)
qed

text \<open>What the sender learns when \<open>finish_and_wait\<close> returns after waiting.\<close>

lemma finish_returned_state:
  assumes "sess_inv c" and "sess_step cap a c = Some (E_FinishReturned r, c')"
  shows "sc_queue c = [] \<and> (\<exists>k. ss_state c = Started k \<and> (r = Ok () \<or> r = Err (FE_Restarted (k + 1))))"
proof -
  have fin: "ss_pc c = S_Finishing" "sc_fresh c" "r = finish_result (ss_state c) (sc_life c)"
    using assms(2) by (cases a; auto simp: sess_ops split: receiver_pc.splits sender_pc.splits session_state.splits
        if_splits option.splits)+
  show ?thesis
    using assms(1) fin by (cases "sr_pc c") (auto simp: inv_parts finish_result_def split: if_splits)
qed

text \<open>
  C18. When the sender waits for the start of a session before it sends and the receiver ends a session
  only after \<open>End\<close>, then in every interleaving of the two the receiver gets exactly the items sent, in
  order, the \<open>End\<close> of every session included, and the clean-up at the end of a session discards nothing.
  When \<open>finish_and_wait\<close> returns after waiting, the receiver has been given everything that was sent, and the
  result is success or \<open>Restarted\<close> with the number of the very next session; \<open>OutOfSync\<close> never occurs.
\<close>

theorem session_delivers_and_confirms:
  assumes "sess_run cap by_protocol evs c" and "by_protocol a c" and "sess_step cap a c = Some (e, c')"
  shows "sent (evs @ [e]) = got (evs @ [e]) @ sc_queue c' \<and> (\<forall>x. e \<noteq> E_Discarded x)
    \<and> (\<forall>r. e = E_FinishReturned r \<longrightarrow>
         sent evs = got evs \<and> (\<exists>k. ss_state c = Started k \<and> (r = Ok () \<or> r = Err (FE_Restarted (k + 1)))))"
proof -
  have inv: "sess_inv c"
    using assms(1) by (rule sess_run_inv)
  have "sent (evs @ [e]) = got (evs @ [e]) @ sc_queue c'"
    using assms by (intro run_delivers run_step)
  moreover have "e \<noteq> E_Discarded x" for x
    using step_discards [OF inv assms(3)] by auto
  moreover have "sent evs = got evs \<and> (\<exists>k. ss_state c = Started k \<and> (r = Ok () \<or> r = Err (FE_Restarted (k + 1))))"
    if "e = E_FinishReturned r" for r
    using finish_returned_state [OF inv, of cap a r c'] assms(3) that run_delivers [OF assms(1)] by simp
  ultimately show ?thesis
    by blast
qed

text \<open>Runs from a list of actions, to show that the steps of a session can be taken.\<close>

fun sess_acts :: "nat \<Rightarrow> 'a sess_act list \<Rightarrow> 'a session_channel \<Rightarrow> ('a sess_event list \<times> 'a session_channel) option" where
  "sess_acts cap [] c = Some ([], c)"
| "sess_acts cap (a # as) c =
     (if by_protocol a c then
        case sess_step cap a c of
          None \<Rightarrow> None
        | Some (e, c') \<Rightarrow> map_option (apfst (Cons e)) (sess_acts cap as c')
      else None)"

lemma sess_acts_run:
  "sess_run cap by_protocol evs c \<Longrightarrow> sess_acts cap as c = Some (evs', c') \<Longrightarrow> sess_run cap by_protocol (evs @ evs') c'"
proof (induction as arbitrary: evs c evs')
  case (Cons a as)
  then obtain e c1 evs1 where "by_protocol a c" "sess_step cap a c = Some (e, c1)" "sess_acts cap as c1 = Some (evs1, c')"
      "evs' = e # evs1"
    by (auto split: if_splits option.splits)
  then show ?case
    using Cons.IH [of "evs @ [e]" c1 evs1] Cons.prems(1) run_step by fastforce
qed simp

text \<open>A session with one item and the start of the next one before the sender reads the feedback.\<close>

definition one_session :: "nat sess_act list" where
  "one_session = [A_WaitStarted, A_Start, A_SenderGo, A_Send 7, A_FinishAndWait, A_Recv, A_Recv, A_FinishSession,
     A_ReceiverGo, A_ReceiverGo, A_Start]"

theorem session_delivers_and_confirms_witness:
  "\<exists>evs c c'. sess_acts 2 one_session create_session_channel = Some (evs, c)
     \<and> sess_step 2 A_SenderGo c = Some (E_FinishReturned (Err (FE_Restarted 1)), c')
     \<and> sent evs = got evs \<and> got evs = [Data 7, End]"
proof -
  define r where "r = the (sess_acts 2 one_session create_session_channel)"
  have r: "sess_acts 2 one_session create_session_channel = Some r" "got (fst r) = [Data 7, End]"
    unfolding r_def by code_simp+
  define c' where "c' = snd (the (sess_step 2 A_SenderGo (snd r)))"
  have step: "sess_step 2 A_SenderGo (snd r) = Some (E_FinishReturned (Err (FE_Restarted 1)), c')"
    unfolding c'_def r_def by code_simp
  have "sess_run 2 by_protocol (fst r) (snd r)"
    using sess_acts_run [OF run_start, of 2 one_session "fst r" "snd r"] r(1) by simp
  from session_delivers_and_confirms [OF this _ step] have "sent (fst r) = got (fst r)"
    by simp
  with r step show ?thesis
    by (intro exI [of _ "fst r"] exI [of _ "snd r"] exI [of _ c']) simp
qed

section \<open>Waiting again after a restart\<close>

text \<open>
  C38. \<open>finish_and_wait\<close> that returns \<open>Restarted\<close> has consumed the signal that the next session has started.
  A sender that then calls \<open>wait_started\<close>, as the description of \<open>finish_and_wait\<close> recommends, waits for a
  signal the receiver sends only when it ends the session, while the receiver waits for the sender's data:
  neither call can return.
\<close>

theorem wait_after_restart_deadlocks:
  assumes "sess_run cap by_protocol evs c" and "sess_step cap a c = Some (E_FinishReturned (Err (FE_Restarted j)), c')"
  shows "\<exists>c''. sess_step cap A_WaitStarted c' = Some (E_Silent, c'')
    \<and> sr_pc c'' = R_Active j False \<and> sess_step cap A_SenderGo c'' = None \<and> sess_step cap A_Recv c'' = None"
proof -
  have fin: "ss_pc c = S_Finishing" "sc_fresh c" "sc_life c = Started j"
      "c' = c\<lparr>sc_fresh := False, ss_state := sc_life c, ss_pc := S_Idle\<rparr>"
    using assms(2) by (cases a; auto simp: sess_ops finish_result_def split: receiver_pc.splits sender_pc.splits
        session_state.splits if_splits option.splits)+
  then have "sr_pc c = R_Active j False" "sc_queue c = []"
    using sess_run_inv [OF assms(1)] by (auto simp: sess_inv_def split: receiver_pc.splits if_splits)
  then show ?thesis
    using fin by (simp add: sess_ops)
qed

theorem wait_after_restart_deadlocks_witness:
  "\<exists>evs c c' c''. sess_acts 2 one_session create_session_channel = Some (evs, c)
     \<and> sess_step 2 A_SenderGo c = Some (E_FinishReturned (Err (FE_Restarted 1)), c')
     \<and> sess_step 2 A_WaitStarted c' = Some (E_Silent, c'')
     \<and> sess_step 2 A_SenderGo c'' = None \<and> sess_step 2 A_Recv c'' = None"
proof -
  define r where "r = the (sess_acts 2 one_session create_session_channel)"
  have r: "sess_acts 2 one_session create_session_channel = Some r"
    unfolding r_def by code_simp
  define c' where "c' = snd (the (sess_step 2 A_SenderGo (snd r)))"
  have step: "sess_step 2 A_SenderGo (snd r) = Some (E_FinishReturned (Err (FE_Restarted 1)), c')"
    unfolding c'_def r_def by code_simp
  have "sess_run 2 by_protocol (fst r) (snd r)"
    using sess_acts_run [OF run_start, of 2 one_session "fst r" "snd r"] r by simp
  from wait_after_restart_deadlocks [OF this step] r step show ?thesis
    by (metis prod.collapse)
qed

end
