(* ===== verification/Sync_Primitives.thy ===== *)
theory Sync_Primitives
  imports Session_Channel
begin

text \<open>
  The reserving sender of \<open>sync/reserving_sender.rs\<close> over the channel of \<open>utils/channels.rs\<close> and the change
  notification of \<open>utils/sync.rs\<close>, and the cell of \<open>sync/once_lock.rs\<close> that is initialised once. Both are
  used by several contexts at the same time: a step is one access to the shared state, and the runs
  are all interleavings of the steps.
\<close>

section \<open>Reserving sender\<close>

text \<open>
  The loop of \<open>reserve\<close> checks for room (\<open>RS_Check\<close>) and waits for a change (\<open>RS_Await\<close>); \<open>RS_Reserved\<close>
  is a sender that owns a reservation. The receiver notifies (\<open>RR_Notify\<close>) after it has taken an item.
\<close>

datatype rs_pc = RS_Idle | RS_Check | RS_Await | RS_Reserved

datatype rr_pc = RR_Idle | RR_Notify

record 'a reserving_channel =
  rc_queue :: "'a list"
  rc_notified :: bool
  rs_pc_of :: rs_pc
  rr_pc_of :: rr_pc

definition create_reserving_channel :: "'a reserving_channel" where
  "create_reserving_channel = \<lparr>rc_queue = [], rc_notified = False, rs_pc_of = RS_Idle, rr_pc_of = RR_Idle\<rparr>"

definition rc_is_ready :: "nat \<Rightarrow> 'a reserving_channel \<Rightarrow> bool" where
  "rc_is_ready cap c \<longleftrightarrow> length (rc_queue c) < cap"

definition rc_try_send :: "nat \<Rightarrow> 'a \<Rightarrow> 'a reserving_channel \<Rightarrow> (unit, 'a) result \<times> 'a reserving_channel" where
  "rc_try_send cap v c =
     (if length (rc_queue c) < cap then (Ok (), c\<lparr>rc_queue := rc_queue c @ [v]\<rparr>) else (Err v, c))"

definition reserve_check :: "nat \<Rightarrow> 'a reserving_channel \<Rightarrow> 'a reserving_channel" where
  "reserve_check cap c = (if rc_is_ready cap c then c\<lparr>rs_pc_of := RS_Reserved\<rparr> else c\<lparr>rs_pc_of := RS_Await\<rparr>)"

definition await_change :: "'a reserving_channel \<Rightarrow> 'a reserving_channel option" where
  "await_change c = (if rc_notified c then Some (c\<lparr>rc_notified := False, rs_pc_of := RS_Check\<rparr>) else None)"

definition notifying_recv :: "'a reserving_channel \<Rightarrow> ('a \<times> 'a reserving_channel) option" where
  "notifying_recv c =
     (case pop_front (rc_queue c) of
        None \<Rightarrow> None
      | Some (x, q) \<Rightarrow> Some (x, c\<lparr>rc_queue := q, rr_pc_of := RR_Notify\<rparr>))"

inductive rc_step :: "nat \<Rightarrow> 'a reserving_channel \<Rightarrow> (unit, 'a) result option \<Rightarrow> 'a reserving_channel \<Rightarrow> bool"
  for cap :: nat where
  call_reserve: "rs_pc_of c = RS_Idle \<Longrightarrow> rc_step cap c None (c\<lparr>rs_pc_of := RS_Check\<rparr>)"
| check: "rs_pc_of c = RS_Check \<Longrightarrow> rc_step cap c None (reserve_check cap c)"
| await: "rs_pc_of c = RS_Await \<Longrightarrow> await_change c = Some c' \<Longrightarrow> rc_step cap c None c'"
| cancel: "rs_pc_of c \<noteq> RS_Idle \<Longrightarrow> rc_step cap c None (c\<lparr>rs_pc_of := RS_Idle\<rparr>)"
| direct_send: "rs_pc_of c = RS_Idle \<Longrightarrow> rc_try_send cap v c = (r, c') \<Longrightarrow> rc_step cap c None c'"
| reserved_send: "rs_pc_of c = RS_Reserved \<Longrightarrow> rc_try_send cap v c = (r, c') \<Longrightarrow> rc_step cap c (Some r) (c'\<lparr>rs_pc_of := RS_Idle\<rparr>)"
| recv: "rr_pc_of c = RR_Idle \<Longrightarrow> notifying_recv c = Some (x, c') \<Longrightarrow> rc_step cap c None c'"
| notify: "rr_pc_of c = RR_Notify \<Longrightarrow> rc_step cap c None (c\<lparr>rc_notified := True, rr_pc_of := RR_Idle\<rparr>)"

inductive rc_reachable :: "nat \<Rightarrow> 'a reserving_channel \<Rightarrow> bool" for cap :: nat where
  rc_init: "rc_reachable cap create_reserving_channel"
| rc_next: "rc_reachable cap c \<Longrightarrow> rc_step cap c r c' \<Longrightarrow> rc_reachable cap c'"

inductive_cases rc_stepE: "rc_step cap c r c'"

text \<open>A reservation has room, and a sender that waits although there is room is about to be woken.\<close>

definition rc_inv :: "nat \<Rightarrow> 'a reserving_channel \<Rightarrow> bool" where
  "rc_inv cap c \<longleftrightarrow>
     (rs_pc_of c = RS_Reserved \<longrightarrow> length (rc_queue c) < cap)
     \<and> (rs_pc_of c = RS_Await \<and> length (rc_queue c) < cap \<longrightarrow> rc_notified c \<or> rr_pc_of c = RR_Notify)"

lemmas rc_ops = rc_is_ready_def rc_try_send_def reserve_check_def await_change_def notifying_recv_def

lemma rc_length_pop: "pop_front q = Some (x, xs) \<Longrightarrow> length q = Suc (length xs)"
  by (cases q) auto

lemma rc_reachable_inv: "rc_reachable cap c \<Longrightarrow> rc_inv cap c"
proof (induction rule: rc_reachable.induct)
  case rc_init
  then show ?case
    by (simp add: rc_inv_def create_reserving_channel_def)
next
  case (rc_next c r c')
  from rc_next(2) show ?case
    by (cases rule: rc_step.cases) (use rc_next(3) in \<open>auto simp: rc_inv_def rc_ops dest!: rc_length_pop split: if_splits option.splits\<close>)
qed

text \<open>
  C28. With one sender, a reservation always succeeds: whatever the receiver does between \<open>reserve\<close> and
  \<open>try_send\<close>, the value is accepted. And no wake-up is lost: a sender that waits while the queue has room
  finds the notification set, or the receiver is between taking an item and notifying, so one more step of
  the receiver lets the sender go on.
\<close>

theorem reservation_succeeds_and_wakes:
  assumes "rc_reachable cap c"
  shows "(\<forall>r c'. rc_step cap c (Some r) c' \<longrightarrow> r = Ok ())
    \<and> (rs_pc_of c = RS_Await \<longrightarrow> length (rc_queue c) < cap \<longrightarrow>
        await_change c \<noteq> None
        \<or> rr_pc_of c = RR_Notify \<and> await_change (c\<lparr>rc_notified := True, rr_pc_of := RR_Idle\<rparr>) \<noteq> None)"
proof -
  have inv: "rc_inv cap c"
    using assms by (rule rc_reachable_inv)
  then have "r = Ok ()" if "rc_step cap c (Some r) c'" for r c'
    using that by (auto elim!: rc_stepE simp: rc_inv_def rc_try_send_def)
  with inv show ?thesis
    by (auto simp: rc_inv_def await_change_def)
qed

theorem reservation_succeeds_and_wakes_witness:
  "fst (rc_try_send 1 (5 :: nat) (create_reserving_channel\<lparr>rs_pc_of := RS_Reserved\<rparr>)) = Ok ()"
proof -
  let ?c0 = "create_reserving_channel\<lparr>rs_pc_of := RS_Check\<rparr> :: nat reserving_channel"
  let ?c1 = "create_reserving_channel\<lparr>rs_pc_of := RS_Reserved\<rparr> :: nat reserving_channel"
  have "rc_step 1 create_reserving_channel None ?c0"
    by (rule call_reserve) (simp add: create_reserving_channel_def)
  moreover have "rc_step 1 ?c0 None (reserve_check 1 ?c0)"
    by (rule check) simp
  moreover have "reserve_check 1 ?c0 = ?c1"
    by (simp add: reserve_check_def rc_is_ready_def create_reserving_channel_def)
  ultimately have "rc_reachable 1 ?c1"
    by (metis rc_init rc_next)
  note succeeds = reservation_succeeds_and_wakes [OF this, THEN conjunct1, rule_format]
  show ?thesis
    by (rule succeeds, rule reserved_send [where v = 5]) (simp, rule surjective_pairing)
qed

section \<open>A cell that is initialised once\<close>

text \<open>
  \<open>once_init\<close> is the enum behind the atomic \<open>initialized\<close>. \<open>O_Init\<close> is a thread that won the exchange, \<open>O_Publish\<close> one
  that has written its value. Reading memory that was never written is the value \<open>None\<close> of \<open>ol_data\<close>.
\<close>

datatype once_pc = O_Idle | O_Init | O_Publish

datatype once_init = Init_None | Init_Busy | Init_Done

record 'a once_lock =
  ol_initialized :: once_init
  ol_data :: "'a option"

definition once_lock_new :: "'a once_lock" where
  "once_lock_new = \<lparr>ol_initialized = Init_None, ol_data = None\<rparr>"

definition once_get :: "'a once_lock \<Rightarrow> 'a option option" where
  "once_get l = (if ol_initialized l = Init_Done then Some (ol_data l) else None)"

datatype 'a once_event = O_Silent | O_Refused | O_Returned "'a option option"

fun once_step :: "'a once_lock \<Rightarrow> once_pc \<Rightarrow> 'a option \<Rightarrow> 'a once_event \<times> 'a once_lock \<times> once_pc" where
  "once_step l O_Idle (Some v) =
     (if ol_initialized l = Init_None then (O_Silent, l\<lparr>ol_initialized := Init_Busy\<rparr>, O_Init) else (O_Refused, l, O_Idle))"
| "once_step l O_Idle None = (O_Returned (once_get l), l, O_Idle)"
| "once_step l O_Init v = (O_Silent, l\<lparr>ol_data := v\<rparr>, O_Publish)"
| "once_step l O_Publish v =
     (let l' = l\<lparr>ol_initialized := Init_Done\<rparr> in (O_Returned (once_get l'), l', O_Idle))"

text \<open>
  Any number of threads: thread \<open>i\<close> calls \<open>get\<close> (no argument) or \<open>get_or_try_init\<close> with the value \<open>f i\<close> its
  initializer returns. The history lists the results of the calls.
\<close>

inductive once_run :: "(nat \<Rightarrow> 'a) \<Rightarrow> 'a once_event list \<Rightarrow> 'a once_lock \<Rightarrow> (nat \<Rightarrow> once_pc) \<Rightarrow> bool"
  for f :: "nat \<Rightarrow> 'a" where
  once_start: "once_run f [] once_lock_new (\<lambda>_. O_Idle)"
| once_next: "once_run f evs l pcs \<Longrightarrow> v = Some (f i) \<or> (v = None \<and> pcs i = O_Idle)
    \<Longrightarrow> once_step l (pcs i) v = (e, l', p) \<Longrightarrow> once_run f (evs @ [e]) l' (pcs(i := p))"

definition returned :: "'a once_event list \<Rightarrow> 'a option set" where
  "returned evs = {x. O_Returned (Some x) \<in> set evs}"

definition once_inv :: "(nat \<Rightarrow> 'a) \<Rightarrow> 'a once_event list \<Rightarrow> 'a once_lock \<Rightarrow> (nat \<Rightarrow> once_pc) \<Rightarrow> bool" where
  "once_inv f evs l pcs \<longleftrightarrow>
     (case ol_initialized l of
        Init_None \<Rightarrow> pcs = (\<lambda>_. O_Idle) \<and> returned evs = {}
      | Init_Busy \<Rightarrow> returned evs = {} \<and>
          (\<exists>i p. pcs = (\<lambda>_. O_Idle)(i := p) \<and> p \<noteq> O_Idle \<and> (p = O_Publish \<longrightarrow> ol_data l = Some (f i)))
      | Init_Done \<Rightarrow> pcs = (\<lambda>_. O_Idle) \<and> returned evs \<subseteq> {ol_data l} \<and> (\<exists>i. ol_data l = Some (f i)))"

lemma returned_snoc: "returned (evs @ [e]) = returned evs \<union> (case e of O_Returned (Some x) \<Rightarrow> {x} | _ \<Rightarrow> {})"
  by (auto simp: returned_def split: once_event.splits option.splits)

text \<open>A thread that is in the middle of its initialisation is the only one, and it holds the lock.\<close>

lemma once_inv_busy:
  assumes "once_inv f evs l pcs" and "pcs i \<noteq> O_Idle"
  shows "ol_initialized l = Init_Busy" "returned evs = {}" "pcs = (\<lambda>_. O_Idle)(i := pcs i)"
    and "pcs i = O_Publish \<Longrightarrow> ol_data l = Some (f i)"
  using assms by (auto simp: once_inv_def split: once_init.splits if_splits)

lemma once_inv_result:
  assumes "once_inv f evs l pcs" and "e = O_Refused \<or> e = O_Returned (once_get l)"
  shows "once_inv f (evs @ [e]) l pcs"
proof -
  have "returned (evs @ [e]) = returned evs \<union> (if e = O_Refused \<or> ol_initialized l \<noteq> Init_Done then {} else {ol_data l})"
    using assms(2) by (auto simp: returned_snoc once_get_def)
  then show ?thesis
    using assms(1) by (cases "ol_initialized l") (simp_all add: once_inv_def)
qed

lemma once_step_idle:
  assumes "once_step l O_Idle v = (e, l', p)"
  shows "(l' = l \<and> p = O_Idle \<and> (e = O_Refused \<or> e = O_Returned (once_get l)))
    \<or> (ol_initialized l = Init_None \<and> l' = l\<lparr>ol_initialized := Init_Busy\<rparr> \<and> p = O_Init \<and> e = O_Silent)"
  using assms by (cases v) (auto split: if_splits)

lemma once_won:
  assumes "once_inv f evs l pcs" and "ol_initialized l = Init_None"
  shows "once_inv f (evs @ [O_Silent]) (l\<lparr>ol_initialized := Init_Busy\<rparr>) (pcs(i := O_Init))"
proof -
  have "pcs = (\<lambda>_. O_Idle)" "returned (evs @ [O_Silent]) = {}"
    using assms by (simp_all add: once_inv_def returned_snoc)
  moreover have "\<exists>j p. (\<lambda>_. O_Idle)(i := O_Init) = (\<lambda>_. O_Idle)(j := p) \<and> p \<noteq> O_Idle \<and> (p = O_Publish \<longrightarrow> ol_data l = Some (f j))"
    by (intro exI [of _ i] exI [of _ O_Init]) simp
  ultimately show ?thesis
    by (simp add: once_inv_def del: fun_upd_apply)
qed

lemma once_run_inv: "once_run f evs l pcs \<Longrightarrow> once_inv f evs l pcs"
proof (induction rule: once_run.induct)
  case once_start
  then show ?case
    by (simp add: once_inv_def once_lock_new_def returned_def)
next
  case (once_next evs l pcs v i e l' p)
  show ?case
  proof (cases "pcs i = O_Idle")
    case True
    then consider (same) "l' = l" "p = O_Idle" "e = O_Refused \<or> e = O_Returned (once_get l)"
      | (won) "ol_initialized l = Init_None" "l' = l\<lparr>ol_initialized := Init_Busy\<rparr>" "p = O_Init" "e = O_Silent"
      using once_step_idle [of l v e l' p] once_next(3) by auto
    then show ?thesis
    proof cases
      case same
      moreover have "pcs(i := O_Idle) = pcs"
        using True by (rule fun_upd_idem)
      ultimately show ?thesis
        using once_inv_result [OF once_next(4)] by simp
    next
      case won
      then show ?thesis
        using once_won [OF once_next(4)] by (simp del: fun_upd_apply)
    qed
  next
    case False
    note busy = once_inv_busy [OF once_next(4) False]
    have upd: "pcs(i := q) = (\<lambda>_. O_Idle)(i := q)" for q
      by (metis busy(3) fun_upd_upd)
    show ?thesis
    proof (cases "pcs i")
      case O_Init
      then have "l' = l\<lparr>ol_data := Some (f i)\<rparr>" "p = O_Publish" "e = O_Silent"
        using once_next(2,3) by auto
      then show ?thesis
        unfolding upd once_inv_def using busy(1,2) by (auto simp: returned_snoc)
    next
      case O_Publish
      then have "l' = l\<lparr>ol_initialized := Init_Done\<rparr>" "p = O_Idle" "e = O_Returned (Some (ol_data l))"
        using once_next(3) by (auto simp: once_get_def Let_def)
      then show ?thesis
        unfolding upd once_inv_def using busy(2) busy(4) [OF O_Publish] by (auto simp: returned_snoc fun_upd_idem)
    qed (use False in simp)
  qed
qed

text \<open>
  In every interleaving, all references the cell gives out are to one and the same value, which the
  initializer of one of the threads returned: memory that was not initialised is never read.
\<close>

theorem once_lock_single_value:
  assumes "once_run f evs l pcs" and "O_Returned (Some x) \<in> set evs"
  shows "\<exists>i. x = Some (f i) \<and> (\<forall>y. O_Returned (Some y) \<in> set evs \<longrightarrow> y = x)"
proof -
  have inv: "once_inv f evs l pcs" and "x \<in> returned evs"
    using once_run_inv [OF assms(1)] assms(2) by (auto simp: returned_def)
  then have "returned evs \<subseteq> {ol_data l}" and "\<exists>i. ol_data l = Some (f i)"
    by (auto simp: once_inv_def split: once_init.splits)
  with \<open>x \<in> returned evs\<close> show ?thesis
    by (auto simp: returned_def)
qed

end
