(* ===== verification/Device_Config.thy ===== *)
theory Device_Config
  imports Firmware
begin

text \<open>
  The metadata sections next to the firmware image: the configuration a device is provisioned with
  (\<open>meta/config.rs\<close>) and the metadata of the bootloader (\<open>meta/bootloader.rs\<close>), with the two helpers that
  read a zero-terminated string from a fixed field. A \<open>str\<close> is the list of its bytes, and
  \<open>core::str::from_utf8\<close> accepts exactly the well-formed UTF-8 sequences, \<open>is_utf8\<close>. Writing or slicing
  out of bounds panics: the value \<open>None\<close>.
\<close>

section \<open>Strings in fixed fields\<close>

definition is_cont :: "u8 \<Rightarrow> bool" where
  "is_cont b \<longleftrightarrow> 0x80 \<le> b \<and> b \<le> 0xBF"

text \<open>The second byte of a sequence of three or four bytes, by its first byte: no overlong forms, no surrogates.\<close>

definition second_ok :: "u8 \<Rightarrow> u8 \<Rightarrow> bool" where
  "second_ok a b \<longleftrightarrow>
     (if a = 0xE0 then 0xA0 \<le> b \<and> b \<le> 0xBF
      else if a = 0xED then 0x80 \<le> b \<and> b \<le> 0x9F
      else if a = 0xF0 then 0x90 \<le> b \<and> b \<le> 0xBF
      else if a = 0xF4 then 0x80 \<le> b \<and> b \<le> 0x8F
      else is_cont b)"

function is_utf8 :: "bytes \<Rightarrow> bool" where
  "is_utf8 bs =
     (case bs of
        [] \<Rightarrow> True
      | a # bs1 \<Rightarrow>
          if a < 0x80 then is_utf8 bs1
          else if 0xC2 \<le> a \<and> a \<le> 0xDF then
            1 \<le> length bs1 \<and> is_cont (bs1 ! 0) \<and> is_utf8 (drop 1 bs1)
          else if 0xE0 \<le> a \<and> a \<le> 0xEF then
            2 \<le> length bs1 \<and> second_ok a (bs1 ! 0) \<and> is_cont (bs1 ! 1) \<and> is_utf8 (drop 2 bs1)
          else if 0xF0 \<le> a \<and> a \<le> 0xF4 then
            3 \<le> length bs1 \<and> second_ok a (bs1 ! 0) \<and> is_cont (bs1 ! 1) \<and> is_cont (bs1 ! 2) \<and> is_utf8 (drop 3 bs1)
          else False)"
  by pat_completeness auto
termination
  by (relation "measure length") auto

declare is_utf8.simps [simp del]

definition from_utf8 :: "bytes \<Rightarrow> bytes option" where
  "from_utf8 bs = (if is_utf8 bs then Some bs else None)"

definition str_from_zero_padded_slice :: "bytes \<Rightarrow> bytes option" where
  "str_from_zero_padded_slice bs = from_utf8 (takeWhile (\<lambda>b. b \<noteq> 0) bs)"

text \<open>
  \<open>try_string_from_bytes\<close> with \<open>MAX_STR_LEN = n\<close>: the outer \<open>None\<close> is the panic of \<open>bytes[..length]\<close>, the
  inner one the error.
\<close>

definition find_zero :: "bytes \<Rightarrow> nat option" where
  "find_zero bs = (if 0 \<in> set bs then Some (length (takeWhile (\<lambda>b. b \<noteq> 0) bs)) else None)"

definition try_string_from_bytes :: "nat \<Rightarrow> bytes \<Rightarrow> bytes option option" where
  "try_string_from_bytes n bs =
     (let max_len = min (length bs) n;
          len = (case find_zero (take max_len bs) of Some index \<Rightarrow> index | None \<Rightarrow> n) in
      if length bs < len then None else Some (from_utf8 (take len bs)))"

text \<open>\<open>bytes[off..off + n].copy_from_slice\<close>.\<close>

definition put_at :: "nat \<Rightarrow> bytes \<Rightarrow> bytes \<Rightarrow> bytes option" where
  "put_at off xs buf =
     (if off + length xs \<le> length buf then Some (take off buf @ xs @ drop (off + length xs) buf) else None)"

section \<open>Bootloader metadata\<close>

record bootloader_meta =
  bm_version :: bytes
  bm_git_revision :: bytes

datatype bootloader_meta_error = BM_TooFewBytes | BM_InvalidHeader | BM_InvalidVersion | BM_InvalidGitRevision

definition VERSION_LEN :: nat where
  "VERSION_LEN = 16"

definition BM_BINARY_SIZE :: nat where
  "BM_BINARY_SIZE = 4 + 2 * VERSION_LEN"

text \<open>\<open>as_bytes\<close> overwrites the start of the buffer and returns it.\<close>

definition bootloader_meta_as_bytes :: "bootloader_meta \<Rightarrow> bytes \<Rightarrow> (bytes, bootloader_meta_error) result" where
  "bootloader_meta_as_bytes m bs =
     (if length bs < BM_BINARY_SIZE then Err BM_TooFewBytes
      else
        let version = take (min (length (bm_version m)) VERSION_LEN) (bm_version m);
            git_rev = take (min (length (bm_git_revision m)) VERSION_LEN) (bm_git_revision m) in
        Ok (section_header BootloaderMetaHdr @ zero_padded VERSION_LEN version @ zero_padded VERSION_LEN git_rev
            @ drop BM_BINARY_SIZE bs))"

definition bootloader_meta_try_from_bytes :: "bytes \<Rightarrow> (bootloader_meta, bootloader_meta_error) result" where
  "bootloader_meta_try_from_bytes bs =
     (if length bs < BM_BINARY_SIZE then Err BM_TooFewBytes
      else if take 4 bs \<noteq> section_header BootloaderMetaHdr then Err BM_InvalidHeader
      else (case str_from_zero_padded_slice (seg 4 VERSION_LEN bs) of
          None \<Rightarrow> Err BM_InvalidVersion
        | Some version \<Rightarrow>
            (case str_from_zero_padded_slice (seg (4 + VERSION_LEN) VERSION_LEN bs) of
               None \<Rightarrow> Err BM_InvalidGitRevision
             | Some git_revision \<Rightarrow> Ok \<lparr>bm_version = version, bm_git_revision = git_revision\<rparr>)))"

section \<open>Provisioned configuration\<close>

datatype 'd config_error =
    FC_TooFewBytes
  | FC_InvalidHeader
  | FC_InvalidSerial
  | FC_InvalidClientCert
  | FC_InvalidClientKey
  | FC_InvalidDeviceType
  | FC_MismatchedDeviceType 'd

definition MAX_SERIAL_STRLEN :: nat where
  "MAX_SERIAL_STRLEN = 9"

definition MAX_CERT_SIZE :: nat where
  "MAX_CERT_SIZE = 1024"

definition MAX_KEY_SIZE :: nat where
  "MAX_KEY_SIZE = 512"

definition MAX_SERIAL_SIZE_BYTES :: nat where
  "MAX_SERIAL_SIZE_BYTES = 16"

definition CONFIG_BINARY_SIZE :: nat where
  "CONFIG_BINARY_SIZE = 4 + MAX_SERIAL_SIZE_BYTES + 4 + MAX_CERT_SIZE + 4 + MAX_KEY_SIZE + 1"

record 'd firmware_config =
  fc_serial :: bytes
  fc_client_cert :: bytes
  fc_client_key :: bytes
  fc_device_type :: 'd

text \<open>Offsets of the fields: serial at 4, length of the certificate at 20, certificate at 24, length of the key at 1048, key at 1052, device type at 1564.\<close>

definition config_as_bytes :: "'d device_type_ops \<Rightarrow> 'd firmware_config \<Rightarrow> bytes option" where
  "config_as_bytes D c =
     (let cert_at = 4 + MAX_SERIAL_SIZE_BYTES + 4;
          key_at = cert_at + MAX_CERT_SIZE + 4;
          device_at = key_at + MAX_KEY_SIZE in
      Option.bind (put_at 0 (section_header ConfigMeta) (replicate CONFIG_BINARY_SIZE 0)) (\<lambda>b.
      Option.bind (put_at 4 (take (min (length (fc_serial c)) MAX_SERIAL_SIZE_BYTES) (fc_serial c)) b) (\<lambda>b.
      Option.bind (put_at (cert_at - 4) (u32_to_le (of_nat (length (fc_client_cert c)))) b) (\<lambda>b.
      Option.bind (put_at cert_at (fc_client_cert c) b) (\<lambda>b.
      Option.bind (put_at (key_at - 4) (u32_to_le (of_nat (length (fc_client_key c)))) b) (\<lambda>b.
      Option.bind (put_at key_at (fc_client_key c) b) (\<lambda>b.
      put_at device_at [dt_to_byte D (fc_device_type c)] b)))))))"

text \<open>A panic of the parser is the outer \<open>None\<close>.\<close>

definition config_try_from_bytes ::
  "'d device_type_ops \<Rightarrow> bytes \<Rightarrow> ('d firmware_config, 'd config_error) result option" where
  "config_try_from_bytes D bs =
     (if length bs < CONFIG_BINARY_SIZE then Some (Err FC_TooFewBytes)
      else if take 4 bs \<noteq> section_header ConfigMeta then Some (Err FC_InvalidHeader)
      else
        (let cert_at = 4 + MAX_SERIAL_SIZE_BYTES + 4;
             key_at = cert_at + MAX_CERT_SIZE + 4;
             device_at = key_at + MAX_KEY_SIZE in
         case try_string_from_bytes MAX_SERIAL_STRLEN (seg 4 MAX_SERIAL_SIZE_BYTES bs) of
           None \<Rightarrow> None
         | Some None \<Rightarrow> Some (Err FC_InvalidSerial)
         | Some (Some serial) \<Rightarrow>
             (let cert_len = unat (u32_from_le (seg (cert_at - 4) 4 bs)) in
              if MAX_CERT_SIZE < cert_len then Some (Err FC_InvalidClientCert)
              else
                let key_len = unat (u32_from_le (seg (key_at - 4) 4 bs)) in
                if MAX_KEY_SIZE < key_len then Some (Err FC_InvalidClientKey)
                else
                  (case dt_try_from_byte D (bs ! device_at) of
                     None \<Rightarrow> Some (Err FC_InvalidDeviceType)
                   | Some device_type \<Rightarrow>
                       Some (Ok \<lparr>fc_serial = serial, fc_client_cert = seg cert_at cert_len bs,
                                 fc_client_key = seg key_at key_len bs, fc_device_type = device_type\<rparr>)))))"

end
