(* ===== verification/Config_Theorems.thy ===== *)
theory Config_Theorems
  imports Device_Config
begin

text \<open>
  The configuration and the bootloader metadata read back as they were written, and the parser of the
  configuration neither panics nor returns fields that are too long.
\<close>

section \<open>Fields of a buffer\<close>

lemma put_at_Some:
  assumes "put_at off xs buf = Some b"
  shows "length b = length buf" and "off + length xs \<le> length buf"
    and "seg off (length xs) b = xs"
  using assms by (auto simp: put_at_def seg_def split: if_splits)

lemma put_at_nth:
  assumes "put_at off xs buf = Some b" and "i < length buf"
  shows "b ! i = (if off \<le> i \<and> i < off + length xs then xs ! (i - off) else buf ! i)"
  using assms by (auto simp: put_at_def nth_append min_def split: if_splits)

lemma put_at_seg_other:
  assumes "put_at off xs buf = Some b" and "j + n \<le> off \<or> off + length xs \<le> j"
  shows "seg j n b = seg j n buf"
  using put_at_Some(1) [OF assms(1)] put_at_nth [OF assms(1)] assms(2) by (intro seg_cong) auto

lemma put_at_fits:
  assumes "off + length xs \<le> length buf"
  obtains b where "put_at off xs buf = Some b" "length b = length buf"
  using assms by (simp add: put_at_def)

text \<open>A field with a zero-terminated string.\<close>

lemma takeWhile_nonzero:
  "0 \<notin> set xs \<Longrightarrow> takeWhile (\<lambda>b. b \<noteq> 0) (xs @ replicate n (0 :: u8)) = xs"
  by (induction xs) (auto simp: takeWhile_replicate)

lemma find_zero_padded:
  assumes "0 \<notin> set xs"
  shows "find_zero (take m (xs @ replicate n 0)) = (if length xs < m \<and> 0 < n then Some (length xs) else None)"
proof -
  have "take m (xs @ replicate n 0) = take m xs @ replicate (min n (m - length xs)) 0"
    by (simp add: min.commute)
  moreover have "0 \<notin> set (take m xs)"
    using assms by (meson in_set_takeD)
  ultimately show ?thesis
    using takeWhile_nonzero [of "take m xs" "min n (m - length xs)"] by (auto simp: find_zero_def min_def)
qed

lemma try_string_padded:
  assumes "0 \<notin> set xs" and "length xs \<le> n" and "n < k" and "is_utf8 xs"
  shows "try_string_from_bytes n (xs @ replicate (k - length xs) 0) = Some (Some xs)"
proof -
  have "find_zero (take n (xs @ replicate (k - length xs) 0)) = (if length xs < n then Some (length xs) else None)"
    using find_zero_padded [OF assms(1), of n "k - length xs"] assms(2,3) by simp
  then show ?thesis
    using assms by (auto simp: try_string_from_bytes_def Let_def from_utf8_def min_def)
qed

lemma try_string_no_panic:
  assumes "n \<le> length bs"
  obtains r where "try_string_from_bytes n bs = Some r" "\<And>s. r = Some s \<Longrightarrow> length s \<le> n \<and> is_utf8 s"
proof -
  define len where "len = (case find_zero (take n bs) of Some index \<Rightarrow> index | None \<Rightarrow> n)"
  have "len \<le> n"
    using assms by (auto simp: len_def find_zero_def split: option.splits if_splits intro: order_trans [OF length_takeWhile_le])
  moreover have "try_string_from_bytes n bs = (if length bs < len then None else Some (from_utf8 (take len bs)))"
    using assms by (simp add: try_string_from_bytes_def len_def Let_def min_absorb2)
  ultimately show ?thesis
    using assms by (intro that [of "from_utf8 (take len bs)"]) (auto simp: from_utf8_def split: if_splits)
qed

section \<open>The configuration\<close>

lemmas config_sizes = CONFIG_BINARY_SIZE_def MAX_SERIAL_SIZE_BYTES_def MAX_CERT_SIZE_def MAX_KEY_SIZE_def MAX_SERIAL_STRLEN_def

lemma length_section_header [simp]: "length (section_header k) = 4"
  by (cases k) (simp_all add: section_header_def)

lemma unat_u32_length: "n < 2 ^ 32 \<Longrightarrow> unat (of_nat n :: u32) = n"
  by (simp add: unat_of_nat take_bit_nat_eq_self)

text \<open>What a serialised configuration holds at the offsets of the parser, when the fields fit.\<close>

lemma config_as_bytes_layout:
  assumes "length (fc_serial c) \<le> 16" and "length (fc_client_cert c) \<le> 1024" and "length (fc_client_key c) \<le> 512"
  obtains b where "config_as_bytes D c = Some b" "length b = 1565" "take 4 b = section_header ConfigMeta"
    "seg 4 16 b = fc_serial c @ replicate (16 - length (fc_serial c)) 0"
    "seg 20 4 b = u32_to_le (of_nat (length (fc_client_cert c)))"
    "seg 24 (length (fc_client_cert c)) b = fc_client_cert c"
    "seg 1048 4 b = u32_to_le (of_nat (length (fc_client_key c)))"
    "seg 1052 (length (fc_client_key c)) b = fc_client_key c" "b ! 1564 = dt_to_byte D (fc_device_type c)"
proof -
  let ?cert_len = "u32_to_le (of_nat (length (fc_client_cert c)))" and ?key_len = "u32_to_le (of_nat (length (fc_client_key c)))"
  obtain b0 where b0: "put_at 0 (section_header ConfigMeta) (replicate 1565 0) = Some b0" "length b0 = 1565"
    by (rule put_at_fits [of 0 "section_header ConfigMeta" "replicate 1565 0"]) auto
  obtain b1 where b1: "put_at 4 (fc_serial c) b0 = Some b1" "length b1 = 1565"
    by (rule put_at_fits [of 4 "fc_serial c" b0]) (use b0 assms(1) in auto)
  obtain b2 where b2: "put_at 20 ?cert_len b1 = Some b2" "length b2 = 1565"
    by (rule put_at_fits [of 20 ?cert_len b1]) (use b1 in auto)
  obtain b3 where b3: "put_at 24 (fc_client_cert c) b2 = Some b3" "length b3 = 1565"
    by (rule put_at_fits [of 24 "fc_client_cert c" b2]) (use b2 assms(2) in auto)
  obtain b4 where b4: "put_at 1048 ?key_len b3 = Some b4" "length b4 = 1565"
    by (rule put_at_fits [of 1048 ?key_len b3]) (use b3 in auto)
  obtain b5 where b5: "put_at 1052 (fc_client_key c) b4 = Some b5" "length b5 = 1565"
    by (rule put_at_fits [of 1052 "fc_client_key c" b4]) (use b4 assms(3) in auto)
  obtain b where b: "put_at 1564 [dt_to_byte D (fc_device_type c)] b5 = Some b" "length b = 1565"
    by (rule put_at_fits [of 1564 "[dt_to_byte D (fc_device_type c)]" b5]) (use b5 in auto)
  note puts = b0(1) b1(1) b2(1) b3(1) b4(1) b5(1) b(1)
  note other = puts [THEN put_at_seg_other]
  show ?thesis
  proof
    show "config_as_bytes D c = Some b"
      using assms(1) by (simp add: config_as_bytes_def config_sizes Let_def min_absorb1 puts)
    show "length b = 1565"
      by (rule b(2))
    show "take 4 b = section_header ConfigMeta"
      using put_at_Some(3) [OF b0(1)] other [of 0 4] assms by (simp add: seg_def)
    have "seg 4 16 b = seg 4 16 b1"
      using other [of 4 16] by simp
    also have "\<dots> = fc_serial c @ replicate (16 - length (fc_serial c)) 0"
      using assms(1) b0(2) b1(2) by (intro seg_eqI) (auto simp: put_at_nth [OF b1(1)] put_at_nth [OF b0(1)] nth_append)
    finally show "seg 4 16 b = fc_serial c @ replicate (16 - length (fc_serial c)) 0" .
    show "seg 20 4 b = u32_to_le (of_nat (length (fc_client_cert c)))"
      using put_at_Some(3) [OF b2(1)] other(4-7) [of 20 4] by simp
    show "seg 24 (length (fc_client_cert c)) b = fc_client_cert c"
      using put_at_Some(3) [OF b3(1)] other(5-7) [of 24 "length (fc_client_cert c)"] assms(2) by simp
    show "seg 1048 4 b = u32_to_le (of_nat (length (fc_client_key c)))"
      using put_at_Some(3) [OF b4(1)] other(6-7) [of 1048 4] by simp
    show "seg 1052 (length (fc_client_key c)) b = fc_client_key c"
      using put_at_Some(3) [OF b5(1)] other(7) [of 1052 "length (fc_client_key c)"] assms(3) by simp
    show "b ! 1564 = dt_to_byte D (fc_device_type c)"
      using put_at_nth [OF b(1), of 1564] b5(2) by simp
  qed
qed

text \<open>
  C27. A configuration whose fields fit (certificate at most 1024 bytes, key at most 512, a serial number of at
  most 9 bytes without zero bytes) is serialised without a panic, and parsing the section, whatever
  follows it in flash, returns the same configuration.
\<close>

theorem config_roundtrip:
  assumes "length (fc_serial c) \<le> MAX_SERIAL_STRLEN" and "0 \<notin> set (fc_serial c)" and "is_utf8 (fc_serial c)"
    and "length (fc_client_cert c) \<le> MAX_CERT_SIZE" and "length (fc_client_key c) \<le> MAX_KEY_SIZE"
    and "dt_try_from_byte D (dt_to_byte D (fc_device_type c)) = Some (fc_device_type c)"
  shows "\<exists>b. config_as_bytes D c = Some b \<and> length b = CONFIG_BINARY_SIZE
    \<and> config_try_from_bytes D (b @ rest) = Some (Ok c)"
proof -
  obtain b where b: "config_as_bytes D c = Some b" "length b = 1565" "take 4 b = section_header ConfigMeta"
    "seg 4 16 b = fc_serial c @ replicate (16 - length (fc_serial c)) 0"
    "seg 20 4 b = u32_to_le (of_nat (length (fc_client_cert c)))"
    "seg 24 (length (fc_client_cert c)) b = fc_client_cert c"
    "seg 1048 4 b = u32_to_le (of_nat (length (fc_client_key c)))"
    "seg 1052 (length (fc_client_key c)) b = fc_client_key c" "b ! 1564 = dt_to_byte D (fc_device_type c)"
    using config_as_bytes_layout [of c D] assms(1,4,5) by (auto simp: config_sizes)
  have "seg off n (b @ rest) = seg off n b" if "off + n \<le> 1565" for off n
    using that b(2) by (simp add: seg_def)
  with b have fields: "seg 4 16 (b @ rest) = fc_serial c @ replicate (16 - length (fc_serial c)) 0"
    "seg 20 4 (b @ rest) = u32_to_le (of_nat (length (fc_client_cert c)))"
    "seg 24 (length (fc_client_cert c)) (b @ rest) = fc_client_cert c"
    "seg 1048 4 (b @ rest) = u32_to_le (of_nat (length (fc_client_key c)))"
    "seg 1052 (length (fc_client_key c)) (b @ rest) = fc_client_key c"
    "take 4 (b @ rest) = section_header ConfigMeta" "(b @ rest) ! 1564 = dt_to_byte D (fc_device_type c)"
    using assms(4,5) by (simp_all add: config_sizes nth_append)
  have "try_string_from_bytes 9 (fc_serial c @ replicate (16 - length (fc_serial c)) 0) = Some (Some (fc_serial c))"
    using assms(1-3) by (intro try_string_padded) (auto simp: config_sizes)
  then have "config_try_from_bytes D (b @ rest) = Some (Ok c)"
    using assms(4-6) b(2,3) by (simp add: config_try_from_bytes_def config_sizes Let_def fields unat_u32_length)
  with b(1,2) show ?thesis
    by (simp add: config_sizes)
qed

text \<open>A device type whose byte is its number, a serial number of nine characters, and short test data for the certificates.\<close>

definition byte_devices :: "u8 device_type_ops" where
  "byte_devices = \<lparr>dt_to_byte = id, dt_try_from_byte = Some\<rparr>"

definition sample_config :: "u8 firmware_config" where
  "sample_config = \<lparr>fc_serial = [74, 84, 48, 48, 48, 49, 50, 51, 52], fc_client_cert = [48, 130, 1, 0],
     fc_client_key = [48, 119], fc_device_type = 3\<rparr>"

theorem config_roundtrip_witness:
  "\<exists>b. config_as_bytes byte_devices sample_config = Some b \<and> length b = CONFIG_BINARY_SIZE
     \<and> config_try_from_bytes byte_devices (b @ [255, 255]) = Some (Ok sample_config)"
proof (rule config_roundtrip)
  show "is_utf8 (fc_serial sample_config)"
    by (simp add: sample_config_def is_utf8.simps)
qed (simp_all add: sample_config_def byte_devices_def config_sizes)

text \<open>
  Parsing arbitrary bytes never panics, and what it returns respects the limits of the fields.
\<close>

theorem config_parse_safe:
  obtains r where "config_try_from_bytes D bs = Some r"
    and "\<And>c. r = Ok c \<Longrightarrow> length (fc_serial c) \<le> MAX_SERIAL_STRLEN \<and> is_utf8 (fc_serial c)
      \<and> length (fc_client_cert c) \<le> MAX_CERT_SIZE \<and> length (fc_client_key c) \<le> MAX_KEY_SIZE"
proof (cases "length bs < CONFIG_BINARY_SIZE")
  case True
  then show ?thesis
    using that [of "Err FC_TooFewBytes"] by (simp add: config_try_from_bytes_def)
next
  case False
  then obtain r where r: "try_string_from_bytes 9 (seg 4 16 bs) = Some r" "\<And>s. r = Some s \<Longrightarrow> length s \<le> 9 \<and> is_utf8 s"
    using try_string_no_panic [of 9 "seg 4 16 bs"] by (auto simp: config_sizes)
  show ?thesis
  proof (rule that [of "the (config_try_from_bytes D bs)"])
    show "config_try_from_bytes D bs = Some (the (config_try_from_bytes D bs))"
      using False r(1) by (auto simp: config_try_from_bytes_def config_sizes Let_def split: option.splits)
  qed (use False r in \<open>auto simp: config_try_from_bytes_def config_sizes Let_def split: option.splits if_splits\<close>)
qed

section \<open>The bootloader metadata\<close>

lemma str_from_padded:
  "0 \<notin> set xs \<Longrightarrow> str_from_zero_padded_slice (zero_padded n xs) = from_utf8 xs"
  by (simp add: str_from_zero_padded_slice_def zero_padded_def takeWhile_nonzero)

lemma length_zero_padded: "length xs \<le> n \<Longrightarrow> length (zero_padded n xs) = n"
  by (simp add: zero_padded_def)

text \<open>
  What parsing returns for bootloader metadata that was just written, with version strings of any length:
  each string is cut to its first 16 bytes, and comes back as that prefix unless the cut goes through a
  character, in which case the metadata does not parse any more. So strings of up to 16 bytes come
  back unchanged.
\<close>

theorem bootloader_meta_roundtrip:
  assumes "0 \<notin> set (bm_version m)" and "0 \<notin> set (bm_git_revision m)" and "BM_BINARY_SIZE \<le> length buf"
  shows "\<exists>b. bootloader_meta_as_bytes m buf = Ok b \<and> length b = length buf \<and> bootloader_meta_try_from_bytes b =
    (if \<not> is_utf8 (take VERSION_LEN (bm_version m)) then Err BM_InvalidVersion
     else if \<not> is_utf8 (take VERSION_LEN (bm_git_revision m)) then Err BM_InvalidGitRevision
     else Ok \<lparr>bm_version = take VERSION_LEN (bm_version m), bm_git_revision = take VERSION_LEN (bm_git_revision m)\<rparr>)"
proof -
  define v g where "v = take VERSION_LEN (bm_version m)" and "g = take VERSION_LEN (bm_git_revision m)"
  define b where "b = section_header BootloaderMetaHdr @ zero_padded VERSION_LEN v @ zero_padded VERSION_LEN g @ drop BM_BINARY_SIZE buf"
  have len: "length (zero_padded VERSION_LEN v) = 16" "length (zero_padded VERSION_LEN g) = 16"
    by (simp_all add: length_zero_padded v_def g_def VERSION_LEN_def)
  have nz: "0 \<notin> set v" "0 \<notin> set g"
    using assms(1,2) by (auto simp: v_def g_def dest: in_set_takeD)
  have "bootloader_meta_as_bytes m buf = Ok b"
    using assms(3) by (simp add: bootloader_meta_as_bytes_def b_def v_def g_def Let_def min_def)
  moreover have "length b = length buf"
    using assms(3) len by (simp add: b_def BM_BINARY_SIZE_def VERSION_LEN_def)
  moreover have "take 4 b = section_header BootloaderMetaHdr" "seg 4 16 b = zero_padded VERSION_LEN v"
    "seg 20 16 b = zero_padded VERSION_LEN g"
    using len by (simp_all add: b_def seg_def)
  ultimately show ?thesis
    using assms(3) nz
    by (simp add: bootloader_meta_try_from_bytes_def VERSION_LEN_def str_from_padded from_utf8_def
        flip: v_def [unfolded VERSION_LEN_def] g_def [unfolded VERSION_LEN_def])
qed

text \<open>Two version strings of seventeen bytes; the sixteenth byte of the second is the first half of a character.\<close>

theorem bootloader_meta_roundtrip_witness:
  "\<exists>b. bootloader_meta_as_bytes \<lparr>bm_version = replicate 17 97, bm_git_revision = replicate 15 97 @ [0xC3, 0xA9]\<rparr> (replicate 36 0) = Ok b
     \<and> length b = 36 \<and> bootloader_meta_try_from_bytes b = Err BM_InvalidGitRevision"
proof -
  have "is_utf8 (take VERSION_LEN (replicate 17 97))" "\<not> is_utf8 (take VERSION_LEN (replicate 15 97 @ [0xC3, 0xA9]))"
    by code_simp+
  then show ?thesis
    using bootloader_meta_roundtrip [of "\<lparr>bm_version = replicate 17 97, bm_git_revision = replicate 15 97 @ [0xC3, 0xA9]\<rparr>" "replicate 36 0"]
    by (simp add: BM_BINARY_SIZE_def VERSION_LEN_def)
qed

end
