(* ===== verification/Bitwise.thy ===== *)
theory Bitwise
  imports Prelude
begin

text \<open>
  The bit utilities of \<open>utils/bitwise.rs\<close> and \<open>utils/bitwise/transpose.rs\<close>: bit fields of 8, 16 and 32 bits,
  and the transposition of an 8 by 8 matrix of bits held in two words. The target is little-endian, so
  \<open>u32::from_be\<close> swaps the bytes.
\<close>

section \<open>Transposition\<close>

type_synonym matrix8x8 = "u32 \<times> u32"

definition swap_bytes :: "u32 \<Rightarrow> u32" where
  "swap_bytes w =
     push_bit 24 (w AND 0xFF) OR push_bit 8 (w AND 0xFF00) OR (drop_bit 8 w AND 0xFF00) OR drop_bit 24 w"

definition from_le_words :: "u32 \<Rightarrow> u32 \<Rightarrow> matrix8x8" where
  "from_le_words w0 w1 = (swap_bytes w0, swap_bytes w1)"

definition matrix_from_bytes :: "bytes \<Rightarrow> matrix8x8" where
  "matrix_from_bytes bs = from_le_words
     (push_bit 24 (ucast (bs ! 3)) OR push_bit 16 (ucast (bs ! 2)) OR push_bit 8 (ucast (bs ! 1)) OR ucast (bs ! 0))
     (push_bit 24 (ucast (bs ! 7)) OR push_bit 16 (ucast (bs ! 6)) OR push_bit 8 (ucast (bs ! 5)) OR ucast (bs ! 4))"

definition byte_at :: "nat \<Rightarrow> u32 \<Rightarrow> u8" where
  "byte_at n w = ucast (drop_bit n w AND 0xFF)"

definition matrix_as_slice :: "matrix8x8 \<Rightarrow> bytes" where
  "matrix_as_slice m = (case m of (w0, w1) \<Rightarrow>
     [byte_at 24 w0, byte_at 16 w0, byte_at 8 w0, byte_at 0 w0, byte_at 24 w1, byte_at 16 w1, byte_at 8 w1, byte_at 0 w1])"

definition matrix_as_reverse_slice :: "matrix8x8 \<Rightarrow> bytes" where
  "matrix_as_reverse_slice m = (case m of (w0, w1) \<Rightarrow>
     [byte_at 0 w1, byte_at 8 w1, byte_at 16 w1, byte_at 24 w1, byte_at 0 w0, byte_at 8 w0, byte_at 16 w0, byte_at 24 w0])"

definition swap_bits :: "u32 \<Rightarrow> nat \<Rightarrow> u32 \<Rightarrow> u32" where
  "swap_bits input n_shifts m =
     (let delta = (input XOR drop_bit n_shifts input) AND m in
      input XOR delta XOR push_bit n_shifts delta)"

definition transpose_matrix :: "matrix8x8 \<Rightarrow> matrix8x8" where
  "transpose_matrix m = (case m of (x, y) \<Rightarrow>
     let x = swap_bits x 7 0x00AA00AA;
         y = swap_bits y 7 0x00AA00AA;
         x = swap_bits x 14 0x0000CCCC;
         y = swap_bits y 14 0x0000CCCC in
     ((x AND 0xF0F0F0F0) OR (drop_bit 4 y AND 0x0F0F0F0F), (push_bit 4 x AND 0xF0F0F0F0) OR (y AND 0x0F0F0F0F)))"

section \<open>Bit fields\<close>

text \<open>
  A bit number is a \<open>nat\<close> below the number of values of the enum \<open>Bit\<close> of the width: 8, 16 and, for the width
  of 32 bits, 33. A shift by the width or more takes its count modulo the width, as in a release build.
\<close>

definition field_bit :: "'w :: len word \<Rightarrow> nat \<Rightarrow> bool" where
  "field_bit self n \<longleftrightarrow> self AND push_bit (n mod LENGTH('w)) 1 \<noteq> 0"

definition field_set_bit :: "'w :: len word \<Rightarrow> nat \<Rightarrow> 'w word" where
  "field_set_bit self n = self OR push_bit (n mod LENGTH('w)) 1"

text \<open>\<open>each_set\<close> calls \<open>f\<close> with the bits in the list it returns; \<open>limit\<close> is the number of values of \<open>Bit\<close>.\<close>

function each_set_from :: "nat \<Rightarrow> nat \<Rightarrow> 'w :: len word \<Rightarrow> nat list" where
  "each_set_from limit n self =
     (if self = 0 then []
      else (if self AND 1 \<noteq> 0 \<and> n < limit then [n] else []) @ each_set_from limit (n + 1) (drop_bit 1 self))"
  by pat_completeness auto
termination
proof (relation "measure (\<lambda>(limit, n, self). unat self)")
  fix limit n and self :: "'w :: len word"
  assume "self \<noteq> 0"
  then have "0 < unat self"
    by (simp add: unat_gt_0)
  moreover have "unat (drop_bit 1 self) = unat self div 2"
    by (metis unat_drop_bit_eq drop_bit_eq_div power_one_right)
  ultimately show "((limit, n + 1, drop_bit 1 self), (limit, n, self)) \<in> measure (\<lambda>(limit, n, self). unat self)"
    by simp
qed simp

declare each_set_from.simps [simp del]

definition each_set :: "nat \<Rightarrow> 'w :: len word \<Rightarrow> nat list" where
  "each_set limit self = each_set_from limit 0 self"

section \<open>Transposing moves every bit to its place\<close>

lemma length_slices [simp]: "length (matrix_as_slice m) = 8" "length (matrix_as_reverse_slice m) = 8"
  by (simp_all add: matrix_as_slice_def matrix_as_reverse_slice_def split: prod.splits)

lemma less_8_cases:
  assumes "i < (8 :: nat)"
  obtains "i = 0" | "i = 1" | "i = 2" | "i = 3" | "i = 4" | "i = 5" | "i = 6" | "i = 7"
  using assms by linarith

lemma no_high_bit: "32 \<le> n \<Longrightarrow> \<not> bit (w :: u32) n" "8 \<le> n \<Longrightarrow> \<not> bit (v :: u8) n"
  using bit_imp_le_length [of w n] bit_imp_le_length [of v n] by auto

lemma bit_byte_at: "j < 8 \<Longrightarrow> n + j < 32 \<Longrightarrow> bit (byte_at n w) j = bit w (n + j)"
  by (auto simp: byte_at_def bit_simps elim!: less_8_cases)

lemma bit_swap_bits:
  assumes "k < 32"
  shows "bit (swap_bits x n m) k =
    ((bit x k \<noteq> ((bit x k \<noteq> bit x (n + k)) \<and> bit m k))
     \<noteq> (n \<le> k \<and> (bit x (k - n) \<noteq> bit x k) \<and> bit m (k - n)))"
  using assms by (auto simp: swap_bits_def Let_def bit_simps)

lemma bit_swap_bytes:
  assumes "j < 8"
  shows "bit (swap_bytes w) j = bit w (24 + j)" "bit (swap_bytes w) (8 + j) = bit w (16 + j)"
    "bit (swap_bytes w) (16 + j) = bit w (8 + j)" "bit (swap_bytes w) (24 + j) = bit w j"
  using assms by (auto simp: swap_bytes_def bit_simps no_high_bit elim!: less_8_cases)

text \<open>The bits of a matrix, in the order of its bytes: row \<open>i\<close>, column \<open>j\<close>.\<close>

definition matrix_bit :: "matrix8x8 \<Rightarrow> nat \<Rightarrow> nat \<Rightarrow> bool" where
  "matrix_bit m i j = (if i < 4 then bit (fst m) (8 * (3 - i) + j) else bit (snd m) (8 * (7 - i) + j))"

lemma bit_as_slice:
  "i < 8 \<Longrightarrow> j < 8 \<Longrightarrow> bit (matrix_as_slice m ! i) j = matrix_bit m i j"
  by (erule less_8_cases; cases m) (simp_all add: matrix_as_slice_def matrix_bit_def bit_byte_at)

lemma matrix_bit_from_bytes:
  assumes "i < 8" and "j < 8"
  shows "matrix_bit (matrix_from_bytes bs) i j = bit (bs ! i) j"
  using assms(1)
  by (rule less_8_cases) (use assms(2) in \<open>auto simp: matrix_bit_def matrix_from_bytes_def from_le_words_def bit_swap_bytes
      bit_simps no_high_bit\<close>)

text \<open>The nibbles are packed into rows 0 to 3 and 4 to 7 after both words were transposed in blocks of four.\<close>

definition block_transpose :: "u32 \<Rightarrow> u32" where
  "block_transpose x = swap_bits (swap_bits x 7 0x00AA00AA) 14 0x0000CCCC"

lemma transpose_matrix_blocks:
  "transpose_matrix (x, y) =
     ((block_transpose x AND 0xF0F0F0F0) OR (drop_bit 4 (block_transpose y) AND 0x0F0F0F0F),
      (push_bit 4 (block_transpose x) AND 0xF0F0F0F0) OR (block_transpose y AND 0x0F0F0F0F))"
  by (simp add: transpose_matrix_def block_transpose_def Let_def)

text \<open>A word holds two 4 by 4 blocks: bit \<open>8 * r + 4 * h + c\<close> is row \<open>r\<close>, column \<open>c\<close> of block \<open>h\<close>.\<close>

lemma less_4_cases:
  assumes "i < (4 :: nat)"
  obtains "i = 0" | "i = 1" | "i = 2" | "i = 3"
  using assms by linarith

lemma bit_block_transpose:
  assumes "r < 4" and "c < 4"
  shows "bit (block_transpose x) (8 * r + c) = bit x (8 * c + r)"
    and "bit (block_transpose x) (8 * r + (4 + c)) = bit x (8 * c + (4 + r))"
  using assms
  by (elim less_4_cases; simp add: block_transpose_def bit_swap_bits; auto simp: numeral_2_eq_2)+

lemma matrix_bit_transpose:
  assumes "i < 8" and "j < 8"
  shows "matrix_bit (transpose_matrix m) i j = matrix_bit m (7 - j) (7 - i)"
proof -
  obtain x y where m: "m = (x, y)"
    by (cases m)
  have low: "bit (block_transpose w) k = bit w (8 * (k mod 8) + k div 8)" if "k < 32" "k mod 8 < 4" for w k
    using bit_block_transpose(1) [of "k div 8" "k mod 8" w] that by simp
  have high: "bit (block_transpose w) k = bit w (8 * (k mod 8 - 4) + (4 + k div 8))" if "k < 32" "4 \<le> k mod 8" for w k
    using bit_block_transpose(2) [of "k div 8" "k mod 8 - 4" w] that by simp
  show ?thesis
    using assms
    by (elim less_8_cases; simp add: m matrix_bit_def transpose_matrix_blocks bit_simps low high)
qed

text \<open>
  C40. Transposing an 8 by 8 matrix of bits with a few shifts and masks moves every bit to its mirrored place:
  read with the leftmost bit as bit 0, bit \<open>j\<close> of byte \<open>i\<close> of the result is bit \<open>i\<close> of byte \<open>j\<close> of the input.
  With the rightmost bit as bit 0, the same holds for the reversed slice.
\<close>

theorem transpose_mirrors_bits:
  assumes "i < 8" and "j < 8"
  shows "bit (matrix_as_slice (transpose_matrix (matrix_from_bytes bs)) ! i) (7 - j) = bit (bs ! j) (7 - i)
    \<and> bit (matrix_as_reverse_slice (transpose_matrix (matrix_from_bytes bs)) ! i) j = bit (bs ! (7 - j)) i"
proof -
  have rev: "matrix_as_reverse_slice m ! i = matrix_as_slice m ! (7 - i)" for m
    using assms(1) by (elim less_8_cases) (simp_all add: matrix_as_slice_def matrix_as_reverse_slice_def split: prod.splits)
  have inv: "7 - (7 - i) = i" "7 - (7 - j) = j"
    using assms by auto
  show ?thesis
    using assms by (simp add: rev bit_as_slice matrix_bit_transpose matrix_bit_from_bytes inv)
qed

theorem transpose_mirrors_bits_witness:
  "matrix_as_slice (transpose_matrix (matrix_from_bytes [0x80, 0xE0, 0x20, 0xF0, 1, 1, 1, 1])) ! 0 = 0xD0
   \<and> bit (matrix_as_slice (transpose_matrix (matrix_from_bytes [0x80, 0xE0, 0x20, 0xF0, 1, 1, 1, 1])) ! 0) (7 - 3)
     = bit ([0x80, 0xE0, 0x20, 0xF0, 1, 1, 1, 1 :: u8] ! 3) (7 - 0)"
proof
  show "matrix_as_slice (transpose_matrix (matrix_from_bytes [0x80, 0xE0, 0x20, 0xF0, 1, 1, 1, 1])) ! 0 = 0xD0"
    by code_simp
qed (rule transpose_mirrors_bits [THEN conjunct1]; simp)

section \<open>Bit fields\<close>

lemma field_bit_iff: "field_bit w n = bit w (n mod LENGTH('w))" for w :: "'w :: len word"
  by (simp add: field_bit_def bit_iff_and_push_bit_not_eq_0)

lemma field_set_bit_iff:
  "n < LENGTH('w) \<Longrightarrow> k < LENGTH('w) \<Longrightarrow> field_bit (field_set_bit (w :: 'w :: len word) n) k = (k = n \<or> field_bit w k)"
  by (auto simp: field_bit_iff field_set_bit_def bit_simps)

lemma and_1_iff: "self AND 1 \<noteq> 0 \<longleftrightarrow> bit self 0" for self :: "'w :: len word"
  using field_bit_iff [of self 0] by (simp add: field_bit_def)

lemma each_set_from_set:
  "set (each_set_from limit n w) = {k. n \<le> k \<and> k < limit \<and> bit w (k - n)}" for w :: "'w :: len word"
proof (induction limit n w rule: each_set_from.induct)
  case (1 limit n w)
  have step: "{k. n \<le> k \<and> k < limit \<and> bit w (k - n)} =
      (if bit w 0 \<and> n < limit then {n} else {}) \<union> {k. n + 1 \<le> k \<and> k < limit \<and> bit (drop_bit 1 w) (k - (n + 1))}"
  proof -
    have "bit (drop_bit 1 w) (k - (n + 1)) = bit w (k - n)" if "n < k" for k
      using that by (simp add: bit_drop_bit_eq Suc_diff_Suc)
    moreover have "n \<le> k \<longleftrightarrow> k = n \<or> n < k" "n + 1 \<le> k \<longleftrightarrow> n < k" for k
      by auto
    ultimately show ?thesis
      by auto
  qed
  show ?case
  proof (cases "w = 0")
    case False
    then show ?thesis
      unfolding step using 1 [OF False] by (subst each_set_from.simps) (simp only: and_1_iff set_append if_False; auto)
  qed (simp add: each_set_from.simps)
qed

lemma each_set_from_sorted: "sorted_wrt (<) (each_set_from limit n w)" for w :: "'w :: len word"
proof (induction limit n w rule: each_set_from.induct)
  case (1 limit n w)
  then show ?case
    by (subst each_set_from.simps) (auto simp: sorted_wrt_append each_set_from_set)
qed

text \<open>
  \<open>each_set\<close> calls its argument exactly once for every bit that is set and has a value of \<open>Bit\<close>, from
  the lowest to the highest; a bit that was set with \<open>set_bit\<close> is among them.
\<close>

theorem each_set_exact:
  "set (each_set limit w) = {k. k < limit \<and> bit w k} \<and> sorted_wrt (<) (each_set limit w)" for w :: "'w :: len word"
  using each_set_from_set [of limit 0 w] by (auto simp: each_set_def each_set_from_sorted)

end
