(* ===== verification/Boot_Stats.thy ===== *)
theory Boot_Stats
  imports Prelude
begin

text \<open>
  The boot statistics of \<open>drivers/boot_stats.rs\<close>, kept in battery-backed registers across resets: counters
  in the low 28 bits of each register, and in the high bits a marker of validity (uptime registers) or
  the flag of a handler that caused the reset (counter registers). The registers are a list of words;
  an access outside of it panics in the code and is guarded by the length check.
\<close>

datatype boot_reason = BR_Unknown | PowerOn | HardFault | Watchdog | BR_Panic | Software | BR_Loop

datatype stat = UptimeTotal | UptimeCurrent | Boot | POR | WDT | St_Panic | Fault

fun stat_index :: "stat \<Rightarrow> nat" where
  "stat_index UptimeTotal = 0"
| "stat_index UptimeCurrent = 1"
| "stat_index Boot = 2"
| "stat_index POR = 3"
| "stat_index WDT = 4"
| "stat_index St_Panic = 5"
| "stat_index Fault = 6"

definition STAT_COUNT :: nat where
  "STAT_COUNT = 7"

definition COUNT_MASK :: u32 where
  "COUNT_MASK = 0x0FFFFFFF"

definition FLAG_MASK :: u32 where
  "FLAG_MASK = NOT COUNT_MASK"

definition FLAG :: u32 where
  "FLAG = 0xB0000000"

record stats =
  st_boot_reason :: boot_reason
  st_uptime_total :: u32
  st_boot_total :: u32
  st_por_total :: u32
  st_wdt_total :: u32
  st_panic_total :: u32
  st_fault_total :: u32

definition stat_read :: "u32 list \<Rightarrow> stat \<Rightarrow> u32" where
  "stat_read regs s = regs ! stat_index s"

definition stat_write :: "u32 list \<Rightarrow> stat \<Rightarrow> u32 \<Rightarrow> u32 list" where
  "stat_write regs s v = regs[stat_index s := v]"

definition read_split :: "u32 list \<Rightarrow> stat \<Rightarrow> u32 \<times> bool" where
  "read_split regs s = (let raw = stat_read regs s in (raw AND COUNT_MASK, raw AND FLAG_MASK \<noteq> 0))"

definition set_flag :: "u32 \<Rightarrow> u32" where
  "set_flag prev = (prev AND COUNT_MASK) OR FLAG"

definition u32_saturating_add :: "u32 \<Rightarrow> u32 \<Rightarrow> u32" where
  "u32_saturating_add a b = (if uint a + uint b < 2 ^ 32 then a + b else - 1)"

text \<open>\<open>increment_by\<close> returns the count and the new value of the register.\<close>

definition increment_by :: "u32 \<Rightarrow> u32 \<Rightarrow> u32 \<times> u32" where
  "increment_by prev delta =
     (let count = min (u32_saturating_add (prev AND COUNT_MASK) delta) COUNT_MASK in
      (count, count OR (prev AND FLAG_MASK)))"

definition stats_reset :: "u32 list \<Rightarrow> (unit, unit) result \<times> u32 list" where
  "stats_reset regs =
     (if length regs < STAT_COUNT then (Err (), regs)
      else
        let regs = fold (\<lambda>s regs. stat_write regs s 0) [UptimeTotal, UptimeCurrent, Boot, POR, WDT, St_Panic, Fault] regs;
            regs = stat_write regs UptimeTotal FLAG;
            regs = stat_write regs UptimeCurrent FLAG in
        (Ok (), regs))"

text \<open>The validation of the uptime registers at the start of \<open>try_from_registers_or\<close>.\<close>

definition validate_stats :: "u32 list \<Rightarrow> u32 list" where
  "validate_stats regs =
     (let prev_bad = stat_read regs UptimeCurrent AND FLAG_MASK \<noteq> FLAG;
          total_bad = stat_read regs UptimeTotal AND FLAG_MASK \<noteq> FLAG;
          regs = (if prev_bad then stat_write regs UptimeCurrent FLAG else regs);
          regs = (if total_bad then stat_write regs UptimeTotal FLAG else regs) in
      if prev_bad \<and> total_bad then snd (stats_reset regs) else regs)"

definition detect_reason :: "bool \<Rightarrow> bool \<Rightarrow> bool \<Rightarrow> bool \<Rightarrow> boot_reason \<Rightarrow> boot_reason" where
  "detect_reason fault_flag panic_flag wdt_flag por_flag dflt =
     (if fault_flag then HardFault else if panic_flag then BR_Panic else if wdt_flag then Watchdog
      else if por_flag then PowerOn else dflt)"

definition bump :: "u32 \<Rightarrow> u32" where
  "bump n = min (u32_saturating_add n 1) COUNT_MASK"

definition try_from_registers_or :: "u32 list \<Rightarrow> boot_reason \<Rightarrow> (stats, unit) result \<times> u32 list" where
  "try_from_registers_or regs dflt =
     (if length regs < STAT_COUNT then (Err (), regs)
      else
        let regs = validate_stats regs;
            uptime_prev = stat_read regs UptimeCurrent AND COUNT_MASK;
            (uptime_total, total_reg) = increment_by (stat_read regs UptimeTotal) uptime_prev;
            regs = stat_write regs UptimeTotal total_reg;
            regs = stat_write regs UptimeCurrent FLAG;
            (boot_total, boot_reg) = increment_by (stat_read regs Boot) 1;
            regs = stat_write regs Boot boot_reg;
            (por_total, por_flag) = read_split regs POR;
            (wdt_total, wdt_flag) = read_split regs WDT;
            (panic_total, panic_flag) = read_split regs St_Panic;
            (fault_total, fault_flag) = read_split regs Fault;
            reason = detect_reason fault_flag panic_flag wdt_flag por_flag dflt;
            st = \<lparr>st_boot_reason = reason, st_uptime_total = uptime_total, st_boot_total = boot_total,
                  st_por_total = por_total, st_wdt_total = wdt_total, st_panic_total = panic_total, st_fault_total = fault_total\<rparr> in
        if 1800 \<le> uptime_total then (Ok st, snd (stats_reset regs))
        else
          let (st, regs, loop_found) =
            (case reason of
               PowerOn \<Rightarrow> (st\<lparr>st_por_total := bump por_total\<rparr>, stat_write regs POR (bump por_total), 20 < bump por_total)
             | Software \<Rightarrow> (st, regs, 30 < boot_total)
             | HardFault \<Rightarrow> (st\<lparr>st_fault_total := bump fault_total\<rparr>, stat_write regs Fault (bump fault_total), 5 < bump fault_total)
             | Watchdog \<Rightarrow> (st\<lparr>st_wdt_total := bump wdt_total\<rparr>, stat_write regs WDT (bump wdt_total), 5 < bump wdt_total)
             | BR_Panic \<Rightarrow> (st\<lparr>st_panic_total := bump panic_total\<rparr>, stat_write regs St_Panic (bump panic_total), 5 < bump panic_total)
             | BR_Unknown \<Rightarrow> (st, regs, 10 < boot_total)
             | BR_Loop \<Rightarrow> (st, regs, True)) in
          if loop_found then (Ok (st\<lparr>st_boot_reason := BR_Loop\<rparr>), snd (stats_reset regs))
          else (Ok st, regs))"

definition try_from_registers :: "u32 list \<Rightarrow> (stats, unit) result \<times> u32 list" where
  "try_from_registers regs = try_from_registers_or regs BR_Unknown"

end
