(* ===== verification/Boot_Stats_Theorems.thy ===== *)
theory Boot_Stats_Theorems
  imports Boot_Stats
begin

text \<open>
  The boot statistics recognise a boot loop after exactly the configured number of resets of one kind, and
  what happens to the flags when more than one handler has left its mark.
\<close>

section \<open>Registers\<close>

lemma masks: "COUNT_MASK = mask 28" "FLAG_MASK = NOT (mask 28)" "FLAG = push_bit 28 0xB"
  by (simp_all add: COUNT_MASK_def FLAG_MASK_def FLAG_def mask_eq_exp_minus_1 push_bit_eq_mult)

lemma u32_small: "n < 2 ^ 28 \<Longrightarrow> unat (of_nat n :: u32) = n"
  by (simp add: unat_of_nat take_bit_nat_eq_self)

text \<open>A count that fits 28 bits, with or without the flag.\<close>

lemma count_bits:
  assumes "n < 2 ^ 28"
  shows "of_nat n AND COUNT_MASK = (of_nat n :: u32)" "of_nat n AND FLAG_MASK = (0 :: u32)"
    "(of_nat n OR FLAG) AND COUNT_MASK = (of_nat n :: u32)" "(of_nat n OR FLAG) AND FLAG_MASK = FLAG"
proof -
  have high: "\<not> bit (of_nat n :: u32) i" if "28 \<le> i" for i
  proof -
    have "take_bit 28 (of_nat n :: u32) = of_nat n"
      using assms by (simp add: take_bit_of_nat take_bit_nat_eq_self)
    then show ?thesis
      using that by (metis bit_take_bit_iff not_less)
  qed
  have flag: "\<not> bit FLAG i" if "i < 28" for i
    unfolding masks(3) bit_push_bit_iff using that by simp
  show "of_nat n AND COUNT_MASK = (of_nat n :: u32)" "of_nat n AND FLAG_MASK = (0 :: u32)"
    "(of_nat n OR FLAG) AND COUNT_MASK = (of_nat n :: u32)" "(of_nat n OR FLAG) AND FLAG_MASK = FLAG"
    using high flag by (auto intro!: bit_word_eqI simp: masks(1,2) bit_simps) (meson not_less)+
qed

lemma saturating_add_small:
  assumes "a + b < 2 ^ 28"
  shows "u32_saturating_add (of_nat a) (of_nat b) = of_nat (a + b)"
    "min (u32_saturating_add (of_nat a) (of_nat b)) COUNT_MASK = of_nat (a + b)"
proof -
  have "uint (of_nat a :: u32) = int a" "uint (of_nat b :: u32) = int b"
    using assms by (simp_all add: uint_nat u32_small)
  then show *: "u32_saturating_add (of_nat a) (of_nat b) = of_nat (a + b)"
    using assms by (simp add: u32_saturating_add_def)
  have "of_nat (a + b) \<le> COUNT_MASK"
    using assms u32_small [OF assms] by (simp add: word_le_nat_alt COUNT_MASK_def del: of_nat_add)
  then show "min (u32_saturating_add (of_nat a) (of_nat b)) COUNT_MASK = of_nat (a + b)"
    by (simp only: * min_def if_True)
qed

lemma bump_small: "n + 1 < 2 ^ 28 \<Longrightarrow> bump (of_nat n) = of_nat (n + 1)"
  using saturating_add_small(2) [of n 1] by (simp add: bump_def)

lemma increment_small:
  assumes "n + d < 2 ^ 28"
  shows "increment_by (of_nat n) (of_nat d) = (of_nat (n + d), of_nat (n + d))"
    "increment_by (of_nat n OR FLAG) (of_nat d) = (of_nat (n + d), of_nat (n + d) OR FLAG)"
  using count_bits [of n] assms saturating_add_small(2) [OF assms]
  by (simp_all add: increment_by_def Let_def)

section \<open>Boot loops\<close>

text \<open>The four causes with a register of their own, what they are reported as, and how many are tolerated.\<close>

fun cause_reason :: "stat \<Rightarrow> boot_reason" where
  "cause_reason POR = PowerOn"
| "cause_reason WDT = Watchdog"
| "cause_reason St_Panic = BR_Panic"
| "cause_reason Fault = HardFault"
| "cause_reason _ = BR_Unknown"

fun tolerated :: "stat \<Rightarrow> nat" where
  "tolerated POR = 20"
| "tolerated _ = 5"

definition causes :: "stat list" where
  "causes = [POR, WDT, St_Panic, Fault]"

text \<open>\<open>n\<close> seconds of uptime, the handler of a cause leaves its flag, and the next boot reads the statistics.\<close>

definition boot_after :: "nat \<Rightarrow> stat \<Rightarrow> u32 list \<Rightarrow> boot_reason option \<times> u32 list" where
  "boot_after n s regs =
     (let regs = stat_write regs UptimeCurrent (snd (increment_by (stat_read regs UptimeCurrent) (of_nat n)));
          regs = stat_write regs s (set_flag (stat_read regs s));
          (r, regs) = try_from_registers regs in
      ((case r of Ok st \<Rightarrow> Some (st_boot_reason st) | Err _ \<Rightarrow> None), regs))"

fun boots_after :: "nat list \<Rightarrow> stat \<Rightarrow> u32 list \<Rightarrow> boot_reason option list" where
  "boots_after [] s regs = []"
| "boots_after (n # ns) s regs = (let (r, regs') = boot_after n s regs in r # boots_after ns s regs')"

text \<open>The registers after \<open>k\<close> resets of one cause and \<open>b\<close> boots, with an uptime of \<open>u\<close> so far and no flag left.\<close>

definition counting :: "nat \<Rightarrow> nat \<Rightarrow> nat \<Rightarrow> stat \<Rightarrow> u32 list \<Rightarrow> bool" where
  "counting u b k s regs \<longleftrightarrow> STAT_COUNT \<le> length regs \<and> s \<in> set causes
     \<and> stat_read regs UptimeTotal = of_nat u OR FLAG \<and> stat_read regs UptimeCurrent = of_nat 0 OR FLAG
     \<and> stat_read regs Boot = of_nat b \<and> stat_read regs s = of_nat k
     \<and> (\<forall>t \<in> set causes. stat_read regs t AND FLAG_MASK = 0)"

lemma length_stat_write [simp]: "length (stat_write regs s v) = length regs"
  by (simp add: stat_write_def)

lemma stat_index_less: "stat_index s < STAT_COUNT"
  by (cases s) (simp_all add: STAT_COUNT_def)

lemma stat_index_eq: "stat_index s = stat_index t \<longleftrightarrow> s = t"
  by (cases s; cases t) simp_all

lemma stat_read_write:
  "STAT_COUNT \<le> length regs \<Longrightarrow> stat_read (stat_write regs s v) t = (if s = t then v else stat_read regs t)"
  using stat_index_less [of s] stat_index_less [of t]
  by (simp add: stat_read_def stat_write_def nth_list_update stat_index_eq)

lemma stats_reset_read:
  assumes "STAT_COUNT \<le> length regs"
  shows "stat_read (snd (stats_reset regs)) s = (if s = UptimeTotal \<or> s = UptimeCurrent then FLAG else 0)"
    and "length (snd (stats_reset regs)) = length regs"
  using assms by (cases s; simp add: stats_reset_def Let_def stat_read_write)+

lemma reset_counting:
  assumes "STAT_COUNT \<le> length regs" and "s \<in> set causes"
  shows "counting 0 0 0 s (snd (stats_reset regs))"
  using assms by (auto simp: counting_def stats_reset_read causes_def)

lemma validate_stats_valid:
  assumes "stat_read regs UptimeCurrent AND FLAG_MASK = FLAG" and "stat_read regs UptimeTotal AND FLAG_MASK = FLAG"
  shows "validate_stats regs = regs"
  using assms by (simp add: validate_stats_def)

text \<open>What a boot does to the registers when the uptime is valid and below the limit, for any set of flags.\<close>

definition next_reason :: "u32 list \<Rightarrow> boot_reason" where
  "next_reason regs = detect_reason (stat_read regs Fault AND FLAG_MASK \<noteq> 0) (stat_read regs St_Panic AND FLAG_MASK \<noteq> 0)
     (stat_read regs WDT AND FLAG_MASK \<noteq> 0) (stat_read regs POR AND FLAG_MASK \<noteq> 0) BR_Unknown"

lemma boot_with_flag:
  assumes len: "STAT_COUNT \<le> length regs" and s: "s \<in> set causes" and "next_reason regs = cause_reason s"
    and total: "stat_read regs UptimeTotal = of_nat u OR FLAG" and current: "stat_read regs UptimeCurrent = of_nat n OR FLAG"
    and "u + n < 1800" and boot: "stat_read regs Boot = of_nat b" "b + 1 < 2 ^ 28"
    and count: "stat_read regs s AND COUNT_MASK = of_nat k" "k + 1 < 2 ^ 28"
  defines "r \<equiv> try_from_registers regs"
  shows "\<exists>st. fst r = Ok st \<and> st_boot_reason st = (if tolerated s < k + 1 then BR_Loop else cause_reason s)"
    and "\<not> tolerated s < k + 1 \<Longrightarrow> stat_read (snd r) t =
      (if t = UptimeTotal then of_nat (u + n) OR FLAG else if t = UptimeCurrent then FLAG
       else if t = Boot then of_nat (b + 1) else if t = s then of_nat (k + 1) else stat_read regs t)"
    and "length (snd r) = length regs"
proof -
  have valid: "validate_stats regs = regs"
    using total current assms(6) by (intro validate_stats_valid) (simp_all add: count_bits)
  have up: "(of_nat n OR FLAG) AND COUNT_MASK = of_nat n"
    "increment_by (of_nat u OR FLAG) (of_nat n) = (of_nat (u + n), of_nat (u + n) OR FLAG)"
    using assms(6) by (simp_all add: count_bits increment_small)
  have "increment_by (of_nat b) 1 = (of_nat (b + 1), of_nat (b + 1))"
    using increment_small(1) [of b 1] boot(2) by simp
  moreover have "\<not> 1800 \<le> (of_nat (u + n) :: u32)"
    using assms(6) u32_small [of "u + n"] by (simp add: word_le_nat_alt del: of_nat_add)
  moreover have "bump (of_nat k) = of_nat (k + 1)"
    using bump_small [OF count(2)] .
  moreover have "(20 < (of_nat (k + 1) :: u32)) = (20 < k + 1)" "(5 < (of_nat (k + 1) :: u32)) = (5 < k + 1)"
    using u32_small [OF count(2)] by (simp_all add: word_less_nat_alt del: of_nat_add)
  ultimately show "\<exists>st. fst r = Ok st \<and> st_boot_reason st = (if tolerated s < k + 1 then BR_Loop else cause_reason s)"
    and "\<not> tolerated s < k + 1 \<Longrightarrow> stat_read (snd r) t =
      (if t = UptimeTotal then of_nat (u + n) OR FLAG else if t = UptimeCurrent then FLAG
       else if t = Boot then of_nat (b + 1) else if t = s then of_nat (k + 1) else stat_read regs t)"
    and "length (snd r) = length regs"
    using s assms(3) len count(1) boot(1) unfolding r_def try_from_registers_def try_from_registers_or_def
    by (auto simp: causes_def valid total current up next_reason_def read_split_def Let_def stat_read_write stats_reset_read
        simp del: of_nat_add of_nat_Suc)
qed

lemma flagged_registers:
  assumes "counting u b k s regs" and "u + n < 1800" and "k < 2 ^ 28"
  defines "regs1 \<equiv> stat_write regs UptimeCurrent (snd (increment_by (stat_read regs UptimeCurrent) (of_nat n)))"
  defines "regs2 \<equiv> stat_write regs1 s (set_flag (stat_read regs1 s))"
  shows "stat_read regs2 UptimeCurrent = of_nat n OR FLAG" and "stat_read regs2 s = of_nat k OR FLAG"
    and "t \<noteq> UptimeCurrent \<Longrightarrow> t \<noteq> s \<Longrightarrow> stat_read regs2 t = stat_read regs t"
    and "length regs2 = length regs" and "next_reason regs2 = cause_reason s"
proof -
  have c: "STAT_COUNT \<le> length regs" "s \<in> set causes" "s \<noteq> UptimeCurrent" "stat_read regs UptimeCurrent = of_nat 0 OR FLAG"
    "stat_read regs s = of_nat k" "\<forall>t \<in> set causes. stat_read regs t AND FLAG_MASK = 0"
    using assms(1) by (auto simp: counting_def causes_def)
  have "increment_by (of_nat 0 OR FLAG) (of_nat n) = (of_nat n, of_nat n OR FLAG)"
    using increment_small(2) [of 0 n] assms(2) by (simp only: add_0) simp
  then show current: "stat_read regs2 UptimeCurrent = of_nat n OR FLAG"
    using c by (simp add: regs1_def regs2_def stat_read_write del: of_nat_0)
  show flag: "stat_read regs2 s = of_nat k OR FLAG"
    using c assms(3) by (simp add: regs1_def regs2_def stat_read_write set_flag_def count_bits)
  show other: "stat_read regs2 t = stat_read regs t" if "t \<noteq> UptimeCurrent" "t \<noteq> s" for t
    using c that by (simp add: regs1_def regs2_def stat_read_write)
  show "length regs2 = length regs"
    by (simp add: regs1_def regs2_def)
  have "FLAG \<noteq> 0"
    by (simp add: FLAG_def)
  then show "next_reason regs2 = cause_reason s"
    using c(2,6) flag other assms(3) by (auto simp: next_reason_def detect_reason_def causes_def count_bits)
qed

lemma boot_counting:
  assumes "counting u b k s regs" and "u + n < 1800" and "b + 1 < 2 ^ 28" and "k \<le> tolerated s"
  shows "fst (boot_after n s regs) = Some (if k = tolerated s then BR_Loop else cause_reason s)"
    and "k < tolerated s \<Longrightarrow> counting (u + n) (b + 1) (k + 1) s (snd (boot_after n s regs))"
proof -
  define regs1 where "regs1 = stat_write regs UptimeCurrent (snd (increment_by (stat_read regs UptimeCurrent) (of_nat n)))"
  define regs2 where "regs2 = stat_write regs1 s (set_flag (stat_read regs1 s))"
  have k: "k + 1 < 2 ^ 28"
    using assms(4) by (cases s) simp_all
  then have "k < 2 ^ 28"
    by simp
  note f = flagged_registers [OF assms(1,2) this, folded regs1_def, folded regs2_def]
  have c: "STAT_COUNT \<le> length regs2" "s \<in> set causes" "s \<notin> {UptimeTotal, UptimeCurrent, Boot}"
    "stat_read regs UptimeTotal = of_nat u OR FLAG" "stat_read regs Boot = of_nat b"
    "\<forall>t \<in> set causes. stat_read regs t AND FLAG_MASK = 0"
    using assms(1) f(4) k by (auto simp: counting_def causes_def)
  have "stat_read regs2 s AND COUNT_MASK = of_nat k" "stat_read regs2 UptimeTotal = of_nat u OR FLAG" "stat_read regs2 Boot = of_nat b"
    using f(2) f(3) [of UptimeTotal] f(3) [of Boot] c k by (auto simp: count_bits)
  note step = boot_with_flag [OF c(1,2) f(5) this(2) f(1) assms(2) this(3) assms(3) this(1) k]
  have after: "boot_after n s regs = ((case fst (try_from_registers regs2) of Ok st \<Rightarrow> Some (st_boot_reason st) | Err _ \<Rightarrow> None),
      snd (try_from_registers regs2))"
    by (simp add: boot_after_def regs1_def [symmetric] regs2_def [symmetric] Let_def split: prod.splits)
  show "fst (boot_after n s regs) = Some (if k = tolerated s then BR_Loop else cause_reason s)"
    using step(1) k assms(4) by (auto simp: after)
  show "counting (u + n) (b + 1) (k + 1) s (snd (boot_after n s regs))" if "k < tolerated s"
  proof -
    note step(2) [simp]
    have "stat_read regs2 t = stat_read regs t" if "t \<in> set causes" "t \<noteq> s" for t
      using f(3) [of t] that k by (auto simp: causes_def)
    then show ?thesis
      using that c k step(3) count_bits(2) [OF k] unfolding counting_def after
      by (auto simp: causes_def simp del: of_nat_add of_nat_Suc)
  qed
qed

text \<open>
  C26. Starting from reset statistics, resets of one cause (power-on, watchdog, panic or hard fault) are reported
  as that cause as many times as are tolerated (20 for power-on, 5 for the others) and the next one as a boot
  loop, provided the uptimes before the resets add up to less than half an hour.
\<close>

theorem boot_loop_detected:
  assumes "STAT_COUNT \<le> length regs" and "s \<in> set causes"
    and "length ns = tolerated s + 1" and "sum_list ns < 1800"
  shows "boots_after ns s (snd (stats_reset regs)) = replicate (tolerated s) (Some (cause_reason s)) @ [Some BR_Loop]"
proof -
  have "boots_after ns s r = replicate (tolerated s - k) (Some (cause_reason s)) @ [Some BR_Loop]"
    if "counting u k k s r" "u + sum_list ns < 1800" "length ns + k = tolerated s + 1" "k \<le> tolerated s" for u k r
    using that
  proof (induction ns arbitrary: u k r)
    case (Cons n ns)
    have "k + 1 < 2 ^ 28"
      using Cons.prems(4) by (cases s) simp_all
    note step = boot_counting [OF Cons.prems(1) _ this Cons.prems(4), of n]
    show ?case
    proof (cases "k = tolerated s")
      case True
      then show ?thesis
        using step(1) Cons.prems by (simp add: Let_def case_prod_unfold)
    next
      case False
      then have "tolerated s - k = Suc (tolerated s - (k + 1))"
        using Cons.prems(4) by simp
      then show ?thesis
        using False step Cons.IH [of "u + n" "k + 1"] Cons.prems by (simp add: Let_def case_prod_unfold)
    qed
  qed simp
  from this [of 0 0] show ?thesis
    using assms reset_counting [OF assms(1,2)] by simp
qed

theorem boot_loop_detected_witness:
  "boots_after [0, 10, 60, 0, 300, 1] WDT (snd (stats_reset (replicate 7 0))) =
     [Some Watchdog, Some Watchdog, Some Watchdog, Some Watchdog, Some Watchdog, Some BR_Loop]"
proof -
  have "boots_after [0, 10, 60, 0, 300, 1] WDT (snd (stats_reset (replicate 7 0))) =
      replicate (tolerated WDT) (Some (cause_reason WDT)) @ [Some BR_Loop]"
    by (rule boot_loop_detected) (simp_all add: STAT_COUNT_def causes_def)
  then show ?thesis
    by (simp add: numeral_eq_Suc)
qed

section \<open>Two flags at once\<close>

text \<open>
  C39. When the handler of a hard fault panics, both flags are set. The boot reports the hard fault and clears
  the flag of that register only: the flag of the panic stays, so that the following boot, after an
  ordinary power cycle, is reported as a panic and counted as one.
\<close>

theorem second_flag_survives:
  assumes "STAT_COUNT \<le> length regs" and "u + n < 1800" and "b + 2 < 2 ^ 28" and "k < 5" and "p < 5"
    and "stat_read regs UptimeTotal = of_nat u OR FLAG" and "stat_read regs UptimeCurrent = of_nat n OR FLAG"
    and "stat_read regs Boot = of_nat b"
    and "stat_read regs Fault = of_nat k OR FLAG" and "stat_read regs St_Panic = of_nat p OR FLAG"
  defines "r1 \<equiv> try_from_registers regs"
  defines "r2 \<equiv> try_from_registers (stat_write (snd r1) POR (set_flag (stat_read (snd r1) POR)))"
  shows "\<exists>st1 st2. fst r1 = Ok st1 \<and> st_boot_reason st1 = HardFault
    \<and> fst r2 = Ok st2 \<and> st_boot_reason st2 = BR_Panic"
proof -
  have flag: "FLAG \<noteq> 0"
    by (simp add: FLAG_def)
  have "next_reason regs = cause_reason Fault"
    using assms(4,9) flag by (simp add: next_reason_def detect_reason_def count_bits)
  moreover have "Fault \<in> set causes" "b + 1 < 2 ^ 28" "stat_read regs Fault AND COUNT_MASK = of_nat k" "k + 1 < 2 ^ 28"
    using assms(3,4,9) by (simp_all add: causes_def count_bits)
  ultimately have first: "\<exists>st. fst r1 = Ok st \<and> st_boot_reason st = HardFault" "length (snd r1) = length regs"
    and read: "\<And>t. stat_read (snd r1) t =
      (if t = UptimeTotal then of_nat (u + n) OR FLAG else if t = UptimeCurrent then FLAG
       else if t = Boot then of_nat (b + 1) else if t = Fault then of_nat (k + 1) else stat_read regs t)"
    using boot_with_flag [of regs Fault u n b k] assms(1,2,4,6,7,8) unfolding r1_def by simp_all
  define regs2 where "regs2 = stat_write (snd r1) POR (set_flag (stat_read (snd r1) POR))"
  have len: "STAT_COUNT \<le> length regs2" "STAT_COUNT \<le> length (snd r1)"
    using assms(1) first(2) by (simp_all add: regs2_def)
  have "next_reason regs2 = cause_reason St_Panic"
    using assms(4,5,10) flag len count_bits(2) [of "k + 1"] by (simp add: regs2_def next_reason_def detect_reason_def stat_read_write read count_bits del: of_nat_add of_nat_Suc)
  moreover have "stat_read regs2 UptimeTotal = of_nat (u + n) OR FLAG" "stat_read regs2 UptimeCurrent = of_nat 0 OR FLAG"
    "stat_read regs2 Boot = of_nat (b + 1)" "stat_read regs2 St_Panic AND COUNT_MASK = of_nat p"
    using assms(5,10) len by (simp_all add: regs2_def stat_read_write read count_bits)
  ultimately have "\<exists>st. fst r2 = Ok st \<and> st_boot_reason st = BR_Panic"
    using boot_with_flag(1) [of regs2 St_Panic "u + n" 0 "b + 1" p] len(1) assms(2,3,5)
    unfolding r2_def regs2_def [symmetric] by (simp add: causes_def del: of_nat_add of_nat_Suc)
  with first(1) show ?thesis
    by blast
qed

theorem second_flag_survives_witness:
  "let regs = [FLAG, FLAG, 0, 0, 0, FLAG, FLAG];
       r1 = try_from_registers regs;
       r2 = try_from_registers (stat_write (snd r1) POR (set_flag (stat_read (snd r1) POR))) in
   \<exists>st1 st2. fst r1 = Ok st1 \<and> st_boot_reason st1 = HardFault \<and> fst r2 = Ok st2 \<and> st_boot_reason st2 = BR_Panic"
  unfolding Let_def
  by (rule second_flag_survives [of _ 0 0 0 0 0]) (simp_all add: STAT_COUNT_def stat_read_def)

end
