(* ===== verification/Network_Task.thy ===== *)
theory Network_Task
  imports Prelude
begin

text \<open>
  The network task of \<open>logic/network.rs\<close>: it keeps a connection to the server open, uploads the messages of the
  upload queue one at a time, carries out the actions of the other tasks and connects again after an
  error. The client, the queues and the timers are outside: what they answer is the input of a round of the loop in
  \<open>handle_connection\<close> and of a connection attempt. \<^typ>\<open>'u\<close> stands for a confirmable upload, \<^typ>\<open>'s\<close> for the status
  payload and \<^typ>\<open>'c\<close> for the cell information. The results of sending a signal are ignored by the code.
\<close>

section \<open>Types\<close>

datatype 's network_action = Disconnect | SendDeviceInfo | SendStatus 's | DownloadUpdate | SetTimeout u32

datatype net_error = NE_InvalidSIM | NE_Client | NE_TimeOut | NE_MQTT | NE_Serialize | NE_SerializeTopic

datatype read_outcome = RO_Continue | RO_Disconnected

datatype firmware_download_start = FD_Started | FD_Failed

datatype disconnect_info = DI_Final | DI_Retry u32

datatype network_signal = NS_Connected | NS_Disconnected disconnect_info | NS_ConnectFailed | NS_SpawnFailed

datatype 'c net_task_signal = Sig_Network network_signal | Sig_CellInfo 'c | Sig_StatusSent u64 | Sig_FirmwareUpdateFailed

datatype ('u, 's) net_op = NO_Action "'s network_action" | NO_Upload 'u | NO_Read | NO_Stop | NO_None

fun is_upload :: "('u, 's) net_op \<Rightarrow> bool" where
  "is_upload (NO_Upload _) = True"
| "is_upload _ = False"

datatype disconnect_reason = DR_Success | DR_NotConnected | DR_Unexpected | DR_Error | DR_Fatal

datatype ('u, 's) select3 = Sel_A "unit option" | Sel_B "'s network_action" | Sel_C "('u, unit) result"

definition MIN_RETRY_DELAY_SEC :: u32 where
  "MIN_RETRY_DELAY_SEC = 3"

definition NETWORK_CONNECTING_TIMEOUT_SEC :: nat where
  "NETWORK_CONNECTING_TIMEOUT_SEC = 11 * 60"

definition RETRY_TIMEOUT_SEC :: u32 where
  "RETRY_TIMEOUT_SEC = 5 * 60"

definition DEFAULT_TIMEOUT_S :: u32 where
  "DEFAULT_TIMEOUT_S = 20"

definition MINIMUM_TIMEOUT_S :: u32 where
  "MINIMUM_TIMEOUT_S = 5"

record 'u net_state =
  ns_timeout_s :: u32
  ns_pending_upload :: "'u option"

text \<open>What the task does to the outside, in order.\<close>

datatype ('u, 'c) net_event =
  Ev_Recv 'u
| Ev_Send 'u "(unit, net_error) result"
| Ev_Confirm 'u
| Ev_Drop 'u
| Ev_Read
| Ev_Signal "'c net_task_signal"

section \<open>One connection\<close>

text \<open>
  The answers that one round of the loop may ask for: the waiting action, the waiting background message, which of the
  three futures completes first, the results of the calls of the client, and the confirmation token of the
  status that was sent.
\<close>

record ('u, 's) round_input =
  ri_try_action :: "'s network_action option"
  ri_drain :: "'u option"
  ri_select :: "('u, 's) select3"
  ri_read :: read_outcome
  ri_result :: "(unit, net_error) result"
  ri_token :: u64
  ri_download :: "(firmware_download_start, net_error) result"

text \<open>The choice of the next operation; \<open>None\<close> is the \<open>break\<close> when everything is drained.\<close>

definition next_op ::
  "('u, 's) round_input \<Rightarrow> bool \<Rightarrow> 'u net_state \<Rightarrow> ('u, 's) net_op option \<times> 'u net_state \<times> ('u, 'c) net_event list" where
  "next_op i disconnect_pending st =
     (case ns_pending_upload st of
        Some upload \<Rightarrow>
          (case ri_try_action i of
             Some action \<Rightarrow> (Some (NO_Action action), st, [])
           | None \<Rightarrow> (Some (NO_Upload upload), st, []))
      | None \<Rightarrow>
          if disconnect_pending then
            (case ri_try_action i of
               Some action \<Rightarrow> (Some (NO_Action action), st, [])
             | None \<Rightarrow>
                 (case ri_drain i of
                    Some msg \<Rightarrow> (Some (NO_Upload msg), st\<lparr>ns_pending_upload := Some msg\<rparr>, [Ev_Recv msg])
                  | None \<Rightarrow> (None, st, [])))
          else
            (case ri_select i of
               Sel_A (Some _) \<Rightarrow> (Some NO_Read, st, [])
             | Sel_A None \<Rightarrow> (Some NO_Stop, st, [])
             | Sel_B action \<Rightarrow> (Some (NO_Action action), st, [])
             | Sel_C (Ok msg) \<Rightarrow> (Some (NO_Upload msg), st\<lparr>ns_pending_upload := Some msg\<rparr>, [Ev_Recv msg])
             | Sel_C (Err _) \<Rightarrow> (Some NO_None, st, [])))"

text \<open>
  The operation itself: \<open>Err\<close> is a \<open>break\<close> with its reason, \<open>Ok\<close> carries \<open>op_result\<close>.
\<close>

definition perform ::
  "('u, 's) round_input \<Rightarrow> ('u, 's) net_op \<Rightarrow> bool \<Rightarrow> 'u net_state \<Rightarrow>
   ((unit, net_error) result, disconnect_reason) result \<times> bool \<times> 'u net_state \<times> ('u, 'c) net_event list" where
  "perform i op disconnect_pending st =
     (case op of
        NO_Read \<Rightarrow>
          (case ri_read i of
             RO_Continue \<Rightarrow> (Ok (Ok ()), disconnect_pending, st, [Ev_Read])
           | RO_Disconnected \<Rightarrow> (Err DR_Unexpected, disconnect_pending, st, [Ev_Read]))
      | NO_Action Disconnect \<Rightarrow> (Ok (Ok ()), True, st, [])
      | NO_Action (SetTimeout new_timeout) \<Rightarrow>
          (Ok (Ok ()), disconnect_pending, st\<lparr>ns_timeout_s := max new_timeout MINIMUM_TIMEOUT_S\<rparr>, [])
      | NO_Action SendDeviceInfo \<Rightarrow> (Ok (ri_result i), disconnect_pending, st, [])
      | NO_Action (SendStatus device_status) \<Rightarrow>
          (Ok (ri_result i), disconnect_pending, st,
           if ri_result i = Ok () then [Ev_Signal (Sig_StatusSent (ri_token i))] else [])
      | NO_Action DownloadUpdate \<Rightarrow>
          (case ri_download i of
             Ok FD_Started \<Rightarrow> (Ok (Ok ()), disconnect_pending, st, [])
           | Ok FD_Failed \<Rightarrow> (Ok (Ok ()), disconnect_pending, st, [Ev_Signal Sig_FirmwareUpdateFailed])
           | Err _ \<Rightarrow> (Err DR_Error, disconnect_pending, st, []))
      | NO_Upload upload \<Rightarrow> (Ok (ri_result i), disconnect_pending, st, [Ev_Send upload (ri_result i)])
      | NO_None \<Rightarrow> (Ok (Ok ()), disconnect_pending, st, [])
      | NO_Stop \<Rightarrow> (Err DR_Success, disconnect_pending, st, []))"

text \<open>What follows from \<open>op_result\<close>: an error of the connection ends it, an upload that was sent is confirmed.\<close>

definition conclude ::
  "bool \<Rightarrow> (unit, net_error) result \<Rightarrow> 'u net_state \<Rightarrow> disconnect_reason option \<times> 'u net_state \<times> ('u, 'c) net_event list" where
  "conclude upload_done op_result st =
     (case op_result of
        Err NE_InvalidSIM \<Rightarrow> (Some DR_Error, st, [])
      | Err NE_Client \<Rightarrow> (Some DR_Error, st, [])
      | Err NE_TimeOut \<Rightarrow> (Some DR_Error, st, [])
      | Err NE_MQTT \<Rightarrow> (Some DR_Error, st, [])
      | Err NE_Serialize \<Rightarrow> (None, st, [])
      | Err NE_SerializeTopic \<Rightarrow> (None, st, [])
      | Ok _ \<Rightarrow>
          if upload_done then
            (case ns_pending_upload st of
               Some completed \<Rightarrow> (None, st\<lparr>ns_pending_upload := None\<rparr>, [Ev_Confirm completed])
             | None \<Rightarrow> (None, st, []))
          else (None, st, []))"

text \<open>One round of the loop, with the reason if it ends the connection.\<close>

definition connection_round ::
  "('u, 's) round_input \<Rightarrow> bool \<times> 'u net_state \<Rightarrow>
   disconnect_reason option \<times> (bool \<times> 'u net_state) \<times> ('u, 'c) net_event list" where
  "connection_round i =
     (\<lambda>(disconnect_pending, st).
        case next_op i disconnect_pending st of
          (None, st1, ev1) \<Rightarrow> (Some DR_Success, (disconnect_pending, st1), ev1)
        | (Some op, st1, ev1) \<Rightarrow>
            (case perform i op disconnect_pending st1 of
               (Err reason, dp, st2, ev2) \<Rightarrow> (Some reason, (dp, st2), ev1 @ ev2)
             | (Ok op_result, dp, st2, ev2) \<Rightarrow>
                 (case conclude (is_upload op) op_result st2 of
                    (reason, st3, ev3) \<Rightarrow> (reason, (dp, st3), ev1 @ ev2 @ ev3))))"

text \<open>
  The loop on the inputs of its rounds. It ends with a reason, or it is still running when the inputs are used up.
\<close>

fun connection_rounds ::
  "('u, 's) round_input list \<Rightarrow> bool \<times> 'u net_state \<Rightarrow>
   disconnect_reason option \<times> (bool \<times> 'u net_state) \<times> ('u, 'c) net_event list" where
  "connection_rounds [] st = (None, st, [])"
| "connection_rounds (i # is) st =
     (case connection_round i st of
        (Some reason, st1, ev1) \<Rightarrow> (Some reason, st1, ev1)
      | (None, st1, ev1) \<Rightarrow>
          (case connection_rounds is st1 of (reason, st2, ev2) \<Rightarrow> (reason, st2, ev1 @ ev2)))"

definition handle_connection ::
  "('u, 's) round_input list \<Rightarrow> 'u net_state \<Rightarrow> disconnect_reason option \<times> 'u net_state \<times> ('u, 'c) net_event list" where
  "handle_connection is st = (case connection_rounds is (False, st) of (reason, (_, st1), ev) \<Rightarrow> (reason, st1, ev))"

section \<open>The retry loop\<close>

text \<open>
  The answers of one connection attempt. The durations are in microseconds of the monotonic clock: of the connect call,
  of the time from there to the decision about a retry, and what the retry takes beyond its delay. A connect call that
  does not return is stopped by the timeout and has no result.
\<close>

record ('u, 's, 'c) attempt =
  at_connect :: "(unit, net_error) result option"
  at_connect_us :: nat
  at_cell :: "'c option"
  at_rounds :: "('u, 's) round_input list"
  at_close_us :: nat
  at_extra_us :: nat

record ('u, 'c) task_state =
  tk_state :: "'u net_state"
  tk_offline_since :: "nat option"
  tk_next_retry_sec :: u32
  tk_now :: nat
  tk_log :: "('u, 'c) net_event list"

definition network_task_new :: "nat \<Rightarrow> ('u, 'c) task_state" where
  "network_task_new now =
     \<lparr>tk_state = \<lparr>ns_timeout_s = DEFAULT_TIMEOUT_S, ns_pending_upload = None\<rparr>, tk_offline_since = Some now,
      tk_next_retry_sec = MIN_RETRY_DELAY_SEC, tk_now = now, tk_log = []\<rparr>"

definition emit :: "('u, 'c) net_event list \<Rightarrow> ('u, 'c) task_state \<Rightarrow> ('u, 'c) task_state" where
  "emit ev t = t\<lparr>tk_log := tk_log t @ ev\<rparr>"

definition elapsed_sec :: "nat \<Rightarrow> nat \<Rightarrow> nat" where
  "elapsed_sec now since = (now - since) div 1000000"

text \<open>Connecting and, if that works, the connection; \<open>None\<close> while the connection is open.\<close>

definition connect_and_handle ::
  "('u, 's, 'c) attempt \<Rightarrow> ('u, 'c) task_state \<Rightarrow> disconnect_reason option \<times> ('u, 'c) task_state" where
  "connect_and_handle a t =
     (let t = t\<lparr>tk_now := tk_now t + at_connect_us a\<rparr> in
      case at_connect a of
        Some (Err _) \<Rightarrow> (Some DR_NotConnected, t\<lparr>tk_now := tk_now t + at_close_us a\<rparr>)
      | None \<Rightarrow> (Some DR_Fatal, t\<lparr>tk_now := tk_now t + at_close_us a\<rparr>)
      | Some (Ok _) \<Rightarrow>
          let t = emit [Ev_Signal (Sig_Network NS_Connected)] (t\<lparr>tk_offline_since := None\<rparr>);
              t = (case at_cell a of Some cell \<Rightarrow> emit [Ev_Signal (Sig_CellInfo cell)] t | None \<Rightarrow> t) in
          (case handle_connection (at_rounds a) (tk_state t) of
             (reason, st, ev) \<Rightarrow> (reason, emit ev (t\<lparr>tk_state := st, tk_now := tk_now t + at_close_us a\<rparr>))))"

text \<open>The decision whether to retry, and the time since which the device counts as offline.\<close>

definition decide_retry :: "('u, 'c) task_state \<Rightarrow> bool \<times> ('u, 'c) task_state" where
  "decide_retry t =
     (case tk_offline_since t of
        None \<Rightarrow> (True, t\<lparr>tk_offline_since := Some (tk_now t)\<rparr>)
      | Some since \<Rightarrow> (of_nat (elapsed_sec (tk_now t) since) + tk_next_retry_sec t \<le> RETRY_TIMEOUT_SEC, t))"

text \<open>A return drops the state of the task, and with it a pending upload.\<close>

definition task_return :: "('u, 'c) task_state \<Rightarrow> ('u, 'c) task_state" where
  "task_return t =
     (case ns_pending_upload (tk_state t) of
        Some upload \<Rightarrow> emit [Ev_Drop upload] (t\<lparr>tk_state := (tk_state t)\<lparr>ns_pending_upload := None\<rparr>\<rparr>)
      | None \<Rightarrow> t)"

definition backoff :: "u32 \<Rightarrow> u32" where
  "backoff next_retry_sec =
     (let next_retry_sec = next_retry_sec * 2 in
      if RETRY_TIMEOUT_SEC < next_retry_sec then RETRY_TIMEOUT_SEC else next_retry_sec)"

datatype task_status = TS_Connected | TS_Returned | TS_Retrying

definition attempt_round ::
  "('u, 's, 'c) attempt \<Rightarrow> ('u, 'c) task_state \<Rightarrow> task_status \<times> ('u, 'c) task_state" where
  "attempt_round a t =
     (case connect_and_handle a t of
        (None, t) \<Rightarrow> (TS_Connected, t)
      | (Some reason, t) \<Rightarrow>
          let (will_retry, t) = decide_retry t in
          if reason = DR_Success
          then (TS_Returned, task_return (emit [Ev_Signal (Sig_Network (NS_Disconnected DI_Final))] t))
          else
            let will_retry = (will_retry \<and> reason \<noteq> DR_Fatal);
                sig = (case reason of
                    DR_NotConnected \<Rightarrow> NS_ConnectFailed
                  | DR_Fatal \<Rightarrow> NS_Disconnected DI_Final
                  | _ \<Rightarrow> if will_retry then NS_Disconnected (DI_Retry (tk_next_retry_sec t)) else NS_Disconnected DI_Final);
                t = emit [Ev_Signal (Sig_Network sig)] t in
            if \<not> will_retry then (TS_Returned, task_return t)
            else
              (TS_Retrying,
               t\<lparr>tk_now := tk_now t + unat (tk_next_retry_sec t * 1000) * 1000 + at_extra_us a,
                 tk_next_retry_sec := backoff (tk_next_retry_sec t)\<rparr>))"

fun network_task ::
  "('u, 's, 'c) attempt list \<Rightarrow> ('u, 'c) task_state \<Rightarrow> task_status \<times> ('u, 'c) task_state" where
  "network_task [] t = (TS_Retrying, t)"
| "network_task (a # as) t =
     (case attempt_round a t of
        (TS_Retrying, t1) \<Rightarrow> network_task as t1
      | r \<Rightarrow> r)"

end
