(* ===== verification/Network_Theorems.thy ===== *)
theory Network_Theorems
  imports Network_Task
begin

text \<open>
  The properties of the network task: uploads are confirmed in order and only after they were sent, a task that
  cannot connect gives up in time, and an upload that cannot be serialized blocks the connection.
\<close>

section \<open>Uploads\<close>

text \<open>The uploads that the task took from the queue, confirmed and dropped, in order.\<close>

definition received :: "('u, 'c) net_event list \<Rightarrow> 'u list" where
  "received log = concat (map (\<lambda>e. case e of Ev_Recv u \<Rightarrow> [u] | _ \<Rightarrow> []) log)"

definition confirmed :: "('u, 'c) net_event list \<Rightarrow> 'u list" where
  "confirmed log = concat (map (\<lambda>e. case e of Ev_Confirm u \<Rightarrow> [u] | _ \<Rightarrow> []) log)"

definition dropped :: "('u, 'c) net_event list \<Rightarrow> 'u list" where
  "dropped log = concat (map (\<lambda>e. case e of Ev_Drop u \<Rightarrow> [u] | _ \<Rightarrow> []) log)"

definition pending_list :: "'u net_state \<Rightarrow> 'u list" where
  "pending_list st = (case ns_pending_upload st of Some u \<Rightarrow> [u] | None \<Rightarrow> [])"

text \<open>Every confirmation follows directly on a successful transmission of the same upload.\<close>

definition sent_first :: "('u, 'c) net_event list \<Rightarrow> bool" where
  "sent_first log \<longleftrightarrow> (\<forall>pre u post. log = pre @ Ev_Confirm u # post \<longrightarrow> pre \<noteq> [] \<and> last pre = Ev_Send u (Ok ()))"

lemma log_lists [simp]:
  "received [] = []" "confirmed [] = []" "dropped [] = []"
  "received (e # log) = (case e of Ev_Recv u \<Rightarrow> [u] | _ \<Rightarrow> []) @ received log"
  "confirmed (e # log) = (case e of Ev_Confirm u \<Rightarrow> [u] | _ \<Rightarrow> []) @ confirmed log"
  "dropped (e # log) = (case e of Ev_Drop u \<Rightarrow> [u] | _ \<Rightarrow> []) @ dropped log"
  "received (log @ log') = received log @ received log'"
  "confirmed (log @ log') = confirmed log @ confirmed log'"
  "dropped (log @ log') = dropped log @ dropped log'"
  by (simp_all add: received_def confirmed_def dropped_def)

lemma sent_first_Nil [simp]: "sent_first []"
  by (simp add: sent_first_def)

lemma sent_first_append:
  assumes "sent_first a" and "sent_first b"
  shows "sent_first (a @ b)"
  unfolding sent_first_def
proof (intro allI impI)
  fix pre u post
  assume "a @ b = pre @ Ev_Confirm u # post"
  then consider (left) c where "a = pre @ Ev_Confirm u # c" | (right) c where "pre = a @ c" "b = c @ Ev_Confirm u # post"
    by (auto simp: append_eq_append_conv2 append_eq_Cons_conv)
  then show "pre \<noteq> [] \<and> last pre = Ev_Send u (Ok ())"
    using assms by cases (auto simp: sent_first_def)
qed

lemma sent_first_quiet: "confirmed log = [] \<Longrightarrow> sent_first log"
  by (auto simp: sent_first_def)

lemma sent_first_send: "sent_first [Ev_Send u (Ok ()), Ev_Confirm u]"
  by (auto simp: sent_first_def Cons_eq_append_conv)

text \<open>What one round, one connection and one run of the task do to the uploads.\<close>

definition accounts :: "'u net_state \<Rightarrow> ('u, 'c) net_event list \<Rightarrow> 'u net_state \<Rightarrow> bool" where
  "accounts st ev st' \<longleftrightarrow> pending_list st @ received ev = confirmed ev @ pending_list st' \<and> dropped ev = [] \<and> sent_first ev"

lemma accounts_quiet [intro]:
  "received ev = [] \<Longrightarrow> confirmed ev = [] \<Longrightarrow> dropped ev = [] \<Longrightarrow> pending_list st' = pending_list st \<Longrightarrow> accounts st ev st'"
  by (simp add: accounts_def sent_first_quiet)

lemma accounts_trans:
  assumes "accounts st ev st1" and "accounts st1 ev1 st2"
  shows "accounts st (ev @ ev1) st2"
  using assms unfolding accounts_def by (simp add: sent_first_append) (metis append_assoc)

text \<open>The upload of a round is the pending one, whether it waited or was just received.\<close>

lemma next_op_accounts:
  assumes "next_op i dp st = (r, st1, ev)"
  shows "accounts st ev st1" and "r = Some (NO_Upload u) \<Longrightarrow> ns_pending_upload st1 = Some u"
  using assms by (auto simp: next_op_def accounts_def pending_list_def sent_first_quiet
      split: option.splits if_splits select3.splits sum.splits)

lemma perform_accounts:
  assumes "perform i op dp st = (r, dp1, st1, ev)"
  shows "pending_list st1 = pending_list st" and "ns_pending_upload st1 = ns_pending_upload st"
    and "is_upload op \<Longrightarrow> \<exists>u. op = NO_Upload u \<and> ev = [Ev_Send u (ri_result i)] \<and> r = Ok (ri_result i)"
    and "\<not> is_upload op \<Longrightarrow> received ev = [] \<and> confirmed ev = [] \<and> dropped ev = []"
  using assms by (auto simp: perform_def pending_list_def split: net_op.splits network_action.splits
      read_outcome.splits firmware_download_start.splits sum.splits if_splits)

lemma round_accounts:
  fixes ev :: "('u, 'c) net_event list"
  assumes "connection_round i (dp, st) = (r, (dp1, st1), ev)"
  shows "accounts st ev st1"
proof (cases "next_op i dp st :: _ \<times> _ \<times> ('u, 'c) net_event list")
  case (fields op st2 ev1)
  note first = next_op_accounts [OF this]
  show ?thesis
  proof (cases op)
    case None
    then show ?thesis
      using assms fields first(1) by (simp add: connection_round_def)
  next
    case (Some op')
    obtain pr dp3 st3 and ev2 :: "('u, 'c) net_event list" where p: "perform i op' dp st2 = (pr, dp3, st3, ev2)"
      using prod_cases4 by blast
    note second = perform_accounts [OF p]
    have "accounts st2 (drop (length ev1) ev) st1 \<and> ev = ev1 @ drop (length ev1) ev"
    proof (cases "is_upload op'")
      case True
      then obtain u where u: "op' = NO_Upload u" "ev2 = [Ev_Send u (ri_result i)]" "pr = Ok (ri_result i)"
        using second(3) by blast
      then show ?thesis
        using assms fields Some p first(2) [of u] second(2) sent_first_send [of u]
        by (auto simp: connection_round_def conclude_def accounts_def pending_list_def sent_first_quiet
            split: sum.splits net_error.splits option.splits)
    next
      case False
      then show ?thesis
        using assms fields Some p second(1,4)
        by (auto simp: connection_round_def conclude_def intro!: accounts_quiet
            split: sum.splits net_error.splits)
    qed
    then show ?thesis
      using accounts_trans [OF first(1)] by metis
  qed
qed

lemma rounds_account:
  fixes ev :: "('u, 'c) net_event list"
  shows "connection_rounds is (dp, st) = (r, (dp1, st1), ev) \<Longrightarrow> accounts st ev st1"
proof (induction "is" arbitrary: dp st ev)
  case (Cons i "is")
  obtain r2 dp2 st2 and ev2 :: "('u, 'c) net_event list" where first: "connection_round i (dp, st) = (r2, (dp2, st2), ev2)"
    by (metis surj_pair)
  note acc = round_accounts [OF first]
  show ?case
  proof (cases r2)
    case None
    obtain r3 dp3 st3 and ev3 :: "('u, 'c) net_event list" where rest: "connection_rounds is (dp2, st2) = (r3, (dp3, st3), ev3)"
      by (metis surj_pair)
    then have "r3 = r" "dp3 = dp1" "st3 = st1" "ev = ev2 @ ev3"
      using Cons.prems first None by simp_all
    then show ?thesis
      using accounts_trans [OF acc Cons.IH] rest by simp
  next
    case (Some reason)
    then show ?thesis
      using Cons.prems first acc by simp
  qed
qed auto

lemma connection_accounts:
  "handle_connection is st = (r, st1, ev) \<Longrightarrow> accounts st ev st1"
  by (auto simp: handle_connection_def split: prod.splits dest: rounds_account)

section \<open>The task\<close>

lemma emit_simps [simp]:
  "tk_log (emit ev t) = tk_log t @ ev" "tk_state (emit ev t) = tk_state t" "tk_offline_since (emit ev t) = tk_offline_since t"
  "tk_next_retry_sec (emit ev t) = tk_next_retry_sec t" "tk_now (emit ev t) = tk_now t"
  by (simp_all add: emit_def)

lemma connect_accounts:
  fixes a :: "('u, 's, 'c) attempt"
  assumes "connect_and_handle a t = (r, t1)"
  shows "\<exists>ev. tk_log t1 = tk_log t @ ev \<and> accounts (tk_state t) ev (tk_state t1)"
proof (cases "at_connect a = Some (Ok ())")
  case True
  define cell where "cell = (case at_cell a of Some c \<Rightarrow> [Ev_Signal (Sig_CellInfo c)] | None \<Rightarrow> ([] :: ('u, 'c) net_event list))"
  obtain r1 st1 and ev1 :: "('u, 'c) net_event list" where h: "handle_connection (at_rounds a) (tk_state t) = (r1, st1, ev1)"
    by (metis surj_pair)
  have "accounts (tk_state t) (Ev_Signal (Sig_Network NS_Connected) # cell) (tk_state t)"
    by (rule accounts_quiet) (simp_all add: cell_def split: option.splits)
  from accounts_trans [OF this connection_accounts [OF h]] True assms h show ?thesis
    by (auto simp: connect_and_handle_def Let_def cell_def split: option.splits)
next
  case False
  then have "tk_log t1 = tk_log t" "tk_state t1 = tk_state t"
    using assms by (auto simp: connect_and_handle_def Let_def split: option.splits sum.splits)
  then show ?thesis
    by (intro exI [of _ "[]"]) auto
qed

lemma decide_retry_simps:
  assumes "decide_retry t = (w, t1)"
  shows "tk_log t1 = tk_log t" "tk_state t1 = tk_state t" "tk_now t1 = tk_now t" "tk_next_retry_sec t1 = tk_next_retry_sec t"
  using assms by (auto simp: decide_retry_def split: option.splits)

text \<open>A return hands the pending upload back.\<close>

definition closes :: "'u net_state \<Rightarrow> ('u, 'c) net_event list \<Rightarrow> 'u net_state \<Rightarrow> bool" where
  "closes st ev st' \<longleftrightarrow> pending_list st @ received ev = confirmed ev @ dropped ev \<and> pending_list st' = [] \<and> sent_first ev"

lemma task_return_closes:
  assumes "accounts st ev (tk_state t)"
  shows "\<exists>ev'. tk_log (task_return t) = tk_log t @ ev' \<and> closes st (ev @ ev') (tk_state (task_return t))"
  using assms
  by (cases "ns_pending_upload (tk_state t)")
    (auto simp: task_return_def accounts_def closes_def pending_list_def sent_first_append sent_first_quiet)

lemma attempt_accounts:
  assumes "attempt_round a t = (s, t1)"
  shows "\<exists>ev. tk_log t1 = tk_log t @ ev
    \<and> (if s = TS_Returned then closes (tk_state t) ev (tk_state t1) else accounts (tk_state t) ev (tk_state t1))"
proof -
  obtain r t2 where c: "connect_and_handle a t = (r, t2)"
    by (metis surj_pair)
  from connect_accounts [OF this] obtain ev where ev: "tk_log t2 = tk_log t @ ev" "accounts (tk_state t) ev (tk_state t2)"
    by blast
  show ?thesis
  proof (cases r)
    case None
    then show ?thesis
      using assms c ev by (auto simp: attempt_round_def)
  next
    case (Some reason)
    obtain w t3 where d: "decide_retry t2 = (w, t3)"
      by (metis surj_pair)
    have signal: "accounts (tk_state t) (ev @ [Ev_Signal x]) (tk_state (emit [Ev_Signal x] t3))" for x
      using accounts_trans [OF ev(2)] decide_retry_simps [OF d] by (metis accounts_quiet emit_simps(2) log_lists(1-6) net_event.case(6) append_Nil)
    show ?thesis
      using assms c Some d ev(1) decide_retry_simps [OF d] task_return_closes [OF signal] signal
      by (fastforce simp: attempt_round_def Let_def split: if_splits)
  qed
qed

lemma task_accounts:
  assumes "network_task as t = (s, t1)"
  shows "\<exists>ev. tk_log t1 = tk_log t @ ev
    \<and> (if s = TS_Returned then closes (tk_state t) ev (tk_state t1) else accounts (tk_state t) ev (tk_state t1))"
  using assms
proof (induction "as" arbitrary: t)
  case Nil
  then show ?case
    by (intro exI [of _ "[]"]) auto
next
  case (Cons a "as")
  obtain s2 t2 where a: "attempt_round a t = (s2, t2)"
    by (metis surj_pair)
  from attempt_accounts [OF this] obtain ev where ev: "tk_log t2 = tk_log t @ ev"
    "if s2 = TS_Returned then closes (tk_state t) ev (tk_state t2) else accounts (tk_state t) ev (tk_state t2)"
    by blast
  show ?case
  proof (cases "s2 = TS_Retrying")
    case True
    then obtain ev' where ev': "tk_log t1 = tk_log t2 @ ev'"
      "if s = TS_Returned then closes (tk_state t2) ev' (tk_state t1) else accounts (tk_state t2) ev' (tk_state t1)"
      using Cons a by fastforce
    have "closes (tk_state t) (ev @ ev') (tk_state t1)" if "closes (tk_state t2) ev' (tk_state t1)"
      using ev(2) that True unfolding accounts_def closes_def by (simp add: sent_first_append) (metis append_assoc)
    then show ?thesis
      using ev ev' True accounts_trans [of "tk_state t" ev "tk_state t2" ev'] by (intro exI [of _ "ev @ ev'"]) auto
  next
    case False
    then show ?thesis
      using Cons.prems a ev by (cases s2) auto
  qed
qed

text \<open>
  C19. In every run of the network task, across all its connections, the uploads that it took from the queue are, in
  order, those that it confirmed, followed by at most one other: the pending upload while the task runs, and the
  upload that it drops, so that it is retried later, when it returns. Every confirmation comes directly after
  a successful transmission of the same upload.
\<close>

theorem uploads_confirmed_after_sending:
  assumes "network_task as (network_task_new now) = (s, t)"
  shows "received (tk_log t) = confirmed (tk_log t) @ (if s = TS_Returned then dropped (tk_log t) else pending_list (tk_state t))
    \<and> (if s = TS_Returned then pending_list (tk_state t) = [] else dropped (tk_log t) = [])
    \<and> sent_first (tk_log t)"
  using task_accounts [OF assms] by (auto simp: network_task_new_def accounts_def closes_def pending_list_def split: if_splits)

text \<open>Two messages, the second of which is sent in a second connection because the first one breaks.\<close>

definition ex_input :: "(nat, unit) round_input" where
  "ex_input = \<lparr>ri_try_action = None, ri_drain = None, ri_select = Sel_A None, ri_read = RO_Continue, ri_result = Ok (), ri_token = 0,
     ri_download = Ok FD_Started\<rparr>"

definition ex_attempt :: "(nat, unit, unit) attempt" where
  "ex_attempt = \<lparr>at_connect = Some (Ok ()), at_connect_us = 0, at_cell = None, at_rounds = [], at_close_us = 0, at_extra_us = 0\<rparr>"

definition ex_attempts :: "(nat, unit, unit) attempt list" where
  "ex_attempts =
    [ex_attempt\<lparr>at_rounds := [ex_input\<lparr>ri_select := Sel_C (Ok 7)\<rparr>, ex_input\<lparr>ri_select := Sel_C (Ok 8), ri_result := Err NE_TimeOut\<rparr>]\<rparr>,
     ex_attempt\<lparr>at_rounds := [ex_input]\<rparr>]"

theorem uploads_confirmed_after_sending_witness:
  "let t = snd (network_task ex_attempts (network_task_new 0)) in
   confirmed (tk_log t) = [7, 8] \<and> received (tk_log t) = [7, 8] \<and> sent_first (tk_log t)"
proof -
  let ?r = "network_task ex_attempts (network_task_new 0)"
  have "confirmed (tk_log (snd ?r)) = [7, 8]" "fst ?r = TS_Connected" "pending_list (tk_state (snd ?r)) = []"
    by (simp_all add: ex_attempts_def ex_attempt_def ex_input_def network_task_new_def attempt_round_def connect_and_handle_def
        handle_connection_def connection_round_def next_op_def perform_def conclude_def decide_retry_def pending_list_def Let_def)
  then show ?thesis
    using uploads_confirmed_after_sending [OF prod.collapse [of ?r, symmetric]] by (simp add: Let_def)
qed

section \<open>An upload that cannot be sent\<close>

text \<open>
  The answers in a connection where the pending upload cannot be serialized and nothing else goes wrong: any actions
  may arrive, and what they send may succeed or fail to serialize.
\<close>

definition cannot_serialize :: "(unit, net_error) result \<Rightarrow> bool" where
  "cannot_serialize r \<longleftrightarrow> r = Err NE_Serialize \<or> r = Err NE_SerializeTopic"

definition stuck_input :: "('u, 's) round_input \<Rightarrow> bool" where
  "stuck_input i \<longleftrightarrow>
     (case ri_try_action i of
        None \<Rightarrow> cannot_serialize (ri_result i)
      | Some SendDeviceInfo \<Rightarrow> ri_result i = Ok () \<or> cannot_serialize (ri_result i)
      | Some (SendStatus _) \<Rightarrow> ri_result i = Ok () \<or> cannot_serialize (ri_result i)
      | Some DownloadUpdate \<Rightarrow> ri_download i = Ok FD_Started \<or> ri_download i = Ok FD_Failed
      | Some _ \<Rightarrow> True)"

lemma stuck_round:
  assumes "ns_pending_upload st = Some u" and "stuck_input i"
  shows "\<exists>dp1 st1 (ev :: ('u, 'c) net_event list). connection_round i (dp, st) = (None, (dp1, st1), ev) \<and> ns_pending_upload st1 = Some u
    \<and> received ev = [] \<and> confirmed ev = [] \<and> Ev_Read \<notin> set ev"
proof (cases "ri_try_action i")
  case None
  then show ?thesis
    using assms by (auto simp: connection_round_def next_op_def perform_def conclude_def stuck_input_def cannot_serialize_def)
next
  case (Some action)
  then show ?thesis
    using assms by (cases action)
      (auto simp: connection_round_def next_op_def perform_def conclude_def stuck_input_def cannot_serialize_def)
qed

lemma stuck_rounds:
  assumes "ns_pending_upload st = Some u" and "\<forall>i \<in> set is. stuck_input i"
  shows "\<exists>dp1 st1 (ev :: ('u, 'c) net_event list). connection_rounds is (dp, st) = (None, (dp1, st1), ev) \<and> ns_pending_upload st1 = Some u
    \<and> received ev = [] \<and> confirmed ev = [] \<and> Ev_Read \<notin> set ev"
  using assms
proof (induction "is" arbitrary: dp st)
  case (Cons i "is")
  from stuck_round [where 'c = 'c, OF Cons.prems(1), of i dp] Cons.prems(2) obtain dp1 st1 and ev :: "('u, 'c) net_event list" where
    "connection_round i (dp, st) = (None, (dp1, st1), ev)" "ns_pending_upload st1 = Some u"
    "received ev = []" "confirmed ev = []" "Ev_Read \<notin> set ev"
    by auto
  moreover from Cons.IH [OF this(2), of dp1] Cons.prems(2) obtain dp2 st2 and ev2 :: "('u, 'c) net_event list" where
    "connection_rounds is (dp1, st1) = (None, (dp2, st2), ev2)" "ns_pending_upload st2 = Some u"
    "received ev2 = []" "confirmed ev2 = []" "Ev_Read \<notin> set ev2"
    by auto
  ultimately show ?case
    by simp
qed simp

text \<open>
  C21. An upload that fails to serialize stays pending: however long the connection lasts and whatever actions arrive, a
  request to disconnect included, the connection does not end, no other message is taken from the
  queue or confirmed, and nothing that the server sends is read.
\<close>

theorem unserializable_upload_blocks:
  assumes "ns_pending_upload st = Some u" and "\<forall>i \<in> set is. stuck_input i"
  shows "\<exists>st1 (ev :: ('u, 'c) net_event list). handle_connection is st = (None, st1, ev) \<and> ns_pending_upload st1 = Some u
    \<and> received ev = [] \<and> confirmed ev = [] \<and> Ev_Read \<notin> set ev"
  using stuck_rounds [where 'c = 'c, OF assms, of False] by (auto simp: handle_connection_def)

theorem unserializable_upload_blocks_witness:
  "\<exists>st1 (ev :: (nat, unit) net_event list). handle_connection
      [ex_input\<lparr>ri_result := Err NE_Serialize\<rparr>, ex_input\<lparr>ri_try_action := Some Disconnect\<rparr>, ex_input\<lparr>ri_result := Err NE_Serialize\<rparr>]
      \<lparr>ns_timeout_s = 20, ns_pending_upload = Some 7\<rparr> = (None, st1, ev)
    \<and> ns_pending_upload st1 = Some 7 \<and> received ev = [] \<and> confirmed ev = [] \<and> Ev_Read \<notin> set ev"
  by (rule unserializable_upload_blocks) (simp_all add: ex_input_def stuck_input_def cannot_serialize_def)

section \<open>Giving up\<close>

definition failed :: "('u, 's, 'c) attempt \<Rightarrow> bool" where
  "failed a \<longleftrightarrow> (\<exists>e. at_connect a = Some (Err e))"

text \<open>
  The assumption of the code on the time that connecting takes, and a bound \<open>D\<close> on the time that it does not account
  for: closing the connection after a failure, sending signals and waking up late.
\<close>

definition in_time :: "nat \<Rightarrow> ('u, 's, 'c) attempt \<Rightarrow> bool" where
  "in_time D a \<longleftrightarrow> at_extra_us a \<le> D \<and>
     (at_connect a \<noteq> Some (Ok ()) \<longrightarrow> at_connect_us a \<le> NETWORK_CONNECTING_TIMEOUT_SEC * 1000000 \<and> at_close_us a \<le> D)"

text \<open>The task between two attempts: offline for less than 301 s and \<open>D\<close>, with a delay within its bounds.\<close>

definition waiting :: "nat \<Rightarrow> ('u, 'c) task_state \<Rightarrow> bool" where
  "waiting D t \<longleftrightarrow> (\<exists>since. tk_offline_since t = Some since \<and> since \<le> tk_now t \<and> tk_now t - since < 301 * 1000000 + D)
     \<and> 3 \<le> unat (tk_next_retry_sec t) \<and> unat (tk_next_retry_sec t) \<le> 300"

lemma waiting_new: "waiting D (network_task_new now)"
  by (simp add: waiting_def network_task_new_def MIN_RETRY_DELAY_SEC_def)

lemma backoff_value:
  assumes "unat r \<le> 300"
  shows "unat (backoff r) = min 300 (2 * unat r)" and "unat (r * 1000) = unat r * 1000"
proof -
  have "unat (r * 2) = unat r * 2"
    using assms by (subst unat_mult_lem [THEN iffD1]) simp_all
  then show "unat (backoff r) = min 300 (2 * unat r)"
    by (simp add: backoff_def RETRY_TIMEOUT_SEC_def word_less_nat_alt Let_def)
  show "unat (r * 1000) = unat r * 1000"
    using assms by (subst unat_mult_lem [THEN iffD1]) simp_all
qed

lemma decision_value:
  assumes "e < 2 ^ 32 - 300" and "unat r \<le> 300"
  shows "(of_nat e + r \<le> RETRY_TIMEOUT_SEC) = (e + unat r \<le> 300)"
proof -
  have "unat (of_nat e :: u32) = e"
    using assms(1) by (simp add: unat_of_nat take_bit_nat_eq_self)
  then have "unat (of_nat e + r) = e + unat r"
    using assms by (subst unat_add_lem [THEN iffD1]) simp_all
  then show ?thesis
    by (simp add: word_le_nat_alt RETRY_TIMEOUT_SEC_def)
qed

lemma failed_round:
  assumes "failed a" and "in_time D a" and "waiting D t" and "D \<le> 10 ^ 15" and "tk_offline_since t = Some since"
  defines "now \<equiv> tk_now t + at_connect_us a + at_close_us a"
  defines "r \<equiv> attempt_round a t"
  shows "tk_offline_since (snd r) = Some since"
    and "(now - since) div 1000000 + unat (tk_next_retry_sec t) \<le> 300 \<Longrightarrow> fst r = TS_Retrying \<and> waiting D (snd r)
      \<and> tk_now (snd r) = now + unat (tk_next_retry_sec t) * 1000000 + at_extra_us a
      \<and> unat (tk_next_retry_sec (snd r)) = min 300 (2 * unat (tk_next_retry_sec t))"
    and "300 < (now - since) div 1000000 + unat (tk_next_retry_sec t) \<Longrightarrow> fst r = TS_Returned
      \<and> tk_now (snd r) = now \<and> now - since < (301 + NETWORK_CONNECTING_TIMEOUT_SEC) * 1000000 + 2 * D"
proof -
  have since: "since \<le> tk_now t" "tk_now t - since < 301 * 1000000 + D" and retry: "3 \<le> unat (tk_next_retry_sec t)" "unat (tk_next_retry_sec t) \<le> 300"
    using assms(3,5) by (auto simp: waiting_def)
  have time: "at_connect_us a \<le> NETWORK_CONNECTING_TIMEOUT_SEC * 1000000" "at_close_us a \<le> D" "at_extra_us a \<le> D"
    using assms(1,2) by (auto simp: in_time_def failed_def)
  then have now: "now - since < (301 + NETWORK_CONNECTING_TIMEOUT_SEC) * 1000000 + 2 * D"
    using since by (simp add: now_def NETWORK_CONNECTING_TIMEOUT_SEC_def)
  then have "elapsed_sec now since < 2 ^ 32 - 300"
    using assms(4) by (simp add: elapsed_sec_def NETWORK_CONNECTING_TIMEOUT_SEC_def div_less_iff_less_mult)
  note decision = decision_value [OF this retry(2)]
  obtain e where e: "at_connect a = Some (Err e)"
    using assms(1) by (auto simp: failed_def)
  define t1 where "t1 = emit [Ev_Signal (Sig_Network NS_ConnectFailed)] (t\<lparr>tk_now := now\<rparr>)"
  have r: "r = (if elapsed_sec now since + unat (tk_next_retry_sec t) \<le> 300
      then (TS_Retrying, t1\<lparr>tk_now := now + unat (tk_next_retry_sec t * 1000) * 1000 + at_extra_us a,
                          tk_next_retry_sec := backoff (tk_next_retry_sec t)\<rparr>)
      else (TS_Returned, task_return t1))"
    using e assms(5) decision
    by (simp add: r_def t1_def attempt_round_def connect_and_handle_def decide_retry_def now_def Let_def add.assoc emit_def)
  have ret: "tk_offline_since (task_return t1) = Some since" "tk_now (task_return t1) = now"
    using assms(5) by (simp_all add: task_return_def t1_def split: option.splits)
  show "tk_offline_since (snd r) = Some since"
    using ret assms(5) by (simp add: r t1_def)
  show "fst r = TS_Returned \<and> tk_now (snd r) = now \<and> now - since < (301 + NETWORK_CONNECTING_TIMEOUT_SEC) * 1000000 + 2 * D"
    if "300 < (now - since) div 1000000 + unat (tk_next_retry_sec t)"
    using that now ret by (simp add: r elapsed_sec_def)
  show "fst r = TS_Retrying \<and> waiting D (snd r)
      \<and> tk_now (snd r) = now + unat (tk_next_retry_sec t) * 1000000 + at_extra_us a
      \<and> unat (tk_next_retry_sec (snd r)) = min 300 (2 * unat (tk_next_retry_sec t))"
    if d: "(now - since) div 1000000 + unat (tk_next_retry_sec t) \<le> 300"
  proof -
    have "now - since < (301 - unat (tk_next_retry_sec t)) * 1000000"
      using d retry by (simp add: div_less_iff_less_mult [symmetric])
    then have "now + unat (tk_next_retry_sec t) * 1000000 + at_extra_us a - since < 301 * 1000000 + D"
      using retry time since unfolding now_def by (simp add: diff_mult_distrib)
    then show ?thesis
      using d retry since assms(5) by (simp add: r elapsed_sec_def t1_def waiting_def backoff_value now_def)
  qed
qed

lemma connected_round_waiting:
  assumes "at_connect a = Some (Ok ())" and "in_time D a" and "waiting D t" and "attempt_round a t = (TS_Retrying, t1)"
  shows "waiting D t1"
proof -
  obtain r t2 where c: "connect_and_handle a t = (r, t2)"
    by (metis surj_pair)
  then have t2: "tk_offline_since t2 = None" "tk_next_retry_sec t2 = tk_next_retry_sec t"
    using assms(1) by (auto simp: connect_and_handle_def Let_def split: option.splits prod.splits)
  obtain reason where "r = Some reason"
    using assms(4) c by (cases r) (simp_all add: attempt_round_def)
  then have "tk_offline_since t1 = Some (tk_now t2)" "tk_next_retry_sec t1 = backoff (tk_next_retry_sec t)"
    "tk_now t1 = tk_now t2 + unat (tk_next_retry_sec t * 1000) * 1000 + at_extra_us a"
    using assms(4) c t2 by (auto simp: attempt_round_def decide_retry_def Let_def split: if_splits)
  then show ?thesis
    using assms(2,3) by (auto simp: waiting_def in_time_def backoff_value)
qed

lemma attempt_waiting:
  assumes "in_time D a" and "waiting D t" and "D \<le> 10 ^ 15" and "attempt_round a t = (TS_Retrying, t1)"
  shows "waiting D t1"
proof (cases "at_connect a")
  case None
  then show ?thesis
    using assms(4) by (auto simp: attempt_round_def connect_and_handle_def Let_def split: prod.splits)
next
  case (Some r)
  obtain since where since: "tk_offline_since t = Some since"
    using assms(2) by (auto simp: waiting_def)
  show ?thesis
  proof (cases r)
    case (Inl e)
    then show ?thesis
      using failed_round(2,3) [OF _ assms(1,2,3) since] Some assms(4) by (fastforce simp: failed_def not_le)
  next
    case (Inr u)
    then show ?thesis
      using connected_round_waiting [OF _ assms(1,2,4)] Some by simp
  qed
qed

lemma task_waiting:
  assumes "\<forall>a \<in> set as. in_time D a" and "waiting D t" and "D \<le> 10 ^ 15" and "network_task as t = (TS_Retrying, t1)"
  shows "waiting D t1"
  using assms
proof (induction "as" arbitrary: t)
  case (Cons a "as")
  obtain s2 t2 where a: "attempt_round a t = (s2, t2)"
    by (metis surj_pair)
  with Cons.prems(4) have s2: "s2 = TS_Retrying"
    by (cases s2) simp_all
  then show ?case
    using Cons.IH [of t2] Cons.prems a attempt_waiting [of D a t t2] by simp
qed simp

text \<open>After \<open>k\<close> retries the delay has doubled \<open>k\<close> times and the task has been offline for the sum of them.\<close>

lemma gives_up_from:
  assumes "\<forall>a \<in> set as. failed a \<and> in_time D a" and "waiting D t" and "D \<le> 10 ^ 15" and "tk_offline_since t = Some since"
    and "length as = 7 - k" and "k \<le> 6"
    and "(3 * 2 ^ k - 3) * 1000000 \<le> tk_now t - since" and "min 300 (3 * 2 ^ k) \<le> unat (tk_next_retry_sec t)"
  defines "r \<equiv> network_task as t"
  shows "fst r = TS_Returned \<and> tk_offline_since (snd r) = Some since
    \<and> tk_now (snd r) - since < (301 + NETWORK_CONNECTING_TIMEOUT_SEC) * 1000000 + 2 * D"
  using assms(1-8) unfolding r_def
proof (induction "as" arbitrary: t k)
  case (Cons a "as")
  define now where "now = tk_now t + at_connect_us a + at_close_us a"
  note step = failed_round [OF _ _ Cons.prems(2,3,4), of a, folded now_def]
  show ?case
  proof (cases "(now - since) div 1000000 + unat (tk_next_retry_sec t) \<le> 300")
    case False
    then show ?thesis
      using step(1,3) Cons.prems(1) by (auto simp: split: prod.splits)
  next
    case True
    have since: "since \<le> tk_now t"
      using Cons.prems(2,4) by (auto simp: waiting_def)
    have "3 * 2 ^ k - 3 \<le> (now - since) div 1000000"
      using Cons.prems(7) by (simp add: less_eq_div_iff_mult_less_eq now_def)
    then have "3 * 2 ^ k \<le> (151 :: nat)"
      using True Cons.prems(8) by (simp add: min_def split: if_splits)
    then have k: "k \<le> 5"
      using power_increasing [of 6 k "2 :: nat"] by (cases "6 \<le> k") auto
    then have "(2 :: nat) ^ k \<le> 32"
      using power_increasing [of k 5 "2 :: nat"] by simp
    define t1 where "t1 = snd (attempt_round a t)"
    have t1: "attempt_round a t = (TS_Retrying, t1)" "waiting D t1" "tk_offline_since t1 = Some since"
      "tk_now t1 = now + unat (tk_next_retry_sec t) * 1000000 + at_extra_us a"
      "unat (tk_next_retry_sec t1) = min 300 (2 * unat (tk_next_retry_sec t))"
      using step(1,2) True Cons.prems(1) by (simp_all add: t1_def prod_eq_iff)
    have "(3 * 2 ^ Suc k - 3) * 1000000 \<le> tk_now t1 - since"
      using Cons.prems(7,8) \<open>2 ^ k \<le> 32\<close> since unfolding t1(4) now_def by (simp add: min_def split: if_splits)
    moreover have "min 300 (3 * 2 ^ Suc k) \<le> unat (tk_next_retry_sec t1)"
      using Cons.prems(8) \<open>2 ^ k \<le> 32\<close> unfolding t1(5) by (simp add: min_def split: if_splits)
    ultimately show ?thesis
      using Cons.IH [of t1 "Suc k"] Cons.prems(1,3,5) t1(1,2,3) k by simp
  qed
qed simp

text \<open>
  C20. When a task cannot connect any more, it gives up after at most seven attempts, whatever happened before, and then
  it has been offline for less than 301 s, the time of one connection attempt, and twice the time \<open>D\<close> that the code
  does not account for. (The documented bound is 300 s and the time of one attempt: the elapsed time is rounded down.)
\<close>

theorem gives_up_in_time:
  assumes "network_task as0 (network_task_new now) = (TS_Retrying, t)"
    and "\<forall>a \<in> set (as0 @ as). in_time D a" and "D \<le> 10 ^ 15" and "length as = 7" and "\<forall>a \<in> set as. failed a"
  shows "\<exists>t1 since. network_task as t = (TS_Returned, t1) \<and> tk_offline_since t1 = Some since
    \<and> tk_now t1 - since < (301 + NETWORK_CONNECTING_TIMEOUT_SEC) * 1000000 + 2 * D"
proof -
  have w: "waiting D t"
    using task_waiting [OF _ waiting_new assms(3,1)] assms(2) by simp
  then obtain since where since: "tk_offline_since t = Some since" "3 \<le> unat (tk_next_retry_sec t)"
    by (auto simp: waiting_def)
  then show ?thesis
    using gives_up_from [OF _ w assms(3) since(1), of as 0] assms(2,4,5) by (auto intro!: exI [of _ "snd (network_task as t)"] prod_eqI)
qed

definition ex_failed :: "(nat, unit, unit) attempt" where
  "ex_failed = ex_attempt\<lparr>at_connect := Some (Err NE_TimeOut), at_connect_us := 2000000\<rparr>"

theorem gives_up_in_time_witness:
  "\<exists>t1 since. network_task (replicate 7 ex_failed) (network_task_new 0) = (TS_Returned, t1) \<and> tk_offline_since t1 = Some since
    \<and> tk_now t1 - since < (301 + NETWORK_CONNECTING_TIMEOUT_SEC) * 1000000 + 2 * 0"
  by (rule gives_up_in_time [of "[]" 0])
    (simp_all add: ex_failed_def ex_attempt_def in_time_def failed_def NETWORK_CONNECTING_TIMEOUT_SEC_def)

end
