(* ===== verification/Network_Pipeline.thy ===== *)
theory Network_Pipeline
  imports Dispatch_Task Network_Theorems
begin

text \<open>
  The network task next to the dispatch task, on a device whose messages all come from the upload queue of the dispatcher.
  The effects of a round of the network task happen one after the other, and the dispatch task runs in
  between. Every run of both is a run of the dispatch machine, in which the messages that the network holds are the
  pending upload, so the promises of the pipeline hold up to the server.
\<close>

section \<open>Both tasks\<close>

text \<open>
  \<open>jt_todo\<close> are the effects of the current round that have not happened yet, \<open>jt_log\<close> those that have. What a status message
  contains plays no role here.
\<close>

record ('d, 'c) joint =
  jt_system :: "'d dispatch_system"
  jt_draining :: bool
  jt_net :: "confirmable net_state"
  jt_todo :: "(confirmable, 'c) net_event list"
  jt_log :: "(confirmable, 'c) net_event list"

definition joint_start :: "'d stream_pair_store \<Rightarrow> ('d, 'c) joint" where
  "joint_start store =
     \<lparr>jt_system = dispatch_start store, jt_draining = False,
      jt_net = \<lparr>ns_timeout_s = DEFAULT_TIMEOUT_S, ns_pending_upload = None\<rparr>, jt_todo = [], jt_log = []\<rparr>"

text \<open>What an effect of the network task does to the queue and the store; \<open>None\<close> if it is not possible.\<close>

fun net_effect :: "(confirmable, 'c) net_event \<Rightarrow> 'd dispatch_system \<Rightarrow> 'd dispatch_system option" where
  "net_effect (Ev_Recv c) s =
     (case dt_upload (dy_task s) of
        c' # rest \<Rightarrow>
          if c' = c then Some (s\<lparr>dy_task := (dy_task s)\<lparr>dt_upload := rest\<rparr>, dy_network := dy_network s @ [c]\<rparr>) else None
      | [] \<Rightarrow> None)"
| "net_effect (Ev_Confirm c) s =
     (case dy_network s of
        c' # rest \<Rightarrow>
          if c' = c then Some (s\<lparr>dy_network := rest, dy_confirmed := handle_id c @ dy_confirmed s,
            dy_task := (dy_task s)\<lparr>dt_store := confirmable_confirm c (dt_store (dy_task s))\<rparr>\<rparr>) else None
      | [] \<Rightarrow> None)"
| "net_effect (Ev_Drop c) s =
     (case dy_network s of
        c' # rest \<Rightarrow>
          if c' = c then Some (s\<lparr>dy_network := rest,
            dy_task := (dy_task s)\<lparr>dt_store := confirmable_drop c (dt_store (dy_task s))\<rparr>\<rparr>) else None
      | [] \<Rightarrow> None)"
| "net_effect _ s = Some s"

inductive joint_step ::
  "'d circular_db \<Rightarrow> (bytes \<Rightarrow> u32) \<Rightarrow> nat \<Rightarrow> nat \<Rightarrow> nat \<Rightarrow> ('d, 'c) joint \<Rightarrow> ('d, 'c) joint \<Rightarrow> bool"
  for DB crc B len cap where
  dispatcher: "dispatch_step DB crc B len cap (jt_system j) s \<Longrightarrow> dy_network s = dy_network (jt_system j) \<Longrightarrow>
    joint_step DB crc B len cap j (j\<lparr>jt_system := s\<rparr>)"
| net_round: "jt_todo j = [] \<Longrightarrow> ri_drain i = None \<Longrightarrow> connection_round (i :: (confirmable, unit) round_input) (jt_draining j, jt_net j) = (reason, (dp, st), ev) \<Longrightarrow>
    joint_step DB crc B len cap j (j\<lparr>jt_draining := dp, jt_net := st, jt_todo := ev\<rparr>)"
| net_reconnect: "jt_todo j = [] \<Longrightarrow> joint_step DB crc B len cap j (j\<lparr>jt_draining := False\<rparr>)"
| net_return: "jt_todo j = [] \<Longrightarrow>
    joint_step DB crc B len cap j (j\<lparr>jt_net := (jt_net j)\<lparr>ns_pending_upload := None\<rparr>, jt_todo := map Ev_Drop (pending_list (jt_net j))\<rparr>)"
| net_effects: "jt_todo j = e # es \<Longrightarrow> net_effect e (jt_system j) = Some s \<Longrightarrow>
    joint_step DB crc B len cap j (j\<lparr>jt_system := s, jt_todo := es, jt_log := jt_log j @ [e]\<rparr>)"

inductive joint_reachable ::
  "'d circular_db \<Rightarrow> (bytes \<Rightarrow> u32) \<Rightarrow> nat \<Rightarrow> nat \<Rightarrow> nat \<Rightarrow> ('d, 'c) joint \<Rightarrow> ('d, 'c) joint \<Rightarrow> bool"
  for DB crc B len cap j0 where
  init: "joint_reachable DB crc B len cap j0 j0"
| step: "joint_reachable DB crc B len cap j0 j \<Longrightarrow> numbers_left (jt_system j) \<Longrightarrow> joint_step DB crc B len cap j j' \<Longrightarrow>
    joint_reachable DB crc B len cap j0 j'"

inductive_cases joint_stepE: "joint_step DB crc B len cap j j'"

section \<open>The messages that the network task holds\<close>

text \<open>What the network task holds after some effects: one message at most.\<close>

fun run_held :: "'u list \<Rightarrow> ('u, 'c) net_event list \<Rightarrow> 'u list option" where
  "run_held held [] = Some held"
| "run_held held (Ev_Recv u # es) = (if held = [] then run_held [u] es else None)"
| "run_held held (Ev_Confirm u # es) = (if held = [u] then run_held [] es else None)"
| "run_held held (Ev_Drop u # es) = (if held = [u] then run_held [] es else None)"
| "run_held held (_ # es) = run_held held es"

lemma run_held_append: "run_held held (es @ es') = Option.bind (run_held held es) (\<lambda>held'. run_held held' es')"
  by (induction held es rule: run_held.induct) auto

lemma next_op_held:
  assumes "next_op i dp st = (r, st1, ev)"
  shows "run_held (pending_list st) ev = Some (pending_list st1)"
  using assms by (auto simp: next_op_def pending_list_def split: option.splits if_splits select3.splits sum.splits)

lemma perform_held:
  assumes "perform i op dp st = (r, dp1, st1, ev)"
  shows "(\<forall>held. run_held held ev = Some held) \<and> pending_list st1 = pending_list st"
  using assms by (auto simp: perform_def pending_list_def split: net_op.splits network_action.splits
      read_outcome.splits firmware_download_start.splits sum.splits if_splits)

lemma conclude_held:
  assumes "conclude up r st = (reason, st1, ev)"
  shows "run_held (pending_list st) ev = Some (pending_list st1)"
  using assms by (auto simp: conclude_def pending_list_def split: sum.splits net_error.splits option.splits if_splits)

lemma round_held:
  assumes "connection_round i (dp, st) = (r, (dp1, st1), ev)"
  shows "run_held (pending_list st) ev = Some (pending_list st1)"
  using assms unfolding connection_round_def
  by (auto split: prod.splits option.splits sum.splits
      dest!: next_op_held perform_held conclude_held simp: run_held_append)

section \<open>Refinement\<close>

text \<open>
  The network holds what the pending effects turn into the pending upload, the confirmations of the dispatch machine
  are those of the log, and each of them follows on a successful transmission.
\<close>

definition joint_inv :: "('d, 'c) joint \<Rightarrow> bool" where
  "joint_inv j \<longleftrightarrow> run_held (dy_network (jt_system j)) (jt_todo j) = Some (pending_list (jt_net j))
     \<and> set (dy_confirmed (jt_system j)) = (\<Union>c \<in> set (confirmed (jt_log j)). set (handle_id c))
     \<and> sent_first (jt_log j @ jt_todo j)"

lemma joint_start_inv: "joint_inv (joint_start store)"
  by (simp add: joint_inv_def joint_start_def dispatch_start_def pending_list_def)

lemma own_step_confirmed:
  assumes "dispatch_step DB crc B len cap s s'" and "dy_network s' = dy_network s"
  shows "dy_confirmed s' = dy_confirmed s"
  using assms
proof cases
  case (network_confirm i c)
  then have "length (dy_network s') < length (dy_network s)"
    by simp
  with assms(2) show ?thesis
    by simp
qed auto

lemma net_effect_step:
  assumes "net_effect e s = Some s'" and "run_held (dy_network s) (e # es) = Some h"
  shows "s' = s \<or> dispatch_step DB crc B len cap s s'"
    and "run_held (dy_network s') es = Some h"
    and "set (dy_confirmed s') = (\<Union>c \<in> set (confirmed [e]). set (handle_id c)) \<union> set (dy_confirmed s)"
proof -
  show "run_held (dy_network s') es = Some h"
    "set (dy_confirmed s') = (\<Union>c \<in> set (confirmed [e]). set (handle_id c)) \<union> set (dy_confirmed s)"
    using assms by (cases e; auto split: list.splits if_splits)+
  show "s' = s \<or> dispatch_step DB crc B len cap s s'"
    using assms dispatch_step.network_confirm [of 0 s _ DB crc B len cap] dispatch_step.network_drop [of 0 s _ DB crc B len cap]
      dispatch_step.network_recv [of s _ _ DB crc B len cap]
    by (cases e) (auto split: list.splits if_splits)
qed

text \<open>A confirmation or a return of a message is always possible: the network task holds it.\<close>

lemma net_effect_possible:
  assumes "joint_inv j" and "jt_todo j = e # es" and "\<forall>c. e \<noteq> Ev_Recv c"
  shows "\<exists>s. net_effect e (jt_system j) = Some s"
  using assms by (cases e) (auto simp: joint_inv_def split: if_splits)

lemma joint_step_inv:
  assumes "joint_step DB crc B len cap j j'" and "joint_inv j"
  shows "joint_inv j'" and "jt_system j' = jt_system j \<or> dispatch_step DB crc B len cap (jt_system j) (jt_system j')"
  using assms
proof (induction rule: joint_step.induct)
  case (dispatcher j s)
  case 1 then show ?case
    using dispatcher own_step_confirmed [of DB crc B len cap "jt_system j" s] by (simp add: joint_inv_def)
  case 2 then show ?case
    using dispatcher by simp
next
  case (net_round j i reason dp st ev)
  note acc = round_accounts [OF net_round(3)] round_held [OF net_round(3)]
  case 1 then show ?case
    using net_round acc by (simp add: joint_inv_def accounts_def sent_first_append)
  case 2 then show ?case
    by simp
next
  case (net_reconnect j)
  case 1 then show ?case
    using net_reconnect by (simp add: joint_inv_def)
  case 2 then show ?case
    by simp
next
  case (net_return j)
  have "sent_first (map Ev_Drop (pending_list (jt_net j)) :: (confirmable, 'b) net_event list)"
    by (rule sent_first_quiet) (simp add: pending_list_def split: option.split)
  case 1 then show ?case
    using net_return \<open>sent_first _\<close> by (auto simp: joint_inv_def pending_list_def sent_first_append split: option.split)
  case 2 then show ?case
    by simp
next
  case (net_effects j e es s)
  case 1 then show ?case
    using net_effects net_effect_step(2,3) [of e "jt_system j" s es] by (auto simp: joint_inv_def split: net_event.splits)
  case 2 then show ?case
    using net_effects net_effect_step(1) [of e "jt_system j" s es _ DB crc B len cap] by (auto simp: joint_inv_def)
qed

lemma joint_refines:
  assumes "joint_reachable DB crc B len cap (joint_start store) j"
  shows "dispatch_reachable DB crc B len cap (dispatch_start store) (jt_system j)" and "joint_inv j"
proof -
  have "dispatch_reachable DB crc B len cap (dispatch_start store) (jt_system j) \<and> joint_inv j"
    using assms
  proof induction
    case init
    then show ?case
      using joint_start_inv by (auto simp: joint_start_def intro: dispatch_reachable.init)
  next
    case (step j j')
    then show ?case
      using joint_step_inv [OF step(3)] by (metis dispatch_reachable.step)
  qed
  then show "dispatch_reachable DB crc B len cap (dispatch_start store) (jt_system j)" "joint_inv j"
    by auto
qed

lemma confirmed_was_sent:
  assumes "joint_inv j" and "x \<in> set (dy_confirmed (jt_system j))"
  shows "\<exists>c. Ev_Send c (Ok ()) \<in> set (jt_log j) \<and> x \<in> set (handle_id c)"
proof -
  from assms obtain c where c: "c \<in> set (confirmed (jt_log j))" "x \<in> set (handle_id c)"
    by (auto simp: joint_inv_def)
  then have "Ev_Confirm c \<in> set (jt_log j)"
    by (auto simp: confirmed_def split: net_event.splits)
  then obtain pre post where log: "jt_log j = pre @ Ev_Confirm c # post"
    by (meson split_list)
  then have "pre \<noteq> []" "last pre = Ev_Send c (Ok ())"
    using assms(1) unfolding joint_inv_def sent_first_def by auto
  then have "Ev_Send c (Ok ()) \<in> set (jt_log j)"
    using log last_in_set [of pre] by auto
  with c(2) show ?thesis
    by blast
qed

end
