(* ===== verification/Delivery_Theorems.thy ===== *)
theory Delivery_Theorems
  imports Pipeline_Theorems Network_Pipeline
begin

text \<open>
  Delivery from the flash to the server: the pipeline with the network task in it.
\<close>

text \<open>A run of both tasks from their start on a database \<open>d\<close>.\<close>

definition delivery_run ::
  "('f, 'e) nor_flash \<Rightarrow> nat \<Rightarrow> (stream_id \<Rightarrow> circular) \<Rightarrow> (bytes \<Rightarrow> u32) \<Rightarrow> nat \<Rightarrow> nat \<Rightarrow> 'f block_device
   \<Rightarrow> ('f block_device, 'c) joint \<Rightarrow> bool" where
  "delivery_run F B circ crc len cap d j \<longleftrightarrow>
     (\<exists>p0. pair_initialize (database F B) (pair_new B d (circ Sensor_Data_Stream) (circ Event_Stream)) = (Ok (), p0)
       \<and> (\<forall>w. start_ok MAX_PEEKS (fragment_count B (circ w)) (fragments_per_block B (circ w))
            (fst (existing_range (ss_queue (ps_stream w p0)))) (q_write_index (ss_queue (ps_stream w p0))))
       \<and> joint_reachable (database F B) crc B len cap (joint_start p0) j)"

lemma delivery_run_pipeline:
  assumes "delivery_run F B circ crc len cap d j"
  shows "pipeline_run F B circ crc len cap d (jt_system j)" and "joint_inv j"
  using assms joint_refines unfolding delivery_run_def pipeline_run_def by blast+

abbreviation ex_joint :: "in_memory_flash block_device dispatch_system \<Rightarrow> (in_memory_flash block_device, unit) joint" where
  "ex_joint s \<equiv> (joint_start ex_pair0)\<lparr>jt_system := s\<rparr>"

abbreviation ex_joint_reach :: "in_memory_flash block_device dispatch_system \<Rightarrow> bool" where
  "ex_joint_reach s \<equiv> joint_reachable ex_db ex_sum 48 40 4 (joint_start ex_pair0) (ex_joint s)"

lemma ex_joint_step:
  assumes "ex_joint_reach (ex_state store pc requested active signals)" and "store = ex_pair0 \<or> store = ex_idle_pair"
    and "ex_steps (ex_state store pc requested active signals) s'" and "dy_network s' = []"
  shows "ex_joint_reach s'"
proof -
  have "dy_network (ex_state store pc requested active signals) = []"
    by (simp add: ex_state_def)
  then show ?thesis
    using joint_reachable.step [OF assms(1)] joint_step.dispatcher [of ex_db ex_sum 48 40 4 "ex_joint (ex_state store pc requested active signals)" s']
      ex_numbers_left [OF assms(2)] assms(3,4) by simp
qed

lemma ex_delivery_run: "delivery_run (in_memory 48) 48 ex_streams ex_sum 40 4 ex_device (ex_joint ex_event_stored)"
proof -
  have "ex_joint (ex_state ex_pair0 At_PeekEvent False False []) = joint_start ex_pair0"
    by (simp add: joint_start_def ex_start)
  then have "ex_joint_reach (ex_state ex_pair0 At_PeekEvent False False [])"
    using joint_reachable.init by metis
  from ex_joint_step [OF this _ ex_peek_steps(1)] have "ex_joint_reach (ex_state ex_pair0 At_PeekData False False [])"
    by (simp add: ex_state_def)
  from ex_joint_step [OF this _ ex_peek_steps(2)] have "ex_joint_reach (ex_idle At_Select False False)"
    by (simp add: ex_state_def)
  from ex_joint_step [OF this _ ex_event_step] have "ex_joint_reach ex_event_stored"
    by (simp add: ex_event_stored_def ex_state_def)
  then show ?thesis
    unfolding delivery_run_def using ex_pair_init ex_start_ok_pair by blast
qed

text \<open>
  C1. Delivery to the server: in every run of the dispatch task and the network task, whatever the flash, the pool, the
  connection and the interleaving do, every message whose store the dispatch task logged was sent to the server
  and the client reported success, or it is still on flash with its length and checksum, or its stored copy was given up
  after a failed peek.
\<close>

theorem sent_or_still_stored:
  assumes "dispatch_flash F mem circ" and "streams_ok mem B circ d" and "delivery_run F B circ crc len cap d j"
  shows "\<exists>p. dispatch_run F B circ crc d p \<and> py_store p = dt_store (dy_task (jt_system j))
    \<and> (\<forall>w n data. logged_map (dt_logged (dy_task (jt_system j))) w n = Some data \<longrightarrow>
          (\<exists>c m. Ev_Send c (Ok ()) \<in> set (jt_log j) \<and> (w, m) \<in> set (handle_id c) \<and> unat m = n)
          \<or> n \<in> gh_skipped (py_ghost p w)
          \<or> holds_item crc data (circ_lookup B (circ w) (mem (bd_flash (ps_db (dt_store (dy_task (jt_system j)))))) (of_nat n)))"
proof -
  obtain p where p: "dispatch_run F B circ crc d p"
    "tracked (on_the_way (jt_system j)) (set (dy_confirmed (jt_system j))) (logged_map (dt_logged (dy_task (jt_system j))))
       (dt_store (dy_task (jt_system j))) p"
    using delivery_run_pipeline(1) [OF assms(3)] by (rule pipeline_run_store)
  have sent: "\<exists>c m. Ev_Send c (Ok ()) \<in> set (jt_log j) \<and> (w, m) \<in> set (handle_id c) \<and> unat m = n"
    if "n \<in> confirmed_on (set (dy_confirmed (jt_system j))) w" for w n
    using that confirmed_was_sent [OF delivery_run_pipeline(2) [OF assms(3)]] by (fastforce simp: confirmed_on_def)
  show ?thesis
    using p sent run_durable [OF assms(1,2) p(1)] unfolding tracked_def by (intro exI [of _ p]) metis
qed

theorem sent_or_still_stored_witness:
  "\<exists>p :: in_memory_flash block_device pair_system. py_store p = ex_event_pair \<and> (0 \<in> gh_skipped (py_ghost p Event_Stream) \<or>
     holds_item ex_sum (as_slice ex_event) (circ_lookup 48 (ex_streams Event_Stream) (memory (bd_flash (ps_db ex_event_pair))) 0))"
proof -
  have fields: "dt_store (dy_task (jt_system (ex_joint ex_event_stored))) = ex_event_pair" "jt_log (ex_joint ex_event_stored) = []"
    "dt_logged (dy_task (jt_system (ex_joint ex_event_stored))) = [(Event_Stream, 0, as_slice ex_event)]"
    by (simp_all add: ex_event_stored_def ex_state_def ex_task_def joint_start_def)
  obtain p :: "in_memory_flash block_device pair_system" where p: "py_store p = ex_event_pair"
    "\<forall>w n data. logged_map [(Event_Stream, 0, as_slice ex_event)] w n = Some data \<longrightarrow>
       (\<exists>c m. Ev_Send c (Ok ()) \<in> set ([] :: (confirmable, unit) net_event list) \<and> (w, m) \<in> set (handle_id c) \<and> unat m = n)
       \<or> n \<in> gh_skipped (py_ghost p w)
       \<or> holds_item ex_sum data (circ_lookup 48 (ex_streams w) (memory (bd_flash (ps_db ex_event_pair))) (of_nat n))"
    using sent_or_still_stored [OF ex_flash.dispatch_flash_axioms ex_streams_ok ex_delivery_run]
    unfolding fields by blast
  show ?thesis
    using p(1) p(2) [rule_format, of Event_Stream 0 "as_slice ex_event"]
    by (intro exI [of _ p]) (simp add: logged_map_def del: ex_streams.simps)
qed

end
