(* ===== verification/Spec2Isabelle.thy ===== *)
theory Spec2Isabelle
  imports Block_Theorems Queue_Theorems Circular_Theorems File_Theorems Dispatch_Theorems Samples_Correct Mail_Theorems
    Spi_Theorems Boot_Theorems Buffer_Theorems Double_Buffer_Theorems Pipeline_Theorems Adjust_Theorems
    Session_Theorems Sync_Primitives Config_Theorems Bitwise Boot_Stats_Theorems
    Delivery_Theorems
begin

text \<open>
  A verification library for \<^verbatim>\<open>sensor-link\<close>: the firmware library of battery-powered sensors
  (\<^verbatim>\<open>sensor-link-firmware\<close>), the protocol crate it shares with the servers (\<^verbatim>\<open>sensor-link-protocol\<close>)
  and the e-mail notifier of the server side (\<^verbatim>\<open>server/sensor-link-notify\<close>).

  \<^bold>\<open>The program.\<close> A sensor collects batches of samples and events. The dispatch task
  (\<^verbatim>\<open>logic/dispatch.rs\<close>) buffers samples into packets (\<^verbatim>\<open>dispatch/buffer.rs\<close>, with the formats of
  \<^verbatim>\<open>samples/q15.rs\<close> and \<^verbatim>\<open>q15xl.rs\<close>), wraps them as messages with a topic (\<^verbatim>\<open>serialize.rs\<close>,
  \<^verbatim>\<open>topics.rs\<close>), stores them in one of two streams (\<^verbatim>\<open>storage/dispatch_store.rs\<close>,
  \<^verbatim>\<open>common/stream_store.rs\<close>), peeks them again and hands them to the network task, which confirms or drops
  each of them through the handles of the peek queue (\<^verbatim>\<open>common/queue.rs\<close>). A stream is a circular store
  on a flash database (\<^verbatim>\<open>flash_db.rs\<close>, \<^verbatim>\<open>flash_db/circular_store.rs\<close>, \<^verbatim>\<open>file_store.rs\<close>) of blocks and
  fragments (\<^verbatim>\<open>flash_db/block_layer.rs\<close>) on a NOR flash chip behind an SPI driver
  (\<^verbatim>\<open>drivers/spi_flash.rs\<close>). Firmware images are received into a file of the same database; the boot loader
  (\<^verbatim>\<open>bootloader.rs\<close>) validates them (\<^verbatim>\<open>meta/firmware.rs\<close>, \<^verbatim>\<open>firmware/v2.rs\<close>) and installs them. Tasks
  share values through a lock-free double buffer (\<^verbatim>\<open>sync/mod.rs\<close>), and streams of data through a session
  channel (\<^verbatim>\<open>sync/session_channel.rs\<close>). Timestamps come from a clock that interpolates an accurate clock with a fast
  one (\<^verbatim>\<open>drivers/time.rs\<close>) and whose error is estimated from the temperature and the time of the server
  (\<^verbatim>\<open>logic/time_adjust.rs\<close>). A device is provisioned with a configuration section (\<^verbatim>\<open>meta/config.rs\<close>).

  \<^bold>\<open>How the program is modelled.\<close> Pure functions are functions of the same name. Code with state is an
  \<open>action\<close> of theory \<open>Prelude\<close>: a function from the state to a result (\<open>Ok\<close> or \<open>Err\<close>) and the new state, with
  \<open>and_then\<close> for the \<^verbatim>\<open>?\<close> operator and \<open>attempt\<close> where the code inspects an error. Integers that can wrap are words
  (\<open>u8\<close>, \<open>u16\<close>, \<open>u32\<close>); sizes and counters that the code keeps in \<^verbatim>\<open>usize\<close> are natural numbers, with the
  saturating or checked operations of the code written out. A trait of the code (\<^verbatim>\<open>NorFlash\<close>, the circular
  database, the SPI bus, the serializer) is a record or a function that the definitions take as an argument;
  what the code relies on is a locale, and every locale is interpreted on the model of the code that provides it.
  Asynchronous code is a step relation: one step is one call of another component, and the steps of different
  tasks interleave. Logging and delays that no result depends on are left out.

  \<^bold>\<open>The parts.\<close>

  \<^item> \<open>Prelude\<close>, \<open>Nor_Flash\<close>: the actions, bytes and segments of memory; the contract of a NOR flash with
    faults (locales \<open>nor_flash_contract\<close>, \<open>torn_erase_flash\<close> and those they extend), and the simulated flash of
    \<^verbatim>\<open>storage/backend/in_memory.rs\<close> as an instance.
  \<^item> \<open>Block_Layer\<close>, \<open>Block_Layer_Correct\<close>, \<open>Block_Layer_Writes\<close>, \<open>Block_Format\<close>, \<open>Block_Progress\<close>,
    \<open>Block_Theorems\<close>: headers, markers and operations of blocks; a write that is interrupted anywhere leaves
    the old state, an invalid one or the complete new one, and nothing else changes; a format leaves the block invalid or
    formatted, unless a failed erase leaves the marker of a valid block behind.
  \<^item> \<open>Flash_Db\<close>, \<open>Circular_Store\<close>, \<open>Circular_Correct\<close>, \<open>Circular_Map\<close>, \<open>Circular_Progress\<close>, \<open>Circular_Theorems\<close>: objects,
    locks, deletion and the circular store as a fail-safe map from sequence numbers to data (locale
    \<open>circular_db_contract\<close>).
  \<^item> \<open>File_Store\<close>, \<open>File_Correct\<close>, \<open>File_Theorems\<close>: files, with the lock that hides a file while it is written.
  \<^item> \<open>Peek_Queue\<close>, \<open>Peek_Queue_Correct\<close>, \<open>Queue_Machine\<close>, \<open>Queue_Theorems\<close>: the queue of sequence numbers with
    its readers and the confirmation channel, as a state machine: every item is confirmed before it is released.
  \<^item> \<open>Stream_Store\<close>, \<open>Stream_Correct\<close>, \<open>Stream_Machine\<close>, \<open>Stream_Theorems\<close>, \<open>Dispatch_Store\<close>,
    \<open>Dispatch_Correct\<close>, \<open>Dispatch_Machine\<close>, \<open>Dispatch_Theorems\<close>: streams of checksummed items, and the two streams of
    the dispatcher on one database: what is stored stays until it is confirmed, and what is peeked is what was stored.
  \<^item> \<open>Dispatch_Task\<close>, \<open>Dispatch_Task_Correct\<close>, \<open>Pipeline_Theorems\<close>: the dispatch task with its pending items,
    upload queue and barrier, next to an abstract network. Every run of it is a run of the machine of the dispatch store
    (\<open>pipeline_refines\<close>), from which at-least-once delivery and the soundness of the barrier follow.
  \<^item> \<open>Network_Task\<close>, \<open>Network_Theorems\<close>: the loop of a connection and the retry loop of \<^verbatim>\<open>logic/network.rs\<close>, as
    functions of what the client, the queues and the timers answer; both loops run over the list of these answers, and the
    theorems hold for lists of every length. \<open>Network_Pipeline\<close>, \<open>Delivery_Theorems\<close>: the network task next to the dispatch
    task refines the network of the dispatch machine, so a message stays on flash until it was sent to the server.
  \<^item> \<open>Sample_Buffer\<close>, \<open>Sample_Buffer_Correct\<close>, \<open>Buffer_Theorems\<close>: the sample buffer cuts the stream of batches
    into packets without losing, repeating or reordering anything. The loop of \<^verbatim>\<open>push_data\<close> has rounds as fuel: two are
    enough for every well-formed batch (\<open>push_data_terminates\<close>).
  \<^item> \<open>Double_Buffer\<close>, \<open>Double_Buffer_Correct\<close>, \<open>Double_Buffer_Theorems\<close>: the double buffer at the level of single
    memory accesses of any number of threads: no torn reads, one writer.
  \<^item> \<open>Spi_Flash\<close>, \<open>Spi_Chip\<close>, \<open>Spi_Correct\<close>, \<open>Spi_Driver\<close>, \<open>Spi_Progress\<close>, \<open>Spi_Theorems\<close>: the SPI driver over an
    abstract bus. On a chip with the documented behaviour (locale \<open>spi_flash_chip\<close>, with a simulated chip as instance) each
    operation has the effects that the contract of \<open>Nor_Flash\<close> asks for, in every state in which the chip is idle; on a
    responsive chip it makes progress. It is not an instance of \<open>nor_flash_contract\<close>, which has no such condition: after a write
    that failed on the bus the chip may be busy, and a read then returns wrong bytes (\<open>Spi_Theorems\<close>).
    The status polls have the bound that the code has.
  \<^item> \<open>Firmware\<close>, \<open>Firmware_Correct\<close>, \<open>Bootloader\<close>, \<open>Boot_Theorems\<close>: image headers, signing, the streaming validator and the
    decisions of the boot loader. Hash and signature scheme are arguments (locale \<open>v2_scheme\<close>). The loops that read
    a file in slices have its length as fuel.
  \<^item> \<open>Sendable\<close>, \<open>Topics\<close>, \<open>Samples\<close>, \<open>Samples_Correct\<close>: messages, topic names and sample packets: round trips
    and exact sizes. The encoding of topic headers by postcard is an argument.
  \<^item> \<open>Combined_Time\<close>, \<open>Time_Theorems\<close>: the combined clock stays near the accurate clock whatever the fast clock does, and is
    monotone between updates; an update of the slope sets it back.
  \<^item> \<open>Float32\<close>, \<open>Time_Adjust\<close>, \<open>Adjust_Theorems\<close>: the estimator of the clock error, with the few single-precision
    operations it uses computed exactly. The sixteen rounds of the iteration are those of the code; how many of them an
    interval needs is the bound on the error of a conversion and its inverse.
  \<^item> \<open>Session_Channel\<close>, \<open>Session_Theorems\<close>, \<open>Sync_Primitives\<close>: the session channel, the reserving sender and the cell that
    is initialised once, as interleaving machines: delivery and confirmation, no lost wake-up, one value.
  \<^item> \<open>Device_Config\<close>, \<open>Config_Theorems\<close>: the configuration and bootloader sections, byte by byte.
  \<^item> \<open>Bitwise\<close>: bit fields and the transposition of a bit matrix.
  \<^item> \<open>Boot_Stats\<close>, \<open>Boot_Stats_Theorems\<close>: the reset counters of \<^verbatim>\<open>drivers/boot_stats.rs\<close>: a boot loop is
    recognised after exactly the tolerated number of resets; a second flag survives a boot.
  \<^item> \<open>Mail_Throttle\<close>, \<open>Mail_Task\<close>, \<open>Mail_Theorems\<close>: the sliding-window limiter of e-mails and the task that queues,
    batches and sends them.

  The properties are the theorems in the theories named \<open>..._Theorems\<close> (and at the end of \<open>Sendable\<close>, \<open>Topics\<close>,
  \<open>Sync_Primitives\<close> and \<open>Bitwise\<close>); each has a concrete instance next to it.

  \<^bold>\<open>Bounds and hypotheses.\<close> Sequence numbers are 32-bit words; the theorems about runs assume that they do not wrap
  (\<open>no_wrap\<close>, \<open>numbers_left\<close>). A version of the double buffer is a 32-bit word too; a read is atomic if fewer than \<open>2 ^ 32\<close>
  publications happen while it runs. The double buffer is verified for sequentially consistent memory. A flash
  operation may fail at any point and leave any mixture of old and new bits that the contract allows. From the circular
  store upwards the theorems also assume that an erase that fails and changed something does not leave the complete marker of a
  valid block (\<open>torn_erase_flash\<close>), which the traits do not promise and the comments of \<^verbatim>\<open>format_block\<close> call highly unlikely. The checksum is
  any function: integrity is stated as equality of length and checksum, or for items that were stored.

  \<^bold>\<open>Not modelled.\<close> The protocol client and MQTT (sockets); the modem driver (AT commands
  through the crate \<^verbatim>\<open>atat\<close>); the charger, ADC and temperature drivers and the conversion of samples (floating point and
  registers); payloads and the active configuration, whose encoding is derived by serde; the server core (database queries), the provisioning tool and the factory test (user interface and hardware).
\<close>

end
